(* ===== verification/Prelude.thy ===== *)
theory Prelude
  imports Main "HOL-Library.Word"
begin

text \<open>
  Shared vocabulary of the development: the machine integers of the sources, the
  arithmetic of \<^verbatim>\<open>std::size_t\<close> with its wrap-around written out, results that
  carry a diagnostic, and list lemmas that several components use.

  Identifiers, handles, sequence numbers and bit-level data are words of their width.
  Sizes and byte counters (\<^verbatim>\<open>std::size_t\<close> on the x64 builds) are natural numbers
  combined by \<open>add64\<close> and \<open>sub64\<close>, which wrap modulo \<open>W64\<close>; the invariants of
  the components show where the wrap-around cannot happen.
\<close>

type_synonym u8 = "8 word"
type_synonym u16 = "16 word"
type_synonym u32 = "32 word"
type_synonym u64 = "64 word"
type_synonym bytes = "u8 list"

text \<open>A call with an out-parameter \<^verbatim>\<open>error\<close>: the diagnostic, or the value.\<close>

type_synonym 'a res = "string + 'a"

named_theorems size_arith \<open>wrap-free cases of size arithmetic\<close>
named_theorems inv_rules \<open>operations that keep a component's invariant\<close>

section \<open>Size arithmetic\<close>

abbreviation W64 :: nat where
  "W64 \<equiv> 18446744073709551616"

abbreviation W32 :: nat where
  "W32 \<equiv> 4294967296"

definition add64 :: "nat \<Rightarrow> nat \<Rightarrow> nat" where
  "add64 a b = (a + b) mod W64"

definition sub64 :: "nat \<Rightarrow> nat \<Rightarrow> nat" where
  "sub64 a b = (a + (W64 - b mod W64)) mod W64"

lemma add64_exact [simp, size_arith]: "a + b < W64 \<Longrightarrow> add64 a b = a + b"
  by (simp add: add64_def)

lemma sub64_exact [simp, size_arith]:
  assumes "b \<le> a" and "a < W64"
  shows "sub64 a b = a - b"
proof -
  have "a + (W64 - b) = (a - b) + W64"
    using assms by simp
  then have "(a + (W64 - b)) mod W64 = (a - b) mod W64"
    by (metis mod_add_self2)
  then show ?thesis
    using assms by (simp add: sub64_def)
qed

lemma sub64_zero [simp]: "a < W64 \<Longrightarrow> sub64 a 0 = a"
  by simp

lemma add64_less: "add64 a b < W64"
  by (simp add: add64_def)

lemma sub64_less: "sub64 a b < W64"
  by (simp add: sub64_def)

text \<open>
  The admission test of every byte budget in the sources: \<^verbatim>\<open>cost > limit - used\<close>
  fails exactly when the sum fits, provided the budget is not already exceeded.
\<close>

lemma sub64_fits_iff [size_arith]:
  "u \<le> m \<Longrightarrow> m < W64 \<Longrightarrow> \<not> c > sub64 m u \<longleftrightarrow> u + c \<le> m"
  by auto

section \<open>Bytes and characters\<close>

definition byte_of_char :: "char \<Rightarrow> u8" where
  "byte_of_char c = of_char c"

definition char_of_byte :: "u8 \<Rightarrow> char" where
  "char_of_byte b = char_of (unat b)"

lemma unat_byte_of_char: "unat (byte_of_char c) = of_char c"
proof -
  have "byte_of_char c = word_of_nat (of_char c)"
    unfolding byte_of_char_def by (rule of_nat_of_char [symmetric])
  moreover have "(of_char c :: nat) < 256"
    by (rule nat_of_char_less_256)
  ultimately show ?thesis
    by (simp add: unat_of_nat take_bit_eq_mod)
qed

lemma char_of_byte_of_char [simp]: "char_of_byte (byte_of_char c) = c"
  by (simp add: char_of_byte_def unat_byte_of_char)

lemma inj_byte_of_char: "inj byte_of_char"
  by (metis injI char_of_byte_of_char)

lemma map_char_of_byte_of_char [simp]: "map char_of_byte (map byte_of_char s) = s"
  by (simp add: comp_def)

section \<open>Words\<close>

lemma word_less_inc: "(x :: 'a::len word) \<noteq> - 1 \<Longrightarrow> x < x + 1"
  by (metis inc_less_eq_triv_imp linorder_less_linear word_le_less_eq)

section \<open>Lists\<close>

lemma sum_list_map_filter_le: "sum_list (map f (filter P xs)) \<le> (sum_list (map f xs) :: nat)"
  by (induction xs) auto

lemma sum_list_tl: "xs \<noteq> [] \<Longrightarrow> sum_list (map f (tl xs)) = sum_list (map f xs) - (f (hd xs) :: nat)"
  by (cases xs) auto

lemma hd_le_sum_list: "xs \<noteq> [] \<Longrightarrow> f (hd xs) \<le> (sum_list (map f xs) :: nat)"
  by (cases xs) auto

lemma find_SomeD: "find P xs = Some x \<Longrightarrow> x \<in> set xs \<and> P x"
  by (induction xs) (auto split: if_splits)

lemma find_filter: "find P xs = (case filter P xs of [] \<Rightarrow> None | x # _ \<Rightarrow> Some x)"
  by (induction xs) auto

end
