(* ===== verification/Containers.thy ===== *)
theory Containers
  imports Prelude
begin

text \<open>
  The keyed containers of the C++ standard library that the sources use
  (\<^verbatim>\<open>std::map\<close>, \<^verbatim>\<open>std::unordered_map\<close>): association lists in ascending key
  order. \<^verbatim>\<open>std::map\<close> iterates in that order; for \<^verbatim>\<open>std::unordered_map\<close>, whose
  order is unspecified, it is one of the permitted orders.

  The locale \<open>keyed_store\<close> is the contract the components rely on (what a lookup returns
  after an assignment or an erase, how the size moves, what happens to a total taken over
  the stored values); it is interpreted on the list operations below.
\<close>

section \<open>Operations\<close>

type_synonym ('k, 'v) umap = "('k \<times> 'v) list"

definition umap_find :: "('k, 'v) umap \<Rightarrow> 'k \<Rightarrow> 'v option" where
  "umap_find m k = map_of m k"

fun umap_assign :: "'k::linorder \<Rightarrow> 'v \<Rightarrow> ('k, 'v) umap \<Rightarrow> ('k, 'v) umap" where
  "umap_assign k v [] = [(k, v)]"
| "umap_assign k v ((k', v') # m) =
     (if k < k' then (k, v) # (k', v') # m
      else if k = k' then (k, v) # m
      else (k', v') # umap_assign k v m)"

definition umap_erase :: "'k \<Rightarrow> ('k, 'v) umap \<Rightarrow> ('k, 'v) umap" where
  "umap_erase k m = filter (\<lambda>kv. fst kv \<noteq> k) m"

text \<open>\<^verbatim>\<open>emplace\<close> inserts only when the key is absent and says whether it did.\<close>

definition umap_emplace :: "'k::linorder \<Rightarrow> 'v \<Rightarrow> ('k, 'v) umap \<Rightarrow> ('k, 'v) umap \<times> bool" where
  "umap_emplace k v m =
     (case umap_find m k of None \<Rightarrow> (umap_assign k v m, True) | Some _ \<Rightarrow> (m, False))"

definition umap_size :: "('k, 'v) umap \<Rightarrow> nat" where
  "umap_size m = length m"

definition umap_total :: "('v \<Rightarrow> nat) \<Rightarrow> ('k, 'v) umap \<Rightarrow> nat" where
  "umap_total f m = sum_list (map (f \<circ> snd) m)"

fun umap_wf :: "('k::linorder, 'v) umap \<Rightarrow> bool" where
  "umap_wf [] = True"
| "umap_wf ((k, v) # m) = ((\<forall>kv \<in> set m. k < fst kv) \<and> umap_wf m)"

section \<open>The contract\<close>

locale keyed_store =
  fixes none :: "'m"
    and lookup :: "'m \<Rightarrow> 'k \<Rightarrow> 'v option"
    and assign :: "'k \<Rightarrow> 'v \<Rightarrow> 'm \<Rightarrow> 'm"
    and erase :: "'k \<Rightarrow> 'm \<Rightarrow> 'm"
    and size_of :: "'m \<Rightarrow> nat"
    and total :: "('v \<Rightarrow> nat) \<Rightarrow> 'm \<Rightarrow> nat"
    and wf :: "'m \<Rightarrow> bool"
  assumes wf_none: "wf none"
    and wf_assign: "wf m \<Longrightarrow> wf (assign k v m)"
    and wf_erase: "wf m \<Longrightarrow> wf (erase k m)"
    and lookup_none: "lookup none k = None"
    and lookup_assign: "lookup (assign k v m) k' = (if k = k' then Some v else lookup m k')"
    and lookup_erase: "lookup (erase k m) k' = (if k = k' then None else lookup m k')"
    and size_none: "size_of none = 0"
    and total_none: "total f none = 0"
    and size_assign_new: "lookup m k = None \<Longrightarrow> size_of (assign k v m) = Suc (size_of m)"
    and size_assign_old: "wf m \<Longrightarrow> lookup m k = Some w \<Longrightarrow> size_of (assign k v m) = size_of m"
    and size_erase_old: "wf m \<Longrightarrow> lookup m k = Some w \<Longrightarrow> Suc (size_of (erase k m)) = size_of m"
    and size_erase_new: "lookup m k = None \<Longrightarrow> erase k m = m"
    and total_assign_new: "lookup m k = None \<Longrightarrow> total f (assign k v m) = f v + total f m"
    and total_assign_old: "wf m \<Longrightarrow> lookup m k = Some w \<Longrightarrow>
          total f (assign k v m) + f w = total f m + f v"
    and total_erase_old: "wf m \<Longrightarrow> lookup m k = Some w \<Longrightarrow> total f (erase k m) + f w = total f m"
begin

lemma size_assign_le: "wf m \<Longrightarrow> size_of (assign k v m) \<le> Suc (size_of m)"
  by (cases "lookup m k") (auto simp: size_assign_new size_assign_old)

lemma size_erase_le: "wf m \<Longrightarrow> size_of (erase k m) \<le> size_of m"
  by (cases "lookup m k") (auto simp: size_erase_new dest: size_erase_old [where k = k])

lemma total_erase_le: "wf m \<Longrightarrow> total f (erase k m) \<le> total f m"
  by (cases "lookup m k") (auto simp: size_erase_new dest: total_erase_old [where k = k and f = f])

lemma total_erase_sub:
  "wf m \<Longrightarrow> lookup m k = Some w \<Longrightarrow> total f (erase k m) = total f m - f w"
  by (metis add_diff_cancel_right' total_erase_old)

lemma total_ge: "wf m \<Longrightarrow> lookup m k = Some w \<Longrightarrow> f w \<le> total f m"
  by (metis le_add2 total_erase_old)

lemma total_assign_same:
  "wf m \<Longrightarrow> lookup m k = Some w \<Longrightarrow> f v = f w \<Longrightarrow> total f (assign k v m) = total f m"
  by (metis add_right_cancel total_assign_old)

lemma insert_then_erase:
  "lookup m k = None \<Longrightarrow> lookup (erase k (assign k v m)) k' = lookup m k'"
  by (auto simp: lookup_erase lookup_assign)

end

section \<open>The list operations meet it\<close>

lemma umap_wf_key_absent: "umap_wf ((k, v) # m) \<Longrightarrow> map_of m k = None"
  by (auto simp: map_of_eq_None_iff)

lemma set_umap_assign: "set (umap_assign k v m) \<subseteq> insert (k, v) (set m)"
  by (induction k v m rule: umap_assign.induct) auto

lemma umap_wf_assign: "umap_wf m \<Longrightarrow> umap_wf (umap_assign k v m)"
proof (induction m rule: umap_wf.induct)
  case (2 k' v' m)
  then show ?case
    using set_umap_assign [of k v m] by fastforce
qed simp

lemma umap_wf_erase: "umap_wf m \<Longrightarrow> umap_wf (umap_erase k m)"
  by (induction m rule: umap_wf.induct) (auto simp: umap_erase_def)

lemma umap_find_assign:
  "umap_find (umap_assign k v m) k' = (if k = k' then Some v else umap_find m k')"
  by (induction m) (auto simp: umap_find_def)

lemma umap_find_erase:
  "umap_find (umap_erase k m) k' = (if k = k' then None else umap_find m k')"
  by (induction m) (auto simp: umap_find_def umap_erase_def)

lemma umap_size_assign_new: "umap_find m k = None \<Longrightarrow> umap_size (umap_assign k v m) = Suc (umap_size m)"
  by (induction m) (auto simp: umap_find_def umap_size_def split: if_splits)

lemma umap_size_assign_old:
  "umap_wf m \<Longrightarrow> umap_find m k = Some w \<Longrightarrow> umap_size (umap_assign k v m) = umap_size m"
  by (induction m rule: umap_wf.induct)
    (fastforce simp: umap_find_def umap_size_def split: if_splits dest: map_of_SomeD)+

lemma umap_erase_absent: "umap_find m k = None \<Longrightarrow> umap_erase k m = m"
  by (induction m) (auto simp: umap_find_def umap_erase_def split: if_splits)

lemma umap_erase_Cons:
  "umap_wf ((k', v') # m) \<Longrightarrow>
     umap_erase k ((k', v') # m) = (if k = k' then m else (k', v') # umap_erase k m)"
  using umap_erase_absent [of m k'] umap_wf_key_absent [of k' v' m]
  by (auto simp: umap_erase_def umap_find_def)

lemma umap_size_erase_old:
  "umap_wf m \<Longrightarrow> umap_find m k = Some w \<Longrightarrow> Suc (umap_size (umap_erase k m)) = umap_size m"
proof (induction m rule: umap_wf.induct)
  case (2 k' v' m)
  then show ?case
    by (auto simp: umap_erase_Cons umap_find_def umap_size_def)
qed (simp add: umap_find_def)

lemma umap_total_assign_new:
  "umap_find m k = None \<Longrightarrow> umap_total f (umap_assign k v m) = f v + umap_total f m"
  by (induction m) (auto simp: umap_find_def umap_total_def split: if_splits)

lemma umap_total_assign_old:
  "umap_wf m \<Longrightarrow> umap_find m k = Some w \<Longrightarrow>
     umap_total f (umap_assign k v m) + f w = umap_total f m + f v"
  by (induction m rule: umap_wf.induct)
    (fastforce simp: umap_find_def umap_total_def split: if_splits dest: map_of_SomeD)+

lemma umap_total_erase_old:
  "umap_wf m \<Longrightarrow> umap_find m k = Some w \<Longrightarrow> umap_total f (umap_erase k m) + f w = umap_total f m"
proof (induction m rule: umap_wf.induct)
  case (2 k' v' m)
  then show ?case
    by (auto simp: umap_erase_Cons umap_find_def umap_total_def)
qed (simp add: umap_find_def)

lemma umap_nothing:
  "umap_find [] k = None" "umap_size [] = 0" "umap_total f [] = 0"
  by (simp_all add: umap_find_def umap_size_def umap_total_def)

interpretation umap: keyed_store "[]" umap_find umap_assign umap_erase umap_size umap_total umap_wf
  by unfold_locales
    (simp_all add: umap_wf_assign umap_wf_erase umap_find_assign umap_find_erase umap_size_assign_new
      umap_size_assign_old umap_size_erase_old umap_erase_absent umap_total_assign_new
      umap_total_assign_old umap_total_erase_old umap_nothing)

lemmas umap_simps [simp] =
  umap.lookup_none umap.lookup_assign umap.lookup_erase umap.size_none umap.total_none

lemmas umap_wfs [inv_rules] = umap.wf_none umap.wf_assign umap.wf_erase

section \<open>Iteration\<close>

lemma umap_find_in_set: "umap_find m k = Some v \<Longrightarrow> (k, v) \<in> set m"
  by (simp add: umap_find_def map_of_SomeD)

lemma umap_in_set_find: "umap_wf m \<Longrightarrow> (k, v) \<in> set m \<Longrightarrow> umap_find m k = Some v"
proof (induction m rule: umap_wf.induct)
  case (2 k' v' m)
  then show ?case by (auto simp: umap_find_def)
qed simp

lemma umap_find_iff: "umap_wf m \<Longrightarrow> umap_find m k = Some v \<longleftrightarrow> (k, v) \<in> set m"
  by (auto dest: umap_find_in_set umap_in_set_find)

lemma umap_wf_distinct: "umap_wf m \<Longrightarrow> distinct (map fst m)"
  by (induction m rule: umap_wf.induct) auto

text \<open>Erasing every listed key, as the shutdown loops do.\<close>

definition umap_erase_all :: "'k::linorder list \<Rightarrow> ('k, 'v) umap \<Rightarrow> ('k, 'v) umap" where
  "umap_erase_all ks m = fold umap_erase ks m"

lemma umap_find_erase_all:
  "umap_find (umap_erase_all ks m) k = (if k \<in> set ks then None else umap_find m k)"
  by (induction ks arbitrary: m) (auto simp: umap_erase_all_def)

lemma umap_wf_erase_all [inv_rules]: "umap_wf m \<Longrightarrow> umap_wf (umap_erase_all ks m)"
  by (induction ks arbitrary: m) (auto simp: umap_erase_all_def umap_wf_erase)

lemma umap_size_erase_all_le: "umap_wf m \<Longrightarrow> umap_size (umap_erase_all ks m) \<le> umap_size m"
proof (induction ks arbitrary: m)
  case (Cons k ks)
  then show ?case
    using umap.size_erase_le [of m k] umap.wf_erase [of m k]
    by (fastforce simp: umap_erase_all_def)
qed (simp add: umap_erase_all_def)

lemma umap_empty_iff: "umap_find m = (\<lambda>_. None) \<longleftrightarrow> m = []"
  by (cases m) (auto simp: umap_find_def fun_eq_iff split: if_splits)

lemma umap_wf_sorted: "umap_wf m \<Longrightarrow> sorted_wrt (<) (map fst m)"
  by (induction m rule: umap_wf.induct) auto

lemma umap_assign_replace:
  "umap_wf m \<Longrightarrow> umap_find m k = Some w \<Longrightarrow>
     umap_assign k v m = map (\<lambda>kv. if fst kv = k then (k, v) else kv) m"
proof (induction m rule: umap_wf.induct)
  case (2 k' v' m)
  have "map (\<lambda>kv. if fst kv = k then (k, v) else kv) m = m" if "k = k'"
    using 2(2) that by (intro map_idI) auto
  moreover have "k' < k" if "k \<noteq> k'"
    using 2(2,3) that umap_find_in_set [of m k w] by (auto simp: umap_find_def)
  ultimately show ?case
    using 2 by (auto simp: umap_find_def)
qed (simp add: umap_find_def)

end
