(* ===== verification/Interfaces.thy ===== *)
theory Interfaces
  imports Containers
begin

text \<open>
  The contracts that several components of the engine share, as locales.
  \<^item> \<open>machine\<close>: a state, an operation type and an invariant every operation keeps;
    interpreted by the event queue.
  \<^item> \<open>transition_system\<close>: an initial state, a step relation and an invariant.
  \<^item> \<open>bounded_fifo\<close>: a first-in first-out queue with a byte budget and a slot limit.
    The event queue of the host and the send queues of TCP and WebSocket sessions promise it.
  \<^item> \<open>completion_source\<close>: a service that accepts numbered requests and later delivers their
    outcomes; the SQL and the Redis service promise that none is lost or delivered twice.
  \<^item> \<open>id_source\<close>: an identifier counter that never issues the same value twice and
    stops when its range is used up.
\<close>

section \<open>Machines and invariants\<close>

locale machine =
  fixes step :: "'s \<Rightarrow> 'op \<Rightarrow> 's"
    and inv :: "'s \<Rightarrow> bool"
    and legal :: "'op \<Rightarrow> bool"
  assumes step_inv: "inv s \<Longrightarrow> legal x \<Longrightarrow> inv (step s x)"
begin

lemma run_inv: "inv s \<Longrightarrow> list_all legal xs \<Longrightarrow> inv (foldl step s xs)"
  by (induction xs arbitrary: s) (auto intro: step_inv)

end

text \<open>The same for a step relation: what holds at the start and is kept holds everywhere.\<close>

locale transition_system =
  fixes initial :: "'s \<Rightarrow> bool"
    and rel :: "'s \<Rightarrow> 's \<Rightarrow> bool"
    and inv :: "'s \<Rightarrow> bool"
  assumes initial_inv: "initial s \<Longrightarrow> inv s"
    and rel_inv: "inv s \<Longrightarrow> rel s t \<Longrightarrow> inv t"
begin

inductive reaches :: "'s \<Rightarrow> bool" where
  here: "initial s \<Longrightarrow> reaches s"
| step: "reaches s \<Longrightarrow> rel s t \<Longrightarrow> reaches t"

lemma reaches_inv: "reaches s \<Longrightarrow> inv s"
  by (induction rule: reaches.induct) (auto intro: initial_inv rel_inv)

lemma star_inv: "initial s \<Longrightarrow> rel\<^sup>*\<^sup>* s t \<Longrightarrow> inv t"
proof -
  assume i: "initial s" and r: "rel\<^sup>*\<^sup>* s t"
  from r show "inv t"
    by (induction rule: rtranclp_induct) (auto intro: initial_inv [OF i] rel_inv)
qed

end

section \<open>Queues with a byte budget\<close>

datatype 'a fifo_op = Offer 'a | Take

locale bounded_fifo =
  fixes items :: "'s \<Rightarrow> 'a list"
    and used :: "'s \<Rightarrow> nat"
    and cost :: "'a \<Rightarrow> nat"
    and max_items :: "'s \<Rightarrow> nat"
    and max_used :: "'s \<Rightarrow> nat"
    and accepts :: "'s \<Rightarrow> 'a \<Rightarrow> bool"
    and offer :: "'s \<Rightarrow> 'a \<Rightarrow> 's"
    and take_one :: "'s \<Rightarrow> 's"
    and inv :: "'s \<Rightarrow> bool"
  assumes inv_used: "inv s \<Longrightarrow> used s = sum_list (map cost (items s))"
    and inv_used_le: "inv s \<Longrightarrow> used s \<le> max_used s"
    and inv_items_le: "inv s \<Longrightarrow> length (items s) \<le> max_items s"
    and offer_inv: "inv s \<Longrightarrow> accepts s x \<Longrightarrow> inv (offer s x)"
    and offer_items: "inv s \<Longrightarrow> accepts s x \<Longrightarrow> items (offer s x) = items s @ [x]"
    and take_inv: "inv s \<Longrightarrow> items s \<noteq> [] \<Longrightarrow> inv (take_one s)"
    and take_items: "inv s \<Longrightarrow> items s \<noteq> [] \<Longrightarrow> items (take_one s) = tl (items s)"
    and accepts_room: "inv s \<Longrightarrow> accepts s x \<Longrightarrow>
          used s + cost x \<le> max_used s \<and> length (items s) < max_items s"
begin

text \<open>
  A run of producers and the consumer: a refused offer and a take from an empty queue
  change nothing. It returns the accepted items, the delivered items and the last state.
\<close>

fun fifo_run :: "'s \<Rightarrow> 'a fifo_op list \<Rightarrow> 'a list \<times> 'a list \<times> 's" where
  "fifo_run s [] = ([], [], s)"
| "fifo_run s (Offer x # ops) =
     (if accepts s x then (let (acc, del, s') = fifo_run (offer s x) ops in (x # acc, del, s'))
      else fifo_run s ops)"
| "fifo_run s (Take # ops) =
     (if items s \<noteq> []
      then (let (acc, del, s') = fifo_run (take_one s) ops in (acc, hd (items s) # del, s'))
      else fifo_run s ops)"

lemma fifo_run_spec:
  "inv s \<Longrightarrow> fifo_run s ops = (acc, del, s') \<Longrightarrow> inv s' \<and> items s @ acc = del @ items s'"
proof (induction s ops arbitrary: acc del s' rule: fifo_run.induct)
  case (2 s x ops)
  then show ?case
    by (auto simp: offer_inv offer_items split: if_splits prod.splits)
next
  case (3 s ops)
  show ?case
  proof (cases "items s \<noteq> []")
    case True
    obtain a d t where r: "fifo_run (take_one s) ops = (a, d, t)"
      by (cases "fifo_run (take_one s) ops") auto
    have "inv t \<and> items (take_one s) @ a = d @ items t"
      using "3.IH"(1)[OF True take_inv [OF "3.prems"(1) True] r] .
    moreover have "items s = hd (items s) # items (take_one s)"
      using True take_items [OF "3.prems"(1) True] by simp
    moreover have "acc = a" "del = hd (items s) # d" "s' = t"
      using "3.prems"(2) True r by simp_all
    ultimately show ?thesis
      by (metis append_Cons)
  next
    case False
    then show ?thesis using "3.IH"(2) "3.prems" by auto
  qed
qed auto

text \<open>Nothing is lost, duplicated or reordered, and the budget holds throughout.\<close>

lemma fifo_order:
  "inv s \<Longrightarrow> items s = [] \<Longrightarrow> fifo_run s ops = (acc, del, s') \<Longrightarrow> acc = del @ items s'"
  using fifo_run_spec [of s ops acc del s'] by simp

lemma budget:
  "inv s \<Longrightarrow> fifo_run s ops = (acc, del, s') \<Longrightarrow>
     sum_list (map cost (items s')) \<le> max_used s' \<and> length (items s') \<le> max_items s'"
  using fifo_run_spec [of s ops acc del s'] inv_used [of s'] inv_used_le [of s'] inv_items_le [of s']
  by simp

lemma offer_used: "inv s \<Longrightarrow> accepts s x \<Longrightarrow> used (offer s x) = used s + cost x"
  using inv_used [of s] inv_used [OF offer_inv, of s x] offer_items [of s x] by simp

lemma empty_used: "inv s \<Longrightarrow> items s = [] \<Longrightarrow> used s = 0"
  by (simp add: inv_used)

end

section \<open>Identifier counters\<close>

text \<open>
  \<open>alloc\<close> hands out the identifier at the current position and moves on; \<open>None\<close> is
  the exhausted counter. \<open>limit\<close> is the number of positions of the range.
\<close>

locale id_source =
  fixes pos :: "'s \<Rightarrow> nat"
    and ident :: "nat \<Rightarrow> u64"
    and limit :: nat
    and alloc :: "'s \<Rightarrow> ('s \<times> u64) option"
  assumes alloc_id: "alloc s = Some (s', i) \<Longrightarrow> i = ident (pos s)"
    and alloc_pos: "alloc s = Some (s', i) \<Longrightarrow> pos s' = Suc (pos s)"
    and alloc_bound: "alloc s = Some (s', i) \<Longrightarrow> pos s < limit"
    and ident_inj: "inj_on ident {..<limit}"
    and ident_nonzero: "n < limit \<Longrightarrow> 0 < n \<Longrightarrow> ident n \<noteq> 0"
begin

text \<open>
  The identifiers of a run in which allocations and any other operations that leave the
  counter alone alternate: \<open>hist s is\<close> relates a state to the identifiers issued.
\<close>

inductive issued :: "'s \<Rightarrow> u64 list \<Rightarrow> 's \<Rightarrow> bool" where
  start: "issued s [] s"
| other: "issued s ids t \<Longrightarrow> pos u = pos t \<Longrightarrow> issued s ids u"
| fresh: "issued s ids t \<Longrightarrow> alloc t = Some (u, i) \<Longrightarrow> issued s (ids @ [i]) u"

lemma issued_pos: "issued s ids t \<Longrightarrow> pos t = pos s + length ids"
  by (induction rule: issued.induct) (auto dest: alloc_pos)

lemma issued_ids: "issued s ids t \<Longrightarrow> ids = map ident [pos s..<pos t]"
proof (induction rule: issued.induct)
  case (fresh s ids t u i)
  have "pos s \<le> pos t"
    using issued_pos [OF fresh.hyps(1)] by simp
  moreover have "pos u = Suc (pos t)" and "i = ident (pos t)"
    using fresh.hyps(2) by (rule alloc_pos, rule alloc_id)
  ultimately show ?case
    using fresh.IH by simp
qed simp_all

lemma issued_bound: "issued s ids t \<Longrightarrow> ids \<noteq> [] \<Longrightarrow> pos t \<le> limit"
proof (induction rule: issued.induct)
  case (fresh s ids t u i)
  show ?case
    using alloc_pos [OF fresh.hyps(2)] alloc_bound [OF fresh.hyps(2)] by simp
qed simp_all

lemma issued_distinct: "issued s ids t \<Longrightarrow> distinct ids"
proof -
  assume a: "issued s ids t"
  show "distinct ids"
  proof (cases "ids = []")
    case False
    have "{pos s..<pos t} \<subseteq> {..<limit}"
      using issued_bound [OF a False] by auto
    then have "inj_on ident {pos s..<pos t}"
      by (rule inj_on_subset [OF ident_inj])
    then show ?thesis
      by (simp add: issued_ids [OF a] distinct_map)
  qed simp
qed

lemma issued_nonzero: "issued s ids t \<Longrightarrow> 0 < pos s \<Longrightarrow> 0 \<notin> set ids"
proof
  assume a: "issued s ids t" and p: "0 < pos s" and z: "0 \<in> set ids"
  then obtain n where n: "pos s \<le> n" "n < pos t" "ident n = 0"
    by (auto simp: issued_ids [OF a])
  moreover have "pos t \<le> limit"
    using issued_bound [OF a] z by (metis empty_iff list.set(1))
  ultimately show False
    using ident_nonzero [of n] p by simp
qed

end

section \<open>Services with completions\<close>

datatype flow = Accepted u64 | Delivers u64 | Silent

definition accepted_ids :: "flow list \<Rightarrow> u64 list" where
  "accepted_ids tr = concat (map (\<lambda>e. case e of Accepted i \<Rightarrow> [i] | _ \<Rightarrow> []) tr)"

definition delivered_ids :: "flow list \<Rightarrow> u64 list" where
  "delivered_ids tr = concat (map (\<lambda>e. case e of Delivers i \<Rightarrow> [i] | _ \<Rightarrow> []) tr)"

lemma flow_ids_simps [simp]:
  "accepted_ids [] = []" "delivered_ids [] = []"
  "accepted_ids (tr @ [Accepted i]) = accepted_ids tr @ [i]"
  "accepted_ids (tr @ [Delivers i]) = accepted_ids tr" "accepted_ids (tr @ [Silent]) = accepted_ids tr"
  "delivered_ids (tr @ [Accepted i]) = delivered_ids tr"
  "delivered_ids (tr @ [Delivers i]) = delivered_ids tr @ [i]" "delivered_ids (tr @ [Silent]) = delivered_ids tr"
  by (simp_all add: accepted_ids_def delivered_ids_def)

text \<open>A run with its trace of acceptances and deliveries.\<close>

inductive flow_run :: "('s \<Rightarrow> flow \<Rightarrow> 's \<Rightarrow> bool) \<Rightarrow> 's \<Rightarrow> flow list \<Rightarrow> 's \<Rightarrow> bool" for act where
  none: "flow_run act s [] s"
| more: "flow_run act s tr t \<Longrightarrow> act t e u \<Longrightarrow> flow_run act s (tr @ [e]) u"

text \<open>\<open>outstanding\<close> are the accepted requests whose outcome was not delivered, \<open>horizon\<close> bounds every id issued.\<close>

locale completion_source =
  fixes act :: "'s \<Rightarrow> flow \<Rightarrow> 's \<Rightarrow> bool"
    and outstanding :: "'s \<Rightarrow> u64 set"
    and horizon :: "'s \<Rightarrow> nat"
    and inv :: "'s \<Rightarrow> bool"
  assumes act_inv: "inv s \<Longrightarrow> act s e t \<Longrightarrow> inv t"
    and act_accept: "inv s \<Longrightarrow> act s (Accepted i) t \<Longrightarrow>
          horizon s \<le> unat i \<and> unat i < horizon t \<and> outstanding t = insert i (outstanding s)"
    and act_deliver: "inv s \<Longrightarrow> act s (Delivers i) t \<Longrightarrow>
          horizon s \<le> horizon t \<and> i \<in> outstanding s \<and> outstanding t = outstanding s - {i}"
    and act_silent: "inv s \<Longrightarrow> act s Silent t \<Longrightarrow> horizon s \<le> horizon t \<and> outstanding t = outstanding s"
begin

lemma flows_inv: "flow_run act s tr t \<Longrightarrow> inv s \<Longrightarrow> inv t"
  by (induction rule: flow_run.induct) (auto intro: act_inv)

lemma flows_spec:
  "flow_run act s tr t \<Longrightarrow> inv s \<Longrightarrow> outstanding s = {} \<Longrightarrow>
     sorted_wrt (<) (map unat (accepted_ids tr)) \<and> distinct (delivered_ids tr)
     \<and> set (accepted_ids tr) = set (delivered_ids tr) \<union> outstanding t
     \<and> set (delivered_ids tr) \<inter> outstanding t = {} \<and> (\<forall>i \<in> set (accepted_ids tr). unat i < horizon t)"
proof (induction rule: flow_run.induct)
  case (more s tr t e u)
  note inv = flows_inv [OF more.hyps(1) more.prems(1)]
  note ih = more.IH [OF more.prems]
  show ?case
  proof (cases e)
    case (Accepted i)
    then have i: "horizon t \<le> unat i" "unat i < horizon u" "outstanding u = insert i (outstanding t)"
      using act_accept [OF inv] more.hyps(2) by auto
    then have "i \<notin> set (accepted_ids tr)" "\<forall>j \<in> set (accepted_ids tr). unat j < unat i"
      using ih by fastforce+
    then show ?thesis
      using ih i by (auto simp: Accepted sorted_wrt_append intro: less_trans)
  next
    case (Delivers i)
    then have "horizon t \<le> horizon u" "i \<in> outstanding t" "outstanding u = outstanding t - {i}"
      using act_deliver [OF inv] more.hyps(2) by auto
    then show ?thesis
      using ih by (auto simp: Delivers intro: less_le_trans)
  next
    case Silent
    then have "horizon t \<le> horizon u" "outstanding u = outstanding t"
      using act_silent [OF inv] more.hyps(2) by auto
    then show ?thesis
      using ih by (auto simp: Silent intro: less_le_trans)
  qed
qed simp

end

text \<open>
  A source that delivers in the order of acceptance: \<open>queue\<close> is what it holds, oldest first. Every
  such source is a completion source.
\<close>

locale fifo_source =
  fixes act :: "'s \<Rightarrow> flow \<Rightarrow> 's \<Rightarrow> bool"
    and queue :: "'s \<Rightarrow> u64 list"
    and horizon :: "'s \<Rightarrow> nat"
    and inv :: "'s \<Rightarrow> bool"
  assumes act_inv: "inv s \<Longrightarrow> act s e t \<Longrightarrow> inv t"
    and act_horizon: "inv s \<Longrightarrow> act s e t \<Longrightarrow> horizon s \<le> horizon t"
    and act_accept: "inv s \<Longrightarrow> act s (Accepted i) t \<Longrightarrow>
          horizon s \<le> unat i \<and> unat i < horizon t \<and> queue t = queue s @ [i]"
    and act_deliver: "inv s \<Longrightarrow> act s (Delivers i) t \<Longrightarrow> queue s = i # queue t"
    and act_silent: "inv s \<Longrightarrow> act s Silent t \<Longrightarrow> queue t = queue s"
    and queue_distinct: "inv s \<Longrightarrow> distinct (queue s)"
begin

lemma fifo_flow:
  "flow_run act s tr t \<Longrightarrow> inv s \<Longrightarrow> inv t \<and> queue s @ accepted_ids tr = delivered_ids tr @ queue t"
proof (induction rule: flow_run.induct)
  case (more s tr t e u)
  then have ih: "inv t" "queue s @ accepted_ids tr = delivered_ids tr @ queue t" by auto
  note facts = act_inv [OF ih(1) more.hyps(2)]
  show ?case
  proof (cases e)
    case (Accepted i)
    then show ?thesis
      using facts ih(2) act_accept [OF ih(1), of i u] more.hyps(2) by (simp flip: append_assoc)
  next
    case (Delivers i)
    then show ?thesis
      using facts ih(2) act_deliver [OF ih(1), of i u] more.hyps(2) by simp
  next
    case Silent
    then show ?thesis
      using facts ih(2) act_silent [OF ih(1), of u] more.hyps(2) by simp
  qed
qed simp

end

sublocale fifo_source \<subseteq> completes: completion_source act "\<lambda>s. set (queue s)" horizon inv
proof (unfold_locales, goal_cases)
  case (1 s e t)
  then show ?case by (rule act_inv)
next
  case (2 s i t)
  then show ?case using act_accept [OF 2] by simp
next
  case (3 s i t)
  then show ?case
    using act_deliver [OF 3] act_horizon [OF 3] queue_distinct [OF 3(1)] by auto
next
  case (4 s t)
  then show ?case using act_silent [OF 4] act_horizon [OF 4] by simp
qed

end
