(* ===== verification/Byte_Buffer.thy ===== *)
theory Byte_Buffer
  imports Interfaces
begin

text \<open>
  \<^verbatim>\<open>core::Buffer\<close> (src/src/Core/Buffer.cpp): an owned byte vector, filled from raw memory
  or text. A pointer argument is \<open>None\<close> for \<^verbatim>\<open>nullptr\<close> and otherwise the memory it
  points to, of which the call reads the first \<open>n\<close> bytes.
\<close>

record buffer =
  buf_bytes :: bytes

definition Buffer_empty :: buffer where
  "Buffer_empty = \<lparr>buf_bytes = []\<rparr>"

definition Buffer_of_vector :: "bytes \<Rightarrow> buffer" where
  "Buffer_of_vector v = \<lparr>buf_bytes = v\<rparr>"

definition buffer_append :: "buffer \<Rightarrow> bytes option \<Rightarrow> nat \<Rightarrow> buffer" where
  "buffer_append b data n =
     (case data of None \<Rightarrow> b
      | Some d \<Rightarrow> if n = 0 then b else b\<lparr>buf_bytes := buf_bytes b @ take n d\<rparr>)"

definition buffer_append_text :: "buffer \<Rightarrow> string \<Rightarrow> buffer" where
  "buffer_append_text b text = buffer_append b (Some (map byte_of_char text)) (length text)"

definition Buffer_of_memory :: "bytes option \<Rightarrow> nat \<Rightarrow> buffer" where
  "Buffer_of_memory data n = buffer_append Buffer_empty data n"

definition from_text :: "string \<Rightarrow> buffer" where
  "from_text text = buffer_append_text Buffer_empty text"

definition buffer_size :: "buffer \<Rightarrow> nat" where
  "buffer_size b = length (buf_bytes b)"

definition buffer_is_empty :: "buffer \<Rightarrow> bool" where
  "buffer_is_empty b \<longleftrightarrow> buf_bytes b = []"

definition buffer_clear :: "buffer \<Rightarrow> buffer" where
  "buffer_clear b = b\<lparr>buf_bytes := []\<rparr>"

definition to_text :: "buffer \<Rightarrow> string" where
  "to_text b = map char_of_byte (buf_bytes b)"

lemmas buffer_defs = Buffer_empty_def Buffer_of_vector_def buffer_append_def buffer_append_text_def
  Buffer_of_memory_def from_text_def buffer_size_def buffer_is_empty_def buffer_clear_def to_text_def

section \<open>Lemmas\<close>

lemma buf_bytesappend_text [simp]: "buf_bytes (buffer_append_text b t) = buf_bytes b @ map byte_of_char t"
  by (cases t) (simp_all add: buffer_defs)

lemma buf_bytesfrom_text [simp]: "buf_bytes (from_text t) = map byte_of_char t"
  by (simp add: from_text_def Buffer_empty_def)

lemma to_text_from_text [simp]: "to_text (from_text t) = t"
  by (simp add: to_text_def comp_def)

lemma buffer_size_from_text [simp]: "buffer_size (from_text t) = length t"
  by (simp add: buffer_size_def)

lemma buffer_size_empty [simp]: "buffer_size Buffer_empty = 0"
  by (simp add: buffer_defs)

lemma buf_bytesof_memory [simp]:
  "buf_bytes (Buffer_of_memory (Some d) n) = take n d" "buf_bytes (Buffer_of_memory None n) = []"
  by (simp_all add: buffer_defs)

text \<open>
  Text survives the buffer: any sequence of texts appended to an empty buffer reads back as
  their concatenation, byte for byte, and the size is the sum of their lengths.
\<close>

theorem buffer_text_roundtrip:
  "to_text (foldl buffer_append_text Buffer_empty ts) = concat ts
   \<and> buffer_size (foldl buffer_append_text Buffer_empty ts) = sum_list (map length ts)"
proof -
  have "buf_bytes (foldl buffer_append_text b ts) = buf_bytes b @ map byte_of_char (concat ts)" for b
    by (induction ts arbitrary: b) simp_all
  then have "buf_bytes (foldl buffer_append_text Buffer_empty ts) = map byte_of_char (concat ts)"
    by (simp add: Buffer_empty_def)
  then show ?thesis
    by (simp add: to_text_def buffer_size_def length_concat comp_def)
qed

end
