(* ===== verification/Text.thy ===== *)
theory Text
  imports Prelude "HOL-Library.List_Lexorder" "HOL-Library.Char_ord"
begin

text \<open>
  Text handling the sources take from the C and C++ libraries, in the \<^verbatim>\<open>"C"\<close> locale:
  character classes, \<^verbatim>\<open>std::to_string\<close>, \<^verbatim>\<open>std::from_chars\<close>, \<^verbatim>\<open>std::getline\<close>, and
  the two helpers every module repeats, trimming and lower-casing. \<open>split_lines\<close> is the
  specification of line-oriented input.
\<close>

abbreviation LF :: char where "LF \<equiv> CHR 10"
abbreviation CR :: char where "CR \<equiv> CHR 13"

section \<open>Characters\<close>

definition isspace :: "char \<Rightarrow> bool" where
  "isspace c \<longleftrightarrow> c \<in> {CHR 9, CHR 10, CHR 11, CHR 12, CHR 13, CHR '' ''}"

definition tolower :: "char \<Rightarrow> char" where
  "tolower c = (let n = of_char c :: nat in if 65 \<le> n \<and> n \<le> 90 then char_of (n + 32) else c)"

definition is_digit :: "char \<Rightarrow> bool" where
  "is_digit c \<longleftrightarrow> (let n = of_char c :: nat in 48 \<le> n \<and> n \<le> 57)"

definition lowercase_copy :: "string \<Rightarrow> string" where
  "lowercase_copy s = map tolower s"

text \<open>\<^verbatim>\<open>trim_view\<close>: two loops that drop white space at the front and at the back.\<close>

fun trim_front :: "string \<Rightarrow> string" where
  "trim_front [] = []"
| "trim_front (c # cs) = (if isspace c then trim_front cs else c # cs)"

definition trim_back :: "string \<Rightarrow> string" where
  "trim_back s = rev (trim_front (rev s))"

definition trim_view :: "string \<Rightarrow> string" where
  "trim_view s = trim_back (trim_front s)"

lemma trim_front_id: "s = [] \<or> \<not> isspace (hd s) \<Longrightarrow> trim_front s = s"
  by (cases s) auto

lemma trim_front_ends: "trim_front s = [] \<or> \<not> isspace (hd (trim_front s))"
  by (induction s) auto

lemma trim_front_suffix: "\<exists>p. s = p @ trim_front s"
  by (induction s) (auto, metis append_Cons)

lemma trim_view_id:
  "s = [] \<or> \<not> isspace (hd s) \<and> \<not> isspace (last s) \<Longrightarrow> trim_view s = s"
  by (auto simp: trim_view_def trim_back_def trim_front_id hd_rev)

lemma trim_view_hd: "trim_view s = [] \<or> \<not> isspace (hd (trim_view s)) \<and> \<not> isspace (last (trim_view s))"
proof -
  let ?f = "trim_front s" let ?b = "trim_front (rev ?f)"
  obtain p where p: "rev ?f = p @ ?b"
    using trim_front_suffix by blast
  then have f: "?f = rev ?b @ rev p"
    by (metis rev_append rev_rev_ident)
  show ?thesis
  proof (cases "?b = []")
    case False
    then have "hd (rev ?b) = hd ?f" and "last (rev ?b) = hd ?b"
      using f by (metis hd_append2 rev_is_Nil_conv) (simp add: last_rev)
    then show ?thesis
      using trim_front_ends [of s] trim_front_ends [of "rev ?f"] False f
      by (auto simp: trim_view_def trim_back_def)
  qed (simp add: trim_view_def trim_back_def)
qed

lemma trim_view_idem [simp]: "trim_view (trim_view s) = trim_view s"
  using trim_view_hd by (intro trim_view_id) blast

lemma trim_front_snoc_space:
  "isspace c \<Longrightarrow> trim_front (s @ [c]) = (if trim_front s = [] then [] else trim_front s @ [c])"
  by (induction s) auto

lemma trim_view_pad [simp]:
  assumes "isspace a" and "isspace b"
  shows "trim_view (a # s @ [b]) = trim_view s"
  using assms trim_front_snoc_space [OF assms(2), of s]
  by (simp add: trim_view_def trim_back_def)

lemma isspace_code: "isspace c \<longleftrightarrow> (of_char c :: nat) \<in> {9, 10, 11, 12, 13, 32}"
proof -
  have e: "c = d \<longleftrightarrow> (of_char c :: nat) = of_char d" for d by simp
  show ?thesis
    unfolding isspace_def insert_iff empty_iff e [of "CHR 9"] e [of "CHR 10"] e [of "CHR 11"]
      e [of "CHR 12"] e [of "CHR 13"] e [of "CHR '' ''"]
    by simp
qed

lemma tolower_code:
  "(of_char (tolower c) :: nat) = (let n = of_char c in if 65 \<le> n \<and> n \<le> 90 then n + 32 else n)"
  by (simp add: tolower_def Let_def)

lemma isspace_tolower [simp]: "isspace (tolower c) = isspace c"
  by (auto simp: isspace_code tolower_code Let_def)

lemma tolower_idem [simp]: "tolower (tolower c) = tolower c"
  by (auto simp: tolower_def [of "tolower c"] tolower_code Let_def)

lemma trim_front_map_tolower: "trim_front (map tolower s) = map tolower (trim_front s)"
  by (induction s) auto

lemma trim_view_lowercase: "trim_view (lowercase_copy s) = lowercase_copy (trim_view s)"
  by (simp add: trim_view_def trim_back_def lowercase_copy_def trim_front_map_tolower rev_map)

lemma lowercase_idem [simp]: "lowercase_copy (lowercase_copy s) = lowercase_copy s"
  by (simp add: lowercase_copy_def)

section \<open>Numbers\<close>

definition digit_char :: "nat \<Rightarrow> char" where
  "digit_char d = char_of (48 + d)"

definition digit_value :: "char \<Rightarrow> nat" where
  "digit_value c = of_char c - 48"

fun decimal :: "nat \<Rightarrow> string" where
  "decimal n = (if n < 10 then [digit_char n] else decimal (n div 10) @ [digit_char (n mod 10)])"

declare decimal.simps [simp del]

definition digits_value :: "string \<Rightarrow> nat" where
  "digits_value ds = foldl (\<lambda>v c. 10 * v + digit_value c) 0 ds"

definition show_int :: "int \<Rightarrow> string" where
  "show_int i = (if i < 0 then CHR ''-'' # decimal (nat (- i)) else decimal (nat i))"

text \<open>
  \<^verbatim>\<open>std::from_chars\<close> for a signed type with range \<open>lo..hi\<close>: an optional minus sign, then the
  longest run of digits; \<open>None\<close> for no digits or a value out of range. The rest is what
  \<^verbatim>\<open>ptr\<close> points to.
\<close>

definition from_chars :: "int \<Rightarrow> int \<Rightarrow> string \<Rightarrow> (int \<times> string) option" where
  "from_chars lo hi s =
     (let (neg, ds) = (case s of [] \<Rightarrow> (False, s)
                       | c # t \<Rightarrow> if c = CHR ''-'' then (True, t) else (False, s));
          digits = takeWhile is_digit ds;
          v = (if neg then - int (digits_value digits) else int (digits_value digits))
      in if digits = [] \<or> v < lo \<or> hi < v then None else Some (v, dropWhile is_digit ds))"

lemma digit_roundtrip: "d < 10 \<Longrightarrow> is_digit (digit_char d) \<and> digit_value (digit_char d) = d"
  by (simp add: is_digit_def digit_char_def digit_value_def)

lemma decimal_digits: "decimal n \<noteq> [] \<and> list_all is_digit (decimal n)"
proof (induction n rule: decimal.induct)
  case (1 n)
  then show ?case
    by (cases "n < 10") (simp_all add: decimal.simps [of n] digit_roundtrip)
qed

lemma digits_value_snoc: "digits_value (ds @ [c]) = 10 * digits_value ds + digit_value c"
  by (simp add: digits_value_def)

lemma digits_value_decimal [simp]: "digits_value (decimal n) = n"
proof (induction n rule: decimal.induct)
  case (1 n)
  show ?case
  proof (cases "n < 10")
    case True
    then show ?thesis
      by (simp add: decimal.simps [of n] digits_value_def digit_roundtrip)
  next
    case False
    then show ?thesis
      using 1 by (simp add: decimal.simps [of n] digits_value_snoc digit_roundtrip)
  qed
qed

lemma takeWhile_decimal: "takeWhile is_digit (decimal n) = decimal n"
  using decimal_digits [of n] by (simp add: takeWhile_eq_all_conv list_all_iff)

lemma decimal_hd: "decimal n = c # cs \<Longrightarrow> c \<noteq> CHR ''-''"
  using decimal_digits [of n] by (auto simp: is_digit_def)

lemma from_chars_show_int:
  "from_chars lo hi (show_int i) = (if lo \<le> i \<and> i \<le> hi then Some (i, []) else None)"
proof (cases "i < 0")
  case True
  then show ?thesis
    using decimal_digits [of "nat (- i)"]
    by (simp add: from_chars_def show_int_def dropWhile_eq_Nil_conv list_all_iff takeWhile_decimal)
next
  case False
  have nm: "(case decimal (nat i) of [] \<Rightarrow> (False, decimal (nat i))
      | c # t \<Rightarrow> if c = CHR ''-'' then (True, t) else (False, decimal (nat i))) = (False, decimal (nat i))"
    using decimal_hd [of "nat i"] by (auto split: list.splits)
  have "dropWhile is_digit (decimal (nat i)) = []"
    using decimal_digits [of "nat i"] by (simp add: dropWhile_eq_Nil_conv list_all_iff)
  then show ?thesis
    using False decimal_digits [of "nat i"]
    by (simp add: from_chars_def show_int_def nm takeWhile_decimal Let_def)
qed

lemma from_chars_range: "from_chars lo hi s = Some (i, rest) \<Longrightarrow> lo \<le> i \<and> i \<le> hi"
  by (auto simp: from_chars_def Let_def split: if_splits prod.splits)

lemma show_int_no_space: "c \<in> set (show_int i) \<Longrightarrow> \<not> isspace c"
  using decimal_digits [of "nat i"] decimal_digits [of "nat (- i)"]
  by (auto simp: show_int_def list_all_iff is_digit_def isspace_def split: if_splits)

lemma trim_view_show_int [simp]: "trim_view (show_int i) = show_int i"
  using show_int_no_space by (intro trim_view_id) (metis hd_in_set last_in_set)

section \<open>Lines\<close>

text \<open>The complete lines of a stream and its unfinished rest.\<close>

fun split_lines :: "string \<Rightarrow> string list \<times> string" where
  "split_lines [] = ([], [])"
| "split_lines (c # cs) =
     (let (ls, rest) = split_lines cs
      in if c = LF then ([] # ls, rest)
         else (case ls of [] \<Rightarrow> ([], c # rest) | l # ls' \<Rightarrow> ((c # l) # ls', rest)))"

definition lines_fit :: "nat \<Rightarrow> string \<Rightarrow> bool" where
  "lines_fit mx s = (list_all (\<lambda>l. length l \<le> mx) (fst (split_lines s))
                     \<and> length (snd (split_lines s)) \<le> mx)"

lemma split_lines_no_LF: "LF \<notin> set s \<Longrightarrow> split_lines s = ([], s)"
  by (induction s) auto

lemma split_lines_rest_no_LF: "LF \<notin> set (snd (split_lines s))"
  by (induction s) (auto split: prod.splits list.splits)

lemma split_lines_append:
  "split_lines (s @ t) =
     (let (ls, r) = split_lines s; (ls', r') = split_lines (r @ t) in (ls @ ls', r'))"
  by (induction s) (auto split: prod.splits list.splits)

lemma split_lines_first:
  "LF \<notin> set l \<Longrightarrow> split_lines (l @ LF # t) = (l # fst (split_lines t), snd (split_lines t))"
  by (induction l) (auto split: prod.splits)

text \<open>\<^verbatim>\<open>while (std::getline(file, line))\<close>: a last line without a newline counts.\<close>

definition getlines :: "string \<Rightarrow> string list" where
  "getlines s = (let (ls, rest) = split_lines s in if rest = [] then ls else ls @ [rest])"

lemma getlines_lines:
  "list_all (\<lambda>l. LF \<notin> set l) ls \<Longrightarrow> getlines (concat (map (\<lambda>l. l @ [LF]) ls)) = ls"
proof (induction ls)
  case (Cons l ls)
  then show ?case
    using split_lines_first [of l "concat (map (\<lambda>l. l @ [LF]) ls)"]
    by (auto simp: getlines_def split: prod.splits if_splits)
qed (simp add: getlines_def)

end
