(* ===== verification/Line_Framer.thy ===== *)
theory Line_Framer
  imports Byte_Buffer Text
begin

text \<open>
  \<^verbatim>\<open>net::detail::LineFramer\<close> (src/src/Net/Detail/LineFramer.h): turns the chunks a TCP
  socket delivers into lines. \<open>framer_append\<close> and \<open>framer_try_pop\<close> are its two methods,
  \<open>framer_drain\<close> the loop both TCP backends run after every read. The specification is
  \<open>split_lines\<close>, which knows nothing of chunks, and the refinement theorem says that the
  framer dispatches exactly its lines however the stream is cut.
\<close>

section \<open>The framer\<close>

record line_framer =
  lf_max_message_bytes :: nat
  lf_pending :: string
  lf_consumed_bytes :: nat
  lf_current_line_bytes :: nat
  lf_failed :: bool

definition LineFramer_new :: "nat \<Rightarrow> line_framer" where
  "LineFramer_new max_message_bytes =
     \<lparr>lf_max_message_bytes = max_message_bytes, lf_pending = [], lf_consumed_bytes = 0,
      lf_current_line_bytes = 0, lf_failed = False\<rparr>"

text \<open>The counting loop of \<^verbatim>\<open>append\<close>: the new line length, and whether every line fits.\<close>

fun scan_lines :: "nat \<Rightarrow> nat \<Rightarrow> string \<Rightarrow> nat \<times> bool" where
  "scan_lines mx cur [] = (cur, True)"
| "scan_lines mx cur (byte # bytes) =
     (if byte = LF then scan_lines mx 0 bytes
      else if cur = mx then (cur, False)
      else scan_lines mx (Suc cur) bytes)"

definition framer_append :: "line_framer \<Rightarrow> string \<Rightarrow> line_framer \<times> bool" where
  "framer_append f bytes =
     (if lf_failed f then (f, False)
      else if bytes = [] then (f, True)
      else
        (let (cur, ok) = scan_lines (lf_max_message_bytes f) (lf_current_line_bytes f) bytes
         in if \<not> ok then (f\<lparr>lf_current_line_bytes := cur, lf_failed := True\<rparr>, False)
            else (f\<lparr>lf_current_line_bytes := cur,
                    lf_pending := drop (lf_consumed_bytes f) (lf_pending f) @ bytes,
                    lf_consumed_bytes := 0\<rparr>, True)))"

text \<open>\<^verbatim>\<open>pending_.find('\n', from)\<close>: the first position at or after \<open>from\<close>, if any.\<close>

definition find_newline :: "string \<Rightarrow> nat \<Rightarrow> nat option" where
  "find_newline s from =
     (let k = length (takeWhile (\<lambda>c. c \<noteq> LF) (drop from s))
      in if from + k < length s then Some (from + k) else None)"

definition strip_cr :: "string \<Rightarrow> string" where
  "strip_cr line = (if line \<noteq> [] \<and> last line = CR then butlast line else line)"

definition framer_try_pop :: "line_framer \<Rightarrow> (line_framer \<times> string) option" where
  "framer_try_pop f =
     (if lf_failed f then None
      else
        (case find_newline (lf_pending f) (lf_consumed_bytes f) of
           None \<Rightarrow> None
         | Some newline \<Rightarrow>
             Some (f\<lparr>lf_consumed_bytes := newline + 1\<rparr>,
                   strip_cr (take (newline - lf_consumed_bytes f)
                               (drop (lf_consumed_bytes f) (lf_pending f))))))"

text \<open>The dispatch loop: \<^verbatim>\<open>while (framer.try_pop(line)) on_message(line)\<close>.\<close>

lemma find_newline_bounds: "find_newline s i = Some n \<Longrightarrow> i \<le> n \<and> n < length s"
  by (auto simp: find_newline_def Let_def split: if_splits)

lemma framer_try_pop_advances:
  "framer_try_pop f = Some (f', l) \<Longrightarrow>
     length (lf_pending f') - lf_consumed_bytes f' < length (lf_pending f) - lf_consumed_bytes f"
  by (auto simp: framer_try_pop_def dest!: find_newline_bounds split: if_splits option.splits)

function framer_drain :: "line_framer \<Rightarrow> line_framer \<times> string list" where
  "framer_drain f =
     (case framer_try_pop f of
        None \<Rightarrow> (f, [])
      | Some (f', line) \<Rightarrow> (let (g, lines) = framer_drain f' in (g, line # lines)))"
  by pat_completeness auto
termination
  by (relation "measure (\<lambda>f. length (lf_pending f) - lf_consumed_bytes f)")
    (auto dest: framer_try_pop_advances)

declare framer_drain.simps [simp del]

text \<open>
  What a receive loop does with the reads of a connection: dispatch after every accepted
  read, stop at the first refused one. \<open>None\<close> as second component is the disconnect.
\<close>

fun framer_receive :: "line_framer \<Rightarrow> string list \<Rightarrow> string list \<times> line_framer option" where
  "framer_receive f [] = ([], Some f)"
| "framer_receive f (chunk # chunks) =
     (case framer_append f chunk of
        (f1, False) \<Rightarrow> ([], None)
      | (f1, True) \<Rightarrow>
          (let (f2, lines) = framer_drain f1; (more, r) = framer_receive f2 chunks
           in (lines @ more, r)))"

section \<open>Counting agrees with splitting\<close>

lemma lines_fit_too_long:
  assumes "LF \<notin> set r" and "mx < length r"
  shows "\<not> lines_fit mx (r @ bs)"
proof (cases "LF \<in> set bs")
  case True
  then obtain l t where "bs = l @ LF # t" and "LF \<notin> set l"
    by (meson split_list_first)
  then show ?thesis
    using assms split_lines_first [of "r @ l" t] by (simp add: lines_fit_def)
next
  case False
  then show ?thesis
    using assms by (simp add: lines_fit_def split_lines_no_LF)
qed

lemma scan_lines_spec:
  "LF \<notin> set r \<Longrightarrow> length r \<le> mx \<Longrightarrow>
     snd (scan_lines mx (length r) bs) = lines_fit mx (r @ bs)
     \<and> (lines_fit mx (r @ bs) \<longrightarrow>
          fst (scan_lines mx (length r) bs) = length (snd (split_lines (r @ bs))))"
proof (induction bs arbitrary: r)
  case Nil
  then show ?case by (simp add: lines_fit_def split_lines_no_LF)
next
  case (Cons b bs)
  consider "b = LF" | "b \<noteq> LF" "length r = mx" | "b \<noteq> LF" "length r < mx"
    using Cons.prems(2) by linarith
  then show ?case
  proof cases
    case 1
    then show ?thesis
      using Cons.IH [of "[]"] Cons.prems by (simp add: lines_fit_def split_lines_first)
  next
    case 2
    then have "\<not> lines_fit mx ((r @ [b]) @ bs)"
      using Cons.prems by (intro lines_fit_too_long) auto
    then show ?thesis using 2 by simp
  next
    case 3
    then show ?thesis using Cons.IH [of "r @ [b]"] Cons.prems by simp
  qed
qed

section \<open>Correctness\<close>

text \<open>The bytes received and not yet dispatched.\<close>

definition framer_rest :: "line_framer \<Rightarrow> string" where
  "framer_rest f = drop (lf_consumed_bytes f) (lf_pending f)"

definition framer_inv :: "line_framer \<Rightarrow> bool" where
  "framer_inv f \<longleftrightarrow> lf_consumed_bytes f \<le> length (lf_pending f)
     \<and> (\<not> lf_failed f \<longrightarrow>
          lf_current_line_bytes f = length (snd (split_lines (framer_rest f)))
          \<and> lines_fit (lf_max_message_bytes f) (framer_rest f))"

lemma framer_inv_new [inv_rules]: "framer_inv (LineFramer_new mx)"
  by (simp add: framer_inv_def LineFramer_new_def framer_rest_def lines_fit_def)

text \<open>What is left of the stream after the complete lines: between reads nothing else is kept.\<close>

definition framer_idle :: "line_framer \<Rightarrow> bool" where
  "framer_idle f \<longleftrightarrow> framer_inv f \<and> \<not> lf_failed f \<and> LF \<notin> set (framer_rest f)"

lemma framer_append_idle:
  assumes "framer_idle f"
  shows "if lines_fit (lf_max_message_bytes f) (framer_rest f @ bs)
    then \<exists>g. framer_append f bs = (g, True) \<and> framer_inv g \<and> \<not> lf_failed g
           \<and> framer_rest g = framer_rest f @ bs \<and> lf_max_message_bytes g = lf_max_message_bytes f
    else \<exists>g. framer_append f bs = (g, False) \<and> framer_inv g \<and> lf_failed g"
proof -
  have r: "LF \<notin> set (framer_rest f)" "split_lines (framer_rest f) = ([], framer_rest f)"
    using assms by (simp_all add: framer_idle_def split_lines_no_LF)
  have fit: "lines_fit (lf_max_message_bytes f) (framer_rest f)"
    and cur: "lf_current_line_bytes f = length (framer_rest f)"
    and ok: "\<not> lf_failed f" "lf_consumed_bytes f \<le> length (lf_pending f)"
    using assms r(2) by (simp_all add: framer_idle_def framer_inv_def)
  have len: "length (framer_rest f) \<le> lf_max_message_bytes f"
    using fit r(2) by (simp add: lines_fit_def)
  note scan = scan_lines_spec [OF r(1) len, of bs]
  show ?thesis
  proof (cases "bs = []")
    case True
    then show ?thesis
      using assms fit ok by (simp add: framer_append_def framer_idle_def)
  next
    case False
    then show ?thesis
      using scan ok cur
      by (auto simp: framer_append_def framer_inv_def framer_rest_def split: prod.splits)
  qed
qed

lemma find_newline_drop:
  assumes "find_newline s i = Some n"
  shows "drop i s = take (n - i) (drop i s) @ LF # drop (n + 1) s"
    and "LF \<notin> set (take (n - i) (drop i s))"
proof -
  let ?t = "drop i s" and ?w = "takeWhile (\<lambda>c. c \<noteq> LF) (drop i s)"
  have n: "n = i + length ?w" and lt: "length ?w < length ?t"
    using assms by (auto simp: find_newline_def Let_def split: if_splits)
  have w: "take (n - i) ?t = ?w"
    using n by (simp add: takeWhile_eq_take [symmetric])
  then show "LF \<notin> set (take (n - i) ?t)"
    by (auto dest: set_takeWhileD)
  have "?t ! length ?w = LF"
    using nth_length_takeWhile [OF lt] by simp
  then have "?t = ?w @ LF # drop (Suc (length ?w)) ?t"
    using id_take_nth_drop [OF lt] by (simp add: takeWhile_eq_take [symmetric])
  moreover have "drop (Suc (length ?w)) ?t = drop (n + 1) s"
    using n by (simp add: add.commute)
  ultimately show "?t = take (n - i) ?t @ LF # drop (n + 1) s"
    using w by simp
qed

lemma find_newline_None: "find_newline s i = None \<Longrightarrow> LF \<notin> set (drop i s)"
proof
  assume a: "find_newline s i = None" and "LF \<in> set (drop i s)"
  then obtain l t where "drop i s = l @ LF # t" "LF \<notin> set l"
    by (meson split_list_first)
  then have "length (takeWhile (\<lambda>c. c \<noteq> LF) (drop i s)) < length (drop i s)"
    by (simp add: takeWhile_tail le_imp_less_Suc trans_le_add1 length_takeWhile_le)
  with a show False
    by (auto simp: find_newline_def Let_def split: if_splits)
qed

text \<open>What a call that succeeds does to the bytes left.\<close>

lemma framer_append_rest: "framer_append f bs = (g, True) \<Longrightarrow> framer_rest g = framer_rest f @ bs \<and> \<not> lf_failed g"
  by (auto simp: framer_append_def framer_rest_def Let_def split: if_splits prod.splits)

lemma framer_try_pop_Some:
  assumes "framer_try_pop f = Some (g, line)"
  obtains l where "framer_rest f = l @ LF # framer_rest g" "LF \<notin> set l" "line = strip_cr l" "\<not> lf_failed g"
    "lf_max_message_bytes g = lf_max_message_bytes f" "framer_inv f \<Longrightarrow> framer_inv g"
proof -
  obtain n where n: "find_newline (lf_pending f) (lf_consumed_bytes f) = Some n" and ok: "\<not> lf_failed f"
    and g: "g = f\<lparr>lf_consumed_bytes := n + 1\<rparr>"
    and line: "line = strip_cr (take (n - lf_consumed_bytes f) (drop (lf_consumed_bytes f) (lf_pending f)))"
    using assms by (auto simp: framer_try_pop_def split: if_splits option.splits)
  let ?l = "take (n - lf_consumed_bytes f) (drop (lf_consumed_bytes f) (lf_pending f))"
  have rest: "framer_rest f = ?l @ LF # framer_rest g" "LF \<notin> set ?l"
    using find_newline_drop [OF n] g by (simp_all add: framer_rest_def)
  moreover have "framer_inv f \<Longrightarrow> framer_inv g"
    using find_newline_bounds [OF n] split_lines_first [OF rest(2), of "framer_rest g"] rest(1) ok g
    by (simp add: framer_inv_def lines_fit_def)
  ultimately show ?thesis
    using that [of ?l] line ok g by simp
qed

lemma framer_try_pop_None: "framer_try_pop f = None \<Longrightarrow> \<not> lf_failed f \<Longrightarrow> LF \<notin> set (framer_rest f)"
  by (auto simp: framer_try_pop_def framer_rest_def dest: find_newline_None split: option.splits)

lemma framer_drain_spec:
  "framer_inv f \<Longrightarrow> \<not> lf_failed f \<Longrightarrow> framer_drain f = (g, lines) \<Longrightarrow>
     lines = map strip_cr (fst (split_lines (framer_rest f)))
     \<and> framer_idle g \<and> framer_rest g = snd (split_lines (framer_rest f))
     \<and> lf_max_message_bytes g = lf_max_message_bytes f"
proof (induction f arbitrary: g lines rule: framer_drain.induct)
  case (1 f)
  show ?case
  proof (cases "framer_try_pop f")
    case None
    then have eq: "g = f" "lines = []"
      using "1.prems"(3) by (simp_all add: framer_drain.simps [of f])
    then show ?thesis
      using "1.prems"(1,2) framer_try_pop_None [OF None] by (simp add: split_lines_no_LF framer_idle_def)
  next
    case (Some r)
    obtain f1 line where pop: "framer_try_pop f = Some (f1, line)"
      using Some by (cases r) simp
    obtain l where l: "framer_rest f = l @ LF # framer_rest f1" "LF \<notin> set l" "line = strip_cr l" "\<not> lf_failed f1"
      "lf_max_message_bytes f1 = lf_max_message_bytes f" "framer_inv f \<Longrightarrow> framer_inv f1"
      by (rule framer_try_pop_Some [OF pop]) blast
    obtain ls where h: "framer_drain f1 = (g, ls)" "lines = line # ls"
      using "1.prems"(3) pop by (auto simp: framer_drain.simps [of f] split: prod.splits)
    show ?thesis
      using "1.IH" [OF pop refl l(6) [OF "1.prems"(1)] l(4) h(1)] h(2) l(3,5) split_lines_first [OF l(2)]
      by (simp add: l(1))
  qed
qed

lemma framer_idle_new: "framer_idle (LineFramer_new mx)"
  by (simp add: framer_idle_def framer_inv_new, simp add: LineFramer_new_def framer_rest_def)

lemma framer_receive_spec:
  "framer_idle f \<Longrightarrow> lines_fit (lf_max_message_bytes f) (framer_rest f @ concat chunks) \<Longrightarrow>
     \<exists>g. framer_receive f chunks =
           (map strip_cr (fst (split_lines (framer_rest f @ concat chunks))), Some g)
         \<and> framer_idle g \<and> framer_rest g = snd (split_lines (framer_rest f @ concat chunks))"
proof (induction chunks arbitrary: f)
  case Nil
  then show ?case
    by (simp add: framer_idle_def split_lines_no_LF)
next
  case (Cons c cs)
  let ?mx = "lf_max_message_bytes f" and ?s = "framer_rest f @ c"
  have sp: "split_lines (?s @ concat cs) =
      (fst (split_lines ?s) @ fst (split_lines (snd (split_lines ?s) @ concat cs)),
       snd (split_lines (snd (split_lines ?s) @ concat cs)))"
    by (subst split_lines_append) (simp add: case_prod_beta Let_def)
  have whole: "lines_fit ?mx (?s @ concat cs)"
    using Cons.prems(2) by simp
  then have rest_fit: "lines_fit ?mx (snd (split_lines ?s) @ concat cs)"
    using sp by (simp add: lines_fit_def)
  have "length (snd (split_lines ?s)) \<le> ?mx"
    using rest_fit lines_fit_too_long [OF split_lines_rest_no_LF, of ?mx ?s "concat cs"]
    by (meson not_le)
  then have "lines_fit ?mx ?s"
    using whole sp by (simp add: lines_fit_def)
  then obtain f1 where f1: "framer_append f c = (f1, True)" "framer_inv f1" "\<not> lf_failed f1"
      "framer_rest f1 = ?s" "lf_max_message_bytes f1 = ?mx"
    using framer_append_idle [OF Cons.prems(1), of c] by auto
  obtain f2 ls where f2: "framer_drain f1 = (f2, ls)"
    by (cases "framer_drain f1") auto
  note d = framer_drain_spec [OF f1(2,3) f2]
  then obtain g where "framer_receive f2 cs =
      (map strip_cr (fst (split_lines (framer_rest f2 @ concat cs))), Some g)"
      "framer_idle g" "framer_rest g = snd (split_lines (framer_rest f2 @ concat cs))"
    using Cons.IH [of f2] rest_fit f1(4,5) by auto
  then show ?case
    using f1 f2 d sp by (intro exI [of _ g]) simp
qed

lemma framer_receive_reject:
  "framer_idle f \<Longrightarrow> \<not> lines_fit (lf_max_message_bytes f) (framer_rest f @ concat chunks) \<Longrightarrow>
     snd (framer_receive f chunks) = None"
proof (induction chunks arbitrary: f)
  case Nil
  then show ?case by (simp add: framer_idle_def framer_inv_def)
next
  case (Cons c cs)
  let ?mx = "lf_max_message_bytes f" and ?s = "framer_rest f @ c"
  show ?case
  proof (cases "lines_fit ?mx ?s")
    case False
    then show ?thesis
      using framer_append_idle [OF Cons.prems(1), of c] by auto
  next
    case True
    then obtain f1 where f1: "framer_append f c = (f1, True)" "framer_inv f1" "\<not> lf_failed f1"
        "framer_rest f1 = ?s" "lf_max_message_bytes f1 = ?mx"
      using framer_append_idle [OF Cons.prems(1), of c] by auto
    obtain f2 ls where f2: "framer_drain f1 = (f2, ls)"
      by (cases "framer_drain f1") auto
    note d = framer_drain_spec [OF f1(2,3) f2]
    have "\<not> lines_fit ?mx (?s @ concat cs)"
      using Cons.prems(2) by simp
    then have "\<not> lines_fit ?mx (snd (split_lines ?s) @ concat cs)"
      using True unfolding lines_fit_def
      by (subst (asm) (1 2) split_lines_append) (auto simp: case_prod_beta Let_def)
    then have "snd (framer_receive f2 cs) = None"
      using Cons.IH [of f2] d f1(4,5) by simp
    then show ?thesis
      using f1 f2 by (simp add: case_prod_beta Let_def)
  qed
qed

lemma framer_receive_prefix:
  "framer_idle f \<Longrightarrow> \<not> lines_fit (lf_max_message_bytes f) (framer_rest f @ concat chunks) \<Longrightarrow>
     \<exists>k < length chunks.
        lines_fit (lf_max_message_bytes f) (framer_rest f @ concat (take k chunks))
        \<and> \<not> lines_fit (lf_max_message_bytes f) (framer_rest f @ concat (take (Suc k) chunks))
        \<and> fst (framer_receive f chunks) =
            map strip_cr (fst (split_lines (framer_rest f @ concat (take k chunks))))"
proof (induction chunks arbitrary: f)
  case Nil
  then show ?case by (simp add: framer_idle_def framer_inv_def)
next
  case (Cons c cs)
  let ?mx = "lf_max_message_bytes f" and ?s = "framer_rest f @ c"
  show ?case
  proof (cases "lines_fit ?mx ?s")
    case False
    then show ?thesis
      using framer_append_idle [OF Cons.prems(1), of c] Cons.prems(1)
      by (intro exI [of _ 0])
        (auto simp: framer_idle_def framer_inv_def split_lines_no_LF)
  next
    case True
    then obtain f1 where f1: "framer_append f c = (f1, True)" "framer_inv f1" "\<not> lf_failed f1"
        "framer_rest f1 = ?s" "lf_max_message_bytes f1 = ?mx"
      using framer_append_idle [OF Cons.prems(1), of c] by auto
    obtain f2 ls where f2: "framer_drain f1 = (f2, ls)"
      by (cases "framer_drain f1") auto
    note d = framer_drain_spec [OF f1(2,3) f2]
    have sp: "split_lines (?s @ t) =
        (fst (split_lines ?s) @ fst (split_lines (snd (split_lines ?s) @ t)),
         snd (split_lines (snd (split_lines ?s) @ t)))" for t
      by (subst split_lines_append) (simp add: case_prod_beta Let_def)
    then have fit: "lines_fit ?mx (?s @ t) = lines_fit ?mx (framer_rest f2 @ t)" for t
      using True d f1(4) by (auto simp: lines_fit_def)
    then obtain k where k: "k < length cs"
        "lines_fit ?mx (framer_rest f2 @ concat (take k cs))"
        "\<not> lines_fit ?mx (framer_rest f2 @ concat (take (Suc k) cs))"
        "fst (framer_receive f2 cs) =
           map strip_cr (fst (split_lines (framer_rest f2 @ concat (take k cs))))"
      using Cons.IH [of f2] Cons.prems(2) d f1(4,5) fit [of "concat cs"] by auto
    then show ?thesis
      using f1 f2 d sp fit [of "concat (take k cs)"] fit [of "concat (take (Suc k) cs)"]
      by (intro exI [of _ "Suc k"]) (simp add: case_prod_beta Let_def)
  qed
qed

section \<open>Properties\<close>

lemma framer_new_simps [simp]:
  "framer_rest (LineFramer_new mx) = []" "lf_max_message_bytes (LineFramer_new mx) = mx"
  by (simp_all add: LineFramer_new_def framer_rest_def)

text \<open>
  C7. Framing does not depend on how TCP cuts the stream: if every line of the whole stream
  respects the limit, the reads are all accepted and the dispatched messages are exactly the
  lines of the concatenated stream, each without an optional CR; otherwise the connection is
  refused.
\<close>

theorem framer_refines_split_lines:
  "if lines_fit mx (concat chunks)
   then fst (framer_receive (LineFramer_new mx) chunks) = map strip_cr (fst (split_lines (concat chunks)))
        \<and> map_option framer_rest (snd (framer_receive (LineFramer_new mx) chunks))
            = Some (snd (split_lines (concat chunks)))
   else snd (framer_receive (LineFramer_new mx) chunks) = None"
  using framer_receive_spec [OF framer_idle_new, of mx chunks]
    framer_receive_reject [OF framer_idle_new, of mx chunks]
  by auto

text \<open>
  When some line is too long, the messages dispatched are the complete lines of the reads
  before the first read that breaks the limit; nothing of that read is dispatched.
\<close>

theorem framer_rejected_read_not_dispatched:
  assumes "\<not> lines_fit mx (concat chunks)"
  shows "\<exists>k < length chunks.
     lines_fit mx (concat (take k chunks)) \<and> \<not> lines_fit mx (concat (take (Suc k) chunks))
     \<and> fst (framer_receive (LineFramer_new mx) chunks) =
         map strip_cr (fst (split_lines (concat (take k chunks))))"
  using framer_receive_prefix [OF framer_idle_new, of mx chunks] assms by simp

definition sample_reads :: "string list" where
  "sample_reads = [''ab'' @ [LF], ''c'' @ [LF] @ ''long!'' @ [LF]]"

theorem framer_rejected_read_not_dispatched_witness:
  "\<exists>k < length sample_reads.
     lines_fit 3 (concat (take k sample_reads)) \<and> \<not> lines_fit 3 (concat (take (Suc k) sample_reads))
     \<and> fst (framer_receive (LineFramer_new 3) sample_reads) =
         map strip_cr (fst (split_lines (concat (take k sample_reads))))"
proof -
  have "\<not> lines_fit 3 (concat sample_reads)"
    by (simp add: lines_fit_def sample_reads_def)
  then show ?thesis
    by (rule framer_rejected_read_not_dispatched)
qed

end
