(* ===== verification/Credential_Verifier.thy ===== *)
theory Credential_Verifier
  imports Prelude
begin

text \<open>
  \<^verbatim>\<open>security::constant_time_equals\<close> (src/src/Security/CredentialVerifier.cpp): compares two
  byte strings without an early exit. The accumulator is a \<^verbatim>\<open>std::size_t\<close>, so the length
  difference keeps all its bits.
\<close>

unbundle bit_operations_syntax

text \<open>The byte read at an index: zero past the end.\<close>

definition padded_byte :: "string \<Rightarrow> nat \<Rightarrow> u8" where
  "padded_byte s index = (if index < length s then byte_of_char (s ! index) else 0)"

definition constant_time_equals :: "string \<Rightarrow> string \<Rightarrow> bool" where
  "constant_time_equals left right =
     (let difference = (of_nat (length left) :: u64) XOR of_nat (length right);
          max_size = (if length left > length right then length left else length right);
          difference' = foldl (\<lambda>d index. d OR ucast (padded_byte left index XOR padded_byte right index))
                          difference [0..<max_size]
      in difference' = 0)"

lemma word_or_zero: "(a :: 'a::len word) OR b = 0 \<longleftrightarrow> a = 0 \<and> b = 0"
  by (metis or.left_idem or.right_neutral or.commute)

lemma word_xor_zero: "(a :: 'a::len word) XOR b = 0 \<longleftrightarrow> a = b"
  by (metis xor.assoc xor_self_eq xor.left_neutral xor.right_neutral)

lemma ucast_byte_zero: "(ucast (b :: u8) :: u64) = 0 \<longleftrightarrow> b = 0"
  by transfer (simp add: take_bit_eq_mod)

lemma foldl_or_zero:
  "foldl (\<lambda>d i. d OR g i) (d :: 'a::len word) xs = 0 \<longleftrightarrow> d = 0 \<and> (\<forall>i \<in> set xs. g i = 0)"
  by (induction xs arbitrary: d) (auto simp: word_or_zero)

lemma ct_equals_iff:
  assumes "length left < W64" and "length right < W64"
  shows "constant_time_equals left right \<longleftrightarrow> left = right"
proof -
  have len: "(of_nat (length left) :: u64) = of_nat (length right) \<longleftrightarrow> length left = length right"
    using assms by (simp add: word_of_nat_eq_iff take_bit_eq_mod)
  have "constant_time_equals left right \<longleftrightarrow>
      length left = length right
      \<and> (\<forall>i < max (length left) (length right). padded_byte left i = padded_byte right i)"
    by (auto simp: constant_time_equals_def Let_def foldl_or_zero word_xor_zero ucast_byte_zero len
        max_def)
  also have "\<dots> \<longleftrightarrow> left = right"
    by (auto simp: padded_byte_def list_eq_iff_nth_eq inj_eq [OF inj_byte_of_char])
  finally show ?thesis .
qed

text \<open>
  The constant-time comparison decides equality: for strings whose lengths are
  \<^verbatim>\<open>std::size_t\<close> values it returns true exactly when they are the same string, so neither
  zero padding nor a length difference that is a multiple of 256 goes unnoticed.
\<close>

theorem constant_time_equals_iff:
  assumes "length left < W64" and "length right < W64"
  shows "constant_time_equals left right \<longleftrightarrow> left = right"
  using assms by (rule ct_equals_iff)

theorem constant_time_equals_iff_witness:
  "constant_time_equals ''token'' ''token'' \<and> \<not> constant_time_equals ''token'' ''toke''"
  using constant_time_equals_iff [of "''token''" "''token''"]
    constant_time_equals_iff [of "''token''" "''toke''"] by simp

end
