(* ===== verification/Config.thy ===== *)
theory Config
  imports Text Containers
begin

text \<open>
  \<^verbatim>\<open>core::Config\<close> (src/src/Core/Config.cpp): the INI reader and its typed getters. A file is
  its content, or \<open>None\<close> when it cannot be opened. \<open>config_load_file\<close> is the whole of
  \<^verbatim>\<open>load_file\<close>: the values are cleared first and stay partly loaded when a line is refused.
\<close>

type_synonym config = "(string, string) umap"

section \<open>Loading\<close>

definition config_error :: "string \<Rightarrow> nat \<Rightarrow> string \<Rightarrow> string" where
  "config_error path line_number detail = path @ '':'' @ decimal line_number @ '': '' @ detail"

text \<open>One turn of the loop: the section and values after the line, or the refusal.\<close>

definition config_line :: "string \<Rightarrow> config \<Rightarrow> string \<Rightarrow> string + (string \<times> config)" where
  "config_line sect vals line =
     (let trimmed = trim_view line
      in if trimmed = [] \<or> hd trimmed = CHR ''#'' \<or> hd trimmed = CHR '';'' then Inr (sect, vals)
         else if hd trimmed = CHR ''['' then
           (if last trimmed \<noteq> CHR '']'' then Inl (''section header is missing '' @ [CHR 39, CHR '']'', CHR 39])
            else
              (let sect' = trim_view (take (length trimmed - 2) (drop 1 trimmed))
               in if sect' = [] then Inl ''section name is empty'' else Inr (sect', vals)))
         else if CHR ''='' \<notin> set trimmed then Inl ''expected key=value''
         else
           (let separator = length (takeWhile (\<lambda>c. c \<noteq> CHR ''='') trimmed);
                key = trim_view (take separator trimmed);
                val = trim_view (drop (separator + 1) trimmed)
            in if key = [] then Inl ''key is empty''
               else Inr (sect, umap_assign (if sect = [] then key else sect @ ''.'' @ key) val vals)))"

fun config_lines :: "string \<Rightarrow> nat \<Rightarrow> string \<Rightarrow> config \<Rightarrow> string list \<Rightarrow> config \<times> unit res" where
  "config_lines path line_number sect vals [] = (vals, Inr ())"
| "config_lines path line_number sect vals (line # lines) =
     (case config_line sect vals line of
        Inl detail \<Rightarrow> (vals, Inl (config_error path (line_number + 1) detail))
      | Inr (sect', vals') \<Rightarrow> config_lines path (line_number + 1) sect' vals' lines)"

definition config_load_file :: "string \<Rightarrow> string option \<Rightarrow> config \<Rightarrow> config \<times> unit res" where
  "config_load_file path content vals =
     (case content of
        None \<Rightarrow> (vals, Inl (''Failed to open config file: '' @ path))
      | Some file \<Rightarrow> config_lines path 0 [] [] (getlines file))"

section \<open>Getters\<close>

definition config_set :: "string \<Rightarrow> string \<Rightarrow> config \<Rightarrow> config" where
  "config_set key val vals = umap_assign key val vals"

definition config_clear :: "config \<Rightarrow> config" where
  "config_clear vals = []"

definition config_contains :: "config \<Rightarrow> string \<Rightarrow> bool" where
  "config_contains vals key = (umap_find vals key \<noteq> None)"

definition config_size :: "config \<Rightarrow> nat" where
  "config_size vals = umap_size vals"

definition get_string :: "config \<Rightarrow> string \<Rightarrow> string option" where
  "get_string vals key = umap_find vals key"

definition get_string_or :: "config \<Rightarrow> string \<Rightarrow> string \<Rightarrow> string" where
  "get_string_or vals key fallback =
     (case get_string vals key of Some v \<Rightarrow> v | None \<Rightarrow> fallback)"

definition get_int :: "config \<Rightarrow> string \<Rightarrow> int option" where
  "get_int vals key =
     (case get_string vals key of
        None \<Rightarrow> None
      | Some v \<Rightarrow>
          (case from_chars (-2147483648) 2147483647 (trim_view v) of
             Some (result, rest) \<Rightarrow> if rest = [] then Some result else None
           | None \<Rightarrow> None))"

definition get_int_or :: "config \<Rightarrow> string \<Rightarrow> int \<Rightarrow> int" where
  "get_int_or vals key fallback = (case get_int vals key of Some v \<Rightarrow> v | None \<Rightarrow> fallback)"

definition get_bool :: "config \<Rightarrow> string \<Rightarrow> bool option" where
  "get_bool vals key =
     (case get_string vals key of
        None \<Rightarrow> None
      | Some v \<Rightarrow>
          (let lowered = lowercase_copy (trim_view v)
           in if lowered \<in> {''true'', ''yes'', ''on'', ''1''} then Some True
              else if lowered \<in> {''false'', ''no'', ''off'', ''0''} then Some False
              else None))"

definition get_bool_or :: "config \<Rightarrow> string \<Rightarrow> bool \<Rightarrow> bool" where
  "get_bool_or vals key fallback = (case get_bool vals key of Some v \<Rightarrow> v | None \<Rightarrow> fallback)"

section \<open>Reading back a written file\<close>

text \<open>A key or value that a line can carry: no newline, no outer white space.\<close>

definition plain :: "string \<Rightarrow> bool" where
  "plain s \<longleftrightarrow> LF \<notin> set s \<and> trim_view s = s"

definition plain_key :: "string \<Rightarrow> bool" where
  "plain_key k \<longleftrightarrow> plain k \<and> k \<noteq> [] \<and> CHR ''='' \<notin> set k
     \<and> hd k \<notin> {CHR ''#'', CHR '';'', CHR ''[''}"

definition ini_line :: "string \<times> string \<Rightarrow> string" where
  "ini_line kv = fst kv @ ''='' @ snd kv"

definition section_line :: "string \<Rightarrow> string" where
  "section_line s = ''['' @ s @ '']''"

definition ini_text :: "string \<Rightarrow> (string \<times> string) list \<Rightarrow> string" where
  "ini_text sect kvs = concat (map (\<lambda>l. l @ [LF]) (section_line sect # map ini_line kvs))"

lemma trim_view_ends: "trim_view s = s \<Longrightarrow> s \<noteq> [] \<Longrightarrow> \<not> isspace (hd s) \<and> \<not> isspace (last s)"
  using trim_view_hd [of s] by auto

lemma config_line_entry:
  assumes "plain_key k" and "plain v"
  shows "config_line sect vals (ini_line (k, v)) =
    Inr (sect, umap_assign (if sect = [] then k else sect @ ''.'' @ k) v vals)"
proof -
  have k: "k \<noteq> []" "CHR ''='' \<notin> set k" "\<not> isspace (hd k)" "trim_view k = k"
    using assms(1) trim_view_ends [of k] by (auto simp: plain_key_def plain_def)
  have "\<not> isspace (last (ini_line (k, v)))"
    using assms(2) trim_view_ends [of v]
    by (auto simp: ini_line_def plain_def isspace_def)
  then have t: "trim_view (ini_line (k, v)) = ini_line (k, v)"
    using k by (intro trim_view_id) (simp add: ini_line_def)
  have sep: "takeWhile (\<lambda>c. c \<noteq> CHR ''='') (ini_line (k, v)) = k"
    unfolding ini_line_def using k(2) by (subst takeWhile_append2) auto
  show ?thesis
    using assms k t sep
    by (auto simp: config_line_def plain_key_def plain_def ini_line_def)
qed

lemma config_lines_entries:
  "list_all (\<lambda>kv. plain_key (fst kv) \<and> plain (snd kv)) kvs \<Longrightarrow>
     config_lines path n sect vals (map ini_line kvs) =
       (fold (\<lambda>kv. umap_assign (if sect = [] then fst kv else sect @ ''.'' @ fst kv) (snd kv)) kvs vals,
        Inr ())"
  by (induction kvs arbitrary: n vals) (auto simp: config_line_entry)

lemma config_line_section:
  assumes "plain s" and "s \<noteq> []"
  shows "config_line sect vals (section_line s) = Inr (s, vals)"
proof -
  have "trim_view (section_line s) = section_line s"
    by (rule trim_view_id) (simp add: section_line_def isspace_def)
  then show ?thesis
    using assms by (simp add: config_line_def section_line_def plain_def)
qed

lemma fold_assign_lookup:
  "umap_find (fold (\<lambda>kv. umap_assign (f (fst kv)) (snd kv)) kvs m) q =
     (case find (\<lambda>kv. f (fst kv) = q) (rev kvs) of Some kv \<Rightarrow> Some (snd kv) | None \<Rightarrow> umap_find m q)"
proof (induction kvs rule: rev_induct)
  case (snoc kv kvs)
  then show ?case by auto
qed simp

text \<open>
  C40. A written section reads back: loading the text of a section whose keys and values a line
  can carry succeeds, and every qualified key \<open>section.key\<close> maps to the last value written
  for it; no other key is present.
\<close>

theorem config_load_roundtrip:
  assumes "plain sect" and "sect \<noteq> []"
    and "list_all (\<lambda>kv. plain_key (fst kv) \<and> plain (snd kv)) kvs"
  shows "snd (config_load_file path (Some (ini_text sect kvs)) old) = Inr ()
    \<and> get_string (fst (config_load_file path (Some (ini_text sect kvs)) old)) q =
        map_option snd (find (\<lambda>kv. sect @ ''.'' @ fst kv = q) (rev kvs))"
proof -
  have "list_all (\<lambda>l. LF \<notin> set l) (section_line sect # map ini_line kvs)"
    using assms by (auto simp: list_all_iff plain_key_def plain_def section_line_def ini_line_def)
  then have lines: "getlines (ini_text sect kvs) = section_line sect # map ini_line kvs"
    unfolding ini_text_def by (rule getlines_lines)
  have "config_load_file path (Some (ini_text sect kvs)) old =
      (fold (\<lambda>kv. umap_assign (sect @ ''.'' @ fst kv) (snd kv)) kvs [], Inr ())"
    using assms by (simp add: config_load_file_def lines config_line_section config_lines_entries)
  then show ?thesis
    using fold_assign_lookup [of "\<lambda>k. sect @ ''.'' @ k" kvs "[]" q]
    by (auto simp: get_string_def split: option.splits)
qed

theorem config_load_roundtrip_witness:
  "get_string (fst (config_load_file ''server.ini''
      (Some (ini_text ''server'' [(''port'', ''8080''), (''port'', ''9090'')])) [])) ''server.port'' =
     Some ''9090''"
proof -
  have k: "plain ''server''" "list_all (\<lambda>kv. plain_key (fst kv) \<and> plain (snd kv))
      [(''port'', ''8080''), (''port'', ''9090'')]"
    by (simp_all add: plain_key_def plain_def trim_view_def trim_back_def isspace_def)
  show ?thesis
    using config_load_roundtrip [OF k(1) _ k(2), of "''server.ini''" "[]" "''server.port''"] by simp
qed

lemma config_lines_result:
  "snd (config_lines path n sect vals lines) = Inr ()
   \<or> (\<exists>k < length lines. \<exists>detail. snd (config_lines path n sect vals lines) =
         Inl (config_error path (n + k + 1) detail))"
proof (induction lines arbitrary: n sect vals)
  case (Cons l lines)
  show ?case
  proof (cases "config_line sect vals l")
    case (Inr r)
    obtain sect' vals' where r: "r = (sect', vals')" by (cases r)
    consider "snd (config_lines path (n + 1) sect' vals' lines) = Inr ()"
      | k detail where "k < length lines" "snd (config_lines path (n + 1) sect' vals' lines) =
          Inl (config_error path (n + 1 + k + 1) detail)"
      using Cons.IH [of "n + 1" sect' vals'] by blast
    then show ?thesis
    proof cases
      case 2
      then show ?thesis
        using Inr r by (intro disjI2 exI [of _ "Suc k"]) auto
    qed (simp add: Inr r)
  next
    case (Inl detail)
    then show ?thesis by (intro disjI2 exI [of _ 0]) auto
  qed
qed simp

lemma config_set_get: "get_string (config_set k v m) k = Some v"
  by (simp add: get_string_def config_set_def)

text \<open>
  Typed getters: an integer written in decimal, with white space around it, reads back
  exactly when it is in the range of \<^verbatim>\<open>int\<close> and not at all otherwise; the accepted boolean
  spellings do not depend on case or on surrounding white space.
\<close>

theorem config_typed_getters:
  "get_int (config_set k ('' '' @ show_int i @ '' '') m) k =
     (if -2147483648 \<le> i \<and> i \<le> 2147483647 then Some i else None)
   \<and> get_bool (config_set k ('' '' @ s @ '' '') m) k = get_bool (config_set k (lowercase_copy s) m) k"
  by (simp add: get_int_def get_bool_def config_set_get from_chars_show_int trim_view_lowercase
      isspace_def)

text \<open>
  Loading reports honestly: if the file is refused, the message names the path and a line
  number within the file; a file that cannot be opened leaves the values as they were.
\<close>

theorem config_load_error_line:
  "snd (config_load_file path None old) = Inl (''Failed to open config file: '' @ path)
   \<and> fst (config_load_file path None old) = old
   \<and> (snd (config_load_file path (Some file) old) = Inr ()
      \<or> (\<exists>n detail. 1 \<le> n \<and> n \<le> length (getlines file)
            \<and> snd (config_load_file path (Some file) old) = Inl (config_error path n detail)))"
proof -
  have "snd (config_lines path 0 [] [] (getlines file)) = Inr ()
      \<or> (\<exists>n detail. 1 \<le> n \<and> n \<le> length (getlines file)
            \<and> snd (config_lines path 0 [] [] (getlines file)) = Inl (config_error path n detail))"
    using config_lines_result [of path 0 "[]" "[]" "getlines file"]
    by (metis Suc_eq_plus1 Suc_leI add_0 le_add1 One_nat_def plus_1_eq_Suc)
  then show ?thesis by (simp add: config_load_file_def)
qed

end
