(* ===== verification/Names.thy ===== *)
theory Names
  imports Text
begin

text \<open>
  The enumerations of the engine with their names: transport kinds, TCP backends and security
  modes (src/src/Net/TransportKind.cpp, src/src/Net/TcpBackend.cpp,
  src/src/Security/SecurityMode.cpp) and endpoints (src/src/Net/Endpoint.cpp). Parsing
  lower-cases first; several spellings are accepted.
\<close>

datatype transport_kind = Tcp | Udp | WebSocket

definition transport_to_string :: "transport_kind \<Rightarrow> string" where
  "transport_to_string kind =
     (case kind of Tcp \<Rightarrow> ''tcp'' | Udp \<Rightarrow> ''udp'' | WebSocket \<Rightarrow> ''websocket'')"

definition parse_transport_kind :: "string \<Rightarrow> transport_kind option" where
  "parse_transport_kind s =
     (let lowered = lowercase_copy s
      in if lowered = ''tcp'' then Some Tcp
         else if lowered = ''udp'' then Some Udp
         else if lowered = ''websocket'' \<or> lowered = ''ws'' then Some WebSocket
         else None)"

datatype tcp_backend = Threaded | Iocp

definition backend_to_string :: "tcp_backend \<Rightarrow> string" where
  "backend_to_string b = (case b of Threaded \<Rightarrow> ''threaded'' | Iocp \<Rightarrow> ''iocp'')"

definition parse_tcp_backend :: "string \<Rightarrow> tcp_backend option" where
  "parse_tcp_backend s =
     (let normalized = lowercase_copy s
      in if normalized = ''threaded'' \<or> normalized = ''thread'' then Some Threaded
         else if normalized = ''iocp'' \<or> normalized = ''windows-iocp'' then Some Iocp
         else None)"

definition default_tcp_backend :: "bool \<Rightarrow> tcp_backend" where
  "default_tcp_backend windows = (if windows then Iocp else Threaded)"

datatype security_mode = Mode_None | Token | EccP256

definition security_to_string :: "security_mode \<Rightarrow> string" where
  "security_to_string m = (case m of Mode_None \<Rightarrow> ''none'' | Token \<Rightarrow> ''token'' | EccP256 \<Rightarrow> ''ecc-p256'')"

definition parse_security_mode :: "string \<Rightarrow> security_mode option" where
  "parse_security_mode s =
     (let lowered = lowercase_copy s
      in if lowered = ''none'' \<or> lowered = ''off'' then Some Mode_None
         else if lowered = ''token'' \<or> lowered = ''shared-token'' then Some Token
         else if lowered = ''ecc'' \<or> lowered = ''ecc-p256'' \<or> lowered = ''p256'' then Some EccP256
         else None)"

record endpoint =
  ep_address :: string
  ep_port :: u16

definition endpoint_to_string :: "endpoint \<Rightarrow> string" where
  "endpoint_to_string e = ep_address e @ '':'' @ decimal (unat (ep_port e))"

section \<open>Log levels\<close>

datatype log_level = Trace | Debug | Info | Warning | Error | Critical | Off

definition level_to_string :: "log_level \<Rightarrow> string" where
  "level_to_string l =
     (case l of Trace \<Rightarrow> ''TRACE'' | Debug \<Rightarrow> ''DEBUG'' | Info \<Rightarrow> ''INFO'' | Warning \<Rightarrow> ''WARN''
      | Error \<Rightarrow> ''ERROR'' | Critical \<Rightarrow> ''CRITICAL'' | Off \<Rightarrow> ''OFF'')"

definition level_to_int :: "log_level \<Rightarrow> int" where
  "level_to_int l =
     (case l of Trace \<Rightarrow> 0 | Debug \<Rightarrow> 1 | Info \<Rightarrow> 2 | Warning \<Rightarrow> 3 | Error \<Rightarrow> 4 | Critical \<Rightarrow> 5 | Off \<Rightarrow> 6)"

definition parse_log_level :: "string \<Rightarrow> log_level option" where
  "parse_log_level s =
     (let lowered = lowercase_copy s
      in if lowered = ''trace'' then Some Trace
         else if lowered = ''debug'' then Some Debug
         else if lowered = ''info'' then Some Info
         else if lowered = ''warning'' \<or> lowered = ''warn'' then Some Warning
         else if lowered = ''error'' then Some Error
         else if lowered = ''critical'' \<or> lowered = ''fatal'' then Some Critical
         else if lowered = ''off'' \<or> lowered = ''none'' then Some Off
         else None)"

instantiation log_level :: linorder
begin

definition less_eq_log_level :: "log_level \<Rightarrow> log_level \<Rightarrow> bool" where
  "less_eq_log_level a b \<longleftrightarrow> level_to_int a \<le> level_to_int b"

definition less_log_level :: "log_level \<Rightarrow> log_level \<Rightarrow> bool" where
  "less_log_level a b \<longleftrightarrow> level_to_int a < level_to_int b"

instance
proof
  fix a b :: log_level
  assume "a \<le> b" "b \<le> a"
  then show "a = b"
    by (cases a; cases b) (simp_all add: less_eq_log_level_def level_to_int_def)
qed (auto simp: less_eq_log_level_def less_log_level_def)

end

section \<open>Properties\<close>

lemma lowercase_letters:
  "map tolower ''TRACE'' = ''trace''" "map tolower ''DEBUG'' = ''debug''" "map tolower ''INFO'' = ''info''"
  "map tolower ''WARN'' = ''warn''" "map tolower ''ERROR'' = ''error''"
  "map tolower ''CRITICAL'' = ''critical''" "map tolower ''OFF'' = ''off''"
  by (simp_all add: tolower_def char_of_def bit_0)

text \<open>
  Every printed name parses back to its value: transport kinds, TCP backends, security modes
  and log levels; parsing does not depend on the case of its input.
\<close>

theorem names_parse_back:
  "parse_transport_kind (transport_to_string k) = Some k
   \<and> parse_tcp_backend (backend_to_string b) = Some b
   \<and> parse_security_mode (security_to_string m) = Some m
   \<and> parse_log_level (level_to_string l) = Some l
   \<and> parse_transport_kind (lowercase_copy s) = parse_transport_kind s
   \<and> parse_tcp_backend (lowercase_copy s) = parse_tcp_backend s
   \<and> parse_security_mode (lowercase_copy s) = parse_security_mode s
   \<and> parse_log_level (lowercase_copy s) = parse_log_level s"
proof -
  have "parse_transport_kind (transport_to_string k) = Some k"
    by (cases k) (simp_all add: transport_to_string_def parse_transport_kind_def lowercase_copy_def
        tolower_def)
  moreover have "parse_tcp_backend (backend_to_string b) = Some b"
    by (cases b) (simp_all add: backend_to_string_def parse_tcp_backend_def lowercase_copy_def
        tolower_def)
  moreover have "parse_security_mode (security_to_string m) = Some m"
    by (cases m) (simp_all add: security_to_string_def parse_security_mode_def lowercase_copy_def
        tolower_def)
  moreover have "parse_log_level (level_to_string l) = Some l"
    by (cases l) (simp_all add: level_to_string_def parse_log_level_def lowercase_copy_def
        lowercase_letters del: list.map)
  ultimately show ?thesis
    by (simp add: parse_transport_kind_def parse_tcp_backend_def parse_security_mode_def
        parse_log_level_def)
qed

end
