(* ===== verification/Logger.thy ===== *)
theory Logger
  imports Names
begin

text \<open>
  \<^verbatim>\<open>core::Logger\<close> (src/src/Core/Logger.cpp). The state is the options, the two flags the class
  keeps (initialised, file open) and what has been written to standard output, standard error and
  the log file. The file system answers two questions when the logger opens its file: whether the
  parent directories could be created and whether the file could be opened.
\<close>

record date_time =
  dt_year :: nat
  dt_month :: nat
  dt_day :: nat
  dt_hour :: nat
  dt_minute :: nat
  dt_second :: nat
  dt_millisecond :: nat

record logger_options =
  minimum_level :: log_level
  console_enabled :: bool
  file_path :: string
  has_parent_path :: bool
  append_file :: bool

record logger =
  lg_options :: logger_options
  lg_initialized :: bool
  lg_file_open :: bool
  lg_stdout :: "string list"
  lg_stderr :: "string list"
  lg_file :: "string list"

record log_environment =
  directories_created :: bool
  file_opened :: bool

definition Logger_new :: "logger_options \<Rightarrow> string list \<Rightarrow> logger" where
  "Logger_new options existing =
     \<lparr>lg_options = options, lg_initialized = False, lg_file_open = False,
      lg_stdout = [], lg_stderr = [], lg_file = existing\<rparr>"

definition should_log :: "logger \<Rightarrow> log_level \<Rightarrow> bool" where
  "should_log lg level =
     (if level = Off \<or> minimum_level (lg_options lg) = Off then False
      else level_to_int level \<ge> level_to_int (minimum_level (lg_options lg)))"

text \<open>\<^verbatim>\<open>std::setw(n)\<close> with fill character 0.\<close>

definition pad0 :: "nat \<Rightarrow> nat \<Rightarrow> string" where
  "pad0 w n = replicate (w - length (decimal n)) (CHR ''0'') @ decimal n"

definition format_line :: "date_time \<Rightarrow> log_level \<Rightarrow> string \<Rightarrow> string" where
  "format_line now level message =
     pad0 4 (dt_year now) @ ''-'' @ pad0 2 (dt_month now) @ ''-'' @ pad0 2 (dt_day now) @ '' ''
     @ pad0 2 (dt_hour now) @ '':'' @ pad0 2 (dt_minute now) @ '':'' @ pad0 2 (dt_second now) @ ''.''
     @ pad0 3 (dt_millisecond now) @ '' ['' @ level_to_string level @ ''] '' @ message"

definition initialize_locked :: "log_environment \<Rightarrow> logger \<Rightarrow> logger \<times> bool" where
  "initialize_locked env lg =
     (if lg_initialized lg then (lg, True)
      else if file_path (lg_options lg) \<noteq> [] then
        (if has_parent_path (lg_options lg) \<and> \<not> directories_created env then (lg, False)
         else if \<not> file_opened env then (lg, False)
         else (lg\<lparr>lg_file_open := True,
                  lg_file := (if append_file (lg_options lg) then lg_file lg else []),
                  lg_initialized := True\<rparr>, True))
      else (lg\<lparr>lg_initialized := True\<rparr>, True))"

definition logger_close :: "logger \<Rightarrow> logger" where
  "logger_close lg = lg\<lparr>lg_file_open := False, lg_initialized := False\<rparr>"

definition console_write :: "log_level \<Rightarrow> string \<Rightarrow> logger \<Rightarrow> logger" where
  "console_write level line lg =
     (if level \<ge> Warning then lg\<lparr>lg_stderr := lg_stderr lg @ [line]\<rparr>
      else lg\<lparr>lg_stdout := lg_stdout lg @ [line]\<rparr>)"

definition logger_log :: "log_environment \<Rightarrow> date_time \<Rightarrow> log_level \<Rightarrow> string \<Rightarrow> logger \<Rightarrow> logger" where
  "logger_log env now level message lg =
     (if \<not> should_log lg level then lg
      else
        (let line = format_line now level message;
             (lg1, ok) = initialize_locked env lg
         in if \<not> ok then lg1
            else
              (let lg2 = (if console_enabled (lg_options lg1) then console_write level line lg1 else lg1)
               in if lg_file_open lg2 then lg2\<lparr>lg_file := lg_file lg2 @ [line]\<rparr> else lg2)))"

section \<open>Properties\<close>

lemma initialize_locked_options [simp]:
  "lg_options (fst (initialize_locked env lg)) = lg_options lg"
  "lg_stdout (fst (initialize_locked env lg)) = lg_stdout lg"
  "lg_stderr (fst (initialize_locked env lg)) = lg_stderr lg"
  by (simp_all add: initialize_locked_def)

lemma console_write_frame [simp]:
  "lg_options (console_write l t lg) = lg_options lg"
  "lg_file_open (console_write l t lg) = lg_file_open lg"
  "lg_file (console_write l t lg) = lg_file lg"
  by (simp_all add: console_write_def)

text \<open>
  Log filtering and routing: a record below the minimum level (or at level Off) changes
  nothing; a record at or above it, with the console on and the logger able to initialise,
  appends exactly one formatted line to the console stream of its level, standard error from
  Warning upwards and standard output below, and leaves the other stream alone.
\<close>

theorem logger_log_routes:
  "if \<not> should_log lg level then logger_log env now level message lg = lg
   else if console_enabled (lg_options lg) \<and> snd (initialize_locked env lg) then
     lg_stderr (logger_log env now level message lg) =
       lg_stderr lg @ (if Warning \<le> level then [format_line now level message] else [])
     \<and> lg_stdout (logger_log env now level message lg) =
       lg_stdout lg @ (if Warning \<le> level then [] else [format_line now level message])
   else lg_stderr (logger_log env now level message lg) = lg_stderr lg
     \<and> lg_stdout (logger_log env now level message lg) = lg_stdout lg"
  by (auto simp: logger_log_def case_prod_beta Let_def console_write_def)

end
