(* ===== verification/Net_Types.thy ===== *)
theory Net_Types
  imports Byte_Buffer Names
begin

text \<open>
  The value types that cross the transport boundary
  (src/include/ServerEngine/Net/TransportService.h, HttpTypes.h).
\<close>

datatype protocol = PTcp | PUdp | PWebSocket | PHttp

datatype channel_security = Sec_None | Sec_Tls

record listener_config =
  lc_id :: u64
  lc_protocol :: protocol
  lc_bind_address :: string
  lc_port :: u16
  lc_security :: channel_security
  lc_certificate_chain_file :: string
  lc_private_key_file :: string
  lc_websocket_path :: string
  lc_handshake_timeout_ms :: nat

record service_limits =
  worker_threads :: nat
  max_connections :: nat
  max_message_bytes :: nat
  max_send_queue_bytes :: nat
  idle_timeout_ms :: nat

record peer =
  p_session_id :: u64
  p_listener_id :: u64
  p_protocol :: protocol
  p_address :: string
  p_port :: u16

text \<open>\<^verbatim>\<open>net::Peer{}\<close>: the default member initialisers.\<close>

definition Peer_default :: peer where
  "Peer_default = \<lparr>p_session_id = 0, p_listener_id = 0, p_protocol = PTcp, p_address = [], p_port = 0\<rparr>"

record http_header =
  hh_name :: string
  hh_value :: string

record http_response =
  hr_status_code :: nat
  hr_close_connection :: bool
  hr_content_type :: string
  hr_headers :: "http_header list"
  hr_body :: buffer

end
