(* ===== verification/Connection_Hub.thy ===== *)
theory Connection_Hub
  imports Net_Types Containers
begin

text \<open>
  \<^verbatim>\<open>runtime::ConnectionHub\<close>, \<^verbatim>\<open>SessionRegistry\<close> and \<^verbatim>\<open>Session\<close>
  (src/src/Runtime/ConnectionHub.cpp, SessionRegistry.cpp, Session.cpp). The hub keeps one
  snapshot per session; the registry admits sessions under a limit and numbers them; a session is
  the view a handler receives. \<open>now\<close> is the value of \<^verbatim>\<open>system_milliseconds()\<close> at the call.
\<close>

section \<open>The hub\<close>

record session_snapshot =
  ss_id :: u64
  ss_transport :: transport_kind
  ss_remote_endpoint :: endpoint
  ss_authenticated :: bool
  ss_user_name :: string
  ss_connected_at_ms :: u64
  ss_last_seen_at_ms :: u64
  ss_messages_received :: u64
  ss_messages_sent :: u64
  ss_bytes_received :: u64
  ss_bytes_sent :: u64

type_synonym hub = "(u64, session_snapshot) umap"

definition hub_add_session :: "u64 \<Rightarrow> u64 \<Rightarrow> transport_kind \<Rightarrow> endpoint \<Rightarrow> hub \<Rightarrow> hub" where
  "hub_add_session now i transport remote_endpoint h =
     umap_assign i
       \<lparr>ss_id = i, ss_transport = transport, ss_remote_endpoint = remote_endpoint,
        ss_authenticated = False, ss_user_name = [], ss_connected_at_ms = now,
        ss_last_seen_at_ms = now, ss_messages_received = 0, ss_messages_sent = 0,
        ss_bytes_received = 0, ss_bytes_sent = 0\<rparr> h"

definition hub_remove_session :: "u64 \<Rightarrow> hub \<Rightarrow> hub" where
  "hub_remove_session i h = umap_erase i h"

definition hub_authenticate :: "u64 \<Rightarrow> u64 \<Rightarrow> string \<Rightarrow> hub \<Rightarrow> hub \<times> bool" where
  "hub_authenticate now i user h =
     (case umap_find h i of
        None \<Rightarrow> (h, False)
      | Some s \<Rightarrow>
          (umap_assign i (s\<lparr>ss_authenticated := True, ss_user_name := user,
                            ss_last_seen_at_ms := now\<rparr>) h, True))"

definition hub_is_authenticated :: "hub \<Rightarrow> u64 \<Rightarrow> bool" where
  "hub_is_authenticated h i =
     (case umap_find h i of None \<Rightarrow> False | Some s \<Rightarrow> ss_authenticated s)"

definition hub_user_name :: "hub \<Rightarrow> u64 \<Rightarrow> string" where
  "hub_user_name h i = (case umap_find h i of None \<Rightarrow> [] | Some s \<Rightarrow> ss_user_name s)"

definition hub_record_received :: "u64 \<Rightarrow> u64 \<Rightarrow> nat \<Rightarrow> hub \<Rightarrow> hub" where
  "hub_record_received now i byte_count h =
     (case umap_find h i of
        None \<Rightarrow> h
      | Some s \<Rightarrow>
          umap_assign i (s\<lparr>ss_messages_received := ss_messages_received s + 1,
                           ss_bytes_received := ss_bytes_received s + of_nat byte_count,
                           ss_last_seen_at_ms := now\<rparr>) h)"

definition hub_record_sent :: "u64 \<Rightarrow> u64 \<Rightarrow> nat \<Rightarrow> hub \<Rightarrow> hub" where
  "hub_record_sent now i byte_count h =
     (case umap_find h i of
        None \<Rightarrow> h
      | Some s \<Rightarrow>
          umap_assign i (s\<lparr>ss_messages_sent := ss_messages_sent s + 1,
                           ss_bytes_sent := ss_bytes_sent s + of_nat byte_count,
                           ss_last_seen_at_ms := now\<rparr>) h)"

definition hub_find :: "hub \<Rightarrow> u64 \<Rightarrow> session_snapshot option" where
  "hub_find h i = umap_find h i"

definition hub_snapshot :: "hub \<Rightarrow> session_snapshot list" where
  "hub_snapshot h = map snd h"

definition hub_count :: "hub \<Rightarrow> nat" where
  "hub_count h = umap_size h"

lemmas hub_defs = hub_add_session_def hub_remove_session_def hub_authenticate_def
  hub_is_authenticated_def hub_user_name_def hub_record_received_def hub_record_sent_def
  hub_find_def hub_snapshot_def hub_count_def

section \<open>Operations that keep the set of sessions\<close>

text \<open>Two hubs that hold the same sessions, both well formed.\<close>

definition same_sessions :: "hub \<Rightarrow> hub \<Rightarrow> bool" where
  "same_sessions h h' \<longleftrightarrow>
     (umap_wf h \<longrightarrow> umap_wf h' \<and> umap_size h' = umap_size h
        \<and> (\<forall>i. (umap_find h' i = None) = (umap_find h i = None)))"

lemma same_sessions_refl [intro, simp]: "same_sessions h h"
  by (simp add: same_sessions_def)

lemma same_sessions_trans: "same_sessions a b \<Longrightarrow> same_sessions b c \<Longrightarrow> same_sessions a c"
  by (auto simp: same_sessions_def)

lemma same_sessions_update:
  "umap_find h i = Some s \<Longrightarrow> same_sessions h (umap_assign i s' h)"
  by (auto simp: same_sessions_def umap.wf_assign umap.size_assign_old)

lemma hub_same_sessions [inv_rules]:
  "same_sessions h (fst (hub_authenticate now i user h))"
  "same_sessions h (hub_record_received now i n h)"
  "same_sessions h (hub_record_sent now i n h)"
  by (auto simp: hub_defs same_sessions_update split: option.splits)

section \<open>Sessions\<close>

text \<open>
  What the handlers and the transport change: the hub, the bytes handed to the wire and the
  records given to the logger.
\<close>

record session_io =
  io_hub :: hub
  io_wire :: "(u64 \<times> bytes) list"
  io_log :: "(log_level \<times> string) list"

definition log_record :: "log_level \<Rightarrow> string \<Rightarrow> session_io \<Rightarrow> session_io" where
  "log_record level message io = io\<lparr>io_log := io_log io @ [(level, message)]\<rparr>"

lemma log_record_frame [simp]:
  "io_hub (log_record l m io) = io_hub io" "io_wire (log_record l m io) = io_wire io"
  "io_log (log_record l m io) = io_log io @ [(l, m)]"
  by (simp_all add: log_record_def)

type_synonym send_function = "u64 \<Rightarrow> buffer \<Rightarrow> unit res"

record session =
  se_id :: u64
  se_transport :: transport_kind
  se_remote_endpoint :: endpoint
  se_send_function :: "send_function option"
  se_has_hub :: bool

definition session_is_authenticated :: "session \<Rightarrow> session_io \<Rightarrow> bool" where
  "session_is_authenticated s io = (se_has_hub s \<and> hub_is_authenticated (io_hub io) (se_id s))"

definition session_user_name :: "session \<Rightarrow> session_io \<Rightarrow> string" where
  "session_user_name s io = (if \<not> se_has_hub s then [] else hub_user_name (io_hub io) (se_id s))"

definition session_authenticate_user :: "u64 \<Rightarrow> session \<Rightarrow> string \<Rightarrow> session_io \<Rightarrow> session_io \<times> bool" where
  "session_authenticate_user now s user io =
     (if \<not> se_has_hub s then (io, False)
      else (let (h, ok) = hub_authenticate now (se_id s) user (io_hub io)
            in (io\<lparr>io_hub := h\<rparr>, ok)))"

definition session_send :: "u64 \<Rightarrow> session \<Rightarrow> buffer \<Rightarrow> session_io \<Rightarrow> session_io \<times> unit res" where
  "session_send now s data io =
     (case se_send_function s of
        None \<Rightarrow> (io, Inl ''session has no send function'')
      | Some send_function \<Rightarrow>
          (case send_function (se_id s) data of
             Inl e \<Rightarrow> (io, Inl e)
           | Inr _ \<Rightarrow>
               (io\<lparr>io_wire := io_wire io @ [(se_id s, buf_bytes data)],
                   io_hub := (if se_has_hub s
                              then hub_record_sent now (se_id s) (buffer_size data) (io_hub io)
                              else io_hub io)\<rparr>, Inr ())))"

definition session_send_text :: "u64 \<Rightarrow> session \<Rightarrow> string \<Rightarrow> session_io \<Rightarrow> session_io \<times> unit res" where
  "session_send_text now s text io = session_send now s (from_text text) io"

lemma session_same_sessions [inv_rules]:
  "same_sessions (io_hub io) (io_hub (fst (session_authenticate_user now s user io)))"
  "same_sessions (io_hub io) (io_hub (fst (session_send now s data io)))"
  "same_sessions (io_hub io) (io_hub (fst (session_send_text now s text io)))"
  using hub_same_sessions
  by (auto simp: session_authenticate_user_def session_send_def session_send_text_def case_prod_beta
      split: option.splits sum.splits)

section \<open>The registry\<close>

record session_registry =
  sr_max_sessions :: nat
  sr_next_session_id :: u64

definition registry_try_add ::
  "u64 \<Rightarrow> transport_kind \<Rightarrow> endpoint \<Rightarrow> session_registry \<Rightarrow> hub \<Rightarrow>
     session_registry \<times> hub \<times> u64 option" where
  "registry_try_add now transport remote_endpoint r h =
     (if hub_count h \<ge> sr_max_sessions r then (r, h, None)
      else (r\<lparr>sr_next_session_id := sr_next_session_id r + 1\<rparr>,
            hub_add_session now (sr_next_session_id r) transport remote_endpoint h,
            Some (sr_next_session_id r)))"

definition registry_remove :: "u64 \<Rightarrow> hub \<Rightarrow> hub" where
  "registry_remove i h = hub_remove_session i h"

lemma registry_try_add_Some:
  "registry_try_add now t e r h = (r', h', Some i) \<Longrightarrow>
     i = sr_next_session_id r \<and> sr_next_session_id r' = i + 1 \<and> sr_max_sessions r' = sr_max_sessions r
     \<and> umap_size h < sr_max_sessions r \<and> h' = hub_add_session now i t e h"
  by (auto simp: registry_try_add_def hub_count_def split: if_splits)

lemma registry_try_add_None:
  "registry_try_add now t e r h = (r', h', None) \<Longrightarrow> r' = r \<and> h' = h"
  by (auto simp: registry_try_add_def split: if_splits)

text \<open>
  A new session starts unauthenticated and with zero counters; authentication, traffic
  accounting and removal of one session never change another; a session counts one message and its
  bytes per recorded transfer.
\<close>

theorem hub_sessions_independent:
  assumes "i \<noteq> j"
  shows "hub_find (hub_add_session now i t e h) j = hub_find h j
    \<and> hub_find (hub_remove_session i h) j = hub_find h j
    \<and> hub_find (fst (hub_authenticate now i user h)) j = hub_find h j
    \<and> hub_find (hub_record_received now i n h) j = hub_find h j
    \<and> hub_find (hub_record_sent now i n h) j = hub_find h j
    \<and> \<not> hub_is_authenticated (hub_add_session now i t e h) i
    \<and> map_option ss_bytes_received (hub_find (hub_record_received now i n (hub_add_session now i t e h)) i)
        = Some (of_nat n)"
  using assms by (auto simp: hub_defs split: option.splits)

theorem hub_sessions_independent_witness:
  "hub_find (hub_remove_session 1 (hub_add_session 5 2 Tcp \<lparr>ep_address = ''127.0.0.1'', ep_port = 80\<rparr> [])) 2
     = hub_find (hub_add_session 5 2 Tcp \<lparr>ep_address = ''127.0.0.1'', ep_port = 80\<rparr> []) 2"
  using hub_sessions_independent [of 1 2] by simp

end
