(* ===== verification/Echo_Handler.thy ===== *)
theory Echo_Handler
  imports Connection_Hub Credential_Verifier
begin

text \<open>
  The handler interface (src/include/ServerEngine/Runtime/IMessageHandler.h) and the sample
  handler \<^verbatim>\<open>app::EchoHandler\<close> (src/examples/EchoServer/EchoHandler.cpp). A callback
  receives the session view and may throw; what it changes is the \<open>session_io\<close>: the hub, the wire
  and the log. \<open>u64_text\<close> is what \<^verbatim>\<open>operator<<\<close> prints for an unsigned integer.
\<close>

section \<open>Handlers\<close>

datatype thrown = Std_exception string | Other_exception

record handler =
  on_session_started :: "u64 \<Rightarrow> session \<Rightarrow> session_io \<Rightarrow> session_io \<times> thrown option"
  on_message :: "u64 \<Rightarrow> session \<Rightarrow> buffer \<Rightarrow> session_io \<Rightarrow> session_io \<times> thrown option"
  on_session_stopped :: "u64 \<Rightarrow> session \<Rightarrow> session_io \<Rightarrow> session_io \<times> thrown option"
  on_error :: "string \<Rightarrow> session_io \<Rightarrow> session_io \<times> thrown option"

text \<open>
  What the runtime needs of a handler: callbacks change sessions (authentication, counters) but
  never add or remove one.
\<close>

locale hub_respecting =
  fixes h :: handler
  assumes started_keeps: "same_sessions (io_hub io) (io_hub (fst (on_session_started h now s io)))"
    and message_keeps: "same_sessions (io_hub io) (io_hub (fst (on_message h now s m io)))"
    and stopped_keeps: "same_sessions (io_hub io) (io_hub (fst (on_session_stopped h now s io)))"
    and error_keeps: "same_sessions (io_hub io) (io_hub (fst (on_error h t io)))"

section \<open>Requests\<close>

definition Utf8Bom :: string where
  "Utf8Bom = [CHR 0xEF, CHR 0xBB, CHR 0xBF]"

definition normalize_request :: "string \<Rightarrow> string" where
  "normalize_request text =
     (let text1 = (if take 3 text = Utf8Bom then drop 3 text else text);
          text2 = rev (dropWhile (\<lambda>c. c \<in> {CR, LF, CHR '' '', CHR 9}) (rev text1))
      in if text2 = [] then [] else dropWhile (\<lambda>c. c \<in> {CHR '' '', CHR 9}) text2)"

text \<open>\<^verbatim>\<open>input >> word\<close>: skip white space, take up to the next one; empty at the end.\<close>

definition next_word :: "string \<Rightarrow> string \<times> string" where
  "next_word s =
     (let r = trim_front s in (takeWhile (\<lambda>c. \<not> isspace c) r, dropWhile (\<lambda>c. \<not> isspace c) r))"

definition auth_words :: "string \<Rightarrow> string \<times> string \<times> string" where
  "auth_words request =
     (let (command, r1) = next_word request; (user, r2) = next_word r1; (token, r3) = next_word r2
      in (command, user, token))"

definition u64_text :: "u64 \<Rightarrow> string" where
  "u64_text n = decimal (unat n)"

section \<open>The echo handler\<close>

record access_options =
  require_auth :: bool
  access_token :: string

definition echo_on_session_started ::
  "access_options \<Rightarrow> u64 \<Rightarrow> session \<Rightarrow> session_io \<Rightarrow> session_io \<times> thrown option" where
  "echo_on_session_started access now s io =
     (let io1 = log_record Info (''App session opened id='' @ u64_text (se_id s)
            @ '' transport='' @ transport_to_string (se_transport s)
            @ '' remote='' @ endpoint_to_string (se_remote_endpoint s)) io
      in (if require_auth access then fst (session_send_text now s (''AUTH REQUIRED'' @ [LF]) io1) else io1,
          None))"

text \<open>Returns whether the request was an AUTH command.\<close>

definition handle_auth_command ::
  "access_options \<Rightarrow> u64 \<Rightarrow> session \<Rightarrow> string \<Rightarrow> session_io \<Rightarrow> session_io \<times> bool" where
  "handle_auth_command access now s request io =
     (let (command, user, token) = auth_words request in
      if command \<noteq> ''AUTH'' then (io, False)
      else if user = [] \<or> token = [] then
        (let io1 = log_record Warning (''Invalid AUTH command session='' @ u64_text (se_id s)) io
         in (fst (session_send_text now s (''AUTH ERROR usage: AUTH <user> <token>'' @ [LF]) io1), True))
      else if \<not> constant_time_equals token (access_token access) then
        (let io1 = log_record Warning (''AUTH denied session='' @ u64_text (se_id s) @ '' user='' @ user) io
         in (fst (session_send_text now s (''AUTH DENIED'' @ [LF]) io1), True))
      else
        (let (io1, updated) = session_authenticate_user now s user io in
         if \<not> updated then
           (let io2 = log_record Error (''AUTH failed to update hub session='' @ u64_text (se_id s)
                  @ '' user='' @ user) io1
            in (fst (session_send_text now s (''AUTH ERROR'' @ [LF]) io2), True))
         else
           (let io2 = log_record Info (''AUTH accepted session='' @ u64_text (se_id s)
                  @ '' user='' @ user) io1
            in (fst (session_send_text now s (''AUTH OK'' @ [LF]) io2), True))))"

definition who_line :: "session_snapshot \<Rightarrow> string" where
  "who_line item =
     ''id='' @ u64_text (ss_id item)
     @ '' transport='' @ transport_to_string (ss_transport item)
     @ '' remote='' @ endpoint_to_string (ss_remote_endpoint item)
     @ '' auth='' @ (if ss_authenticated item then ''yes'' else ''no'')
     @ '' user='' @ (if ss_user_name item = [] then ''-'' else ss_user_name item)
     @ '' rx_messages='' @ u64_text (ss_messages_received item)
     @ '' tx_messages='' @ u64_text (ss_messages_sent item)
     @ '' rx_bytes='' @ u64_text (ss_bytes_received item)
     @ '' tx_bytes='' @ u64_text (ss_bytes_sent item) @ [LF]"

text \<open>\<open>hub_wired\<close> says whether \<^verbatim>\<open>set_hub\<close> was called (with the server's hub).\<close>

definition send_who :: "bool \<Rightarrow> u64 \<Rightarrow> session \<Rightarrow> session_io \<Rightarrow> session_io" where
  "send_who hub_wired now s io =
     (if \<not> hub_wired then fst (session_send_text now s (''ERROR hub unavailable'' @ [LF]) io)
      else
        (let sessions = hub_snapshot (io_hub io);
             output = ''WHO count='' @ decimal (length sessions) @ [LF] @ concat (map who_line sessions)
         in fst (session_send_text now s output io)))"

definition log_received :: "session \<Rightarrow> buffer \<Rightarrow> session_io \<Rightarrow> session_io" where
  "log_received s message io =
     log_record Info (''App received message session='' @ u64_text (se_id s)
       @ '' bytes='' @ decimal (buffer_size message)) io"

definition echo_on_message ::
  "access_options \<Rightarrow> bool \<Rightarrow> u64 \<Rightarrow> session \<Rightarrow> buffer \<Rightarrow> session_io \<Rightarrow> session_io \<times> thrown option" where
  "echo_on_message access hub_wired now s message io =
     (let request = normalize_request (to_text message);
          io1 = log_received s message io;
          (io2, handled) = handle_auth_command access now s request io1
      in if handled then (io2, None)
         else if require_auth access \<and> \<not> session_is_authenticated s io2 then
           (let io3 = log_record Warning (''Rejected unauthenticated message session='' @ u64_text (se_id s)) io2
            in (fst (session_send_text now s (''ERROR auth required'' @ [LF]) io3), None))
         else if request = ''WHO'' then (send_who hub_wired now s io2, None)
         else
           (let response = from_text (''echo: '' @ request @ [LF]) in
            case session_send now s response io2 of
              (io3, Inl error) \<Rightarrow>
                (log_record Error (''App failed to send response session='' @ u64_text (se_id s)
                   @ '' error='' @ error) io3, None)
            | (io3, Inr _) \<Rightarrow>
                (log_record Info (''App sent response session='' @ u64_text (se_id s)
                   @ '' bytes='' @ decimal (buffer_size response)) io3, None)))"

definition echo_on_session_stopped :: "u64 \<Rightarrow> session \<Rightarrow> session_io \<Rightarrow> session_io \<times> thrown option" where
  "echo_on_session_stopped now s io =
     (log_record Info (''App session closed id='' @ u64_text (se_id s)) io, None)"

definition echo_on_error :: "string \<Rightarrow> session_io \<Rightarrow> session_io \<times> thrown option" where
  "echo_on_error message io = (log_record Error (''App handler error: '' @ message) io, None)"

definition EchoHandler :: "access_options \<Rightarrow> bool \<Rightarrow> handler" where
  "EchoHandler access hub_wired =
     \<lparr>on_session_started = echo_on_session_started access,
      on_message = echo_on_message access hub_wired,
      on_session_stopped = echo_on_session_stopped,
      on_error = echo_on_error\<rparr>"

lemmas echo_defs = echo_on_session_started_def echo_on_message_def echo_on_session_stopped_def
  echo_on_error_def EchoHandler_def

text \<open>A callback is a chain of sends, log records and hub updates; each link keeps the sessions.\<close>

lemma send_text_keeps:
  "same_sessions h (io_hub io) \<Longrightarrow> same_sessions h (io_hub (fst (session_send_text now s t io)))"
  by (rule same_sessions_trans [OF _ session_same_sessions(3)])

lemma authenticate_keeps:
  "same_sessions h (io_hub io) \<Longrightarrow> same_sessions h (io_hub (fst (session_authenticate_user now s u io)))"
  by (rule same_sessions_trans [OF _ session_same_sessions(1)])

lemma send_keeps:
  "same_sessions h (io_hub io) \<Longrightarrow> same_sessions h (io_hub (fst (session_send now s d io)))"
  by (rule same_sessions_trans [OF _ session_same_sessions(2)])

lemma auth_command_keeps [inv_rules]:
  "same_sessions (io_hub io) (io_hub (fst (handle_auth_command access now s request io)))"
  by (auto simp: handle_auth_command_def case_prod_beta Let_def
      intro!: send_text_keeps authenticate_keeps)

lemma send_who_keeps: "same_sessions h (io_hub io) \<Longrightarrow> same_sessions h (io_hub (send_who w now s io))"
  by (auto simp: send_who_def Let_def intro!: send_text_keeps)

lemma echo_message_keeps:
  "same_sessions (io_hub io) (io_hub (fst (echo_on_message access w now s m io)))"
proof -
  let ?io1 = "log_received s m io"
  obtain io2 handled
    where a: "handle_auth_command access now s (normalize_request (to_text m)) ?io1 = (io2, handled)"
    by (cases "handle_auth_command access now s (normalize_request (to_text m)) ?io1")
  have k: "same_sessions (io_hub io) (io_hub io2)"
    using auth_command_keeps [of ?io1 access now s "normalize_request (to_text m)"] a
    by (simp add: log_received_def)
  obtain io3 r where r: "session_send now s (from_text (''echo: '' @ normalize_request (to_text m) @ [LF])) io2
      = (io3, r)"
    by (cases "session_send now s (from_text (''echo: '' @ normalize_request (to_text m) @ [LF])) io2")
  have "same_sessions (io_hub io) (io_hub io3)"
    using send_keeps [OF k, of now s "from_text (''echo: '' @ normalize_request (to_text m) @ [LF])"] r by simp
  then show ?thesis
    using k unfolding echo_on_message_def Let_def a prod.case r
    by (auto intro: send_text_keeps send_who_keeps split: sum.splits)
qed

interpretation echo: hub_respecting "EchoHandler access hub_wired" for access hub_wired
  by unfold_locales
    (simp_all add: EchoHandler_def echo_message_keeps echo_on_session_started_def
      echo_on_session_stopped_def echo_on_error_def Let_def send_text_keeps)

section \<open>Properties\<close>

lemma send_text_authenticated [simp]:
  "session_is_authenticated s (fst (session_send_text now s' t io)) = session_is_authenticated s io"
  by (auto simp: session_send_text_def session_send_def session_is_authenticated_def hub_defs
      split: option.splits sum.splits)

definition sent_text :: "session \<Rightarrow> string \<Rightarrow> (u64 \<times> bytes) list" where
  "sent_text s t =
     (case se_send_function s of
        None \<Rightarrow> []
      | Some f \<Rightarrow> (case f (se_id s) (from_text t) of Inl _ \<Rightarrow> [] | Inr _ \<Rightarrow> [(se_id s, buf_bytes (from_text t))]))"

lemma send_text_wire [simp]:
  "io_wire (fst (session_send_text now s t io)) = io_wire io @ sent_text s t"
  by (auto simp: session_send_text_def session_send_def sent_text_def split: option.splits sum.splits)

lemma authenticate_user_frame [simp]:
  "io_wire (fst (session_authenticate_user now s u io)) = io_wire io"
  "io_log (fst (session_authenticate_user now s u io)) = io_log io"
  by (simp_all add: session_authenticate_user_def case_prod_beta)

lemma authenticate_user_result:
  "se_has_hub s \<Longrightarrow>
     snd (session_authenticate_user now s u io) = (hub_find (io_hub io) (se_id s) \<noteq> None)"
  "se_has_hub s \<Longrightarrow>
     session_is_authenticated s (fst (session_authenticate_user now s u io)) =
       (hub_find (io_hub io) (se_id s) \<noteq> None)"
  by (auto simp: session_authenticate_user_def session_is_authenticated_def hub_defs case_prod_beta
      split: option.splits)

lemma log_record_authenticated [simp]:
  "session_is_authenticated s (log_record l m io) = session_is_authenticated s io"
  by (simp add: session_is_authenticated_def)

text \<open>The texts a session may receive before it is authenticated.\<close>

definition gate_replies :: "string list" where
  "gate_replies =
     [''AUTH ERROR usage: AUTH <user> <token>'' @ [LF], ''AUTH DENIED'' @ [LF], ''AUTH ERROR'' @ [LF],
      ''AUTH OK'' @ [LF], ''ERROR auth required'' @ [LF]]"

lemma auth_command_gate:
  assumes "se_has_hub s" and "\<not> session_is_authenticated s io"
    and "auth_words request = (command, user, token)"
  shows "session_is_authenticated s (fst (handle_auth_command access now s request io)) \<longleftrightarrow>
      command = ''AUTH'' \<and> user \<noteq> [] \<and> token \<noteq> [] \<and> constant_time_equals token (access_token access)
      \<and> hub_find (io_hub io) (se_id s) \<noteq> None"
    and "snd (handle_auth_command access now s request io) = (command = ''AUTH'')"
    and "command = ''AUTH'' \<Longrightarrow> \<exists>t \<in> set gate_replies.
      io_wire (fst (handle_auth_command access now s request io)) = io_wire io @ sent_text s t"
    and "command \<noteq> ''AUTH'' \<Longrightarrow> handle_auth_command access now s request io = (io, False)"
  using assms
  by (auto simp: handle_auth_command_def Let_def case_prod_beta authenticate_user_result gate_replies_def)

text \<open>
  C6. The authentication gate. With authentication required, a message from a session that is
  not authenticated authenticates it exactly when it is an AUTH command whose token equals the
  configured one and the session is in the hub; and whatever the message, the only thing sent is
  one of the fixed gate replies.
\<close>

theorem echo_authentication_gate:
  assumes "require_auth access" and "se_has_hub s" and "\<not> session_is_authenticated s io"
    and "auth_words (normalize_request (to_text m)) = (command, user, token)"
    and "length token < W64" and "length (access_token access) < W64"
  shows "(session_is_authenticated s (fst (echo_on_message access wired now s m io)) \<longleftrightarrow>
      command = ''AUTH'' \<and> user \<noteq> [] \<and> token \<noteq> [] \<and> token = access_token access
      \<and> hub_find (io_hub io) (se_id s) \<noteq> None)
    \<and> (\<exists>t \<in> set gate_replies.
      io_wire (fst (echo_on_message access wired now s m io)) = io_wire io @ sent_text s t)"
proof -
  let ?r = "normalize_request (to_text m)"
  let ?io1 = "log_received s m io"
  have n: "\<not> session_is_authenticated s ?io1" and f: "io_wire ?io1 = io_wire io" "io_hub ?io1 = io_hub io"
    using assms(3) by (simp_all add: log_received_def)
  note g = auth_command_gate [OF assms(2) n assms(4), of access now]
  have eq: "constant_time_equals token (access_token access) = (token = access_token access)"
    using assms(5,6) by (rule ct_equals_iff)
  have "session_is_authenticated s (fst (echo_on_message access wired now s m io)) \<longleftrightarrow>
      command = ''AUTH'' \<and> user \<noteq> [] \<and> token \<noteq> [] \<and> token = access_token access
      \<and> hub_find (io_hub io) (se_id s) \<noteq> None"
    using g(1,2,4) n assms(1) by (auto simp: echo_on_message_def Let_def case_prod_beta eq f)
  moreover have "\<exists>t \<in> set gate_replies.
      io_wire (fst (echo_on_message access wired now s m io)) = io_wire io @ sent_text s t"
    using g(2-4) n assms(1) by (auto simp: echo_on_message_def Let_def case_prod_beta f gate_replies_def)
  ultimately show ?thesis ..
qed

definition sample_session :: session where
  "sample_session =
     \<lparr>se_id = 1, se_transport = Tcp, se_remote_endpoint = \<lparr>ep_address = ''10.0.0.1'', ep_port = 9\<rparr>,
      se_send_function = Some (\<lambda>_ _. Inr ()), se_has_hub = True\<rparr>"

definition sample_io :: session_io where
  "sample_io =
     \<lparr>io_hub = hub_add_session 5 1 Tcp \<lparr>ep_address = ''10.0.0.1'', ep_port = 9\<rparr> [],
      io_wire = [], io_log = []\<rparr>"

definition sample_access :: access_options where
  "sample_access = \<lparr>require_auth = True, access_token = ''key''\<rparr>"

lemma sample_words:
  "auth_words (normalize_request (to_text (from_text ''AUTH bob key''))) = (''AUTH'', ''bob'', ''key'')"
  "auth_words (normalize_request (to_text (from_text ''AUTH bob kay''))) = (''AUTH'', ''bob'', ''kay'')"
  by (simp_all add: to_text_from_text auth_words_def normalize_request_def next_word_def Utf8Bom_def
      isspace_def)

lemma sample_not_authenticated: "\<not> session_is_authenticated sample_session sample_io"
  by (simp add: session_is_authenticated_def sample_session_def sample_io_def hub_defs umap_find_def)

theorem echo_authentication_gate_witness:
  "session_is_authenticated sample_session
     (fst (echo_on_message sample_access True 7 sample_session (from_text ''AUTH bob key'') sample_io))
   \<and> \<not> session_is_authenticated sample_session
     (fst (echo_on_message sample_access True 7 sample_session (from_text ''AUTH bob kay'') sample_io))"
proof -
  have a: "require_auth sample_access" "se_has_hub sample_session" "access_token sample_access = ''key''"
    "hub_find (io_hub sample_io) (se_id sample_session) \<noteq> None"
    by (simp_all add: sample_access_def sample_session_def sample_io_def hub_defs umap_find_def)
  show ?thesis
    using echo_authentication_gate [OF a(1,2) sample_not_authenticated sample_words(1), of True 7]
      echo_authentication_gate [OF a(1,2) sample_not_authenticated sample_words(2), of True 7] a(3,4)
    by simp
qed

text \<open>
  C39. Credentials do not leak: what an AUTH message does to the hub, sends and writes to the log
  depends on the token only through the verdict of the comparison. Two AUTH messages of the same
  size with the same user and the same verdict have the same effect.
\<close>

theorem auth_token_not_observable:
  assumes "auth_words (normalize_request (to_text m)) = (''AUTH'', user, token)"
    and "auth_words (normalize_request (to_text m')) = (''AUTH'', user, token')"
    and "buffer_size m = buffer_size m'" and "(token = []) = (token' = [])"
    and "constant_time_equals token (access_token access) = constant_time_equals token' (access_token access)"
  shows "echo_on_message access wired now s m io = echo_on_message access wired now s m' io"
proof -
  have "handle_auth_command access now s (normalize_request (to_text m)) i =
      handle_auth_command access now s (normalize_request (to_text m')) i" for i
    using assms(4,5) by (simp add: handle_auth_command_def assms(1,2))
  moreover have "snd (handle_auth_command access now s (normalize_request (to_text m)) i)" for i
    by (simp add: handle_auth_command_def assms(1) Let_def case_prod_beta)
  ultimately show ?thesis
    by (simp add: echo_on_message_def log_received_def assms(3) Let_def case_prod_beta)
qed

theorem auth_token_not_observable_witness:
  "echo_on_message sample_access True 7 sample_session (from_text ''AUTH bob kay'') sample_io
     = echo_on_message sample_access True 7 sample_session (from_text ''AUTH bob kby'') sample_io"
proof -
  have w: "auth_words (normalize_request (to_text (from_text ''AUTH bob kby''))) = (''AUTH'', ''bob'', ''kby'')"
    by (simp add: to_text_from_text auth_words_def normalize_request_def next_word_def Utf8Bom_def
        isspace_def)
  show ?thesis
    using auth_token_not_observable [OF sample_words(2) w, of sample_access]
    by (simp add: ct_equals_iff sample_access_def)
qed

end
