(* ===== verification/Runtime_Server.thy ===== *)
theory Runtime_Server
  imports Echo_Handler Interfaces
begin

text \<open>
  \<^verbatim>\<open>runtime::Server\<close> and its \<^verbatim>\<open>TcpListener\<close>s (src/src/Runtime/Server.cpp,
  TcpListener.cpp). The server owns the hub, the registry and the listeners; a listener owns a
  transport and maps its connection ids to session ids. Transports call back with connections,
  messages and disconnections; the server passes them to the handler and contains its exceptions.

  The transport is a parameter: \<open>send\<close> is the answer of \<^verbatim>\<open>transport->send\<close>, \<open>transport_start\<close>
  that of \<^verbatim>\<open>transport->start\<close>, and \<open>final\<close> the disconnect callbacks it delivers while
  \<^verbatim>\<open>transport->stop()\<close> joins its threads. A callback is one step; the shared maps are under
  their mutexes and the callbacks of one connection never overlap (see \<open>Threaded_Properties\<close>).
\<close>

section \<open>State\<close>

record listener_options =
  lo_name :: string
  lo_transport :: transport_kind
  lo_bind_endpoint :: endpoint
  lo_enabled :: bool

record server_options =
  so_worker_count :: nat
  so_max_sessions :: nat
  so_max_message_bytes :: nat
  so_idle_timeout_ms :: nat
  so_receive_timeout_ms :: int
  so_tcp_no_delay :: bool
  so_tcp_backend :: tcp_backend
  so_security_mode :: security_mode
  so_listeners :: "listener_options list"

record tcp_listener =
  tl_options :: listener_options
  tl_sessions :: "(u64, u64) umap"
  tl_disconnects :: "u64 list"

record server =
  sv_options :: server_options
  sv_running :: bool
  sv_io :: session_io
  sv_registry :: session_registry
  sv_listeners :: "tcp_listener list"

definition Server_new :: "server_options \<Rightarrow> server" where
  "Server_new options =
     \<lparr>sv_options = options, sv_running = False,
      sv_io = \<lparr>io_hub = [], io_wire = [], io_log = []\<rparr>,
      sv_registry = \<lparr>sr_max_sessions = so_max_sessions options, sr_next_session_id = 1\<rparr>,
      sv_listeners = []\<rparr>"

definition sv_log :: "log_level \<Rightarrow> string \<Rightarrow> server \<Rightarrow> server" where
  "sv_log level message sv = sv\<lparr>sv_io := log_record level message (sv_io sv)\<rparr>"

section \<open>Dispatch\<close>

definition report_handler_error :: "handler \<Rightarrow> string \<Rightarrow> server \<Rightarrow> server" where
  "report_handler_error h message sv =
     (let (io, thrown) = on_error h message (log_record Error (''Handler error: '' @ message) (sv_io sv))
      in sv\<lparr>sv_io := (case thrown of
              None \<Rightarrow> io
            | Some _ \<Rightarrow> log_record Critical ''Handler threw from on_error'' io)\<rparr>)"

text \<open>The \<^verbatim>\<open>catch\<close> clauses every dispatch ends with.\<close>

definition contain :: "handler \<Rightarrow> string \<Rightarrow> server \<times> thrown option \<Rightarrow> server" where
  "contain h unknown r =
     (case r of
        (sv, None) \<Rightarrow> sv
      | (sv, Some (Std_exception what)) \<Rightarrow> report_handler_error h what sv
      | (sv, Some Other_exception) \<Rightarrow> report_handler_error h unknown sv)"

definition dispatch_session_started :: "handler \<Rightarrow> u64 \<Rightarrow> session \<Rightarrow> server \<Rightarrow> server" where
  "dispatch_session_started h now s sv =
     (if \<not> sv_running sv then
        sv_log Warning (''Ignoring session start while runtime is stopped: session='' @ u64_text (se_id s)) sv
      else
        (let io1 = log_record Info (''Session started id='' @ u64_text (se_id s)
               @ '' transport='' @ transport_to_string (se_transport s)
               @ '' remote='' @ endpoint_to_string (se_remote_endpoint s)) (sv_io sv);
             (io2, thrown) = on_session_started h now s io1
         in contain h ''unknown error in on_session_started'' (sv\<lparr>sv_io := io2\<rparr>, thrown)))"

definition dispatch_message :: "handler \<Rightarrow> u64 \<Rightarrow> session \<Rightarrow> buffer \<Rightarrow> server \<Rightarrow> server" where
  "dispatch_message h now s message sv =
     (if \<not> sv_running sv then
        sv_log Warning (''Ignoring message while runtime is stopped: session='' @ u64_text (se_id s)) sv
      else
        (let io1 = (sv_io sv)\<lparr>io_hub := hub_record_received now (se_id s) (buffer_size message)
                                        (io_hub (sv_io sv))\<rparr>;
             io2 = log_record Debug (''Dispatching message session='' @ u64_text (se_id s)
               @ '' bytes='' @ decimal (buffer_size message)) io1;
             (io3, thrown) = on_message h now s message io2
         in contain h ''unknown error in on_message'' (sv\<lparr>sv_io := io3\<rparr>, thrown)))"

definition dispatch_session_stopped :: "handler \<Rightarrow> u64 \<Rightarrow> session \<Rightarrow> server \<Rightarrow> server" where
  "dispatch_session_stopped h now s sv =
     (if \<not> sv_running sv then sv
      else
        (let (io1, thrown) = on_session_stopped h now s (sv_io sv);
             io2 = (case thrown of
                      None \<Rightarrow> log_record Info (''Session stopped id='' @ u64_text (se_id s)) io1
                    | Some _ \<Rightarrow> io1)
         in contain h ''unknown error in on_session_stopped'' (sv\<lparr>sv_io := io2\<rparr>, thrown)))"

section \<open>Listener callbacks\<close>

definition update_listener :: "nat \<Rightarrow> (tcp_listener \<Rightarrow> tcp_listener) \<Rightarrow> server \<Rightarrow> server" where
  "update_listener i f sv = sv\<lparr>sv_listeners := (sv_listeners sv)[i := f (sv_listeners sv ! i)]\<rparr>"

definition transport_disconnect :: "nat \<Rightarrow> u64 \<Rightarrow> server \<Rightarrow> server" where
  "transport_disconnect i conn sv =
     update_listener i (\<lambda>l. l\<lparr>tl_disconnects := tl_disconnects l @ [conn]\<rparr>) sv"

definition find_session :: "nat \<Rightarrow> u64 \<Rightarrow> server \<Rightarrow> u64 option" where
  "find_session i conn sv =
     (if i < length (sv_listeners sv) then umap_find (tl_sessions (sv_listeners sv ! i)) conn else None)"

type_synonym transport_send = "nat \<Rightarrow> u64 \<Rightarrow> buffer \<Rightarrow> unit res"

definition make_session :: "transport_send \<Rightarrow> nat \<Rightarrow> u64 \<Rightarrow> u64 \<Rightarrow> endpoint \<Rightarrow> server \<Rightarrow> session" where
  "make_session send i conn sid remote sv =
     \<lparr>se_id = sid, se_transport = lo_transport (tl_options (sv_listeners sv ! i)),
      se_remote_endpoint = remote, se_send_function = Some (\<lambda>_ data. send i conn data),
      se_has_hub = True\<rparr>"

definition listener_on_accepting :: "server \<Rightarrow> bool" where
  "listener_on_accepting sv = sv_running sv"

definition listener_on_connected ::
  "handler \<Rightarrow> transport_send \<Rightarrow> u64 \<Rightarrow> nat \<Rightarrow> u64 \<Rightarrow> endpoint \<Rightarrow> server \<Rightarrow> server" where
  "listener_on_connected h send now i conn remote sv =
     (if \<not> sv_running sv then transport_disconnect i conn sv
      else
        (case registry_try_add now (lo_transport (tl_options (sv_listeners sv ! i))) remote
                (sv_registry sv) (io_hub (sv_io sv)) of
           (r, hub, None) \<Rightarrow>
             transport_disconnect i conn
               (sv_log Warning (''Connection rejected max_sessions reached listener=''
                  @ lo_name (tl_options (sv_listeners sv ! i)) @ '' connection='' @ u64_text conn
                  @ '' remote='' @ endpoint_to_string remote)
                  (sv\<lparr>sv_registry := r, sv_io := (sv_io sv)\<lparr>io_hub := hub\<rparr>\<rparr>))
         | (r, hub, Some sid) \<Rightarrow>
             (let sv1 = sv\<lparr>sv_registry := r, sv_io := (sv_io sv)\<lparr>io_hub := hub\<rparr>\<rparr>;
                  sv2 = update_listener i
                          (\<lambda>l. l\<lparr>tl_sessions := fst (umap_emplace conn sid (tl_sessions l))\<rparr>) sv1
              in dispatch_session_started h now (make_session send i conn sid remote sv2) sv2)))"

definition listener_on_message ::
  "handler \<Rightarrow> transport_send \<Rightarrow> u64 \<Rightarrow> nat \<Rightarrow> u64 \<Rightarrow> endpoint \<Rightarrow> buffer \<Rightarrow> server \<Rightarrow> server" where
  "listener_on_message h send now i conn remote message sv =
     (case find_session i conn sv of
        None \<Rightarrow> sv
      | Some sid \<Rightarrow> dispatch_message h now (make_session send i conn sid remote sv) message sv)"

definition sv_registry_remove :: "u64 \<Rightarrow> server \<Rightarrow> server" where
  "sv_registry_remove sid sv =
     sv\<lparr>sv_io := (sv_io sv)\<lparr>io_hub := registry_remove sid (io_hub (sv_io sv))\<rparr>\<rparr>"

definition listener_on_disconnected ::
  "handler \<Rightarrow> transport_send \<Rightarrow> u64 \<Rightarrow> nat \<Rightarrow> u64 \<Rightarrow> endpoint \<Rightarrow> server \<Rightarrow> server" where
  "listener_on_disconnected h send now i conn remote sv =
     (case find_session i conn sv of
        None \<Rightarrow> sv
      | Some sid \<Rightarrow>
          (let sv1 = update_listener i (\<lambda>l. l\<lparr>tl_sessions := umap_erase conn (tl_sessions l)\<rparr>) sv;
               sv2 = dispatch_session_stopped h now (make_session send i conn sid remote sv1) sv1
           in sv_registry_remove sid sv2))"

definition listener_stop ::
  "handler \<Rightarrow> transport_send \<Rightarrow> u64 \<Rightarrow> (u64 \<times> endpoint) list \<Rightarrow> nat \<Rightarrow> server \<Rightarrow> server" where
  "listener_stop h send now final i sv =
     (let sv1 = fold (\<lambda>(conn, remote). listener_on_disconnected h send now i conn remote) final sv;
          sv2 = fold (\<lambda>(conn, sid). sv_registry_remove sid) (tl_sessions (sv_listeners sv1 ! i)) sv1
      in update_listener i (\<lambda>l. l\<lparr>tl_sessions := []\<rparr>) sv2)"

section \<open>Lifecycle\<close>

definition server_stop ::
  "handler \<Rightarrow> transport_send \<Rightarrow> u64 \<Rightarrow> (nat \<Rightarrow> (u64 \<times> endpoint) list) \<Rightarrow> server \<Rightarrow> server" where
  "server_stop h send now final sv =
     (if \<not> sv_running sv then sv
      else
        (let sv1 = sv\<lparr>sv_running := False\<rparr>;
             sv2 = fold (\<lambda>i. listener_stop h send now (final i) i) [0..<length (sv_listeners sv1)] sv1
         in sv_log Info ''Runtime stopped'' (sv2\<lparr>sv_listeners := []\<rparr>)))"

fun check_listeners :: "listener_options list \<Rightarrow> server \<Rightarrow> server \<times> unit res" where
  "check_listeners [] sv = (sv, Inr ())"
| "check_listeners (l # ls) sv =
     (if \<not> lo_enabled l then check_listeners ls (sv_log Debug (''Listener disabled: '' @ lo_name l) sv)
      else if lo_transport l \<noteq> Tcp then
        (sv, Inl (''transport is not implemented yet: '' @ transport_to_string (lo_transport l)))
      else check_listeners ls sv)"

fun start_listeners ::
  "(listener_options \<Rightarrow> unit res) \<Rightarrow> (server \<Rightarrow> server) \<Rightarrow> listener_options list \<Rightarrow> server \<Rightarrow>
     server \<times> unit res" where
  "start_listeners transport_start stop [] sv = (sv, Inr ())"
| "start_listeners transport_start stop (l # ls) sv =
     (if \<not> lo_enabled l then start_listeners transport_start stop ls sv
      else
        (case transport_start l of
           Inl e \<Rightarrow>
             (stop sv, Inl (''failed to start listener '' @ [CHR 39] @ lo_name l @ [CHR 39] @ '': '' @ e))
         | Inr _ \<Rightarrow>
             (let sv1 = sv_log Info (''Listener started name='' @ lo_name l
                    @ '' transport='' @ transport_to_string (lo_transport l)
                    @ '' tcp_backend='' @ backend_to_string (so_tcp_backend (sv_options sv))
                    @ '' endpoint='' @ endpoint_to_string (lo_bind_endpoint l)) sv;
                  sv2 = sv1\<lparr>sv_listeners := sv_listeners sv1 @
                          [\<lparr>tl_options = l, tl_sessions = [], tl_disconnects = []\<rparr>]\<rparr>
              in start_listeners transport_start stop ls sv2)))"

definition server_start ::
  "handler \<Rightarrow> transport_send \<Rightarrow> u64 \<Rightarrow> (listener_options \<Rightarrow> unit res) \<Rightarrow>
     (nat \<Rightarrow> (u64 \<times> endpoint) list) \<Rightarrow> server \<Rightarrow> server \<times> unit res" where
  "server_start h send now transport_start final sv =
     (if sv_running sv then (sv, Inr ())
      else if so_listeners (sv_options sv) = [] then (sv, Inl ''server has no listeners'')
      else
        (case check_listeners (so_listeners (sv_options sv)) sv of
           (sv1, Inl e) \<Rightarrow> (sv1, Inl e)
         | (sv1, Inr _) \<Rightarrow>
             (let sv2 = sv_log Info (''Runtime started with workers='' @ decimal (so_worker_count (sv_options sv1))
                    @ '' max_sessions='' @ decimal (so_max_sessions (sv_options sv1))
                    @ '' max_message_bytes='' @ decimal (so_max_message_bytes (sv_options sv1))
                    @ '' idle_timeout_ms='' @ decimal (so_idle_timeout_ms (sv_options sv1)))
                    (sv1\<lparr>sv_running := True\<rparr>)
              in start_listeners transport_start (server_stop h send now final)
                   (so_listeners (sv_options sv2)) sv2)))"

section \<open>Dispatch touches only the session data\<close>

definition only_io :: "server \<Rightarrow> server \<Rightarrow> bool" where
  "only_io sv sv' \<longleftrightarrow>
     sv_options sv' = sv_options sv \<and> sv_running sv' = sv_running sv \<and> sv_registry sv' = sv_registry sv
     \<and> sv_listeners sv' = sv_listeners sv
     \<and> same_sessions (io_hub (sv_io sv)) (io_hub (sv_io sv'))"

lemma only_io_log [simp]: "only_io sv (sv_log l m sv)"
  by (simp add: only_io_def sv_log_def)

lemma only_io_refl [simp]: "only_io sv sv"
  by (simp add: only_io_def)

lemma only_io_trans: "only_io a b \<Longrightarrow> only_io b c \<Longrightarrow> only_io a c"
  by (auto simp: only_io_def intro: same_sessions_trans)

context hub_respecting
begin

lemma report_only_io: "only_io sv (report_handler_error h m sv)"
  using error_keeps [of "log_record Error (''Handler error: '' @ m) (sv_io sv)" m]
  by (auto simp: report_handler_error_def only_io_def case_prod_beta split: option.splits)

lemma contain_only_io: "only_io sv (fst r) \<Longrightarrow> only_io sv (contain h u r)"
  by (auto simp: contain_def split: prod.splits option.splits thrown.splits
      intro: only_io_trans report_only_io)

lemma io_only_io: "same_sessions (io_hub (sv_io sv)) (io_hub io) \<Longrightarrow> only_io sv (sv\<lparr>sv_io := io\<rparr>)"
  by (simp add: only_io_def)

lemma started_only_io: "only_io sv (dispatch_session_started h now s sv)"
proof (cases "sv_running sv")
  case True
  let ?io1 = "log_record Info (''Session started id='' @ u64_text (se_id s)
               @ '' transport='' @ transport_to_string (se_transport s)
               @ '' remote='' @ endpoint_to_string (se_remote_endpoint s)) (sv_io sv)"
  have "same_sessions (io_hub (sv_io sv)) (io_hub (fst (on_session_started h now s ?io1)))"
    using started_keeps [of ?io1] by simp
  then show ?thesis
    using True unfolding dispatch_session_started_def Let_def case_prod_beta
    by (auto intro!: contain_only_io io_only_io)
qed (simp add: dispatch_session_started_def)

lemma message_only_io: "only_io sv (dispatch_message h now s m sv)"
proof (cases "sv_running sv")
  case True
  let ?io1 = "(sv_io sv)\<lparr>io_hub := hub_record_received now (se_id s) (buffer_size m) (io_hub (sv_io sv))\<rparr>"
  let ?io2 = "log_record Debug (''Dispatching message session='' @ u64_text (se_id s)
               @ '' bytes='' @ decimal (buffer_size m)) ?io1"
  have "same_sessions (io_hub (sv_io sv)) (io_hub ?io2)"
    by (simp add: hub_same_sessions(2))
  then have "same_sessions (io_hub (sv_io sv)) (io_hub (fst (on_message h now s m ?io2)))"
    using message_keeps [of ?io2 now s m] by (rule same_sessions_trans)
  then show ?thesis
    using True unfolding dispatch_message_def Let_def case_prod_beta
    by (auto intro!: contain_only_io io_only_io)
qed (simp add: dispatch_message_def)

lemma stopped_only_io: "only_io sv (dispatch_session_stopped h now s sv)"
  using stopped_keeps [of "sv_io sv" now s]
  by (auto simp: dispatch_session_stopped_def Let_def case_prod_beta
      intro!: contain_only_io io_only_io split: option.splits)

end

section \<open>Invariant\<close>

text \<open>
  The hub holds exactly the sessions that the listeners map a connection to, each for one
  connection of one listener; identifiers already issued are below the counter.
\<close>

definition sessions_inv :: "server \<Rightarrow> bool" where
  "sessions_inv sv \<longleftrightarrow>
     umap_wf (io_hub (sv_io sv)) \<and> (\<forall>l \<in> set (sv_listeners sv). umap_wf (tl_sessions l))
     \<and> umap_size (io_hub (sv_io sv)) \<le> sr_max_sessions (sv_registry sv)
     \<and> (\<forall>i c s. find_session i c sv = Some s \<longrightarrow> umap_find (io_hub (sv_io sv)) s \<noteq> None)
     \<and> (\<forall>i c j d s. find_session i c sv = Some s \<longrightarrow> find_session j d sv = Some s \<longrightarrow> i = j \<and> c = d)
     \<and> (\<forall>s. umap_find (io_hub (sv_io sv)) s \<noteq> None \<longrightarrow> (\<exists>i c. find_session i c sv = Some s))
     \<and> (\<forall>s. umap_find (io_hub (sv_io sv)) s \<noteq> None \<longrightarrow> s < sr_next_session_id (sv_registry sv))"

definition server_inv :: "server \<Rightarrow> bool" where
  "server_inv sv \<longleftrightarrow> sessions_inv sv \<and> (\<not> sv_running sv \<longrightarrow> sv_listeners sv = [])
     \<and> sr_max_sessions (sv_registry sv) = so_max_sessions (sv_options sv)"

lemma find_session_cong: "sv_listeners sv = sv_listeners sv' \<Longrightarrow> find_session i c sv = find_session i c sv'"
  by (simp add: find_session_def)

lemma find_session_out: "length (sv_listeners sv) \<le> i \<Longrightarrow> find_session i c sv = None"
  by (simp add: find_session_def)

lemma find_session_update:
  "i < length (sv_listeners sv) \<Longrightarrow>
     find_session j c (update_listener i f sv) =
       (if i = j then umap_find (tl_sessions (f (sv_listeners sv ! i))) c else find_session j c sv)"
  by (auto simp: find_session_def update_listener_def nth_list_update)

lemma update_listener_frame [simp]:
  "sv_io (update_listener i f sv) = sv_io sv" "sv_registry (update_listener i f sv) = sv_registry sv"
  "sv_options (update_listener i f sv) = sv_options sv"
  "sv_running (update_listener i f sv) = sv_running sv"
  "length (sv_listeners (update_listener i f sv)) = length (sv_listeners sv)"
  by (simp_all add: update_listener_def)

lemma update_listener_wf:
  assumes "\<forall>l \<in> set (sv_listeners sv). umap_wf (tl_sessions l)" and "i < length (sv_listeners sv)"
    and "umap_wf (tl_sessions (sv_listeners sv ! i)) \<Longrightarrow> umap_wf (tl_sessions (f (sv_listeners sv ! i)))"
  shows "\<forall>l \<in> set (sv_listeners (update_listener i f sv)). umap_wf (tl_sessions l)"
  using assms set_update_subset_insert [of "sv_listeners sv" i "f (sv_listeners sv ! i)"]
  by (auto simp: update_listener_def)

lemma sessions_inv_cong:
  assumes "sv_listeners sv = sv_listeners sv'" and "io_hub (sv_io sv) = io_hub (sv_io sv')"
    and "sv_registry sv = sv_registry sv'"
  shows "sessions_inv sv = sessions_inv sv'"
  unfolding sessions_inv_def find_session_cong [OF assms(1)] assms ..

lemma sessions_inv_only_io: "sessions_inv sv \<Longrightarrow> only_io sv sv' \<Longrightarrow> sessions_inv sv'"
  unfolding sessions_inv_def only_io_def same_sessions_def
  by (simp add: find_session_cong [of sv' sv])

lemma sessions_inv_disconnect:
  "sessions_inv sv \<Longrightarrow> i < length (sv_listeners sv) \<Longrightarrow> sessions_inv (transport_disconnect i c sv)"
proof -
  assume a: "sessions_inv sv" "i < length (sv_listeners sv)"
  have f: "find_session j d (transport_disconnect i c sv) = find_session j d sv" for j d
    using a(2) by (simp add: transport_disconnect_def find_session_update) (simp add: find_session_def)
  have "\<forall>l \<in> set (sv_listeners (transport_disconnect i c sv)). umap_wf (tl_sessions l)"
    unfolding transport_disconnect_def
    using a by (intro update_listener_wf) (auto simp: sessions_inv_def)
  then show ?thesis
    using a(1) unfolding sessions_inv_def f by (simp add: transport_disconnect_def)
qed

text \<open>Admission: the new identifier is fresh in the hub and the new connection in its listener.\<close>

lemma sessions_inv_admit:
  fixes now :: u64 and t :: transport_kind and e :: endpoint
  assumes inv: "sessions_inv sv" and i: "i < length (sv_listeners sv)" and fresh: "find_session i c sv = None"
    and nowrap: "sr_next_session_id (sv_registry sv) \<noteq> - 1"
    and room: "umap_size (io_hub (sv_io sv)) < sr_max_sessions (sv_registry sv)"
    and r: "sr_next_session_id r = sr_next_session_id (sv_registry sv) + 1"
      "sr_max_sessions r = sr_max_sessions (sv_registry sv)"
  defines "sid \<equiv> sr_next_session_id (sv_registry sv)"
  defines "sv' \<equiv> update_listener i (\<lambda>l. l\<lparr>tl_sessions := fst (umap_emplace c sid (tl_sessions l))\<rparr>)
      (sv\<lparr>sv_registry := r, sv_io := (sv_io sv)\<lparr>io_hub := hub_add_session now sid t e (io_hub (sv_io sv))\<rparr>\<rparr>)"
  shows "sessions_inv sv'"
proof -
  let ?hub = "io_hub (sv_io sv)"
  have new: "umap_find ?hub sid = None"
    using inv unfolding sessions_inv_def sid_def by (metis order.irrefl)
  have hubN: "umap_find (io_hub (sv_io sv')) s = None \<longleftrightarrow> s \<noteq> sid \<and> umap_find ?hub s = None" for s
    by (auto simp: sv'_def hub_add_session_def)
  have c: "umap_find (tl_sessions (sv_listeners sv ! i)) c = None"
    using fresh i by (simp add: find_session_def)
  have f: "find_session j d sv' = (if j = i \<and> d = c then Some sid else find_session j d sv)" for j d
    using i c by (auto simp: sv'_def find_session_update umap_emplace_def) (auto simp: find_session_def)
  have wfl: "\<forall>l \<in> set (sv_listeners sv'). umap_wf (tl_sessions l)"
    unfolding sv'_def using inv i
    by (intro update_listener_wf)
      (auto simp: sessions_inv_def umap_emplace_def umap.wf_assign split: option.splits)
  have hub: "umap_wf (io_hub (sv_io sv'))" "umap_size (io_hub (sv_io sv')) \<le> sr_max_sessions r"
    using inv new room r(2) by (auto simp: sv'_def sessions_inv_def hub_add_session_def umap.wf_assign
        umap.size_assign_new)
  have less: "sid < sid + 1" "s < sid \<Longrightarrow> s < sid + 1" for s
    using nowrap word_less_inc [of sid] unfolding sid_def by (auto intro: less_trans)
  have reg: "sv_registry sv' = r" "sr_next_session_id r = sid + 1"
    by (simp_all add: sv'_def r sid_def)
  have old: "find_session j d sv \<noteq> Some sid" for j d
    using inv new unfolding sessions_inv_def by metis
  have "\<forall>s. \<not> (s \<noteq> sid \<and> umap_find ?hub s = None) \<longrightarrow>
      (\<exists>j d. (if j = i \<and> d = c then Some sid else find_session j d sv) = Some s)"
    using inv fresh unfolding sessions_inv_def by (metis option.distinct(1))
  moreover have "\<forall>j d s. (if j = i \<and> d = c then Some sid else find_session j d sv) = Some s \<longrightarrow>
      \<not> (s \<noteq> sid \<and> umap_find ?hub s = None)"
    using inv unfolding sessions_inv_def by (metis option.inject)
  moreover have "\<forall>j d j' d' s. (if j = i \<and> d = c then Some sid else find_session j d sv) = Some s \<longrightarrow>
      (if j' = i \<and> d' = c then Some sid else find_session j' d' sv) = Some s \<longrightarrow> j = j' \<and> d = d'"
    using inv old unfolding sessions_inv_def by (auto split: if_splits)
  moreover have "\<forall>s. \<not> (s \<noteq> sid \<and> umap_find ?hub s = None) \<longrightarrow> s < sid + 1"
    using inv less unfolding sessions_inv_def sid_def by blast
  ultimately show ?thesis
    using wfl hub unfolding sessions_inv_def f hubN reg by (intro conjI)
qed

text \<open>Release: the mapping goes first, the hub entry after the handler has run.\<close>

lemma sessions_inv_release:
  assumes inv: "sessions_inv sv" and f: "find_session i c sv = Some sid"
    and io: "only_io (update_listener i (\<lambda>l. l\<lparr>tl_sessions := umap_erase c (tl_sessions l)\<rparr>) sv) sv2"
  shows "sessions_inv (sv_registry_remove sid sv2)"
proof -
  let ?sv1 = "update_listener i (\<lambda>l. l\<lparr>tl_sessions := umap_erase c (tl_sessions l)\<rparr>) sv"
  let ?sv' = "sv_registry_remove sid sv2"
  have i: "i < length (sv_listeners sv)"
    using f by (auto simp: find_session_def split: if_splits)
  have ls: "sv_listeners ?sv' = sv_listeners ?sv1"
    using io by (simp add: sv_registry_remove_def only_io_def)
  have f': "find_session j d ?sv' = (if j = i \<and> d = c then None else find_session j d sv)" for j d
    using i unfolding find_session_cong [OF ls]
    by (auto simp: find_session_update) (auto simp: find_session_def)
  have same: "same_sessions (io_hub (sv_io sv)) (io_hub (sv_io sv2))"
    using io by (simp add: only_io_def)
  then have hub: "umap_wf (io_hub (sv_io sv2))" "umap_size (io_hub (sv_io sv2)) = umap_size (io_hub (sv_io sv))"
    "umap_find (io_hub (sv_io sv2)) s = None \<longleftrightarrow> umap_find (io_hub (sv_io sv)) s = None" for s
    using inv by (auto simp: same_sessions_def sessions_inv_def)
  have hub': "umap_find (io_hub (sv_io ?sv')) s = None \<longleftrightarrow> s = sid \<or> umap_find (io_hub (sv_io sv)) s = None" for s
    by (simp add: sv_registry_remove_def registry_remove_def hub_remove_session_def hub)
  have wf: "\<forall>l \<in> set (sv_listeners ?sv1). umap_wf (tl_sessions l)"
    using inv i by (intro update_listener_wf) (auto simp: sessions_inv_def umap.wf_erase)
  have size: "umap_wf (io_hub (sv_io ?sv'))" "umap_size (io_hub (sv_io ?sv')) \<le> umap_size (io_hub (sv_io sv))"
    using hub(1,2) umap.size_erase_le [OF hub(1), of sid]
    by (simp_all add: sv_registry_remove_def registry_remove_def hub_remove_session_def umap.wf_erase)
  have reg: "sv_registry ?sv' = sv_registry sv"
    using io by (simp add: sv_registry_remove_def only_io_def)
  have uniq: "find_session j d sv = Some s \<Longrightarrow> \<not> (j = i \<and> d = c) \<Longrightarrow> s \<noteq> sid" for j d s
    using inv f unfolding sessions_inv_def by metis
  show ?thesis
    unfolding sessions_inv_def f' hub' reg ls
  proof (intro conjI)
    show "\<forall>s. \<not> (s = sid \<or> umap_find (io_hub (sv_io sv)) s = None) \<longrightarrow>
        (\<exists>j d. (if j = i \<and> d = c then None else find_session j d sv) = Some s)"
      using inv f unfolding sessions_inv_def by (metis option.inject)
  qed (use inv size wf uniq in \<open>auto simp: sessions_inv_def split: if_splits\<close>)
qed

lemma fold_registry_remove:
  "sv_listeners (fold (\<lambda>(c, s). sv_registry_remove s) m sv) = sv_listeners sv"
  "sv_registry (fold (\<lambda>(c, s). sv_registry_remove s) m sv) = sv_registry sv"
  "sv_options (fold (\<lambda>(c, s). sv_registry_remove s) m sv) = sv_options sv"
  "sv_running (fold (\<lambda>(c, s). sv_registry_remove s) m sv) = sv_running sv"
  "io_hub (sv_io (fold (\<lambda>(c, s). sv_registry_remove s) m sv)) = umap_erase_all (map snd m) (io_hub (sv_io sv))"
  by (induction m arbitrary: sv)
    (auto simp: sv_registry_remove_def registry_remove_def hub_remove_session_def umap_erase_all_def)

lemma sessions_inv_clear:
  assumes inv: "sessions_inv sv" and i: "i < length (sv_listeners sv)"
  defines "sv' \<equiv> update_listener i (\<lambda>l. l\<lparr>tl_sessions := []\<rparr>)
      (fold (\<lambda>(c, s). sv_registry_remove s) (tl_sessions (sv_listeners sv ! i)) sv)"
  shows "sessions_inv sv'" and "find_session j c sv' = (if j = i then None else find_session j c sv)"
proof -
  let ?m = "tl_sessions (sv_listeners sv ! i)"
  let ?sv1 = "fold (\<lambda>(c, s). sv_registry_remove s) ?m sv"
  have wfm: "umap_wf ?m"
    using inv i by (simp add: sessions_inv_def)
  have f: "find_session j d sv' = (if j = i then None else find_session j d sv)" for j d
    using i by (simp add: sv'_def find_session_update fold_registry_remove)
      (simp add: find_session_def fold_registry_remove)
  then show "find_session j c sv' = (if j = i then None else find_session j c sv)" .
  have m: "s \<in> set (map snd ?m) \<longleftrightarrow> (\<exists>d. find_session i d sv = Some s)" for s
    using i by (force simp: find_session_def umap_find_iff [OF wfm])
  have hub: "umap_find (io_hub (sv_io sv')) s = None \<longleftrightarrow>
      (\<exists>d. find_session i d sv = Some s) \<or> umap_find (io_hub (sv_io sv)) s = None" for s
    unfolding m [symmetric] by (simp add: sv'_def fold_registry_remove umap_find_erase_all)
  have wf: "\<forall>l \<in> set (sv_listeners sv'). umap_wf (tl_sessions l)"
    unfolding sv'_def using inv i
    by (intro update_listener_wf) (auto simp: sessions_inv_def fold_registry_remove)
  have size: "umap_wf (io_hub (sv_io sv'))" "umap_size (io_hub (sv_io sv')) \<le> umap_size (io_hub (sv_io sv))"
    using inv by (auto simp: sv'_def fold_registry_remove sessions_inv_def intro: umap_wf_erase_all
        umap_size_erase_all_le)
  have reg: "sv_registry sv' = sv_registry sv"
    by (simp add: sv'_def fold_registry_remove)
  have uniq: "find_session j d sv = Some s \<Longrightarrow> j \<noteq> i \<Longrightarrow> \<not> (\<exists>d. find_session i d sv = Some s)" for j d s
    using inv unfolding sessions_inv_def by metis
  show "sessions_inv sv'"
    unfolding sessions_inv_def f hub reg
  proof (intro conjI)
    show "\<forall>s. \<not> ((\<exists>d. find_session i d sv = Some s) \<or> umap_find (io_hub (sv_io sv)) s = None) \<longrightarrow>
        (\<exists>j d. (if j = i then None else find_session j d sv) = Some s)"
      using inv unfolding sessions_inv_def by metis
    show "\<forall>j d s. (if j = i then None else find_session j d sv) = Some s \<longrightarrow>
        \<not> ((\<exists>d. find_session i d sv = Some s) \<or> umap_find (io_hub (sv_io sv)) s = None)"
      using inv uniq unfolding sessions_inv_def by (metis option.discI)
    show "\<forall>ia c j d s. (if ia = i then None else find_session ia c sv) = Some s \<longrightarrow>
        (if j = i then None else find_session j d sv) = Some s \<longrightarrow> ia = j \<and> c = d"
      using inv unfolding sessions_inv_def by (metis option.discI)
  qed (use inv size wf in \<open>auto simp: sessions_inv_def\<close>)
qed

section \<open>Every operation keeps the invariant\<close>

context hub_respecting
begin

lemma on_message_inv: "sessions_inv sv \<Longrightarrow> sessions_inv (listener_on_message h send now i c e m sv)"
  unfolding listener_on_message_def
  by (auto split: option.splits intro: sessions_inv_only_io message_only_io)

lemma on_connected_inv:
  assumes "sessions_inv sv" and "i < length (sv_listeners sv)" and "find_session i c sv = None"
    and "sr_next_session_id (sv_registry sv) \<noteq> - 1"
  shows "sessions_inv (listener_on_connected h send now i c e sv)"
proof (cases "sv_running sv \<and> umap_size (io_hub (sv_io sv)) < sr_max_sessions (sv_registry sv)")
  case True
  then show ?thesis
    using assms unfolding listener_on_connected_def registry_try_add_def Let_def
    by (auto simp: hub_count_def intro!: sessions_inv_only_io [OF _ started_only_io] sessions_inv_admit)
next
  case False
  have l: "sessions_inv (sv_log l m sv)" "length (sv_listeners (sv_log l m sv)) = length (sv_listeners sv)" for l m
    using sessions_inv_only_io [OF assms(1) only_io_log] by (simp_all add: sv_log_def)
  show ?thesis
    using False assms(1,2) unfolding listener_on_connected_def registry_try_add_def
    by (auto simp: hub_count_def l intro!: sessions_inv_disconnect)
qed

lemma on_disconnected_inv:
  "sessions_inv sv \<Longrightarrow> sessions_inv (listener_on_disconnected h send now i c e sv)"
  unfolding listener_on_disconnected_def Let_def
  by (auto split: option.splits intro: sessions_inv_release stopped_only_io)

lemma on_disconnected_frame:
  "sv_options (listener_on_disconnected h send now i c e sv) = sv_options sv"
  "sv_running (listener_on_disconnected h send now i c e sv) = sv_running sv"
  "sv_registry (listener_on_disconnected h send now i c e sv) = sv_registry sv"
  "length (sv_listeners (listener_on_disconnected h send now i c e sv)) = length (sv_listeners sv)"
  using stopped_only_io
  by (auto simp: listener_on_disconnected_def Let_def sv_registry_remove_def only_io_def split: option.splits)

lemma on_disconnected_find:
  "find_session j d sv = None \<Longrightarrow> find_session j d (listener_on_disconnected h send now i c e sv) = None"
proof (cases "find_session i c sv")
  case (Some sid)
  assume n: "find_session j d sv = None"
  let ?sv1 = "update_listener i (\<lambda>l. l\<lparr>tl_sessions := umap_erase c (tl_sessions l)\<rparr>) sv"
  have i: "i < length (sv_listeners sv)"
    using Some by (auto simp: find_session_def split: if_splits)
  have "sv_listeners (listener_on_disconnected h send now i c e sv) = sv_listeners ?sv1"
    using Some stopped_only_io [of ?sv1 now "make_session send i c sid e ?sv1"]
    by (simp add: listener_on_disconnected_def Let_def sv_registry_remove_def only_io_def)
  then have "find_session j d (listener_on_disconnected h send now i c e sv) = find_session j d ?sv1"
    by (rule find_session_cong)
  then show ?thesis
    using n i by (simp add: find_session_update) (auto simp: find_session_def split: if_splits)
qed (simp add: listener_on_disconnected_def)

lemma listener_stop_spec:
  fixes send :: transport_send and now :: u64 and final :: "(u64 \<times> endpoint) list"
  assumes "sessions_inv sv" and "i < length (sv_listeners sv)"
  defines "sv' \<equiv> listener_stop h send now final i sv"
  shows "sessions_inv sv' \<and> sv_options sv' = sv_options sv \<and> sv_running sv' = sv_running sv
    \<and> sv_registry sv' = sv_registry sv \<and> length (sv_listeners sv') = length (sv_listeners sv)"
    and "find_session j c sv' = None \<or> j \<noteq> i \<and> find_session j c sv \<noteq> None"
proof -
  define sv1 where "sv1 = fold (\<lambda>(conn, remote). listener_on_disconnected h send now i conn remote) final sv"
  have 1: "sessions_inv sv1 \<and> sv_options sv1 = sv_options sv \<and> sv_running sv1 = sv_running sv
    \<and> sv_registry sv1 = sv_registry sv \<and> length (sv_listeners sv1) = length (sv_listeners sv)
    \<and> (\<forall>j c. find_session j c sv = None \<longrightarrow> find_session j c sv1 = None)"
    unfolding sv1_def using assms(1)
    by (induction final arbitrary: sv)
      (auto simp: on_disconnected_inv on_disconnected_frame on_disconnected_find)
  have 2: "sv' = update_listener i (\<lambda>l. l\<lparr>tl_sessions := []\<rparr>)
      (fold (\<lambda>(c, s). sv_registry_remove s) (tl_sessions (sv_listeners sv1 ! i)) sv1)"
    by (simp add: sv'_def listener_stop_def sv1_def Let_def)
  have 3: "sessions_inv sv1" "i < length (sv_listeners sv1)"
    using 1 assms(2) by simp_all
  show "sessions_inv sv' \<and> sv_options sv' = sv_options sv \<and> sv_running sv' = sv_running sv
    \<and> sv_registry sv' = sv_registry sv \<and> length (sv_listeners sv') = length (sv_listeners sv)"
    using 1 sessions_inv_clear(1) [OF 3] unfolding 2 by (simp add: fold_registry_remove)
  show "find_session j c sv' = None \<or> j \<noteq> i \<and> find_session j c sv \<noteq> None"
    unfolding 2 sessions_inv_clear(2) [OF 3] using 1 by auto
qed

end

section \<open>The runtime as a transition system\<close>

text \<open>
  The guards are what the transports promise: a connection is reported on a started listener and
  with an identifier that is not in use there, and fewer than \<open>2^64 - 2\<close> sessions are ever opened.
\<close>

inductive server_step :: "handler \<Rightarrow> server \<Rightarrow> server \<Rightarrow> bool" for h :: handler where
  start: "server_step h sv (fst (server_start h send now transport_start final sv))"
| stop: "server_step h sv (server_stop h send now final sv)"
| connected: "i < length (sv_listeners sv) \<Longrightarrow> find_session i conn sv = None \<Longrightarrow>
    sr_next_session_id (sv_registry sv) \<noteq> - 1 \<Longrightarrow>
    server_step h sv (listener_on_connected h send now i conn remote sv)"
| message: "server_step h sv (listener_on_message h send now i conn remote message sv)"
| disconnected: "server_step h sv (listener_on_disconnected h send now i conn remote sv)"
| transport_error: "server_step h sv (report_handler_error h text sv)"

lemma server_inv_only_io: "server_inv sv \<Longrightarrow> only_io sv sv' \<Longrightarrow> server_inv sv'"
  using sessions_inv_only_io [of sv sv'] by (auto simp: server_inv_def only_io_def)

lemma sessions_inv_no_owner:
  "sessions_inv sv \<Longrightarrow> (\<And>i c. find_session i c sv = None) \<Longrightarrow> io_hub (sv_io sv) = []"
  unfolding sessions_inv_def umap_empty_iff [symmetric] by (metis option.discI)

lemma check_listeners_only_io: "only_io sv (fst (check_listeners ls sv))"
proof (induction ls sv rule: check_listeners.induct)
  case (2 l ls sv)
  then show ?case
    using only_io_trans [OF only_io_log 2(1)] by auto
qed simp

lemma sv_log_frame [simp]:
  "sv_listeners (sv_log l m sv) = sv_listeners sv" "sv_running (sv_log l m sv) = sv_running sv"
  "sv_options (sv_log l m sv) = sv_options sv" "sv_registry (sv_log l m sv) = sv_registry sv"
  "io_hub (sv_io (sv_log l m sv)) = io_hub (sv_io sv)"
  by (simp_all add: sv_log_def)

context hub_respecting
begin

lemma listeners_stop_spec:
  assumes "sessions_inv sv" and "n \<le> length (sv_listeners sv)"
  shows "sessions_inv (fold (\<lambda>i. listener_stop h send now (final i) i) [0..<n] sv)
    \<and> sv_options (fold (\<lambda>i. listener_stop h send now (final i) i) [0..<n] sv) = sv_options sv
    \<and> sv_running (fold (\<lambda>i. listener_stop h send now (final i) i) [0..<n] sv) = sv_running sv
    \<and> sv_registry (fold (\<lambda>i. listener_stop h send now (final i) i) [0..<n] sv) = sv_registry sv
    \<and> length (sv_listeners (fold (\<lambda>i. listener_stop h send now (final i) i) [0..<n] sv)) = length (sv_listeners sv)"
    and "find_session j c (fold (\<lambda>i. listener_stop h send now (final i) i) [0..<n] sv) = None
      \<or> n \<le> j \<and> find_session j c sv \<noteq> None"
  using assms(2)
proof (induction n)
  case (Suc n)
  let ?sv1 = "fold (\<lambda>i. listener_stop h send now (final i) i) [0..<n] sv"
  have e: "fold (\<lambda>i. listener_stop h send now (final i) i) [0..<Suc n] sv
      = listener_stop h send now (final n) n ?sv1"
    by simp
  {
    case 1
    then have n: "sessions_inv ?sv1" "n < length (sv_listeners ?sv1)"
      using Suc(1) by simp_all
    show ?case
      unfolding e using 1 Suc(1) listener_stop_spec(1) [OF n, of send now "final n"] by simp
  next
    case 2
    have n: "sessions_inv ?sv1" "n < length (sv_listeners ?sv1)"
      using Suc(1) 2 by simp_all
    have "find_session j c ?sv1 = None \<or> n \<le> j \<and> find_session j c sv \<noteq> None"
      using Suc(2) 2 by simp
    with listener_stop_spec(2) [OF n, of j c send now "final n"] show ?case
      unfolding e by (elim disjE conjE) auto
  }
qed (use assms(1) in auto)

lemma server_stop_spec:
  fixes send :: transport_send and now :: u64 and final :: "nat \<Rightarrow> (u64 \<times> endpoint) list"
  assumes "sessions_inv sv"
    and "sr_max_sessions (sv_registry sv) = so_max_sessions (sv_options sv)" and "sv_running sv"
  defines "sv' \<equiv> server_stop h send now final sv"
  shows "server_inv sv'" and "io_hub (sv_io sv') = []" and "\<not> sv_running sv'"
proof -
  let ?sv0 = "sv\<lparr>sv_running := False\<rparr>"
  let ?sv2 = "fold (\<lambda>i. listener_stop h send now (final i) i) [0..<length (sv_listeners sv)] ?sv0"
  have i0: "sessions_inv ?sv0"
    using assms(1) by (subst sessions_inv_cong [of _ sv]) simp_all
  have s: "sessions_inv ?sv2" "sv_options ?sv2 = sv_options sv" "\<not> sv_running ?sv2"
    "sv_registry ?sv2 = sv_registry sv"
    using listeners_stop_spec(1) [OF i0, of "length (sv_listeners sv)" send now final] by simp_all
  have none: "find_session j c ?sv2 = None" for j c
    using listeners_stop_spec(2) [OF i0, of "length (sv_listeners sv)" j c send now final]
      find_session_out [of ?sv0 j c] by auto
  have hub: "io_hub (sv_io ?sv2) = []"
    using s(1) none by (rule sessions_inv_no_owner)
  have e: "sv' = sv_log Info ''Runtime stopped'' (?sv2\<lparr>sv_listeners := []\<rparr>)"
    using assms(3) by (simp add: sv'_def server_stop_def Let_def)
  show "io_hub (sv_io sv') = []" "\<not> sv_running sv'"
    using hub s by (simp_all add: e)
  then show "server_inv sv'"
    using s assms(2) by (simp add: e server_inv_def sessions_inv_def find_session_def)
qed

lemma server_stop_inv: "server_inv sv \<Longrightarrow> server_inv (server_stop h send now final sv)"
  using server_stop_spec(1) [of sv send now final]
  by (cases "sv_running sv") (auto simp: server_inv_def, simp_all add: server_stop_def)

lemma start_listeners_inv:
  "server_inv sv \<Longrightarrow> sv_running sv \<Longrightarrow>
     server_inv (fst (start_listeners ts (server_stop h send now final) ls sv))"
proof (induction ts "server_stop h send now final" ls sv rule: start_listeners.induct)
  case (2 ts l ls sv)
  let ?new = "\<lambda>sv1. sv1\<lparr>sv_listeners := sv_listeners sv1 @ [\<lparr>tl_options = l, tl_sessions = [], tl_disconnects = []\<rparr>]\<rparr>"
  have "find_session i c (?new sv1) = find_session i c sv1" for i c and sv1 :: server
    by (auto simp: find_session_def nth_append)
  then have add: "server_inv sv1 \<Longrightarrow> sv_running sv1 \<Longrightarrow> server_inv (?new sv1)" for sv1
    by (auto simp: server_inv_def sessions_inv_def)
  have "server_inv (?new (sv_log lv m sv))" for lv m
    using server_inv_only_io [OF 2(3) only_io_log] 2(4) by (intro add) simp_all
  then show ?case
    using 2 by (auto simp: server_stop_inv Let_def split: sum.splits)
qed simp

lemma server_start_inv: "server_inv sv \<Longrightarrow> server_inv (fst (server_start h send now ts final sv))"
proof -
  assume inv: "server_inv sv"
  obtain sv1 r where c: "check_listeners (so_listeners (sv_options sv)) sv = (sv1, r)"
    by (cases "check_listeners (so_listeners (sv_options sv)) sv")
  then have i1: "server_inv sv1"
    using server_inv_only_io [OF inv check_listeners_only_io] by (metis fst_conv)
  have "server_inv (sv_log l m (sv1\<lparr>sv_running := True\<rparr>))" for l m
    using i1 sessions_inv_cong [of "sv_log l m (sv1\<lparr>sv_running := True\<rparr>)" sv1] by (simp add: server_inv_def)
  then show ?thesis
    using inv i1 c by (auto simp: server_start_def Let_def start_listeners_inv split: sum.splits)
qed

end

definition server_initial :: "server \<Rightarrow> bool" where
  "server_initial sv \<longleftrightarrow> (\<exists>options. sv = Server_new options)"

lemma server_inv_new [inv_rules]: "server_inv (Server_new options)"
  by (simp add: server_inv_def sessions_inv_def Server_new_def find_session_def)

inductive_cases server_stepE: "server_step h sv sv'"

context hub_respecting
begin

lemma connected_frame:
  assumes "server_inv sv" and "i < length (sv_listeners sv)"
  shows "let sv' = listener_on_connected h send now i c e sv in
    (\<not> sv_running sv' \<longrightarrow> sv_listeners sv' = [])
    \<and> sr_max_sessions (sv_registry sv') = so_max_sessions (sv_options sv')"
  using assms started_only_io
  by (auto simp: listener_on_connected_def transport_disconnect_def registry_try_add_def server_inv_def
      only_io_def Let_def split: if_splits)

lemma step_inv: "server_inv sv \<Longrightarrow> server_step h sv sv' \<Longrightarrow> server_inv sv'"
proof (erule server_stepE, goal_cases)
  case (3 i conn send now remote)
  then show ?case
    using on_connected_inv [of sv i conn send now remote] connected_frame [of sv i send now conn remote]
    by (simp add: server_inv_def Let_def)
next
  case (4 send now i conn remote message)
  then show ?case
    by (auto simp: listener_on_message_def intro: server_inv_only_io message_only_io split: option.splits)
next
  case (5 send now i conn remote)
  then show ?case
    using on_disconnected_inv [of sv send now i conn remote] on_disconnected_frame [of send now i conn remote sv]
    by (auto simp: server_inv_def)
qed (auto simp: server_start_inv server_stop_inv intro: server_inv_only_io report_only_io)

end

sublocale hub_respecting \<subseteq> runtime: transition_system server_initial "server_step h" server_inv
  by unfold_locales (auto simp: server_initial_def server_inv_new step_inv)

section \<open>Properties\<close>

text \<open>
  C5. Session bookkeeping of the runtime with the echo handler: over every sequence of starts,
  stops, connections, messages, disconnections and transport errors, the hub holds at most
  \<^verbatim>\<open>max_sessions\<close> sessions, every connection a listener knows has its session in the hub, every
  session in the hub belongs to exactly one connection of one listener, and a stopped server
  holds none.
\<close>

theorem runtime_sessions_consistent:
  assumes "(server_step (EchoHandler access wired))\<^sup>*\<^sup>* (Server_new options) sv"
  shows "hub_count (io_hub (sv_io sv)) \<le> so_max_sessions (sv_options sv)
    \<and> (\<forall>sid. hub_find (io_hub (sv_io sv)) sid \<noteq> None \<longleftrightarrow> (\<exists>!p. find_session (fst p) (snd p) sv = Some sid))
    \<and> (\<not> sv_running sv \<longrightarrow> hub_count (io_hub (sv_io sv)) = 0)"
proof -
  have inv: "server_inv sv"
    using echo.runtime.star_inv [OF _ assms] by (auto simp: server_initial_def)
  then have "\<not> sv_running sv \<longrightarrow> io_hub (sv_io sv) = []"
    using sessions_inv_no_owner [of sv] by (simp add: server_inv_def find_session_def)
  moreover have "hub_find (io_hub (sv_io sv)) sid \<noteq> None \<longleftrightarrow>
      (\<exists>!p. find_session (fst p) (snd p) sv = Some sid)" for sid
    using inv unfolding server_inv_def sessions_inv_def hub_find_def
    by (metis fst_conv snd_conv prod.collapse)
  ultimately show ?thesis
    using inv by (simp add: server_inv_def sessions_inv_def hub_count_def)
qed

definition sample_options :: server_options where
  "sample_options =
     \<lparr>so_worker_count = 1, so_max_sessions = 2, so_max_message_bytes = 64, so_idle_timeout_ms = 9,
      so_receive_timeout_ms = 5, so_tcp_no_delay = True, so_tcp_backend = Threaded,
      so_security_mode = Token,
      so_listeners = [\<lparr>lo_name = ''main'', lo_transport = Tcp,
        lo_bind_endpoint = \<lparr>ep_address = ''0.0.0.0'', ep_port = 80\<rparr>, lo_enabled = True\<rparr>]\<rparr>"

definition sample_started :: server where
  "sample_started = fst (server_start (EchoHandler sample_access True) (\<lambda>_ _ _. Inr ()) 1 (\<lambda>_. Inr ())
     (\<lambda>_. []) (Server_new sample_options))"

definition sample_connected :: server where
  "sample_connected = listener_on_connected (EchoHandler sample_access True) (\<lambda>_ _ _. Inr ()) 2 0 7
     \<lparr>ep_address = ''10.0.0.1'', ep_port = 9\<rparr> sample_started"

theorem runtime_sessions_consistent_witness:
  "hub_count (io_hub (sv_io sample_connected)) \<le> so_max_sessions (sv_options sample_connected)"
proof -
  let ?h = "EchoHandler sample_access True"
  have start: "server_step ?h (Server_new sample_options) sample_started"
    unfolding sample_started_def by (rule server_step.start)
  have "0 < length (sv_listeners sample_started)" "find_session 0 7 sample_started = None"
    "sr_next_session_id (sv_registry sample_started) \<noteq> - 1"
    by (simp_all add: sample_started_def server_start_def Server_new_def sample_options_def
        find_session_def)
  then have "server_step ?h sample_started sample_connected"
    unfolding sample_connected_def by (rule server_step.connected)
  then show ?thesis
    using runtime_sessions_consistent [of sample_access True sample_options sample_connected] start
    by (meson converse_rtranclp_into_rtranclp r_into_rtranclp)
qed

lemma check_listeners_tcp:
  "snd (check_listeners ls sv) = Inr () \<longleftrightarrow> (\<forall>l \<in> set ls. lo_enabled l \<longrightarrow> lo_transport l = Tcp)"
  by (induction ls sv rule: check_listeners.induct) auto

context hub_respecting
begin

lemma start_listeners_outcome:
  assumes "server_inv sv" and "sv_running sv"
    and "start_listeners ts (server_stop h send now final) ls sv = (sv', r)"
  shows "case r of
      Inl _ \<Rightarrow> \<not> sv_running sv' \<and> io_hub (sv_io sv') = [] \<and> (\<exists>l \<in> set ls. lo_enabled l \<and> isl (ts l))
    | Inr _ \<Rightarrow> sv_running sv' \<and>
        map tl_options (sv_listeners sv') = map tl_options (sv_listeners sv) @ filter lo_enabled ls
        \<and> (\<forall>l \<in> set ls. lo_enabled l \<longrightarrow> \<not> isl (ts l))"
  using assms
proof (induction ts "server_stop h send now final" ls sv rule: start_listeners.induct)
  case (2 ts l ls sv)
  let ?new = "\<lambda>sv1. sv1\<lparr>sv_listeners := sv_listeners sv1 @ [\<lparr>tl_options = l, tl_sessions = [], tl_disconnects = []\<rparr>]\<rparr>"
  consider "\<not> lo_enabled l" | e where "lo_enabled l" "ts l = Inl e" | u where "lo_enabled l" "ts l = Inr u"
    by (cases "ts l") auto
  then show ?case
  proof cases
    case 1
    then show ?thesis using 2(1,3-5) by (auto split: sum.splits)
  next
    case (2 e)
    then show ?thesis
      using server_stop_spec(2,3) [of sv send now final] "2.prems" by (auto simp: server_inv_def)
  next
    case (3 u)
    let ?sv1 = "?new (sv_log Info (''Listener started name='' @ lo_name l
                    @ '' transport='' @ transport_to_string (lo_transport l)
                    @ '' tcp_backend='' @ backend_to_string (so_tcp_backend (sv_options sv))
                    @ '' endpoint='' @ endpoint_to_string (lo_bind_endpoint l)) sv)"
    have "server_inv ?sv1"
      using start_listeners_inv [of sv "\<lambda>_. Inr ()" send now final "[l]"] "2.prems" 3 by simp
    then show ?thesis
      using 2(2) [OF _ 3(2) refl refl, of ] "2.prems" 3 by (auto split: sum.splits)
  qed
qed auto

end

text \<open>
  C38. Starting is all or nothing: a fresh server that reports success runs every enabled listener,
  in the configured order and all of them TCP; one that reports an error is not running and holds
  no session, and it reports one exactly when there is no listener, an enabled one is not TCP, or
  a transport failed to start.
\<close>

theorem server_start_all_or_nothing:
  "case server_start (EchoHandler access wired) send now transport_start final (Server_new options) of
     (sv, r) \<Rightarrow>
       (r = Inr ()) = (so_listeners options \<noteq> [] \<and>
          list_all (\<lambda>l. lo_transport l = Tcp \<and> \<not> isl (transport_start l)) (filter lo_enabled (so_listeners options)))
     \<and> sv_running sv = (r = Inr ())
     \<and> (if r = Inr () then map tl_options (sv_listeners sv) = filter lo_enabled (so_listeners options)
         else io_hub (sv_io sv) = [])"
proof -
  let ?sv = "Server_new options" let ?ls = "so_listeners options"
  obtain sv1 r where c: "check_listeners ?ls ?sv = (sv1, r)"
    by (cases "check_listeners ?ls ?sv")
  have s1: "only_io ?sv sv1"
    using check_listeners_only_io [of ?sv ?ls] c by simp
  then have f: "sv_options sv1 = options" "sv_listeners sv1 = []" "\<not> sv_running sv1" "io_hub (sv_io sv1) = []"
    by (auto simp: only_io_def Server_new_def same_sessions_def umap_size_def)
  have t: "r = Inr () \<longleftrightarrow> (\<forall>l \<in> set ?ls. lo_enabled l \<longrightarrow> lo_transport l = Tcp)"
    using check_listeners_tcp [of ?ls ?sv] c by simp
  show ?thesis
  proof (cases "?ls = [] \<or> r \<noteq> Inr ()")
    case True
    then show ?thesis
      using c f t by (auto simp: server_start_def Server_new_def list_all_iff split: sum.splits)
  next
    case False
    define sv2 where "sv2 = sv_log Info (''Runtime started with workers='' @ decimal (so_worker_count options)
                    @ '' max_sessions='' @ decimal (so_max_sessions options)
                    @ '' max_message_bytes='' @ decimal (so_max_message_bytes options)
                    @ '' idle_timeout_ms='' @ decimal (so_idle_timeout_ms options))
                    (sv1\<lparr>sv_running := True\<rparr>)"
    have i1: "server_inv sv1"
      using server_inv_only_io [OF server_inv_new s1] .
    have i2: "server_inv sv2" "sv_running sv2"
      using i1 sessions_inv_cong [of sv2 sv1] by (simp_all add: sv2_def server_inv_def)
    obtain sv' r' where st: "start_listeners transport_start (server_stop (EchoHandler access wired) send now final)
        ?ls sv2 = (sv', r')"
      by (cases "start_listeners transport_start (server_stop (EchoHandler access wired) send now final) ?ls sv2")
    have "server_start (EchoHandler access wired) send now transport_start final ?sv = (sv', r')"
      using False c f st by (simp add: server_start_def Server_new_def sv2_def split: sum.splits)
    then show ?thesis
      using echo.start_listeners_outcome [OF i2 st] t False f
      by (auto simp: sv2_def list_all_iff split: sum.splits)
  qed
qed

end
