(* ===== verification/Worker_Context.thy ===== *)
theory Worker_Context
  imports Net_Types Interfaces "HOL-Library.Product_Lexorder"
begin

text \<open>
  The state of the transport worker (src/src/Net/Async/WorkerContext.h, Connection.h,
  ConnectionState.h and the fields of the four protocol classes) and the operations of
  \<^verbatim>\<open>WorkerContext\<close> and \<^verbatim>\<open>ConnectionState\<close>. Everything runs on one worker thread, so every
  completion handler and every posted command is one step.

  A connection is closed exactly when it is not in the registry: \<^verbatim>\<open>close()\<close> sets
  \<^verbatim>\<open>closed_\<close> and removes it in the same step, nothing else removes one, and a completion that
  arrives later finds \<^verbatim>\<open>closed_\<close> set. The application callbacks act on a state of their own
  (\<open>wc_app\<close>) and may throw; \<open>wc_trace\<close> records the calls that were made, for the statements below: a
  callback that is not set is not called and leaves no notice.
  Failures to start an operation for lack of memory are not modelled.
\<close>

section \<open>Callbacks and notifications\<close>

text \<open>A callback returns the new application state and its answer; \<open>None\<close> is a thrown exception.\<close>

record 'a callbacks =
  cb_open :: "(peer \<Rightarrow> 'a \<Rightarrow> 'a \<times> bool option) option"
  cb_message :: "(peer \<Rightarrow> buffer \<Rightarrow> 'a \<Rightarrow> 'a \<times> bool option) option"
  cb_close :: "(peer \<Rightarrow> 'a \<Rightarrow> 'a) option"
  cb_error :: "(u64 \<Rightarrow> string \<Rightarrow> 'a \<Rightarrow> 'a) option"
  cb_http_request :: "(peer \<Rightarrow> buffer \<Rightarrow> 'a \<Rightarrow> 'a \<times> bool option) option"

definition no_callbacks :: "'a callbacks" where
  "no_callbacks = \<lparr>cb_open = None, cb_message = None, cb_close = None, cb_error = None, cb_http_request = None\<rparr>"

datatype notice =
    N_Open peer bool
  | N_Message peer buffer bool
  | N_Http_request peer buffer bool
  | N_Close peer
  | N_Error u64 string

section \<open>Connections\<close>

text \<open>
  What each protocol class keeps, with the read operation it has outstanding (\<open>_idle\<close>: none, while
  a handler runs or before the first one is started).
\<close>

datatype tcp_read = Tcp_idle | Tcp_handshake | Tcp_header | Tcp_body nat

record tcp_part =
  tc_tls :: bool
  tc_read :: tcp_read
  tc_outgoing :: "bytes list"
  tc_queued_bytes :: nat

datatype ws_read = Ws_idle | Ws_handshake | Ws_upgrade | Ws_accept | Ws_message

record ws_part =
  ws_tls :: bool
  ws_read :: ws_read
  ws_outgoing :: "buffer list"
  ws_queued_bytes :: nat

record http_request =
  rq_version :: nat
  rq_method :: string
  rq_target :: string
  rq_fields :: "http_header list"
  rq_body :: bytes
  rq_keep_alive :: bool

datatype http_stage = Ht_idle | Ht_handshake | Ht_header | Ht_body | Ht_dispatched | Ht_writing bool

text \<open>A response handed to \<^verbatim>\<open>async_write\<close>; \<open>hm_content_length\<close> is the header when it is set.\<close>

record http_message =
  hm_status :: nat
  hm_keep_alive :: bool
  hm_content_type :: "string option"
  hm_headers :: "http_header list"
  hm_content_length :: "nat option"
  hm_body :: bytes

record http_part =
  ht_tls :: bool
  ht_stage :: http_stage
  ht_pending_request_id :: u64
  ht_head_request :: bool
  ht_request_keep_alive :: bool
  ht_sent :: "http_message list"

type_synonym udp_endpoint = "string \<times> u16"

record udp_part =
  up_listener :: u64
  up_endpoint :: udp_endpoint
  up_last_received :: nat
  up_send_queue :: "buffer list"
  up_queued_bytes :: nat

datatype channel = Tcp_channel tcp_part | Ws_channel ws_part | Http_channel http_part | Udp_channel udp_part

record connection =
  cn_peer :: peer
  cn_config :: listener_config
  cn_opened :: bool
  cn_deadline_generation :: u64
  cn_channel :: channel

record udp_listener =
  ul_config :: listener_config
  ul_peers :: "(udp_endpoint, u64) umap"
  ul_started :: bool
  ul_closed :: bool

section \<open>The worker\<close>

record 'a worker =
  wc_limits :: service_limits
  wc_callbacks :: "'a callbacks"
  wc_stopping :: bool
  wc_connections :: "(u64, connection) umap"
  wc_next_session_id :: u64
  wc_next_http_request_id :: u64
  wc_udp :: "(u64, udp_listener) umap"
  wc_app :: 'a
  wc_trace :: "notice list"

text \<open>Zero means that the identifiers are used up; the counter stays at zero.\<close>

definition allocate_session_id :: "'a worker \<Rightarrow> 'a worker \<times> u64" where
  "allocate_session_id w =
     (if wc_next_session_id w = 0 then (w, 0)
      else (w\<lparr>wc_next_session_id := wc_next_session_id w + 1\<rparr>, wc_next_session_id w))"

definition allocate_http_request_id :: "'a worker \<Rightarrow> 'a worker \<times> u64" where
  "allocate_http_request_id w =
     (if wc_next_http_request_id w = 0 then (w, 0)
      else (w\<lparr>wc_next_http_request_id := wc_next_http_request_id w + 1\<rparr>, wc_next_http_request_id w))"

definition add_connection :: "connection \<Rightarrow> 'a worker \<Rightarrow> 'a worker \<times> bool" where
  "add_connection c w =
     (if wc_stopping w \<or> p_session_id (cn_peer c) = 0
         \<or> umap_size (wc_connections w) \<ge> max_connections (wc_limits w)
      then (w, False)
      else
        (let (m, inserted) = umap_emplace (p_session_id (cn_peer c)) c (wc_connections w)
         in (w\<lparr>wc_connections := m\<rparr>, inserted)))"

definition notify_open :: "peer \<Rightarrow> 'a worker \<Rightarrow> 'a worker \<times> bool" where
  "notify_open p w =
     (case cb_open (wc_callbacks w) of
        None \<Rightarrow> (w, True)
      | Some f \<Rightarrow>
          (let (app, r) = f p (wc_app w); ok = (r = Some True)
           in (w\<lparr>wc_app := app, wc_trace := wc_trace w @ [N_Open p ok]\<rparr>, ok)))"

definition notify_message :: "peer \<Rightarrow> buffer \<Rightarrow> 'a worker \<Rightarrow> 'a worker \<times> bool" where
  "notify_message p message w =
     (case cb_message (wc_callbacks w) of
        None \<Rightarrow> (w, True)
      | Some f \<Rightarrow>
          (let (app, r) = f p message (wc_app w); ok = (r = Some True)
           in (w\<lparr>wc_app := app, wc_trace := wc_trace w @ [N_Message p message ok]\<rparr>, ok)))"

definition notify_http_request :: "peer \<Rightarrow> buffer \<Rightarrow> 'a worker \<Rightarrow> 'a worker \<times> bool" where
  "notify_http_request p request w =
     (case cb_http_request (wc_callbacks w) of
        None \<Rightarrow> (w, False)
      | Some f \<Rightarrow>
          (let (app, r) = f p request (wc_app w); ok = (r = Some True)
           in (w\<lparr>wc_app := app, wc_trace := wc_trace w @ [N_Http_request p request ok]\<rparr>, ok)))"

definition remove_connection :: "peer \<Rightarrow> bool \<Rightarrow> 'a worker \<Rightarrow> 'a worker" where
  "remove_connection p was_open w =
     (case umap_find (wc_connections w) (p_session_id p) of
        None \<Rightarrow> w
      | Some c \<Rightarrow>
          (let w1 = w\<lparr>wc_connections := umap_erase (p_session_id p) (wc_connections w)\<rparr>
           in if was_open
              then (case cb_close (wc_callbacks w1) of
                      None \<Rightarrow> w1
                    | Some f \<Rightarrow> w1\<lparr>wc_app := f (cn_peer c) (wc_app w1),
                                  wc_trace := wc_trace w1 @ [N_Close (cn_peer c)]\<rparr>)
              else w1))"

definition report_error :: "u64 \<Rightarrow> string \<Rightarrow> 'a worker \<Rightarrow> 'a worker" where
  "report_error listener_id message w =
     (case cb_error (wc_callbacks w) of
        None \<Rightarrow> w
      | Some f \<Rightarrow> w\<lparr>wc_app := f listener_id message (wc_app w),
                    wc_trace := wc_trace w @ [N_Error listener_id message]\<rparr>)"

section \<open>Operations every connection shares\<close>

definition set_connection :: "u64 \<Rightarrow> connection \<Rightarrow> 'a worker \<Rightarrow> 'a worker" where
  "set_connection i c w = w\<lparr>wc_connections := umap_assign i c (wc_connections w)\<rparr>"

text \<open>\<^verbatim>\<open>UdpListener::forget_peer\<close>, called while a UDP peer closes.\<close>

definition forget_peer :: "u64 \<Rightarrow> udp_endpoint \<Rightarrow> 'a worker \<Rightarrow> 'a worker" where
  "forget_peer l e w =
     (case umap_find (wc_udp w) l of
        None \<Rightarrow> w
      | Some ul \<Rightarrow> w\<lparr>wc_udp := umap_assign l (ul\<lparr>ul_peers := umap_erase e (ul_peers ul)\<rparr>) (wc_udp w)\<rparr>)"

text \<open>\<^verbatim>\<open>close()\<close> of the connection with this id; nothing when it is already closed.\<close>

definition conn_close :: "u64 \<Rightarrow> 'a worker \<Rightarrow> 'a worker" where
  "conn_close i w =
     (case umap_find (wc_connections w) i of
        None \<Rightarrow> w
      | Some c \<Rightarrow>
          (let w1 = (case cn_channel c of
                       Udp_channel u \<Rightarrow> forget_peer (up_listener u) (up_endpoint u) w
                     | _ \<Rightarrow> w)
           in remove_connection (cn_peer c) (cn_opened c) w1))"

definition conn_reject :: "u64 \<Rightarrow> string \<Rightarrow> 'a worker \<Rightarrow> 'a worker" where
  "conn_reject i reason w =
     (case umap_find (wc_connections w) i of
        None \<Rightarrow> w
      | Some c \<Rightarrow>
          conn_close i (report_error (p_listener_id (cn_peer c))
            (''Session '' @ decimal (unat (p_session_id (cn_peer c))) @ '': '' @ reason) w))"

text \<open>The errors a completion reports: the two the code treats as a normal end, and the rest.\<close>

datatype io_error = Aborted | End_of_stream | Io_failure string

definition conn_fail :: "u64 \<Rightarrow> io_error \<Rightarrow> string \<Rightarrow> 'a worker \<Rightarrow> 'a worker" where
  "conn_fail i error operation w =
     (case umap_find (wc_connections w) i of
        None \<Rightarrow> w
      | Some c \<Rightarrow>
          conn_close i
            (case error of
               Io_failure text \<Rightarrow>
                 report_error (p_listener_id (cn_peer c))
                   (''Session '' @ decimal (unat (p_session_id (cn_peer c))) @ '' '' @ operation @ '': '' @ text) w
             | _ \<Rightarrow> w))"

text \<open>\<^verbatim>\<open>arm_deadline\<close>: the newest generation is the one whose timer counts.\<close>

definition arm_deadline :: "u64 \<Rightarrow> 'a worker \<Rightarrow> 'a worker" where
  "arm_deadline i w =
     (case umap_find (wc_connections w) i of
        None \<Rightarrow> w
      | Some c \<Rightarrow> set_connection i (c\<lparr>cn_deadline_generation := cn_deadline_generation c + 1\<rparr>) w)"

definition begin_handshake_deadline :: "u64 \<Rightarrow> 'a worker \<Rightarrow> 'a worker" where
  "begin_handshake_deadline i w = arm_deadline i w"

definition touch_idle_deadline :: "u64 \<Rightarrow> 'a worker \<Rightarrow> 'a worker" where
  "touch_idle_deadline i w = arm_deadline i w"

text \<open>The timer handler of one generation; \<open>cancelled\<close> is a nonzero error code.\<close>

definition deadline_expired :: "u64 \<Rightarrow> u64 \<Rightarrow> bool \<Rightarrow> 'a worker \<Rightarrow> 'a worker" where
  "deadline_expired i generation cancelled w =
     (case umap_find (wc_connections w) i of
        None \<Rightarrow> w
      | Some c \<Rightarrow>
          if \<not> cancelled \<and> generation = cn_deadline_generation c
          then conn_reject i ''Connection deadline exceeded'' w else w)"

definition publish_open :: "u64 \<Rightarrow> 'a worker \<Rightarrow> 'a worker \<times> bool" where
  "publish_open i w =
     (case umap_find (wc_connections w) i of
        None \<Rightarrow> (w, False)
      | Some c \<Rightarrow>
          (let (w1, ok) = notify_open (cn_peer c) w
           in if \<not> ok then (conn_close i w1, False)
              else (touch_idle_deadline i (set_connection i (c\<lparr>cn_opened := True\<rparr>) w1), True)))"

definition publish_message :: "u64 \<Rightarrow> buffer \<Rightarrow> 'a worker \<Rightarrow> 'a worker \<times> bool" where
  "publish_message i message w =
     (case umap_find (wc_connections w) i of
        None \<Rightarrow> (w, False)
      | Some c \<Rightarrow>
          (let (w1, ok) = notify_message (cn_peer c) message w
           in if \<not> ok then (conn_close i w1, False)
              else (touch_idle_deadline i w1, True)))"

text \<open>Replace the protocol part of a live connection.\<close>

definition set_channel :: "u64 \<Rightarrow> channel \<Rightarrow> 'a worker \<Rightarrow> 'a worker" where
  "set_channel i ch w =
     (case umap_find (wc_connections w) i of
        None \<Rightarrow> w
      | Some c \<Rightarrow> set_connection i (c\<lparr>cn_channel := ch\<rparr>) w)"

lemmas worker_defs = allocate_session_id_def allocate_http_request_id_def add_connection_def
  notify_open_def notify_message_def notify_http_request_def remove_connection_def report_error_def
  set_connection_def forget_peer_def conn_close_def conn_reject_def conn_fail_def arm_deadline_def
  begin_handshake_deadline_def touch_idle_deadline_def deadline_expired_def publish_open_def
  publish_message_def set_channel_def

section \<open>Identifiers\<close>

text \<open>The session identifiers of one service are distinct and nonzero, also across stop and start.\<close>

definition alloc_session :: "'a worker \<Rightarrow> ('a worker \<times> u64) option" where
  "alloc_session w = (case allocate_session_id w of (w', i) \<Rightarrow> if i = 0 then None else Some (w', i))"

definition alloc_http :: "'a worker \<Rightarrow> ('a worker \<times> u64) option" where
  "alloc_http w = (case allocate_http_request_id w of (w', i) \<Rightarrow> if i = 0 then None else Some (w', i))"

text \<open>The position of a counter that stops at zero: its value, or the size of its range.\<close>

definition counter_pos :: "u64 \<Rightarrow> nat" where
  "counter_pos n = (if n = 0 then W64 else unat n)"

lemma counter_pos_step: "n \<noteq> 0 \<Longrightarrow> counter_pos (n + 1) = Suc (counter_pos n)"
proof -
  assume n: "n \<noteq> 0"
  show ?thesis
  proof (cases "n + 1 = 0")
    case True
    then have "n = - 1" by (simp add: eq_neg_iff_add_eq_0)
    then have "unat n = W64 - 1" by (simp only: unsigned_minus_1_eq_mask) (simp add: mask_eq_exp_minus_1)
    then show ?thesis using n True by (simp add: counter_pos_def)
  next
    case False
    then have "unat (n + 1) = Suc (unat n)" by (simp add: add.commute unatSuc)
    then show ?thesis using n False by (simp add: counter_pos_def)
  qed
qed

lemma counter_pos_range: "n \<noteq> 0 \<Longrightarrow> n = of_nat (counter_pos n) \<and> counter_pos n < W64"
  using unsigned_less [of n] by (simp add: counter_pos_def)

lemma ident_range: "inj_on (of_nat :: nat \<Rightarrow> u64) {..<W64}" "n < W64 \<Longrightarrow> 0 < n \<Longrightarrow> (of_nat n :: u64) \<noteq> 0"
  by (auto simp: inj_on_def word_of_nat_eq_iff take_bit_eq_mod word_of_nat_eq_0_iff dest: nat_dvd_not_less)

interpretation session_ids: id_source "\<lambda>w. counter_pos (wc_next_session_id w)" of_nat W64 alloc_session
proof (unfold_locales, goal_cases)
  case (1 s s' i)
  then show ?case
    using counter_pos_range by (auto simp: alloc_session_def allocate_session_id_def split: if_splits)
next
  case (2 s s' i)
  then show ?case
    using counter_pos_step by (auto simp: alloc_session_def allocate_session_id_def split: if_splits)
next
  case (3 s s' i)
  then show ?case
    using counter_pos_range by (auto simp: alloc_session_def allocate_session_id_def split: if_splits)
qed (use ident_range in simp_all)

interpretation http_ids: id_source "\<lambda>w. counter_pos (wc_next_http_request_id w)" of_nat W64 alloc_http
proof (unfold_locales, goal_cases)
  case (1 s s' i)
  then show ?case
    using counter_pos_range by (auto simp: alloc_http_def allocate_http_request_id_def split: if_splits)
next
  case (2 s s' i)
  then show ?case
    using counter_pos_step by (auto simp: alloc_http_def allocate_http_request_id_def split: if_splits)
next
  case (3 s s' i)
  then show ?case
    using counter_pos_range by (auto simp: alloc_http_def allocate_http_request_id_def split: if_splits)
qed (use ident_range in simp_all)

end
