(* ===== verification/Session_Protocol.thy ===== *)
theory Session_Protocol
  imports Worker_Context
begin

text \<open>
  What the application sees of one session: at most one open notification, then messages, then
  one close notification if the open was accepted, and nothing after it. \<open>worker_inv\<close> ties this
  protocol to the registry and adds the accounting of the send queues; every operation of
  \<^verbatim>\<open>WorkerContext\<close> and \<^verbatim>\<open>ConnectionState\<close> keeps it.
\<close>

section \<open>Phases of a session\<close>

datatype phase = Fresh | Live | Ended | Broken

definition notice_session :: "notice \<Rightarrow> u64 option" where
  "notice_session n =
     (case n of N_Open p _ \<Rightarrow> Some (p_session_id p) | N_Message p _ _ \<Rightarrow> Some (p_session_id p)
      | N_Http_request p _ _ \<Rightarrow> Some (p_session_id p) | N_Close p \<Rightarrow> Some (p_session_id p)
      | N_Error _ _ \<Rightarrow> None)"

definition phase_step :: "u64 \<Rightarrow> phase \<Rightarrow> notice \<Rightarrow> phase" where
  "phase_step i ph n =
     (if notice_session n \<noteq> Some i then ph
      else
        (case n of
           N_Open _ ok \<Rightarrow> if ph = Fresh then (if ok then Live else Ended) else Broken
         | N_Close _ \<Rightarrow> if ph = Live then Ended else Broken
         | _ \<Rightarrow> if ph = Live then Live else Broken))"

definition phase_of :: "notice list \<Rightarrow> u64 \<Rightarrow> phase" where
  "phase_of tr i = foldl (phase_step i) Fresh tr"

lemma phase_of_simps [simp]:
  "phase_of [] i = Fresh" "phase_of (tr @ [n]) i = phase_step i (phase_of tr i) n"
  by (simp_all add: phase_of_def)

section \<open>Invariant\<close>

text \<open>The send queue of a channel stays within the configured bytes and 1024 entries.\<close>

definition ws_cost :: "buffer \<Rightarrow> nat" where
  "ws_cost b = buffer_size b + 16"

definition queue_cost :: "nat \<Rightarrow> nat" where
  "queue_cost payload_bytes = (if payload_bytes = 0 then 1 else payload_bytes)"

definition udp_cost :: "buffer \<Rightarrow> nat" where
  "udp_cost b = queue_cost (buffer_size b)"

definition channel_ok :: "service_limits \<Rightarrow> channel \<Rightarrow> bool" where
  "channel_ok limits ch =
     (case ch of
        Tcp_channel t \<Rightarrow> tc_queued_bytes t = sum_list (map length (tc_outgoing t))
          \<and> tc_queued_bytes t \<le> max_send_queue_bytes limits \<and> length (tc_outgoing t) \<le> 1024
      | Ws_channel t \<Rightarrow> ws_queued_bytes t = sum_list (map ws_cost (ws_outgoing t))
          \<and> ws_queued_bytes t \<le> max_send_queue_bytes limits \<and> length (ws_outgoing t) \<le> 1024
      | Http_channel t \<Rightarrow> ht_pending_request_id t \<noteq> 0 \<longrightarrow> ht_stage t = Ht_dispatched
      | Udp_channel u \<Rightarrow> up_queued_bytes u = sum_list (map udp_cost (up_send_queue u))
          \<and> up_queued_bytes u \<le> max_send_queue_bytes limits \<and> length (up_send_queue u) \<le> 1024)"

text \<open>Which outstanding read goes with an open session.\<close>

definition read_ok :: "bool \<Rightarrow> channel \<Rightarrow> bool" where
  "read_ok opened ch =
     (case ch of
        Tcp_channel t \<Rightarrow> (case tc_read t of Tcp_idle \<Rightarrow> True | Tcp_handshake \<Rightarrow> \<not> opened | _ \<Rightarrow> opened)
      | Ws_channel t \<Rightarrow> (case ws_read t of Ws_idle \<Rightarrow> True | Ws_message \<Rightarrow> opened | _ \<Rightarrow> \<not> opened)
      | Http_channel t \<Rightarrow> (case ht_stage t of Ht_idle \<Rightarrow> True | Ht_handshake \<Rightarrow> \<not> opened | _ \<Rightarrow> opened)
      | Udp_channel _ \<Rightarrow> True)"

definition conn_ok :: "service_limits \<Rightarrow> connection \<Rightarrow> bool" where
  "conn_ok limits c \<longleftrightarrow> channel_ok limits (cn_channel c) \<and> read_ok (cn_opened c) (cn_channel c)"

definition id_used :: "'a worker \<Rightarrow> u64 \<Rightarrow> bool" where
  "id_used w i \<longleftrightarrow> i \<noteq> 0 \<and> (wc_next_session_id w = 0 \<or> i < wc_next_session_id w)"

text \<open>Callbacks that hear when a session begins and when it ends.\<close>

definition told :: "'a callbacks \<Rightarrow> bool" where
  "told cbs \<longleftrightarrow> cb_open cbs \<noteq> None \<and> cb_close cbs \<noteq> None"

text \<open>
  The invariant has two readings: \<open>pr = False\<close> is about the registry alone, for any callbacks; \<open>pr = True\<close> adds
  that the callbacks hear of sessions and that the calls made to them follow the protocol.
\<close>

definition registry_entry_ok ::
  "bool \<Rightarrow> service_limits \<Rightarrow> u64 \<Rightarrow> bool \<Rightarrow> connection option \<Rightarrow> phase \<Rightarrow> bool" where
  "registry_entry_ok pr limits i used entry ph \<longleftrightarrow>
     (case entry of
        None \<Rightarrow> pr \<longrightarrow> ph \<in> {Fresh, Ended}
      | Some c \<Rightarrow> p_session_id (cn_peer c) = i \<and> conn_ok limits c
          \<and> (pr \<longrightarrow> ph = (if cn_opened c then Live else Fresh)))
     \<and> (\<not> used \<longrightarrow> entry = None \<and> ph = Fresh)"

definition session_ok :: "bool \<Rightarrow> 'a worker \<Rightarrow> u64 \<Rightarrow> bool" where
  "session_ok pr w i \<longleftrightarrow>
     registry_entry_ok pr (wc_limits w) i (id_used w i) (umap_find (wc_connections w) i) (phase_of (wc_trace w) i)"

definition worker_inv :: "bool \<Rightarrow> 'a worker \<Rightarrow> bool" where
  "worker_inv pr w \<longleftrightarrow>
     umap_wf (wc_connections w) \<and> umap_size (wc_connections w) \<le> max_connections (wc_limits w)
     \<and> max_send_queue_bytes (wc_limits w) < W64 \<and> max_message_bytes (wc_limits w) \<le> 16777216
     \<and> (pr \<longrightarrow> told (wc_callbacks w)) \<and> (\<forall>i. session_ok pr w i)"

lemma worker_inv_conn:
  assumes "worker_inv pr w" and "umap_find (wc_connections w) i = Some c"
  shows "p_session_id (cn_peer c) = i" and "conn_ok (wc_limits w) c"
    and "pr \<Longrightarrow> phase_of (wc_trace w) i = (if cn_opened c then Live else Fresh)" and "id_used w i"
  using assms
  by (auto simp: worker_inv_def session_ok_def registry_entry_ok_def split: option.splits dest: spec [of _ i])

lemma worker_inv_none:
  assumes "worker_inv True w" and "umap_find (wc_connections w) i = None"
  shows "phase_of (wc_trace w) i \<in> {Fresh, Ended}"
  using assms
  by (auto simp: worker_inv_def session_ok_def registry_entry_ok_def split: option.splits dest: spec [of _ i])

text \<open>
  A step that changes the registry entry of one session and appends notices of that session only
  has to be checked for that session.
\<close>

lemma worker_inv_local:
  assumes inv: "worker_inv pr w"
    and frame: "wc_limits w' = wc_limits w" "wc_next_session_id w' = wc_next_session_id w" "wc_callbacks w' = wc_callbacks w"
    and others: "\<And>j. j \<noteq> i \<Longrightarrow> umap_find (wc_connections w') j = umap_find (wc_connections w) j"
    and trace: "\<And>j. j \<noteq> i \<Longrightarrow> phase_of (wc_trace w') j = phase_of (wc_trace w) j"
    and wf: "umap_wf (wc_connections w')" "umap_size (wc_connections w') \<le> umap_size (wc_connections w)"
    and one: "session_ok pr w' i"
  shows "worker_inv pr w'"
proof -
  have "session_ok pr w' j" for j
  proof (cases "j = i")
    case False
    have "session_ok pr w j" using inv by (simp add: worker_inv_def)
    then show ?thesis
      using frame False by (simp add: session_ok_def id_used_def others trace)
  qed (use one in simp)
  then show ?thesis
    using inv frame wf by (simp add: worker_inv_def)
qed

lemma worker_inv_cong:
  assumes "wc_limits w' = wc_limits w" and "wc_next_session_id w' = wc_next_session_id w"
    and "wc_connections w' = wc_connections w" and "wc_callbacks w' = wc_callbacks w"
    and "\<And>j. phase_of (wc_trace w') j = phase_of (wc_trace w) j"
  shows "worker_inv pr w' = worker_inv pr w"
  unfolding worker_inv_def session_ok_def id_used_def assms ..

lemma worker_inv_app [simp]: "worker_inv pr (w\<lparr>wc_app := a\<rparr>) = worker_inv pr w"
  by (rule worker_inv_cong) simp_all

lemma worker_inv_udp [simp]: "worker_inv pr (w\<lparr>wc_udp := u\<rparr>) = worker_inv pr w"
  by (rule worker_inv_cong) simp_all

lemma worker_inv_forget [inv_rules]: "worker_inv pr w \<Longrightarrow> worker_inv pr (forget_peer l e w)"
  by (simp add: forget_peer_def split: option.splits)

lemma forget_peer_frame [simp]:
  "wc_connections (forget_peer l e w) = wc_connections w" "wc_trace (forget_peer l e w) = wc_trace w"
  "wc_limits (forget_peer l e w) = wc_limits w" "wc_callbacks (forget_peer l e w) = wc_callbacks w"
  "wc_next_session_id (forget_peer l e w) = wc_next_session_id w"
  "wc_stopping (forget_peer l e w) = wc_stopping w"
  "wc_next_http_request_id (forget_peer l e w) = wc_next_http_request_id w"
  by (simp_all add: forget_peer_def split: option.splits)

lemma worker_inv_error [inv_rules]: "worker_inv pr w \<Longrightarrow> worker_inv pr (report_error l m w)"
  by (subst worker_inv_cong [of _ w]) (simp_all add: report_error_def phase_step_def notice_session_def split: option.split)

lemma report_error_frame [simp]:
  "wc_connections (report_error l m w) = wc_connections w" "wc_limits (report_error l m w) = wc_limits w"
  "wc_next_session_id (report_error l m w) = wc_next_session_id w" "wc_udp (report_error l m w) = wc_udp w"
  "wc_stopping (report_error l m w) = wc_stopping w" "wc_callbacks (report_error l m w) = wc_callbacks w"
  "wc_next_http_request_id (report_error l m w) = wc_next_http_request_id w"
  by (simp_all add: report_error_def split: option.split)

section \<open>Closing\<close>

lemma worker_inv_told: "worker_inv True w \<Longrightarrow> told (wc_callbacks w)"
  by (simp add: worker_inv_def)

lemma worker_inv_remove [inv_rules]:
  assumes inv: "worker_inv pr w" and f: "umap_find (wc_connections w) i = Some c"
  shows "worker_inv pr (remove_connection (cn_peer c) (cn_opened c) w)"
proof -
  note c = worker_inv_conn [OF inv f]
  have wf: "umap_wf (wc_connections w)" and heard: "pr \<longrightarrow> told (wc_callbacks w)" using inv by (simp_all add: worker_inv_def)
  show ?thesis
    by (rule worker_inv_local [OF inv, of _ i])
      (use c f wf heard umap.size_erase_le [OF wf] in \<open>auto simp: remove_connection_def Let_def umap.wf_erase told_def
        phase_step_def notice_session_def session_ok_def id_used_def registry_entry_ok_def split: option.splits\<close>)
qed

lemma worker_inv_close [inv_rules]: "worker_inv pr w \<Longrightarrow> worker_inv pr (conn_close i w)"
  by (auto simp: conn_close_def Let_def split: option.splits channel.splits
      intro!: worker_inv_remove [of _ _ i] worker_inv_forget)

lemma find_close [simp]:
  assumes "worker_inv pr w"
  shows "umap_find (wc_connections (conn_close i w)) j = (if j = i then None else umap_find (wc_connections w) j)"
proof (cases "umap_find (wc_connections w) i")
  case (Some c)
  have "p_session_id (cn_peer c) = i"
    using worker_inv_conn(1) [OF assms Some] .
  then show ?thesis
    using Some by (auto simp: conn_close_def remove_connection_def Let_def split: channel.splits option.splits)
qed (simp add: conn_close_def)

lemma worker_inv_reject [inv_rules]: "worker_inv pr w \<Longrightarrow> worker_inv pr (conn_reject i r w)"
  by (auto simp: conn_reject_def split: option.splits intro!: inv_rules)

lemma worker_inv_fail [inv_rules]: "worker_inv pr w \<Longrightarrow> worker_inv pr (conn_fail i e r w)"
  by (auto simp: conn_fail_def split: option.splits io_error.splits intro!: inv_rules)

section \<open>Changing a live connection\<close>

lemma worker_inv_set [inv_rules]:
  assumes inv: "worker_inv pr w" and f: "umap_find (wc_connections w) i = Some c"
    and c': "cn_peer c' = cn_peer c" "cn_opened c' = cn_opened c" "conn_ok (wc_limits w) c'"
  shows "worker_inv pr (set_connection i c' w)"
proof -
  note c = worker_inv_conn [OF inv f]
  have wf: "umap_wf (wc_connections w)" using inv by (simp add: worker_inv_def)
  show ?thesis
    by (rule worker_inv_local [OF inv, of _ i])
      (use c c' f wf umap.size_assign_old [OF wf f] in \<open>auto simp: set_connection_def umap.wf_assign
        session_ok_def id_used_def registry_entry_ok_def\<close>)
qed

lemma worker_inv_arm [inv_rules]: "worker_inv pr w \<Longrightarrow> worker_inv pr (arm_deadline i w)"
  by (auto simp: arm_deadline_def conn_ok_def split: option.splits dest: worker_inv_conn(2)
      intro!: worker_inv_set)

lemma worker_inv_deadlines [inv_rules]:
  "worker_inv pr w \<Longrightarrow> worker_inv pr (begin_handshake_deadline i w)"
  "worker_inv pr w \<Longrightarrow> worker_inv pr (touch_idle_deadline i w)"
  by (simp_all add: begin_handshake_deadline_def touch_idle_deadline_def worker_inv_arm)

lemma worker_inv_expired [inv_rules]: "worker_inv pr w \<Longrightarrow> worker_inv pr (deadline_expired i g b w)"
  by (auto simp: deadline_expired_def split: option.splits intro!: inv_rules)

lemma worker_inv_channel [inv_rules]:
  assumes "worker_inv pr w"
    and "\<And>c. umap_find (wc_connections w) i = Some c \<Longrightarrow> channel_ok (wc_limits w) ch \<and> read_ok (cn_opened c) ch"
  shows "worker_inv pr (set_channel i ch w)"
  using assms by (auto simp: set_channel_def conn_ok_def split: option.splits intro!: worker_inv_set)

lemma find_channel [simp]:
  "umap_find (wc_connections (set_channel i ch w)) j =
     (if j = i then map_option (\<lambda>c. c\<lparr>cn_channel := ch\<rparr>) (umap_find (wc_connections w) i)
      else umap_find (wc_connections w) j)"
  by (auto simp: set_channel_def set_connection_def split: option.splits)

lemma set_channel_frame [simp]:
  "wc_limits (set_channel i ch w) = wc_limits w" "wc_trace (set_channel i ch w) = wc_trace w"
  "wc_stopping (set_channel i ch w) = wc_stopping w" "wc_udp (set_channel i ch w) = wc_udp w"
  "wc_next_session_id (set_channel i ch w) = wc_next_session_id w"
  "wc_next_http_request_id (set_channel i ch w) = wc_next_http_request_id w"
  by (simp_all add: set_channel_def set_connection_def split: option.splits)

lemma find_arm [simp]:
  "umap_find (wc_connections (arm_deadline i w)) j =
     (if j = i then map_option (\<lambda>c. c\<lparr>cn_deadline_generation := cn_deadline_generation c + 1\<rparr>)
        (umap_find (wc_connections w) i)
      else umap_find (wc_connections w) j)"
  by (auto simp: arm_deadline_def set_connection_def split: option.splits)

lemma arm_frame [simp]:
  "wc_limits (arm_deadline i w) = wc_limits w" "wc_trace (arm_deadline i w) = wc_trace w"
  "wc_stopping (arm_deadline i w) = wc_stopping w" "wc_udp (arm_deadline i w) = wc_udp w"
  "wc_next_session_id (arm_deadline i w) = wc_next_session_id w"
  "wc_next_http_request_id (arm_deadline i w) = wc_next_http_request_id w"
  by (simp_all add: arm_deadline_def set_connection_def split: option.splits)

section \<open>Publishing\<close>

text \<open>Appending a notice of a session in the right phase; \<open>w'\<close> differs in the trace and the application.\<close>

lemma notify_frame [simp]:
  "wc_connections (fst (notify_open p w)) = wc_connections w" "wc_limits (fst (notify_open p w)) = wc_limits w"
  "wc_next_session_id (fst (notify_open p w)) = wc_next_session_id w"
  "wc_trace (fst (notify_open p w)) = wc_trace w @
     (if cb_open (wc_callbacks w) = None then [] else [N_Open p (snd (notify_open p w))])"
  "wc_udp (fst (notify_open p w)) = wc_udp w" "wc_stopping (fst (notify_open p w)) = wc_stopping w"
  "wc_connections (fst (notify_message p b w)) = wc_connections w"
  "wc_limits (fst (notify_message p b w)) = wc_limits w"
  "wc_next_session_id (fst (notify_message p b w)) = wc_next_session_id w"
  "wc_trace (fst (notify_message p b w)) = wc_trace w @
     (if cb_message (wc_callbacks w) = None then [] else [N_Message p b (snd (notify_message p b w))])"
  "wc_udp (fst (notify_message p b w)) = wc_udp w" "wc_stopping (fst (notify_message p b w)) = wc_stopping w"
  "wc_connections (fst (notify_http_request p b w)) = wc_connections w"
  "wc_limits (fst (notify_http_request p b w)) = wc_limits w"
  "wc_next_session_id (fst (notify_http_request p b w)) = wc_next_session_id w"
  "wc_trace (fst (notify_http_request p b w)) = wc_trace w @
     (if cb_http_request (wc_callbacks w) = None then [] else [N_Http_request p b (snd (notify_http_request p b w))])"
  "wc_udp (fst (notify_http_request p b w)) = wc_udp w"
  "wc_stopping (fst (notify_http_request p b w)) = wc_stopping w"
  "wc_callbacks (fst (notify_open p w)) = wc_callbacks w" "wc_callbacks (fst (notify_message p b w)) = wc_callbacks w"
  "wc_callbacks (fst (notify_http_request p b w)) = wc_callbacks w"
  by (simp_all add: notify_open_def notify_message_def notify_http_request_def case_prod_beta Let_def split: option.split)

lemma worker_inv_notify_message [inv_rules]:
  assumes "worker_inv pr w" and "umap_find (wc_connections w) i = Some c" and "cn_opened c"
  shows "worker_inv pr (fst (notify_message (cn_peer c) b w))"
    and "worker_inv pr (fst (notify_http_request (cn_peer c) b w))"
proof -
  note c = worker_inv_conn [OF assms(1,2)]
  have wf: "umap_wf (wc_connections w)" using assms(1) by (simp add: worker_inv_def)
  show "worker_inv pr (fst (notify_message (cn_peer c) b w))"
    by (rule worker_inv_local [OF assms(1), of _ i])
      (use c assms(2,3) wf in \<open>auto simp: phase_step_def notice_session_def session_ok_def id_used_def registry_entry_ok_def\<close>)
  show "worker_inv pr (fst (notify_http_request (cn_peer c) b w))"
    by (rule worker_inv_local [OF assms(1), of _ i])
      (use c assms(2,3) wf in \<open>auto simp: phase_step_def notice_session_def session_ok_def id_used_def registry_entry_ok_def\<close>)
qed

lemma publish_message_spec:
  assumes inv: "worker_inv pr w" and f: "umap_find (wc_connections w) i = Some c" and o: "cn_opened c"
  shows "worker_inv pr (fst (publish_message i b w))"
    and "snd (publish_message i b w) \<Longrightarrow> umap_find (wc_connections (fst (publish_message i b w))) i =
      Some (c\<lparr>cn_deadline_generation := cn_deadline_generation c + 1\<rparr>)"
    and "wc_limits (fst (publish_message i b w)) = wc_limits w"
proof -
  obtain w1 ok where n: "notify_message (cn_peer c) b w = (w1, ok)"
    by (cases "notify_message (cn_peer c) b w")
  have w1: "worker_inv pr w1" "wc_connections w1 = wc_connections w" "wc_limits w1 = wc_limits w"
    using worker_inv_notify_message(1) [OF inv f o, of b] notify_frame(7,8) [of "cn_peer c" b w] n by simp_all
  show "worker_inv pr (fst (publish_message i b w))"
    using w1 by (simp add: publish_message_def f n worker_inv_close worker_inv_deadlines)
  show "snd (publish_message i b w) \<Longrightarrow> umap_find (wc_connections (fst (publish_message i b w))) i =
      Some (c\<lparr>cn_deadline_generation := cn_deadline_generation c + 1\<rparr>)"
    using w1 f by (auto simp: publish_message_def n touch_idle_deadline_def split: if_splits)
  show "wc_limits (fst (publish_message i b w)) = wc_limits w"
    using w1 by (simp add: publish_message_def f n touch_idle_deadline_def conn_close_def
        remove_connection_def Let_def split: option.splits channel.splits)
qed

text \<open>Publishing the open notification of a session that is not open.\<close>

lemma publish_open_spec:
  assumes inv: "worker_inv pr w" and f: "umap_find (wc_connections w) i = Some c" and o: "\<not> cn_opened c"
    and r: "read_ok True (cn_channel c)"
  shows "worker_inv pr (fst (publish_open i w))"
    and "snd (publish_open i w) \<Longrightarrow> umap_find (wc_connections (fst (publish_open i w))) i =
      Some (c\<lparr>cn_opened := True, cn_deadline_generation := cn_deadline_generation c + 1\<rparr>)"
    and "wc_limits (fst (publish_open i w)) = wc_limits w"
proof -
  note c = worker_inv_conn [OF inv f]
  have wf: "umap_wf (wc_connections w)" and heard: "pr \<Longrightarrow> cb_open (wc_callbacks w) \<noteq> None"
    using inv by (simp_all add: worker_inv_def told_def)
  obtain w1 ok where n: "notify_open (cn_peer c) w = (w1, ok)"
    by (cases "notify_open (cn_peer c) w")
  have w1: "wc_connections w1 = wc_connections w" "wc_limits w1 = wc_limits w"
    "wc_next_session_id w1 = wc_next_session_id w" "wc_callbacks w1 = wc_callbacks w"
    "wc_trace w1 = wc_trace w @ (if cb_open (wc_callbacks w) = None then [] else [N_Open (cn_peer c) ok])"
    using notify_frame(1-4) [of "cn_peer c" w] notify_frame(19) [of "cn_peer c" w] n by simp_all
  have tr: "j \<noteq> i \<Longrightarrow> phase_of (wc_trace w1) j = phase_of (wc_trace w) j"
    "pr \<Longrightarrow> phase_of (wc_trace w1) i = (if ok then Live else Ended)" for j
    using c(1,3) o heard by (auto simp: w1 phase_step_def notice_session_def)
  have opened: "worker_inv pr (set_connection i (c\<lparr>cn_opened := True\<rparr>) w1)" if "ok"
    by (rule worker_inv_local [OF inv, of _ i])
      (use c f wf r that umap.size_assign_old [OF wf f] in \<open>auto simp: set_connection_def w1(1-4) tr
        umap.wf_assign session_ok_def id_used_def registry_entry_ok_def conn_ok_def\<close>)
  have refused: "worker_inv pr (conn_close i w1)" if "\<not> ok"
    by (rule worker_inv_local [OF inv, of _ i])
      (use c f wf o that umap.size_erase_le [OF wf] in \<open>auto simp: conn_close_def remove_connection_def w1(1-4) tr
        Let_def umap.wf_erase session_ok_def id_used_def registry_entry_ok_def split: channel.splits\<close>)
  show "worker_inv pr (fst (publish_open i w))"
    using opened refused by (simp add: publish_open_def f n worker_inv_deadlines)
  show "snd (publish_open i w) \<Longrightarrow> umap_find (wc_connections (fst (publish_open i w))) i =
      Some (c\<lparr>cn_opened := True, cn_deadline_generation := cn_deadline_generation c + 1\<rparr>)"
    using w1 f by (auto simp: publish_open_def n touch_idle_deadline_def set_connection_def split: if_splits)
  show "wc_limits (fst (publish_open i w)) = wc_limits w"
    using w1 by (simp add: publish_open_def f n touch_idle_deadline_def conn_close_def set_connection_def
        remove_connection_def Let_def split: option.splits channel.splits)
qed

section \<open>Admission\<close>

lemma worker_inv_allocate [inv_rules]: "worker_inv pr w \<Longrightarrow> worker_inv pr (fst (allocate_session_id w))"
proof -
  assume inv: "worker_inv pr w"
  have "session_ok pr (fst (allocate_session_id w)) i" for i
  proof -
    have "session_ok pr w i" using inv by (simp add: worker_inv_def)
    moreover have "\<not> id_used (fst (allocate_session_id w)) i \<Longrightarrow> \<not> id_used w i"
      using word_less_inc [of "wc_next_session_id w"]
      by (auto simp: id_used_def allocate_session_id_def add_eq_0_iff2 split: if_splits dest: less_trans)
    moreover have "wc_connections (fst (allocate_session_id w)) = wc_connections w"
      "wc_trace (fst (allocate_session_id w)) = wc_trace w" "wc_limits (fst (allocate_session_id w)) = wc_limits w"
      by (simp_all add: allocate_session_id_def)
    ultimately show ?thesis
      by (auto simp: session_ok_def registry_entry_ok_def)
  qed
  then show ?thesis
    using inv by (simp add: worker_inv_def allocate_session_id_def)
qed

lemma allocate_session_fresh:
  assumes inv: "worker_inv pr w" and a: "allocate_session_id w = (w', i)" and "i \<noteq> 0"
  shows "umap_find (wc_connections w') i = None" and "phase_of (wc_trace w') i = Fresh" and "id_used w' i"
    and "wc_connections w' = wc_connections w" "wc_limits w' = wc_limits w" "wc_stopping w' = wc_stopping w"
proof -
  have i: "i = wc_next_session_id w" and w': "w' = w\<lparr>wc_next_session_id := wc_next_session_id w + 1\<rparr>"
    using a assms(3) by (auto simp: allocate_session_id_def split: if_splits)
  have "\<not> id_used w i" using i assms(3) by (simp add: id_used_def)
  then have "umap_find (wc_connections w) i = None \<and> phase_of (wc_trace w) i = Fresh"
    using inv by (simp add: worker_inv_def session_ok_def registry_entry_ok_def)
  then show "umap_find (wc_connections w') i = None" "phase_of (wc_trace w') i = Fresh"
    by (simp_all add: w')
  show "id_used w' i"
    using assms(3) word_less_inc [of i] by (auto simp: id_used_def w' i add_eq_0_iff2)
  show "wc_connections w' = wc_connections w" "wc_limits w' = wc_limits w" "wc_stopping w' = wc_stopping w"
    by (simp_all add: w')
qed

lemma add_connection_spec:
  assumes inv: "worker_inv pr w" and "p_session_id (cn_peer c) = i" and "id_used w i"
    and "umap_find (wc_connections w) i = None" and "phase_of (wc_trace w) i = Fresh"
    and "\<not> cn_opened c" and "conn_ok (wc_limits w) c"
  shows "worker_inv pr (fst (add_connection c w))"
    and "snd (add_connection c w) \<Longrightarrow> umap_find (wc_connections (fst (add_connection c w))) i = Some c"
    and "\<not> snd (add_connection c w) \<Longrightarrow> fst (add_connection c w) = w"
    and "wc_limits (fst (add_connection c w)) = wc_limits w"
proof -
  have wf: "umap_wf (wc_connections w)" using inv by (simp add: worker_inv_def)
  have ok: "session_ok pr w j" for j using inv by (simp add: worker_inv_def)
  show "worker_inv pr (fst (add_connection c w))"
  proof (cases "snd (add_connection c w)")
    case True
    let ?w = "w\<lparr>wc_connections := umap_assign i c (wc_connections w)\<rparr>"
    have e: "fst (add_connection c w) = ?w" and room: "umap_size (wc_connections w) < max_connections (wc_limits w)"
      using True assms(2,4) by (auto simp: add_connection_def umap_emplace_def split: if_splits)
    have "session_ok pr ?w j" for j
      using ok [of j] assms by (cases "j = i") (auto simp: session_ok_def id_used_def registry_entry_ok_def)
    then show ?thesis
      using inv room assms(4) by (simp add: e worker_inv_def umap.wf_assign umap.size_assign_new)
  qed (use inv assms(2,4) in \<open>auto simp: add_connection_def umap_emplace_def split: if_splits\<close>)
  show "snd (add_connection c w) \<Longrightarrow> umap_find (wc_connections (fst (add_connection c w))) i = Some c"
    "\<not> snd (add_connection c w) \<Longrightarrow> fst (add_connection c w) = w"
    "wc_limits (fst (add_connection c w)) = wc_limits w"
    using assms(2,4) by (auto simp: add_connection_def umap_emplace_def split: if_splits)
qed

end
