(* ===== verification/Stream_Connections.thy ===== *)
theory Stream_Connections
  imports Session_Protocol
begin

text \<open>
  \<^verbatim>\<open>TcpConnection\<close> and \<^verbatim>\<open>WebSocketConnection\<close> (src/src/Net/Async/TcpConnection.h,
  WebSocketConnection.h): one definition per operation and per completion handler. A handler runs
  only while its operation is outstanding (the read state of the channel; a write is outstanding
  while the outgoing queue is not empty). The results of \<^verbatim>\<open>asio\<close> and of \<^verbatim>\<open>beast\<close>, which parses the WebSocket
  protocol, are arguments. \<^verbatim>\<open>asio\<close> reads and writes exactly the bytes asked for or fails, so a completion
  of \<^verbatim>\<open>async_read\<close> with another number of bytes does not exist and is ignored.
\<close>

unbundle bit_operations_syntax

section \<open>TCP framing\<close>

definition tcp_frame :: "buffer \<Rightarrow> bytes" where
  "tcp_frame message =
     (let len = of_nat (buffer_size message) :: u32
      in [ucast (drop_bit 24 len), ucast (drop_bit 16 len), ucast (drop_bit 8 len), ucast len]
         @ buf_bytes message)"

definition tcp_length :: "bytes \<Rightarrow> u32" where
  "tcp_length h =
     push_bit 24 (ucast (h ! 0)) OR push_bit 16 (ucast (h ! 1)) OR push_bit 8 (ucast (h ! 2)) OR ucast (h ! 3)"

section \<open>TCP connections\<close>

definition tcp_channel :: "u64 \<Rightarrow> 'a worker \<Rightarrow> (connection \<times> tcp_part) option" where
  "tcp_channel i w =
     (case umap_find (wc_connections w) i of
        None \<Rightarrow> None
      | Some c \<Rightarrow> (case cn_channel c of Tcp_channel t \<Rightarrow> Some (c, t) | _ \<Rightarrow> None))"

definition tcp_begin_messages :: "u64 \<Rightarrow> tcp_part \<Rightarrow> 'a worker \<Rightarrow> 'a worker" where
  "tcp_begin_messages i t w =
     (let (w1, ok) = publish_open i w
      in if ok then set_channel i (Tcp_channel (t\<lparr>tc_read := Tcp_header\<rparr>)) w1 else w1)"

definition tcp_start :: "u64 \<Rightarrow> 'a worker \<Rightarrow> 'a worker" where
  "tcp_start i w =
     (case tcp_channel i w of
        None \<Rightarrow> w
      | Some (c, t) \<Rightarrow>
          if tc_tls t
          then set_channel i (Tcp_channel (t\<lparr>tc_read := Tcp_handshake\<rparr>)) (begin_handshake_deadline i w)
          else tcp_begin_messages i t w)"

definition tcp_on_handshake :: "u64 \<Rightarrow> io_error option \<Rightarrow> 'a worker \<Rightarrow> 'a worker" where
  "tcp_on_handshake i error w =
     (case tcp_channel i w of
        None \<Rightarrow> w
      | Some (c, t) \<Rightarrow>
          if tc_read t \<noteq> Tcp_handshake then w
          else (case error of
                  Some e \<Rightarrow> conn_fail i e ''TLS handshake'' w
                | None \<Rightarrow>
                    tcp_begin_messages i t (set_channel i (Tcp_channel (t\<lparr>tc_read := Tcp_idle\<rparr>)) w)))"

definition tcp_on_header :: "u64 \<Rightarrow> io_error + bytes \<Rightarrow> 'a worker \<Rightarrow> 'a worker" where
  "tcp_on_header i result w =
     (case tcp_channel i w of
        None \<Rightarrow> w
      | Some (c, t) \<Rightarrow>
          if tc_read t \<noteq> Tcp_header then w
          else (case result of
                  Inl e \<Rightarrow> conn_fail i e ''TCP read header'' w
                | Inr h \<Rightarrow>
                    if length h \<noteq> 4 then w
                    else if unat (tcp_length h) > max_message_bytes (wc_limits w)
                    then conn_reject i ''TCP frame exceeds the configured size limit'' w
                    else set_channel i (Tcp_channel (t\<lparr>tc_read := Tcp_body (unat (tcp_length h))\<rparr>)) w))"

definition tcp_on_body :: "u64 \<Rightarrow> io_error + bytes \<Rightarrow> 'a worker \<Rightarrow> 'a worker" where
  "tcp_on_body i result w =
     (case tcp_channel i w of
        None \<Rightarrow> w
      | Some (c, t) \<Rightarrow>
          (case tc_read t of
             Tcp_body n \<Rightarrow>
               (case result of
                  Inl e \<Rightarrow> conn_fail i e ''TCP read payload'' w
                | Inr payload \<Rightarrow>
                    if length payload \<noteq> n then w
                    else
                      (let (w1, ok) = publish_message i (Buffer_of_vector payload) w
                       in if ok then set_channel i (Tcp_channel (t\<lparr>tc_read := Tcp_header\<rparr>)) w1 else w1))
           | _ \<Rightarrow> w))"

definition tcp_send :: "u64 \<Rightarrow> buffer \<Rightarrow> 'a worker \<Rightarrow> 'a worker \<times> unit res" where
  "tcp_send i message w =
     (case tcp_channel i w of
        None \<Rightarrow> (w, Inl ''Session is not open'')
      | Some (c, t) \<Rightarrow>
          (let wire_size = add64 (buffer_size message) 4 in
           if \<not> cn_opened c then (w, Inl ''Session is not open'')
           else if buffer_size message > max_message_bytes (wc_limits w)
           then (w, Inl ''Message exceeds the configured size limit'')
           else if length (tc_outgoing t) \<ge> 1024 \<or> wire_size > max_send_queue_bytes (wc_limits w)
              \<or> tc_queued_bytes t > sub64 (max_send_queue_bytes (wc_limits w)) wire_size
           then (w, Inl ''Session send queue is full'')
           else (set_channel i (Tcp_channel (t\<lparr>tc_outgoing := tc_outgoing t @ [tcp_frame message],
                   tc_queued_bytes := add64 (tc_queued_bytes t) wire_size\<rparr>)) w, Inr ())))"

definition tcp_on_write :: "u64 \<Rightarrow> io_error option \<Rightarrow> 'a worker \<Rightarrow> 'a worker" where
  "tcp_on_write i error w =
     (case tcp_channel i w of
        None \<Rightarrow> w
      | Some (c, t) \<Rightarrow>
          (case tc_outgoing t of
             [] \<Rightarrow> w
           | frame # rest \<Rightarrow>
               (case error of
                  Some e \<Rightarrow> conn_fail i e ''TCP write'' w
                | None \<Rightarrow>
                    touch_idle_deadline i
                      (set_channel i (Tcp_channel (t\<lparr>tc_queued_bytes := sub64 (tc_queued_bytes t) (length frame),
                         tc_outgoing := rest\<rparr>)) w))))"

section \<open>WebSocket connections\<close>

definition ws_channel :: "u64 \<Rightarrow> 'a worker \<Rightarrow> (connection \<times> ws_part) option" where
  "ws_channel i w =
     (case umap_find (wc_connections w) i of
        None \<Rightarrow> None
      | Some c \<Rightarrow> (case cn_channel c of Ws_channel t \<Rightarrow> Some (c, t) | _ \<Rightarrow> None))"

definition ws_start :: "u64 \<Rightarrow> 'a worker \<Rightarrow> 'a worker" where
  "ws_start i w =
     (case ws_channel i w of
        None \<Rightarrow> w
      | Some (c, t) \<Rightarrow>
          set_channel i (Ws_channel (t\<lparr>ws_read := (if ws_tls t then Ws_handshake else Ws_upgrade)\<rparr>))
            (begin_handshake_deadline i w))"

definition ws_on_handshake :: "u64 \<Rightarrow> io_error option \<Rightarrow> 'a worker \<Rightarrow> 'a worker" where
  "ws_on_handshake i error w =
     (case ws_channel i w of
        None \<Rightarrow> w
      | Some (c, t) \<Rightarrow>
          if ws_read t \<noteq> Ws_handshake then w
          else (case error of
                  Some e \<Rightarrow> conn_fail i e ''WSS TLS handshake'' w
                | None \<Rightarrow> set_channel i (Ws_channel (t\<lparr>ws_read := Ws_upgrade\<rparr>)) w))"

text \<open>The parsed upgrade request: whether it asks for a WebSocket upgrade, and its target.\<close>

definition ws_on_upgrade :: "u64 \<Rightarrow> io_error + (bool \<times> string) \<Rightarrow> 'a worker \<Rightarrow> 'a worker" where
  "ws_on_upgrade i result w =
     (case ws_channel i w of
        None \<Rightarrow> w
      | Some (c, t) \<Rightarrow>
          if ws_read t \<noteq> Ws_upgrade then w
          else (case result of
                  Inl e \<Rightarrow> conn_fail i e ''WebSocket upgrade headers'' w
                | Inr (is_upgrade, target) \<Rightarrow>
                    if \<not> is_upgrade then conn_reject i ''Invalid WebSocket upgrade request'' w
                    else if target \<noteq> lc_websocket_path (cn_config c)
                    then conn_reject i ''WebSocket path does not match the configured endpoint'' w
                    else set_channel i (Ws_channel (t\<lparr>ws_read := Ws_accept\<rparr>)) w))"

definition ws_on_accept :: "u64 \<Rightarrow> io_error option \<Rightarrow> 'a worker \<Rightarrow> 'a worker" where
  "ws_on_accept i error w =
     (case ws_channel i w of
        None \<Rightarrow> w
      | Some (c, t) \<Rightarrow>
          if ws_read t \<noteq> Ws_accept then w
          else (case error of
                  Some e \<Rightarrow> conn_fail i e ''WebSocket upgrade'' w
                | None \<Rightarrow>
                    (let (w1, ok) = publish_open i (set_channel i (Ws_channel (t\<lparr>ws_read := Ws_idle\<rparr>)) w)
                     in if ok then set_channel i (Ws_channel (t\<lparr>ws_read := Ws_message\<rparr>)) w1 else w1)))"

text \<open>A completed read: the peer closed, an error, or a message with its text flag.\<close>

datatype ws_result = Ws_closed | Ws_error io_error | Ws_data bool bytes

definition ws_on_message :: "u64 \<Rightarrow> ws_result \<Rightarrow> 'a worker \<Rightarrow> 'a worker" where
  "ws_on_message i result w =
     (case ws_channel i w of
        None \<Rightarrow> w
      | Some (c, t) \<Rightarrow>
          if ws_read t \<noteq> Ws_message then w
          else (case result of
                  Ws_closed \<Rightarrow> conn_close i w
                | Ws_error e \<Rightarrow> conn_fail i e ''WebSocket read'' w
                | Ws_data got_text payload \<Rightarrow>
                    if got_text then conn_reject i ''This endpoint accepts binary WebSocket messages only'' w
                    else fst (publish_message i (Buffer_of_vector payload) w)))"

definition ws_send :: "u64 \<Rightarrow> buffer \<Rightarrow> 'a worker \<Rightarrow> 'a worker \<times> unit res" where
  "ws_send i message w =
     (case ws_channel i w of
        None \<Rightarrow> (w, Inl ''Session is not open'')
      | Some (c, t) \<Rightarrow>
          (let cost = add64 (buffer_size message) 16 in
           if \<not> cn_opened c then (w, Inl ''Session is not open'')
           else if buffer_size message > max_message_bytes (wc_limits w)
           then (w, Inl ''Message exceeds the configured size limit'')
           else if length (ws_outgoing t) \<ge> 1024 \<or> cost > max_send_queue_bytes (wc_limits w)
              \<or> ws_queued_bytes t > sub64 (max_send_queue_bytes (wc_limits w)) cost
           then (w, Inl ''Session send queue is full'')
           else (set_channel i (Ws_channel (t\<lparr>ws_outgoing := ws_outgoing t @ [message],
                   ws_queued_bytes := add64 (ws_queued_bytes t) cost\<rparr>)) w, Inr ())))"

definition ws_on_write :: "u64 \<Rightarrow> io_error option \<Rightarrow> 'a worker \<Rightarrow> 'a worker" where
  "ws_on_write i error w =
     (case ws_channel i w of
        None \<Rightarrow> w
      | Some (c, t) \<Rightarrow>
          (case ws_outgoing t of
             [] \<Rightarrow> w
           | payload # rest \<Rightarrow>
               (case error of
                  Some e \<Rightarrow> conn_fail i e ''WebSocket write'' w
                | None \<Rightarrow>
                    touch_idle_deadline i
                      (set_channel i (Ws_channel (t\<lparr>ws_queued_bytes :=
                           sub64 (ws_queued_bytes t) (add64 (buffer_size payload) 16),
                         ws_outgoing := rest\<rparr>)) w))))"

section \<open>Invariant\<close>

lemma tcp_channelD:
  "tcp_channel i w = Some (c, t) \<Longrightarrow> umap_find (wc_connections w) i = Some c \<and> cn_channel c = Tcp_channel t"
  by (auto simp: tcp_channel_def split: option.splits channel.splits)

lemma ws_channelD:
  "ws_channel i w = Some (c, t) \<Longrightarrow> umap_find (wc_connections w) i = Some c \<and> cn_channel c = Ws_channel t"
  by (auto simp: ws_channel_def split: option.splits channel.splits)

text \<open>What the invariant says of a live TCP or WebSocket connection.\<close>

lemma tcp_channel_inv:
  assumes "worker_inv pr w" and "tcp_channel i w = Some (c, t)"
  shows "umap_find (wc_connections w) i = Some c" and "channel_ok (wc_limits w) (Tcp_channel t)"
    and "read_ok (cn_opened c) (Tcp_channel t)"
  using tcp_channelD [OF assms(2)] worker_inv_conn(2) [OF assms(1), of i c] by (auto simp: conn_ok_def)

lemma ws_channel_inv:
  assumes "worker_inv pr w" and "ws_channel i w = Some (c, t)"
  shows "umap_find (wc_connections w) i = Some c" and "channel_ok (wc_limits w) (Ws_channel t)"
    and "read_ok (cn_opened c) (Ws_channel t)"
  using ws_channelD [OF assms(2)] worker_inv_conn(2) [OF assms(1), of i c] by (auto simp: conn_ok_def)

text \<open>Opening: publish, then start reading; \<open>ch\<close> is the channel with the first read outstanding.\<close>

lemma worker_inv_open:
  assumes inv: "worker_inv pr w" and f: "umap_find (wc_connections w) i = Some c" and o: "\<not> cn_opened c"
    and r: "read_ok True (cn_channel c)" and ch: "channel_ok (wc_limits w) ch" "read_ok True ch"
  shows "worker_inv pr (if snd (publish_open i w) then set_channel i ch (fst (publish_open i w))
      else fst (publish_open i w))"
  using publish_open_spec [OF inv f o r] ch by (auto intro!: worker_inv_channel)

lemma worker_inv_deliver:
  assumes inv: "worker_inv pr w" and f: "umap_find (wc_connections w) i = Some c" and o: "cn_opened c"
    and ch: "channel_ok (wc_limits w) ch" "read_ok True ch"
  shows "worker_inv pr (if snd (publish_message i b w) then set_channel i ch (fst (publish_message i b w))
      else fst (publish_message i b w))"
  using publish_message_spec [OF inv f o, of b] ch o by (auto intro!: worker_inv_channel)

lemma find_deadlines [simp]:
  "umap_find (wc_connections (begin_handshake_deadline i w)) j = umap_find (wc_connections (arm_deadline i w)) j"
  "umap_find (wc_connections (touch_idle_deadline i w)) j = umap_find (wc_connections (arm_deadline i w)) j"
  "wc_limits (begin_handshake_deadline i w) = wc_limits w" "wc_limits (touch_idle_deadline i w) = wc_limits w"
  by (simp_all add: begin_handshake_deadline_def touch_idle_deadline_def)

lemma read_ok_simps [simp]:
  "read_ok b (Tcp_channel t) = (case tc_read t of Tcp_idle \<Rightarrow> True | Tcp_handshake \<Rightarrow> \<not> b | _ \<Rightarrow> b)"
  "read_ok b (Ws_channel v) = (case ws_read v of Ws_idle \<Rightarrow> True | Ws_message \<Rightarrow> b | _ \<Rightarrow> \<not> b)"
  "read_ok b (Udp_channel u)"
  by (simp_all add: read_ok_def)

lemma channel_ok_read [simp]:
  "channel_ok limits (Tcp_channel (t\<lparr>tc_read := r\<rparr>)) = channel_ok limits (Tcp_channel t)"
  "channel_ok limits (Ws_channel (v\<lparr>ws_read := q\<rparr>)) = channel_ok limits (Ws_channel v)"
  by (simp_all add: channel_ok_def)

lemma tcp_begin_inv:
  assumes "worker_inv pr w" and "umap_find (wc_connections w) i = Some c" and "\<not> cn_opened c"
    and "read_ok True (cn_channel c)" and "channel_ok (wc_limits w) (Tcp_channel t)"
  shows "worker_inv pr (tcp_begin_messages i t w)"
  using worker_inv_open [OF assms(1-4), of "Tcp_channel (t\<lparr>tc_read := Tcp_header\<rparr>)"] assms(5)
  by (simp add: tcp_begin_messages_def case_prod_beta Let_def)

lemma tcp_start_inv:
  assumes "worker_inv pr w" and "umap_find (wc_connections w) i = Some c" and "cn_channel c = Tcp_channel t"
    and "\<not> cn_opened c" and "tc_read t = Tcp_idle"
  shows "worker_inv pr (tcp_start i w)"
proof -
  have t: "tcp_channel i w = Some (c, t)"
    using assms by (simp add: tcp_channel_def)
  note ok = tcp_channel_inv [OF assms(1) t]
  have b: "worker_inv pr (tcp_begin_messages i t w)"
    using assms(3,5) ok(2) by (intro tcp_begin_inv [OF assms(1,2,4)]) simp_all
  have "worker_inv pr (set_channel i (Tcp_channel (t\<lparr>tc_read := Tcp_handshake\<rparr>)) (begin_handshake_deadline i w))"
    using assms ok by (intro worker_inv_channel inv_rules) auto
  with b show ?thesis
    by (simp add: tcp_start_def t)
qed

lemma tcp_handshake_inv [inv_rules]: "worker_inv pr w \<Longrightarrow> worker_inv pr (tcp_on_handshake i e w)"
proof (cases "tcp_channel i w")
  case (Some ct)
  assume inv: "worker_inv pr w"
  obtain c t where t: "tcp_channel i w = Some (c, t)"
    using Some by (cases ct) auto
  note ok = tcp_channel_inv [OF inv t]
  have "worker_inv pr (tcp_begin_messages i t (set_channel i (Tcp_channel (t\<lparr>tc_read := Tcp_idle\<rparr>)) w))"
    if "tc_read t = Tcp_handshake"
    using ok that inv
    by (intro tcp_begin_inv [where c = "c\<lparr>cn_channel := Tcp_channel (t\<lparr>tc_read := Tcp_idle\<rparr>)\<rparr>"] worker_inv_channel)
      auto
  then show ?thesis
    using inv by (auto simp: tcp_on_handshake_def t split: option.splits intro: inv_rules)
qed (simp add: tcp_on_handshake_def)

lemma tcp_header_inv [inv_rules]: "worker_inv pr w \<Longrightarrow> worker_inv pr (tcp_on_header i r w)"
  using tcp_channel_inv
  by (fastforce simp: tcp_on_header_def split: option.splits prod.splits sum.splits intro!: inv_rules)

lemma tcp_body_inv [inv_rules]: "worker_inv pr w \<Longrightarrow> worker_inv pr (tcp_on_body i r w)"
proof (cases "tcp_channel i w")
  case (Some ct)
  assume inv: "worker_inv pr w"
  obtain c t where t: "tcp_channel i w = Some (c, t)"
    using Some by (cases ct) auto
  note ok = tcp_channel_inv [OF inv t]
  show ?thesis
    using ok inv worker_inv_deliver [OF inv ok(1), of "Tcp_channel (t\<lparr>tc_read := Tcp_header\<rparr>)"]
    by (auto simp: tcp_on_body_def t case_prod_beta Let_def split: tcp_read.splits sum.splits intro: inv_rules)
qed (simp add: tcp_on_body_def)

lemma worker_inv_limits:
  "worker_inv pr w \<Longrightarrow> max_send_queue_bytes (wc_limits w) < W64 \<and> max_message_bytes (wc_limits w) \<le> 16777216"
  by (simp add: worker_inv_def)

lemma length_tcp_frame [simp]: "length (tcp_frame m) = buffer_size m + 4"
  by (simp add: tcp_frame_def Let_def buffer_size_def)

lemma tcp_send_inv [inv_rules]: "worker_inv pr w \<Longrightarrow> worker_inv pr (fst (tcp_send i m w))"
proof (cases "tcp_channel i w")
  case (Some ct)
  assume inv: "worker_inv pr w"
  obtain c t where t: "tcp_channel i w = Some (c, t)"
    using Some by (cases ct) auto
  note ok = tcp_channel_inv [OF inv t] and lim = worker_inv_limits [OF inv]
  show ?thesis
    using ok lim inv
    by (auto simp: tcp_send_def t Let_def channel_ok_def split: tcp_read.splits intro!: worker_inv_channel)
qed (simp add: tcp_send_def)

lemma tcp_write_inv [inv_rules]: "worker_inv pr w \<Longrightarrow> worker_inv pr (tcp_on_write i e w)"
proof (cases "tcp_channel i w")
  case (Some ct)
  assume inv: "worker_inv pr w"
  obtain c t where t: "tcp_channel i w = Some (c, t)"
    using Some by (cases ct) auto
  note ok = tcp_channel_inv [OF inv t] and lim = worker_inv_limits [OF inv]
  show ?thesis
    using ok lim inv
    by (auto simp: tcp_on_write_def t channel_ok_def split: list.splits option.splits
        intro!: worker_inv_channel worker_inv_deadlines worker_inv_fail)
qed (simp add: tcp_on_write_def)

lemma ws_start_inv:
  assumes "worker_inv pr w" and "umap_find (wc_connections w) i = Some c" and "\<not> cn_opened c"
  shows "worker_inv pr (ws_start i w)"
proof (cases "ws_channel i w")
  case (Some ct)
  then obtain t where t: "ws_channel i w = Some (c, t)"
    using assms(2) by (cases ct) (auto dest: ws_channelD)
  note ok = ws_channel_inv [OF assms(1) t]
  show ?thesis
    using ok assms by (auto simp: ws_start_def t intro!: worker_inv_channel worker_inv_deadlines)
qed (use assms in \<open>simp add: ws_start_def\<close>)

lemma ws_handshake_inv [inv_rules]: "worker_inv pr w \<Longrightarrow> worker_inv pr (ws_on_handshake i e w)"
  using ws_channel_inv
  by (fastforce simp: ws_on_handshake_def split: option.splits prod.splits intro!: inv_rules)

lemma ws_upgrade_inv [inv_rules]: "worker_inv pr w \<Longrightarrow> worker_inv pr (ws_on_upgrade i r w)"
  using ws_channel_inv
  by (fastforce simp: ws_on_upgrade_def split: option.splits prod.splits sum.splits intro!: inv_rules)

lemma ws_accept_inv [inv_rules]: "worker_inv pr w \<Longrightarrow> worker_inv pr (ws_on_accept i e w)"
proof (cases "ws_channel i w")
  case (Some ct)
  assume inv: "worker_inv pr w"
  obtain c t where t: "ws_channel i w = Some (c, t)"
    using Some by (cases ct) auto
  note ok = ws_channel_inv [OF inv t]
  let ?w = "set_channel i (Ws_channel (t\<lparr>ws_read := Ws_idle\<rparr>)) w"
  have i: "worker_inv pr ?w"
    using ok inv by (intro worker_inv_channel) auto
  have f: "umap_find (wc_connections ?w) i = Some (c\<lparr>cn_channel := Ws_channel (t\<lparr>ws_read := Ws_idle\<rparr>)\<rparr>)"
    using ok by simp
  show ?thesis
    using ok inv worker_inv_open [OF i f, of "Ws_channel (t\<lparr>ws_read := Ws_message\<rparr>)"]
    by (auto simp: ws_on_accept_def t case_prod_beta Let_def split: option.splits intro: inv_rules)
qed (simp add: ws_on_accept_def)

lemma ws_message_inv [inv_rules]: "worker_inv pr w \<Longrightarrow> worker_inv pr (ws_on_message i r w)"
proof (cases "ws_channel i w")
  case (Some ct)
  assume inv: "worker_inv pr w"
  obtain c t where t: "ws_channel i w = Some (c, t)"
    using Some by (cases ct) auto
  note ok = ws_channel_inv [OF inv t]
  show ?thesis
    using ok inv publish_message_spec(1) [OF inv ok(1)]
    by (auto simp: ws_on_message_def t split: ws_result.splits intro: inv_rules)
qed (simp add: ws_on_message_def)

lemma ws_send_inv [inv_rules]: "worker_inv pr w \<Longrightarrow> worker_inv pr (fst (ws_send i m w))"
proof (cases "ws_channel i w")
  case (Some ct)
  assume inv: "worker_inv pr w"
  obtain c t where t: "ws_channel i w = Some (c, t)"
    using Some by (cases ct) auto
  note ok = ws_channel_inv [OF inv t] and lim = worker_inv_limits [OF inv]
  show ?thesis
    using ok lim inv
    by (auto simp: ws_send_def t Let_def channel_ok_def ws_cost_def split: ws_read.splits
        intro!: worker_inv_channel)
qed (simp add: ws_send_def)

lemma ws_write_inv [inv_rules]: "worker_inv pr w \<Longrightarrow> worker_inv pr (ws_on_write i e w)"
proof (cases "ws_channel i w")
  case (Some ct)
  assume inv: "worker_inv pr w"
  obtain c t where t: "ws_channel i w = Some (c, t)"
    using Some by (cases ct) auto
  note ok = ws_channel_inv [OF inv t] and lim = worker_inv_limits [OF inv]
  show ?thesis
    using ok lim inv
    by (auto simp: ws_on_write_def t channel_ok_def ws_cost_def split: list.splits option.splits
        intro!: worker_inv_channel worker_inv_deadlines worker_inv_fail)
qed (simp add: ws_on_write_def)

end
