(* ===== verification/Stream_Properties.thy ===== *)
theory Stream_Properties
  imports Stream_Connections
begin

text \<open>
  What TCP and WebSocket sessions promise: the length-prefixed framing is read back exactly, and
  the send queues are first-in first-out queues within the configured budget.
\<close>

unbundle bit_operations_syntax

section \<open>Framing\<close>

lemma bytes_of_u32:
  fixes x :: u32
  shows "push_bit 24 (ucast (ucast (drop_bit 24 x) :: u8)) OR push_bit 16 (ucast (ucast (drop_bit 16 x) :: u8))
      OR push_bit 8 (ucast (ucast (drop_bit 8 x) :: u8)) OR ucast (ucast x :: u8) = x"
proof (rule bit_word_eqI)
  fix n
  assume "n < LENGTH(32)"
  then consider "n < 8" | "8 \<le> n" "n < 16" | "16 \<le> n" "n < 24" | "24 \<le> n" "n < 32"
    by fastforce
  then show "bit (push_bit 24 (ucast (ucast (drop_bit 24 x) :: u8)) OR push_bit 16 (ucast (ucast (drop_bit 16 x) :: u8))
      OR push_bit 8 (ucast (ucast (drop_bit 8 x) :: u8)) OR (ucast (ucast x :: u8) :: u32)) n = bit x n"
    by cases (auto simp: bit_simps)
qed

lemma tcp_length_frame: "tcp_length (take 4 (tcp_frame m)) = of_nat (buffer_size m)"
  by (simp add: tcp_length_def tcp_frame_def Let_def bytes_of_u32)

lemma drop_frame [simp]: "drop 4 (tcp_frame m) = buf_bytes m"
  by (simp add: tcp_frame_def Let_def)

lemma unat_frame_length:
  "buffer_size m \<le> 16777216 \<Longrightarrow> unat (tcp_length (take 4 (tcp_frame m))) = buffer_size m"
  by (simp add: tcp_length_frame unat_of_nat take_bit_eq_mod)

text \<open>
  The reads of a connection over the bytes that arrive: a completion takes as many bytes off the stream as the
  outstanding read asks for, four for a header and the announced length for a body, and waits when there are
  fewer. \<open>tcp_reads\<close> runs up to \<open>n\<close> completions.
\<close>

definition tcp_read_next :: "u64 \<Rightarrow> bytes \<times> 'a worker \<Rightarrow> (bytes \<times> 'a worker) option" where
  "tcp_read_next i = (\<lambda>(stream, w).
     case tcp_channel i w of
       None \<Rightarrow> None
     | Some (c, t) \<Rightarrow>
         (case tc_read t of
            Tcp_header \<Rightarrow>
              if length stream < 4 then None
              else Some (drop 4 stream, tcp_on_header i (Inr (take 4 stream)) w)
          | Tcp_body n \<Rightarrow>
              if length stream < n then None
              else Some (drop n stream, tcp_on_body i (Inr (take n stream)) w)
          | _ \<Rightarrow> None))"

fun tcp_reads :: "nat \<Rightarrow> u64 \<Rightarrow> bytes \<times> 'a worker \<Rightarrow> bytes \<times> 'a worker" where
  "tcp_reads 0 i s = s"
| "tcp_reads (Suc n) i s = (case tcp_read_next i s of None \<Rightarrow> s | Some s' \<Rightarrow> tcp_reads n i s')"

definition accepts_messages :: "'a worker \<Rightarrow> bool" where
  "accepts_messages w \<longleftrightarrow>
     (case cb_message (wc_callbacks w) of None \<Rightarrow> False | Some f \<Rightarrow> \<forall>p b a. snd (f p b a) = Some True)"

lemma notify_message_accepted: "accepts_messages w \<Longrightarrow> snd (notify_message p b w)"
  by (auto simp: accepts_messages_def notify_message_def Let_def case_prod_beta split: option.splits)

lemma set_channel_callbacks [simp]:
  "wc_callbacks (set_channel i ch w) = wc_callbacks w" "wc_callbacks (arm_deadline i w) = wc_callbacks w"
  by (simp_all add: set_channel_def set_connection_def arm_deadline_def split: option.splits)

lemma publish_accepted:
  assumes "umap_find (wc_connections w) i = Some c" and "accepts_messages w"
  shows "publish_message i b w = (touch_idle_deadline i (fst (notify_message (cn_peer c) b w)), True)"
  using assms notify_message_accepted [OF assms(2), of "cn_peer c" b]
  by (simp add: publish_message_def case_prod_beta Let_def)

lemma tcp_receive_one:
  assumes "tcp_channel i w = Some (c, t)" and "tc_read t = Tcp_header"
    and "buffer_size m \<le> max_message_bytes (wc_limits w)" and "max_message_bytes (wc_limits w) \<le> 16777216"
    and "accepts_messages w"
  obtains w' c' where "tcp_reads (Suc (Suc n)) i (tcp_frame m @ rest, w) = tcp_reads n i (rest, w')"
    and "wc_trace w' = wc_trace w @ [N_Message (cn_peer c) m True]"
    and "tcp_channel i w' = Some (c', t)" "cn_peer c' = cn_peer c" "wc_limits w' = wc_limits w" "accepts_messages w'"
proof -
  let ?t = "t\<lparr>tc_read := Tcp_body (buffer_size m)\<rparr>"
  let ?c = "c\<lparr>cn_channel := Tcp_channel ?t\<rparr>"
  let ?w1 = "set_channel i (Tcp_channel ?t) w"
  let ?w2 = "set_channel i (Tcp_channel t) (touch_idle_deadline i (fst (notify_message (cn_peer c) m ?w1)))"
  have f: "umap_find (wc_connections w) i = Some c" "cn_channel c = Tcp_channel t"
    using tcp_channelD [OF assms(1)] by simp_all
  have frame: "length (tcp_frame m) = 4 + buffer_size m" "length (buf_bytes m) = buffer_size m"
    by (simp_all add: tcp_frame_def Let_def buffer_size_def)
  have h: "tcp_read_next i (tcp_frame m @ rest, w) = Some (buf_bytes m @ rest, ?w1)"
    using assms frame by (simp add: tcp_read_next_def tcp_on_header_def unat_frame_length)
  have f1: "umap_find (wc_connections ?w1) i = Some ?c"
    using f by simp
  have t1: "tcp_channel i ?w1 = Some (?c, ?t)"
    by (simp add: tcp_channel_def f1 del: find_channel)
  have a1: "accepts_messages ?w1"
    using assms(5) by (simp add: accepts_messages_def)
  have m: "Buffer_of_vector (buf_bytes m) = m" and tt: "t\<lparr>tc_read := Tcp_header\<rparr> = t"
    using assms(2) by (simp_all add: Buffer_of_vector_def)
  have b: "tcp_read_next i (buf_bytes m @ rest, ?w1) = Some (rest, ?w2)"
    using publish_accepted [OF f1 a1, of m] frame
    by (simp add: tcp_read_next_def tcp_on_body_def t1 m tt)
  have ok: "snd (notify_message (cn_peer c) m ?w1)" "cb_message (wc_callbacks w) \<noteq> None"
    using notify_message_accepted [OF a1] assms(5) by (auto simp: accepts_messages_def split: option.splits)
  show thesis
  proof (rule that)
    show "tcp_reads (Suc (Suc n)) i (tcp_frame m @ rest, w) = tcp_reads n i (rest, ?w2)"
      by (simp add: h b)
    show "wc_trace ?w2 = wc_trace w @ [N_Message (cn_peer c) m True]"
      using ok by (simp add: touch_idle_deadline_def)
    show "tcp_channel i ?w2 = Some (c\<lparr>cn_channel := Tcp_channel t, cn_deadline_generation := cn_deadline_generation c + 1\<rparr>, t)"
      by (simp add: tcp_channel_def f touch_idle_deadline_def)
  qed (use assms(5) in \<open>simp_all add: accepts_messages_def touch_idle_deadline_def\<close>)
qed

text \<open>
  C2. TCP messages survive the wire. Let the bytes that arrive be the frames that \<^verbatim>\<open>send\<close> builds for a list of messages,
  each within the configured size, one after the other, and then any further bytes. A connection that
  waits for a header finds the message boundaries by the length prefixes alone: after two reads for each
  message it has delivered exactly these messages to an accepting application, in order, has taken
  exactly their frames off the stream, and waits for the next header.
\<close>

theorem tcp_stream_roundtrip:
  assumes "tcp_channel i w = Some (c, t)" and "tc_read t = Tcp_header"
    and "max_message_bytes (wc_limits w) \<le> 16777216" and "accepts_messages w"
    and "list_all (\<lambda>m. buffer_size m \<le> max_message_bytes (wc_limits w)) ms"
    and "tcp_reads (2 * length ms) i (concat (map tcp_frame ms) @ rest, w) = (stream, w')"
  shows "stream = rest \<and> wc_trace w' = wc_trace w @ map (\<lambda>m. N_Message (cn_peer c) m True) ms
    \<and> (\<exists>c'. tcp_channel i w' = Some (c', t))"
  using assms
proof (induction ms arbitrary: w c)
  case (Cons m ms)
  have m: "buffer_size m \<le> max_message_bytes (wc_limits w)"
    using Cons.prems(5) by simp
  obtain w1 c1 where one: "tcp_reads (Suc (Suc (2 * length ms))) i (tcp_frame m @ concat (map tcp_frame ms) @ rest, w) =
        tcp_reads (2 * length ms) i (concat (map tcp_frame ms) @ rest, w1)"
      "wc_trace w1 = wc_trace w @ [N_Message (cn_peer c) m True]" "tcp_channel i w1 = Some (c1, t)"
      "cn_peer c1 = cn_peer c" "wc_limits w1 = wc_limits w" "accepts_messages w1"
    using tcp_receive_one [OF Cons.prems(1,2) m Cons.prems(3,4)] by metis
  have "tcp_reads (2 * length ms) i (concat (map tcp_frame ms) @ rest, w1) = (stream, w')"
    using Cons.prems(6) one(1) by simp
  then show ?case
    using Cons.IH [OF one(3) Cons.prems(2)] one Cons.prems(3,5) by simp
qed simp

definition sample_limits :: service_limits where
  "sample_limits = \<lparr>worker_threads = 1, max_connections = 4, max_message_bytes = 64,
     max_send_queue_bytes = 100, idle_timeout_ms = 1000\<rparr>"

definition sample_config :: listener_config where
  "sample_config = \<lparr>lc_id = 1, lc_protocol = PTcp, lc_bind_address = ''127.0.0.1'', lc_port = 80,
     lc_security = Sec_None, lc_certificate_chain_file = [], lc_private_key_file = [],
     lc_websocket_path = ''/'', lc_handshake_timeout_ms = 10000\<rparr>"

definition sample_peer :: peer where
  "sample_peer = \<lparr>p_session_id = 1, p_listener_id = 1, p_protocol = PTcp, p_address = ''10.0.0.1'', p_port = 9\<rparr>"

definition sample_connection :: "channel \<Rightarrow> connection" where
  "sample_connection ch = \<lparr>cn_peer = sample_peer, cn_config = sample_config, cn_opened = True,
     cn_deadline_generation = 1, cn_channel = ch\<rparr>"

definition sample_worker :: "channel \<Rightarrow> unit worker" where
  "sample_worker ch = \<lparr>wc_limits = sample_limits, wc_callbacks = no_callbacks\<lparr>cb_message := Some (\<lambda>_ _ a. (a, Some True))\<rparr>, wc_stopping = False,
     wc_connections = [(1, sample_connection ch)], wc_next_session_id = 2,
     wc_next_http_request_id = 1, wc_udp = [], wc_app = (), wc_trace = [N_Open sample_peer True]\<rparr>"

definition sample_tcp :: tcp_part where
  "sample_tcp = \<lparr>tc_tls = False, tc_read = Tcp_header, tc_outgoing = [], tc_queued_bytes = 0\<rparr>"

definition sample_ws :: ws_part where
  "sample_ws = \<lparr>ws_tls = False, ws_read = Ws_message, ws_outgoing = [], ws_queued_bytes = 0\<rparr>"

theorem tcp_stream_roundtrip_witness:
  "\<exists>w'. tcp_reads 4 1 (concat (map tcp_frame [from_text ''hello'', Buffer_empty]) @ [0, 0], sample_worker (Tcp_channel sample_tcp)) = ([0, 0], w')
   \<and> wc_trace w' = [N_Open sample_peer True, N_Message sample_peer (from_text ''hello'') True, N_Message sample_peer Buffer_empty True]"
proof -
  let ?w = "sample_worker (Tcp_channel sample_tcp)" and ?ms = "[from_text ''hello'', Buffer_empty]"
  obtain stream w' where run: "tcp_reads (2 * length ?ms) 1 (concat (map tcp_frame ?ms) @ [0, 0], ?w) = (stream, w')"
    by force
  have "tcp_channel 1 ?w = Some (sample_connection (Tcp_channel sample_tcp), sample_tcp)"
    "tc_read sample_tcp = Tcp_header" "max_message_bytes (wc_limits ?w) = 64" "accepts_messages ?w"
    by (simp_all add: tcp_channel_def sample_worker_def sample_connection_def sample_tcp_def umap_find_def
        sample_limits_def accepts_messages_def)
  moreover have "wc_trace ?w = [N_Open sample_peer True]" "cn_peer (sample_connection ch) = sample_peer" for ch
    by (simp_all add: sample_worker_def sample_connection_def)
  ultimately have "stream = [0, 0]" "wc_trace w' = [N_Open sample_peer True, N_Message sample_peer (from_text ''hello'') True,
      N_Message sample_peer Buffer_empty True]"
    using tcp_stream_roundtrip [of 1 ?w "sample_connection (Tcp_channel sample_tcp)" sample_tcp ?ms "[0, 0]" stream w'] run by simp_all
  then show ?thesis using run by auto
qed

section \<open>Send queues\<close>

definition tcp_items :: "u64 \<Rightarrow> 'a worker \<Rightarrow> buffer list" where
  "tcp_items i w = (case tcp_channel i w of None \<Rightarrow> [] | Some (c, t) \<Rightarrow> map (\<lambda>f. Buffer_of_vector (drop 4 f)) (tc_outgoing t))"

definition tcp_used :: "u64 \<Rightarrow> 'a worker \<Rightarrow> nat" where
  "tcp_used i w = (case tcp_channel i w of None \<Rightarrow> 0 | Some (c, t) \<Rightarrow> tc_queued_bytes t)"

definition tcp_accepts :: "u64 \<Rightarrow> 'a worker \<Rightarrow> buffer \<Rightarrow> bool" where
  "tcp_accepts i w m = (snd (tcp_send i m w) = Inr ())"

definition tcp_queue_inv :: "u64 \<Rightarrow> 'a worker \<Rightarrow> bool" where
  "tcp_queue_inv i w \<longleftrightarrow> worker_inv False w \<and>
     (\<exists>c t. tcp_channel i w = Some (c, t) \<and> (\<forall>f \<in> set (tc_outgoing t). \<exists>m. f = tcp_frame m))"

lemma tcp_channel_set [simp]:
  "tcp_channel i (set_channel i (Tcp_channel t') w) =
     map_option (\<lambda>c. (c\<lparr>cn_channel := Tcp_channel t'\<rparr>, t')) (umap_find (wc_connections w) i)"
  by (auto simp: tcp_channel_def split: option.splits)

lemma tcp_channel_arm:
  "tcp_channel i (arm_deadline i w) =
     map_option (\<lambda>(c, t). (c\<lparr>cn_deadline_generation := cn_deadline_generation c + 1\<rparr>, t)) (tcp_channel i w)"
  by (auto simp: tcp_channel_def split: option.splits channel.splits)

lemma tcp_send_accepted:
  assumes "worker_inv False w" and t: "tcp_channel i w = Some (c, t)" and a: "tcp_accepts i w m"
  shows "fst (tcp_send i m w) = set_channel i (Tcp_channel (t\<lparr>tc_outgoing := tc_outgoing t @ [tcp_frame m],
      tc_queued_bytes := add64 (tc_queued_bytes t) (add64 (buffer_size m) 4)\<rparr>)) w"
    and "length (tc_outgoing t) < 1024"
    and "tc_queued_bytes t + (buffer_size m + 4) \<le> max_send_queue_bytes (wc_limits w)"
  using a worker_inv_limits [OF assms(1)] by (auto simp: tcp_accepts_def tcp_send_def t Let_def split: if_splits)

interpretation tcpq: bounded_fifo "tcp_items i" "tcp_used i" "\<lambda>m. buffer_size m + 4" "\<lambda>_. 1024"
  "\<lambda>w. max_send_queue_bytes (wc_limits w)" "tcp_accepts i" "\<lambda>w m. fst (tcp_send i m w)"
  "tcp_on_write i None" "tcp_queue_inv i" for i
proof (unfold_locales, goal_cases)
  case (1 w)
  then obtain c t where t: "tcp_channel i w = Some (c, t)" "worker_inv False w" "\<forall>f \<in> set (tc_outgoing t). \<exists>m. f = tcp_frame m"
    by (auto simp: tcp_queue_inv_def)
  have "sum_list (map length fs) = sum_list (map (\<lambda>f. buffer_size (Buffer_of_vector (drop 4 f)) + 4) fs)"
    if "\<forall>f \<in> set fs. \<exists>m. f = tcp_frame m" for fs
    using that by (induction fs) (auto simp: buffer_size_def Buffer_of_vector_def)
  then show ?case
    using t tcp_channel_inv(2) [OF t(2,1)] by (simp add: tcp_used_def tcp_items_def channel_ok_def comp_def)
next
  case (2 w)
  then show ?case
    using tcp_channel_inv(2) [of False w i] by (auto simp: tcp_queue_inv_def tcp_used_def channel_ok_def)
next
  case (3 w)
  then show ?case
    using tcp_channel_inv(2) [of False w i] by (auto simp: tcp_queue_inv_def tcp_items_def channel_ok_def)
next
  case (4 w m)
  then obtain c t where t: "tcp_channel i w = Some (c, t)" "worker_inv False w" "\<forall>f \<in> set (tc_outgoing t). \<exists>m. f = tcp_frame m"
    by (auto simp: tcp_queue_inv_def)
  then show ?case
    using tcp_send_accepted [OF t(2,1) 4(2)] tcp_send_inv [OF t(2), of i m] tcp_channelD [OF t(1)]
    by (auto simp: tcp_queue_inv_def)
next
  case (5 w m)
  then obtain c t where t: "tcp_channel i w = Some (c, t)" "worker_inv False w"
    by (auto simp: tcp_queue_inv_def)
  then show ?case
    using tcp_send_accepted [OF t(2,1) 5(2)] tcp_channelD [OF t(1)]
    by (auto simp: tcp_items_def Buffer_of_vector_def)
next
  case (6 w)
  then obtain c t where t: "tcp_channel i w = Some (c, t)" "worker_inv False w" "\<forall>f \<in> set (tc_outgoing t). \<exists>m. f = tcp_frame m"
    by (auto simp: tcp_queue_inv_def)
  then show ?case
    using 6 tcp_write_inv [OF t(2), of i None] tcp_channelD [OF t(1)]
    by (cases "tc_outgoing t")
      (auto simp: tcp_queue_inv_def tcp_items_def tcp_on_write_def touch_idle_deadline_def tcp_channel_arm)
next
  case (7 w)
  then obtain c t where t: "tcp_channel i w = Some (c, t)"
    by (auto simp: tcp_queue_inv_def)
  then show ?case
    using 7 tcp_channelD [OF t(1)]
    by (cases "tc_outgoing t")
      (auto simp: tcp_items_def tcp_on_write_def touch_idle_deadline_def tcp_channel_arm)
next
  case (8 w m)
  then obtain c t where t: "tcp_channel i w = Some (c, t)" "worker_inv False w"
    by (auto simp: tcp_queue_inv_def)
  then show ?case
    using tcp_send_accepted(2,3) [OF t(2,1) 8(2)] by (simp add: tcp_used_def tcp_items_def)
qed

text \<open>Sends and write completions in any order: the accepted and the written messages.\<close>

fun tcp_send_run :: "u64 \<Rightarrow> buffer fifo_op list \<Rightarrow> 'a worker \<Rightarrow> buffer list \<times> buffer list \<times> 'a worker" where
  "tcp_send_run i [] w = ([], [], w)"
| "tcp_send_run i (Offer m # ops) w =
     (case tcp_send i m w of
        (w1, Inr _) \<Rightarrow> (let (acc, del, w') = tcp_send_run i ops w1 in (m # acc, del, w'))
      | (w1, Inl _) \<Rightarrow> tcp_send_run i ops w1)"
| "tcp_send_run i (Take # ops) w =
     (case tcp_items i w of
        [] \<Rightarrow> tcp_send_run i ops w
      | m # _ \<Rightarrow> (let (acc, del, w') = tcp_send_run i ops (tcp_on_write i None w) in (acc, m # del, w')))"

lemma tcp_send_refused: "\<not> tcp_accepts i w m \<Longrightarrow> \<exists>e. tcp_send i m w = (w, Inl e)"
  by (auto simp: tcp_accepts_def tcp_send_def Let_def split: option.splits prod.splits)

lemma tcp_send_run_fifo: "tcp_send_run i ops w = tcpq.fifo_run i w ops"
proof (induction i ops w rule: tcp_send_run.induct)
  case (2 i m ops w)
  show ?case
  proof (cases "tcp_accepts i w m")
    case True
    then obtain w1 where "tcp_send i m w = (w1, Inr ())"
      by (cases "tcp_send i m w") (auto simp: tcp_accepts_def)
    then show ?thesis using 2 True by simp
  next
    case False
    then show ?thesis using 2 tcp_send_refused [OF False] by auto
  qed
qed (auto split: list.splits)

text \<open>
  C36. A TCP session writes what it accepted, in order: over any interleaving of sends and write
  completions the accepted messages are the written ones followed by those still queued, and the
  queued frames stay within 1024 entries and the configured bytes.
\<close>

theorem tcp_send_queue_fifo:
  assumes "tcp_queue_inv i w" and "tcp_items i w = []" and "tcp_send_run i ops w = (accepted, written, w')"
  shows "accepted = written @ tcp_items i w' \<and> length (tcp_items i w') \<le> 1024
    \<and> sum_list (map (\<lambda>m. buffer_size m + 4) (tcp_items i w')) \<le> max_send_queue_bytes (wc_limits w')"
  using tcpq.fifo_order [OF assms(1,2)] tcpq.budget [OF assms(1)] assms(3)
  by (simp add: tcp_send_run_fifo)

lemma sample_worker_inv:
  "channel_ok sample_limits ch \<Longrightarrow> read_ok True ch \<Longrightarrow> worker_inv False (sample_worker ch)"
proof -
  assume a: "channel_ok sample_limits ch" "read_ok True ch"
  have "session_ok False (sample_worker ch) i" for i
    using a by (cases "i = 1")
      (auto simp: session_ok_def registry_entry_ok_def sample_worker_def umap_find_def id_used_def
        sample_connection_def conn_ok_def phase_of_def phase_step_def notice_session_def sample_peer_def)
  then show ?thesis
    by (simp add: worker_inv_def sample_worker_def umap_size_def sample_limits_def)
qed

theorem tcp_send_queue_fifo_witness:
  "fst (tcp_send_run 1 [Offer (from_text ''a''), Offer (from_text ''b''), Take] (sample_worker (Tcp_channel sample_tcp)))
   = fst (snd (tcp_send_run 1 [Offer (from_text ''a''), Offer (from_text ''b''), Take] (sample_worker (Tcp_channel sample_tcp))))
     @ tcp_items 1 (snd (snd (tcp_send_run 1 [Offer (from_text ''a''), Offer (from_text ''b''), Take]
         (sample_worker (Tcp_channel sample_tcp)))))"
proof -
  let ?w = "sample_worker (Tcp_channel sample_tcp)"
  have "worker_inv False ?w"
    by (rule sample_worker_inv) (simp_all add: channel_ok_def sample_tcp_def)
  then have "tcp_queue_inv 1 ?w" "tcp_items 1 ?w = []"
    by (auto simp: tcp_queue_inv_def tcp_items_def tcp_channel_def sample_worker_def umap_find_def
        sample_connection_def sample_tcp_def)
  then show ?thesis
    using tcp_send_queue_fifo [of 1 ?w "[Offer (from_text ''a''), Offer (from_text ''b''), Take]"]
    by (metis prod.collapse)
qed

definition ws_items :: "u64 \<Rightarrow> 'a worker \<Rightarrow> buffer list" where
  "ws_items i w = (case ws_channel i w of None \<Rightarrow> [] | Some (c, t) \<Rightarrow> ws_outgoing t)"

definition ws_used :: "u64 \<Rightarrow> 'a worker \<Rightarrow> nat" where
  "ws_used i w = (case ws_channel i w of None \<Rightarrow> 0 | Some (c, t) \<Rightarrow> ws_queued_bytes t)"

definition ws_accepts :: "u64 \<Rightarrow> 'a worker \<Rightarrow> buffer \<Rightarrow> bool" where
  "ws_accepts i w m = (snd (ws_send i m w) = Inr ())"

definition ws_queue_inv :: "u64 \<Rightarrow> 'a worker \<Rightarrow> bool" where
  "ws_queue_inv i w \<longleftrightarrow> worker_inv False w \<and> ws_channel i w \<noteq> None"

lemma ws_channel_set [simp]:
  "ws_channel i (set_channel i (Ws_channel t') w) =
     map_option (\<lambda>c. (c\<lparr>cn_channel := Ws_channel t'\<rparr>, t')) (umap_find (wc_connections w) i)"
  by (auto simp: ws_channel_def split: option.splits)

lemma ws_channel_arm:
  "ws_channel i (arm_deadline i w) =
     map_option (\<lambda>(c, t). (c\<lparr>cn_deadline_generation := cn_deadline_generation c + 1\<rparr>, t)) (ws_channel i w)"
  by (auto simp: ws_channel_def split: option.splits channel.splits)

lemma ws_send_accepted:
  assumes "worker_inv False w" and t: "ws_channel i w = Some (c, t)" and a: "ws_accepts i w m"
  shows "fst (ws_send i m w) = set_channel i (Ws_channel (t\<lparr>ws_outgoing := ws_outgoing t @ [m],
      ws_queued_bytes := add64 (ws_queued_bytes t) (add64 (buffer_size m) 16)\<rparr>)) w"
    and "length (ws_outgoing t) < 1024"
    and "ws_queued_bytes t + ws_cost m \<le> max_send_queue_bytes (wc_limits w)"
  using a worker_inv_limits [OF assms(1)]
  by (auto simp: ws_accepts_def ws_send_def t Let_def ws_cost_def split: if_splits)

interpretation wsq: bounded_fifo "ws_items i" "ws_used i" ws_cost "\<lambda>_. 1024"
  "\<lambda>w. max_send_queue_bytes (wc_limits w)" "ws_accepts i" "\<lambda>w m. fst (ws_send i m w)"
  "ws_on_write i None" "ws_queue_inv i" for i
proof (unfold_locales, goal_cases)
  case (1 w)
  then show ?case
    using ws_channel_inv(2) [of False w i] by (auto simp: ws_queue_inv_def ws_used_def ws_items_def channel_ok_def)
next
  case (2 w)
  then show ?case
    using ws_channel_inv(2) [of False w i] by (auto simp: ws_queue_inv_def ws_used_def channel_ok_def)
next
  case (3 w)
  then show ?case
    using ws_channel_inv(2) [of False w i] by (auto simp: ws_queue_inv_def ws_items_def channel_ok_def)
next
  case (4 w m)
  then obtain c t where t: "ws_channel i w = Some (c, t)" "worker_inv False w"
    by (auto simp: ws_queue_inv_def)
  then show ?case
    using ws_send_accepted [OF t(2,1) 4(2)] ws_send_inv [OF t(2), of i m] ws_channelD [OF t(1)]
    by (auto simp: ws_queue_inv_def)
next
  case (5 w m)
  then obtain c t where t: "ws_channel i w = Some (c, t)" "worker_inv False w"
    by (auto simp: ws_queue_inv_def)
  then show ?case
    using ws_send_accepted [OF t(2,1) 5(2)] ws_channelD [OF t(1)] by (auto simp: ws_items_def)
next
  case (6 w)
  then obtain c t where t: "ws_channel i w = Some (c, t)" "worker_inv False w"
    by (auto simp: ws_queue_inv_def)
  then show ?case
    using 6 ws_write_inv [OF t(2), of i None] ws_channelD [OF t(1)]
    by (cases "ws_outgoing t")
      (auto simp: ws_queue_inv_def ws_items_def ws_on_write_def touch_idle_deadline_def ws_channel_arm)
next
  case (7 w)
  then obtain c t where t: "ws_channel i w = Some (c, t)"
    by (auto simp: ws_queue_inv_def)
  then show ?case
    using 7 ws_channelD [OF t(1)]
    by (cases "ws_outgoing t")
      (auto simp: ws_items_def ws_on_write_def touch_idle_deadline_def ws_channel_arm)
next
  case (8 w m)
  then obtain c t where t: "ws_channel i w = Some (c, t)" "worker_inv False w"
    by (auto simp: ws_queue_inv_def)
  then show ?case
    using ws_send_accepted(2,3) [OF t(2,1) 8(2)] by (simp add: ws_used_def ws_items_def)
qed

fun ws_send_run :: "u64 \<Rightarrow> buffer fifo_op list \<Rightarrow> 'a worker \<Rightarrow> buffer list \<times> buffer list \<times> 'a worker" where
  "ws_send_run i [] w = ([], [], w)"
| "ws_send_run i (Offer m # ops) w =
     (case ws_send i m w of
        (w1, Inr _) \<Rightarrow> (let (acc, del, w') = ws_send_run i ops w1 in (m # acc, del, w'))
      | (w1, Inl _) \<Rightarrow> ws_send_run i ops w1)"
| "ws_send_run i (Take # ops) w =
     (case ws_items i w of
        [] \<Rightarrow> ws_send_run i ops w
      | m # _ \<Rightarrow> (let (acc, del, w') = ws_send_run i ops (ws_on_write i None w) in (acc, m # del, w')))"

lemma ws_send_refused: "\<not> ws_accepts i w m \<Longrightarrow> \<exists>e. ws_send i m w = (w, Inl e)"
  by (auto simp: ws_accepts_def ws_send_def Let_def split: option.splits prod.splits)

lemma ws_send_run_fifo: "ws_send_run i ops w = wsq.fifo_run i w ops"
proof (induction i ops w rule: ws_send_run.induct)
  case (2 i m ops w)
  show ?case
  proof (cases "ws_accepts i w m")
    case True
    then obtain w1 where "ws_send i m w = (w1, Inr ())"
      by (cases "ws_send i m w") (auto simp: ws_accepts_def)
    then show ?thesis using 2 True by simp
  next
    case False
    then show ?thesis using 2 ws_send_refused [OF False] by auto
  qed
qed (auto split: list.splits)

text \<open>
  The same for WebSocket sessions, whose queue charges 16 bytes of overhead per message, so
  that empty messages cannot bypass the budget.
\<close>

theorem ws_send_queue_fifo:
  assumes "ws_queue_inv i w" and "ws_items i w = []" and "ws_send_run i ops w = (accepted, written, w')"
  shows "accepted = written @ ws_items i w' \<and> length (ws_items i w') \<le> 1024
    \<and> 16 * length (ws_items i w') \<le> max_send_queue_bytes (wc_limits w')"
proof -
  have "16 * length ms \<le> sum_list (map ws_cost ms)" for ms
    by (induction ms) (simp_all add: ws_cost_def)
  then show ?thesis
    using wsq.fifo_order [OF assms(1,2)] wsq.budget [OF assms(1)] assms(3)
    by (simp add: ws_send_run_fifo) (meson le_trans)
qed

theorem ws_send_queue_fifo_witness:
  "16 * length (ws_items 1 (snd (snd (ws_send_run 1 (replicate 9 (Offer Buffer_empty))
      (sample_worker (Ws_channel sample_ws)))))) \<le>
    max_send_queue_bytes (wc_limits (snd (snd (ws_send_run 1 (replicate 9 (Offer Buffer_empty))
      (sample_worker (Ws_channel sample_ws))))))"
proof -
  let ?w = "sample_worker (Ws_channel sample_ws)"
  have "worker_inv False ?w"
    by (rule sample_worker_inv) (simp_all add: channel_ok_def sample_ws_def)
  then have "ws_queue_inv 1 ?w" "ws_items 1 ?w = []"
    by (auto simp: ws_queue_inv_def ws_items_def ws_channel_def sample_worker_def umap_find_def
        sample_connection_def sample_ws_def)
  then show ?thesis
    using ws_send_queue_fifo [of 1 ?w "replicate 9 (Offer Buffer_empty)"] by (metis prod.collapse)
qed

end
