(* ===== verification/Http_Codec.thy ===== *)
theory Http_Codec
  imports Net_Types
begin

text \<open>
  The event envelope of an HTTP request (src/src/Net/Async/HttpRequestCodec.cpp) and the check of
  an application's response (HttpResponseValidation.cpp). The envelope is built on the transport
  worker and taken apart by the host through offsets and sizes, so the decoder has to keep every
  slice inside the buffer.
\<close>

unbundle bit_operations_syntax

section \<open>Codec\<close>

definition write_u32 :: "u32 \<Rightarrow> bytes" where
  "write_u32 v = map (\<lambda>i. ucast (drop_bit (8 * i) v)) [0..<4]"

definition read_u32 :: "bytes \<Rightarrow> u32" where
  "read_u32 bs = foldl (\<lambda>v i. v OR push_bit (8 * i) (ucast (bs ! i))) 0 [0..<4]"

definition http_envelope_bytes :: nat where
  "http_envelope_bytes = 32"

definition http_header_limit :: nat where
  "http_header_limit = 16384"

record http_request_view =
  rv_request_id :: u64
  rv_method_offset :: u32
  rv_method_size :: u32
  rv_target_offset :: u32
  rv_target_size :: u32
  rv_headers_offset :: u32
  rv_headers_size :: u32
  rv_body_offset :: u32
  rv_body_size :: u32

abbreviation text_bytes :: "string \<Rightarrow> bytes" where
  "text_bytes s \<equiv> map byte_of_char s"

definition encode_http_request ::
  "u64 \<Rightarrow> string \<Rightarrow> string \<Rightarrow> string \<Rightarrow> bytes \<Rightarrow> buffer res" where
  "encode_http_request i method target headers body =
     (let total = add64 (add64 (add64 (add64 http_envelope_bytes (length method)) (length target))
                    (length headers)) (length body)
      in if total > W32 - 1 then Inl ''HTTP event size exceeds encoding range''
         else Inr (Buffer_of_vector
           ([byte_of_char (CHR ''S''), byte_of_char (CHR ''E''), byte_of_char (CHR ''H''), 1]
            @ write_u32 (of_nat total) @ write_u32 (ucast i) @ write_u32 (ucast (drop_bit 32 i))
            @ write_u32 (of_nat (length method)) @ write_u32 (of_nat (length target))
            @ write_u32 (of_nat (length headers)) @ write_u32 (of_nat (length body))
            @ text_bytes method @ text_bytes target @ text_bytes headers @ body)))"

text \<open>The payload pointer may be null (\<open>None\<close>).\<close>

definition decode_http_request :: "bytes option \<Rightarrow> http_request_view option" where
  "decode_http_request payload =
     (case payload of
        None \<Rightarrow> None
      | Some bs \<Rightarrow>
          if length bs < http_envelope_bytes \<or> length bs > W32 - 1 then None
          else if bs ! 0 \<noteq> byte_of_char (CHR ''S'') \<or> bs ! 1 \<noteq> byte_of_char (CHR ''E'')
             \<or> bs ! 2 \<noteq> byte_of_char (CHR ''H'') \<or> bs ! 3 \<noteq> 1
             \<or> unat (read_u32 (drop 4 bs)) \<noteq> length bs then None
          else
            (let request_id = ucast (read_u32 (drop 8 bs)) OR push_bit 32 (ucast (read_u32 (drop 12 bs)));
                 method_size = read_u32 (drop 16 bs);
                 target_size = read_u32 (drop 20 bs);
                 headers_size = read_u32 (drop 24 bs);
                 body_size = read_u32 (drop 28 bs);
                 total = http_envelope_bytes + unat method_size + unat target_size + unat headers_size
                   + unat body_size
             in if request_id = 0 \<or> total \<noteq> length bs \<or> method_size = 0 \<or> unat method_size > 32
                   \<or> target_size = 0 \<or> unat target_size > 2048 \<or> unat headers_size > http_header_limit
                then None
                else
                  (let method_offset = of_nat http_envelope_bytes;
                       target_offset = method_offset + method_size;
                       headers_offset = target_offset + target_size
                   in Some \<lparr>rv_request_id = request_id,
                            rv_method_offset = method_offset, rv_method_size = method_size,
                            rv_target_offset = target_offset, rv_target_size = target_size,
                            rv_headers_offset = headers_offset, rv_headers_size = headers_size,
                            rv_body_offset = headers_offset + headers_size, rv_body_size = body_size\<rparr>)))"

text \<open>The bytes a host reads through a view.\<close>

definition view_slice :: "bytes \<Rightarrow> u32 \<Rightarrow> u32 \<Rightarrow> bytes" where
  "view_slice bs offset len = take (unat len) (drop (unat offset) bs)"

section \<open>Response validation\<close>

definition token_character :: "char \<Rightarrow> bool" where
  "token_character c \<longleftrightarrow>
     (let v = of_char c :: nat
      in (97 \<le> v \<and> v \<le> 122) \<or> (65 \<le> v \<and> v \<le> 90) \<or> (48 \<le> v \<and> v \<le> 57))
     \<or> c \<in> set ''!#$%&*+-.^_|~'' \<or> c = CHR 39 \<or> c = CHR 96"

definition valid_value :: "string \<Rightarrow> bool" where
  "valid_value s = list_all (\<lambda>c. c = CHR 9 \<or> ((of_char c :: nat) \<ge> 32 \<and> (of_char c :: nat) \<noteq> 127)) s"

definition reserved_headers :: "string list" where
  "reserved_headers = [''Content-Length'', ''Transfer-Encoding'', ''Connection'', ''Upgrade'', ''Trailer'',
     ''Keep-Alive'', ''Proxy-Connection'', ''TE'', ''Content-Type'']"

definition engine_header :: "string \<Rightarrow> bool" where
  "engine_header name = list_ex (\<lambda>r. lowercase_copy name = lowercase_copy r) reserved_headers"

fun validate_headers :: "http_header list \<Rightarrow> nat \<Rightarrow> nat res" where
  "validate_headers [] header_bytes = Inr header_bytes"
| "validate_headers (h # hs) header_bytes =
     (if hh_name h = [] \<or> length (hh_name h) > 128 \<or> \<not> list_all token_character (hh_name h)
         \<or> length (hh_value h) > 8192 \<or> \<not> valid_value (hh_value h) \<or> engine_header (hh_name h)
      then Inl ''Invalid HTTP header or attempt to override an engine-owned header''
      else
        (let n = header_bytes + (length (hh_name h) + length (hh_value h) + 4)
         in if n > http_header_limit then Inl ''HTTP response headers exceed 16 KiB''
            else validate_headers hs n))"

text \<open>The conservative bound on the header bytes, or the reason for the refusal.\<close>

definition validate_http_response :: "http_response \<Rightarrow> nat \<Rightarrow> nat res" where
  "validate_http_response r max_body_bytes =
     (if hr_status_code r < 200 \<or> hr_status_code r > 599 then Inl ''HTTP response status must be 200..599''
      else if buffer_size (hr_body r) > max_body_bytes
      then Inl ''HTTP response body exceeds configured message limit''
      else if (hr_status_code r = 204 \<or> hr_status_code r = 205 \<or> hr_status_code r = 304)
         \<and> \<not> buffer_is_empty (hr_body r) then Inl ''HTTP 204/205/304 require an empty body''
      else if hr_content_type r = [] \<or> length (hr_content_type r) > 1024
         \<or> \<not> valid_value (hr_content_type r) \<or> length (hr_headers r) > 64
      then Inl ''Invalid HTTP content type or header count''
      else validate_headers (hr_headers r) (256 + length (hr_content_type r)))"

section \<open>Lemmas\<close>

lemma upt4: "[0..<4] = [0, 1, 2, 3 :: nat]"
  by (simp add: upt_rec)

lemma length_write_u32 [simp]: "length (write_u32 v) = 4"
  by (simp add: write_u32_def)

lemma read_write_u32 [simp]: "read_u32 (write_u32 x @ rest) = x"
proof (rule bit_word_eqI)
  fix n
  assume "n < LENGTH(32)"
  then consider "n < 8" | "8 \<le> n" "n < 16" | "16 \<le> n" "n < 24" | "24 \<le> n" "n < 32"
    by fastforce
  then show "bit (read_u32 (write_u32 x @ rest)) n = bit x n"
    by cases (auto simp: read_u32_def write_u32_def upt4 bit_simps)
qed

lemma read_write_u32_nil [simp]: "read_u32 (write_u32 x) = x"
  using read_write_u32 [of x "[]"] by simp

text \<open>Adding sizes to offsets does not wrap while the sum is the length of the buffer.\<close>

lemma unat_add_u32: "unat a + unat b < W32 \<Longrightarrow> unat (a + b :: u32) = unat a + unat b"
  by (simp add: unat_word_ariths)

lemma decode_layout:
  assumes "decode_http_request (Some bs) = Some v"
  shows "unat (rv_method_offset v) = 32"
    and "unat (rv_target_offset v) = 32 + unat (rv_method_size v)"
    and "unat (rv_headers_offset v) = 32 + unat (rv_method_size v) + unat (rv_target_size v)"
    and "unat (rv_body_offset v) = 32 + unat (rv_method_size v) + unat (rv_target_size v) + unat (rv_headers_size v)"
    and "unat (rv_body_offset v) + unat (rv_body_size v) = length bs"
    and "rv_request_id v \<noteq> 0" and "rv_method_size v \<noteq> 0" and "rv_target_size v \<noteq> 0"
proof -
  let ?m = "read_u32 (drop 16 bs)" and ?t = "read_u32 (drop 20 bs)" and ?h = "read_u32 (drop 24 bs)"
    and ?b = "read_u32 (drop 28 bs)"
  have tot: "32 + unat ?m + unat ?t + unat ?h + unat ?b = length bs" and len: "length bs < W32"
    and v: "rv_method_offset v = 32" "rv_method_size v = ?m" "rv_target_offset v = 32 + ?m"
      "rv_target_size v = ?t" "rv_headers_offset v = 32 + ?m + ?t" "rv_headers_size v = ?h"
      "rv_body_offset v = 32 + ?m + ?t + ?h" "rv_body_size v = ?b"
    and nz: "rv_request_id v \<noteq> 0" "?m \<noteq> 0" "?t \<noteq> 0"
    using assms by (auto simp: decode_http_request_def Let_def http_envelope_bytes_def split: if_splits)
  have 1: "unat (32 + ?m) = 32 + unat ?m"
    using tot len unat_add_u32 [of 32 ?m] by simp
  have 2: "unat (32 + ?m + ?t) = 32 + unat ?m + unat ?t"
    using tot len unat_add_u32 [of "32 + ?m" ?t] by (simp add: 1)
  have 3: "unat (32 + ?m + ?t + ?h) = 32 + unat ?m + unat ?t + unat ?h"
    using tot len unat_add_u32 [of "32 + ?m + ?t" ?h] by (simp add: 2)
  show "unat (rv_method_offset v) = 32"
    "unat (rv_target_offset v) = 32 + unat (rv_method_size v)"
    "unat (rv_headers_offset v) = 32 + unat (rv_method_size v) + unat (rv_target_size v)"
    "unat (rv_body_offset v) = 32 + unat (rv_method_size v) + unat (rv_target_size v) + unat (rv_headers_size v)"
    "unat (rv_body_offset v) + unat (rv_body_size v) = length bs"
    "rv_request_id v \<noteq> 0" "rv_method_size v \<noteq> 0" "rv_target_size v \<noteq> 0"
    unfolding v 1 2 3 using tot nz by simp_all
qed

text \<open>
  The decoder never hands out a slice outside the payload: whatever the bytes are, when it
  accepts them the method, target, headers and body it describes follow each other without a gap
  after the 32-byte envelope and end exactly at the end of the buffer.
\<close>

theorem decode_http_in_bounds:
  assumes "decode_http_request (Some bs) = Some v"
  shows "take 32 bs @ view_slice bs (rv_method_offset v) (rv_method_size v)
      @ view_slice bs (rv_target_offset v) (rv_target_size v)
      @ view_slice bs (rv_headers_offset v) (rv_headers_size v)
      @ view_slice bs (rv_body_offset v) (rv_body_size v) = bs
    \<and> unat (rv_body_offset v) + unat (rv_body_size v) = length bs"
proof -
  note l = decode_layout [OF assms]
  have step: "take n (drop k xs) @ drop (k + n) xs = drop k xs" for n k and xs :: bytes
    by (metis append_take_drop_id drop_drop add.commute)
  have "view_slice bs (rv_body_offset v) (rv_body_size v) = drop (unat (rv_body_offset v)) bs"
    using l(5) by (simp add: view_slice_def)
  then show ?thesis
    using l(5) by (simp add: view_slice_def l(1-4) step)
qed

lemma word_split_join: "ucast (ucast i :: u32) OR push_bit 32 (ucast (ucast (drop_bit 32 i) :: u32)) = (i :: u64)"
proof (rule bit_word_eqI)
  fix n
  assume "n < LENGTH(64)"
  then show "bit (ucast (ucast i :: u32) OR push_bit 32 (ucast (ucast (drop_bit 32 i) :: u32)) :: u64) n = bit i n"
    by (cases "n < 32") (auto simp: bit_simps)
qed

lemma unat_of_nat_u32: "n < W32 \<Longrightarrow> unat (of_nat n :: u32) = n"
  by (simp add: unat_of_nat take_bit_eq_mod)

lemma of_nat_u32_zero: "n < W32 \<Longrightarrow> (of_nat n :: u32) = 0 \<longleftrightarrow> n = 0"
  by (auto simp: word_of_nat_eq_0_iff dest: dvd_imp_le)

lemma decode_encode:
  assumes "i \<noteq> 0" and "method \<noteq> []" and "length method \<le> 32" and "target \<noteq> []" and "length target \<le> 2048"
    and "length headers \<le> 16384" and "32 + length method + length target + length headers + length body < W32"
  obtains b v where "encode_http_request i method target headers body = Inr b"
    and "decode_http_request (Some (buf_bytes b)) = Some v"
    and "rv_request_id v = i" "unat (rv_method_size v) = length method" "unat (rv_target_size v) = length target"
      "unat (rv_headers_size v) = length headers" "unat (rv_body_size v) = length body"
    and "drop 32 (buf_bytes b) = text_bytes method @ text_bytes target @ text_bytes headers @ body"
proof -
  let ?n = "32 + length method + length target + length headers + length body"
  define bs where "bs = [byte_of_char (CHR ''S''), byte_of_char (CHR ''E''), byte_of_char (CHR ''H''), 1]
            @ write_u32 (of_nat ?n) @ write_u32 (ucast i) @ write_u32 (ucast (drop_bit 32 i))
            @ write_u32 (of_nat (length method)) @ write_u32 (of_nat (length target))
            @ write_u32 (of_nat (length headers)) @ write_u32 (of_nat (length body))
            @ text_bytes method @ text_bytes target @ text_bytes headers @ body"
  have enc: "encode_http_request i method target headers body = Inr (Buffer_of_vector bs)"
    using assms(7) by (simp add: encode_http_request_def http_envelope_bytes_def bs_def)
  have len: "length bs = ?n"
    by (simp add: bs_def)
  have magic: "bs ! 0 = byte_of_char (CHR ''S'')" "bs ! 1 = byte_of_char (CHR ''E'')"
    "bs ! 2 = byte_of_char (CHR ''H'')" "bs ! 3 = 1"
    by (simp_all add: bs_def)
  have rd: "read_u32 (drop 4 bs) = of_nat ?n" "read_u32 (drop 8 bs) = ucast i"
    "read_u32 (drop 12 bs) = ucast (drop_bit 32 i)" "read_u32 (drop 16 bs) = of_nat (length method)"
    "read_u32 (drop 20 bs) = of_nat (length target)" "read_u32 (drop 24 bs) = of_nat (length headers)"
    "read_u32 (drop 28 bs) = of_nat (length body)"
    by (simp_all add: bs_def)
  have total: "unat (read_u32 (drop 4 bs)) = length bs"
    unfolding rd(1) len using assms(7) by (rule unat_of_nat_u32)
  have small: "length method < W32" "length target < W32" "length headers < W32" "length body < W32"
    using assms(7) by simp_all
  have "decode_http_request (Some bs) \<noteq> None"
    using assms small len magic rd(2-) total
    by (simp add: decode_http_request_def Let_def http_envelope_bytes_def http_header_limit_def
        word_split_join unat_of_nat_u32 of_nat_u32_zero)
  then obtain v where v: "decode_http_request (Some bs) = Some v"
    by auto
  then have "rv_request_id v = i" "rv_method_size v = of_nat (length method)"
    "rv_target_size v = of_nat (length target)" "rv_headers_size v = of_nat (length headers)"
    "rv_body_size v = of_nat (length body)"
    by (auto simp: decode_http_request_def Let_def rd(2-) word_split_join split: if_splits)
  moreover have "drop 32 bs = text_bytes method @ text_bytes target @ text_bytes headers @ body"
    by (simp add: bs_def)
  ultimately show ?thesis
    using that [of "Buffer_of_vector bs" v] enc v small by (simp add: Buffer_of_vector_def unat_of_nat_u32)
qed

text \<open>
  C4. The envelope round trip: a request with a nonzero id, a method of 1 to 32 bytes, a target
  of 1 to 2048 bytes, at most 16 KiB of headers and a total that fits 32 bits is encoded, and
  decoding the result gives back the id and, through its slices, exactly the four parts.
\<close>

theorem http_request_roundtrip:
  assumes "i \<noteq> 0" and "method \<noteq> []" and "length method \<le> 32" and "target \<noteq> []" and "length target \<le> 2048"
    and "length headers \<le> 16384" and "32 + length method + length target + length headers + length body < W32"
  shows "\<exists>b v. encode_http_request i method target headers body = Inr b
    \<and> decode_http_request (Some (buf_bytes b)) = Some v \<and> rv_request_id v = i
    \<and> view_slice (buf_bytes b) (rv_method_offset v) (rv_method_size v) = text_bytes method
    \<and> view_slice (buf_bytes b) (rv_target_offset v) (rv_target_size v) = text_bytes target
    \<and> view_slice (buf_bytes b) (rv_headers_offset v) (rv_headers_size v) = text_bytes headers
    \<and> view_slice (buf_bytes b) (rv_body_offset v) (rv_body_size v) = body"
proof -
  obtain b v where e: "encode_http_request i method target headers body = Inr b"
    and d: "decode_http_request (Some (buf_bytes b)) = Some v"
    and s: "rv_request_id v = i" "unat (rv_method_size v) = length method"
      "unat (rv_target_size v) = length target" "unat (rv_headers_size v) = length headers"
      "unat (rv_body_size v) = length body"
    and tail: "drop 32 (buf_bytes b) = text_bytes method @ text_bytes target @ text_bytes headers @ body"
    using decode_encode [OF assms] by blast
  note l = decode_layout(1-4) [OF d]
  have shift: "drop (32 + k) (buf_bytes b) = drop k (text_bytes method @ text_bytes target @ text_bytes headers @ body)" for k
    by (metis drop_drop add.commute tail)
  have "view_slice (buf_bytes b) (rv_method_offset v) (rv_method_size v) = text_bytes method"
    using shift [of 0] by (simp add: view_slice_def l s)
  moreover have "view_slice (buf_bytes b) (rv_target_offset v) (rv_target_size v) = text_bytes target"
    using shift [of "length method"] by (simp add: view_slice_def l s)
  moreover have "view_slice (buf_bytes b) (rv_headers_offset v) (rv_headers_size v) = text_bytes headers"
    using shift [of "length method + length target"] by (simp add: view_slice_def l s add.assoc)
  moreover have "view_slice (buf_bytes b) (rv_body_offset v) (rv_body_size v) = body"
    using shift [of "length method + length target + length headers"] by (simp add: view_slice_def l s add.assoc)
  ultimately show ?thesis
    using e d s(1) by blast
qed

theorem http_request_roundtrip_witness:
  "\<exists>b v. encode_http_request 7 ''GET'' ''/'' [] [1, 2] = Inr b
    \<and> decode_http_request (Some (buf_bytes b)) = Some v \<and> rv_request_id v = 7
    \<and> view_slice (buf_bytes b) (rv_body_offset v) (rv_body_size v) = [1, 2]"
  using http_request_roundtrip [of 7 "''GET''" "''/''" "[]" "[1, 2]"] by auto

definition sample_envelope :: bytes where
  "sample_envelope = [0x53, 0x45, 0x48, 1, 36, 0, 0, 0, 7, 0, 0, 0, 0, 0, 0, 0, 3, 0, 0, 0, 1, 0, 0, 0,
     0, 0, 0, 0, 0, 0, 0, 0, 0x47, 0x45, 0x54, 0x2F]"

lemma sample_envelope_decodes: "\<exists>v. decode_http_request (Some sample_envelope) = Some v"
  by (simp add: decode_http_request_def sample_envelope_def http_envelope_bytes_def read_u32_def upt4
      byte_of_char_def http_header_limit_def Let_def)

theorem decode_http_in_bounds_witness:
  "\<exists>v. decode_http_request (Some sample_envelope) = Some v
     \<and> unat (rv_body_offset v) + unat (rv_body_size v) = length sample_envelope"
  using sample_envelope_decodes decode_http_in_bounds by blast

section \<open>Responses\<close>

lemma crlf_codes: "(of_char CR :: nat) = 13" "(of_char LF :: nat) = 10"
  by simp_all

lemma valid_value_no_crlf:
  assumes "valid_value s"
  shows "CR \<notin> set s \<and> LF \<notin> set s"
proof -
  have "c \<in> set s \<Longrightarrow> c = CHR 9 \<or> (of_char c :: nat) \<ge> 32" for c
    using assms by (auto simp: valid_value_def list_all_iff)
  from this [of CR] this [of LF] show ?thesis
    by (auto simp: crlf_codes)
qed

lemma token_no_crlf:
  assumes "list_all token_character s"
  shows "CR \<notin> set s \<and> LF \<notin> set s"
proof -
  have "\<not> token_character CR" "\<not> token_character LF"
    by (simp_all add: token_character_def)
  then show ?thesis
    using assms by (auto simp: list_all_iff)
qed

lemma validate_headers_ok:
  "validate_headers hs n = Inr m \<Longrightarrow>
     m = n + sum_list (map (\<lambda>h. length (hh_name h) + length (hh_value h) + 4) hs)
     \<and> (hs = [] \<or> m \<le> http_header_limit)
     \<and> list_all (\<lambda>h. list_all token_character (hh_name h) \<and> valid_value (hh_value h) \<and> \<not> engine_header (hh_name h)) hs"
  by (induction hs n rule: validate_headers.induct) (auto simp: Let_def split: if_splits)

text \<open>The names that the engine writes itself are reserved, in any spelling of upper and lower case.\<close>

lemma reserved_lowercase:
  "map lowercase_copy reserved_headers = [''content-length'', ''transfer-encoding'', ''connection'', ''upgrade'',
     ''trailer'', ''keep-alive'', ''proxy-connection'', ''te'', ''content-type'']"
  by code_simp

lemma engine_header_names:
  "engine_header name \<longleftrightarrow> lowercase_copy name \<in> {''content-length'', ''transfer-encoding'', ''connection'', ''upgrade'',
     ''trailer'', ''keep-alive'', ''proxy-connection'', ''te'', ''content-type''}"
proof -
  have "engine_header name \<longleftrightarrow> lowercase_copy name \<in> set (map lowercase_copy reserved_headers)"
    by (auto simp: engine_header_def list_ex_iff)
  then show ?thesis unfolding reserved_lowercase by simp
qed

text \<open>
  C9. Responses cannot smuggle headers: an accepted response has no carriage return or line feed in
  its content type, header names or values, none of its headers is, in any spelling, one of the nine that
  frame the message or manage the connection (content length and type, transfer encoding, connection,
  keep-alive, proxy connection, upgrade, trailer and TE), and the reported bound is 256 bytes plus exactly
  the bytes that its content type and headers take, within 16 KiB.
\<close>

theorem http_response_no_injection:
  assumes "validate_http_response r max_body_bytes = Inr header_bytes"
  shows "list_all (\<lambda>h. CR \<notin> set (hh_name h @ hh_value h) \<and> LF \<notin> set (hh_name h @ hh_value h)
        \<and> map tolower (hh_name h) \<notin> {''content-length'', ''transfer-encoding'', ''connection'', ''upgrade'',
             ''trailer'', ''keep-alive'', ''proxy-connection'', ''te'', ''content-type''}) (hr_headers r)
    \<and> CR \<notin> set (hr_content_type r) \<and> LF \<notin> set (hr_content_type r)
    \<and> buffer_size (hr_body r) \<le> max_body_bytes
    \<and> header_bytes = 256 + length (hr_content_type r)
        + sum_list (map (\<lambda>h. length (hh_name h) + length (hh_value h) + 4) (hr_headers r))
    \<and> header_bytes \<le> 16384"
proof -
  have h: "validate_headers (hr_headers r) (256 + length (hr_content_type r)) = Inr header_bytes"
    and v: "valid_value (hr_content_type r)" "length (hr_content_type r) \<le> 1024"
      "buffer_size (hr_body r) \<le> max_body_bytes"
    using assms by (auto simp: validate_http_response_def split: if_splits)
  note ok = validate_headers_ok [OF h]
  then have "list_all (\<lambda>h. CR \<notin> set (hh_name h @ hh_value h) \<and> LF \<notin> set (hh_name h @ hh_value h)
      \<and> \<not> engine_header (hh_name h)) (hr_headers r)"
    by (auto simp: list_all_iff dest!: bspec valid_value_no_crlf token_no_crlf [unfolded list_all_iff])
  then show ?thesis
    unfolding engine_header_names lowercase_copy_def
    using ok v valid_value_no_crlf [OF v(1)] by (auto simp: http_header_limit_def)
qed

definition plain_response :: http_response where
  "plain_response = \<lparr>hr_status_code = 200, hr_close_connection = False, hr_content_type = ''text/plain'',
     hr_headers = [\<lparr>hh_name = ''X-A'', hh_value = ''1''\<rparr>], hr_body = Buffer_empty\<rparr>"

theorem http_response_no_injection_witness:
  "validate_http_response plain_response 10 = Inr 274
   \<and> list_all (\<lambda>h. CR \<notin> set (hh_name h @ hh_value h) \<and> LF \<notin> set (hh_name h @ hh_value h)
        \<and> map tolower (hh_name h) \<notin> {''content-length'', ''transfer-encoding'', ''connection'', ''upgrade'',
             ''trailer'', ''keep-alive'', ''proxy-connection'', ''te'', ''content-type''}) (hr_headers plain_response)
   \<and> CR \<notin> set (hr_content_type plain_response)"
proof -
  have "validate_http_response plain_response 10 = Inr 274"
    by (simp add: validate_http_response_def plain_response_def buffer_defs valid_value_def http_header_limit_def
        token_character_def engine_header_def reserved_headers_def lowercase_copy_def tolower_def Let_def)
  then show ?thesis
    using http_response_no_injection [of plain_response 10 274] by blast
qed

end
