(* ===== verification/Http_Connection.thy ===== *)
theory Http_Connection
  imports Stream_Connections Http_Codec
begin

text \<open>
  \<^verbatim>\<open>HttpConnection\<close> (src/src/Net/Async/HttpConnection.h): one request at a time is read,
  validated, put into an event envelope and handed to the application, which answers it by id.
  \<^verbatim>\<open>beast\<close> parses the request and reports whether the body is complete; the parsed request is an
  argument of the handlers. \<open>ht_sent\<close> collects the responses given to \<^verbatim>\<open>async_write\<close>.
\<close>

section \<open>Operations\<close>

definition http_channel :: "u64 \<Rightarrow> 'a worker \<Rightarrow> (connection \<times> http_part) option" where
  "http_channel i w =
     (case umap_find (wc_connections w) i of
        None \<Rightarrow> None
      | Some c \<Rightarrow> (case cn_channel c of Http_channel t \<Rightarrow> Some (c, t) | _ \<Rightarrow> None))"

definition http_read_request :: "u64 \<Rightarrow> http_part \<Rightarrow> 'a worker \<Rightarrow> 'a worker" where
  "http_read_request i t w =
     set_channel i (Http_channel (t\<lparr>ht_stage := Ht_header\<rparr>)) (begin_handshake_deadline i w)"

definition http_begin_requests :: "u64 \<Rightarrow> http_part \<Rightarrow> 'a worker \<Rightarrow> 'a worker" where
  "http_begin_requests i t w =
     (let (w1, ok) = publish_open i w in if ok then http_read_request i t w1 else w1)"

definition http_start :: "u64 \<Rightarrow> 'a worker \<Rightarrow> 'a worker" where
  "http_start i w =
     (case http_channel i w of
        None \<Rightarrow> w
      | Some (c, t) \<Rightarrow>
          if ht_tls t
          then set_channel i (Http_channel (t\<lparr>ht_stage := Ht_handshake\<rparr>)) (begin_handshake_deadline i w)
          else http_begin_requests i t w)"

definition http_on_handshake :: "u64 \<Rightarrow> io_error option \<Rightarrow> 'a worker \<Rightarrow> 'a worker" where
  "http_on_handshake i error w =
     (case http_channel i w of
        None \<Rightarrow> w
      | Some (c, t) \<Rightarrow>
          if ht_stage t \<noteq> Ht_handshake then w
          else (case error of
                  Some e \<Rightarrow> conn_fail i e ''HTTPS handshake'' w
                | None \<Rightarrow>
                    http_begin_requests i t (set_channel i (Http_channel (t\<lparr>ht_stage := Ht_idle\<rparr>)) w)))"

definition http_send :: "'a worker \<Rightarrow> 'a worker \<times> unit res" where
  "http_send w = (w, Inl ''Use se_http_respond with a request ID for HTTP sessions'')"

text \<open>\<^verbatim>\<open>write_response\<close>: the pending id is invalidated before the write is posted.\<close>

definition http_write_response :: "u64 \<Rightarrow> http_part \<Rightarrow> http_message \<Rightarrow> 'a worker \<Rightarrow> 'a worker" where
  "http_write_response i t message w =
     set_channel i (Http_channel (t\<lparr>ht_pending_request_id := 0, ht_stage := Ht_writing (hm_keep_alive message),
         ht_sent := ht_sent t @ [message]\<rparr>))
       (touch_idle_deadline i w)"

definition http_error_message :: "nat \<Rightarrow> http_message" where
  "http_error_message status =
     \<lparr>hm_status = status, hm_keep_alive = False, hm_content_type = None, hm_headers = [],
      hm_content_length = Some 0, hm_body = []\<rparr>"

definition reject_http :: "u64 \<Rightarrow> http_part \<Rightarrow> nat \<Rightarrow> 'a worker \<Rightarrow> 'a worker" where
  "reject_http i t status w =
     (if max_send_queue_bytes (wc_limits w) < 256 then conn_close i w
      else http_write_response i t (http_error_message status) w)"

definition field_count :: "string \<Rightarrow> http_request \<Rightarrow> nat" where
  "field_count name rq = length (filter (\<lambda>h. lowercase_copy (hh_name h) = name) (rq_fields rq))"

definition first_field :: "string \<Rightarrow> http_request \<Rightarrow> string" where
  "first_field name rq =
     (case filter (\<lambda>h. lowercase_copy (hh_name h) = name) (rq_fields rq) of [] \<Rightarrow> [] | h # _ \<Rightarrow> hh_value h)"

text \<open>The status a request is refused with, if any. \<open>rq_version\<close> is ten times major plus minor.\<close>

definition validate_request_header :: "http_request \<Rightarrow> nat option" where
  "validate_request_header rq =
     (if rq_version rq \<noteq> 11 then Some 505
      else if field_count ''host'' rq \<noteq> 1 \<or> first_field ''host'' rq = [] then Some 400
      else if field_count ''expect'' rq \<noteq> 0 then Some 417
      else if rq_method rq = ''CONNECT'' \<or> field_count ''upgrade'' rq \<noteq> 0 then Some 501
      else
        (let target = rq_target rq;
             origin_form = (target \<noteq> [] \<and> hd target = CHR ''/'');
             options_star = (target = ''*'' \<and> rq_method rq = ''OPTIONS'')
         in if (\<not> origin_form \<and> \<not> options_star) \<or> length target > 2048 \<or> CHR ''#'' \<in> set target
               \<or> rq_method rq = [] \<or> length (rq_method rq) > 32
            then Some 400 else None))"

text \<open>The header block; \<open>None\<close> when it would exceed the limit.\<close>

fun header_block :: "http_header list \<Rightarrow> string \<Rightarrow> string option" where
  "header_block [] headers = Some headers"
| "header_block (h # hs) headers =
     (if length (hh_name h) + length (hh_value h) + 4 > http_header_limit - length headers then None
      else header_block hs (headers @ hh_name h @ '': '' @ hh_value h @ [CR, LF]))"

definition http_dispatch_request :: "u64 \<Rightarrow> http_part \<Rightarrow> http_request \<Rightarrow> 'a worker \<Rightarrow> 'a worker" where
  "http_dispatch_request i t rq w =
     (case validate_request_header rq of
        Some status \<Rightarrow> reject_http i t status w
      | None \<Rightarrow>
          (case header_block (rq_fields rq) [] of
             None \<Rightarrow> reject_http i t 431 w
           | Some headers \<Rightarrow>
               (let total = http_envelope_bytes + length (rq_method rq) + length (rq_target rq)
                      + length headers + length (rq_body rq)
                in if total > max_message_bytes (wc_limits w) then reject_http i t 413 w
                   else
                     (let (w1, rid) = allocate_http_request_id w in
                      if rid = 0 then conn_reject i ''HTTP request ID space exhausted'' w1
                      else
                        (case encode_http_request rid (rq_method rq) (rq_target rq) headers (rq_body rq) of
                           Inl _ \<Rightarrow> conn_close i w1
                         | Inr payload \<Rightarrow>
                             (let w2 = set_channel i (Http_channel (t\<lparr>ht_pending_request_id := rid,
                                        ht_head_request := (rq_method rq = ''HEAD''),
                                        ht_request_keep_alive := rq_keep_alive rq,
                                        ht_stage := Ht_dispatched\<rparr>)) w1
                              in case umap_find (wc_connections w2) i of
                                   None \<Rightarrow> w2
                                 | Some c \<Rightarrow>
                                     (let (w3, ok) = notify_http_request (cn_peer c) payload w2
                                      in if \<not> ok then conn_close i w3 else touch_idle_deadline i w3)))))))"

datatype http_read_error =
  Rq_end_of_stream | Rq_aborted | Rq_body_limit | Rq_header_limit | Rq_buffer_overflow | Rq_other

definition http_read_failed :: "u64 \<Rightarrow> http_part \<Rightarrow> http_read_error \<Rightarrow> 'a worker \<Rightarrow> 'a worker" where
  "http_read_failed i t error w =
     (case error of
        Rq_end_of_stream \<Rightarrow> conn_close i w
      | Rq_aborted \<Rightarrow> conn_close i w
      | Rq_body_limit \<Rightarrow> reject_http i t 413 w
      | Rq_header_limit \<Rightarrow> reject_http i t 431 w
      | Rq_buffer_overflow \<Rightarrow> reject_http i t 431 w
      | Rq_other \<Rightarrow> reject_http i t 400 w)"

text \<open>Headers read: the request so far and whether the parser is done.\<close>

definition http_on_header :: "u64 \<Rightarrow> http_read_error + (http_request \<times> bool) \<Rightarrow> 'a worker \<Rightarrow> 'a worker" where
  "http_on_header i result w =
     (case http_channel i w of
        None \<Rightarrow> w
      | Some (c, t) \<Rightarrow>
          if ht_stage t \<noteq> Ht_header then w
          else (case result of
                  Inl e \<Rightarrow> http_read_failed i t e w
                | Inr (rq, is_done) \<Rightarrow>
                    (case validate_request_header rq of
                       Some status \<Rightarrow> reject_http i t status w
                     | None \<Rightarrow>
                         if is_done then http_dispatch_request i t rq w
                         else set_channel i (Http_channel (t\<lparr>ht_stage := Ht_body\<rparr>)) w)))"

definition http_on_body :: "u64 \<Rightarrow> http_read_error + http_request \<Rightarrow> 'a worker \<Rightarrow> 'a worker" where
  "http_on_body i result w =
     (case http_channel i w of
        None \<Rightarrow> w
      | Some (c, t) \<Rightarrow>
          if ht_stage t \<noteq> Ht_body then w
          else (case result of
                  Inl e \<Rightarrow> http_read_failed i t e w
                | Inr rq \<Rightarrow> http_dispatch_request i t rq w))"

definition http_make_response :: "http_part \<Rightarrow> http_response \<Rightarrow> nat option \<Rightarrow> bytes \<Rightarrow> http_message" where
  "http_make_response t r content_length body =
     \<lparr>hm_status = hr_status_code r,
      hm_keep_alive = (ht_request_keep_alive t \<and> \<not> hr_close_connection r),
      hm_content_type = Some (hr_content_type r), hm_headers = hr_headers r,
      hm_content_length = content_length, hm_body = body\<rparr>"

definition http_respond :: "u64 \<Rightarrow> u64 \<Rightarrow> http_response \<Rightarrow> 'a worker \<Rightarrow> 'a worker \<times> unit res" where
  "http_respond i request_id r w =
     (case http_channel i w of
        None \<Rightarrow> (w, Inl ''HTTP request is stale, already answered, or session is closed'')
      | Some (c, t) \<Rightarrow>
          if \<not> cn_opened c \<or> request_id = 0 \<or> ht_pending_request_id t \<noteq> request_id
          then (w, Inl ''HTTP request is stale, already answered, or session is closed'')
          else
            (case validate_http_response r (max_message_bytes (wc_limits w)) of
               Inl e \<Rightarrow> (w, Inl e)
             | Inr header_bytes \<Rightarrow>
                 (let body_bytes = (if ht_head_request t then 0 else buffer_size (hr_body r)) in
                  if header_bytes > max_send_queue_bytes (wc_limits w)
                     \<or> body_bytes > sub64 (max_send_queue_bytes (wc_limits w)) header_bytes
                  then (w, Inl ''HTTP response exceeds the configured send queue limit'')
                  else
                    (let no_content = (hr_status_code r = 204 \<or> hr_status_code r = 304);
                         message =
                           (if ht_head_request t \<or> no_content \<or> hr_status_code r = 205
                            then http_make_response t r
                                   (if no_content then None else Some (buffer_size (hr_body r))) []
                            else http_make_response t r (Some (buffer_size (hr_body r))) (buf_bytes (hr_body r)))
                     in (http_write_response i t message w, Inr ())))))"

definition http_on_write :: "u64 \<Rightarrow> io_error option \<Rightarrow> 'a worker \<Rightarrow> 'a worker" where
  "http_on_write i error w =
     (case http_channel i w of
        None \<Rightarrow> w
      | Some (c, t) \<Rightarrow>
          (case ht_stage t of
             Ht_writing keep_alive \<Rightarrow>
               (case error of
                  Some e \<Rightarrow> conn_fail i e ''HTTP write response'' w
                | None \<Rightarrow> if \<not> keep_alive then conn_close i w else http_read_request i t w)
           | _ \<Rightarrow> w))"

section \<open>Invariant\<close>

lemma http_channelD:
  "http_channel i w = Some (c, t) \<Longrightarrow> umap_find (wc_connections w) i = Some c \<and> cn_channel c = Http_channel t"
  by (auto simp: http_channel_def split: option.splits channel.splits)

lemma http_channel_inv:
  assumes "worker_inv pr w" and "http_channel i w = Some (c, t)"
  shows "umap_find (wc_connections w) i = Some c" and "channel_ok (wc_limits w) (Http_channel t)"
    and "read_ok (cn_opened c) (Http_channel t)"
  using http_channelD [OF assms(2)] worker_inv_conn(2) [OF assms(1), of i c] by (auto simp: conn_ok_def)

lemma http_ok_simps [simp]:
  "read_ok b (Http_channel t) = (case ht_stage t of Ht_idle \<Rightarrow> True | Ht_handshake \<Rightarrow> \<not> b | _ \<Rightarrow> b)"
  "channel_ok limits (Http_channel t) = (ht_pending_request_id t \<noteq> 0 \<longrightarrow> ht_stage t = Ht_dispatched)"
  by (simp_all add: read_ok_def channel_ok_def)

lemma http_write_inv:
  assumes "worker_inv pr w" and "umap_find (wc_connections w) i = Some c" and "cn_opened c"
  shows "worker_inv pr (http_write_response i t m w)"
  using assms by (auto simp: http_write_response_def intro!: worker_inv_channel worker_inv_deadlines)

lemma reject_http_inv:
  assumes "worker_inv pr w" and "umap_find (wc_connections w) i = Some c" and "cn_opened c"
  shows "worker_inv pr (reject_http i t status w)"
  using assms http_write_inv [OF assms] by (simp add: reject_http_def worker_inv_close)

lemma http_read_inv:
  assumes "worker_inv pr w" and "umap_find (wc_connections w) i = Some c" and "cn_opened c"
    and "ht_pending_request_id t = 0"
  shows "worker_inv pr (http_read_request i t w)"
  using assms by (auto simp: http_read_request_def intro!: worker_inv_channel worker_inv_deadlines)

lemma http_begin_inv:
  assumes "worker_inv pr w" and "umap_find (wc_connections w) i = Some c" and "\<not> cn_opened c"
    and "read_ok True (cn_channel c)" and "ht_pending_request_id t = 0"
  shows "worker_inv pr (http_begin_requests i t w)"
  using publish_open_spec [OF assms(1-4)] assms(5)
  by (auto simp: http_begin_requests_def case_prod_beta Let_def intro!: http_read_inv)

lemma http_start_inv:
  assumes "worker_inv pr w" and "umap_find (wc_connections w) i = Some c" and "\<not> cn_opened c"
    and "cn_channel c = Http_channel t" and "ht_stage t = Ht_idle" and "ht_pending_request_id t = 0"
  shows "worker_inv pr (http_start i w)"
proof -
  have "http_channel i w = Some (c, t)"
    using assms by (simp add: http_channel_def)
  moreover have "worker_inv pr (http_begin_requests i t w)"
    using assms(4-6) by (intro http_begin_inv [OF assms(1-3)]) simp_all
  moreover have "worker_inv pr (set_channel i (Http_channel (t\<lparr>ht_stage := Ht_handshake\<rparr>)) (begin_handshake_deadline i w))"
    using assms by (auto intro!: worker_inv_channel worker_inv_deadlines)
  ultimately show ?thesis
    by (simp add: http_start_def)
qed

lemma http_handshake_inv [inv_rules]: "worker_inv pr w \<Longrightarrow> worker_inv pr (http_on_handshake i e w)"
proof (cases "http_channel i w")
  case (Some ct)
  assume inv: "worker_inv pr w"
  obtain c t where t: "http_channel i w = Some (c, t)"
    using Some by (cases ct) auto
  note ok = http_channel_inv [OF inv t]
  let ?w = "set_channel i (Http_channel (t\<lparr>ht_stage := Ht_idle\<rparr>)) w"
  have "worker_inv pr (http_begin_requests i t ?w)" if "ht_stage t = Ht_handshake"
  proof (rule http_begin_inv)
    show "worker_inv pr ?w" using ok that inv by (auto intro!: worker_inv_channel)
    show "umap_find (wc_connections ?w) i = Some (c\<lparr>cn_channel := Http_channel (t\<lparr>ht_stage := Ht_idle\<rparr>)\<rparr>)"
      using ok by simp
  qed (use ok that in auto)
  then show ?thesis
    using inv by (auto simp: http_on_handshake_def t split: option.splits intro: inv_rules)
qed (simp add: http_on_handshake_def)

lemma allocate_http_frame [simp]:
  "wc_connections (fst (allocate_http_request_id w)) = wc_connections w"
  "wc_limits (fst (allocate_http_request_id w)) = wc_limits w"
  "wc_trace (fst (allocate_http_request_id w)) = wc_trace w"
  "wc_next_session_id (fst (allocate_http_request_id w)) = wc_next_session_id w"
  "wc_udp (fst (allocate_http_request_id w)) = wc_udp w"
  "wc_callbacks (fst (allocate_http_request_id w)) = wc_callbacks w"
  by (simp_all add: allocate_http_request_id_def)

lemma worker_inv_http_id [inv_rules]: "worker_inv pr w \<Longrightarrow> worker_inv pr (fst (allocate_http_request_id w))"
  by (subst worker_inv_cong [of _ w]) simp_all

lemma http_dispatch_inv:
  assumes inv: "worker_inv pr w" and f: "umap_find (wc_connections w) i = Some c" and o: "cn_opened c"
  shows "worker_inv pr (http_dispatch_request i t rq w)"
proof -
  let ?w1 = "fst (allocate_http_request_id w)"
  have 1: "worker_inv pr ?w1"
    using inv by (rule worker_inv_http_id)
  have 2: "worker_inv pr (set_channel i (Http_channel t') ?w1)" if "ht_stage t' = Ht_dispatched" for t'
    using 1 f o that by (auto intro!: worker_inv_channel)
  have 3: "worker_inv pr (fst (notify_http_request (cn_peer c) b (set_channel i (Http_channel t') ?w1)))"
    if "ht_stage t' = Ht_dispatched" for t' b
    using worker_inv_notify_message(2) [OF 2 [OF that], of i "c\<lparr>cn_channel := Http_channel t'\<rparr>" b] f o by simp
  show ?thesis
    using f reject_http_inv [OF inv f o] 1 3
    by (auto simp: http_dispatch_request_def case_prod_beta Let_def split: option.splits sum.splits
        intro!: worker_inv_close worker_inv_reject worker_inv_deadlines)
qed

lemma http_failed_inv:
  assumes "worker_inv pr w" and "umap_find (wc_connections w) i = Some c" and "cn_opened c"
  shows "worker_inv pr (http_read_failed i t e w)"
  using assms reject_http_inv [OF assms]
  by (auto simp: http_read_failed_def split: http_read_error.splits intro: inv_rules)

lemma http_header_inv [inv_rules]: "worker_inv pr w \<Longrightarrow> worker_inv pr (http_on_header i r w)"
proof (cases "http_channel i w")
  case (Some ct)
  assume inv: "worker_inv pr w"
  obtain c t where t: "http_channel i w = Some (c, t)"
    using Some by (cases ct) auto
  note ok = http_channel_inv [OF inv t]
  show ?thesis
  proof (cases "ht_stage t = Ht_header")
    case True
    then have o: "cn_opened c" using ok by simp
    show ?thesis
      using ok True inv reject_http_inv [OF inv ok(1) o] http_dispatch_inv [OF inv ok(1) o]
        http_failed_inv [OF inv ok(1) o]
      by (auto simp: http_on_header_def t split: sum.splits option.splits intro!: worker_inv_channel)
  qed (use inv t in \<open>simp add: http_on_header_def\<close>)
qed (simp add: http_on_header_def)

lemma http_body_inv [inv_rules]: "worker_inv pr w \<Longrightarrow> worker_inv pr (http_on_body i r w)"
proof (cases "http_channel i w")
  case (Some ct)
  assume inv: "worker_inv pr w"
  obtain c t where t: "http_channel i w = Some (c, t)"
    using Some by (cases ct) auto
  note ok = http_channel_inv [OF inv t]
  show ?thesis
  proof (cases "ht_stage t = Ht_body")
    case True
    then have o: "cn_opened c" using ok by simp
    show ?thesis
      using True http_dispatch_inv [OF inv ok(1) o] http_failed_inv [OF inv ok(1) o]
      by (auto simp: http_on_body_def t split: sum.splits)
  qed (use inv t in \<open>simp add: http_on_body_def\<close>)
qed (simp add: http_on_body_def)

lemma http_respond_inv [inv_rules]: "worker_inv pr w \<Longrightarrow> worker_inv pr (fst (http_respond i rid r w))"
proof (cases "http_channel i w")
  case (Some ct)
  assume inv: "worker_inv pr w"
  obtain c t where t: "http_channel i w = Some (c, t)"
    using Some by (cases ct) auto
  note ok = http_channel_inv [OF inv t]
  show ?thesis
    using inv http_write_inv [OF inv ok(1)]
    by (auto simp: http_respond_def t Let_def split: sum.splits)
qed (simp add: http_respond_def)

lemma http_written_inv [inv_rules]: "worker_inv pr w \<Longrightarrow> worker_inv pr (http_on_write i e w)"
proof (cases "http_channel i w")
  case (Some ct)
  assume inv: "worker_inv pr w"
  obtain c t where t: "http_channel i w = Some (c, t)"
    using Some by (cases ct) auto
  note ok = http_channel_inv [OF inv t]
  show ?thesis
    using ok inv http_read_inv [OF inv ok(1), of t]
    by (auto simp: http_on_write_def t split: http_stage.splits option.splits intro: inv_rules)
qed (simp add: http_on_write_def)

section \<open>Properties\<close>

lemma close_no_request:
  "N_Http_request p b ok \<in> set (wc_trace (conn_close i w)) \<longleftrightarrow> N_Http_request p b ok \<in> set (wc_trace w)"
  by (auto simp: conn_close_def remove_connection_def Let_def split: option.splits channel.splits)

lemma reject_no_request:
  "N_Http_request p b ok \<in> set (wc_trace (reject_http i t s w)) \<longleftrightarrow> N_Http_request p b ok \<in> set (wc_trace w)"
  "N_Http_request p b ok \<in> set (wc_trace (conn_reject i r w)) \<longleftrightarrow> N_Http_request p b ok \<in> set (wc_trace w)"
  by (auto simp: reject_http_def close_no_request http_write_response_def touch_idle_deadline_def
      conn_reject_def report_error_def split: option.splits)

lemma header_block_limit:
  "header_block hs acc = Some headers \<Longrightarrow> length acc \<le> http_header_limit \<Longrightarrow> length headers \<le> http_header_limit"
  by (induction hs acc rule: header_block.induct) (auto split: if_splits)

lemma valid_request_shape:
  "validate_request_header rq = None \<Longrightarrow>
     rq_method rq \<noteq> [] \<and> length (rq_method rq) \<le> 32 \<and> rq_target rq \<noteq> [] \<and> length (rq_target rq) \<le> 2048"
  by (auto simp: validate_request_header_def Let_def split: if_splits)

text \<open>A request reaches the application only through one branch of the dispatch.\<close>

lemma dispatch_request_notified:
  assumes "N_Http_request p b ok \<in> set (wc_trace (http_dispatch_request i t rq w))"
    and "N_Http_request p b ok \<notin> set (wc_trace w)"
  obtains headers where "validate_request_header rq = None" and "header_block (rq_fields rq) [] = Some headers"
    and "32 + length (rq_method rq) + length (rq_target rq) + length headers + length (rq_body rq)
      \<le> max_message_bytes (wc_limits w)"
    and "wc_next_http_request_id w \<noteq> 0"
    and "encode_http_request (wc_next_http_request_id w) (rq_method rq) (rq_target rq) headers (rq_body rq) = Inr b"
proof -
  have rid: "snd (allocate_http_request_id w) = wc_next_http_request_id w"
    by (simp add: allocate_http_request_id_def)
  obtain headers where h: "validate_request_header rq = None" "header_block (rq_fields rq) [] = Some headers"
    using assms by (auto simp: http_dispatch_request_def reject_no_request split: option.splits)
  moreover have tot: "\<not> http_envelope_bytes + length (rq_method rq) + length (rq_target rq) + length headers
      + length (rq_body rq) > max_message_bytes (wc_limits w)"
    using assms h by (auto simp: http_dispatch_request_def reject_no_request)
  moreover have z: "wc_next_http_request_id w \<noteq> 0"
    using assms h tot by (auto simp: http_dispatch_request_def reject_no_request case_prod_beta Let_def rid)
  moreover obtain b' where e: "encode_http_request (wc_next_http_request_id w) (rq_method rq) (rq_target rq)
      headers (rq_body rq) = Inr b'"
    using assms h tot z
    by (auto simp: http_dispatch_request_def close_no_request case_prod_beta Let_def rid split: sum.splits)
  moreover have "b = b'"
    using assms h tot z e
    by (auto simp: http_dispatch_request_def close_no_request case_prod_beta Let_def rid touch_idle_deadline_def
        split: option.splits if_splits)
  ultimately show ?thesis
    using that by (simp add: http_envelope_bytes_def)
qed

text \<open>
  Every HTTP request handed to the application can be decoded: its payload decodes to a view
  with the next request id, and the slices of the view are the method, the target, the header
  block and the body of the request.
\<close>

theorem http_dispatch_decodes:
  assumes "worker_inv pr w" and "N_Http_request p b ok \<in> set (wc_trace (http_dispatch_request i t rq w))"
    and "N_Http_request p b ok \<notin> set (wc_trace w)"
  shows "\<exists>v headers. decode_http_request (Some (buf_bytes b)) = Some v
    \<and> rv_request_id v = wc_next_http_request_id w \<and> rv_request_id v \<noteq> 0
    \<and> header_block (rq_fields rq) [] = Some headers
    \<and> drop 32 (buf_bytes b) = text_bytes (rq_method rq) @ text_bytes (rq_target rq) @ text_bytes headers @ rq_body rq
    \<and> unat (rv_method_size v) = length (rq_method rq) \<and> unat (rv_target_size v) = length (rq_target rq)
    \<and> unat (rv_headers_size v) = length headers \<and> unat (rv_body_size v) = length (rq_body rq)"
proof -
  obtain headers where h: "validate_request_header rq = None" "header_block (rq_fields rq) [] = Some headers"
    and tot: "32 + length (rq_method rq) + length (rq_target rq) + length headers + length (rq_body rq)
      \<le> max_message_bytes (wc_limits w)"
    and z: "wc_next_http_request_id w \<noteq> 0"
    and e: "encode_http_request (wc_next_http_request_id w) (rq_method rq) (rq_target rq) headers (rq_body rq) = Inr b"
    using dispatch_request_notified [OF assms(2,3)] .
  note shape = valid_request_shape [OF h(1)]
  have hl: "length headers \<le> 16384"
    using header_block_limit [OF h(2)] by (simp add: http_header_limit_def)
  have fits: "32 + length (rq_method rq) + length (rq_target rq) + length headers + length (rq_body rq) < W32"
    using tot worker_inv_limits [OF assms(1)] by simp
  have m: "rq_method rq \<noteq> []" "length (rq_method rq) \<le> 32" "rq_target rq \<noteq> []" "length (rq_target rq) \<le> 2048"
    using shape by simp_all
  obtain b' v where "encode_http_request (wc_next_http_request_id w) (rq_method rq) (rq_target rq) headers
      (rq_body rq) = Inr b'"
    and "decode_http_request (Some (buf_bytes b')) = Some v" "rv_request_id v = wc_next_http_request_id w"
      "unat (rv_method_size v) = length (rq_method rq)" "unat (rv_target_size v) = length (rq_target rq)"
      "unat (rv_headers_size v) = length headers" "unat (rv_body_size v) = length (rq_body rq)"
      "drop 32 (buf_bytes b') = text_bytes (rq_method rq) @ text_bytes (rq_target rq) @ text_bytes headers @ rq_body rq"
    using decode_encode [OF z m hl fits] by blast
  then show ?thesis
    using e h(2) z by (intro exI [of _ v] exI [of _ headers]) simp
qed

lemma http_channel_set [simp]:
  "http_channel i (set_channel i (Http_channel t') w) =
     map_option (\<lambda>c. (c\<lparr>cn_channel := Http_channel t'\<rparr>, t')) (umap_find (wc_connections w) i)"
  by (auto simp: http_channel_def split: option.splits)

text \<open>
  C8. A request is answered at most once and only by its own id: when a response is accepted the
  id was the pending one of an open HTTP session, and a second response with that id is refused
  as stale, whatever it contains.
\<close>

theorem http_answered_once:
  assumes "snd (http_respond i rid r w) = Inr ()"
  shows "(\<exists>c t. http_channel i w = Some (c, t) \<and> cn_opened c \<and> ht_pending_request_id t = rid \<and> rid \<noteq> 0)
    \<and> http_respond i rid r' (fst (http_respond i rid r w)) =
       (fst (http_respond i rid r w), Inl ''HTTP request is stale, already answered, or session is closed'')"
proof -
  obtain c t where t: "http_channel i w = Some (c, t)" "cn_opened c" "ht_pending_request_id t = rid" "rid \<noteq> 0"
    using assms by (auto simp: http_respond_def split: option.splits if_splits)
  then obtain m where w: "fst (http_respond i rid r w) = http_write_response i t m w"
    using assms by (auto simp: http_respond_def Let_def split: sum.splits if_splits)
  have "http_channel i (http_write_response i t m w) \<noteq> None \<longrightarrow>
      ht_pending_request_id (snd (the (http_channel i (http_write_response i t m w)))) = 0"
    by (auto simp: http_write_response_def)
  then show ?thesis
    using t by (auto simp: w http_respond_def [of i rid r'] split: option.splits)
qed

definition sample_http :: http_part where
  "sample_http = \<lparr>ht_tls = False, ht_stage = Ht_header, ht_pending_request_id = 0, ht_head_request = False,
     ht_request_keep_alive = False, ht_sent = []\<rparr>"

definition sample_request :: http_request where
  "sample_request = \<lparr>rq_version = 11, rq_method = ''GET'', rq_target = ''/'',
     rq_fields = [\<lparr>hh_name = ''host'', hh_value = ''a''\<rparr>], rq_body = [], rq_keep_alive = True\<rparr>"

definition sample_http_worker :: "unit worker" where
  "sample_http_worker = \<lparr>wc_limits = \<lparr>worker_threads = 1, max_connections = 4, max_message_bytes = 64,
       max_send_queue_bytes = 400, idle_timeout_ms = 1000\<rparr>,
     wc_callbacks = no_callbacks\<lparr>cb_http_request := Some (\<lambda>_ _ a. (a, Some True))\<rparr>, wc_stopping = False,
     wc_connections = [(1, \<lparr>cn_peer = Peer_default\<lparr>p_session_id := 1\<rparr>,
       cn_config = \<lparr>lc_id = 1, lc_protocol = PHttp, lc_bind_address = ''127.0.0.1'', lc_port = 80,
         lc_security = Sec_None, lc_certificate_chain_file = [], lc_private_key_file = [],
         lc_websocket_path = ''/'', lc_handshake_timeout_ms = 10000\<rparr>,
       cn_opened = True, cn_deadline_generation = 1, cn_channel = Http_channel sample_http\<rparr>)],
     wc_next_session_id = 2, wc_next_http_request_id = 1, wc_udp = [], wc_app = (),
     wc_trace = [N_Open (Peer_default\<lparr>p_session_id := 1\<rparr>) True]\<rparr>"

lemma sample_http_worker_inv: "worker_inv False sample_http_worker"
proof -
  have "session_ok False sample_http_worker i" for i
    by (cases "i = 1")
      (auto simp: session_ok_def registry_entry_ok_def sample_http_worker_def umap_find_def id_used_def
        conn_ok_def phase_of_def phase_step_def notice_session_def sample_http_def)
  then show ?thesis
    by (simp add: worker_inv_def sample_http_worker_def umap_size_def)
qed

lemma sample_encoded:
  obtains b where "encode_http_request 1 ''GET'' ''/'' (''host: a'' @ [CR, LF]) [] = Inr b"
  by (simp add: encode_http_request_def http_envelope_bytes_def)

lemma sample_request_dispatched:
  "\<exists>p b ok. N_Http_request p b ok \<in> set (wc_trace (http_dispatch_request 1 sample_http sample_request sample_http_worker))
     \<and> N_Http_request p b ok \<notin> set (wc_trace sample_http_worker)"
proof -
  obtain b where b: "encode_http_request 1 ''GET'' ''/'' (''host: a'' @ [CR, LF]) [] = Inr b"
    using sample_encoded .
  have v: "validate_request_header sample_request = None"
    by (simp add: validate_request_header_def sample_request_def field_count_def first_field_def
        lowercase_copy_def tolower_def)
  have h: "header_block (rq_fields sample_request) [] = Some (''host: a'' @ [CR, LF])"
    by (simp add: sample_request_def http_header_limit_def)
  have "N_Http_request (Peer_default\<lparr>p_session_id := 1\<rparr>) b True
      \<in> set (wc_trace (http_dispatch_request 1 sample_http sample_request sample_http_worker))"
    using b by (simp add: http_dispatch_request_def v h)
      (simp add: sample_request_def sample_http_worker_def http_envelope_bytes_def allocate_http_request_id_def
        umap_find_def notify_http_request_def touch_idle_deadline_def set_channel_def set_connection_def)
  then show ?thesis
    by (auto simp: sample_http_worker_def)
qed

theorem http_dispatch_decodes_witness:
  "\<exists>(b :: buffer) v. decode_http_request (Some (buf_bytes b)) = Some v \<and> unat (rv_method_size v) = 3"
proof -
  obtain p b ok where n: "N_Http_request p b ok
      \<in> set (wc_trace (http_dispatch_request 1 sample_http sample_request sample_http_worker))"
    "N_Http_request p b ok \<notin> set (wc_trace sample_http_worker)"
    using sample_request_dispatched by blast
  have "length (rq_method sample_request) = 3"
    by (simp add: sample_request_def)
  then show ?thesis
    using http_dispatch_decodes [OF sample_http_worker_inv n] by auto
qed

definition sample_response :: http_response where
  "sample_response = \<lparr>hr_status_code = 200, hr_close_connection = False, hr_content_type = ''text/plain'',
      hr_headers = [], hr_body = Buffer_empty\<rparr>"

theorem http_answered_once_witness:
  "snd (http_respond 1 9 sample_response (fst (http_respond 1 9 sample_response
      (set_channel 1 (Http_channel (sample_http\<lparr>ht_pending_request_id := 9\<rparr>)) sample_http_worker))))
   = Inl ''HTTP request is stale, already answered, or session is closed''"
proof -
  have "snd (http_respond 1 9 sample_response
      (set_channel 1 (Http_channel (sample_http\<lparr>ht_pending_request_id := 9\<rparr>)) sample_http_worker)) = Inr ()"
    by (simp add: http_respond_def)
      (simp add: sample_http_worker_def umap_find_def sample_response_def validate_http_response_def buffer_defs
        valid_value_def sub64_def)
  then show ?thesis
    using http_answered_once by fastforce
qed

end
