(* ===== verification/Udp_Connections.thy ===== *)
theory Udp_Connections
  imports Stream_Connections
begin

text \<open>
  \<^verbatim>\<open>UdpPeer\<close> and \<^verbatim>\<open>UdpListener\<close> (src/src/Net/Async/UdpPeer.cpp, UdpListener.cpp). One socket
  receives datagrams; the first one from an endpoint creates a peer with a session of its own.
  \<open>now\<close> is the steady clock in milliseconds. A peer's send is outstanding while its queue is not
  empty, and its completion reports an error or the bytes sent.
\<close>

section \<open>Peers\<close>

definition MaxQueuedDatagrams :: nat where
  "MaxQueuedDatagrams = 1024"

definition MaxUdpPayloadBytes :: nat where
  "MaxUdpPayloadBytes = 65507"

definition udp_channel :: "u64 \<Rightarrow> 'a worker \<Rightarrow> (connection \<times> udp_part) option" where
  "udp_channel i w =
     (case umap_find (wc_connections w) i of
        None \<Rightarrow> None
      | Some c \<Rightarrow> (case cn_channel c of Udp_channel u \<Rightarrow> Some (c, u) | _ \<Rightarrow> None))"

definition udp_start :: "u64 \<Rightarrow> 'a worker \<Rightarrow> 'a worker" where
  "udp_start i w =
     (case udp_channel i w of
        None \<Rightarrow> w
      | Some (c, u) \<Rightarrow>
          if cn_opened c then w
          else
            (let (w1, ok) = notify_open (cn_peer c) w
             in if \<not> ok then conn_close i w1
                else set_connection i (c\<lparr>cn_opened := True\<rparr>) w1))"

text \<open>
  \<^verbatim>\<open>UdpListener::send_datagram\<close>: a closed listener or a stopping worker closes the peer instead of
  sending. \<^verbatim>\<open>UdpPeer::send_next\<close> hands it the front of the queue; a listener that is gone closes
  the peer too.
\<close>

definition udp_send_next :: "u64 \<Rightarrow> 'a worker \<Rightarrow> 'a worker" where
  "udp_send_next i w =
     (case udp_channel i w of
        None \<Rightarrow> w
      | Some (c, u) \<Rightarrow>
          if up_send_queue u = [] then w
          else
            (case umap_find (wc_udp w) (up_listener u) of
               None \<Rightarrow> conn_close i w
             | Some ul \<Rightarrow> if ul_closed ul \<or> wc_stopping w then conn_close i w else w))"

definition udp_send :: "u64 \<Rightarrow> buffer \<Rightarrow> 'a worker \<Rightarrow> 'a worker \<times> unit res" where
  "udp_send i message w =
     (case udp_channel i w of
        None \<Rightarrow> (w, Inl ''UDP peer is closed'')
      | Some (c, u) \<Rightarrow>
          (let cost = queue_cost (buffer_size message) in
           if \<not> cn_opened c \<or> wc_stopping w then (w, Inl ''UDP peer is closed'')
           else if buffer_size message > max_message_bytes (wc_limits w) \<or> buffer_size message > MaxUdpPayloadBytes
           then (w, Inl ''UDP datagram exceeds the configured limit or 65507-byte payload ceiling'')
           else if length (up_send_queue u) \<ge> MaxQueuedDatagrams \<or> cost > max_send_queue_bytes (wc_limits w)
              \<or> up_queued_bytes u > sub64 (max_send_queue_bytes (wc_limits w)) cost
           then (w, Inl ''UDP peer send queue is full'')
           else
             (let writing = (up_send_queue u \<noteq> []);
                  w1 = set_channel i (Udp_channel (u\<lparr>up_send_queue := up_send_queue u @ [message],
                         up_queued_bytes := add64 (up_queued_bytes u) cost\<rparr>)) w
              in (if \<not> writing then udp_send_next i w1 else w1, Inr ()))))"

definition udp_receive :: "u64 \<Rightarrow> nat \<Rightarrow> bytes \<Rightarrow> 'a worker \<Rightarrow> 'a worker" where
  "udp_receive i now data w =
     (case udp_channel i w of
        None \<Rightarrow> w
      | Some (c, u) \<Rightarrow>
          if \<not> cn_opened c \<or> wc_stopping w then w
          else
            (let w1 = set_channel i (Udp_channel (u\<lparr>up_last_received := now\<rparr>)) w;
                 (w2, ok) = notify_message (cn_peer c) (Buffer_of_memory (Some data) (length data)) w1
             in if \<not> ok then conn_close i w2 else w2))"

definition udp_complete_send :: "u64 \<Rightarrow> io_error option \<Rightarrow> nat \<Rightarrow> 'a worker \<Rightarrow> 'a worker" where
  "udp_complete_send i error sent w =
     (case udp_channel i w of
        None \<Rightarrow> w
      | Some (c, u) \<Rightarrow>
          (case up_send_queue u of
             [] \<Rightarrow> w
           | front # rest \<Rightarrow>
               if error \<noteq> None \<or> sent \<noteq> buffer_size front
               then conn_close i
                      (report_error (p_listener_id (cn_peer c))
                         (case error of
                            Some (Io_failure text) \<Rightarrow> ''UDP send failed: '' @ text
                          | Some _ \<Rightarrow> ''UDP send failed: ''
                          | None \<Rightarrow> ''UDP send returned an incomplete datagram'') w)
               else
                 udp_send_next i
                   (set_channel i (Udp_channel (u\<lparr>up_queued_bytes :=
                        sub64 (up_queued_bytes u) (queue_cost (buffer_size front)),
                      up_send_queue := rest\<rparr>)) w)))"

definition udp_idle_for :: "nat \<Rightarrow> nat \<Rightarrow> udp_part \<Rightarrow> bool" where
  "udp_idle_for now milliseconds u \<longleftrightarrow>
     up_last_received u \<le> now \<and> now - up_last_received u \<ge> milliseconds"

section \<open>Listeners\<close>

text \<open>\<^verbatim>\<open>open\<close>: the socket calls answer with an error text or succeed.\<close>

definition udp_listener_open :: "listener_config \<Rightarrow> unit res \<Rightarrow> unit res" where
  "udp_listener_open config bind_result =
     (if lc_security config \<noteq> Sec_None
      then Inl ''UDP requires explicit plaintext security; DTLS is not implemented''
      else (case bind_result of Inl e \<Rightarrow> Inl (''UDP bind failed: '' @ e) | Inr _ \<Rightarrow> Inr ()))"

definition udp_listener_start :: "u64 \<Rightarrow> 'a worker \<Rightarrow> 'a worker" where
  "udp_listener_start l w =
     (case umap_find (wc_udp w) l of
        None \<Rightarrow> w
      | Some ul \<Rightarrow>
          if ul_started ul \<or> ul_closed ul \<or> wc_stopping w then w
          else w\<lparr>wc_udp := umap_assign l (ul\<lparr>ul_started := True\<rparr>) (wc_udp w)\<rparr>)"

text \<open>
  The loop of \<^verbatim>\<open>close()\<close>: close the first peer until none is left. The rounds are bounded by the
  number of entries at the start; each round erases one.
\<close>

fun udp_close_peers :: "nat \<Rightarrow> u64 \<Rightarrow> 'a worker \<Rightarrow> 'a worker" where
  "udp_close_peers 0 l w = w"
| "udp_close_peers (Suc n) l w =
     (case umap_find (wc_udp w) l of
        None \<Rightarrow> w
      | Some ul \<Rightarrow>
          (case ul_peers ul of
             [] \<Rightarrow> w
           | (e, i) # _ \<Rightarrow> udp_close_peers n l (conn_close i w)))"

definition udp_listener_close :: "u64 \<Rightarrow> 'a worker \<Rightarrow> 'a worker" where
  "udp_listener_close l w =
     (case umap_find (wc_udp w) l of
        None \<Rightarrow> w
      | Some ul \<Rightarrow>
          if ul_closed ul then w
          else udp_close_peers (umap_size (ul_peers ul)) l
                 (w\<lparr>wc_udp := umap_assign l (ul\<lparr>ul_closed := True\<rparr>) (wc_udp w)\<rparr>))"

definition udp_dispatch_datagram :: "u64 \<Rightarrow> udp_endpoint \<Rightarrow> nat \<Rightarrow> bytes \<Rightarrow> 'a worker \<Rightarrow> 'a worker" where
  "udp_dispatch_datagram l sender now data w =
     (case umap_find (wc_udp w) l of
        None \<Rightarrow> w
      | Some ul \<Rightarrow>
          (case umap_find (ul_peers ul) sender of
             Some i \<Rightarrow> udp_receive i now data w
           | None \<Rightarrow>
               if umap_size (wc_connections w) \<ge> max_connections (wc_limits w) then w
               else
                 (let (w1, i) = allocate_session_id w in
                  if i = 0 then w1
                  else
                    (let peer = \<lparr>p_session_id = i, p_listener_id = lc_id (ul_config ul), p_protocol = PUdp,
                                 p_address = fst sender, p_port = snd sender\<rparr>;
                         c = \<lparr>cn_peer = peer, cn_config = ul_config ul, cn_opened = False,
                              cn_deadline_generation = 0,
                              cn_channel = Udp_channel \<lparr>up_listener = l, up_endpoint = sender,
                                up_last_received = now, up_send_queue = [], up_queued_bytes = 0\<rparr>\<rparr>;
                         w2 = w1\<lparr>wc_udp := umap_assign l (ul\<lparr>ul_peers :=
                                fst (umap_emplace sender i (ul_peers ul))\<rparr>) (wc_udp w1)\<rparr>;
                         (w3, added) = add_connection c w2
                     in if \<not> added then forget_peer l sender w3
                        else udp_receive i now data (udp_start i w3)))))"

text \<open>
  The receive handler. \<open>discard\<close> marks the errors that say nothing about the socket (oversized
  packet, ICMP); a datagram beyond the limits is dropped.
\<close>

datatype udp_result = Udp_aborted | Udp_discard | Udp_failed string | Udp_datagram udp_endpoint bytes

definition udp_on_receive :: "u64 \<Rightarrow> nat \<Rightarrow> udp_result \<Rightarrow> 'a worker \<Rightarrow> 'a worker" where
  "udp_on_receive l now result w =
     (case umap_find (wc_udp w) l of
        None \<Rightarrow> w
      | Some ul \<Rightarrow>
          if ul_closed ul \<or> wc_stopping w then w
          else
            (case result of
               Udp_aborted \<Rightarrow> w
             | Udp_discard \<Rightarrow> w
             | Udp_failed text \<Rightarrow>
                 udp_listener_close l
                   (report_error (lc_id (ul_config ul)) (''UDP receive failed: '' @ text) w)
             | Udp_datagram sender data \<Rightarrow>
                 if length data \<le> max_message_bytes (wc_limits w) \<and> length data \<le> MaxUdpPayloadBytes
                 then udp_dispatch_datagram l sender now data w
                 else w))"

text \<open>\<^verbatim>\<open>expire_idle_peers\<close> walks the peers it had at the start.\<close>

definition udp_expire_idle_peers :: "u64 \<Rightarrow> nat \<Rightarrow> 'a worker \<Rightarrow> 'a worker" where
  "udp_expire_idle_peers l now w =
     (case umap_find (wc_udp w) l of
        None \<Rightarrow> w
      | Some ul \<Rightarrow>
          fold (\<lambda>(e, i) w1.
                  case udp_channel i w1 of
                    None \<Rightarrow> w1
                  | Some (c, u) \<Rightarrow>
                      if udp_idle_for now (idle_timeout_ms (wc_limits w1)) u then conn_close i w1 else w1)
            (ul_peers ul) w)"

section \<open>Invariant\<close>

lemma udp_channelD:
  "udp_channel i w = Some (c, u) \<Longrightarrow> umap_find (wc_connections w) i = Some c \<and> cn_channel c = Udp_channel u"
  by (auto simp: udp_channel_def split: option.splits channel.splits)

lemma udp_channel_inv:
  assumes "worker_inv pr w" and "udp_channel i w = Some (c, u)"
  shows "umap_find (wc_connections w) i = Some c" and "channel_ok (wc_limits w) (Udp_channel u)"
  using udp_channelD [OF assms(2)] worker_inv_conn(2) [OF assms(1), of i c] by (auto simp: conn_ok_def)

lemma udp_start_inv [inv_rules]:
  assumes inv: "worker_inv pr w"
  shows "worker_inv pr (udp_start i w)"
proof (cases "udp_channel i w")
  case (Some cu)
  obtain c u where t: "udp_channel i w = Some (c, u)"
    using Some by (cases cu) auto
  note f = udp_channelD [OF t]
  show ?thesis
  proof (cases "cn_opened c")
    case False
    then have p: "worker_inv pr (fst (publish_open i w))"
      using f by (intro publish_open_spec(1) [OF inv]) auto
    obtain w1 ok where n: "notify_open (cn_peer c) w = (w1, ok)"
      by (cases "notify_open (cn_peer c) w")
    have frame: "wc_connections w1 = wc_connections w" "wc_limits w1 = wc_limits w"
      using notify_frame(1,2) [of "cn_peer c" w] n by simp_all
    show ?thesis
    proof (cases ok)
      case True
      let ?w2 = "set_connection i (c\<lparr>cn_opened := True\<rparr>) w1"
      have a: "worker_inv pr (arm_deadline i ?w2)"
        using p f True by (simp add: publish_open_def n touch_idle_deadline_def)
      have g: "umap_find (wc_connections (arm_deadline i ?w2)) i =
          Some (c\<lparr>cn_opened := True, cn_deadline_generation := cn_deadline_generation c + 1\<rparr>)"
        by (simp add: set_connection_def)
      have "worker_inv pr (set_connection i (c\<lparr>cn_opened := True\<rparr>) (arm_deadline i ?w2))"
        using worker_inv_conn(2) [OF a g] by (intro worker_inv_set [OF a g]) (auto simp: conn_ok_def)
      moreover have "umap_assign i x (umap_assign i y m) = umap_assign i x m" for x y and m :: "(u64, connection) umap"
        by (induction m) auto
      then have "wc_connections (set_connection i (c\<lparr>cn_opened := True\<rparr>) (arm_deadline i ?w2)) = wc_connections ?w2"
        by (simp add: arm_deadline_def set_connection_def)
      ultimately have "worker_inv pr ?w2"
        by (subst worker_inv_cong [of _ "set_connection i (c\<lparr>cn_opened := True\<rparr>) (arm_deadline i ?w2)"])
          (simp_all add: set_connection_def arm_deadline_def)
      then show ?thesis
        using t False True n by (simp add: udp_start_def)
    next
      case False
      then show ?thesis
        using p f t \<open>\<not> cn_opened c\<close> n by (simp add: udp_start_def publish_open_def)
    qed
  qed (use inv t in \<open>simp add: udp_start_def\<close>)
qed (use inv in \<open>simp add: udp_start_def\<close>)

lemma udp_send_next_inv [inv_rules]: "worker_inv pr w \<Longrightarrow> worker_inv pr (udp_send_next i w)"
  by (auto simp: udp_send_next_def split: option.splits intro: inv_rules)

lemma udp_send_inv [inv_rules]: "worker_inv pr w \<Longrightarrow> worker_inv pr (fst (udp_send i m w))"
proof (cases "udp_channel i w")
  case (Some cu)
  assume inv: "worker_inv pr w"
  obtain c u where t: "udp_channel i w = Some (c, u)"
    using Some by (cases cu) auto
  note ok = udp_channel_inv [OF inv t] and lim = worker_inv_limits [OF inv]
  show ?thesis
    using ok lim inv
    by (auto simp: udp_send_def t Let_def channel_ok_def udp_cost_def MaxQueuedDatagrams_def
        intro!: worker_inv_channel udp_send_next_inv)
qed (simp add: udp_send_def)

lemma udp_receive_inv [inv_rules]: "worker_inv pr w \<Longrightarrow> worker_inv pr (udp_receive i now d w)"
proof (cases "udp_channel i w")
  case (Some cu)
  assume inv: "worker_inv pr w"
  obtain c u where t: "udp_channel i w = Some (c, u)"
    using Some by (cases cu) auto
  note ok = udp_channel_inv [OF inv t]
  let ?u = "u\<lparr>up_last_received := now\<rparr>"
  let ?w1 = "set_channel i (Udp_channel ?u) w"
  have w1: "worker_inv pr ?w1"
    using ok inv by (intro worker_inv_channel) (auto simp: channel_ok_def)
  have f1: "umap_find (wc_connections ?w1) i = Some (c\<lparr>cn_channel := Udp_channel ?u\<rparr>)"
    using ok by simp
  have "worker_inv pr (fst (notify_message (cn_peer c) b ?w1))" if "cn_opened c" for b
    using worker_inv_notify_message(1) [OF w1 f1, of b] that by simp
  then show ?thesis
    using inv by (auto simp: udp_receive_def t Let_def case_prod_beta intro: inv_rules)
qed (simp add: udp_receive_def)

lemma udp_complete_inv [inv_rules]: "worker_inv pr w \<Longrightarrow> worker_inv pr (udp_complete_send i e n w)"
proof (cases "udp_channel i w")
  case (Some cu)
  assume inv: "worker_inv pr w"
  obtain c u where t: "udp_channel i w = Some (c, u)"
    using Some by (cases cu) auto
  note ok = udp_channel_inv [OF inv t] and lim = worker_inv_limits [OF inv]
  have "worker_inv pr (set_channel i (Udp_channel (u\<lparr>up_queued_bytes :=
      sub64 (up_queued_bytes u) (queue_cost (buffer_size front)), up_send_queue := rest\<rparr>)) w)"
    if "up_send_queue u = front # rest" for front rest
    using ok lim inv that by (intro worker_inv_channel) (auto simp: channel_ok_def udp_cost_def)
  then show ?thesis
    using inv by (auto simp: udp_complete_send_def t split: list.splits intro!: udp_send_next_inv
        worker_inv_close worker_inv_error)
qed (simp add: udp_complete_send_def)

lemma udp_listener_start_inv [inv_rules]: "worker_inv pr w \<Longrightarrow> worker_inv pr (udp_listener_start l w)"
  by (simp add: udp_listener_start_def split: option.splits)

lemma udp_close_peers_inv [inv_rules]: "worker_inv pr w \<Longrightarrow> worker_inv pr (udp_close_peers n l w)"
  by (induction n arbitrary: w) (auto simp: worker_inv_close split: option.splits list.splits)

lemma udp_listener_close_inv [inv_rules]: "worker_inv pr w \<Longrightarrow> worker_inv pr (udp_listener_close l w)"
  by (auto simp: udp_listener_close_def split: option.splits intro!: udp_close_peers_inv)

lemma udp_dispatch_inv [inv_rules]:
  assumes inv: "worker_inv pr w"
  shows "worker_inv pr (udp_dispatch_datagram l sender now data w)"
proof -
  obtain w1 i where a: "allocate_session_id w = (w1, i)"
    by (cases "allocate_session_id w")
  have i1: "worker_inv pr w1"
    using worker_inv_allocate [OF inv] a by simp
  have "worker_inv pr (fst (add_connection
      \<lparr>cn_peer = \<lparr>p_session_id = i, p_listener_id = lid, p_protocol = PUdp, p_address = fst sender, p_port = snd sender\<rparr>,
       cn_config = cfg, cn_opened = False, cn_deadline_generation = 0,
       cn_channel = Udp_channel \<lparr>up_listener = l, up_endpoint = sender, up_last_received = now,
         up_send_queue = [], up_queued_bytes = 0\<rparr>\<rparr> (w1\<lparr>wc_udp := m\<rparr>)))" if "i \<noteq> 0" for lid cfg m
    using i1 allocate_session_fresh [OF inv a that]
    by (intro add_connection_spec(1) [where i = i]) (simp_all add: id_used_def conn_ok_def channel_ok_def)
  then show ?thesis
    using inv i1
    by (auto simp: udp_dispatch_datagram_def a Let_def case_prod_beta split: option.splits
        intro!: udp_receive_inv udp_start_inv worker_inv_forget)
qed

lemma udp_on_receive_inv [inv_rules]: "worker_inv pr w \<Longrightarrow> worker_inv pr (udp_on_receive l now r w)"
  by (auto simp: udp_on_receive_def split: option.splits udp_result.splits intro: inv_rules)

lemma udp_expire_inv [inv_rules]: "worker_inv pr w \<Longrightarrow> worker_inv pr (udp_expire_idle_peers l now w)"
proof -
  have "worker_inv pr w \<Longrightarrow> worker_inv pr (fold (\<lambda>(e, i) w1.
                  case udp_channel i w1 of
                    None \<Rightarrow> w1
                  | Some (c, u) \<Rightarrow>
                      if udp_idle_for now (idle_timeout_ms (wc_limits w1)) u then conn_close i w1 else w1) ps w)" for ps :: "(udp_endpoint, u64) umap"
    by (induction ps arbitrary: w) (auto simp: worker_inv_close split: option.splits)
  then show "worker_inv pr w \<Longrightarrow> worker_inv pr (udp_expire_idle_peers l now w)"
    by (simp add: udp_expire_idle_peers_def split: option.splits)
qed

end
