(* ===== verification/Transport_Service.thy ===== *)
theory Transport_Service
  imports Http_Connection Udp_Connections
begin

text \<open>
  \<^verbatim>\<open>net::TransportService\<close> (src/src/Net/Async/TransportService.cpp) and the accepting side of
  \<^verbatim>\<open>TcpListener\<close> (src/src/Net/Async/TcpListener.cpp). Commands hold \<^verbatim>\<open>commands_\<close> and run on the
  worker, so each is one step. Opening a listener (address, bind, certificate) is the parameter
  \<open>opens\<close>: the error text, or success. \<open>invoke_ok\<close> says whether the stop command could be posted; if not, the
  stop is forced: it ends the worker, drops the callbacks and closes everything on the caller's thread.
\<close>

section \<open>Validation\<close>

definition contains_nul :: "string \<Rightarrow> bool" where
  "contains_nul s \<longleftrightarrow> CHR 0x00 \<in> set s"

fun validate_listeners :: "listener_config list \<Rightarrow> u64 list \<Rightarrow> unit res" where
  "validate_listeners [] ids = Inr ()"
| "validate_listeners (l # ls) ids =
     (if lc_id l = 0 \<or> lc_id l \<in> set ids then Inl ''Listener IDs must be unique and nonzero''
      else if lc_port l = 0 \<or> lc_bind_address l = [] \<or> contains_nul (lc_bind_address l)
      then Inl ''Listener needs a numeric bind address and nonzero port''
      else if lc_protocol l = PUdp \<and> lc_security l \<noteq> Sec_None
      then Inl ''Encrypted UDP is not implemented; TLS applies to TCP/WSS/HTTPS only''
      else if lc_handshake_timeout_ms l = 0 \<or> lc_handshake_timeout_ms l > 600000
      then Inl ''handshake_timeout_ms must be between 1 and 600000''
      else if lc_protocol l = PWebSocket \<and>
          (lc_websocket_path l = [] \<or> hd (lc_websocket_path l) \<noteq> CHR ''/''
           \<or> length (lc_websocket_path l) > 2048 \<or> contains_nul (lc_websocket_path l))
      then Inl ''WebSocket path must start with / and contain at most 2048 bytes''
      else validate_listeners ls (lc_id l # ids))"

definition validate :: "listener_config list \<Rightarrow> service_limits \<Rightarrow> unit res" where
  "validate listeners limits =
     (if worker_threads limits \<noteq> 1 then Inl ''This transport version requires worker_threads = 1''
      else if max_connections limits = 0 \<or> max_connections limits > 1000000
      then Inl ''max_connections must be between 1 and 1000000''
      else if max_message_bytes limits = 0 \<or> max_message_bytes limits > 16 * 1024 * 1024
      then Inl ''max_message_bytes must be between 1 and 16 MiB''
      else if max_send_queue_bytes limits < add64 (max_message_bytes limits) 16
      then Inl ''Send queue must fit one maximum message plus 16 bytes''
      else if idle_timeout_ms limits = 0 \<or> idle_timeout_ms limits > 86400000
      then Inl ''idle_timeout_ms must be between 1 and 86400000''
      else if listeners = [] \<or> length listeners > 1024 then Inl ''Configure between 1 and 1024 listeners''
      else validate_listeners listeners [])"

section \<open>Accepting\<close>

definition tcp_listener_part :: "listener_config \<Rightarrow> channel" where
  "tcp_listener_part config =
     (let tls = (lc_security config = Sec_Tls) in
      case lc_protocol config of
        PTcp \<Rightarrow> Tcp_channel \<lparr>tc_tls = tls, tc_read = Tcp_idle, tc_outgoing = [], tc_queued_bytes = 0\<rparr>
      | PHttp \<Rightarrow> Http_channel \<lparr>ht_tls = tls, ht_stage = Ht_idle, ht_pending_request_id = 0,
          ht_head_request = False, ht_request_keep_alive = False, ht_sent = []\<rparr>
      | _ \<Rightarrow> Ws_channel \<lparr>ws_tls = tls, ws_read = Ws_idle, ws_outgoing = [], ws_queued_bytes = 0\<rparr>)"

definition conn_start :: "u64 \<Rightarrow> 'a worker \<Rightarrow> 'a worker" where
  "conn_start i w =
     (case umap_find (wc_connections w) i of
        None \<Rightarrow> w
      | Some c \<Rightarrow>
          (case cn_channel c of
             Tcp_channel _ \<Rightarrow> tcp_start i w
           | Ws_channel _ \<Rightarrow> ws_start i w
           | Http_channel _ \<Rightarrow> http_start i w
           | Udp_channel _ \<Rightarrow> udp_start i w))"

text \<open>\<open>remote\<close> is the remote endpoint, unless the socket has none any more.\<close>

definition tcp_admit :: "listener_config \<Rightarrow> (string \<times> u16) option \<Rightarrow> 'a worker \<Rightarrow> 'a worker" where
  "tcp_admit config remote w =
     (if umap_size (wc_connections w) \<ge> max_connections (wc_limits w) then w
      else
        (case remote of
           None \<Rightarrow> w
         | Some (address, port) \<Rightarrow>
             (let (w1, i) = allocate_session_id w in
              if i = 0 then report_error (lc_id config) ''Session ID space exhausted'' w1
              else
                (let peer = \<lparr>p_session_id = i, p_listener_id = lc_id config, p_protocol = lc_protocol config,
                             p_address = address, p_port = port\<rparr>;
                     c = \<lparr>cn_peer = peer, cn_config = config, cn_opened = False,
                          cn_deadline_generation = 0, cn_channel = tcp_listener_part config\<rparr>;
                     (w2, added) = add_connection c w1
                 in if added then conn_start i w2 else w2))))"

section \<open>The service\<close>

record 'a service =
  ts_worker :: "'a worker"
  ts_listeners :: "(listener_config \<times> bool) list"
  ts_running :: bool
  ts_poisoned :: bool

text \<open>\<open>ts_listeners\<close> pairs each listener with its \<^verbatim>\<open>closed_\<close> flag.\<close>

definition TransportService_new :: "'a callbacks \<Rightarrow> 'a \<Rightarrow> 'a service" where
  "TransportService_new cbs app =
     \<lparr>ts_worker = \<lparr>wc_limits = \<lparr>worker_threads = 1, max_connections = 4096, max_message_bytes = 65536,
          max_send_queue_bytes = 1048576, idle_timeout_ms = 300000\<rparr>,
        wc_callbacks = cbs, wc_stopping = False, wc_connections = [], wc_next_session_id = 1,
        wc_next_http_request_id = 1, wc_udp = [], wc_app = app, wc_trace = []\<rparr>,
      ts_listeners = [], ts_running = False, ts_poisoned = False\<rparr>"

definition add_udp_listener :: "listener_config \<Rightarrow> 'a worker \<Rightarrow> 'a worker" where
  "add_udp_listener config w =
     w\<lparr>wc_udp := umap_assign (lc_id config)
         \<lparr>ul_config = config, ul_peers = [], ul_started = False, ul_closed = False\<rparr> (wc_udp w)\<rparr>"

text \<open>Preparing the listeners in order; the first failure is the answer.\<close>

fun prepare_listeners ::
  "(listener_config \<Rightarrow> unit res) \<Rightarrow> listener_config list \<Rightarrow> 'a worker \<Rightarrow> 'a worker \<times> unit res" where
  "prepare_listeners opens [] w = (w, Inr ())"
| "prepare_listeners opens (l # ls) w =
     (if lc_protocol l = PUdp
      then (case udp_listener_open l (opens l) of
              Inl e \<Rightarrow> (w, Inl e)
            | Inr _ \<Rightarrow> prepare_listeners opens ls (add_udp_listener l w))
      else (case opens l of
              Inl e \<Rightarrow> (w, Inl e)
            | Inr _ \<Rightarrow> prepare_listeners opens ls w))"

fun start_udp_listeners :: "listener_config list \<Rightarrow> 'a worker \<Rightarrow> 'a worker" where
  "start_udp_listeners [] w = w"
| "start_udp_listeners (l # ls) w =
     start_udp_listeners ls (if lc_protocol l = PUdp then udp_listener_start (lc_id l) w else w)"

definition close_listener :: "listener_config \<Rightarrow> 'a worker \<Rightarrow> 'a worker" where
  "close_listener config w =
     (if lc_protocol config = PUdp then udp_listener_close (lc_id config) w else w)"

text \<open>The loop of the shutdown: close the first connection until none is left.\<close>

fun close_connections :: "nat \<Rightarrow> 'a worker \<Rightarrow> 'a worker" where
  "close_connections 0 w = w"
| "close_connections (Suc n) w =
     (case wc_connections w of
        [] \<Rightarrow> w
      | (i, c) # _ \<Rightarrow> close_connections n (conn_close i w))"

definition close_listeners_and_connections :: "listener_config list \<Rightarrow> 'a worker \<Rightarrow> 'a worker" where
  "close_listeners_and_connections ls w =
     (let w1 = fold close_listener ls w
      in close_connections (umap_size (wc_connections w1)) w1)"

definition service_stop :: "bool \<Rightarrow> 'a service \<Rightarrow> 'a service" where
  "service_stop invoke_ok s =
     (if \<not> ts_running s then s
      else
        (let w = ts_worker s;
             w1 = (if invoke_ok then w\<lparr>wc_stopping := True\<rparr>
                   else w\<lparr>wc_callbacks := no_callbacks, wc_stopping := True\<rparr>);
             w2 = close_listeners_and_connections (map fst (ts_listeners s)) w1
         in s\<lparr>ts_worker := w2\<lparr>wc_callbacks := no_callbacks, wc_udp := []\<rparr>,
              ts_poisoned := (ts_poisoned s \<or> \<not> invoke_ok),
              ts_listeners := [], ts_running := False\<rparr>))"

text \<open>
  Whether the worker thread was created and the asynchronous operations were posted, with the
  text of the exception otherwise.
\<close>

datatype launch = Launched | Thread_failed string | Listeners_failed string

definition service_start ::
  "launch \<Rightarrow> (listener_config \<Rightarrow> unit res) \<Rightarrow> listener_config list \<Rightarrow> service_limits \<Rightarrow> 'a callbacks \<Rightarrow>
     'a service \<Rightarrow> 'a service \<times> unit res" where
  "service_start outcome opens configurations limits cbs s =
     (if ts_running s then (s, Inl ''Transport service is already running'')
      else if ts_poisoned s then (s, Inl ''Transport service requires recreation after forced shutdown'')
      else
        (case validate configurations limits of
           Inl e \<Rightarrow> (s, Inl e)
         | Inr _ \<Rightarrow>
             (let w = (ts_worker s)\<lparr>wc_stopping := False, wc_limits := limits, wc_callbacks := cbs\<rparr>
              in case prepare_listeners opens configurations w of
                   (w1, Inl e) \<Rightarrow> (s\<lparr>ts_worker := w1\<lparr>wc_callbacks := no_callbacks, wc_udp := []\<rparr>\<rparr>, Inl e)
                 | (w1, Inr _) \<Rightarrow>
                     (let s1 = s\<lparr>ts_listeners := map (\<lambda>l. (l, False)) configurations, ts_running := True\<rparr>
                      in case outcome of
                           Launched \<Rightarrow> (s1\<lparr>ts_worker := start_udp_listeners configurations w1\<rparr>, Inr ())
                         | Thread_failed m \<Rightarrow>
                             (s\<lparr>ts_worker := w1\<lparr>wc_callbacks := no_callbacks, wc_udp := []\<rparr>\<rparr>,
                              Inl (''Could not start transport worker: '' @ m))
                         | Listeners_failed m \<Rightarrow>
                             (service_stop True (s1\<lparr>ts_worker := report_error 0 m w1\<rparr>),
                              Inl ''Could not start asynchronous listeners'')))))"

definition service_send :: "u64 \<Rightarrow> buffer \<Rightarrow> 'a service \<Rightarrow> 'a service \<times> unit res" where
  "service_send i message s =
     (if \<not> ts_running s then (s, Inl ''Transport service is not running'')
      else
        (case umap_find (wc_connections (ts_worker s)) i of
           None \<Rightarrow> (s, Inl ''Unknown session ID'')
         | Some c \<Rightarrow>
             (let (w, r) = (case cn_channel c of
                              Tcp_channel _ \<Rightarrow> tcp_send i message (ts_worker s)
                            | Ws_channel _ \<Rightarrow> ws_send i message (ts_worker s)
                            | Http_channel _ \<Rightarrow> http_send (ts_worker s)
                            | Udp_channel _ \<Rightarrow> udp_send i message (ts_worker s))
              in (s\<lparr>ts_worker := w\<rparr>, r))))"

definition service_disconnect :: "u64 \<Rightarrow> 'a service \<Rightarrow> 'a service \<times> unit res" where
  "service_disconnect i s =
     (if \<not> ts_running s then (s, Inl ''Transport service is not running'')
      else
        (case umap_find (wc_connections (ts_worker s)) i of
           None \<Rightarrow> (s, Inl ''Unknown session ID'')
         | Some c \<Rightarrow> (s\<lparr>ts_worker := conn_close i (ts_worker s)\<rparr>, Inr ())))"

definition service_respond_http :: "u64 \<Rightarrow> u64 \<Rightarrow> http_response \<Rightarrow> 'a service \<Rightarrow> 'a service \<times> unit res" where
  "service_respond_http i request_id response s =
     (if \<not> ts_running s then (s, Inl ''Transport service is not running'')
      else
        (case umap_find (wc_connections (ts_worker s)) i of
           None \<Rightarrow> (s, Inl ''Unknown session ID'')
         | Some c \<Rightarrow>
             (case cn_channel c of
                Http_channel _ \<Rightarrow>
                  (let (w, r) = http_respond i request_id response (ts_worker s) in (s\<lparr>ts_worker := w\<rparr>, r))
              | _ \<Rightarrow> (s, Inl ''Session does not use HTTP''))))"

text \<open>An accept completion of a listener: an error closes the listener.\<close>

definition service_on_accept ::
  "nat \<Rightarrow> string + (string \<times> u16) option \<Rightarrow> 'a service \<Rightarrow> 'a service" where
  "service_on_accept n result s =
     (if n \<ge> length (ts_listeners s) then s
      else
        (let (config, closed) = ts_listeners s ! n in
         if closed \<or> wc_stopping (ts_worker s) \<or> lc_protocol config = PUdp then s
         else
           (case result of
              Inl error \<Rightarrow>
                s\<lparr>ts_listeners := (ts_listeners s)[n := (config, True)],
                  ts_worker := report_error (lc_id config) (''TCP accept: '' @ error) (ts_worker s)\<rparr>
            | Inr remote \<Rightarrow> s\<lparr>ts_worker := tcp_admit config remote (ts_worker s)\<rparr>)))"

section \<open>The invariant is kept\<close>

lemma validate_limits:
  "validate ls limits = Inr () \<Longrightarrow>
     worker_threads limits = 1 \<and> 0 < max_connections limits \<and> max_connections limits \<le> 1000000
     \<and> 0 < max_message_bytes limits \<and> max_message_bytes limits \<le> 16777216
     \<and> max_message_bytes limits + 16 \<le> max_send_queue_bytes limits"
  by (auto simp: validate_def split: if_splits)

lemma tcp_listener_part_ok:
  "channel_ok limits (tcp_listener_part config)" "read_ok b (tcp_listener_part config)"
  by (auto simp: tcp_listener_part_def Let_def channel_ok_def read_ok_def split: protocol.splits)

lemma conn_start_inv:
  assumes "worker_inv pr w" and "umap_find (wc_connections w) i = Some c" and "\<not> cn_opened c"
    and "cn_channel c = tcp_listener_part config"
  shows "worker_inv pr (conn_start i w)"
  using assms tcp_start_inv [OF assms(1,2)] http_start_inv [OF assms(1-3)] ws_start_inv [OF assms(1-3)]
  by (auto simp: conn_start_def tcp_listener_part_def Let_def split: protocol.splits)

lemma tcp_admit_inv [inv_rules]:
  assumes inv: "worker_inv pr w"
  shows "worker_inv pr (tcp_admit config remote w)"
proof -
  obtain w1 i where a: "allocate_session_id w = (w1, i)"
    by (cases "allocate_session_id w")
  have i1: "worker_inv pr w1"
    using worker_inv_allocate [OF inv] a by simp
  have "worker_inv pr (if snd (add_connection c w1) then conn_start i (fst (add_connection c w1)) else fst (add_connection c w1))"
    if "i \<noteq> 0" "p_session_id (cn_peer c) = i" "\<not> cn_opened c" "cn_channel c = tcp_listener_part config" for c
  proof -
    note fresh = allocate_session_fresh [OF inv a that(1)]
    have ok: "conn_ok (wc_limits w1) c"
      using that tcp_listener_part_ok by (simp add: conn_ok_def)
    note add = add_connection_spec [OF i1 that(2) fresh(3,1,2) that(3) ok]
    show ?thesis
      using add conn_start_inv [OF add(1) add(2) that(3,4)] by auto
  qed
  then show ?thesis
    using inv i1
    by (auto simp: tcp_admit_def a Let_def case_prod_beta split: option.splits intro: worker_inv_error)
qed

lemma close_listener_inv: "worker_inv pr w \<Longrightarrow> worker_inv pr (close_listener config w)"
  by (simp add: close_listener_def udp_listener_close_inv)

lemma fold_close_listener_inv: "worker_inv pr w \<Longrightarrow> worker_inv pr (fold close_listener ls w)"
  by (induction ls arbitrary: w) (simp_all add: close_listener_inv)

text \<open>The shutdown loop ends with an empty registry: each round removes the connection it closes.\<close>

lemma close_erases:
  assumes "worker_inv pr w" and "umap_find (wc_connections w) i = Some c"
  shows "wc_connections (conn_close i w) = umap_erase i (wc_connections w)"
  using worker_inv_conn(1) [OF assms] assms(2)
  by (auto simp: conn_close_def remove_connection_def Let_def split: channel.splits option.split)

lemma close_connections_empty:
  "worker_inv pr w \<Longrightarrow> umap_size (wc_connections w) \<le> n \<Longrightarrow>
     worker_inv pr (close_connections n w) \<and> wc_connections (close_connections n w) = []"
proof (induction n arbitrary: w)
  case (Suc n)
  show ?case
  proof (cases "wc_connections w")
    case (Cons ic rest)
    obtain i c where ic: "ic = (i, c)" by (cases ic)
    have f: "umap_find (wc_connections w) i = Some c"
      by (simp add: Cons ic umap_find_def)
    have wf: "umap_wf (wc_connections w)"
      using Suc.prems(1) by (simp add: worker_inv_def)
    have "umap_size (wc_connections (conn_close i w)) \<le> n"
      using Suc.prems(2) umap.size_erase_old [OF wf f] by (simp add: close_erases [OF Suc.prems(1) f])
    then show ?thesis
      using Suc.IH [OF worker_inv_close [OF Suc.prems(1)]] by (simp add: Cons ic)
  qed (use Suc.prems in simp)
qed (simp add: umap_size_def)

lemma close_all_spec:
  assumes "worker_inv pr w"
  shows "worker_inv pr (close_listeners_and_connections ls w)"
    and "wc_connections (close_listeners_and_connections ls w) = []"
  using close_connections_empty [OF fold_close_listener_inv [OF assms]]
  by (simp_all add: close_listeners_and_connections_def Let_def)

lemma prepare_inv:
  "worker_inv pr (fst (prepare_listeners opens ls w)) = worker_inv pr w"
  "wc_connections (fst (prepare_listeners opens ls w)) = wc_connections w"
  "wc_trace (fst (prepare_listeners opens ls w)) = wc_trace w"
  by (induction opens ls w rule: prepare_listeners.induct)
    (auto simp: add_udp_listener_def split: sum.splits)

lemma start_udp_inv: "worker_inv pr w \<Longrightarrow> worker_inv pr (start_udp_listeners ls w)"
  by (induction ls w rule: start_udp_listeners.induct) (simp_all add: udp_listener_start_inv)

section \<open>The service as a transition system\<close>

text \<open>
  A running service keeps the invariant of its worker, in the reading that \<open>pr\<close> selects. A stopped one has
  no connection; unless it was forced to stop, no session is between its open and its close.
\<close>

definition service_inv :: "bool \<Rightarrow> 'a service \<Rightarrow> bool" where
  "service_inv pr s \<longleftrightarrow>
     (if ts_running s then worker_inv pr (ts_worker s) \<and> \<not> ts_poisoned s
      else worker_inv False (ts_worker s) \<and> wc_connections (ts_worker s) = []
        \<and> (pr \<longrightarrow> (\<forall>i. phase_of (wc_trace (ts_worker s)) i \<noteq> Broken
              \<and> (\<not> ts_poisoned s \<longrightarrow> phase_of (wc_trace (ts_worker s)) i \<noteq> Live))))"

text \<open>
  Everything that can happen to the service: the commands of the owner, and the completions of the
  asynchronous operations, in any order and with any result.
\<close>

datatype completion =
    C_deadline u64 u64 bool
  | C_tcp_handshake u64 "io_error option"
  | C_tcp_header u64 "io_error + bytes"
  | C_tcp_body u64 "io_error + bytes"
  | C_tcp_write u64 "io_error option"
  | C_ws_handshake u64 "io_error option"
  | C_ws_upgrade u64 "io_error + (bool \<times> string)"
  | C_ws_accept u64 "io_error option"
  | C_ws_message u64 ws_result
  | C_ws_write u64 "io_error option"
  | C_http_handshake u64 "io_error option"
  | C_http_header u64 "http_read_error + (http_request \<times> bool)"
  | C_http_body u64 "http_read_error + http_request"
  | C_http_write u64 "io_error option"
  | C_udp_receive u64 nat udp_result
  | C_udp_sent u64 "io_error option" nat
  | C_udp_expiry u64 nat

fun complete :: "completion \<Rightarrow> 'a worker \<Rightarrow> 'a worker" where
  "complete (C_deadline i g b) w = deadline_expired i g b w"
| "complete (C_tcp_handshake i e) w = tcp_on_handshake i e w"
| "complete (C_tcp_header i r) w = tcp_on_header i r w"
| "complete (C_tcp_body i r) w = tcp_on_body i r w"
| "complete (C_tcp_write i e) w = tcp_on_write i e w"
| "complete (C_ws_handshake i e) w = ws_on_handshake i e w"
| "complete (C_ws_upgrade i r) w = ws_on_upgrade i r w"
| "complete (C_ws_accept i e) w = ws_on_accept i e w"
| "complete (C_ws_message i r) w = ws_on_message i r w"
| "complete (C_ws_write i e) w = ws_on_write i e w"
| "complete (C_http_handshake i e) w = http_on_handshake i e w"
| "complete (C_http_header i r) w = http_on_header i r w"
| "complete (C_http_body i r) w = http_on_body i r w"
| "complete (C_http_write i e) w = http_on_write i e w"
| "complete (C_udp_receive l now r) w = udp_on_receive l now r w"
| "complete (C_udp_sent i e n) w = udp_complete_send i e n w"
| "complete (C_udp_expiry l now) w = udp_expire_idle_peers l now w"

lemma complete_inv [inv_rules]: "worker_inv pr w \<Longrightarrow> worker_inv pr (complete x w)"
  by (cases x)
    (simp_all add: worker_inv_expired tcp_handshake_inv tcp_header_inv tcp_body_inv tcp_write_inv
      ws_handshake_inv ws_upgrade_inv ws_accept_inv ws_message_inv ws_write_inv http_handshake_inv
      http_header_inv http_body_inv http_written_inv udp_on_receive_inv udp_complete_inv udp_expire_inv)

text \<open>\<open>service_step_when P\<close>: every start installs callbacks with the property \<open>P\<close>.\<close>

inductive service_step_when :: "('a callbacks \<Rightarrow> bool) \<Rightarrow> 'a service \<Rightarrow> 'a service \<Rightarrow> bool" for P where
  start: "max_send_queue_bytes limits < W64 \<Longrightarrow> P cbs \<Longrightarrow>
    service_step_when P s (fst (service_start outcome opens configurations limits cbs s))"
| stop: "service_step_when P s (service_stop invoke_ok s)"
| send: "service_step_when P s (fst (service_send i message s))"
| disconnect: "service_step_when P s (fst (service_disconnect i s))"
| respond: "service_step_when P s (fst (service_respond_http i rid response s))"
| accepted: "ts_running s \<Longrightarrow> service_step_when P s (service_on_accept n result s)"
| completed: "ts_running s \<Longrightarrow> service_step_when P s (s\<lparr>ts_worker := complete x (ts_worker s)\<rparr>)"

inductive_cases service_stepE: "service_step_when P s s'"

abbreviation service_step :: "'a service \<Rightarrow> 'a service \<Rightarrow> bool" where
  "service_step \<equiv> service_step_when (\<lambda>_. True)"

lemma service_step_any: "service_step_when P s s' \<Longrightarrow> service_step s s'"
  by (induction rule: service_step_when.induct) (auto intro: service_step_when.intros)

lemma service_steps_any: "(service_step_when P)\<^sup>*\<^sup>* s s' \<Longrightarrow> service_step\<^sup>*\<^sup>* s s'"
  by (metis mono_rtranclp service_step_any)

lemma worker_inv_weaken: "worker_inv pr w \<Longrightarrow> worker_inv False w"
  by (auto simp: worker_inv_def session_ok_def registry_entry_ok_def split: option.splits)

lemma worker_inv_phase:
  assumes "worker_inv True w"
  shows "phase_of (wc_trace w) i \<noteq> Broken" and "wc_connections w = [] \<Longrightarrow> phase_of (wc_trace w) i \<noteq> Live"
proof -
  show "phase_of (wc_trace w) i \<noteq> Broken"
    using worker_inv_conn(3) [OF assms, of i] worker_inv_none [OF assms, of i]
    by (cases "umap_find (wc_connections w) i") auto
  show "phase_of (wc_trace w) i \<noteq> Live" if "wc_connections w = []"
    using worker_inv_none [OF assms, of i] that by (auto simp: umap_find_def)
qed

lemma worker_inv_relimit:
  assumes "worker_inv False w" and "wc_connections w = []" and "max_send_queue_bytes limits < W64"
    and "max_message_bytes limits \<le> 16777216"
    and "pr \<Longrightarrow> told cbs" and "\<And>i. pr \<Longrightarrow> phase_of (wc_trace w) i \<in> {Fresh, Ended}"
  shows "worker_inv pr (w\<lparr>wc_stopping := b, wc_limits := limits, wc_callbacks := cbs\<rparr>)"
  using assms by (auto simp: worker_inv_def session_ok_def registry_entry_ok_def id_used_def umap_size_def
      umap_find_def)

lemma worker_inv_flags [simp]:
  "worker_inv False (w\<lparr>wc_callbacks := cbs\<rparr>) = worker_inv False w"
  "worker_inv pr (w\<lparr>wc_stopping := b\<rparr>) = worker_inv pr w"
  "worker_inv pr (w\<lparr>wc_udp := u\<rparr>) = worker_inv pr w"
  by (simp_all add: worker_inv_def session_ok_def id_used_def)

text \<open>Without callbacks nobody is called: closing leaves the record of calls as it is.\<close>

lemma close_quiet:
  assumes "wc_callbacks w = no_callbacks"
  shows "wc_callbacks (conn_close i w) = no_callbacks" and "wc_trace (conn_close i w) = wc_trace w"
  using assms
  by (auto simp: conn_close_def remove_connection_def forget_peer_def Let_def no_callbacks_def
      split: option.splits channel.splits)

lemma close_peers_quiet:
  "wc_callbacks w = no_callbacks \<Longrightarrow>
     wc_callbacks (udp_close_peers n l w) = no_callbacks \<and> wc_trace (udp_close_peers n l w) = wc_trace w"
  by (induction n arbitrary: w) (auto simp: close_quiet split: option.splits list.splits)

lemma close_listeners_quiet:
  "wc_callbacks w = no_callbacks \<Longrightarrow>
     wc_callbacks (fold close_listener ls w) = no_callbacks \<and> wc_trace (fold close_listener ls w) = wc_trace w"
proof (induction ls arbitrary: w)
  case (Cons l ls)
  have "wc_callbacks (close_listener l w) = no_callbacks \<and> wc_trace (close_listener l w) = wc_trace w"
    using Cons.prems
    by (auto simp: close_listener_def udp_listener_close_def close_peers_quiet split: option.splits)
  then show ?case
    using Cons.IH [of "close_listener l w"] by simp
qed simp

lemma close_connections_quiet:
  "wc_callbacks w = no_callbacks \<Longrightarrow> wc_trace (close_connections n w) = wc_trace w"
  by (induction n arbitrary: w) (auto simp: close_quiet split: list.splits)

lemma forced_stop_quiet: "wc_trace (ts_worker (service_stop False s)) = wc_trace (ts_worker s)"
  using close_listeners_quiet [of "(ts_worker s)\<lparr>wc_callbacks := no_callbacks, wc_stopping := True\<rparr>"]
  by (simp add: service_stop_def close_listeners_and_connections_def Let_def close_connections_quiet)

lemma service_stop_inv:
  assumes "service_inv pr s"
  shows "service_inv pr (service_stop b s)" and "wc_connections (ts_worker (service_stop b s)) = []"
    and "\<not> ts_running (service_stop b s)"
proof -
  let ?quiet = "(ts_worker s)\<lparr>wc_callbacks := no_callbacks, wc_stopping := True\<rparr>"
  have good: "worker_inv pr (ts_worker s)" if "ts_running s"
    using assms that by (simp add: service_inv_def)
  have graceful: "worker_inv pr ((ts_worker s)\<lparr>wc_stopping := True\<rparr>)" if "ts_running s"
    using good [OF that] by simp
  have forced: "worker_inv False ?quiet" if "ts_running s"
    using worker_inv_weaken [OF good [OF that]] by simp
  note g = close_all_spec [OF graceful, of "map fst (ts_listeners s)"]
    and f = close_all_spec [OF forced, of "map fst (ts_listeners s)"]
  show "wc_connections (ts_worker (service_stop b s)) = []" "\<not> ts_running (service_stop b s)"
    using assms g f by (auto simp: service_stop_def service_inv_def Let_def)
  show "service_inv pr (service_stop b s)"
  proof (cases "ts_running s")
    case True
    then show ?thesis
      using g [OF True] f [OF True] good [OF True] forced_stop_quiet [of s]
      by (cases b; cases pr)
        (auto simp: service_stop_def service_inv_def Let_def worker_inv_phase dest: worker_inv_weaken)
  qed (use assms in \<open>simp add: service_stop_def\<close>)
qed

lemma service_start_inv:
  assumes "service_inv pr s" and "max_send_queue_bytes limits < W64" and "pr \<Longrightarrow> told cbs"
  shows "service_inv pr (fst (service_start outcome opens ls limits cbs s))"
proof (cases "ts_running s \<or> ts_poisoned s \<or> validate ls limits \<noteq> Inr ()")
  case True
  then show ?thesis
    using assms(1) by (auto simp: service_start_def split: sum.splits)
next
  case False
  let ?w = "(ts_worker s)\<lparr>wc_stopping := False, wc_limits := limits, wc_callbacks := cbs\<rparr>"
  have c: "wc_connections (ts_worker s) = []" and i: "worker_inv False (ts_worker s)"
    and ph: "\<And>i. pr \<Longrightarrow> phase_of (wc_trace (ts_worker s)) i \<in> {Fresh, Ended}"
    using assms(1) False phase.exhaust by (auto simp: service_inv_def)
  have w: "worker_inv pr ?w"
    using validate_limits [of ls limits] False i c assms(2,3) ph by (intro worker_inv_relimit) auto
  obtain w1 r where p: "prepare_listeners opens ls ?w = (w1, r)"
    by (cases "prepare_listeners opens ls ?w")
  have w1: "worker_inv pr w1" "wc_connections w1 = []" "wc_trace w1 = wc_trace (ts_worker s)"
    using prepare_inv(1) [of pr opens ls ?w] prepare_inv(2,3) [of opens ls ?w] w p c by simp_all
  have "service_inv pr (s\<lparr>ts_worker := w1\<lparr>wc_callbacks := no_callbacks, wc_udp := []\<rparr>\<rparr>)"
    using False worker_inv_weaken [OF w1(1)] w1(2,3) assms(1) by (auto simp: service_inv_def)
  moreover have "service_inv pr (s\<lparr>ts_listeners := l, ts_running := True, ts_worker := start_udp_listeners ls w1\<rparr>)" for l
    using False w1(1) by (simp add: service_inv_def start_udp_inv)
  moreover have "service_inv pr (service_stop True (s\<lparr>ts_listeners := l, ts_running := True,
      ts_worker := report_error 0 m w1\<rparr>))" for l m
    using False w1(1) by (intro service_stop_inv(1)) (simp add: service_inv_def worker_inv_error)
  ultimately show ?thesis
    using False p by (simp add: service_start_def Let_def split: sum.splits launch.splits)
qed

lemma service_send_inv: "service_inv pr s \<Longrightarrow> service_inv pr (fst (service_send i m s))"
  by (auto simp: service_send_def service_inv_def case_prod_beta Let_def http_send_def split: option.splits
      channel.splits intro: tcp_send_inv ws_send_inv udp_send_inv)

lemma service_step_inv:
  assumes "service_inv pr s" and "service_step_when P s s'" and "\<And>cbs. pr \<Longrightarrow> P cbs \<Longrightarrow> told cbs"
  shows "service_inv pr s'"
  using assms(2,1)
proof (cases rule: service_step_when.cases)
  case (start limits cbs)
  then show ?thesis using assms(1,3) by (simp add: service_start_inv)
next
  case (disconnect i)
  then show ?thesis
    using assms(1)
    by (auto simp: service_disconnect_def service_inv_def worker_inv_close split: option.splits)
next
  case (respond i rid response)
  then show ?thesis
    using assms(1)
    by (auto simp: service_respond_http_def service_inv_def case_prod_beta Let_def http_respond_inv
        split: option.splits channel.splits)
next
  case (accepted n result)
  then show ?thesis
    using assms(1)
    by (auto simp: service_on_accept_def service_inv_def Let_def case_prod_beta tcp_admit_inv worker_inv_error
        split: sum.splits)
next
  case completed
  then show ?thesis using assms(1) by (simp add: service_inv_def complete_inv)
qed (use assms(1) in \<open>simp_all add: service_stop_inv(1) service_send_inv\<close>)

lemma service_inv_new [inv_rules]: "service_inv pr (TransportService_new cbs app)"
proof -
  have "session_ok False (ts_worker (TransportService_new cbs app)) i" for i
    by (simp add: session_ok_def registry_entry_ok_def TransportService_new_def)
  then show ?thesis
    by (simp add: service_inv_def worker_inv_def) (simp add: TransportService_new_def)
qed

definition service_initial :: "'a service \<Rightarrow> bool" where
  "service_initial s \<longleftrightarrow> (\<exists>cbs app. s = TransportService_new cbs app)"

interpretation transport: transition_system service_initial service_step "service_inv False"
  by unfold_locales (auto simp: service_initial_def service_inv_new intro: service_step_inv)

interpretation sessions: transition_system service_initial "service_step_when told" "service_inv True"
  by unfold_locales (auto simp: service_initial_def service_inv_new intro: service_step_inv)

text \<open>After a forced stop nothing moves any more.\<close>

lemma poisoned_final:
  assumes "\<not> ts_running s" and "ts_poisoned s" and "service_step_when P s s'"
  shows "s' = s"
  using assms(3,1,2)
  by (cases rule: service_step_when.cases)
    (auto simp: service_start_def service_stop_def service_send_def service_disconnect_def service_respond_http_def)

section \<open>Properties\<close>

text \<open>
  C1. The callback protocol of the transport, over the calls it really makes. Let every start install an
  open and a close callback. In every reachable state, under any interleaving of commands and completions
  and for any application, the calls made for a session come in the order open, messages, close, with at most
  one open and one close and nothing after a close or a refused open. Unless the service was forced to stop,
  a session is between its open and its close exactly while it is registered and open, so a service that
  stopped normally has closed every session it announced. A forced stop, when the stop command could not be
  posted, calls nobody: the sessions announced before it get no close, the registry is empty, and the
  service does nothing ever after.
\<close>

theorem transport_session_protocol:
  assumes "(service_step_when told)\<^sup>*\<^sup>* (TransportService_new cbs app) s"
  shows "phase_of (wc_trace (ts_worker s)) i \<noteq> Broken
    \<and> (\<not> ts_poisoned s \<longrightarrow>
        (phase_of (wc_trace (ts_worker s)) i = Live \<longleftrightarrow>
          (\<exists>c. umap_find (wc_connections (ts_worker s)) i = Some c \<and> cn_opened c))
        \<and> (\<not> ts_running s \<longrightarrow> phase_of (wc_trace (ts_worker s)) i \<noteq> Live))
    \<and> wc_trace (ts_worker (service_stop False s)) = wc_trace (ts_worker s)
    \<and> (ts_poisoned s \<longrightarrow> \<not> ts_running s \<and> wc_connections (ts_worker s) = []
        \<and> (\<forall>s'. service_step_when told s s' \<longrightarrow> s' = s))"
proof -
  have inv: "service_inv True s"
    using sessions.star_inv [OF _ assms] by (auto simp: service_initial_def)
  show ?thesis
  proof (cases "ts_running s")
    case True
    then have inv: "worker_inv True (ts_worker s)" and p: "\<not> ts_poisoned s"
      using inv by (simp_all add: service_inv_def)
    show ?thesis
      using worker_inv_none [OF inv, of i] worker_inv_conn(3) [OF inv, of i] True p forced_stop_quiet [of s]
      by (cases "umap_find (wc_connections (ts_worker s)) i") auto
  next
    case False
    then show ?thesis
      using inv poisoned_final [OF False] forced_stop_quiet [of s]
      by (auto simp: service_inv_def umap_find_def)
  qed
qed

definition sample_service :: "unit service" where
  "sample_service = TransportService_new no_callbacks ()"

definition sample_listener :: listener_config where
  "sample_listener = \<lparr>lc_id = 1, lc_protocol = PTcp, lc_bind_address = ''127.0.0.1'', lc_port = 80,
     lc_security = Sec_None, lc_certificate_chain_file = [], lc_private_key_file = [],
     lc_websocket_path = ''/'', lc_handshake_timeout_ms = 10000\<rparr>"

definition sample_service_limits :: service_limits where
  "sample_service_limits = \<lparr>worker_threads = 1, max_connections = 4, max_message_bytes = 64,
     max_send_queue_bytes = 100, idle_timeout_ms = 1000\<rparr>"

definition sample_callbacks :: "unit callbacks" where
  "sample_callbacks = no_callbacks\<lparr>cb_open := Some (\<lambda>_ a. (a, Some True)), cb_close := Some (\<lambda>_ a. a)\<rparr>"

definition sample_running :: "unit service" where
  "sample_running =
     fst (service_start Launched (\<lambda>_. Inr ()) [sample_listener] sample_service_limits sample_callbacks sample_service)"

definition sample_accepted :: "unit service" where
  "sample_accepted = service_on_accept 0 (Inr (Some (''10.0.0.1'', 9))) sample_running"

lemma sample_running_state:
  "ts_running sample_running" "\<not> ts_poisoned sample_running" "ts_listeners sample_running = [(sample_listener, False)]"
  "ts_worker sample_running = (ts_worker sample_service)\<lparr>wc_limits := sample_service_limits, wc_callbacks := sample_callbacks\<rparr>"
proof -
  have "validate [sample_listener] sample_service_limits = Inr ()"
    by (simp add: validate_def sample_listener_def sample_service_limits_def contains_nul_def)
  then show "ts_running sample_running" "\<not> ts_poisoned sample_running"
    "ts_listeners sample_running = [(sample_listener, False)]"
    "ts_worker sample_running = (ts_worker sample_service)\<lparr>wc_limits := sample_service_limits, wc_callbacks := sample_callbacks\<rparr>"
    by (simp_all add: sample_running_def service_start_def sample_service_def TransportService_new_def
        sample_listener_def)
qed

lemma sample_accepted_reached: "(service_step_when told)\<^sup>*\<^sup>* (TransportService_new no_callbacks ()) sample_accepted"
proof -
  have "service_step_when told (TransportService_new no_callbacks ()) sample_running"
    unfolding sample_running_def sample_service_def
    by (rule service_step_when.start) (simp_all add: sample_service_limits_def told_def sample_callbacks_def)
  moreover have "service_step_when told sample_running sample_accepted"
    unfolding sample_accepted_def by (rule service_step_when.accepted) (simp add: sample_running_state)
  ultimately show ?thesis
    by (meson converse_rtranclp_into_rtranclp r_into_rtranclp)
qed

lemma sample_accepted_open:
  "ts_running sample_accepted" "\<not> ts_poisoned sample_accepted"
  "\<exists>c. umap_find (wc_connections (ts_worker sample_accepted)) 1 = Some c \<and> cn_opened c"
  by (simp_all add: sample_accepted_def service_on_accept_def sample_running_state sample_listener_def
      sample_service_def TransportService_new_def sample_service_limits_def sample_callbacks_def
      tcp_admit_def allocate_session_id_def add_connection_def conn_start_def tcp_listener_part_def
      tcp_start_def tcp_channel_def tcp_begin_messages_def publish_open_def notify_open_def
      set_connection_def set_channel_def umap_size_def umap_find_def umap_emplace_def arm_deadline_def
      begin_handshake_deadline_def touch_idle_deadline_def Let_def)

theorem transport_session_protocol_witness:
  "phase_of (wc_trace (ts_worker sample_accepted)) 1 = Live"
  using transport_session_protocol [OF sample_accepted_reached, of 1] sample_accepted_open by auto

text \<open>
  C10. The limits hold in every reachable state: the registry never exceeds the configured number of
  connections; and stopping always finishes with no connection left, whatever the state, because
  each round of the shutdown loop removes the connection it closes.
\<close>

theorem transport_bounded_and_drained:
  assumes "service_step\<^sup>*\<^sup>* (TransportService_new cbs app) s"
  shows "umap_size (wc_connections (ts_worker s)) \<le> max_connections (wc_limits (ts_worker s))
    \<and> wc_connections (ts_worker (service_stop invoke_ok s)) = []
    \<and> \<not> ts_running (service_stop invoke_ok s)"
proof -
  have inv: "service_inv False s"
    using transport.star_inv [OF _ assms] by (auto simp: service_initial_def)
  then have "worker_inv False (ts_worker s)"
    by (simp add: service_inv_def split: if_splits)
  then show ?thesis
    using service_stop_inv [OF inv, of invoke_ok] by (simp add: worker_inv_def)
qed

theorem transport_bounded_and_drained_witness:
  "wc_connections (ts_worker (service_stop True sample_accepted)) = []"
  using transport_bounded_and_drained [OF service_steps_any [OF sample_accepted_reached], of True] by blast

text \<open>
  A stale timer never closes a connection: the handler of a deadline does nothing unless the
  connection is live and no later activity re-armed the deadline, even when the old timeout was
  already queued with success.
\<close>

theorem stale_deadline_ignored:
  assumes "umap_find (wc_connections w) i = Some c"
  shows "deadline_expired i (cn_deadline_generation c) False (touch_idle_deadline i w) = touch_idle_deadline i w
    \<and> deadline_expired i (cn_deadline_generation c) True w = w
    \<and> deadline_expired i (cn_deadline_generation c) False w = conn_reject i ''Connection deadline exceeded'' w"
  using assms by (simp add: deadline_expired_def touch_idle_deadline_def)

theorem stale_deadline_ignored_witness:
  "deadline_expired 1 1 False (touch_idle_deadline 1 sample_http_worker) = touch_idle_deadline 1 sample_http_worker"
proof -
  obtain c where c: "umap_find (wc_connections sample_http_worker) 1 = Some c" "cn_deadline_generation c = 1"
    by (simp add: sample_http_worker_def umap_find_def)
  show ?thesis
    using stale_deadline_ignored [OF c(1)] c(2) by simp
qed

end
