(* ===== verification/Event_Queue.thy ===== *)
theory Event_Queue
  imports Net_Types
begin

text \<open>
  \<^verbatim>\<open>runtime::host::EventQueue\<close> (src/src/Runtime/Host/EventQueue.cpp): the only path from the
  transport worker to the polling host. One mutex guards every method, so each is one step; the
  condition variable only decides when \<^verbatim>\<open>poll\<close> looks, and \<open>poll\<close> below is what it does once it
  looks. \<open>alloc_ok\<close> says whether the allocation inside \<^verbatim>\<open>push_back\<close> succeeds.
\<close>

section \<open>State and operations\<close>

datatype event_kind = EvOpen | EvMessage | EvClose | EvError | EvOverflow | EvHttpRequest

record event =
  ev_kind :: event_kind
  ev_peer :: peer
  ev_sequence :: u64
  ev_payload_size :: nat

record event_entry =
  en_event :: event
  en_payload :: buffer

datatype poll_result = Ready | Timeout | BufferTooSmall | Stopped

record event_queue =
  eq_entries :: "event_entry list"
  eq_max_count :: nat
  eq_max_bytes :: nat
  eq_bytes :: nat
  eq_next_sequence :: u64
  eq_stopped :: bool
  eq_overflow :: bool
  eq_overflow_reported :: bool

definition EventQueue_new :: "nat \<Rightarrow> nat \<Rightarrow> event_queue" where
  "EventQueue_new max_count max_bytes =
     \<lparr>eq_entries = [], eq_max_count = max_count, eq_max_bytes = max_bytes, eq_bytes = 0,
      eq_next_sequence = 1, eq_stopped = False, eq_overflow = False, eq_overflow_reported = False\<rparr>"

definition eq_push ::
  "bool \<Rightarrow> event_kind \<Rightarrow> peer \<Rightarrow> buffer \<Rightarrow> event_queue \<Rightarrow> event_queue \<times> bool" where
  "eq_push alloc_ok kind peer payload q =
     (if eq_stopped q \<or> eq_overflow q then (q, False)
      else
        (let q1 =
           (if length (eq_entries q) \<ge> eq_max_count q
               \<or> buffer_size payload > sub64 (eq_max_bytes q) (eq_bytes q)
            then q\<lparr>eq_overflow := True\<rparr>
            else if alloc_ok
            then q\<lparr>eq_entries := eq_entries q @
                     [\<lparr>en_event = \<lparr>ev_kind = kind, ev_peer = peer, ev_sequence = eq_next_sequence q,
                                  ev_payload_size = buffer_size payload\<rparr>,
                       en_payload = payload\<rparr>],
                   eq_next_sequence := eq_next_sequence q + 1,
                   eq_bytes := add64 (eq_bytes q) (buffer_size payload)\<rparr>
            else q\<lparr>eq_overflow := True\<rparr>);
          q2 = (if eq_overflow q1 then q1\<lparr>eq_entries := [], eq_bytes := 0\<rparr> else q1)
         in (q2, \<not> eq_overflow q2)))"

text \<open>
  The event written to the caller (if any) and the bytes copied into the payload buffer
  accompany the result.
\<close>

definition eq_poll ::
  "nat \<Rightarrow> event_queue \<Rightarrow> event_queue \<times> poll_result \<times> event option \<times> bytes" where
  "eq_poll capacity q =
     (if eq_overflow q then
        (if eq_overflow_reported q then (q, Stopped, None, [])
         else (q\<lparr>eq_next_sequence := eq_next_sequence q + 1, eq_overflow_reported := True\<rparr>, Ready,
               Some \<lparr>ev_kind = EvOverflow, ev_peer = Peer_default,
                     ev_sequence = eq_next_sequence q, ev_payload_size = 0\<rparr>, []))
      else
        (case eq_entries q of
           [] \<Rightarrow> (q, if eq_stopped q then Stopped else Timeout, None, [])
         | entry # rest \<Rightarrow>
             if buffer_size (en_payload entry) > capacity
             then (q, BufferTooSmall, Some (en_event entry), [])
             else (q\<lparr>eq_bytes := sub64 (eq_bytes q) (buffer_size (en_payload entry)),
                     eq_entries := rest\<rparr>,
                   Ready, Some (en_event entry), buf_bytes (en_payload entry))))"

definition eq_finish :: "event_queue \<Rightarrow> event_queue" where
  "eq_finish q = q\<lparr>eq_stopped := True\<rparr>"

definition eq_overflowed :: "event_queue \<Rightarrow> bool" where
  "eq_overflowed q = eq_overflow q"

section \<open>Invariant\<close>

definition entry_cost :: "event_entry \<Rightarrow> nat" where
  "entry_cost e = buffer_size (en_payload e)"

definition eq_inv :: "event_queue \<Rightarrow> bool" where
  "eq_inv q \<longleftrightarrow>
     eq_bytes q = sum_list (map entry_cost (eq_entries q))
     \<and> eq_bytes q \<le> eq_max_bytes q \<and> eq_max_bytes q < W64
     \<and> length (eq_entries q) \<le> eq_max_count q
     \<and> (eq_overflow q \<longrightarrow> eq_entries q = [])
     \<and> (eq_overflow_reported q \<longrightarrow> eq_overflow q)
     \<and> list_all (\<lambda>e. ev_payload_size (en_event e) = entry_cost e \<and> ev_kind (en_event e) \<noteq> EvOverflow)
         (eq_entries q)"

lemma eq_inv_new [inv_rules]: "mb < W64 \<Longrightarrow> eq_inv (EventQueue_new mc mb)"
  by (simp add: eq_inv_def EventQueue_new_def)

definition eq_accepts :: "event_queue \<Rightarrow> buffer \<Rightarrow> bool" where
  "eq_accepts q payload \<longleftrightarrow> \<not> eq_stopped q \<and> \<not> eq_overflow q
     \<and> length (eq_entries q) < eq_max_count q \<and> eq_bytes q + buffer_size payload \<le> eq_max_bytes q"

definition queued :: "event_kind \<Rightarrow> peer \<Rightarrow> buffer \<Rightarrow> event_queue \<Rightarrow> event_queue" where
  "queued kind peer payload q =
     q\<lparr>eq_entries := eq_entries q @
         [\<lparr>en_event = \<lparr>ev_kind = kind, ev_peer = peer, ev_sequence = eq_next_sequence q,
                      ev_payload_size = buffer_size payload\<rparr>, en_payload = payload\<rparr>],
       eq_next_sequence := eq_next_sequence q + 1,
       eq_bytes := eq_bytes q + buffer_size payload\<rparr>"

text \<open>The four outcomes of a push.\<close>

lemma eq_push_cases:
  assumes "eq_inv q"
  shows "eq_push alloc_ok kind peer payload q =
    (if eq_stopped q \<or> eq_overflow q then (q, False)
     else if eq_accepts q payload \<and> alloc_ok then (queued kind peer payload q, True)
     else (q\<lparr>eq_overflow := True, eq_entries := [], eq_bytes := 0\<rparr>, False))"
proof -
  have b: "eq_bytes q \<le> eq_max_bytes q" "eq_max_bytes q < W64"
    using assms by (simp_all add: eq_inv_def)
  then have r: "sub64 (eq_max_bytes q) (eq_bytes q) < buffer_size payload \<longleftrightarrow>
      \<not> eq_bytes q + buffer_size payload \<le> eq_max_bytes q"
    by auto
  show ?thesis
    using b by (auto simp: eq_push_def eq_accepts_def queued_def Let_def r)
qed

lemma eq_inv_push [inv_rules]:
  assumes "eq_inv q" and "kind \<noteq> EvOverflow"
  shows "eq_inv (fst (eq_push alloc_ok kind peer payload q))"
  using assms unfolding eq_push_cases [OF assms(1)]
  by (auto simp: eq_inv_def eq_accepts_def queued_def entry_cost_def)

lemma eq_inv_poll [inv_rules]: "eq_inv q \<Longrightarrow> eq_inv (fst (eq_poll capacity q))"
  by (auto simp: eq_inv_def eq_poll_def entry_cost_def split: list.splits)

lemma eq_inv_finish [inv_rules]: "eq_inv q \<Longrightarrow> eq_inv (eq_finish q)"
  by (simp add: eq_inv_def eq_finish_def)

section \<open>The queue as a machine\<close>

datatype eq_op = Push bool event_kind peer buffer | Poll nat | Finish

fun eq_step :: "event_queue \<Rightarrow> eq_op \<Rightarrow> event_queue" where
  "eq_step q (Push alloc_ok kind peer payload) = fst (eq_push alloc_ok kind peer payload q)"
| "eq_step q (Poll capacity) = fst (eq_poll capacity q)"
| "eq_step q Finish = eq_finish q"

text \<open>The engine never pushes an Overflow event itself (see \<open>Server_Host\<close>).\<close>

fun eq_legal :: "eq_op \<Rightarrow> bool" where
  "eq_legal (Push alloc_ok kind peer payload) = (kind \<noteq> EvOverflow)"
| "eq_legal op = True"

interpretation eqm: machine eq_step eq_inv eq_legal
proof
  fix q x
  show "eq_inv q \<Longrightarrow> eq_legal x \<Longrightarrow> eq_inv (eq_step q x)"
    by (cases x) (auto intro: inv_rules)
qed

section \<open>The queue as a bounded FIFO\<close>

type_synonym posted = "event_kind \<times> peer \<times> buffer"

definition entry_posted :: "event_entry \<Rightarrow> posted" where
  "entry_posted e = (ev_kind (en_event e), ev_peer (en_event e), en_payload e)"

definition posted_cost :: "posted \<Rightarrow> nat" where
  "posted_cost x = buffer_size (snd (snd x))"

interpretation eqf: bounded_fifo
  "\<lambda>q. map entry_posted (eq_entries q)" eq_bytes posted_cost eq_max_count eq_max_bytes
  "\<lambda>q x. eq_accepts q (snd (snd x)) \<and> fst x \<noteq> EvOverflow"
  "\<lambda>q x. fst (eq_push True (fst x) (fst (snd x)) (snd (snd x)) q)"
  "\<lambda>q. fst (eq_poll (eq_max_bytes q) q)"
  "\<lambda>q. eq_inv q \<and> \<not> eq_overflow q"
proof (unfold_locales, goal_cases)
  case (1 q)
  then show ?case
    by (simp add: eq_inv_def posted_cost_def entry_posted_def entry_cost_def [abs_def] comp_def)
next
  case (4 q x)
  then show ?case
    using eq_inv_push [of q "fst x" True "fst (snd x)" "snd (snd x)"]
    by (auto simp: eq_push_cases queued_def eq_accepts_def)
next
  case (5 q x)
  then show ?case
    by (cases x) (auto simp: eq_push_cases queued_def eq_accepts_def entry_posted_def)
next
  case (6 q)
  then show ?case
    using eq_inv_poll [of q] by (auto simp: eq_poll_def split: list.splits)
next
  case (7 q)
  then obtain e es where e: "eq_entries q = e # es" by (cases "eq_entries q") auto
  then have "buffer_size (en_payload e) \<le> eq_max_bytes q"
    using 7 by (auto simp: eq_inv_def entry_cost_def)
  then show ?case using 7 e by (simp add: eq_poll_def)
next
  case (8 q x)
  then show ?case by (auto simp: eq_accepts_def posted_cost_def)
qed (auto simp: eq_inv_def)

section \<open>Runs\<close>

text \<open>A run collects the events handed to the host and counts the accepted pushes.\<close>

definition eq_delivers :: "event_queue \<Rightarrow> eq_op \<Rightarrow> event list" where
  "eq_delivers q op =
     (case op of
        Poll capacity \<Rightarrow>
          (case eq_poll capacity q of (_, Ready, Some e, _) \<Rightarrow> [e] | _ \<Rightarrow> [])
      | _ \<Rightarrow> [])"

definition eq_admits :: "event_queue \<Rightarrow> eq_op \<Rightarrow> nat" where
  "eq_admits q op =
     (case op of
        Push alloc_ok kind peer payload \<Rightarrow> if snd (eq_push alloc_ok kind peer payload q) then 1 else 0
      | _ \<Rightarrow> 0)"

fun eq_run :: "event_queue \<Rightarrow> eq_op list \<Rightarrow> event_queue \<times> event list \<times> nat" where
  "eq_run q [] = (q, [], 0)"
| "eq_run q (op # ops) =
     (let (q', evs, n) = eq_run (eq_step q op) ops
      in (q', eq_delivers q op @ evs, eq_admits q op + n))"

definition entry_sequence :: "event_entry \<Rightarrow> u64" where
  "entry_sequence e = ev_sequence (en_event e)"

lemma eq_step_overflow_stays: "eq_overflow q \<Longrightarrow> eq_overflow (eq_step q op)"
  by (cases op) (auto simp: eq_push_def eq_poll_def eq_finish_def)

lemma eq_run_overflow_stays: "eq_overflow q \<Longrightarrow> eq_overflow (fst (eq_run q ops))"
  by (induction ops arbitrary: q) (auto simp: case_prod_beta Let_def eq_step_overflow_stays)

text \<open>One step, without overflow: what is delivered leaves the front, what is admitted is
  numbered and joins the back.\<close>

lemma eq_step_sequences:
  assumes "eq_inv q" and "\<not> eq_overflow (eq_step q op)"
  shows "map entry_sequence (eq_entries q) @ (if eq_admits q op = 0 then [] else [eq_next_sequence q])
       = map ev_sequence (eq_delivers q op) @ map entry_sequence (eq_entries (eq_step q op))
     \<and> eq_next_sequence (eq_step q op) = eq_next_sequence q + of_nat (eq_admits q op)
     \<and> eq_admits q op \<le> 1"
proof (cases op)
  case (Push alloc_ok kind peer payload)
  then show ?thesis
    using assms
    by (auto simp: eq_push_cases eq_admits_def eq_delivers_def queued_def entry_sequence_def
        split: if_splits)
next
  case (Poll capacity)
  then show ?thesis
    using assms
    by (auto simp: eq_poll_def eq_admits_def eq_delivers_def entry_sequence_def split: list.splits)
next
  case Finish
  then show ?thesis
    by (simp add: eq_admits_def eq_delivers_def eq_finish_def)
qed

lemma eq_run_sequences:
  "eq_inv q \<Longrightarrow> list_all eq_legal ops \<Longrightarrow> eq_run q ops = (q', evs, n) \<Longrightarrow> \<not> eq_overflow q' \<Longrightarrow>
     map entry_sequence (eq_entries q) @ map (\<lambda>i. eq_next_sequence q + of_nat i) [0..<n] =
       map ev_sequence evs @ map entry_sequence (eq_entries q')"
proof (induction ops arbitrary: q evs n)
  case (Cons op ops)
  obtain evs' n' where r: "eq_run (eq_step q op) ops = (q', evs', n')"
    and evs: "evs = eq_delivers q op @ evs'" and n: "n = eq_admits q op + n'"
    using Cons.prems(3) by (auto simp: case_prod_beta Let_def prod_eq_iff)
  have no: "\<not> eq_overflow (eq_step q op)"
    using Cons.prems(4) eq_run_overflow_stays [of "eq_step q op" ops] r by auto
  have inv: "eq_inv (eq_step q op)"
    using Cons.prems(1,2) by (intro eqm.step_inv) auto
  note one = eq_step_sequences [OF Cons.prems(1) no]
  note rest = Cons.IH [OF inv _ r Cons.prems(4)]
  have shift: "map (\<lambda>i. eq_next_sequence q + of_nat i) [0..<n] =
      (if eq_admits q op = 0 then [] else [eq_next_sequence q])
      @ map (\<lambda>i. eq_next_sequence (eq_step q op) + of_nat i) [0..<n']"
  proof (cases "eq_admits q op = 0")
    case False
    then have a: "eq_admits q op = 1" using one by linarith
    have "[0..<n] = 0 # map Suc [0..<n']"
      using n a by (simp add: map_Suc_upt upt_conv_Cons)
    then show ?thesis using a one by (simp add: comp_def add.assoc)
  qed (use n one in simp)
  have "map entry_sequence (eq_entries (eq_step q op))
      @ map (\<lambda>i. eq_next_sequence (eq_step q op) + of_nat i) [0..<n'] =
      map ev_sequence evs' @ map entry_sequence (eq_entries q')"
    using rest Cons.prems(2) by simp
  with one show ?case
    unfolding shift evs map_append by (metis append.assoc)
qed simp

section \<open>Properties\<close>

text \<open>
  C3. Nothing is lost while the queue does not overflow: over any interleaving of pushes, polls
  and shutdown, the events the host has received followed by those still queued carry exactly the
  sequence numbers \<open>1, 2, \<dots>\<close> of the accepted pushes, in order and without a gap.
\<close>

theorem event_sequences_gap_free:
  assumes "max_bytes < W64" and "list_all eq_legal ops"
    and "eq_run (EventQueue_new max_count max_bytes) ops = (q, evs, n)" and "\<not> eq_overflow q"
  shows "map ev_sequence evs @ map entry_sequence (eq_entries q) = map of_nat [1..<Suc n]"
proof -
  have "map ev_sequence evs @ map entry_sequence (eq_entries q) =
      map (\<lambda>i. (1 :: u64) + of_nat i) [0..<n]"
    using eq_run_sequences [OF eq_inv_new [OF assms(1)] assms(2-4)] by (simp add: EventQueue_new_def)
  also have "\<dots> = map of_nat [1..<Suc n]"
    by (simp add: map_Suc_upt [symmetric] comp_def del: upt_Suc)
  finally show ?thesis .
qed

definition sample_ops :: "eq_op list" where
  "sample_ops = [Push True EvOpen Peer_default Buffer_empty,
                 Push True EvMessage Peer_default (Buffer_of_vector [7, 8]), Poll 0, Poll 0, Finish]"

theorem event_sequences_gap_free_witness:
  "map ev_sequence (fst (snd (eq_run (EventQueue_new 4 100) sample_ops)))
     @ map entry_sequence (eq_entries (fst (eq_run (EventQueue_new 4 100) sample_ops))) = map of_nat [1..<Suc 2]"
proof -
  obtain q evs n where r: "eq_run (EventQueue_new 4 100) sample_ops = (q, evs, n)"
    using prod_cases3 by blast
  have "\<not> eq_overflow (fst (eq_run (EventQueue_new 4 100) sample_ops))"
    "snd (snd (eq_run (EventQueue_new 4 100) sample_ops)) = 2" "list_all eq_legal sample_ops"
    by (simp_all add: sample_ops_def EventQueue_new_def eq_push_def eq_poll_def eq_finish_def
        eq_admits_def buffer_defs sub64_def add64_def)
  then show ?thesis
    using event_sequences_gap_free [OF _ _ r] r by simp
qed

lemma overflow_reported_run:
  "eq_overflow q \<Longrightarrow> eq_overflow_reported q \<Longrightarrow> snd (eq_run q ops) = ([], 0)"
proof (induction ops arbitrary: q)
  case (Cons op ops)
  then have "eq_overflow (eq_step q op) \<and> eq_overflow_reported (eq_step q op)
      \<and> eq_delivers q op = [] \<and> eq_admits q op = 0"
    by (cases op)
      (auto simp: eq_push_def eq_poll_def eq_finish_def eq_delivers_def eq_admits_def)
  then show ?case using Cons.IH [of "eq_step q op"] by (simp add: case_prod_beta Let_def)
qed simp

definition is_Poll :: "eq_op \<Rightarrow> bool" where
  "is_Poll op = (case op of Poll _ \<Rightarrow> True | _ \<Rightarrow> False)"

text \<open>
  Overflow is terminal and visible once: from an overflowed queue that has not reported it,
  no push is ever accepted again and the host receives exactly one further event, of kind
  Overflow, at its first poll.
\<close>

theorem overflow_terminal:
  assumes "eq_overflow q" and "\<not> eq_overflow_reported q"
  shows "snd (eq_run q ops) =
    (if list_ex is_Poll ops
     then [\<lparr>ev_kind = EvOverflow, ev_peer = Peer_default, ev_sequence = eq_next_sequence q,
            ev_payload_size = 0\<rparr>] else [], 0)"
  using assms
proof (induction ops arbitrary: q)
  case (Cons op ops)
  show ?case
  proof (cases op)
    case (Push a k p b)
    then show ?thesis using Cons.IH [of q] Cons.prems
      by (simp add: eq_push_def eq_delivers_def eq_admits_def is_Poll_def case_prod_beta Let_def)
  next
    case (Poll c)
    then show ?thesis
      using Cons.prems overflow_reported_run [of "eq_step q op" ops]
      by (simp add: eq_poll_def eq_delivers_def eq_admits_def is_Poll_def case_prod_beta Let_def)
  next
    case Finish
    then show ?thesis using Cons.IH [of "eq_finish q"] Cons.prems
      by (simp add: eq_finish_def eq_delivers_def eq_admits_def is_Poll_def case_prod_beta Let_def)
  qed
qed simp

theorem overflow_terminal_witness:
  "snd (eq_run (fst (eq_push True EvOpen Peer_default Buffer_empty (EventQueue_new 0 10)))
      [Finish, Poll 5, Push True EvOpen Peer_default Buffer_empty, Poll 5]) =
   ([\<lparr>ev_kind = EvOverflow, ev_peer = Peer_default, ev_sequence = 1, ev_payload_size = 0\<rparr>], 0)"
  using overflow_terminal [of "fst (eq_push True EvOpen Peer_default Buffer_empty (EventQueue_new 0 10))"
      "[Finish, Poll 5, Push True EvOpen Peer_default Buffer_empty, Poll 5]"]
  by (simp add: eq_push_def EventQueue_new_def is_Poll_def)

text \<open>
  The queue keeps its accounting under every legal sequence of operations: the byte counter is
  the total payload queued, within the configured bytes, and the entry count is within the
  configured count, so the subtraction in the admission test never wraps.
\<close>

theorem event_queue_accounting:
  assumes "max_bytes < W64" and "list_all eq_legal ops"
  shows "eq_bytes (foldl eq_step (EventQueue_new max_count max_bytes) ops) =
      sum_list (map entry_cost (eq_entries (foldl eq_step (EventQueue_new max_count max_bytes) ops)))
    \<and> eq_bytes (foldl eq_step (EventQueue_new max_count max_bytes) ops) \<le> max_bytes
    \<and> length (eq_entries (foldl eq_step (EventQueue_new max_count max_bytes) ops)) \<le> max_count"
proof -
  let ?q = "foldl eq_step (EventQueue_new max_count max_bytes) ops"
  have "eq_inv ?q"
    using eqm.run_inv [OF eq_inv_new [OF assms(1)] assms(2)] .
  moreover have "eq_max_bytes (foldl eq_step q ops) = eq_max_bytes q
      \<and> eq_max_count (foldl eq_step q ops) = eq_max_count q" for q
  proof (induction ops arbitrary: q)
    case (Cons op ops)
    moreover have "eq_max_bytes (eq_step q op) = eq_max_bytes q
        \<and> eq_max_count (eq_step q op) = eq_max_count q"
      by (cases op) (auto simp: eq_push_def eq_poll_def eq_finish_def Let_def split: list.splits)
    ultimately show ?case by simp
  qed simp
  ultimately show ?thesis
    by (simp add: eq_inv_def EventQueue_new_def)
qed

theorem event_queue_accounting_witness:
  "length (eq_entries (foldl eq_step (EventQueue_new 4 100) sample_ops)) \<le> 4"
  using event_queue_accounting [of 100 sample_ops 4] by (simp add: sample_ops_def)

text \<open>
  A poll with too small a buffer loses nothing: the queue is unchanged, the event reports the
  size that is needed, and a retry with that capacity returns the same event with its payload.
\<close>

theorem poll_retry_delivers:
  assumes "eq_inv q" and "eq_poll capacity q = (q', BufferTooSmall, Some e, copied)"
  shows "q' = q \<and> copied = [] \<and> capacity < ev_payload_size e
    \<and> fst (snd (eq_poll (ev_payload_size e) q)) = Ready
    \<and> fst (snd (snd (eq_poll (ev_payload_size e) q))) = Some e
    \<and> length (snd (snd (snd (eq_poll (ev_payload_size e) q)))) = ev_payload_size e"
  using assms
  by (auto simp: eq_poll_def eq_inv_def entry_cost_def buffer_size_def split: list.splits if_splits)

theorem poll_retry_delivers_witness:
  "fst (snd (eq_poll 2 (fst (eq_push True EvMessage Peer_default (Buffer_of_vector [7, 8])
      (EventQueue_new 4 100))))) = Ready"
proof -
  let ?q = "fst (eq_push True EvMessage Peer_default (Buffer_of_vector [7, 8]) (EventQueue_new 4 100))"
  let ?e = "\<lparr>ev_kind = EvMessage, ev_peer = Peer_default, ev_sequence = 1, ev_payload_size = 2\<rparr>"
  have i: "eq_inv ?q"
    by (intro eq_inv_push eq_inv_new) simp_all
  have p: "eq_poll 0 ?q = (?q, BufferTooSmall, Some ?e, [])"
    by (simp add: eq_push_def eq_poll_def EventQueue_new_def buffer_defs sub64_def)
  show ?thesis
    using poll_retry_delivers [OF i p] by simp
qed

end
