(* ===== verification/Server_Host.thy ===== *)
theory Server_Host
  imports Transport_Service Event_Queue
begin

text \<open>
  \<^verbatim>\<open>runtime::host::ServerHost\<close> (src/src/Runtime/Host/ServerHost.cpp): the lifecycle of a hosted
  server, with the transport underneath and the event queue as the only way to the application.
  The queue is the application state of the transport worker, so the worker's callbacks and the
  host's polls act on the same value. \<open>alloc\<close> says whether the allocation of a push succeeds,
  \<open>text_ok\<close> whether that of an error text does.
\<close>

section \<open>State and callbacks\<close>

datatype host_state = Configuring | Running | Host_stopped

record host_options =
  ho_network :: service_limits
  ho_max_event_queue_count :: nat
  ho_max_event_queue_bytes :: nat

record server_host =
  sh_options :: host_options
  sh_state :: host_state
  sh_next_listener_id :: u64
  sh_listeners :: "listener_config list"
  sh_transport :: "event_queue service"

definition error_peer :: "listener_config list \<Rightarrow> u64 \<Rightarrow> peer" where
  "error_peer listeners listener_id =
     (case filter (\<lambda>l. lc_id l = listener_id) listeners of
        [] \<Rightarrow> Peer_default\<lparr>p_listener_id := listener_id\<rparr>
      | l # _ \<Rightarrow> Peer_default\<lparr>p_listener_id := listener_id, p_protocol := lc_protocol l\<rparr>)"

definition host_callbacks ::
  "(event_queue \<Rightarrow> bool) \<Rightarrow> (string \<Rightarrow> bool) \<Rightarrow> listener_config list \<Rightarrow> event_queue callbacks" where
  "host_callbacks alloc text_ok listeners =
     \<lparr>cb_open = Some (\<lambda>p q. map_prod id Some (eq_push (alloc q) EvOpen p Buffer_empty q)),
      cb_message = Some (\<lambda>p b q. map_prod id Some (eq_push (alloc q) EvMessage p b q)),
      cb_close = Some (\<lambda>p q. fst (eq_push (alloc q) EvClose p Buffer_empty q)),
      cb_error = Some (\<lambda>l m q. fst (eq_push (alloc q) EvError (error_peer listeners l)
        (if text_ok m then from_text m else Buffer_empty) q)),
      cb_http_request = Some (\<lambda>p b q. map_prod id Some (eq_push (alloc q) EvHttpRequest p b q))\<rparr>"

definition ServerHost_new :: "host_options \<Rightarrow> server_host" where
  "ServerHost_new options =
     \<lparr>sh_options = options, sh_state = Configuring, sh_next_listener_id = 1, sh_listeners = [],
      sh_transport = TransportService_new no_callbacks
        (EventQueue_new (ho_max_event_queue_count options) (ho_max_event_queue_bytes options))\<rparr>"

definition host_events :: "server_host \<Rightarrow> event_queue" where
  "host_events h = wc_app (ts_worker (sh_transport h))"

definition set_host_events :: "event_queue \<Rightarrow> server_host \<Rightarrow> server_host" where
  "set_host_events q h =
     h\<lparr>sh_transport := (sh_transport h)\<lparr>ts_worker := (ts_worker (sh_transport h))\<lparr>wc_app := q\<rparr>\<rparr>\<rparr>"

section \<open>Operations\<close>

definition host_add_listener :: "listener_config \<Rightarrow> server_host \<Rightarrow> server_host \<times> u64 res" where
  "host_add_listener config h =
     (if sh_state h \<noteq> Configuring \<or> length (sh_listeners h) \<ge> 64
      then (h, Inl ''listeners can only be added before start (maximum 64)'')
      else
        (h\<lparr>sh_listeners := sh_listeners h @ [config\<lparr>lc_id := sh_next_listener_id h\<rparr>],
           sh_next_listener_id := sh_next_listener_id h + 1\<rparr>, Inr (sh_next_listener_id h)))"

definition host_start ::
  "(event_queue \<Rightarrow> bool) \<Rightarrow> (string \<Rightarrow> bool) \<Rightarrow> launch \<Rightarrow> (listener_config \<Rightarrow> unit res) \<Rightarrow>
     server_host \<Rightarrow> server_host \<times> unit res" where
  "host_start alloc text_ok outcome opens h =
     (if sh_state h = Running then (h, Inr ())
      else if sh_state h \<noteq> Configuring
      then (h, Inl ''server is stopped; create a new handle to restart'')
      else
        (case service_start outcome opens (sh_listeners h) (ho_network (sh_options h))
                (host_callbacks alloc text_ok (sh_listeners h)) (sh_transport h) of
           (t, Inl e) \<Rightarrow> (h\<lparr>sh_transport := t\<rparr>, Inl e)
         | (t, Inr _) \<Rightarrow> (h\<lparr>sh_transport := t, sh_state := Running\<rparr>, Inr ())))"

definition host_stop :: "bool \<Rightarrow> server_host \<Rightarrow> server_host" where
  "host_stop invoke_ok h =
     (if sh_state h = Host_stopped then h
      else
        (let h1 = h\<lparr>sh_transport := service_stop invoke_ok (sh_transport h), sh_state := Host_stopped\<rparr>
         in set_host_events (eq_finish (host_events h1)) h1))"

definition host_send :: "u64 \<Rightarrow> buffer \<Rightarrow> server_host \<Rightarrow> server_host \<times> unit res" where
  "host_send i data h =
     (if sh_state h \<noteq> Running \<or> eq_overflowed (host_events h)
      then (h, Inl ''server is not running or its event queue overflowed'')
      else (let (t, r) = service_send i data (sh_transport h) in (h\<lparr>sh_transport := t\<rparr>, r)))"

definition host_disconnect :: "u64 \<Rightarrow> server_host \<Rightarrow> server_host \<times> unit res" where
  "host_disconnect i h =
     (if sh_state h \<noteq> Running then (h, Inl ''server is not running'')
      else (let (t, r) = service_disconnect i (sh_transport h) in (h\<lparr>sh_transport := t\<rparr>, r)))"

definition host_respond_http :: "u64 \<Rightarrow> u64 \<Rightarrow> http_response \<Rightarrow> server_host \<Rightarrow> server_host \<times> unit res" where
  "host_respond_http i request_id response h =
     (if sh_state h \<noteq> Running \<or> eq_overflowed (host_events h)
      then (h, Inl ''server is not running or its event queue overflowed'')
      else (let (t, r) = service_respond_http i request_id response (sh_transport h)
            in (h\<lparr>sh_transport := t\<rparr>, r)))"

definition host_poll :: "bool \<Rightarrow> nat \<Rightarrow> server_host \<Rightarrow> server_host \<times> poll_result \<times> event option \<times> bytes" where
  "host_poll invoke_ok capacity h =
     (case eq_poll capacity (host_events h) of
        (q, r, e, payload) \<Rightarrow>
          (let h1 = set_host_events q h
           in (if r = Ready \<and> (case e of Some ev \<Rightarrow> ev_kind ev = EvOverflow | None \<Rightarrow> False)
               then host_stop invoke_ok h1 else h1, r, e, payload)))"

text \<open>A transport step (accept or completion) underneath.\<close>

definition host_worker_step :: "(event_queue service \<Rightarrow> event_queue service) \<Rightarrow> server_host \<Rightarrow> server_host" where
  "host_worker_step f h = h\<lparr>sh_transport := f (sh_transport h)\<rparr>"

section \<open>Invariant\<close>

definition host_inv :: "server_host \<Rightarrow> bool" where
  "host_inv h \<longleftrightarrow> service_inv True (sh_transport h)
     \<and> (sh_state h = Running \<longleftrightarrow> ts_running (sh_transport h))
     \<and> max_send_queue_bytes (ho_network (sh_options h)) < W64
     \<and> length (sh_listeners h) \<le> 64
     \<and> sh_next_listener_id h = of_nat (Suc (length (sh_listeners h)))
     \<and> map lc_id (sh_listeners h) = map of_nat [1..<Suc (length (sh_listeners h))]
     \<and> (sh_state h = Host_stopped \<longrightarrow>
          eq_stopped (host_events h) \<and> wc_connections (ts_worker (sh_transport h)) = [])"

inductive host_step :: "server_host \<Rightarrow> server_host \<Rightarrow> bool" where
  add: "host_step h (fst (host_add_listener config h))"
| start: "host_step h (fst (host_start alloc text_ok outcome opens h))"
| stop: "host_step h (host_stop invoke_ok h)"
| send: "host_step h (fst (host_send i data h))"
| disconnect: "host_step h (fst (host_disconnect i h))"
| respond: "host_step h (fst (host_respond_http i rid response h))"
| poll: "host_step h (fst (host_poll invoke_ok capacity h))"
| accepted: "ts_running (sh_transport h) \<Longrightarrow> host_step h (host_worker_step (service_on_accept n result) h)"
| completed: "ts_running (sh_transport h) \<Longrightarrow>
    host_step h (host_worker_step (\<lambda>s. s\<lparr>ts_worker := complete x (ts_worker s)\<rparr>) h)"

inductive_cases host_stepE: "host_step h h'"

lemma set_host_events_frame [simp]:
  "sh_state (set_host_events q h) = sh_state h" "sh_listeners (set_host_events q h) = sh_listeners h"
  "sh_options (set_host_events q h) = sh_options h"
  "sh_next_listener_id (set_host_events q h) = sh_next_listener_id h"
  "ts_running (sh_transport (set_host_events q h)) = ts_running (sh_transport h)"
  "wc_connections (ts_worker (sh_transport (set_host_events q h))) = wc_connections (ts_worker (sh_transport h))"
  "service_inv True (sh_transport (set_host_events q h)) = service_inv True (sh_transport h)"
  "host_events (set_host_events q h) = q"
  by (simp_all add: set_host_events_def service_inv_def host_events_def)

lemma running_frame [simp]:
  "ts_running (fst (service_send i m s)) = ts_running s"
  "ts_running (fst (service_disconnect i s)) = ts_running s"
  "ts_running (fst (service_respond_http i rid r s)) = ts_running s"
  "ts_running (service_on_accept n res s) = ts_running s"
  by (auto simp: service_send_def service_disconnect_def service_respond_http_def service_on_accept_def
      case_prod_beta Let_def split: option.splits channel.splits sum.splits)

lemma start_running:
  "\<not> ts_running s \<Longrightarrow> ts_running (fst (service_start outcome opens ls limits cbs s)) \<longleftrightarrow>
     snd (service_start outcome opens ls limits cbs s) = Inr ()"
  by (auto simp: service_start_def Let_def service_stop_def split: sum.splits prod.splits launch.splits)

lemma host_callbacks_told: "told (host_callbacks alloc text_ok ls)"
  by (simp add: told_def host_callbacks_def)

lemma numbering_snoc:
  "map of_nat [Suc 0..<Suc (Suc n)] = map of_nat [Suc 0..<Suc n] @ [of_nat (Suc n)]"
  by simp

lemma host_add_inv:
  assumes "host_inv h"
  shows "host_inv (fst (host_add_listener config h))"
  using assms
  by (auto simp: host_inv_def host_add_listener_def host_events_def numbering_snoc simp del: upt_Suc)

lemma host_stop_inv:
  assumes "host_inv h"
  shows "host_inv (host_stop b h)"
  using assms service_stop_inv [of True "sh_transport h" b]
  by (auto simp: host_inv_def host_stop_def Let_def eq_finish_def)

lemma host_poll_inv:
  assumes "host_inv h"
  shows "host_inv (fst (host_poll b capacity h))"
proof -
  obtain q r e p where q: "eq_poll capacity (host_events h) = (q, r, e, p)"
    by (cases "eq_poll capacity (host_events h)") auto
  have "eq_stopped q = eq_stopped (host_events h)"
    using q by (auto simp: eq_poll_def split: if_splits list.splits)
  then have "host_inv (set_host_events q h)"
    using assms by (simp add: host_inv_def)
  then show ?thesis
    using host_stop_inv by (auto simp: host_poll_def q Let_def)
qed

lemma host_step_inv: "host_inv h \<Longrightarrow> host_step h h' \<Longrightarrow> host_inv h'"
proof (erule host_stepE, goal_cases)
  case 1
  then show ?case by (simp add: host_add_inv)
next
  case (2 alloc text_ok outcome opens)
  then show ?case
    using service_start_inv [of True "sh_transport h" "ho_network (sh_options h)"
        "host_callbacks alloc text_ok (sh_listeners h)" outcome opens "sh_listeners h"] host_callbacks_told
      start_running [of "sh_transport h" outcome opens "sh_listeners h" "ho_network (sh_options h)"
        "host_callbacks alloc text_ok (sh_listeners h)"]
    by (cases "service_start outcome opens (sh_listeners h) (ho_network (sh_options h))
          (host_callbacks alloc text_ok (sh_listeners h)) (sh_transport h)")
      (auto simp: host_inv_def host_start_def host_events_def split: sum.splits)
next
  case 3
  then show ?case by (simp add: host_stop_inv)
next
  case (4 i data)
  then show ?case
    by (auto simp: host_inv_def host_send_def case_prod_beta Let_def service_send_inv)
next
  case (5 i)
  then show ?case
    using service_step_inv [of True _ told, OF _ service_step_when.disconnect, of "sh_transport h" i]
    by (auto simp: host_inv_def host_disconnect_def case_prod_beta Let_def)
next
  case (6 i rid response)
  then show ?case
    using service_step_inv [of True _ told, OF _ service_step_when.respond, of "sh_transport h" i rid response]
    by (auto simp: host_inv_def host_respond_http_def case_prod_beta Let_def)
next
  case 7
  then show ?case by (simp add: host_poll_inv)
next
  case (8 n result)
  then show ?case
    using service_step_inv [of True _ told, OF _ service_step_when.accepted, of "sh_transport h" n result]
    by (auto simp: host_inv_def host_worker_step_def)
next
  case (9 x)
  then show ?case
    using service_step_inv [of True _ told, OF _ service_step_when.completed, of "sh_transport h" x]
    by (auto simp: host_inv_def host_worker_step_def)
qed

definition host_initial :: "server_host \<Rightarrow> bool" where
  "host_initial h \<longleftrightarrow>
     (\<exists>options. h = ServerHost_new options \<and> max_send_queue_bytes (ho_network options) < W64)"

lemma host_inv_new [inv_rules]:
  "max_send_queue_bytes (ho_network options) < W64 \<Longrightarrow> host_inv (ServerHost_new options)"
  using service_inv_new [of True no_callbacks "EventQueue_new (ho_max_event_queue_count options) (ho_max_event_queue_bytes options)"]
  by (simp add: host_inv_def ServerHost_new_def) (simp add: TransportService_new_def)

interpretation hosting: transition_system host_initial host_step host_inv
  by unfold_locales (auto simp: host_initial_def host_inv_new host_step_inv)

section \<open>Properties\<close>

text \<open>
  The host's listener ids are \<open>1, 2, \<dots>\<close> in the order of registration, at most 64, so the
  identifier check of the transport never refuses them; the transport runs exactly while the host
  says so.
\<close>

theorem host_listeners_numbered:
  assumes "host_step\<^sup>*\<^sup>* (ServerHost_new options) h" and "max_send_queue_bytes (ho_network options) < W64"
  shows "map lc_id (sh_listeners h) = map of_nat [1..<Suc (length (sh_listeners h))]
    \<and> length (sh_listeners h) \<le> 64 \<and> distinct (map lc_id (sh_listeners h)) \<and> 0 \<notin> lc_id ` set (sh_listeners h)
    \<and> (sh_state h = Running \<longleftrightarrow> ts_running (sh_transport h))"
proof -
  have inv: "host_inv h"
    using hosting.star_inv [OF _ assms(1)] assms(2) by (auto simp: host_initial_def)
  let ?n = "length (sh_listeners h)"
  have ids: "map lc_id (sh_listeners h) = map of_nat [1..<Suc ?n]" and n: "?n \<le> 64"
    using inv by (simp_all add: host_inv_def)
  have "inj_on (of_nat :: nat \<Rightarrow> u64) {1..<Suc ?n}"
    by (rule inj_on_subset [OF ident_range(1)]) (use n in auto)
  then have "distinct (map (of_nat :: nat \<Rightarrow> u64) [1..<Suc ?n])"
    by (simp add: distinct_map del: upt_Suc)
  moreover have "0 \<notin> set (map (of_nat :: nat \<Rightarrow> u64) [1..<Suc ?n])"
    using ident_range(2) n by (auto simp del: upt_Suc)
  then have "0 \<notin> lc_id ` set (sh_listeners h)"
    unfolding ids [symmetric] by simp
  ultimately show ?thesis
    using inv ids n by (simp add: host_inv_def del: upt_Suc)
qed

text \<open>The host installs callbacks that hear of every session, so its calls follow the session protocol.\<close>

lemma host_session_protocol:
  assumes "host_step\<^sup>*\<^sup>* (ServerHost_new options) h" and "max_send_queue_bytes (ho_network options) < W64"
  shows "phase_of (wc_trace (ts_worker (sh_transport h))) i \<noteq> Broken"
proof -
  have "service_inv True (sh_transport h)"
    using hosting.star_inv [OF _ assms(1)] assms(2) by (auto simp: host_initial_def host_inv_def)
  then show ?thesis
    by (auto simp: service_inv_def worker_inv_phase(1) split: if_splits)
qed

definition sample_host_options :: host_options where
  "sample_host_options = \<lparr>ho_network = sample_service_limits, ho_max_event_queue_count = 0,
     ho_max_event_queue_bytes = 64\<rparr>"

definition sample_hosting :: server_host where
  "sample_hosting = fst (host_start (\<lambda>_. True) (\<lambda>_. True) Launched (\<lambda>_. Inr ())
     (fst (host_add_listener sample_listener (ServerHost_new sample_host_options))))"

lemma sample_hosting_reached: "host_step\<^sup>*\<^sup>* (ServerHost_new sample_host_options) sample_hosting"
  unfolding sample_hosting_def
  by (rule rtranclp.rtrancl_into_rtrancl, rule r_into_rtranclp, rule host_step.add, rule host_step.start)

theorem host_listeners_numbered_witness: "length (sh_listeners sample_hosting) \<le> 64"
  using host_listeners_numbered [OF sample_hosting_reached]
  by (simp add: sample_host_options_def sample_service_limits_def)

lemma stopped_host_step:
  assumes "host_inv h" "sh_state h = Host_stopped" "host_step h h'"
  shows "sh_state h' = Host_stopped"
  using assms(3,1,2)
  by (cases rule: host_step.cases)
    (auto simp: host_inv_def host_add_listener_def host_start_def host_stop_def host_send_def
      host_disconnect_def host_respond_http_def host_poll_def Let_def split: prod.splits)

lemma stopped_host_steps:
  assumes "host_step\<^sup>*\<^sup>* h h'" "host_inv h" "sh_state h = Host_stopped"
  shows "host_inv h' \<and> sh_state h' = Host_stopped"
  using assms by (induction rule: rtranclp_induct) (auto intro: stopped_host_step host_step_inv)

text \<open>
  C35. Overflow shuts the server down: the poll that delivers the overflow event stops the host, and
  from then on, whatever is called, it stays stopped with no connection, is refused a new start, and
  refuses to send, disconnect, respond or add a listener.
\<close>

theorem overflow_stops_host:
  assumes "host_step\<^sup>*\<^sup>* (ServerHost_new options) h" and "max_send_queue_bytes (ho_network options) < W64"
    and "eq_overflow (host_events h)" and "\<not> eq_overflow_reported (host_events h)"
    and "host_poll invoke_ok capacity h = (h1, r, e, payload)"
    and "host_step\<^sup>*\<^sup>* h1 h'"
  shows "r = Ready \<and> payload = [] \<and> map_option ev_kind e = Some EvOverflow
    \<and> sh_state h' = Host_stopped \<and> wc_connections (ts_worker (sh_transport h')) = []
    \<and> (\<forall>alloc text_ok outcome opens. snd (host_start alloc text_ok outcome opens h') = Inl ''server is stopped; create a new handle to restart'')
    \<and> (\<forall>i data. isl (snd (host_send i data h'))) \<and> (\<forall>i. isl (snd (host_disconnect i h')))
    \<and> (\<forall>i rid response. isl (snd (host_respond_http i rid response h')))
    \<and> (\<forall>config. isl (snd (host_add_listener config h')))"
proof -
  have "host_inv h"
    using hosting.star_inv [OF _ assms(1)] assms(2) by (auto simp: host_initial_def)
  then have "host_inv h1"
    using host_poll_inv [of h invoke_ok capacity] assms(5) by simp
  moreover have polled: "r = Ready \<and> payload = [] \<and> map_option ev_kind e = Some EvOverflow
      \<and> sh_state h1 = Host_stopped"
    using assms(3,4,5) by (auto simp: host_poll_def eq_poll_def Let_def host_stop_def)
  ultimately have "host_inv h'" "sh_state h' = Host_stopped"
    using stopped_host_steps [OF assms(6)] by auto
  then show ?thesis
    using polled by (simp add: host_inv_def host_start_def host_send_def host_disconnect_def
        host_respond_http_def host_add_listener_def)
qed

definition sample_overflowed :: server_host where
  "sample_overflowed =
     host_worker_step (service_on_accept 0 (Inl ''reset'')) sample_hosting"

lemma sample_validated: "validate [sample_listener] sample_service_limits = Inr ()"
  by (simp add: validate_def sample_listener_def sample_service_limits_def contains_nul_def)

lemma sample_hosting_value:
  "ts_running (sh_transport sample_hosting)"
  "ts_listeners (sh_transport sample_hosting) = [(sample_listener, False)]"
  "wc_stopping (ts_worker (sh_transport sample_hosting)) = False"
  "wc_callbacks (ts_worker (sh_transport sample_hosting)) = host_callbacks (\<lambda>_. True) (\<lambda>_. True) [sample_listener]"
  "host_events sample_hosting = EventQueue_new 0 64"
  using sample_validated
  by (simp_all add: sample_hosting_def host_start_def host_add_listener_def ServerHost_new_def
      sample_host_options_def service_start_def TransportService_new_def sample_listener_def
      host_events_def)

lemma sample_overflowed_facts:
  "eq_overflow (host_events sample_overflowed)" "\<not> eq_overflow_reported (host_events sample_overflowed)"
  using sample_hosting_value
  by (simp_all add: sample_overflowed_def host_worker_step_def service_on_accept_def report_error_def
      host_callbacks_def host_events_def eq_push_def EventQueue_new_def sample_listener_def)

theorem overflow_stops_host_witness:
  "sh_state (fst (host_poll True 16 sample_overflowed)) = Host_stopped"
proof -
  have "host_step sample_hosting sample_overflowed"
    unfolding sample_overflowed_def by (rule host_step.accepted) (rule sample_hosting_value)
  then have "host_step\<^sup>*\<^sup>* (ServerHost_new sample_host_options) sample_overflowed"
    by (rule rtranclp.rtrancl_into_rtrancl [OF sample_hosting_reached])
  moreover have "max_send_queue_bytes (ho_network sample_host_options) < W64"
    by (simp add: sample_host_options_def sample_service_limits_def)
  moreover obtain h1 r e p where polled: "host_poll True 16 sample_overflowed = (h1, r, e, p)"
    by (rule prod_cases4)
  ultimately have "sh_state h1 = Host_stopped"
    using overflow_stops_host [OF _ _ sample_overflowed_facts polled rtranclp.rtrancl_refl] by blast
  then show ?thesis
    unfolding polled by simp
qed

end
