(* ===== verification/Abi_Status.thy ===== *)
theory Abi_Status
  imports Containers
begin

text \<open>
  The status codes of the C interface (src/include/ServerEngine/C/ServerEngine.h, Sql.h) and the
  outcome of a call that may fail with a status and a diagnostic: the C++ exceptions
  \<^verbatim>\<open>SqlError\<close> and the like are left values. A C string is the memory up to its first NUL; a
  pointer argument is an option, with \<open>None\<close> the null pointer.
\<close>

datatype se_status =
    SE_OK | SE_TIMEOUT | SE_BUFFER_TOO_SMALL | SE_STOPPED
  | SE_INVALID_ARGUMENT | SE_INVALID_HANDLE | SE_INVALID_STATE | SE_IO_ERROR | SE_BACKPRESSURE
  | SE_INTERNAL_ERROR | SE_NOT_SUPPORTED | SE_RESULT_TOO_LARGE | SE_OUTCOME_UNKNOWN | SE_SQL_CANCELLED

fun status_code :: "se_status \<Rightarrow> int" where
  "status_code SE_OK = 0"
| "status_code SE_TIMEOUT = 1"
| "status_code SE_BUFFER_TOO_SMALL = 2"
| "status_code SE_STOPPED = 3"
| "status_code SE_INVALID_ARGUMENT = -1"
| "status_code SE_INVALID_HANDLE = -2"
| "status_code SE_INVALID_STATE = -3"
| "status_code SE_IO_ERROR = -4"
| "status_code SE_BACKPRESSURE = -5"
| "status_code SE_INTERNAL_ERROR = -6"
| "status_code SE_NOT_SUPPORTED = -7"
| "status_code SE_RESULT_TOO_LARGE = -8"
| "status_code SE_OUTCOME_UNKNOWN = -9"
| "status_code SE_SQL_CANCELLED = -100"

definition SE_ABI_VERSION :: nat where "SE_ABI_VERSION = 0x00010000"
definition SE_PROTOCOL_TCP :: nat where "SE_PROTOCOL_TCP = 1"
definition SE_PROTOCOL_UDP :: nat where "SE_PROTOCOL_UDP = 2"
definition SE_PROTOCOL_WEBSOCKET :: nat where "SE_PROTOCOL_WEBSOCKET = 3"
definition SE_PROTOCOL_HTTP :: nat where "SE_PROTOCOL_HTTP = 4"
definition SE_SECURITY_NONE :: nat where "SE_SECURITY_NONE = 0"
definition SE_SECURITY_TLS :: nat where "SE_SECURITY_TLS = 1"

lemmas abi_constants = SE_ABI_VERSION_def SE_PROTOCOL_TCP_def SE_PROTOCOL_UDP_def SE_PROTOCOL_WEBSOCKET_def
  SE_PROTOCOL_HTTP_def SE_SECURITY_NONE_def SE_SECURITY_TLS_def

lemma status_code_inj: "status_code s = status_code t \<Longrightarrow> s = t"
  by (cases s; cases t) simp_all

type_synonym 'a outcome = "(se_status \<times> string) + 'a"

definition and_then :: "'a outcome \<Rightarrow> ('a \<Rightarrow> 'b outcome) \<Rightarrow> 'b outcome" where
  "and_then m f = (case m of Inl e \<Rightarrow> Inl e | Inr x \<Rightarrow> f x)"

definition require :: "bool \<Rightarrow> se_status \<Rightarrow> string \<Rightarrow> unit outcome" where
  "require ok status message = (if ok then Inr () else Inl (status, message))"

lemma and_then_Inr [simp]: "and_then (Inr x) f = f x"
  by (simp add: and_then_def)

lemma and_then_Inl [simp]: "and_then (Inl e) f = Inl e"
  by (simp add: and_then_def)

lemma and_then_eq_Inr: "and_then m f = Inr y \<longleftrightarrow> (\<exists>x. m = Inr x \<and> f x = Inr y)"
  by (cases m) simp_all

lemma and_then_eq_Inl: "and_then m f = Inl e \<longleftrightarrow> m = Inl e \<or> (\<exists>x. m = Inr x \<and> f x = Inl e)"
  by (cases m) simp_all

lemma require_eq [simp]:
  "require ok st m = Inr u \<longleftrightarrow> ok" "require ok st m = Inl e \<longleftrightarrow> \<not> ok \<and> e = (st, m)"
  by (auto simp: require_def)

lemmas outcome_simps = and_then_eq_Inr and_then_eq_Inl

text \<open>The status a call returns to C, and the copy of a diagnostic into a buffer of \<open>n\<close> characters.\<close>

definition outcome_status :: "'a outcome \<Rightarrow> se_status" where
  "outcome_status m = (case m of Inl (st, _) \<Rightarrow> st | Inr _ \<Rightarrow> SE_OK)"

definition c_string :: "string \<Rightarrow> string" where
  "c_string m = takeWhile (\<lambda>c. c \<noteq> CHR 0x00) m"

definition bounded_message :: "nat \<Rightarrow> string \<Rightarrow> string" where
  "bounded_message n diagnostic = take (n - 1) diagnostic"

lemma bounded_message_length: "0 < n \<Longrightarrow> length (bounded_message n d) < n"
  by (simp add: bounded_message_def)

end
