(* ===== verification/Sql_Request.thy ===== *)
theory Sql_Request
  imports Abi_Status
begin

text \<open>
  The values of the SQL service and the two functions that check and copy what the application
  passes in (src/src/Data/Sql/Types.h, Request.cpp, Result.cpp). A \<^verbatim>\<open>double\<close> is its IEEE-754 bit
  pattern; the sizes of the C++ objects that the accounting uses depend on the compiler and are the
  argument \<open>lay\<close>.
\<close>

section \<open>Values\<close>

record layout =
  sz_request :: nat
  sz_statement :: nat
  sz_value :: nat
  sz_result :: nat
  sz_string :: nat
  sz_vector :: nat

definition layout_ok :: "layout \<Rightarrow> bool" where
  "layout_ok lay \<longleftrightarrow> sz_request lay < W32 \<and> sz_statement lay < W32 \<and> sz_value lay < W32
     \<and> sz_result lay < W32 \<and> sz_string lay < W32 \<and> sz_vector lay < W32"

record sql_c_options =
  co_struct_size :: nat
  co_abi_version :: nat
  co_provider :: nat
  co_max_outstanding_requests :: nat
  co_max_request_bytes :: nat
  co_max_result_bytes :: nat
  co_max_rows :: nat
  co_max_columns :: nat
  co_query_timeout_ms :: nat
  co_busy_timeout_ms :: nat
  co_memory_budget_bytes :: nat
  co_connection :: "string option"
  co_reserved :: "u64 list"

record sql_options =
  sqo_connection :: string
  sqo_max_outstanding :: nat
  sqo_max_request_bytes :: nat
  sqo_max_result_bytes :: nat
  sqo_max_rows :: nat
  sqo_max_columns :: nat
  sqo_query_timeout_ms :: nat
  sqo_busy_timeout_ms :: nat
  sqo_memory_budget :: nat

definition SE_SQL_ABI_VERSION :: nat where "SE_SQL_ABI_VERSION = 0x00010000"
definition SE_SQL_SQLITE :: nat where "SE_SQL_SQLITE = 1"
definition SE_SQL_NULL :: nat where "SE_SQL_NULL = 0"
definition SE_SQL_INT64 :: nat where "SE_SQL_INT64 = 1"
definition SE_SQL_DOUBLE :: nat where "SE_SQL_DOUBLE = 2"
definition SE_SQL_TEXT :: nat where "SE_SQL_TEXT = 3"
definition SE_SQL_BLOB :: nat where "SE_SQL_BLOB = 4"

lemmas sql_constants = SE_SQL_ABI_VERSION_def SE_SQL_SQLITE_def SE_SQL_NULL_def SE_SQL_INT64_def
  SE_SQL_DOUBLE_def SE_SQL_TEXT_def SE_SQL_BLOB_def

text \<open>\<^verbatim>\<open>sizeof(se_sql_options)\<close>: ten 32-bit fields, a 64-bit one, a pointer, four reserved words.\<close>

definition sql_options_size :: nat where
  "sql_options_size = 10 * 4 + 8 + 8 + 4 * 8"

record sql_value =
  va_type :: nat
  va_integer :: int
  va_real :: u64
  va_bytes :: string

record sql_statement =
  st_sql :: string
  st_parameters :: "sql_value list"

record sql_result =
  rs_status :: se_status
  rs_message :: string
  rs_affected_rows :: nat
  rs_last_insert_id :: int
  rs_columns :: "string list"
  rs_rows :: "sql_value list list"

definition sql_result_new :: sql_result where
  "sql_result_new = \<lparr>rs_status = SE_OK, rs_message = [], rs_affected_rows = 0, rs_last_insert_id = 0,
     rs_columns = [], rs_rows = []\<rparr>"

definition result_fail :: "se_status \<Rightarrow> string \<Rightarrow> sql_result \<Rightarrow> sql_result" where
  "result_fail code diagnostic r =
     r\<lparr>rs_status := code, rs_affected_rows := 0, rs_last_insert_id := 0, rs_columns := [], rs_rows := [],
       rs_message := bounded_message 256 diagnostic\<rparr>"

datatype request_state = Rq_queued | Rq_running | Rq_complete | Rq_delivered

record sql_request =
  rq_id :: u64
  rq_reserved_bytes :: nat
  rq_statements :: "sql_statement list"
  rq_result :: sql_result
  rq_state :: request_state

section \<open>Options\<close>

definition decode_options :: "sql_c_options \<Rightarrow> sql_options outcome" where
  "decode_options c =
     and_then (require (co_struct_size c = sql_options_size \<and> co_abi_version c = SE_SQL_ABI_VERSION
         \<and> list_all (\<lambda>v. v = 0) (co_reserved c))
       SE_INVALID_ARGUMENT ''invalid SQL options layout/version/reserved fields'') (\<lambda>_.
     and_then (require (co_provider c = SE_SQL_SQLITE)
       SE_NOT_SUPPORTED ''this SQL module provides SQLite; requested provider is unavailable'') (\<lambda>_.
     case co_connection c of
       None \<Rightarrow> Inl (SE_INVALID_ARGUMENT, ''SQL connection filename is required'')
     | Some memory \<Rightarrow>
         let connection = c_string memory in
         and_then (require (connection \<noteq> []) SE_INVALID_ARGUMENT ''SQL connection filename is required'') (\<lambda>_.
         and_then (require (length connection \<le> 32768) SE_INVALID_ARGUMENT ''SQL connection filename too long'') (\<lambda>_.
         and_then (require
             (1 \<le> co_max_outstanding_requests c \<and> co_max_outstanding_requests c \<le> 4096
              \<and> 256 \<le> co_max_request_bytes c \<and> co_max_request_bytes c \<le> 16 * 1024 * 1024
              \<and> 1024 \<le> co_max_result_bytes c \<and> co_max_result_bytes c \<le> 16 * 1024 * 1024
              \<and> 1 \<le> co_max_rows c \<and> co_max_rows c \<le> 1000000
              \<and> 1 \<le> co_max_columns c \<and> co_max_columns c \<le> 1024
              \<and> 1 \<le> co_query_timeout_ms c \<and> co_query_timeout_ms c \<le> 300000
              \<and> co_busy_timeout_ms c \<le> 30000
              \<and> co_max_result_bytes c + co_max_request_bytes c + 1024 \<le> co_memory_budget_bytes c
              \<and> co_memory_budget_bytes c \<le> 1024 * 1024 * 1024)
             SE_INVALID_ARGUMENT ''SQL limits outside supported bounds'') (\<lambda>_.
         Inr \<lparr>sqo_connection = connection, sqo_max_outstanding = co_max_outstanding_requests c,
              sqo_max_request_bytes = co_max_request_bytes c, sqo_max_result_bytes = co_max_result_bytes c,
              sqo_max_rows = co_max_rows c, sqo_max_columns = co_max_columns c,
              sqo_query_timeout_ms = co_query_timeout_ms c, sqo_busy_timeout_ms = co_busy_timeout_ms c,
              sqo_memory_budget = co_memory_budget_bytes c\<rparr>)))))"

text \<open>What every accepted option set satisfies.\<close>

definition options_ok :: "sql_options \<Rightarrow> bool" where
  "options_ok opts \<longleftrightarrow> 1 \<le> sqo_max_outstanding opts \<and> sqo_max_outstanding opts \<le> 4096
     \<and> sqo_max_request_bytes opts \<le> 16777216 \<and> sqo_max_result_bytes opts \<le> 16777216
     \<and> sqo_max_rows opts \<le> 1000000 \<and> sqo_max_columns opts \<le> 1024
     \<and> sqo_max_result_bytes opts + sqo_max_request_bytes opts + 1024 \<le> sqo_memory_budget opts
     \<and> sqo_memory_budget opts \<le> 1073741824"

lemma decode_options_ok: "decode_options c = Inr opts \<Longrightarrow> options_ok opts"
  by (auto simp: decode_options_def outcome_simps options_ok_def Let_def split: option.splits)

section \<open>Copying a request\<close>

record sql_parameter =
  pa_type :: nat
  pa_size :: nat
  pa_integer :: int
  pa_real :: u64
  pa_data :: "string option"

record sql_c_statement =
  cs_sql :: "string option"
  cs_sql_size :: nat
  cs_parameter_count :: nat
  cs_parameters :: "sql_parameter list option"

text \<open>\<^verbatim>\<open>std::isfinite\<close>: the exponent field is not all ones.\<close>

definition isfinite :: "u64 \<Rightarrow> bool" where
  "isfinite r \<longleftrightarrow> take_bit 11 (unat (drop_bit 52 r)) \<noteq> 2047"

definition parameter_valid :: "sql_parameter \<Rightarrow> bool" where
  "parameter_valid p \<longleftrightarrow> \<not> (pa_type p > SE_SQL_BLOB
     \<or> (pa_type p = SE_SQL_DOUBLE \<and> \<not> isfinite (pa_real p))
     \<or> (pa_type p < SE_SQL_TEXT \<and> (pa_size p \<noteq> 0 \<or> pa_data p \<noteq> None))
     \<or> (pa_type p \<ge> SE_SQL_TEXT \<and> pa_size p \<noteq> 0 \<and> pa_data p = None))"

definition add_bytes :: "nat \<Rightarrow> nat \<Rightarrow> nat \<Rightarrow> nat outcome" where
  "add_bytes limit n bytes =
     (if add64 bytes n > limit
      then Inl (SE_INVALID_ARGUMENT, ''SQL request exceeds configured byte limit'')
      else Inr (add64 bytes n))"

definition copy_value :: "sql_parameter \<Rightarrow> sql_value" where
  "copy_value p = \<lparr>va_type = pa_type p, va_integer = pa_integer p, va_real = pa_real p,
     va_bytes = (case pa_data p of None \<Rightarrow> [] | Some d \<Rightarrow> take (pa_size p) d)\<rparr>"

fun copy_parameters :: "nat \<Rightarrow> sql_parameter list \<Rightarrow> nat \<Rightarrow> (nat \<times> sql_value list) outcome" where
  "copy_parameters limit [] bytes = Inr (bytes, [])"
| "copy_parameters limit (p # ps) bytes =
     and_then (require (parameter_valid p) SE_INVALID_ARGUMENT
       ''invalid SQL parameter type, pointer or numeric value'') (\<lambda>_.
     and_then (add_bytes limit (pa_size p) bytes) (\<lambda>b.
     and_then (copy_parameters limit ps b) (\<lambda>(b', vs). Inr (b', copy_value p # vs))))"

definition c_parameters :: "sql_c_statement \<Rightarrow> sql_parameter list" where
  "c_parameters c = (case cs_parameters c of None \<Rightarrow> [] | Some ps \<Rightarrow> take (cs_parameter_count c) ps)"

definition c_text :: "sql_c_statement \<Rightarrow> string" where
  "c_text c = (case cs_sql c of None \<Rightarrow> [] | Some t \<Rightarrow> take (cs_sql_size c) t)"

definition copy_statement ::
  "layout \<Rightarrow> nat \<Rightarrow> sql_c_statement \<Rightarrow> nat \<Rightarrow> (nat \<times> sql_statement) outcome" where
  "copy_statement lay limit c bytes =
     and_then (require (cs_sql c \<noteq> None \<and> cs_sql_size c \<noteq> 0 \<and> cs_sql_size c \<le> limit
         \<and> cs_parameter_count c \<le> 1024 \<and> \<not> (cs_parameter_count c \<noteq> 0 \<and> cs_parameters c = None))
       SE_INVALID_ARGUMENT ''invalid SQL statement or parameter array'') (\<lambda>_.
     and_then (add_bytes limit (cs_sql_size c + cs_parameter_count c * sz_value lay) bytes) (\<lambda>b.
     and_then (require (CHR 0x00 \<notin> set (c_text c)) SE_INVALID_ARGUMENT
       ''SQL text must not contain embedded NUL bytes'') (\<lambda>_.
     and_then (copy_parameters limit (c_parameters c) b) (\<lambda>(b', vs).
     Inr (b', \<lparr>st_sql = c_text c, st_parameters = vs\<rparr>)))))"

fun copy_statements ::
  "layout \<Rightarrow> nat \<Rightarrow> sql_c_statement list \<Rightarrow> nat \<Rightarrow> (nat \<times> sql_statement list) outcome" where
  "copy_statements lay limit [] bytes = Inr (bytes, [])"
| "copy_statements lay limit (c # cs) bytes =
     and_then (copy_statement lay limit c bytes) (\<lambda>(b, st).
     and_then (copy_statements lay limit cs b) (\<lambda>(b', sts). Inr (b', st # sts)))"

definition copy_request ::
  "layout \<Rightarrow> sql_c_statement list option \<Rightarrow> nat \<Rightarrow> sql_options \<Rightarrow> sql_request outcome" where
  "copy_request lay source count opts =
     (case source of
        None \<Rightarrow> Inl (SE_INVALID_ARGUMENT, ''SQL submit requires 1..64 statements'')
      | Some statements \<Rightarrow>
          and_then (require (1 \<le> count \<and> count \<le> 64) SE_INVALID_ARGUMENT
            ''SQL submit requires 1..64 statements'') (\<lambda>_.
          and_then (add_bytes (sqo_max_request_bytes opts) 0 (sz_request lay + count * sz_statement lay)) (\<lambda>b.
          and_then (copy_statements lay (sqo_max_request_bytes opts) (take count statements) b) (\<lambda>(bytes, sts).
          Inr \<lparr>rq_id = 0, rq_reserved_bytes = add64 (add64 bytes (sqo_max_result_bytes opts)) 1024,
               rq_statements = sts, rq_result = sql_result_new, rq_state = Rq_queued\<rparr>))))"

section \<open>What is copied and what it costs\<close>

definition statement_cost :: "layout \<Rightarrow> sql_c_statement \<Rightarrow> nat" where
  "statement_cost lay c = cs_sql_size c + cs_parameter_count c * sz_value lay
     + sum_list (map pa_size (c_parameters c))"

definition request_cost :: "layout \<Rightarrow> sql_c_statement list \<Rightarrow> nat \<Rightarrow> nat" where
  "request_cost lay cs count =
     sz_request lay + count * sz_statement lay + sum_list (map (statement_cost lay) cs)"

definition copied :: "sql_c_statement \<Rightarrow> sql_statement" where
  "copied c = \<lparr>st_sql = c_text c, st_parameters = map copy_value (c_parameters c)\<rparr>"

text \<open>Every number the accounting adds is a 32-bit size or a bounded multiple of an object size.\<close>

definition sizes_ok :: "layout \<Rightarrow> sql_c_statement list \<Rightarrow> bool" where
  "sizes_ok lay cs \<longleftrightarrow> layout_ok lay
     \<and> list_all (\<lambda>c. cs_sql_size c < W32 \<and> list_all (\<lambda>p. pa_size p < W32) (c_parameters c)) cs"

lemma add_bytes_eq:
  "bytes \<le> limit \<Longrightarrow> limit < W32 \<Longrightarrow> n < W32 * W32 - W32 \<Longrightarrow>
     add_bytes limit n bytes = Inr b \<longleftrightarrow> b = bytes + n \<and> b \<le> limit"
  by (auto simp: add_bytes_def)

lemma copy_parameters_spec:
  assumes "bytes \<le> limit" "limit < W32" "list_all (\<lambda>p. pa_size p < W32) ps"
  shows "copy_parameters limit ps bytes = Inr (b, vs) \<longleftrightarrow>
    list_all parameter_valid ps \<and> vs = map copy_value ps
    \<and> b = bytes + sum_list (map pa_size ps) \<and> b \<le> limit"
  using assms
proof (induction ps arbitrary: bytes b vs)
  case (Cons p ps)
  have add: "add_bytes limit (pa_size p) bytes = Inr b' \<longleftrightarrow> b' = bytes + pa_size p \<and> b' \<le> limit" for b'
    using Cons.prems by (intro add_bytes_eq) auto
  have tail: "copy_parameters limit ps (bytes + pa_size p) = Inr (b', ws) \<longleftrightarrow>
      list_all parameter_valid ps \<and> ws = map copy_value ps
      \<and> b' = bytes + pa_size p + sum_list (map pa_size ps) \<and> b' \<le> limit"
    if "bytes + pa_size p \<le> limit" for b' ws
    using Cons.IH [OF that] Cons.prems by simp
  show ?case
    by (auto simp: outcome_simps add tail)
qed auto

lemma copy_statement_spec:
  assumes "bytes \<le> limit" "limit < W32" "sizes_ok lay [c]"
  shows "copy_statement lay limit c bytes = Inr (b, st) \<Longrightarrow>
    st = copied c \<and> b = bytes + statement_cost lay c \<and> b \<le> limit"
proof -
  assume ok: "copy_statement lay limit c bytes = Inr (b, st)"
  have count: "cs_parameter_count c \<le> 1024"
    using ok by (auto simp: copy_statement_def outcome_simps)
  then have "cs_parameter_count c * sz_value lay \<le> 1024 * W32"
    using assms(3) by (intro mult_le_mono) (auto simp: sizes_ok_def layout_ok_def)
  then have "cs_sql_size c + cs_parameter_count c * sz_value lay < W32 * W32 - W32"
    using assms(3) by (simp add: sizes_ok_def)
  note add = add_bytes_eq [OF assms(1,2) this]
  have small: "list_all (\<lambda>p. pa_size p < W32) (c_parameters c)"
    using assms(3) by (simp add: sizes_ok_def)
  show ?thesis
    using ok copy_parameters_spec [OF _ assms(2) small]
    by (auto simp: copy_statement_def outcome_simps add copied_def statement_cost_def)
qed

lemma copy_statements_spec:
  assumes "bytes \<le> limit" "limit < W32" "sizes_ok lay cs"
  shows "copy_statements lay limit cs bytes = Inr (b, sts) \<Longrightarrow>
    sts = map copied cs \<and> b = bytes + sum_list (map (statement_cost lay) cs) \<and> b \<le> limit"
  using assms
proof (induction cs arbitrary: bytes b sts)
  case (Cons c cs)
  obtain b1 st where c: "copy_statement lay limit c bytes = Inr (b1, st)"
    using Cons.prems(1) by (auto simp: outcome_simps)
  obtain sts' where cs: "copy_statements lay limit cs b1 = Inr (b, sts')" "sts = st # sts'"
    using Cons.prems(1) c by (auto simp: outcome_simps)
  have "st = copied c \<and> b1 = bytes + statement_cost lay c \<and> b1 \<le> limit"
    using copy_statement_spec [OF Cons.prems(2,3) _ c] Cons.prems(4) by (simp add: sizes_ok_def)
  then show ?case
    using Cons.IH [OF cs(1)] cs(2) Cons.prems by (auto simp: sizes_ok_def)
qed auto

lemma copy_request_spec:
  assumes "options_ok opts" "sizes_ok lay (take count cs)"
    and "copy_request lay (Some cs) count opts = Inr rq"
  shows "rq_statements rq = map copied (take count cs)"
    and "rq_reserved_bytes rq = request_cost lay (take count cs) count + sqo_max_result_bytes opts + 1024"
    and "request_cost lay (take count cs) count \<le> sqo_max_request_bytes opts"
    and "rq_state rq = Rq_queued" and "rq_result rq = sql_result_new"
proof -
  let ?start = "sz_request lay + count * sz_statement lay"
  have count: "1 \<le> count" "count \<le> 64"
    using assms(3) by (auto simp: copy_request_def outcome_simps)
  have "count * sz_statement lay \<le> 64 * W32"
    using assms(2) count by (intro mult_le_mono) (auto simp: sizes_ok_def layout_ok_def)
  then have "add64 ?start 0 = ?start"
    using assms(2) by (simp add: sizes_ok_def layout_ok_def)
  then obtain b sts where cp: "?start \<le> sqo_max_request_bytes opts"
      "copy_statements lay (sqo_max_request_bytes opts) (take count cs) ?start = Inr (b, sts)"
      "rq = \<lparr>rq_id = 0, rq_reserved_bytes = add64 (add64 b (sqo_max_result_bytes opts)) 1024,
               rq_statements = sts, rq_result = sql_result_new, rq_state = Rq_queued\<rparr>"
    using assms(3) by (auto simp: copy_request_def outcome_simps add_bytes_def split: if_splits)
  have spec: "sts = map copied (take count cs)" "b = request_cost lay (take count cs) count"
      "b \<le> sqo_max_request_bytes opts"
    using copy_statements_spec [OF cp(1) _ assms(2) cp(2)] assms(1)
    by (auto simp: options_ok_def request_cost_def)
  then show "rq_statements rq = map copied (take count cs)"
    "rq_reserved_bytes rq = request_cost lay (take count cs) count + sqo_max_result_bytes opts + 1024"
    "request_cost lay (take count cs) count \<le> sqo_max_request_bytes opts"
    "rq_state rq = Rq_queued" "rq_result rq = sql_result_new"
    using cp(3) assms(1) by (auto simp: options_ok_def)
qed

end
