(* ===== verification/Sql_Service.thy ===== *)
theory Sql_Service
  imports Sql_Request Interfaces
begin

text \<open>
  \<^verbatim>\<open>data::sql::Service\<close> (src/src/Data/Sql/Service.cpp): one worker thread, a map of accepted requests
  and a byte budget. Every critical section under \<^verbatim>\<open>mutex_\<close> is one operation; the worker's loop is
  the three operations between its blocking points (take, execute outside the lock, publish). The
  driver is an argument of the execution: it maps a request to the result it leaves.
\<close>

section \<open>State\<close>

datatype worker_phase = W_waiting | W_taken u64 | W_executed u64 | W_done

record sql_service =
  sq_options :: sql_options
  sq_requests :: "(u64, sql_request) umap"
  sq_next_id :: u64
  sq_reserved_bytes :: nat
  sq_stopping :: bool
  sq_worker :: worker_phase

definition SqlService_new :: "sql_options \<Rightarrow> sql_service" where
  "SqlService_new opts = \<lparr>sq_options = opts, sq_requests = [], sq_next_id = 1, sq_reserved_bytes = 0,
     sq_stopping = False, sq_worker = W_waiting\<rparr>"

section \<open>Operations\<close>

definition find_state :: "request_state \<Rightarrow> sql_service \<Rightarrow> sql_request option" where
  "find_state st s = map_option snd (find (\<lambda>kr. rq_state (snd kr) = st) (sq_requests s))"

definition sql_submit ::
  "layout \<Rightarrow> sql_c_statement list option \<Rightarrow> nat \<Rightarrow> sql_service \<Rightarrow> sql_service \<times> u64 outcome" where
  "sql_submit lay statements count s =
     (if sq_stopping s then (s, Inl (SE_STOPPED, ''SQL service is stopped''))
      else if umap_size (sq_requests s) \<ge> sqo_max_outstanding (sq_options s)
      then (s, Inl (SE_BACKPRESSURE, ''SQL capacity full; poll and release outstanding results''))
      else
        (case copy_request lay statements count (sq_options s) of
           Inl e \<Rightarrow> (s, Inl e)
         | Inr rq \<Rightarrow>
             if rq_reserved_bytes rq > sub64 (sqo_memory_budget (sq_options s)) (sq_reserved_bytes s)
             then (s, Inl (SE_BACKPRESSURE, ''SQL memory reservations full; poll and release results''))
             else if sq_next_id s = - 1
             then (s, Inl (SE_INVALID_STATE, ''SQL request ID space exhausted''))
             else
               (s\<lparr>sq_next_id := sq_next_id s + 1,
                  sq_requests := fst (umap_emplace (sq_next_id s) (rq\<lparr>rq_id := sq_next_id s\<rparr>) (sq_requests s)),
                  sq_reserved_bytes := add64 (sq_reserved_bytes s) (rq_reserved_bytes rq)\<rparr>,
                Inr (sq_next_id s))))"

definition set_request :: "sql_request \<Rightarrow> sql_service \<Rightarrow> sql_service" where
  "set_request rq s = s\<lparr>sq_requests := umap_assign (rq_id rq) rq (sq_requests s)\<rparr>"

text \<open>The worker: take the first queued request, or finish when there is none and stop was asked for.\<close>

definition worker_take :: "sql_service \<Rightarrow> sql_service" where
  "worker_take s =
     (case find_state Rq_queued s of
        Some rq \<Rightarrow> (set_request (rq\<lparr>rq_state := Rq_running\<rparr>) s)\<lparr>sq_worker := W_taken (rq_id rq)\<rparr>
      | None \<Rightarrow> if sq_stopping s then s\<lparr>sq_worker := W_done\<rparr> else s)"

definition worker_execute :: "(sql_request \<Rightarrow> sql_result) \<Rightarrow> u64 \<Rightarrow> sql_service \<Rightarrow> sql_service" where
  "worker_execute driver i s =
     (case umap_find (sq_requests s) i of
        None \<Rightarrow> s
      | Some rq \<Rightarrow>
          (set_request (rq\<lparr>rq_result := (if sq_stopping s
             then result_fail SE_SQL_CANCELLED ''SQL request cancelled before execution'' (rq_result rq)
             else driver rq)\<rparr>) s)\<lparr>sq_worker := W_executed i\<rparr>)"

definition worker_publish :: "u64 \<Rightarrow> sql_service \<Rightarrow> sql_service" where
  "worker_publish i s =
     (case umap_find (sq_requests s) i of
        None \<Rightarrow> s
      | Some rq \<Rightarrow> (set_request (rq\<lparr>rq_state := Rq_complete\<rparr>) s)\<lparr>sq_worker := W_waiting\<rparr>)"

definition worker_step :: "(sql_request \<Rightarrow> sql_result) \<Rightarrow> sql_service \<Rightarrow> sql_service" where
  "worker_step driver s =
     (case sq_worker s of
        W_waiting \<Rightarrow> worker_take s
      | W_taken i \<Rightarrow> worker_execute driver i s
      | W_executed i \<Rightarrow> worker_publish i s
      | W_done \<Rightarrow> s)"

record sql_output =
  ou_request_id :: u64
  ou_status :: se_status
  ou_row_count :: u32
  ou_column_count :: u32
  ou_affected_rows :: nat
  ou_last_insert_id :: int
  ou_message :: string

definition result_output :: "sql_request \<Rightarrow> sql_output" where
  "result_output rq = \<lparr>ou_request_id = rq_id rq, ou_status = rs_status (rq_result rq),
     ou_row_count = of_nat (length (rs_rows (rq_result rq))),
     ou_column_count = of_nat (length (rs_columns (rq_result rq))),
     ou_affected_rows = rs_affected_rows (rq_result rq),
     ou_last_insert_id = rs_last_insert_id (rq_result rq), ou_message = rs_message (rq_result rq)\<rparr>"

text \<open>The wait of \<^verbatim>\<open>poll\<close> ends in this state: by the predicate, or by the timeout.\<close>

definition sql_poll :: "sql_service \<Rightarrow> sql_service \<times> se_status \<times> sql_output option" where
  "sql_poll s =
     (case find_state Rq_complete s of
        Some rq \<Rightarrow> (set_request (rq\<lparr>rq_state := Rq_delivered\<rparr>) s, SE_OK, Some (result_output rq))
      | None \<Rightarrow> (s, if sq_worker s = W_done then SE_STOPPED else SE_TIMEOUT, None))"

definition sql_release :: "u64 \<Rightarrow> sql_service \<Rightarrow> sql_service \<times> unit outcome" where
  "sql_release i s =
     (case umap_find (sq_requests s) i of
        None \<Rightarrow> (s, Inl (SE_INVALID_HANDLE, ''SQL result not delivered, released or unknown''))
      | Some rq \<Rightarrow>
          if rq_state rq \<noteq> Rq_delivered
          then (s, Inl (SE_INVALID_HANDLE, ''SQL result not delivered, released or unknown''))
          else (s\<lparr>sq_reserved_bytes := sub64 (sq_reserved_bytes s) (rq_reserved_bytes rq),
                  sq_requests := umap_erase i (sq_requests s)\<rparr>, Inr ()))"

definition read_result :: "u64 \<Rightarrow> (sql_result \<Rightarrow> 'a outcome) \<Rightarrow> sql_service \<Rightarrow> 'a outcome" where
  "read_result i reader s =
     (case umap_find (sq_requests s) i of
        None \<Rightarrow> Inl (SE_INVALID_HANDLE, ''SQL result not delivered, released or unknown'')
      | Some rq \<Rightarrow>
          if rq_state rq \<noteq> Rq_delivered
          then Inl (SE_INVALID_HANDLE, ''SQL result not delivered, released or unknown'')
          else reader (rq_result rq))"

definition sql_stop :: "sql_service \<Rightarrow> sql_service" where
  "sql_stop s = s\<lparr>sq_stopping := True\<rparr>"

section \<open>Invariant\<close>

definition worker_ids :: "worker_phase \<Rightarrow> u64 set" where
  "worker_ids ph = (case ph of W_taken i \<Rightarrow> {i} | W_executed i \<Rightarrow> {i} | _ \<Rightarrow> {})"

definition request_ok :: "sql_service \<Rightarrow> u64 \<Rightarrow> sql_request \<Rightarrow> bool" where
  "request_ok s i rq \<longleftrightarrow> rq_id rq = i \<and> i < sq_next_id s
     \<and> (rq_state rq = Rq_running \<longleftrightarrow> i \<in> worker_ids (sq_worker s))
     \<and> (sq_worker s = W_done \<longrightarrow> rq_state rq \<noteq> Rq_queued)"

definition sql_inv :: "sql_service \<Rightarrow> bool" where
  "sql_inv s \<longleftrightarrow> options_ok (sq_options s) \<and> umap_wf (sq_requests s)
     \<and> sq_reserved_bytes s = umap_total rq_reserved_bytes (sq_requests s)
     \<and> sq_reserved_bytes s \<le> sqo_memory_budget (sq_options s)
     \<and> umap_size (sq_requests s) \<le> sqo_max_outstanding (sq_options s)
     \<and> (\<forall>i rq. umap_find (sq_requests s) i = Some rq \<longrightarrow> request_ok s i rq)
     \<and> (\<forall>i \<in> worker_ids (sq_worker s). umap_find (sq_requests s) i \<noteq> None)
     \<and> (sq_worker s = W_done \<longrightarrow> sq_stopping s)"

lemma find_state_Some:
  assumes "sql_inv s" "find_state st s = Some rq"
  shows "umap_find (sq_requests s) (rq_id rq) = Some rq" "rq_state rq = st"
proof -
  obtain i where i: "find (\<lambda>kr. rq_state (snd kr) = st) (sq_requests s) = Some (i, rq)"
    using assms(2) by (auto simp: find_state_def)
  then have st: "rq_state rq = st" and "(i, rq) \<in> set (sq_requests s)"
    by (auto dest: find_SomeD)
  then have f: "umap_find (sq_requests s) i = Some rq"
    using assms(1) by (simp add: sql_inv_def umap_find_iff)
  then have "rq_id rq = i"
    using assms(1) by (auto simp: sql_inv_def request_ok_def)
  with f st show "umap_find (sq_requests s) (rq_id rq) = Some rq" "rq_state rq = st"
    by simp_all
qed

lemma find_state_None:
  assumes "sql_inv s" "find_state st s = None" "umap_find (sq_requests s) i = Some rq"
  shows "rq_state rq \<noteq> st"
  using assms by (auto simp: find_state_def find_None_iff sql_inv_def umap_find_iff)

text \<open>Rewriting one request to the same size keeps everything the accounting sees.\<close>

lemma set_request_inv:
  assumes inv: "sql_inv s" and f: "umap_find (sq_requests s) (rq_id rq) = Some old"
    and size: "rq_reserved_bytes rq = rq_reserved_bytes old"
    and ph: "rq_state rq = Rq_running \<longleftrightarrow> rq_id rq \<in> worker_ids ph"
      "\<And>i rq'. umap_find (sq_requests s) i = Some rq' \<Longrightarrow> i \<noteq> rq_id rq \<Longrightarrow>
         i \<in> worker_ids ph \<longleftrightarrow> i \<in> worker_ids (sq_worker s)"
      "worker_ids ph \<subseteq> insert (rq_id rq) (worker_ids (sq_worker s))"
      "ph = W_done \<longleftrightarrow> sq_worker s = W_done"
      "rq_state rq = Rq_queued \<longrightarrow> sq_worker s \<noteq> W_done"
  shows "sql_inv ((set_request rq s)\<lparr>sq_worker := ph\<rparr>)"
proof -
  have wf: "umap_wf (sq_requests s)" using inv by (simp add: sql_inv_def)
  have t: "umap_total rq_reserved_bytes (umap_assign (rq_id rq) rq (sq_requests s)) =
      umap_total rq_reserved_bytes (sq_requests s)"
    using umap.total_assign_same [OF wf f] size by simp
  have "request_ok s (rq_id rq) old" using inv f by (simp add: sql_inv_def)
  then show ?thesis
    using inv ph t wf umap.size_assign_old [OF wf f] f
    by (auto simp: sql_inv_def set_request_def umap.wf_assign request_ok_def split: if_splits)
qed

lemma sql_inv_new: "options_ok opts \<Longrightarrow> sql_inv (SqlService_new opts)"
  by (simp add: sql_inv_def SqlService_new_def worker_ids_def options_ok_def)

lemma sql_inv_stop: "sql_inv s \<Longrightarrow> sql_inv (sql_stop s)"
  by (simp add: sql_inv_def sql_stop_def request_ok_def)

lemma worker_take_inv: "sql_inv s \<Longrightarrow> sq_worker s = W_waiting \<Longrightarrow> sql_inv (worker_take s)"
proof (cases "find_state Rq_queued s")
  case None
  assume "sql_inv s" "sq_worker s = W_waiting"
  then show ?thesis
    using None find_state_None [OF \<open>sql_inv s\<close> None]
    by (auto simp: worker_take_def sql_inv_def request_ok_def worker_ids_def)
next
  case (Some rq)
  assume "sql_inv s" "sq_worker s = W_waiting"
  then show ?thesis
    using find_state_Some [OF \<open>sql_inv s\<close> Some]
    by (auto simp: worker_take_def Some worker_ids_def intro!: set_request_inv)
qed

lemma worker_execute_inv: "sql_inv s \<Longrightarrow> sq_worker s = W_taken i \<Longrightarrow> sql_inv (worker_execute d i s)"
  by (auto simp: worker_execute_def worker_ids_def sql_inv_def [of s] request_ok_def split: option.splits
      intro!: set_request_inv)

lemma worker_publish_inv: "sql_inv s \<Longrightarrow> sq_worker s = W_executed i \<Longrightarrow> sql_inv (worker_publish i s)"
  by (auto simp: worker_publish_def worker_ids_def sql_inv_def [of s] request_ok_def split: option.splits
      intro!: set_request_inv)

lemma worker_step_inv: "sql_inv s \<Longrightarrow> sql_inv (worker_step d s)"
  by (auto simp: worker_step_def worker_take_inv worker_execute_inv worker_publish_inv
      split: worker_phase.splits)

lemma copy_request_queued:
  "copy_request lay src n opts = Inr rq \<Longrightarrow> rq_state rq = Rq_queued \<and> rq_result rq = sql_result_new"
  by (auto simp: copy_request_def outcome_simps split: option.splits)

lemma next_id_absent:
  assumes "sql_inv s"
  shows "umap_find (sq_requests s) (sq_next_id s) = None" "sq_next_id s \<notin> worker_ids (sq_worker s)"
proof -
  show *: "umap_find (sq_requests s) (sq_next_id s) = None"
    using assms by (cases "umap_find (sq_requests s) (sq_next_id s)") (auto simp: sql_inv_def request_ok_def)
  then show "sq_next_id s \<notin> worker_ids (sq_worker s)"
    using assms by (auto simp: sql_inv_def)
qed

text \<open>An accepted request, in one place: what it needed and what it leaves.\<close>

lemma sql_submit_accepted:
  assumes "sql_inv s" "sql_submit lay src n s = (t, Inr i)"
  obtains rq where "copy_request lay src n (sq_options s) = Inr rq" "i = sq_next_id s" "i \<noteq> - 1"
    "\<not> sq_stopping s" "umap_size (sq_requests s) < sqo_max_outstanding (sq_options s)"
    "sq_reserved_bytes s + rq_reserved_bytes rq \<le> sqo_memory_budget (sq_options s)"
    "t = s\<lparr>sq_next_id := i + 1, sq_requests := umap_assign i (rq\<lparr>rq_id := i\<rparr>) (sq_requests s),
           sq_reserved_bytes := sq_reserved_bytes s + rq_reserved_bytes rq\<rparr>"
proof -
  have b: "sq_reserved_bytes s \<le> sqo_memory_budget (sq_options s)"
      "sqo_memory_budget (sq_options s) < W64"
    using assms(1) by (auto simp: sql_inv_def options_ok_def)
  show thesis
    using assms(2) b next_id_absent(1) [OF assms(1)]
    by (auto simp: sql_submit_def umap_emplace_def split: if_splits sum.splits intro!: that)
qed

lemma sql_submit_inv: "sql_inv s \<Longrightarrow> sql_submit lay src n s = (t, Inr i) \<Longrightarrow> sql_inv t"
proof -
  assume inv: "sql_inv s" and sub: "sql_submit lay src n s = (t, Inr i)"
  from sql_submit_accepted [OF inv sub] obtain rq where
    rq: "copy_request lay src n (sq_options s) = Inr rq" "i = sq_next_id s" "i \<noteq> - 1" "\<not> sq_stopping s"
      "umap_size (sq_requests s) < sqo_max_outstanding (sq_options s)"
      "sq_reserved_bytes s + rq_reserved_bytes rq \<le> sqo_memory_budget (sq_options s)"
    and t: "t = s\<lparr>sq_next_id := i + 1, sq_requests := umap_assign i (rq\<lparr>rq_id := i\<rparr>) (sq_requests s),
           sq_reserved_bytes := sq_reserved_bytes s + rq_reserved_bytes rq\<rparr>" .
  have up: "j < sq_next_id s \<Longrightarrow> j < sq_next_id s + 1" for j
    using word_less_inc [of "sq_next_id s"] rq(2,3) by auto
  show ?thesis
    using inv rq copy_request_queued [OF rq(1)] next_id_absent [OF inv] word_less_inc [of i]
    by (auto simp: t sql_inv_def request_ok_def umap.wf_assign umap.size_assign_new umap.total_assign_new up)
qed

lemma sql_submit_refused: "sql_submit lay src n s = (t, Inl e) \<Longrightarrow> t = s"
  by (auto simp: sql_submit_def split: if_splits sum.splits)

lemma sql_poll_inv: "sql_inv s \<Longrightarrow> sql_inv (fst (sql_poll s))"
proof (cases "find_state Rq_complete s")
  case (Some rq)
  assume inv: "sql_inv s"
  note f = find_state_Some [OF inv Some]
  have "request_ok s (rq_id rq) rq" using inv f(1) by (simp add: sql_inv_def)
  then have "sql_inv ((set_request (rq\<lparr>rq_state := Rq_delivered\<rparr>) s)\<lparr>sq_worker := sq_worker s\<rparr>)"
    using inv f by (intro set_request_inv) (auto simp: request_ok_def)
  then show ?thesis by (simp add: sql_poll_def Some set_request_def)
qed (simp add: sql_poll_def)

lemma sql_release_inv: "sql_inv s \<Longrightarrow> sql_inv (fst (sql_release i s))"
proof -
  assume inv: "sql_inv s"
  have "sql_inv (s\<lparr>sq_reserved_bytes := sub64 (sq_reserved_bytes s) (rq_reserved_bytes rq),
                  sq_requests := umap_erase i (sq_requests s)\<rparr>)"
    if f: "umap_find (sq_requests s) i = Some rq" and d: "rq_state rq = Rq_delivered" for rq
  proof -
    have wf: "umap_wf (sq_requests s)" using inv by (simp add: sql_inv_def)
    have "i \<notin> worker_ids (sq_worker s)" using inv f d by (fastforce simp: sql_inv_def request_ok_def)
    then show ?thesis
      using inv umap.total_ge [OF wf f, of rq_reserved_bytes] umap.total_erase_sub [OF wf f, of rq_reserved_bytes]
        umap.size_erase_le [OF wf, of i]
      by (auto simp: sql_inv_def request_ok_def umap.wf_erase options_ok_def split: if_splits)
  qed
  then show ?thesis
    using inv by (auto simp: sql_release_def split: option.splits)
qed

section \<open>Nothing is lost\<close>

definition sql_outstanding :: "sql_service \<Rightarrow> u64 set" where
  "sql_outstanding s =
     {i. \<exists>rq. umap_find (sq_requests s) i = Some rq \<and> rq_state rq \<noteq> Rq_delivered}"

text \<open>Everything that can happen to a service, with what the application sees of it.\<close>

inductive sql_act :: "sql_service \<Rightarrow> flow \<Rightarrow> sql_service \<Rightarrow> bool" where
  accept: "sql_submit lay src n s = (t, Inr i) \<Longrightarrow> sql_act s (Accepted i) t"
| refuse: "sql_submit lay src n s = (t, Inl e) \<Longrightarrow> sql_act s Silent t"
| deliver: "sql_poll s = (t, SE_OK, Some out) \<Longrightarrow> sql_act s (Delivers (ou_request_id out)) t"
| nothing: "sql_poll s = (t, st, None) \<Longrightarrow> sql_act s Silent t"
| release: "sql_act s Silent (fst (sql_release i s))"
| work: "sql_act s Silent (worker_step driver s)"
| stop: "sql_act s Silent (sql_stop s)"

inductive_cases sql_act_acceptE: "sql_act s (Accepted i) t"
inductive_cases sql_act_deliverE: "sql_act s (Delivers i) t"
inductive_cases sql_act_silentE: "sql_act s Silent t"

lemma sql_act_inv: "sql_act s e t \<Longrightarrow> sql_inv s \<Longrightarrow> sql_inv t"
  by (induction rule: sql_act.induct)
    (auto dest: sql_submit_refused sql_submit_inv sql_poll_inv
      intro: sql_release_inv worker_step_inv sql_inv_stop)

lemma set_request_outstanding:
  assumes "umap_find (sq_requests s) (rq_id rq) = Some old" "rq_state rq \<noteq> Rq_delivered" "rq_state old \<noteq> Rq_delivered"
  shows "sql_outstanding (set_request rq s) = sql_outstanding s"
  using assms by (auto simp: sql_outstanding_def set_request_def)

lemma outstanding_worker [simp]: "sql_outstanding (s\<lparr>sq_worker := ph\<rparr>) = sql_outstanding s"
  by (simp add: sql_outstanding_def)

lemma worker_step_outstanding:
  assumes inv: "sql_inv s"
  shows "sql_outstanding (worker_step d s) = sql_outstanding s"
proof -
  have keep: "sql_outstanding (set_request (f rq) s) = sql_outstanding s"
    if "umap_find (sq_requests s) i = Some rq" "rq_state rq \<noteq> Rq_delivered" "rq_state (f rq) \<noteq> Rq_delivered"
      "rq_id (f rq) = rq_id rq" for i rq f
    using set_request_outstanding [of s "f rq" rq] that inv by (auto simp: sql_inv_def request_ok_def)
  have running: "rq_state rq \<noteq> Rq_delivered"
    if "umap_find (sq_requests s) i = Some rq" "i \<in> worker_ids (sq_worker s)" for i rq
  proof -
    have "rq_state rq = Rq_running" using inv that by (auto simp: sql_inv_def request_ok_def)
    then show ?thesis by simp
  qed
  show ?thesis
  proof (cases "sq_worker s")
    case W_waiting
    show ?thesis
    proof (cases "find_state Rq_queued s")
      case (Some rq)
      note f = find_state_Some [OF inv Some]
      show ?thesis
        using keep [OF f(1), of "\<lambda>r. r\<lparr>rq_state := Rq_running\<rparr>"] f(2)
        by (simp add: worker_step_def worker_take_def W_waiting Some)
    qed (simp add: worker_step_def worker_take_def W_waiting)
  next
    case (W_taken i)
    show ?thesis
    proof (cases "umap_find (sq_requests s) i")
      case (Some rq)
      then show ?thesis
        using keep [OF Some] running [OF Some]
        by (simp add: worker_step_def worker_execute_def W_taken worker_ids_def)
    qed (simp add: worker_step_def worker_execute_def W_taken)
  next
    case (W_executed i)
    show ?thesis
    proof (cases "umap_find (sq_requests s) i")
      case (Some rq)
      then show ?thesis
        using keep [OF Some] running [OF Some]
        by (simp add: worker_step_def worker_publish_def W_executed worker_ids_def)
    qed (simp add: worker_step_def worker_publish_def W_executed)
  qed (simp add: worker_step_def)
qed

lemma worker_step_next [simp]: "sq_next_id (worker_step d s) = sq_next_id s"
  by (auto simp: worker_step_def worker_take_def worker_execute_def worker_publish_def set_request_def
      split: worker_phase.splits option.splits)

interpretation sql_source: completion_source sql_act sql_outstanding "\<lambda>s. unat (sq_next_id s)" sql_inv
proof (unfold_locales, goal_cases)
  case (1 s e t)
  then show ?case by (rule sql_act_inv [rotated])
next
  case (2 s i t)
  from 2(2) obtain lay src n where "sql_submit lay src n s = (t, Inr i)"
    by (rule sql_act_acceptE) auto
  then obtain rq where rq: "copy_request lay src n (sq_options s) = Inr rq"
      "i = sq_next_id s" "i \<noteq> - 1"
      "sq_next_id t = i + 1" "sq_requests t = umap_assign i (rq\<lparr>rq_id := i\<rparr>) (sq_requests s)"
    by (elim sql_submit_accepted [OF 2(1)]) simp
  have "unat i < unat (i + 1)"
    using word_less_inc [OF rq(3)] by (simp add: word_less_nat_alt)
  then show ?case
    using rq copy_request_queued [OF rq(1)] by (auto simp: sql_outstanding_def split: if_splits)
next
  case (3 s i t)
  from 3(2) obtain out where out: "sql_poll s = (t, SE_OK, Some out)" "i = ou_request_id out"
    by (rule sql_act_deliverE) auto
  then obtain rq where rq: "find_state Rq_complete s = Some rq" "t = set_request (rq\<lparr>rq_state := Rq_delivered\<rparr>) s"
      "i = rq_id rq"
    by (auto simp: sql_poll_def result_output_def split: option.splits)
  then show ?case
    using find_state_Some [OF 3(1) rq(1)] by (auto simp: sql_outstanding_def set_request_def split: if_splits)
next
  case (4 s t)
  from 4(2) show ?case
  proof (rule sql_act_silentE, goal_cases)
    case (3 i)
    then show ?case
      by (auto simp: sql_release_def sql_outstanding_def split: option.splits)
  next
    case (4 driver)
    then show ?case
      using worker_step_outstanding \<open>sql_inv s\<close> by simp
  qed (use 4(1) in \<open>auto simp: sql_stop_def sql_outstanding_def sql_poll_def
        dest: sql_submit_refused split: option.splits\<close>)
qed

end
