(* ===== verification/Sql_Properties.thy ===== *)
theory Sql_Properties
  imports Sql_Service
begin

text \<open>
  What an application can rely on when it uses the SQL service: no accepted outcome is lost or
  delivered twice, the memory budget holds at every moment, and stop ends the worker in a bounded
  number of steps after which polling returns every outcome that is left.
\<close>

section \<open>The worker ends\<close>

definition queued_count :: "sql_service \<Rightarrow> nat" where
  "queued_count s = umap_total (\<lambda>r. if rq_state r = Rq_queued then 1 else 0) (sq_requests s)"

definition steps_left :: "sql_service \<Rightarrow> nat" where
  "steps_left s = 3 * queued_count s +
     (case sq_worker s of W_waiting \<Rightarrow> 1 | W_taken _ \<Rightarrow> 3 | W_executed _ \<Rightarrow> 2 | W_done \<Rightarrow> 0)"

lemma set_request_queued:
  assumes "sql_inv s" "umap_find (sq_requests s) (rq_id rq) = Some old"
  shows "queued_count (set_request rq s) + (if rq_state old = Rq_queued then 1 else 0) =
    queued_count s + (if rq_state rq = Rq_queued then 1 else 0)"
  using umap.total_assign_old [OF _ assms(2), of "\<lambda>r. if rq_state r = Rq_queued then 1 else 0" rq] assms(1)
  by (simp add: queued_count_def set_request_def sql_inv_def)

lemma queued_count_worker [simp]: "queued_count (s\<lparr>sq_worker := ph\<rparr>) = queued_count s"
  by (simp add: queued_count_def)

lemma worker_request:
  assumes "sql_inv s" "i \<in> worker_ids (sq_worker s)"
  obtains rq where "umap_find (sq_requests s) i = Some rq" "rq_id rq = i" "rq_state rq = Rq_running"
  using assms by (auto simp: sql_inv_def request_ok_def)

lemma worker_step_progress:
  assumes inv: "sql_inv s" and stop: "sq_stopping s" and live: "sq_worker s \<noteq> W_done"
  shows "Suc (steps_left (worker_step d s)) = steps_left s"
proof (cases "sq_worker s")
  case W_waiting
  show ?thesis
  proof (cases "find_state Rq_queued s")
    case None
    then show ?thesis
      by (simp add: worker_step_def worker_take_def W_waiting stop steps_left_def)
  next
    case (Some rq)
    then show ?thesis
      using set_request_queued [OF inv, of "rq\<lparr>rq_state := Rq_running\<rparr>" rq] find_state_Some [OF inv Some]
      by (simp add: worker_step_def worker_take_def W_waiting steps_left_def)
  qed
next
  case (W_taken i)
  then obtain rq where rq: "umap_find (sq_requests s) i = Some rq" "rq_id rq = i" "rq_state rq = Rq_running"
    using worker_request [OF inv, of i] by (auto simp: worker_ids_def)
  then show ?thesis
    using set_request_queued [OF inv, of "rq\<lparr>rq_result := r\<rparr>" rq for r]
    by (simp add: worker_step_def worker_execute_def W_taken steps_left_def)
next
  case (W_executed i)
  then obtain rq where rq: "umap_find (sq_requests s) i = Some rq" "rq_id rq = i" "rq_state rq = Rq_running"
    using worker_request [OF inv, of i] by (auto simp: worker_ids_def)
  then show ?thesis
    using set_request_queued [OF inv, of "rq\<lparr>rq_state := Rq_complete\<rparr>" rq]
    by (simp add: worker_step_def worker_publish_def W_executed steps_left_def)
qed (use live in simp)

lemma worker_step_stopping [simp]:
  "sq_stopping (worker_step d s) = sq_stopping s" "sq_options (worker_step d s) = sq_options s"
  by (auto simp: worker_step_def worker_take_def worker_execute_def worker_publish_def set_request_def
      split: worker_phase.splits option.splits)

lemma worker_run_inv:
  "sql_inv s \<Longrightarrow> sql_inv ((worker_step d ^^ n) s) \<and> sql_outstanding ((worker_step d ^^ n) s) = sql_outstanding s
     \<and> sq_options ((worker_step d ^^ n) s) = sq_options s"
  by (induction n) (auto simp: worker_step_inv worker_step_outstanding)

lemma worker_run_done:
  "sql_inv s \<Longrightarrow> sq_stopping s \<Longrightarrow> steps_left s \<le> n \<Longrightarrow> sq_worker ((worker_step d ^^ n) s) = W_done"
proof (induction n arbitrary: s)
  case 0
  then show ?case by (auto simp: steps_left_def split: worker_phase.splits)
next
  case (Suc n)
  show ?case
  proof (cases "sq_worker s = W_done")
    case True
    have "(worker_step d ^^ k) s = s" for k
      by (induction k) (simp_all add: worker_step_def True)
    then show ?thesis using True by (simp del: funpow.simps)
  next
    case False
    then have "steps_left (worker_step d s) \<le> n"
      using worker_step_progress [OF Suc.prems(1,2), of d] Suc.prems(3) by simp
    then show ?thesis
      using Suc.IH [of "worker_step d s"] Suc.prems worker_step_inv
      by (simp add: funpow_swap1 del: funpow.simps) (simp add: funpow_swap1)
  qed
qed

lemma steps_left_le: "sql_inv s \<Longrightarrow> steps_left s \<le> 3 * sqo_max_outstanding (sq_options s) + 3"
proof -
  assume inv: "sql_inv s"
  have "umap_total (\<lambda>r. if rq_state r = Rq_queued then 1 else 0) m \<le> umap_size m"
    for m :: "(u64, sql_request) umap"
    by (induction m) (auto simp: umap_total_def umap_size_def)
  from this [of "sq_requests s"] have "queued_count s \<le> sqo_max_outstanding (sq_options s)"
    using inv by (simp add: queued_count_def sql_inv_def)
  then show ?thesis
    by (simp add: steps_left_def split: worker_phase.splits)
qed

section \<open>Polling what is left\<close>

fun sql_drain :: "nat \<Rightarrow> sql_service \<Rightarrow> u64 list \<times> sql_service" where
  "sql_drain 0 s = ([], s)"
| "sql_drain (Suc n) s =
     (case sql_poll s of
        (t, st, Some out) \<Rightarrow> (let (ids, u) = sql_drain n t in (ou_request_id out # ids, u))
      | (t, st, None) \<Rightarrow> ([], t))"

definition complete_ids :: "sql_service \<Rightarrow> u64 list" where
  "complete_ids s = map fst (filter (\<lambda>kr. rq_state (snd kr) = Rq_complete) (sq_requests s))"

lemma poll_complete:
  assumes inv: "sql_inv s" and f: "find_state Rq_complete s = Some rq"
  shows "complete_ids s = rq_id rq # complete_ids (set_request (rq\<lparr>rq_state := Rq_delivered\<rparr>) s)"
proof -
  let ?Q = "\<lambda>kr. rq_state (snd kr) = Rq_complete" and ?m = "sq_requests s"
  let ?upd = "\<lambda>kv. if fst kv = rq_id rq then (rq_id rq, rq\<lparr>rq_state := Rq_delivered\<rparr>) else kv"
  have wf: "umap_wf ?m" using inv by (simp add: sql_inv_def)
  note at = find_state_Some [OF inv f]
  obtain rest where rest: "filter ?Q ?m = (rq_id rq, rq) # rest"
  proof -
    obtain i rest where r: "filter ?Q ?m = (i, rq) # rest"
      using f by (auto simp: find_state_def find_filter split: list.splits)
    then have "(i, rq) \<in> set ?m"
      by (metis filter_is_subset list.set_intros(1) subsetD)
    then have "rq_id rq = i"
      using inv umap_in_set_find [OF wf] by (auto simp: sql_inv_def request_ok_def)
    with r show thesis by (auto intro: that)
  qed
  have "filter ?Q (map ?upd m) = filter (\<lambda>kv. fst kv \<noteq> rq_id rq) (filter ?Q m)" for m
    by (induction m) auto
  then have "filter ?Q (map ?upd ?m) = filter (\<lambda>kv. fst kv \<noteq> rq_id rq) (filter ?Q ?m)" .
  also have "\<dots> = filter (\<lambda>kv. fst kv \<noteq> rq_id rq) rest"
    by (simp add: rest)
  also have "\<dots> = rest"
  proof -
    have "distinct (map fst (filter ?Q ?m))"
      using umap_wf_distinct [OF wf] by (rule distinct_map_filter)
    then have "rq_id rq \<notin> fst ` set rest" by (simp add: rest)
    then show ?thesis by (force simp: filter_id_conv)
  qed
  finally show ?thesis
    using umap_assign_replace [OF wf at(1)] rest by (simp add: complete_ids_def set_request_def)
qed

lemma complete_ids_nil: "complete_ids s = [] \<longleftrightarrow> find_state Rq_complete s = None"
  by (auto simp: complete_ids_def find_state_def find_filter split: list.splits)

lemma sql_drain_spec:
  "sql_inv s \<Longrightarrow> length (complete_ids s) \<le> n \<Longrightarrow>
     fst (sql_drain n s) = complete_ids s \<and> find_state Rq_complete (snd (sql_drain n s)) = None
     \<and> sq_worker (snd (sql_drain n s)) = sq_worker s"
proof (induction n arbitrary: s)
  case (Suc n)
  show ?case
  proof (cases "find_state Rq_complete s")
    case None
    then show ?thesis using complete_ids_nil [of s] by (simp add: sql_poll_def)
  next
    case (Some rq)
    let ?t = "set_request (rq\<lparr>rq_state := Rq_delivered\<rparr>) s"
    have "sql_inv ?t"
      using sql_poll_inv [OF Suc.prems(1)] by (simp add: sql_poll_def Some)
    then show ?thesis
      using Suc.IH [of ?t] Suc.prems(2) poll_complete [OF Suc.prems(1) Some]
      by (auto simp: sql_poll_def Some result_output_def case_prod_beta Let_def set_request_def)
  qed
qed (simp add: complete_ids_nil [symmetric])

lemma complete_ids_done:
  assumes inv: "sql_inv s" and fin: "sq_worker s = W_done"
  shows "set (complete_ids s) = sql_outstanding s" "sorted_wrt (<) (complete_ids s)"
    "length (complete_ids s) \<le> sqo_max_outstanding (sq_options s)"
proof -
  have wf: "umap_wf (sq_requests s)" using inv by (simp add: sql_inv_def)
  have "rq_state rq = Rq_complete \<longleftrightarrow> rq_state rq \<noteq> Rq_delivered" if "(i, rq) \<in> set (sq_requests s)" for i rq
    using umap_in_set_find [OF wf that] inv fin
    by (cases "rq_state rq") (auto simp: sql_inv_def request_ok_def worker_ids_def)
  then have state: "rq_state (snd kr) = Rq_complete \<longleftrightarrow> rq_state (snd kr) \<noteq> Rq_delivered"
    if "kr \<in> set (sq_requests s)" for kr
    using that by (cases kr) simp
  have "sql_outstanding s = fst ` {kr \<in> set (sq_requests s). rq_state (snd kr) \<noteq> Rq_delivered}"
    by (force simp: sql_outstanding_def umap_find_iff [OF wf])
  also have "{kr \<in> set (sq_requests s). rq_state (snd kr) \<noteq> Rq_delivered} =
      {kr \<in> set (sq_requests s). rq_state (snd kr) = Rq_complete}"
    using state by blast
  finally show "set (complete_ids s) = sql_outstanding s"
    by (simp add: complete_ids_def)
  show "sorted_wrt (<) (complete_ids s)"
    using umap_wf_sorted [OF wf] by (simp add: complete_ids_def sorted_wrt_map sorted_wrt_filter)
  have "length (complete_ids s) \<le> umap_size (sq_requests s)"
    by (simp add: complete_ids_def umap_size_def)
  also have "\<dots> \<le> sqo_max_outstanding (sq_options s)"
    using inv by (simp add: sql_inv_def)
  finally show "length (complete_ids s) \<le> sqo_max_outstanding (sq_options s)" .
qed

section \<open>Properties\<close>

lemma sql_act_options: "sql_act s e t \<Longrightarrow> sq_options t = sq_options s"
  by (induction rule: sql_act.induct)
    (auto simp: sql_submit_def sql_poll_def sql_release_def sql_stop_def set_request_def
      split: if_splits sum.splits option.splits)

lemma sql_run_facts:
  assumes "flow_run sql_act (SqlService_new opts) tr s" "options_ok opts"
  shows "sql_inv s" "sq_options s = opts"
proof -
  show "sql_inv s"
    using sql_source.flows_inv [OF assms(1)] sql_inv_new [OF assms(2)] .
  show "sq_options s = opts"
    using assms(1)
    by (induction "SqlService_new opts" tr s rule: flow_run.induct)
      (auto simp: SqlService_new_def sql_act_options)
qed

text \<open>
  C13. No outcome is lost or delivered twice: in every run of a SQL service, whatever is submitted,
  polled, released or stopped and however the worker interleaves, the accepted ids are strictly
  increasing, each is delivered at most once, and the accepted ones are exactly the delivered ones
  together with those the service still holds.
\<close>

theorem sql_no_outcome_lost:
  assumes "options_ok opts" and "flow_run sql_act (SqlService_new opts) tr s"
  shows "sorted_wrt (<) (map unat (accepted_ids tr)) \<and> distinct (delivered_ids tr)
    \<and> set (accepted_ids tr) = set (delivered_ids tr) \<union> sql_outstanding s
    \<and> set (delivered_ids tr) \<inter> sql_outstanding s = {}"
proof -
  have "sql_outstanding (SqlService_new opts) = {}"
    by (simp add: sql_outstanding_def SqlService_new_def)
  then show ?thesis
    using sql_source.flows_spec [OF assms(2) sql_inv_new [OF assms(1)]] by blast
qed

text \<open>
  C28. Stopping ends the worker and keeps every outcome: after stop, \<open>3 * max_outstanding + 3\<close> steps
  of the worker's loop end it from any state it can be in, and polling \<open>max_outstanding\<close> times then
  returns exactly the outcomes not yet delivered, in the order of their ids, before
  \<^verbatim>\<open>SE_STOPPED\<close>.
\<close>

theorem sql_stop_delivers_everything:
  assumes "options_ok opts" and "flow_run sql_act (SqlService_new opts) tr s"
    and "joined = (worker_step driver ^^ (3 * sqo_max_outstanding opts + 3)) (sql_stop s)"
    and "sql_drain (sqo_max_outstanding opts) joined = (ids, drained)"
  shows "sq_worker joined = W_done \<and> set ids = sql_outstanding s \<and> sorted_wrt (<) ids
    \<and> fst (snd (sql_poll drained)) = SE_STOPPED"
proof -
  note s = sql_run_facts [OF assms(2,1)]
  have stopped: "sql_inv (sql_stop s)" "sq_stopping (sql_stop s)" "sq_options (sql_stop s) = opts"
      "sql_outstanding (sql_stop s) = sql_outstanding s"
    using s sql_inv_stop by (simp_all add: sql_stop_def sql_outstanding_def)
  have fin: "sq_worker joined = W_done"
    using worker_run_done [OF stopped(1,2)] steps_left_le [OF stopped(1)] stopped(3) assms(3) by simp
  have j: "sql_inv joined" "sql_outstanding joined = sql_outstanding s" "sq_options joined = opts"
    using worker_run_inv [OF stopped(1)] stopped(3,4) assms(3) by auto
  note ids = complete_ids_done [OF j(1) fin]
  have "ids = complete_ids joined" "find_state Rq_complete drained = None" "sq_worker drained = W_done"
    using sql_drain_spec [OF j(1), of "sqo_max_outstanding opts"] ids(3) j(3) fin assms(4) by auto
  then show ?thesis
    using ids j(2) fin by (simp add: sql_poll_def)
qed

text \<open>
  C33. The memory budget is never exceeded and never starves: the reservations of the requests a
  service holds sum to its counter and stay within the budget and the request limit; and when it
  holds none, every request that passes the checks of the copy is admitted, since the options
  guarantee room for one request with its largest result.
\<close>

theorem sql_budget:
  assumes "options_ok opts" and "flow_run sql_act (SqlService_new opts) tr s"
  shows "sq_reserved_bytes s = umap_total rq_reserved_bytes (sq_requests s)
    \<and> sq_reserved_bytes s \<le> sqo_memory_budget opts \<and> umap_size (sq_requests s) \<le> sqo_max_outstanding opts
    \<and> (sizes_ok lay (take n cs) \<and> copy_request lay (Some cs) n opts = Inr rq
        \<and> sq_requests s = [] \<and> \<not> sq_stopping s \<and> sq_next_id s \<noteq> - 1
        \<longrightarrow> snd (sql_submit lay (Some cs) n s) = Inr (sq_next_id s))"
proof -
  note s = sql_run_facts [OF assms(2,1)]
  have "snd (sql_submit lay (Some cs) n s) = Inr (sq_next_id s)"
    if "sizes_ok lay (take n cs)" "copy_request lay (Some cs) n opts = Inr rq" "sq_requests s = []"
      "\<not> sq_stopping s" "sq_next_id s \<noteq> - 1"
  proof -
    have "rq_reserved_bytes rq \<le> sqo_memory_budget opts" "sqo_memory_budget opts < W64"
      using copy_request_spec(2,3) [OF assms(1) that(1,2)] assms(1) by (simp_all add: options_ok_def)
    moreover have "sq_reserved_bytes s = 0"
      using s(1) that(3) by (simp add: sql_inv_def)
    ultimately show ?thesis
      using that s assms(1) by (simp add: sql_submit_def options_ok_def)
  qed
  then show ?thesis
    using s by (auto simp: sql_inv_def)
qed

section \<open>Witnesses\<close>

definition sample_sql_options :: sql_options where
  "sample_sql_options = \<lparr>sqo_connection = ''game.db'', sqo_max_outstanding = 2, sqo_max_request_bytes = 4096,
     sqo_max_result_bytes = 4096, sqo_max_rows = 10, sqo_max_columns = 4, sqo_query_timeout_ms = 100,
     sqo_busy_timeout_ms = 0, sqo_memory_budget = 65536\<rparr>"

definition sample_layout :: layout where
  "sample_layout = \<lparr>sz_request = 512, sz_statement = 56, sz_value = 56, sz_result = 336, sz_string = 32, sz_vector = 24\<rparr>"

definition sample_sql :: "sql_c_statement list" where
  "sample_sql = [\<lparr>cs_sql = Some ''select 1'', cs_sql_size = 8, cs_parameter_count = 0, cs_parameters = None\<rparr>]"

definition sample_sql_run :: sql_service where
  "sample_sql_run = fst (sql_submit sample_layout (Some sample_sql) 1 (SqlService_new sample_sql_options))"

lemma sample_sql_options_ok: "options_ok sample_sql_options"
  by (simp add: options_ok_def sample_sql_options_def)

lemma sample_copy: "\<exists>rq. copy_request sample_layout (Some sample_sql) 1 sample_sql_options = Inr rq
    \<and> rq_reserved_bytes rq = 5696"
  by (simp add: copy_request_def sample_sql_def sample_sql_options_def sample_layout_def copy_statement_def
      add_bytes_def c_text_def c_parameters_def require_def)

lemma sample_sql_submitted:
  "sql_submit sample_layout (Some sample_sql) 1 (SqlService_new sample_sql_options) = (sample_sql_run, Inr 1)"
proof -
  obtain rq where "copy_request sample_layout (Some sample_sql) 1 sample_sql_options = Inr rq"
      "rq_reserved_bytes rq = 5696"
    using sample_copy by blast
  then have "snd (sql_submit sample_layout (Some sample_sql) 1 (SqlService_new sample_sql_options)) = Inr 1"
    by (simp add: sql_submit_def SqlService_new_def sample_sql_options_def)
  then show ?thesis
    by (simp add: sample_sql_run_def prod_eq_iff)
qed

lemma sample_sql_flow: "flow_run sql_act (SqlService_new sample_sql_options) [Accepted 1] sample_sql_run"
  using flow_run.more [of sql_act _ "[]", OF flow_run.none sql_act.accept [OF sample_sql_submitted]] by simp

theorem sql_no_outcome_lost_witness: "sql_outstanding sample_sql_run = {1}"
  using sql_no_outcome_lost [OF sample_sql_options_ok sample_sql_flow]
  by (simp add: accepted_ids_def delivered_ids_def)

theorem sql_stop_delivers_everything_witness:
  "set (fst (sql_drain 2 ((worker_step rq_result ^^ 9) (sql_stop sample_sql_run)))) = sql_outstanding sample_sql_run"
proof -
  let ?j = "(worker_step rq_result ^^ 9) (sql_stop sample_sql_run)"
  have n: "3 * sqo_max_outstanding sample_sql_options + 3 = 9" "sqo_max_outstanding sample_sql_options = 2"
    by (simp_all add: sample_sql_options_def)
  show ?thesis
    using sql_stop_delivers_everything [OF sample_sql_options_ok sample_sql_flow, unfolded n, OF refl,
        of rq_result "fst (sql_drain 2 ?j)" "snd (sql_drain 2 ?j)"]
    by simp
qed

theorem sql_budget_witness:
  "umap_size (sq_requests sample_sql_run) \<le> 2
   \<and> snd (sql_submit sample_layout (Some sample_sql) 1 (SqlService_new sample_sql_options)) = Inr 1"
proof -
  obtain rq where rq: "copy_request sample_layout (Some sample_sql) 1 sample_sql_options = Inr rq"
    using sample_copy by blast
  have sizes: "sizes_ok sample_layout (take 1 sample_sql)"
    by (simp add: sizes_ok_def layout_ok_def sample_layout_def sample_sql_def c_parameters_def)
  show ?thesis
    using sql_budget [OF sample_sql_options_ok sample_sql_flow]
      sql_budget [OF sample_sql_options_ok flow_run.none [of sql_act], of sample_layout 1 sample_sql rq] rq sizes
    by (simp add: SqlService_new_def sample_sql_options_def)
qed

end
