(* ===== verification/Sqlite_Driver.thy ===== *)
theory Sqlite_Driver
  imports Sql_Request Text
begin

text \<open>
  \<^verbatim>\<open>SqliteDriver\<close> (src/src/Data/Sql/SqliteDriver.cpp, SqliteStatement.cpp): one request is one
  transaction. SQLite itself is not part of the repository; its functions are the fields of \<open>api\<close>
  over a connection state \<open>'db\<close> and prepared statements \<open>'st\<close>, and what the driver relies on of
  them is \<open>sqlite_documented\<close>. The stop flag and the clock are read many times during a request;
  \<open>cancel n\<close> is what the \<open>n\<close>-th reading sees (stop requested, deadline passed).
\<close>

section \<open>SQLite's interface\<close>

definition SQLITE_OK :: nat where "SQLITE_OK = 0"
definition SQLITE_NOMEM :: nat where "SQLITE_NOMEM = 7"
definition SQLITE_INTERRUPT :: nat where "SQLITE_INTERRUPT = 9"
definition SQLITE_TOOBIG :: nat where "SQLITE_TOOBIG = 18"
definition SQLITE_MISUSE :: nat where "SQLITE_MISUSE = 21"
definition SQLITE_ROW :: nat where "SQLITE_ROW = 100"
definition SQLITE_DONE :: nat where "SQLITE_DONE = 101"

lemmas sqlite_codes = SQLITE_OK_def SQLITE_NOMEM_def SQLITE_INTERRUPT_def SQLITE_TOOBIG_def
  SQLITE_MISUSE_def SQLITE_ROW_def SQLITE_DONE_def

datatype auth_action =
    Auth_transaction | Auth_savepoint | Auth_attach | Auth_detach | Auth_pragma | Auth_create_vtable
  | Auth_drop_vtable | Auth_function | Auth_other nat

datatype sqlite_cell =
    Cell_null | Cell_integer int | Cell_float u64 | Cell_text "string option" nat | Cell_blob "string option" nat
  | Cell_unknown

type_synonym authorizer = "auth_action \<Rightarrow> string option \<Rightarrow> bool"

record ('db, 'st) sqlite_api =
  api_exec :: "string \<Rightarrow> authorizer \<Rightarrow> 'db \<Rightarrow> 'db \<times> nat"
  api_autocommit :: "'db \<Rightarrow> bool"
  api_prepare :: "string \<Rightarrow> authorizer \<Rightarrow> 'db \<Rightarrow> nat \<times> 'st option \<times> string"
  api_parameter_count :: "'st \<Rightarrow> nat"
  api_bind :: "'st \<Rightarrow> nat \<Rightarrow> sql_value \<Rightarrow> 'st \<times> nat"
  api_column_count :: "'st \<Rightarrow> nat"
  api_column_name :: "'st \<Rightarrow> nat \<Rightarrow> string option"
  api_step :: "'st \<Rightarrow> 'db \<Rightarrow> 'st \<times> 'db \<times> nat"
  api_cell :: "'st \<Rightarrow> nat \<Rightarrow> sqlite_cell"
  api_cell_nomem :: "'st \<Rightarrow> nat \<Rightarrow> bool"
  api_total_changes :: "'db \<Rightarrow> nat"
  api_changes :: "'db \<Rightarrow> nat"
  api_last_insert_rowid :: "'db \<Rightarrow> int"

section \<open>Actions\<close>

text \<open>An action on the connection and the count of flag readings, with an error as a left value.\<close>

type_synonym ('db, 'a) action = "'db \<times> nat \<Rightarrow> 'a outcome \<times> 'db \<times> nat"

definition act_bind :: "('db, 'a) action \<Rightarrow> ('a \<Rightarrow> ('db, 'b) action) \<Rightarrow> ('db, 'b) action" where
  "act_bind m f s = (case m s of (Inl e, t) \<Rightarrow> (Inl e, t) | (Inr x, t) \<Rightarrow> f x t)"

definition act_of :: "'a outcome \<Rightarrow> ('db, 'a) action" where
  "act_of r s = (r, s)"

type_synonym cancel_view = "nat \<Rightarrow> bool \<times> bool"

definition should_cancel :: "cancel_view \<Rightarrow> ('db, bool) action" where
  "should_cancel cancel = (\<lambda>(db, n). (Inr (fst (cancel n) \<or> snd (cancel n)), db, Suc n))"

definition driver_check :: "cancel_view \<Rightarrow> nat \<Rightarrow> string \<Rightarrow> ('db, unit) action" where
  "driver_check cancel code operation =
     (if code = SQLITE_OK \<or> code = SQLITE_DONE then act_of (Inr ())
      else
        act_bind (should_cancel cancel) (\<lambda>cancelled.
          if cancelled
          then (\<lambda>(db, n). (Inl (if fst (cancel n) then SE_SQL_CANCELLED else SE_TIMEOUT,
                 ''SQL request cancelled or execution deadline exceeded; transaction rolled back''), db, Suc n))
          else if code = SQLITE_TOOBIG
          then act_of (Inl (SE_RESULT_TOO_LARGE, ''SQLite value exceeds configured size limit''))
          else act_of (Inl (SE_IO_ERROR, operation))))"

text \<open>The authorizer: transaction control is the driver's own.\<close>

definition authorize :: "bool \<Rightarrow> authorizer" where
  "authorize internal_control action second =
     (case action of
        Auth_transaction \<Rightarrow> internal_control
      | Auth_savepoint \<Rightarrow> internal_control
      | Auth_attach \<Rightarrow> False
      | Auth_detach \<Rightarrow> False
      | Auth_pragma \<Rightarrow> False
      | Auth_create_vtable \<Rightarrow> False
      | Auth_drop_vtable \<Rightarrow> False
      | Auth_function \<Rightarrow> (case second of None \<Rightarrow> True | Some f \<Rightarrow> lowercase_copy f \<noteq> ''load_extension'')
      | Auth_other _ \<Rightarrow> True)"

definition control :: "('db, 'st) sqlite_api \<Rightarrow> cancel_view \<Rightarrow> string \<Rightarrow> ('db, unit) action" where
  "control api cancel sql = (\<lambda>(db, n).
     (let (db', result) = api_exec api sql (authorize True) db in
      if result \<noteq> SQLITE_OK \<and> sql = ''COMMIT'' \<and> api_autocommit api db'
      then (Inl (SE_OUTCOME_UNKNOWN, ''SQLite COMMIT failed after transaction ended; reconcile write outcome''), db', n)
      else driver_check cancel result ''SQLite transaction control failed'' (db', n)))"

section \<open>Opening the connection\<close>

text \<open>The calls of the constructor, in order; those with a text are checked. \<open>codes\<close> are their results.\<close>

datatype setup_call =
    Open_v2 string | Load_extension_off | Defensive_on | Trusted_schema_off
  | Limit_length nat | Limit_sql_length nat | Limit_column nat | Limit_variable_number nat | Limit_attached nat
  | Set_authorizer | Set_busy_handler | Close_v2

definition setup_calls :: "sql_options \<Rightarrow> (setup_call \<times> string option) list" where
  "setup_calls opts =
     [(Open_v2 (sqo_connection opts), Some ''cannot open SQLite database''),
      (Load_extension_off, Some ''cannot disable SQLite extension loading''),
      (Defensive_on, Some ''cannot enable SQLite defensive mode''),
      (Trusted_schema_off, Some ''cannot disable SQLite trusted schema''),
      (Limit_length (sqo_max_result_bytes opts), None),
      (Limit_sql_length (sqo_max_request_bytes opts), None),
      (Limit_column (sqo_max_columns opts), None),
      (Limit_variable_number 1024, None),
      (Limit_attached 0, None),
      (Set_authorizer, Some ''cannot configure SQLite authorizer''),
      (Set_busy_handler, Some ''cannot configure SQLite busy handler'')]"

fun run_setup :: "(setup_call \<Rightarrow> nat) \<Rightarrow> (setup_call \<times> string option) list \<Rightarrow> setup_call list \<times> unit outcome" where
  "run_setup codes [] = ([], Inr ())"
| "run_setup codes ((c, None) # cs) = map_prod (Cons c) id (run_setup codes cs)"
| "run_setup codes ((c, Some operation) # cs) =
     (case fst (driver_check (\<lambda>_. (False, False)) (codes c) operation ((), 0)) of
        Inl e \<Rightarrow> ([c, Close_v2], Inl e)
      | Inr _ \<Rightarrow> map_prod (Cons c) id (run_setup codes cs))"

definition driver_open :: "sql_options \<Rightarrow> (setup_call \<Rightarrow> nat) \<Rightarrow> setup_call list \<times> unit outcome" where
  "driver_open opts codes = run_setup codes (setup_calls opts)"

text \<open>The busy handler: whether to retry, and the start of the waiting it remembers.\<close>

definition busy :: "sql_options \<Rightarrow> bool \<Rightarrow> nat \<Rightarrow> nat \<Rightarrow> nat \<Rightarrow> nat \<times> bool" where
  "busy opts cancelled attempts now_ms busy_started =
     (let started = (if attempts = 0 then now_ms else busy_started) in
      (started, \<not> (cancelled \<or> now_ms - started \<ge> sqo_busy_timeout_ms opts)))"

text \<open>
  A connection that opens is restricted: extensions off, defensive mode on, schema untrusted, and
  the authorizer in place, all before any statement can run.
\<close>

lemma run_setup_all: "run_setup codes cs = (calls, Inr ()) \<Longrightarrow> calls = map fst cs"
  by (induction codes cs arbitrary: calls rule: run_setup.induct)
    (auto simp: map_prod_def split: sum.splits prod.splits)

lemma driver_open_restricted:
  "driver_open opts codes = (calls, Inr ()) \<Longrightarrow>
     {Load_extension_off, Defensive_on, Trusted_schema_off, Limit_attached 0, Set_authorizer} \<subseteq> set calls"
  by (drule run_setup_all [of codes "setup_calls opts" calls, folded driver_open_def]) (simp add: setup_calls_def)

section \<open>Reading results\<close>

definition account :: "sql_options \<Rightarrow> nat \<Rightarrow> nat \<Rightarrow> nat outcome" where
  "account opts bytes addition =
     (if addition > sqo_max_result_bytes opts \<or> bytes > sqo_max_result_bytes opts - addition
      then Inl (SE_RESULT_TOO_LARGE, ''SQL result exceeds configured row/column/byte limit; transaction rolled back'')
      else Inr (bytes + addition))"

fun read_names :: "('db, 'st) sqlite_api \<Rightarrow> sql_options \<Rightarrow> 'st \<Rightarrow> nat list \<Rightarrow> sql_result \<Rightarrow> nat \<Rightarrow>
    (sql_result \<times> nat) outcome" where
  "read_names api opts st [] r bytes = Inr (r, bytes)"
| "read_names api opts st (i # is) r bytes =
     (case api_column_name api st i of
        None \<Rightarrow> Inl (SE_INTERNAL_ERROR, ''SQLite column name allocation failed'')
      | Some name \<Rightarrow>
          and_then (account opts bytes (length name * 2 + 1)) (\<lambda>b.
          read_names api opts st is (r\<lparr>rs_columns := rs_columns r @ [name]\<rparr>) b))"

definition read_columns :: "layout \<Rightarrow> ('db, 'st) sqlite_api \<Rightarrow> sql_options \<Rightarrow> 'st \<Rightarrow> sql_result \<Rightarrow> nat \<Rightarrow>
    (sql_result \<times> nat) outcome" where
  "read_columns lay api opts st r bytes =
     (let count = api_column_count api st in
      if count > sqo_max_columns opts
      then Inl (SE_RESULT_TOO_LARGE, ''SQL result exceeds configured column limit'')
      else and_then (account opts bytes (count * sz_string lay)) (\<lambda>b.
             read_names api opts st [0..<count] r b))"

definition blank_value :: sql_value where
  "blank_value = \<lparr>va_type = SE_SQL_NULL, va_integer = 0, va_real = 0, va_bytes = []\<rparr>"

definition read_bytes ::
  "sql_options \<Rightarrow> nat \<Rightarrow> bool \<Rightarrow> string option \<Rightarrow> nat \<Rightarrow> nat \<Rightarrow> (sql_value \<times> nat) outcome" where
  "read_bytes opts type nomem data n bytes =
     (if (data = None \<and> n \<noteq> 0) \<or> nomem
      then Inl (SE_INTERNAL_ERROR, ''SQLite cell allocation failed'')
      else and_then (account opts bytes (n * 2 + 1)) (\<lambda>b.
             Inr (blank_value\<lparr>va_type := type,
                    va_bytes := (case data of None \<Rightarrow> [] | Some d \<Rightarrow> take n d)\<rparr>, b)))"

definition read_cell ::
  "sql_options \<Rightarrow> bool \<Rightarrow> sqlite_cell \<Rightarrow> nat \<Rightarrow> (sql_value \<times> nat) outcome" where
  "read_cell opts nomem cell bytes =
     (case cell of
        Cell_null \<Rightarrow> Inr (blank_value, bytes)
      | Cell_integer i \<Rightarrow> Inr (blank_value\<lparr>va_type := SE_SQL_INT64, va_integer := i\<rparr>, bytes)
      | Cell_float f \<Rightarrow> Inr (blank_value\<lparr>va_type := SE_SQL_DOUBLE, va_real := f\<rparr>, bytes)
      | Cell_text data n \<Rightarrow> read_bytes opts SE_SQL_TEXT nomem data n bytes
      | Cell_blob data n \<Rightarrow> read_bytes opts SE_SQL_BLOB nomem data n bytes
      | Cell_unknown \<Rightarrow> Inl (SE_INTERNAL_ERROR, ''unknown SQLite value type''))"

fun read_cells :: "('db, 'st) sqlite_api \<Rightarrow> sql_options \<Rightarrow> 'st \<Rightarrow> nat list \<Rightarrow> nat \<Rightarrow>
    (sql_value list \<times> nat) outcome" where
  "read_cells api opts st [] bytes = Inr ([], bytes)"
| "read_cells api opts st (i # is) bytes =
     and_then (read_cell opts (api_cell_nomem api st i) (api_cell api st i) bytes) (\<lambda>(v, b).
     and_then (read_cells api opts st is b) (\<lambda>(vs, b'). Inr (v # vs, b')))"

definition read_row :: "layout \<Rightarrow> ('db, 'st) sqlite_api \<Rightarrow> sql_options \<Rightarrow> 'st \<Rightarrow> sql_result \<Rightarrow> nat \<Rightarrow>
    (sql_result \<times> nat) outcome" where
  "read_row lay api opts st r bytes =
     (if length (rs_rows r) \<ge> sqo_max_rows opts
      then Inl (SE_RESULT_TOO_LARGE, ''SQL result exceeds configured row limit; transaction rolled back'')
      else and_then (account opts bytes (2 * sz_vector lay + length (rs_columns r) * sz_value lay)) (\<lambda>b.
             and_then (read_cells api opts st [0..<length (rs_columns r)] b) (\<lambda>(vs, b').
             Inr (r\<lparr>rs_rows := rs_rows r @ [vs]\<rparr>, b'))))"

lemma read_row_grows:
  "read_row lay api opts st r bytes = Inr (r', b) \<Longrightarrow>
     length (rs_rows r) < sqo_max_rows opts \<and> length (rs_rows r') = Suc (length (rs_rows r))"
  by (auto simp: read_row_def outcome_simps split: if_splits)

section \<open>Statements\<close>

text \<open>The stepping loop; it ends because every row is stored and the number of rows is limited.\<close>

function fetch_rows :: "layout \<Rightarrow> ('db, 'st) sqlite_api \<Rightarrow> sql_options \<Rightarrow> cancel_view \<Rightarrow> 'st \<Rightarrow> sql_result \<Rightarrow>
    nat \<Rightarrow> ('db, sql_result \<times> nat) action" where
  "fetch_rows lay api opts cancel st r bytes (db, n) =
     (case api_step api st db of
        (st', db', code) \<Rightarrow>
          if code = SQLITE_ROW then
            (if fst (cancel n) \<or> snd (cancel n)
             then act_bind (driver_check cancel SQLITE_INTERRUPT ''SQL request cancelled'')
                    (\<lambda>_. act_of (Inr (r, bytes))) (db', Suc n)
             else
               (case read_row lay api opts st' r bytes of
                  Inl e \<Rightarrow> (Inl e, db', Suc n)
                | Inr (r', b) \<Rightarrow> fetch_rows lay api opts cancel st' r' b (db', Suc n)))
          else act_bind (driver_check cancel code ''SQLite statement execution failed'')
                 (\<lambda>_. act_of (Inr (r, bytes))) (db', n))"
  by pat_completeness auto
termination
  by (relation "measure (\<lambda>(lay, api, opts, cancel, st, r, bytes, s). sqo_max_rows opts - length (rs_rows r))")
    (auto dest!: read_row_grows)

fun bind_all :: "('db, 'st) sqlite_api \<Rightarrow> cancel_view \<Rightarrow> 'st \<Rightarrow> nat \<Rightarrow> sql_value list \<Rightarrow> ('db, 'st) action" where
  "bind_all api cancel st i [] s = (Inr st, s)"
| "bind_all api cancel st i (v # vs) s =
     (case api_bind api st i v of
        (st', code) \<Rightarrow>
          act_bind (driver_check cancel code ''SQLite parameter binding failed'')
            (\<lambda>_. bind_all api cancel st' (Suc i) vs) s)"

text \<open>Stepping a bound statement and counting the rows it changed.\<close>

definition step_statement :: "layout \<Rightarrow> ('db, 'st) sqlite_api \<Rightarrow> sql_options \<Rightarrow> cancel_view \<Rightarrow> 'st \<Rightarrow>
    sql_result \<Rightarrow> nat \<Rightarrow> ('db, sql_result \<times> nat) action" where
  "step_statement lay api opts cancel st r bytes s =
     act_bind (fetch_rows lay api opts cancel st r bytes) (\<lambda>(r, bytes). (\<lambda>(db', n').
       (Inr (if api_total_changes api db' \<noteq> api_total_changes api (fst s)
             then r\<lparr>rs_affected_rows := add64 (rs_affected_rows r) (api_changes api db')\<rparr> else r, bytes),
        db', n'))) s"

text \<open>From the prepared statement on: the tail holds no second statement, then bind, read and step.\<close>

definition execute_prepared :: "layout \<Rightarrow> ('db, 'st) sqlite_api \<Rightarrow> sql_options \<Rightarrow> cancel_view \<Rightarrow> sql_statement \<Rightarrow>
    bool \<Rightarrow> sql_result \<Rightarrow> nat \<Rightarrow> 'st \<Rightarrow> nat \<Rightarrow> 'st option \<Rightarrow> ('db, sql_result \<times> nat) action" where
  "execute_prepared lay api opts cancel input final r bytes st extra_code extra =
     act_bind (driver_check cancel extra_code ''invalid trailing SQL text'') (\<lambda>_.
     act_bind (act_of (require (extra = None) SE_INVALID_ARGUMENT
       ''use a statement array for atomic batches; SQL text contains multiple statements'')) (\<lambda>_.
     act_bind (act_of (require (api_parameter_count api st = length (st_parameters input))
       SE_INVALID_ARGUMENT ''SQL parameter count does not match placeholders'')) (\<lambda>_.
     act_bind (bind_all api cancel st 1 (st_parameters input)) (\<lambda>st.
     act_bind (act_of (require (final \<or> api_column_count api st = 0)
       SE_INVALID_ARGUMENT ''only the final batch statement may return columns'')) (\<lambda>_.
     act_bind (act_of (if final then read_columns lay api opts st r bytes else Inr (r, bytes))) (\<lambda>(r, bytes).
     step_statement lay api opts cancel st r bytes))))))"

definition execute_statement :: "layout \<Rightarrow> ('db, 'st) sqlite_api \<Rightarrow> sql_options \<Rightarrow> cancel_view \<Rightarrow> sql_statement \<Rightarrow>
    bool \<Rightarrow> sql_result \<Rightarrow> nat \<Rightarrow> ('db, sql_result \<times> nat) action" where
  "execute_statement lay api opts cancel input final r bytes s =
     (case api_prepare api (st_sql input) (authorize False) (fst s) of
        (code, prepared, tail) \<Rightarrow>
          act_bind (driver_check cancel code ''SQLite prepare failed; verify SQL syntax and permitted operations'') (\<lambda>_.
          case prepared of
            None \<Rightarrow> act_of (Inl (SE_INVALID_ARGUMENT, ''empty SQL statement''))
          | Some st \<Rightarrow>
              (case api_prepare api tail (authorize False) (fst s) of
                 (extra_code, extra, _) \<Rightarrow>
                   execute_prepared lay api opts cancel input final r bytes st extra_code extra)) s)"

fun execute_statements :: "layout \<Rightarrow> ('db, 'st) sqlite_api \<Rightarrow> sql_options \<Rightarrow> cancel_view \<Rightarrow> sql_statement list \<Rightarrow>
    sql_result \<Rightarrow> nat \<Rightarrow> ('db, sql_result \<times> nat) action" where
  "execute_statements lay api opts cancel [] r bytes s = (Inr (r, bytes), s)"
| "execute_statements lay api opts cancel (x # xs) r bytes s =
     act_bind (should_cancel cancel) (\<lambda>stop.
     act_bind (if stop then driver_check cancel SQLITE_INTERRUPT ''SQL request cancelled'' else act_of (Inr ())) (\<lambda>_.
     act_bind (execute_statement lay api opts cancel x (xs = []) r bytes) (\<lambda>(r, bytes).
     execute_statements lay api opts cancel xs r bytes))) s"

section \<open>A request\<close>

record 'db driver =
  dv_db :: 'db
  dv_poisoned :: bool

text \<open>Everything between BEGIN and COMMIT.\<close>

definition work :: "layout \<Rightarrow> ('db, 'st) sqlite_api \<Rightarrow> sql_options \<Rightarrow> cancel_view \<Rightarrow> sql_request \<Rightarrow>
    ('db, sql_result) action" where
  "work lay api opts cancel request =
     act_bind (execute_statements lay api opts cancel (rq_statements request) (rq_result request) (sz_result lay))
       (\<lambda>(r, _).
     act_bind (should_cancel cancel) (\<lambda>stop.
     act_bind (if stop then driver_check cancel SQLITE_INTERRUPT ''SQL request cancelled'' else act_of (Inr ())) (\<lambda>_.
     act_of (Inr r))))"

definition transaction :: "layout \<Rightarrow> ('db, 'st) sqlite_api \<Rightarrow> sql_options \<Rightarrow> cancel_view \<Rightarrow> sql_request \<Rightarrow>
    ('db, sql_result) action" where
  "transaction lay api opts cancel request =
     act_bind (should_cancel cancel) (\<lambda>stop.
     act_bind (act_of (require (\<not> stop) SE_SQL_CANCELLED ''SQL request cancelled before execution'')) (\<lambda>_.
     act_bind (control api cancel ''BEGIN'') (\<lambda>_.
     act_bind (work lay api opts cancel request) (\<lambda>r.
     act_bind (control api cancel ''COMMIT'') (\<lambda>_.
     (\<lambda>(db, n). (Inr (r\<lparr>rs_last_insert_id := api_last_insert_rowid api db\<rparr>), db, n)))))))"

definition rollback :: "('db, 'st) sqlite_api \<Rightarrow> 'db \<Rightarrow> sql_result \<Rightarrow> 'db driver \<times> sql_result" where
  "rollback api db r =
     (if api_autocommit api db then (\<lparr>dv_db = db, dv_poisoned = False\<rparr>, r)
      else
        (case api_exec api ''ROLLBACK'' (authorize True) db of
           (db', code) \<Rightarrow>
             if code \<noteq> SQLITE_OK \<or> \<not> api_autocommit api db'
             then (\<lparr>dv_db = db', dv_poisoned = True\<rparr>,
                   result_fail SE_OUTCOME_UNKNOWN ''SQLite rollback failed; discard service and reconcile outcome'' r)
             else (\<lparr>dv_db = db', dv_poisoned = False\<rparr>, r)))"

definition driver_execute :: "layout \<Rightarrow> ('db, 'st) sqlite_api \<Rightarrow> sql_options \<Rightarrow> cancel_view \<Rightarrow> sql_request \<Rightarrow>
    'db driver \<Rightarrow> 'db driver \<times> sql_result" where
  "driver_execute lay api opts cancel request d =
     (if dv_poisoned d
      then (d, result_fail SE_INVALID_STATE
              ''SQLite connection unavailable after rollback failure; recreate service'' (rq_result request))
      else
        (case transaction lay api opts cancel request (dv_db d, 0) of
           (Inl (st, message), db, _) \<Rightarrow> rollback api db (result_fail st message (rq_result request))
         | (Inr r, db, _) \<Rightarrow> rollback api db r))"

end
