(* ===== verification/Sqlite_Transactions.thy ===== *)
theory Sqlite_Transactions
  imports Sqlite_Driver
begin

text \<open>
  Atomicity of a SQL request and the shape of its result. \<open>committed\<close> is the database content
  another connection sees, \<open>pending\<close> the content inside the open transaction, \<open>plain\<close> the prepared
  statements that control no transaction.
\<close>

section \<open>What the driver relies on of SQLite\<close>

definition begin_documented :: "('db, 'st) sqlite_api \<Rightarrow> ('db \<Rightarrow> 'c) \<Rightarrow> ('db \<Rightarrow> 'c) \<Rightarrow> bool" where
  "begin_documented api committed pending \<longleftrightarrow>
     (\<forall>a db db' code. (\<forall>x. a Auth_transaction x) \<longrightarrow> api_autocommit api db
        \<longrightarrow> api_exec api ''BEGIN'' a db = (db', code)
        \<longrightarrow> committed db' = committed db \<and> code \<noteq> SQLITE_DONE \<and> (api_autocommit api db' \<longleftrightarrow> code \<noteq> SQLITE_OK)
          \<and> (code = SQLITE_OK \<longrightarrow> pending db' = committed db))"

definition commit_documented :: "('db, 'st) sqlite_api \<Rightarrow> ('db \<Rightarrow> 'c) \<Rightarrow> ('db \<Rightarrow> 'c) \<Rightarrow> bool" where
  "commit_documented api committed pending \<longleftrightarrow>
     (\<forall>a db db' code. (\<forall>x. a Auth_transaction x) \<longrightarrow> \<not> api_autocommit api db
        \<longrightarrow> api_exec api ''COMMIT'' a db = (db', code)
        \<longrightarrow> code \<noteq> SQLITE_DONE \<and> (code = SQLITE_OK \<longrightarrow> api_autocommit api db' \<and> committed db' = pending db)
          \<and> (\<not> api_autocommit api db' \<longrightarrow> committed db' = committed db))"

definition rollback_documented :: "('db, 'st) sqlite_api \<Rightarrow> ('db \<Rightarrow> 'c) \<Rightarrow> bool" where
  "rollback_documented api committed \<longleftrightarrow>
     (\<forall>a db db'. (\<forall>x. a Auth_transaction x) \<longrightarrow> \<not> api_autocommit api db
        \<longrightarrow> api_exec api ''ROLLBACK'' a db = (db', SQLITE_OK) \<longrightarrow> committed db' = committed db)"

definition prepare_documented :: "('db, 'st) sqlite_api \<Rightarrow> ('st \<Rightarrow> bool) \<Rightarrow> bool" where
  "prepare_documented api plain \<longleftrightarrow>
     (\<forall>a sql db code st tail. (\<forall>x. \<not> a Auth_transaction x \<and> \<not> a Auth_savepoint x)
        \<longrightarrow> api_prepare api sql a db = (code, Some st, tail) \<longrightarrow> plain st)
     \<and> (\<forall>st i v. plain st \<longrightarrow> plain (fst (api_bind api st i v)))"

definition step_documented :: "('db, 'st) sqlite_api \<Rightarrow> ('db \<Rightarrow> 'c) \<Rightarrow> ('st \<Rightarrow> bool) \<Rightarrow> bool" where
  "step_documented api committed plain \<longleftrightarrow>
     (\<forall>st st' db db' code. plain st \<longrightarrow> \<not> api_autocommit api db \<longrightarrow> api_step api st db = (st', db', code)
        \<longrightarrow> plain st' \<and> committed db' = committed db \<and> (api_column_count api st = 0 \<longrightarrow> code \<noteq> SQLITE_ROW)
          \<and> (code \<in> {SQLITE_OK, SQLITE_ROW, SQLITE_DONE} \<longrightarrow> \<not> api_autocommit api db'))"

text \<open>
  The documented behaviour, with automatic rollback allowed on any error of a statement; an
  authorizer that refuses transaction control lets only plain statements through.
\<close>

definition sqlite_documented ::
  "('db, 'st) sqlite_api \<Rightarrow> ('db \<Rightarrow> 'c) \<Rightarrow> ('db \<Rightarrow> 'c) \<Rightarrow> ('st \<Rightarrow> bool) \<Rightarrow> bool" where
  "sqlite_documented api committed pending plain \<longleftrightarrow>
     begin_documented api committed pending \<and> commit_documented api committed pending
     \<and> rollback_documented api committed \<and> prepare_documented api plain \<and> step_documented api committed plain"

lemma authorize_control: "authorize True Auth_transaction x" "\<not> authorize False Auth_transaction x"
  "\<not> authorize False Auth_savepoint x"
  by (simp_all add: authorize_def)

lemma sqlite_begin:
  assumes "begin_documented api committed pending" "api_autocommit api db"
    "api_exec api ''BEGIN'' (authorize True) db = (db', code)"
  shows "committed db' = committed db \<and> code \<noteq> SQLITE_DONE \<and> (api_autocommit api db' \<longleftrightarrow> code \<noteq> SQLITE_OK)
    \<and> (code = SQLITE_OK \<longrightarrow> pending db' = committed db)"
  using assms authorize_control(1) unfolding begin_documented_def by blast

lemma sqlite_commit:
  assumes "commit_documented api committed pending" "\<not> api_autocommit api db"
    "api_exec api ''COMMIT'' (authorize True) db = (db', code)"
  shows "code \<noteq> SQLITE_DONE \<and> (code = SQLITE_OK \<longrightarrow> api_autocommit api db' \<and> committed db' = pending db)
    \<and> (\<not> api_autocommit api db' \<longrightarrow> committed db' = committed db)"
  using assms authorize_control(1) unfolding commit_documented_def by blast

lemma sqlite_rollback:
  assumes "rollback_documented api committed" "\<not> api_autocommit api db"
    "api_exec api ''ROLLBACK'' (authorize True) db = (db', SQLITE_OK)"
  shows "committed db' = committed db"
  using assms authorize_control(1) unfolding rollback_documented_def by blast

lemma sqlite_prepare:
  assumes "prepare_documented api plain" "api_prepare api sql (authorize False) db = (code, Some st, tail)"
  shows "plain st"
  using assms authorize_control(2,3) unfolding prepare_documented_def by blast

lemma sqlite_step:
  assumes "step_documented api committed plain" "plain st" "\<not> api_autocommit api db"
    "api_step api st db = (st', db', code)"
  shows "plain st' \<and> committed db' = committed db \<and> (api_column_count api st = 0 \<longrightarrow> code \<noteq> SQLITE_ROW)
    \<and> (code \<in> {SQLITE_OK, SQLITE_ROW, SQLITE_DONE} \<longrightarrow> \<not> api_autocommit api db')"
  using assms unfolding step_documented_def by blast

section \<open>Actions inside a transaction\<close>

text \<open>
  An action is safe when it publishes nothing: it keeps the committed content, stays in the
  transaction when it succeeds, and fails with a definite error otherwise.
\<close>

definition definite :: "'a outcome \<Rightarrow> ('a \<Rightarrow> bool) \<Rightarrow> bool" where
  "definite r P \<longleftrightarrow> (case r of Inl (st, _) \<Rightarrow> st \<noteq> SE_OK \<and> st \<noteq> SE_OUTCOME_UNKNOWN | Inr x \<Rightarrow> P x)"

definition tx_safe :: "('db, 'st) sqlite_api \<Rightarrow> ('db \<Rightarrow> 'c) \<Rightarrow> ('db, 'a) action \<Rightarrow> ('a \<Rightarrow> bool) \<Rightarrow> bool" where
  "tx_safe api committed m P \<longleftrightarrow> (\<forall>db n r db' n'. \<not> api_autocommit api db \<longrightarrow> m (db, n) = (r, db', n') \<longrightarrow>
     committed db' = committed db \<and> definite r P \<and> (\<not> isl r \<longrightarrow> \<not> api_autocommit api db'))"

lemma definite_simps [simp]:
  "definite (Inr x) P \<longleftrightarrow> P x"
  "definite (Inl e) P \<longleftrightarrow> fst e \<noteq> SE_OK \<and> fst e \<noteq> SE_OUTCOME_UNKNOWN"
  "definite (require ok st m) Q \<longleftrightarrow> (if ok then Q () else st \<noteq> SE_OK \<and> st \<noteq> SE_OUTCOME_UNKNOWN)"
  by (cases e; auto simp: definite_def require_def)+

lemma definite_mono: "definite r P \<Longrightarrow> (\<And>x. P x \<Longrightarrow> Q x) \<Longrightarrow> definite r Q"
  by (cases r) auto

lemma definite_and_then:
  "definite m P \<Longrightarrow> (\<And>x. P x \<Longrightarrow> definite (f x) Q) \<Longrightarrow> definite (and_then m f) Q"
  by (cases m) auto

lemma tx_safe_bind:
  assumes m: "tx_safe api committed m P" and f: "\<And>x. P x \<Longrightarrow> tx_safe api committed (f x) Q"
  shows "tx_safe api committed (act_bind m f) Q"
  unfolding tx_safe_def
proof (intro allI impI)
  fix db n r db' n'
  assume tx: "\<not> api_autocommit api db" and b: "act_bind m f (db, n) = (r, db', n')"
  obtain r1 db1 n1 where m1: "m (db, n) = (r1, db1, n1)"
    by (cases "m (db, n)") auto
  note first = m [unfolded tx_safe_def, rule_format, OF tx m1]
  show "committed db' = committed db \<and> definite r Q \<and> (\<not> isl r \<longrightarrow> \<not> api_autocommit api db')"
  proof (cases r1)
    case (Inl e)
    then show ?thesis using first b by (auto simp: act_bind_def m1)
  next
    case (Inr x)
    then have "f x (db1, n1) = (r, db', n')" "P x" "\<not> api_autocommit api db1" "committed db1 = committed db"
      using first b by (simp_all add: act_bind_def m1)
    then show ?thesis
      using f [OF \<open>P x\<close>, unfolded tx_safe_def, rule_format, of db1 n1] by simp
  qed
qed

lemma tx_safe_act_of: "definite r P \<Longrightarrow> tx_safe api committed (act_of r) P"
  by (simp add: tx_safe_def act_of_def)

lemma tx_safe_weaken: "tx_safe api committed m P \<Longrightarrow> (\<And>x. P x \<Longrightarrow> Q x) \<Longrightarrow> tx_safe api committed m Q"
  using definite_mono [of _ P Q] unfolding tx_safe_def by presburger

lemma tx_safe_cancel: "tx_safe api committed (should_cancel cancel) (\<lambda>_. True)"
  by (simp add: tx_safe_def should_cancel_def)

lemma tx_safe_check:
  "tx_safe api committed (driver_check cancel code operation) (\<lambda>_. code = SQLITE_OK \<or> code = SQLITE_DONE)"
proof (cases "code = SQLITE_OK \<or> code = SQLITE_DONE")
  case True
  then show ?thesis by (simp add: driver_check_def tx_safe_act_of)
next
  case False
  have late: "tx_safe api committed (\<lambda>(db, n). (Inl (if fst (cancel n) then SE_SQL_CANCELLED else SE_TIMEOUT, m), db, Suc n)) P"
    for m P
    by (simp add: tx_safe_def)
  show ?thesis
    using False unfolding driver_check_def
    by (auto intro!: tx_safe_bind [OF tx_safe_cancel] late tx_safe_act_of)
qed

lemmas tx_safe_interrupt = tx_safe_weaken [OF tx_safe_check, where Q = "\<lambda>_. True", simplified]

lemma account_definite: "definite (account opts bytes addition) (\<lambda>b. b = bytes + addition \<and> b \<le> sqo_max_result_bytes opts)"
  by (auto simp: account_def)

section \<open>The shape of a result\<close>

definition table_ok :: "sql_options \<Rightarrow> sql_result \<Rightarrow> bool" where
  "table_ok opts r \<longleftrightarrow> rs_status r = SE_OK \<and> length (rs_columns r) \<le> sqo_max_columns opts
     \<and> length (rs_rows r) \<le> sqo_max_rows opts
     \<and> list_all (\<lambda>row. length row = length (rs_columns r) \<and> list_all (\<lambda>v. va_type v \<le> SE_SQL_BLOB) row) (rs_rows r)"

lemma read_names_ok:
  "definite (read_names api opts st is r bytes)
     (\<lambda>(r', b). rs_status r' = rs_status r \<and> rs_rows r' = rs_rows r \<and> length (rs_columns r') = length (rs_columns r) + length is)"
proof (induction "is" arbitrary: r bytes)
  case (Cons i "is")
  show ?case
  proof (cases "api_column_name api st i")
    case None
    then show ?thesis by simp
  next
    case (Some name)
    show ?thesis
      unfolding read_names.simps Some option.case
    proof (rule definite_and_then [OF account_definite])
      fix b
      show "definite (read_names api opts st is (r\<lparr>rs_columns := rs_columns r @ [name]\<rparr>) b)
        (\<lambda>(r', b). rs_status r' = rs_status r \<and> rs_rows r' = rs_rows r \<and> length (rs_columns r') = length (rs_columns r) + length (i # is))"
        using Cons [of "r\<lparr>rs_columns := rs_columns r @ [name]\<rparr>" b]
        by (auto elim: definite_mono)
    qed
  qed
qed simp

lemma read_columns_ok:
  assumes "table_ok opts r" "rs_columns r = []" "rs_rows r = []"
  shows "definite (read_columns lay api opts st r bytes) (\<lambda>(r', b). table_ok opts r')"
proof (cases "api_column_count api st > sqo_max_columns opts")
  case False
  have "definite (read_names api opts st [0..<api_column_count api st] r b) (\<lambda>(r', b). table_ok opts r')" for b
    using read_names_ok [of api opts st "[0..<api_column_count api st]" r b] assms False
    by (elim definite_mono) (auto simp: table_ok_def)
  then show ?thesis
    using False by (auto simp: read_columns_def Let_def intro!: definite_and_then [OF account_definite])
qed (simp add: read_columns_def)

lemma read_cell_ok: "definite (read_cell opts nomem cell bytes) (\<lambda>(v, b). va_type v \<le> SE_SQL_BLOB)"
proof -
  have "definite (read_bytes opts type nomem data n bytes) (\<lambda>(v, b). va_type v \<le> SE_SQL_BLOB)"
    if "type \<le> SE_SQL_BLOB" for type data n
    using that by (auto simp: read_bytes_def intro!: definite_and_then [OF account_definite])
  then show ?thesis
    by (cases cell) (auto simp: read_cell_def blank_value_def sql_constants)
qed

lemma read_cells_ok:
  "definite (read_cells api opts st is bytes)
     (\<lambda>(vs, b). length vs = length is \<and> list_all (\<lambda>v. va_type v \<le> SE_SQL_BLOB) vs)"
proof (induction "is" arbitrary: bytes)
  case (Cons i "is")
  show ?case
    unfolding read_cells.simps
  proof (rule definite_and_then [OF read_cell_ok], clarsimp)
    fix v :: sql_value and b
    assume v: "va_type v \<le> SE_SQL_BLOB"
    show "definite (and_then (read_cells api opts st is b) (\<lambda>(vs, b'). Inr (v # vs, b')))
      (\<lambda>(vs, b). length vs = Suc (length is) \<and> list_all (\<lambda>v. va_type v \<le> SE_SQL_BLOB) vs)"
      by (rule definite_and_then [OF Cons]) (auto simp: v)
  qed
qed simp

lemma read_row_ok:
  assumes "table_ok opts r"
  shows "definite (read_row lay api opts st r bytes) (\<lambda>(r', b). table_ok opts r')"
  using assms unfolding read_row_def
  by (auto intro!: definite_and_then [OF account_definite] definite_and_then [OF read_cells_ok]
      simp: table_ok_def)

section \<open>Statements keep the transaction\<close>

lemma check_error:
  assumes "code \<noteq> SQLITE_OK" "code \<noteq> SQLITE_DONE"
    and "act_bind (driver_check cancel code operation) f (db, n) = (r, db', n')"
  shows "db' = db" "isl r" "definite r P"
  using assms
  by (auto simp: driver_check_def act_bind_def should_cancel_def act_of_def split: if_splits)

declare fetch_rows.simps [simp del]

lemma fetch_rows_safe:
  "step_documented api committed plain \<Longrightarrow> plain st \<Longrightarrow> table_ok opts r \<Longrightarrow> \<not> api_autocommit api (fst s) \<Longrightarrow>
    fetch_rows lay api opts cancel st r bytes s = (res, db', n') \<Longrightarrow>
    committed db' = committed (fst s)
    \<and> definite res (\<lambda>(r', b). table_ok opts r' \<and> (api_column_count api st = 0 \<longrightarrow> r' = r))
    \<and> (\<not> isl res \<longrightarrow> \<not> api_autocommit api db')"
proof (induction lay api opts cancel st r bytes s arbitrary: res db' n' rule: fetch_rows.induct)
  case (1 lay api opts cancel st r bytes db n)
  obtain st1 db1 code where step: "api_step api st db = (st1, db1, code)"
    by (cases "api_step api st db") auto
  note s = sqlite_step [OF "1.prems"(1,2) _ step]
  have run: "(if code = SQLITE_ROW then
            (if fst (cancel n) \<or> snd (cancel n)
             then act_bind (driver_check cancel SQLITE_INTERRUPT ''SQL request cancelled'')
                    (\<lambda>_. act_of (Inr (r, bytes))) (db1, Suc n)
             else
               (case read_row lay api opts st1 r bytes of
                  Inl e \<Rightarrow> (Inl e, db1, Suc n)
                | Inr (r', b) \<Rightarrow> fetch_rows lay api opts cancel st1 r' b (db1, Suc n)))
          else act_bind (driver_check cancel code ''SQLite statement execution failed'')
                 (\<lambda>_. act_of (Inr (r, bytes))) (db1, n)) = (res, db', n')"
    using "1.prems"(5) by (simp add: fetch_rows.simps [of lay api opts cancel st r bytes db n] step)
  have keep: "tx_safe api committed (act_bind (driver_check cancel c operation) (\<lambda>_. act_of (Inr (r, bytes))))
      (\<lambda>(r', b). table_ok opts r' \<and> (api_column_count api st = 0 \<longrightarrow> r' = r))" for c operation
    using "1.prems"(3) by (intro tx_safe_bind [OF tx_safe_check] tx_safe_act_of) simp
  consider (cancelled) "code = SQLITE_ROW" "fst (cancel n) \<or> snd (cancel n)"
    | (too_large) e where "code = SQLITE_ROW" "\<not> (fst (cancel n) \<or> snd (cancel n))"
        "read_row lay api opts st1 r bytes = Inl e"
    | (row) r1 b1 where "code = SQLITE_ROW" "\<not> (fst (cancel n) \<or> snd (cancel n))"
        "read_row lay api opts st1 r bytes = Inr (r1, b1)"
    | (finished) "code \<noteq> SQLITE_ROW" "code = SQLITE_OK \<or> code = SQLITE_DONE"
    | (failed) "code \<noteq> SQLITE_ROW" "code \<noteq> SQLITE_OK" "code \<noteq> SQLITE_DONE"
    by (cases "read_row lay api opts st1 r bytes") auto
  then show ?case
  proof cases
    case cancelled
    then have r: "act_bind (driver_check cancel SQLITE_INTERRUPT ''SQL request cancelled'')
        (\<lambda>_. act_of (Inr (r, bytes))) (db1, Suc n) = (res, db', n')"
      using run by simp
    have "\<not> api_autocommit api db1" "committed db1 = committed db"
      using s cancelled "1.prems"(4) by simp_all
    then show ?thesis
      using keep [unfolded tx_safe_def, rule_format, OF _ r] by simp
  next
    case (too_large e)
    then have "res = Inl e" "db' = db1"
      using run by simp_all
    moreover have "fst e \<noteq> SE_OK" "fst e \<noteq> SE_OUTCOME_UNKNOWN"
      using read_row_ok [OF "1.prems"(3), of lay api st1 bytes] too_large(3) by simp_all
    ultimately show ?thesis
      using s "1.prems"(4) by simp
  next
    case (row r1 b1)
    then have "fetch_rows lay api opts cancel st1 r1 b1 (db1, Suc n) = (res, db', n')"
      using run by simp
    moreover have "table_ok opts r1"
      using read_row_ok [OF "1.prems"(3), of lay api st1 bytes] row(3) by simp
    moreover have "plain st1" "\<not> api_autocommit api db1" "committed db1 = committed db" "api_column_count api st \<noteq> 0"
      using s row(1) "1.prems"(4) by auto
    ultimately have "api_column_count api st \<noteq> 0" and ih: "committed db' = committed db"
        "definite res (\<lambda>(r', b). table_ok opts r' \<and> (api_column_count api st1 = 0 \<longrightarrow> r' = r1))"
        "\<not> isl res \<longrightarrow> \<not> api_autocommit api db'"
      using "1.IH" [OF step [symmetric] refl row(1,2,3) refl "1.prems"(1)] by simp_all
    then have "definite res (\<lambda>(r', b). table_ok opts r' \<and> (api_column_count api st = 0 \<longrightarrow> r' = r))"
      by (intro definite_mono [OF ih(2)]) auto
    with ih show ?thesis
      by simp
  next
    case finished
    then have r: "act_bind (driver_check cancel code ''SQLite statement execution failed'')
        (\<lambda>_. act_of (Inr (r, bytes))) (db1, n) = (res, db', n')"
      using run by simp
    have "\<not> api_autocommit api db1" "committed db1 = committed db"
      using s finished "1.prems"(4) by auto
    then show ?thesis
      using keep [unfolded tx_safe_def, rule_format, OF _ r] by simp
  next
    case failed
    then have r: "act_bind (driver_check cancel code ''SQLite statement execution failed'')
        (\<lambda>_. act_of (Inr (r, bytes))) (db1, n) = (res, db', n')"
      using run by simp
    then have "db' = db1" "isl res" "definite res P" for P
      using check_error [OF failed(2,3) r] by simp_all
    then show ?thesis
      using s "1.prems"(4) by simp
  qed
qed

lemma bind_all_safe:
  assumes doc: "prepare_documented api plain"
  shows "plain st \<Longrightarrow> tx_safe api committed (bind_all api cancel st i vs) plain"
proof (induction vs arbitrary: st i)
  case Nil
  then show ?case by (simp add: tx_safe_def)
next
  case (Cons v vs)
  obtain st1 code where b: "api_bind api st i v = (st1, code)" by (cases "api_bind api st i v")
  have "plain st1"
    using doc Cons.prems b unfolding prepare_documented_def by (metis fst_conv)
  then have "tx_safe api committed (act_bind (driver_check cancel code ''SQLite parameter binding failed'')
      (\<lambda>_. bind_all api cancel st1 (Suc i) vs)) plain"
    using Cons.IH by (intro tx_safe_bind [OF tx_safe_check])
  then show ?case
    by (simp add: tx_safe_def b)
qed

text \<open>The result after a statement: a table, and still an empty one unless it was the last statement.\<close>

definition batch_ok :: "sql_options \<Rightarrow> bool \<Rightarrow> sql_result \<Rightarrow> bool" where
  "batch_ok opts final r \<longleftrightarrow> table_ok opts r \<and> (\<not> final \<longrightarrow> rs_columns r = [] \<and> rs_rows r = [])"

lemma step_statement_safe:
  assumes "step_documented api committed plain" "plain st" "table_ok opts r"
    and "final \<or> api_column_count api st = 0 \<and> rs_columns r = [] \<and> rs_rows r = []"
  shows "tx_safe api committed (step_statement lay api opts cancel st r bytes) (\<lambda>(r', b). batch_ok opts final r')"
proof -
  have rows: "tx_safe api committed (fetch_rows lay api opts cancel st r bytes) (\<lambda>(r', b). batch_ok opts final r')"
    unfolding tx_safe_def
  proof (intro allI impI)
    fix db n res db' n'
    assume "\<not> api_autocommit api db" "fetch_rows lay api opts cancel st r bytes (db, n) = (res, db', n')"
    from fetch_rows_safe [OF assms(1-3) _ this(2)] this(1)
    show "committed db' = committed db \<and> definite res (\<lambda>(r', b). batch_ok opts final r')
        \<and> (\<not> isl res \<longrightarrow> \<not> api_autocommit api db')"
      using assms(4) by (auto simp: batch_ok_def elim!: definite_mono)
  qed
  have upd: "batch_ok opts final (r\<lparr>rs_affected_rows := k\<rparr>) = batch_ok opts final r" for r k
    by (simp add: batch_ok_def table_ok_def)
  have "tx_safe api committed (act_bind (fetch_rows lay api opts cancel st r bytes) (\<lambda>(r, bytes). (\<lambda>(db', n').
        (Inr (if api_total_changes api db' \<noteq> before
              then r\<lparr>rs_affected_rows := add64 (rs_affected_rows r) (api_changes api db')\<rparr> else r, bytes),
         db', n')))) (\<lambda>(r', b). batch_ok opts final r')" for before
    by (rule tx_safe_bind [OF rows]) (auto simp: tx_safe_def upd)
  then show ?thesis
    unfolding tx_safe_def step_statement_def fst_conv by blast
qed

lemma execute_prepared_safe:
  assumes doc: "prepare_documented api plain" "step_documented api committed plain"
    and ok: "batch_ok opts False r" and st: "plain st"
  shows "tx_safe api committed (execute_prepared lay api opts cancel x final r bytes st extra_code extra)
    (\<lambda>(r', b). batch_ok opts final r')"
proof -
  have cols: "definite (if final then read_columns lay api opts st r bytes else Inr (r, bytes))
      (\<lambda>(r', b). table_ok opts r' \<and> (\<not> final \<longrightarrow> r' = r))" for st
    using ok by (auto simp: batch_ok_def intro: definite_mono [OF read_columns_ok])
  have req: "tx_safe api committed (act_of (require c SE_INVALID_ARGUMENT m)) (\<lambda>_. c)" for c m
    by (rule tx_safe_act_of) simp
  show ?thesis
    unfolding execute_prepared_def
    by (intro tx_safe_bind [OF tx_safe_check] tx_safe_bind [OF req] tx_safe_bind [OF bind_all_safe [OF doc(1) st]]
        tx_safe_bind [OF tx_safe_act_of [OF cols]])
      (use ok in \<open>auto simp: batch_ok_def [of opts False] intro!: step_statement_safe [OF doc(2)]\<close>)
qed

lemma execute_statement_safe:
  assumes doc: "prepare_documented api plain" "step_documented api committed plain"
    and ok: "batch_ok opts False r"
  shows "tx_safe api committed (execute_statement lay api opts cancel x final r bytes) (\<lambda>(r', b). batch_ok opts final r')"
proof -
  have "tx_safe api committed
      (act_bind (driver_check cancel code m) (\<lambda>_. case prepared of
         None \<Rightarrow> act_of (Inl (SE_INVALID_ARGUMENT, ''empty SQL statement''))
       | Some st \<Rightarrow> (case api_prepare api tail (authorize False) db of
           (extra_code, extra, _) \<Rightarrow> execute_prepared lay api opts cancel x final r bytes st extra_code extra)))
      (\<lambda>(r', b). batch_ok opts final r')"
    if "api_prepare api (st_sql x) (authorize False) db = (code, prepared, tail)" for db code prepared tail m
    using that sqlite_prepare [OF doc(1)]
    by (auto intro!: tx_safe_bind [OF tx_safe_check] tx_safe_act_of execute_prepared_safe [OF doc ok]
        split: option.split prod.split)
  then show ?thesis
    unfolding tx_safe_def execute_statement_def fst_conv by (auto split: prod.splits)
qed

lemma execute_statements_safe:
  assumes doc: "prepare_documented api plain" "step_documented api committed plain"
  shows "batch_ok opts False r \<Longrightarrow>
    tx_safe api committed (execute_statements lay api opts cancel xs r bytes) (\<lambda>(r', b). table_ok opts r')"
proof (induction xs arbitrary: r bytes)
  case Nil
  then show ?case by (simp add: tx_safe_def batch_ok_def)
next
  case (Cons x xs)
  have rest: "tx_safe api committed (execute_statements lay api opts cancel xs r' b) (\<lambda>(r', b). table_ok opts r')"
    if "batch_ok opts (xs = []) r'" for r' b
  proof (cases "xs = []")
    case True
    with that show ?thesis by (simp add: tx_safe_def batch_ok_def)
  qed (use that Cons.IH in simp)
  have stop: "tx_safe api committed (if stop then driver_check cancel SQLITE_INTERRUPT m else act_of (Inr ())) (\<lambda>_. True)"
    for stop m
    by (cases stop) (auto intro: tx_safe_weaken [OF tx_safe_check] tx_safe_act_of)
  have "tx_safe api committed
      (act_bind (should_cancel cancel) (\<lambda>stop.
       act_bind (if stop then driver_check cancel SQLITE_INTERRUPT ''SQL request cancelled'' else act_of (Inr ())) (\<lambda>_.
       act_bind (execute_statement lay api opts cancel x (xs = []) r bytes) (\<lambda>(r, bytes).
       execute_statements lay api opts cancel xs r bytes)))) (\<lambda>(r', b). table_ok opts r')"
    by (intro tx_safe_bind [OF tx_safe_cancel] tx_safe_bind [OF stop]
        tx_safe_bind [OF execute_statement_safe [OF doc Cons.prems]])
      (auto intro: rest)
  then show ?case
    by (simp add: tx_safe_def)
qed

section \<open>A request is one transaction\<close>

lemma work_safe:
  assumes "sqlite_documented api committed pending plain" "rq_result request = sql_result_new"
  shows "tx_safe api committed (work lay api opts cancel request) (table_ok opts)"
proof -
  have doc: "prepare_documented api plain" "step_documented api committed plain"
    using assms(1) by (simp_all add: sqlite_documented_def)
  have fresh: "batch_ok opts False (rq_result request)"
    by (simp add: assms(2) batch_ok_def table_ok_def sql_result_new_def)
  have stop: "tx_safe api committed (if stop then driver_check cancel SQLITE_INTERRUPT m else act_of (Inr ())) (\<lambda>_. True)"
    for stop m
    by (cases stop) (auto intro: tx_safe_weaken [OF tx_safe_check] tx_safe_act_of)
  show ?thesis
    unfolding work_def
    by (rule tx_safe_bind [OF execute_statements_safe [OF doc fresh]])
      (auto intro!: tx_safe_bind [OF tx_safe_cancel] tx_safe_bind [OF stop] tx_safe_act_of)
qed

lemma control_begin:
  assumes doc: "begin_documented api committed pending" and ac: "api_autocommit api db"
    and run: "control api cancel ''BEGIN'' (db, n) = (res, db', n')"
  shows "committed db' = committed db \<and> (\<not> isl res \<longrightarrow> \<not> api_autocommit api db' \<and> pending db' = committed db)
    \<and> (isl res \<longrightarrow> api_autocommit api db') \<and> definite res (\<lambda>_. True)"
proof -
  obtain db1 code where e: "api_exec api ''BEGIN'' (authorize True) db = (db1, code)"
    by (cases "api_exec api ''BEGIN'' (authorize True) db") auto
  have check: "driver_check cancel code ''SQLite transaction control failed'' (db1, n) = (res, db', n')"
    using run by (simp add: control_def e)
  note b = sqlite_begin [OF doc ac e]
  show ?thesis
  proof (cases "code = SQLITE_OK")
    case True
    then show ?thesis using check b by (auto simp: driver_check_def act_of_def)
  next
    case False
    have "act_bind (driver_check cancel code ''SQLite transaction control failed'') (act_of \<circ> Inr) (db1, n) = (res, db', n')"
      using check by (cases res) (auto simp: act_bind_def act_of_def)
    then show ?thesis
      using check_error [OF False, of cancel _ "act_of \<circ> Inr" db1 n res db' n'] b False by auto
  qed
qed

lemma control_commit:
  assumes doc: "commit_documented api committed pending" and tx: "\<not> api_autocommit api db"
    and run: "control api cancel ''COMMIT'' (db, n) = (res, db', n')"
  shows "(\<not> isl res \<longrightarrow> api_autocommit api db' \<and> committed db' = pending db)
    \<and> (\<forall>e. res = Inl e \<longrightarrow> fst e \<noteq> SE_OK \<and> (fst e = SE_OUTCOME_UNKNOWN \<or> committed db' = committed db))"
proof -
  obtain db1 code where e: "api_exec api ''COMMIT'' (authorize True) db = (db1, code)"
    by (cases "api_exec api ''COMMIT'' (authorize True) db") auto
  note c = sqlite_commit [OF doc tx e]
  show ?thesis
  proof (cases "code = SQLITE_OK")
    case True
    then show ?thesis using run c by (auto simp: control_def e driver_check_def act_of_def)
  next
    case False
    show ?thesis
    proof (cases "api_autocommit api db1")
      case True
      then show ?thesis using run False by (auto simp: control_def e)
    next
      case open_tx: False
      then have check: "driver_check cancel code ''SQLite transaction control failed'' (db1, n) = (res, db', n')"
        using run by (simp add: control_def e)
      have "act_bind (driver_check cancel code ''SQLite transaction control failed'') (act_of \<circ> Inr) (db1, n) = (res, db', n')"
        using check by (cases res) (auto simp: act_bind_def act_of_def)
      then have "db' = db1" "isl res" "definite res (\<lambda>_. True)"
        using check_error [OF False, of cancel _ "act_of \<circ> Inr" db1 n res db' n'] c by auto
      then show ?thesis
        using c open_tx by auto
    qed
  qed
qed

text \<open>The three outcomes of a transaction.\<close>

lemma transaction_outcome:
  assumes doc: "sqlite_documented api committed pending plain" and new: "rq_result request = sql_result_new"
    and ac: "api_autocommit api db"
    and run: "transaction lay api opts cancel request (db, n) = (res, db', n')"
  shows "case res of
      Inl e \<Rightarrow> fst e \<noteq> SE_OK \<and> (fst e = SE_OUTCOME_UNKNOWN \<or> committed db' = committed db)
    | Inr r \<Rightarrow> api_autocommit api db' \<and> table_ok opts r
        \<and> (\<exists>db1 n1 r2 db2 n2. pending db1 = committed db
             \<and> work lay api opts cancel request (db1, n1) = (Inr r2, db2, n2) \<and> committed db' = pending db2)"
proof (cases "fst (cancel n) \<or> snd (cancel n)")
  case True
  then show ?thesis
    using run by (auto simp: transaction_def act_bind_def should_cancel_def act_of_def require_def)
next
  case False
  have docs: "begin_documented api committed pending" "commit_documented api committed pending"
    using doc by (simp_all add: sqlite_documented_def)
  obtain r1 db1 n1 where b: "control api cancel ''BEGIN'' (db, Suc n) = (r1, db1, n1)"
    by (cases "control api cancel ''BEGIN'' (db, Suc n)") auto
  note begin_spec = control_begin [OF docs(1) ac b]
  show ?thesis
  proof (cases r1)
    case (Inl e)
    then show ?thesis
      using run False b begin_spec
      by (auto simp: transaction_def act_bind_def should_cancel_def act_of_def require_def)
  next
    case (Inr u)
    obtain r2 db2 n2 where w: "work lay api opts cancel request (db1, n1) = (r2, db2, n2)"
      by (cases "work lay api opts cancel request (db1, n1)") auto
    have tx1: "\<not> api_autocommit api db1" "committed db1 = committed db" "pending db1 = committed db"
      using begin_spec Inr by simp_all
    note work_spec = work_safe [OF doc new, unfolded tx_safe_def, rule_format, OF tx1(1) w]
    show ?thesis
    proof (cases r2)
      case Inl2: (Inl e)
      then show ?thesis
        using run False b Inr w work_spec tx1
        by (auto simp: transaction_def act_bind_def should_cancel_def act_of_def require_def)
    next
      case Inr2: (Inr r)
      obtain r3 db3 n3 where c: "control api cancel ''COMMIT'' (db2, n2) = (r3, db3, n3)"
        by (cases "control api cancel ''COMMIT'' (db2, n2)") auto
      have tx2: "\<not> api_autocommit api db2" "committed db2 = committed db" "table_ok opts r"
        using work_spec Inr2 tx1 by simp_all
      note commit_spec = control_commit [OF docs(2) tx2(1) c]
      have "db' = db3"
        "res = (case r3 of Inl e \<Rightarrow> Inl e | Inr _ \<Rightarrow> Inr (r\<lparr>rs_last_insert_id := api_last_insert_rowid api db3\<rparr>))"
        using run False b Inr w Inr2 c
        by (auto simp: transaction_def act_bind_def should_cancel_def act_of_def require_def split: sum.splits)
      moreover have "table_ok opts (r\<lparr>rs_last_insert_id := k\<rparr>)" for k
        using tx2(3) by (simp add: table_ok_def)
      moreover have "\<exists>db1 n1 r2 db2' n2. pending db1 = committed db
           \<and> work lay api opts cancel request (db1, n1) = (Inr r2, db2', n2) \<and> pending db2 = pending db2'"
        using w tx1(3) unfolding Inr2 by blast
      ultimately show ?thesis
        using commit_spec tx2(2) by (cases r3) auto
    qed
  qed
qed

text \<open>
  C12. A SQL request is atomic: given SQLite as documented, a request that reports success has
  published exactly the content its statements left inside one transaction that began from the
  committed content; a request that reports any error but \<^verbatim>\<open>SE_OUTCOME_UNKNOWN\<close> has changed nothing;
  and the connection is never left inside a transaction unless the driver is poisoned, which is
  reported as \<^verbatim>\<open>SE_OUTCOME_UNKNOWN\<close> and refuses all further requests.
\<close>

theorem sqlite_request_atomic:
  assumes "sqlite_documented api committed pending plain" and "rq_result request = sql_result_new"
    and "\<not> dv_poisoned d" and "api_autocommit api (dv_db d)"
    and "driver_execute lay api opts cancel request d = (d', r)"
  shows "(rs_status r = SE_OK \<longrightarrow> (\<exists>db1 n1 r2 db2 n2. pending db1 = committed (dv_db d)
        \<and> work lay api opts cancel request (db1, n1) = (Inr r2, db2, n2) \<and> committed (dv_db d') = pending db2))
    \<and> (rs_status r \<noteq> SE_OK \<and> rs_status r \<noteq> SE_OUTCOME_UNKNOWN \<longrightarrow> committed (dv_db d') = committed (dv_db d))
    \<and> (dv_poisoned d' \<longrightarrow> rs_status r = SE_OUTCOME_UNKNOWN
        \<and> (\<forall>request'. driver_execute lay api opts cancel request' d' = (d', result_fail SE_INVALID_STATE
              ''SQLite connection unavailable after rollback failure; recreate service'' (rq_result request'))))
    \<and> (\<not> dv_poisoned d' \<longrightarrow> api_autocommit api (dv_db d'))"
proof -
  obtain res db n where t: "transaction lay api opts cancel request (dv_db d, 0) = (res, db, n)"
    by (cases "transaction lay api opts cancel request (dv_db d, 0)") auto
  note out = transaction_outcome [OF assms(1,2,4) t]
  have rb: "rollback_documented api committed"
    using assms(1) by (simp add: sqlite_documented_def)
  define r0 where "r0 = (case res of Inl e \<Rightarrow> result_fail (fst e) (snd e) (rq_result request) | Inr r \<Rightarrow> r)"
  have roll: "rollback api db r0 = (d', r)"
    using assms(3,5) t by (auto simp: driver_execute_def r0_def split: sum.splits)
  have later: "dv_poisoned d' \<longrightarrow> driver_execute lay api opts cancel request' d' = (d', result_fail SE_INVALID_STATE
              ''SQLite connection unavailable after rollback failure; recreate service'' (rq_result request'))" for request'
    by (simp add: driver_execute_def)
  show ?thesis
  proof (cases "api_autocommit api db")
    case True
    then have "d' = \<lparr>dv_db = db, dv_poisoned = False\<rparr>" "r = r0"
      using roll by (simp_all add: rollback_def)
    then show ?thesis
      using out True by (cases res) (auto simp: r0_def result_fail_def table_ok_def)
  next
    case False
    then obtain e where e: "res = Inl e" "fst e \<noteq> SE_OK" "fst e = SE_OUTCOME_UNKNOWN \<or> committed db = committed (dv_db d)"
      using out by (cases res) auto
    obtain db2 code where x: "api_exec api ''ROLLBACK'' (authorize True) db = (db2, code)"
      by (cases "api_exec api ''ROLLBACK'' (authorize True) db") auto
    show ?thesis
    proof (cases "code \<noteq> SQLITE_OK \<or> \<not> api_autocommit api db2")
      case True
      then show ?thesis
        using roll False x later by (auto simp: rollback_def result_fail_def)
    next
      case ok: False
      then have "d' = \<lparr>dv_db = db2, dv_poisoned = False\<rparr>" "r = r0"
        using roll False x by (simp_all add: rollback_def)
      moreover have "committed db2 = committed db"
        using sqlite_rollback [OF rb False] x ok by simp
      ultimately show ?thesis
        using e ok by (auto simp: r0_def result_fail_def)
    qed
  qed
qed

text \<open>
  A database that behaves as documented: a list of rows, a copy of it while a transaction is open,
  and one kind of statement, which appends a row.
\<close>

type_synonym toy_db = "nat list \<times> nat list option"

definition toy_exec :: "string \<Rightarrow> authorizer \<Rightarrow> toy_db \<Rightarrow> toy_db \<times> nat" where
  "toy_exec sql a db =
     (case snd db of
        None \<Rightarrow> if sql = ''BEGIN'' then ((fst db, Some (fst db)), SQLITE_OK) else (db, 1)
      | Some p \<Rightarrow>
          if sql = ''COMMIT'' then ((p, None), SQLITE_OK)
          else if sql = ''ROLLBACK'' then ((fst db, None), SQLITE_OK)
          else (db, 1))"

definition toy_api :: "(toy_db, nat) sqlite_api" where
  "toy_api = \<lparr>api_exec = toy_exec, api_autocommit = (\<lambda>db. snd db = None),
     api_prepare = (\<lambda>sql a db. (SQLITE_OK, if sql = [] then None else Some (length sql), [])),
     api_parameter_count = (\<lambda>_. 0), api_bind = (\<lambda>st i v. (st, SQLITE_OK)), api_column_count = (\<lambda>_. 0),
     api_column_name = (\<lambda>_ _. None),
     api_step = (\<lambda>st db. (st, (fst db, map_option (\<lambda>p. p @ [st]) (snd db)), SQLITE_DONE)),
     api_cell = (\<lambda>_ _. Cell_null), api_cell_nomem = (\<lambda>_ _. False), api_total_changes = (\<lambda>db. 0),
     api_changes = (\<lambda>db. 1), api_last_insert_rowid = (\<lambda>db. 0)\<rparr>"

lemma toy_documented:
  "sqlite_documented toy_api fst (\<lambda>db. case snd db of None \<Rightarrow> fst db | Some p \<Rightarrow> p) (\<lambda>_. True)"
  by (auto simp: sqlite_documented_def begin_documented_def commit_documented_def rollback_documented_def
      prepare_documented_def step_documented_def toy_api_def toy_exec_def sqlite_codes split: option.splits)

definition sample_insert :: sql_request where
  "sample_insert = \<lparr>rq_id = 1, rq_reserved_bytes = 0, rq_statements = [\<lparr>st_sql = ''insert'', st_parameters = []\<rparr>],
     rq_result = sql_result_new, rq_state = Rq_running\<rparr>"

definition toy_layout :: layout where
  "toy_layout = \<lparr>sz_request = 0, sz_statement = 0, sz_value = 0, sz_result = 0, sz_string = 0, sz_vector = 0\<rparr>"

definition toy_options :: sql_options where
  "toy_options = \<lparr>sqo_connection = ''toy'', sqo_max_outstanding = 1, sqo_max_request_bytes = 256,
     sqo_max_result_bytes = 1024, sqo_max_rows = 1, sqo_max_columns = 1, sqo_query_timeout_ms = 1,
     sqo_busy_timeout_ms = 0, sqo_memory_budget = 4096\<rparr>"

theorem sqlite_request_atomic_witness:
  "(let (d', r) = driver_execute toy_layout toy_api toy_options (\<lambda>_. (True, False)) sample_insert
        \<lparr>dv_db = ([5], None), dv_poisoned = False\<rparr>
    in rs_status r = SE_SQL_CANCELLED \<and> fst (dv_db d') = [5])"
proof -
  let ?d = "\<lparr>dv_db = ([5], None), dv_poisoned = False\<rparr> :: toy_db driver"
  obtain d' r where run: "driver_execute toy_layout toy_api toy_options (\<lambda>_. (True, False)) sample_insert ?d = (d', r)"
    by (cases "driver_execute toy_layout toy_api toy_options (\<lambda>_. (True, False)) sample_insert ?d")
  have ac: "api_autocommit toy_api (dv_db ?d)" and new: "rq_result sample_insert = sql_result_new"
    by (simp_all add: toy_api_def sample_insert_def)
  have "rs_status r = SE_SQL_CANCELLED"
    using run by (auto simp: driver_execute_def transaction_def act_bind_def should_cancel_def act_of_def
        require_def rollback_def result_fail_def toy_api_def)
  then show ?thesis
    using sqlite_request_atomic [OF toy_documented new _ ac run] by (simp add: run)
qed

section \<open>The shape of a delivered result\<close>

definition result_shape :: "sql_options \<Rightarrow> sql_result \<Rightarrow> bool" where
  "result_shape opts r \<longleftrightarrow> length (rs_columns r) \<le> sqo_max_columns opts \<and> length (rs_rows r) \<le> sqo_max_rows opts
     \<and> list_all (\<lambda>row. length row = length (rs_columns r) \<and> list_all (\<lambda>v. va_type v \<le> SE_SQL_BLOB) row) (rs_rows r)"

lemma result_shape_fail [simp]: "result_shape opts (result_fail st m r)"
  by (simp add: result_shape_def result_fail_def)

text \<open>Whatever happens, the result the driver leaves has the shape the readers rely on.\<close>

lemma driver_result_shape:
  assumes "sqlite_documented api committed pending plain" and "rq_result request = sql_result_new"
    and "api_autocommit api (dv_db d)"
  shows "result_shape opts (snd (driver_execute lay api opts cancel request d))"
proof (cases "dv_poisoned d")
  case False
  obtain res db n where t: "transaction lay api opts cancel request (dv_db d, 0) = (res, db, n)"
    by (cases "transaction lay api opts cancel request (dv_db d, 0)") auto
  show ?thesis
    using transaction_outcome [OF assms t] False t
    by (auto simp: driver_execute_def rollback_def result_shape_def [of opts "_ :: sql_result"] table_ok_def result_fail_def
        split: sum.splits prod.splits)
qed (simp add: driver_execute_def)

end
