(* ===== verification/Redis_Connection.thy ===== *)
theory Redis_Connection
  imports Abi_Status Text Byte_Buffer
begin

text \<open>
  \<^verbatim>\<open>data::redis::Connection\<close> (src/src/Data/Redis/Connection.cpp): the check of a reply while it
  arrives in pieces, before hiredis sees it, and the execution of one request with the outcome it
  reports. Hiredis and the socket are outside the repository: what they do during one execution is
  the argument \<open>net\<close>.
\<close>

section \<open>Requests and completions\<close>

definition SE_REDIS_GET :: nat where "SE_REDIS_GET = 1"
definition SE_REDIS_SET :: nat where "SE_REDIS_SET = 2"
definition SE_REDIS_DELETE :: nat where "SE_REDIS_DELETE = 3"

lemmas redis_operations = SE_REDIS_GET_def SE_REDIS_SET_def SE_REDIS_DELETE_def

record redis_options =
  ro_address :: string
  ro_username :: string
  ro_password :: string
  ro_port :: nat
  ro_connect_timeout_ms :: nat
  ro_command_timeout_ms :: nat
  ro_max_inflight_requests :: nat
  ro_max_key_bytes :: nat
  ro_max_value_bytes :: nat
  ro_max_queue_bytes :: nat
  ro_max_result_bytes :: nat

record redis_completion =
  cp_request_id :: u64
  cp_operation :: nat
  cp_status :: se_status
  cp_found :: bool
  cp_affected_count :: nat
  cp_value :: bytes
  cp_message :: string

record redis_request =
  rr_key :: bytes
  rr_value :: bytes
  rr_ttl_ms :: nat
  rr_result_reservation :: nat
  rr_completion :: redis_completion

definition completion_fail :: "se_status \<Rightarrow> string \<Rightarrow> redis_completion \<Rightarrow> redis_completion" where
  "completion_fail code description c =
     c\<lparr>cp_status := code, cp_value := [], cp_found := False, cp_affected_count := 0,
       cp_message := bounded_message 192 description\<rparr>"

section \<open>The reply while it arrives\<close>

record reply_reader =
  rp_received :: nat
  rp_reply_limit :: nat
  rp_bulk_limit :: nat
  rp_header :: string
  rp_header_checked :: bool
  rp_fed :: string

text \<open>The reader at the start of a command whose reply may have \<open>maximum_reply\<close> bytes.\<close>

definition reader_new :: "nat \<Rightarrow> reply_reader" where
  "reader_new maximum_reply =
     \<lparr>rp_received = 0, rp_reply_limit = maximum_reply,
      rp_bulk_limit = (if maximum_reply > 4096 then maximum_reply - 4096 else 0),
      rp_header = [], rp_header_checked = False, rp_fed = []\<rparr>"

definition bulk_check :: "nat \<Rightarrow> string \<Rightarrow> unit + se_status" where
  "bulk_check limit header =
     (if hd header = CHR ''$'' then
        (case from_chars (- 9223372036854775808) 9223372036854775807 (butlast (butlast (tl header))) of
           None \<Rightarrow> Inr SE_IO_ERROR
         | Some (len, rest) \<Rightarrow>
             if rest \<noteq> [] \<or> len < -1 then Inr SE_IO_ERROR
             else if len \<ge> 0 \<and> nat len > limit then Inr SE_RESULT_TOO_LARGE
             else Inl ())
      else Inl ())"

text \<open>The loop of \<^verbatim>\<open>check_header\<close>: the header so far, whether it is complete, or the refusal.\<close>

fun check_header :: "nat \<Rightarrow> string \<Rightarrow> string \<Rightarrow> (string \<times> bool) + se_status" where
  "check_header limit header [] = Inl (header, False)"
| "check_header limit header (c # cs) =
     (if length header \<ge> 4096 then Inr SE_RESULT_TOO_LARGE
      else
        (let h = header @ [c] in
         if length h < 2 \<or> h ! (length h - 2) \<noteq> CR \<or> h ! (length h - 1) \<noteq> LF
         then check_header limit h cs
         else (case bulk_check limit h of Inl _ \<Rightarrow> Inl (h, True) | Inr st \<Rightarrow> Inr st)))"

definition reply_start_ok :: "char \<Rightarrow> bool" where
  "reply_start_ok c \<longleftrightarrow> c \<in> {CHR ''+'', CHR ''-'', CHR '':'', CHR ''$''}"

text \<open>One completed read, up to the point where hiredis is fed.\<close>

definition read_chunk :: "string \<Rightarrow> reply_reader \<Rightarrow> reply_reader + se_status" where
  "read_chunk chunk rd =
     (if rp_received rd = 0 \<and> (chunk \<noteq> [] \<and> \<not> reply_start_ok (hd chunk)) then Inr SE_IO_ERROR
      else if length chunk > sub64 (rp_reply_limit rd) (rp_received rd) then Inr SE_RESULT_TOO_LARGE
      else
        (let rd1 = rd\<lparr>rp_received := rp_received rd + length chunk\<rparr> in
         if rp_header_checked rd then Inl (rd1\<lparr>rp_fed := rp_fed rd @ chunk\<rparr>)
         else
           (case check_header (rp_bulk_limit rd) (rp_header rd) chunk of
              Inr st \<Rightarrow> Inr st
            | Inl (h, checked) \<Rightarrow>
                Inl (rd1\<lparr>rp_header := h, rp_header_checked := checked, rp_fed := rp_fed rd @ chunk\<rparr>))))"

fun read_chunks :: "string list \<Rightarrow> reply_reader \<Rightarrow> reply_reader + se_status" where
  "read_chunks [] rd = Inl rd"
| "read_chunks (c # cs) rd = (case read_chunk c rd of Inr st \<Rightarrow> Inr st | Inl rd' \<Rightarrow> read_chunks cs rd')"

definition reader_inv :: "reply_reader \<Rightarrow> bool" where
  "reader_inv rd \<longleftrightarrow> rp_received rd \<le> rp_reply_limit rd \<and> rp_reply_limit rd < W64
     \<and> length (rp_fed rd) = rp_received rd"

lemma read_chunk_inv: "reader_inv rd \<Longrightarrow> read_chunk c rd = Inl rd' \<Longrightarrow>
    reader_inv rd' \<and> rp_reply_limit rd' = rp_reply_limit rd \<and> rp_bulk_limit rd' = rp_bulk_limit rd
    \<and> rp_received rd' = rp_received rd + length c \<and> rp_fed rd' = rp_fed rd @ c"
  by (auto simp: read_chunk_def reader_inv_def Let_def split: if_splits sum.splits)

lemma check_header_append:
  "check_header limit h (xs @ ys) =
     (case check_header limit h xs of
        Inr st \<Rightarrow> Inr st
      | Inl (h', True) \<Rightarrow> Inl (h', True)
      | Inl (h', False) \<Rightarrow> check_header limit h' ys)"
  by (induction limit h xs rule: check_header.induct) (auto simp: Let_def split: sum.splits)

definition header_step :: "string \<Rightarrow> reply_reader \<Rightarrow> (string \<times> bool) + se_status" where
  "header_step chunk rd =
     (if rp_header_checked rd then Inl (rp_header rd, True)
      else check_header (rp_bulk_limit rd) (rp_header rd) chunk)"

lemma read_chunk_ok:
  assumes "reader_inv rd"
  shows "read_chunk c rd = Inl rd' \<longleftrightarrow>
    (rp_received rd = 0 \<longrightarrow> c = [] \<or> reply_start_ok (hd c)) \<and> rp_received rd + length c \<le> rp_reply_limit rd
    \<and> (\<exists>h k. header_step c rd = Inl (h, k)
        \<and> rd' = rd\<lparr>rp_received := rp_received rd + length c, rp_header := h, rp_header_checked := k,
                   rp_fed := rp_fed rd @ c\<rparr>)"
proof -
  have fits: "\<not> length c > sub64 (rp_reply_limit rd) (rp_received rd) \<longleftrightarrow> rp_received rd + length c \<le> rp_reply_limit rd"
    using assms by (intro sub64_fits_iff) (auto simp: reader_inv_def)
  show ?thesis
  proof (cases "(rp_received rd = 0 \<longrightarrow> c = [] \<or> reply_start_ok (hd c)) \<and> rp_received rd + length c \<le> rp_reply_limit rd")
    case True
    then have "read_chunk c rd = (case header_step c rd of Inr st \<Rightarrow> Inr st
        | Inl (h, k) \<Rightarrow> Inl (rd\<lparr>rp_received := rp_received rd + length c, rp_header := h, rp_header_checked := k,
                   rp_fed := rp_fed rd @ c\<rparr>))"
      using fits by (cases rd) (auto simp: read_chunk_def header_step_def split: sum.split)
    then show ?thesis
      using True by (auto split: sum.split)
  next
    case False
    then show ?thesis
      using fits by (auto simp: read_chunk_def)
  qed
qed

lemma header_step_append:
  "header_step (xs @ ys) rd = Inl (h, k) \<longleftrightarrow>
     (\<exists>h1 k1. header_step xs rd = Inl (h1, k1)
        \<and> header_step ys (rd\<lparr>rp_received := n, rp_header := h1, rp_header_checked := k1, rp_fed := f\<rparr>) = Inl (h, k))"
  by (auto simp: header_step_def check_header_append split: sum.splits bool.splits)

lemma read_chunk_append:
  assumes inv: "reader_inv rd" and ne: "xs \<noteq> []"
  shows "read_chunk (xs @ ys) rd = Inl rd' \<longleftrightarrow>
    (\<exists>rd1. read_chunk xs rd = Inl rd1 \<and> read_chunk ys rd1 = Inl rd')" (is "?l \<longleftrightarrow> ?r")
proof -
  let ?step = "\<lambda>c rd h k. rd\<lparr>rp_received := rp_received rd + length c, rp_header := h, rp_header_checked := k,
      rp_fed := rp_fed rd @ c\<rparr>"
  have inv1: "reader_inv (?step xs rd h k)" if "rp_received rd + length xs \<le> rp_reply_limit rd" for h k
    using inv that by (simp add: reader_inv_def)
  have "?l \<longleftrightarrow> (rp_received rd = 0 \<longrightarrow> reply_start_ok (hd xs)) \<and> rp_received rd + length xs + length ys \<le> rp_reply_limit rd
      \<and> (\<exists>h k h1 k1. header_step xs rd = Inl (h1, k1) \<and> header_step ys (?step xs rd h1 k1) = Inl (h, k)
          \<and> rd' = ?step (xs @ ys) rd h k)"
    using ne by (simp add: read_chunk_ok [OF inv] add.assoc
        header_step_append [where n = "rp_received rd + length xs" and f = "rp_fed rd @ xs"]) blast
  also have "\<dots> \<longleftrightarrow> ?r"
  proof
    assume "(rp_received rd = 0 \<longrightarrow> reply_start_ok (hd xs)) \<and> rp_received rd + length xs + length ys \<le> rp_reply_limit rd
      \<and> (\<exists>h k h1 k1. header_step xs rd = Inl (h1, k1) \<and> header_step ys (?step xs rd h1 k1) = Inl (h, k)
          \<and> rd' = ?step (xs @ ys) rd h k)"
    then obtain h k h1 k1 where a: "rp_received rd = 0 \<longrightarrow> reply_start_ok (hd xs)"
        "rp_received rd + length xs + length ys \<le> rp_reply_limit rd" "header_step xs rd = Inl (h1, k1)"
        "header_step ys (?step xs rd h1 k1) = Inl (h, k)" "rd' = ?step (xs @ ys) rd h k"
      by (elim conjE exE) (rule that; assumption)
    have "read_chunk xs rd = Inl (?step xs rd h1 k1)"
      using a by (simp add: read_chunk_ok [OF inv])
    moreover have "read_chunk ys (?step xs rd h1 k1) = Inl rd'"
      using a ne inv1 by (simp add: read_chunk_ok)
    ultimately show ?r by blast
  next
    assume ?r
    then obtain rd1 where r: "read_chunk xs rd = Inl rd1" "read_chunk ys rd1 = Inl rd'" by blast
    then obtain h1 k1 where x: "rp_received rd = 0 \<longrightarrow> reply_start_ok (hd xs)"
        "rp_received rd + length xs \<le> rp_reply_limit rd" "header_step xs rd = Inl (h1, k1)"
        "rd1 = ?step xs rd h1 k1"
      using ne by (auto simp: read_chunk_ok [OF inv])
    then show "(rp_received rd = 0 \<longrightarrow> reply_start_ok (hd xs)) \<and> rp_received rd + length xs + length ys \<le> rp_reply_limit rd
      \<and> (\<exists>h k h1 k1. header_step xs rd = Inl (h1, k1) \<and> header_step ys (?step xs rd h1 k1) = Inl (h, k)
          \<and> rd' = ?step (xs @ ys) rd h k)"
      using r(2) inv1 by (auto simp: read_chunk_ok add.assoc)
  qed
  finally show ?thesis .
qed

lemma read_chunks_concat:
  "reader_inv rd \<Longrightarrow> cs \<noteq> [] \<Longrightarrow> [] \<notin> set cs \<Longrightarrow>
     read_chunks cs rd = Inl rd' \<longleftrightarrow> read_chunk (concat cs) rd = Inl rd'"
proof (induction cs arbitrary: rd)
  case (Cons c cs)
  show ?case
  proof (cases "cs = []")
    case False
    have "read_chunks (c # cs) rd = Inl rd' \<longleftrightarrow> (\<exists>rd1. read_chunk c rd = Inl rd1 \<and> read_chunks cs rd1 = Inl rd')"
      by (auto split: sum.split)
    also have "\<dots> \<longleftrightarrow> (\<exists>rd1. read_chunk c rd = Inl rd1 \<and> read_chunk (concat cs) rd1 = Inl rd')"
      using Cons.IH [OF _ False] Cons.prems read_chunk_inv [OF Cons.prems(1)] by auto
    finally show ?thesis
      using read_chunk_append [OF Cons.prems(1), of c "concat cs" rd'] Cons.prems(3) by auto
  qed (simp split: sum.split)
qed simp

lemma reader_inv_new: "m < W64 \<Longrightarrow> reader_inv (reader_new m)"
  by (simp add: reader_inv_def reader_new_def)

lemma check_header_done: "check_header limit h cs = Inl (h', True) \<Longrightarrow> bulk_check limit h' = Inl ()"
  by (induction limit h cs rule: check_header.induct) (auto simp: Let_def split: if_splits sum.splits)

lemma bulk_check_ok:
  "bulk_check limit header = Inl () \<Longrightarrow> hd header = CHR ''$'' \<Longrightarrow>
     \<exists>len. from_chars (- 9223372036854775808) 9223372036854775807 (butlast (butlast (tl header))) = Some (len, [])
       \<and> -1 \<le> len \<and> nat len \<le> limit"
  by (auto simp: bulk_check_def split: option.splits if_splits)

text \<open>
  C32. How a Redis reply is cut into reads does not matter: a reply that arrives in any non-empty
  pieces is accepted exactly when the same bytes in one read would be, with the same reader state;
  what reaches the parser is exactly the bytes received, never more than the limit, and a bulk
  length that was announced is at most the limit minus 4096.
\<close>

theorem redis_reply_fragmentation:
  assumes "m < W64" and "cs \<noteq> []" and "[] \<notin> set cs"
  shows "(read_chunks cs (reader_new m) = Inl rd) = (read_chunk (concat cs) (reader_new m) = Inl rd)
    \<and> (read_chunks cs (reader_new m) = Inl rd \<longrightarrow>
        rp_fed rd = concat cs \<and> length (rp_fed rd) \<le> m
        \<and> (rp_header_checked rd \<and> hd (rp_header rd) = CHR ''$'' \<longrightarrow>
             (\<exists>len. from_chars (- 9223372036854775808) 9223372036854775807 (butlast (butlast (tl (rp_header rd))))
                = Some (len, []) \<and> -1 \<le> len \<and> nat len \<le> m - 4096)))"
proof -
  note inv = reader_inv_new [OF assms(1)]
  note same = read_chunks_concat [OF inv assms(2,3), of rd]
  have "rp_fed rd = concat cs \<and> length (rp_fed rd) \<le> m
      \<and> (rp_header_checked rd \<longrightarrow> bulk_check (m - 4096) (rp_header rd) = Inl ())"
    if one: "read_chunk (concat cs) (reader_new m) = Inl rd"
  proof -
    have "rp_bulk_limit (reader_new m) = m - 4096"
      by (simp add: reader_new_def)
    then show ?thesis
      using one read_chunk_inv [OF inv one] check_header_done [of "m - 4096" "[]" "concat cs" "rp_header rd"]
      by (auto simp: read_chunk_ok [OF inv] header_step_def reader_inv_def) (auto simp: reader_new_def)
  qed
  then show ?thesis
    using same bulk_check_ok by auto
qed

theorem redis_reply_fragmentation_witness:
  "read_chunks [''$2'', [CR], LF # ''hi'', [CR, LF]] (reader_new 5000) =
   Inl \<lparr>rp_received = 8, rp_reply_limit = 5000, rp_bulk_limit = 904, rp_header = ''$2'' @ [CR, LF],
        rp_header_checked = True, rp_fed = ''$2'' @ [CR, LF] @ ''hi'' @ [CR, LF]\<rparr>
   \<and> read_chunk (''$2'' @ [CR, LF] @ ''hi'' @ [CR, LF]) (reader_new 5000) =
     read_chunks [''$2'', [CR], LF # ''hi'', [CR, LF]] (reader_new 5000)"
proof -
  let ?rd = "\<lparr>rp_received = 8, rp_reply_limit = 5000, rp_bulk_limit = 904, rp_header = ''$2'' @ [CR, LF],
        rp_header_checked = True, rp_fed = ''$2'' @ [CR, LF] @ ''hi'' @ [CR, LF]\<rparr>"
  have "read_chunks [''$2'', [CR], LF # ''hi'', [CR, LF]] (reader_new 5000) = Inl ?rd"
    by (simp add: reader_new_def read_chunk_def reply_start_ok_def bulk_check_def from_chars_def Let_def
        is_digit_def digits_value_def digit_value_def)
  then show ?thesis
    using redis_reply_fragmentation [of 5000 "[''$2'', [CR], LF # ''hi'', [CR, LF]]" ?rd] by simp
qed

section \<open>Executing a request\<close>

datatype redis_reply =
    Reply_status string | Reply_error string | Reply_integer int | Reply_nil | Reply_string bytes | Reply_array

text \<open>A command that was written: its reply, a failure (and whether it closed the socket), or an exception.\<close>

datatype command_outcome = Replied redis_reply | Failed se_status bool | Threw

text \<open>
  What happens around one execution: the readings of the cancel flag, the result of connecting
  (\<open>None\<close> when it throws), and the outcomes of the authentication (0) and of the command itself (1).
\<close>

record redis_net =
  net_cancelled :: "nat \<Rightarrow> bool"
  net_connect :: "se_status option"
  net_command :: "nat \<Rightarrow> string list \<Rightarrow> nat \<Rightarrow> command_outcome"

definition is_ok :: "redis_reply \<Rightarrow> bool" where
  "is_ok r \<longleftrightarrow> r = Reply_status ''OK''"

definition bytes_text :: "bytes \<Rightarrow> string" where
  "bytes_text bs = map char_of_byte bs"

definition redis_arguments :: "redis_request \<Rightarrow> string list" where
  "redis_arguments rq =
     (let key = bytes_text (rr_key rq); value = bytes_text (rr_value rq) in
      if cp_operation (rr_completion rq) = SE_REDIS_GET then [''GET'', key]
      else if cp_operation (rr_completion rq) = SE_REDIS_DELETE then [''DEL'', key]
      else [''SET'', key, value] @ (if rr_ttl_ms rq \<noteq> 0 then [''PX'', decimal (rr_ttl_ms rq)] else []))"

text \<open>Connecting and authenticating when the socket is closed.\<close>

definition redis_prepare :: "redis_options \<Rightarrow> redis_net \<Rightarrow> bool \<Rightarrow> unit outcome" where
  "redis_prepare opts net open_socket =
     (if open_socket then Inr ()
      else
        (case net_connect net of
           None \<Rightarrow> Inl (SE_INTERNAL_ERROR, ''Redis client failed locally'')
         | Some connected \<Rightarrow>
             if connected \<noteq> SE_OK then Inl (connected, ''Redis connection failed or was cancelled'')
             else if ro_password opts = [] then Inr ()
             else
               (case net_command net 0 ([''AUTH''] @ (if ro_username opts \<noteq> [] then [ro_username opts] else [])
                       @ [ro_password opts]) 4096 of
                  Threw \<Rightarrow> Inl (SE_INTERNAL_ERROR, ''Redis client failed locally'')
                | Failed st _ \<Rightarrow> Inl (st, ''Redis authentication failed or was cancelled'')
                | Replied r \<Rightarrow>
                    if is_ok r then Inr ()
                    else Inl (SE_IO_ERROR, ''Redis authentication failed or was cancelled''))))"

text \<open>The completion for a reply, and whether the socket stays open.\<close>

definition redis_interpret :: "redis_options \<Rightarrow> redis_reply \<Rightarrow> redis_completion \<Rightarrow> redis_completion \<times> bool" where
  "redis_interpret opts reply c =
     (case reply of
        Reply_error _ \<Rightarrow> (completion_fail SE_IO_ERROR ''Redis rejected the command; check ACL and key type'' c, True)
      | _ \<Rightarrow>
          if cp_operation c = SE_REDIS_GET then
            (case reply of
               Reply_nil \<Rightarrow> (c, True)
             | Reply_string v \<Rightarrow>
                 if length v > ro_max_value_bytes opts
                 then (completion_fail SE_RESULT_TOO_LARGE ''Redis value exceeds max_value_bytes'' c, True)
                 else (c\<lparr>cp_value := v, cp_found := True\<rparr>, True)
             | _ \<Rightarrow> (completion_fail SE_IO_ERROR ''Redis GET returned an unexpected reply type'' c, False))
          else if cp_operation c = SE_REDIS_DELETE then
            (case reply of
               Reply_integer n \<Rightarrow>
                 if n < 0 \<or> n > 1
                 then (completion_fail SE_OUTCOME_UNKNOWN ''Redis DELETE returned an unexpected reply'' c, False)
                 else (c\<lparr>cp_affected_count := nat n\<rparr>, True)
             | _ \<Rightarrow> (completion_fail SE_OUTCOME_UNKNOWN ''Redis DELETE returned an unexpected reply'' c, False))
          else if is_ok reply then (c\<lparr>cp_affected_count := 1\<rparr>, True)
          else (completion_fail SE_OUTCOME_UNKNOWN ''Redis SET returned an unexpected reply'' c, False))"

definition redis_execute ::
  "redis_options \<Rightarrow> redis_net \<Rightarrow> bool \<Rightarrow> redis_request \<Rightarrow> redis_completion \<times> bool" where
  "redis_execute opts net open_socket rq =
     (let c = rr_completion rq; write = (cp_operation c \<noteq> SE_REDIS_GET) in
      if net_cancelled net 0
      then (completion_fail SE_STOPPED ''Redis request cancelled before execution'' c, open_socket)
      else
        (case redis_prepare opts net open_socket of
           Inl (st, message) \<Rightarrow> (completion_fail st message c, False)
         | Inr _ \<Rightarrow>
             if net_cancelled net 1
             then (completion_fail SE_STOPPED ''Redis request cancelled before execution'' c, True)
             else
               (case net_command net 1 (redis_arguments rq) (ro_max_value_bytes opts + 4096) of
                  Threw \<Rightarrow>
                    (if write
                     then completion_fail SE_OUTCOME_UNKNOWN ''Redis write outcome unknown after a local failure'' c
                     else completion_fail SE_INTERNAL_ERROR ''Redis client failed locally'' c, False)
                | Failed st closed \<Rightarrow>
                    (if write
                     then completion_fail SE_OUTCOME_UNKNOWN ''Redis write outcome unknown; reconcile before retrying'' c
                     else completion_fail st ''Redis read failed, exceeded its limit, timed out or was cancelled'' c,
                     \<not> closed)
                | Replied reply \<Rightarrow> redis_interpret opts reply c)))"

lemma completion_fail_frame [simp]:
  "cp_request_id (completion_fail st m c) = cp_request_id c" "cp_operation (completion_fail st m c) = cp_operation c"
  "cp_status (completion_fail st m c) = st" "cp_value (completion_fail st m c) = []"
  by (simp_all add: completion_fail_def)

lemma redis_interpret_frame:
  "cp_request_id (fst (redis_interpret opts reply c)) = cp_request_id c"
  "length (cp_value c) \<le> ro_max_value_bytes opts \<Longrightarrow> length (cp_value (fst (redis_interpret opts reply c))) \<le> ro_max_value_bytes opts"
  by (auto simp: redis_interpret_def split: redis_reply.splits)

lemma redis_execute_frame:
  "cp_request_id (fst (redis_execute opts net open_socket rq)) = cp_request_id (rr_completion rq)"
  "cp_value (rr_completion rq) = [] \<Longrightarrow>
     length (cp_value (fst (redis_execute opts net open_socket rq))) \<le> ro_max_value_bytes opts"
  using redis_interpret_frame [where opts = opts and c = "rr_completion rq"]
  by (auto simp: redis_execute_def Let_def split: sum.split command_outcome.split)

lemma redis_interpret_write:
  assumes "cp_operation c \<noteq> SE_REDIS_GET" "cp_status c = SE_OK" "\<And>m. reply \<noteq> Reply_error m"
  shows "cp_status (fst (redis_interpret opts reply c)) \<in> {SE_OK, SE_OUTCOME_UNKNOWN}"
  using assms by (cases reply) (auto simp: redis_interpret_def)

text \<open>
  C31. A write is never reported as safe to retry once it may have been sent: the completion of a
  SET or DELETE is success or \<^verbatim>\<open>SE_OUTCOME_UNKNOWN\<close>, or the server itself rejected the command, or the
  command was never issued (the outcome is the same whatever the command would have done).
\<close>

theorem redis_write_outcome:
  assumes "cp_operation (rr_completion rq) \<noteq> SE_REDIS_GET" and "cp_status (rr_completion rq) = SE_OK"
    and "redis_execute opts net open_socket rq = (c, open')"
  shows "cp_status c \<in> {SE_OK, SE_OUTCOME_UNKNOWN}
    \<or> (\<exists>m. net_command net 1 (redis_arguments rq) (ro_max_value_bytes opts + 4096) = Replied (Reply_error m))
    \<or> (\<forall>f. redis_execute opts (net\<lparr>net_command := (net_command net)(1 := f)\<rparr>) open_socket rq = (c, open'))"
proof -
  have prep: "redis_prepare opts (net\<lparr>net_command := (net_command net)(1 := f)\<rparr>) open_socket =
      redis_prepare opts net open_socket" for f
    by (cases "net_connect net") (simp_all add: redis_prepare_def)
  consider (unsent) "net_cancelled net 0 \<or> isl (redis_prepare opts net open_socket) \<or> net_cancelled net 1"
    | (sent) u where "\<not> net_cancelled net 0" "redis_prepare opts net open_socket = Inr u" "\<not> net_cancelled net 1"
    by (cases "redis_prepare opts net open_socket") auto
  then show ?thesis
  proof cases
    case unsent
    then have "redis_execute opts (net\<lparr>net_command := (net_command net)(1 := f)\<rparr>) open_socket rq = (c, open')" for f
      using assms(3) by (auto simp: redis_execute_def prep [unfolded One_nat_def] Let_def split: sum.splits)
    then show ?thesis by blast
  next
    case sent
    have "cp_status (fst (redis_execute opts net open_socket rq)) \<in> {SE_OK, SE_OUTCOME_UNKNOWN}
        \<or> (\<exists>m. net_command net 1 (redis_arguments rq) (ro_max_value_bytes opts + 4096) = Replied (Reply_error m))"
    proof (cases "net_command net 1 (redis_arguments rq) (ro_max_value_bytes opts + 4096)")
      case (Replied reply)
      then show ?thesis
        using sent redis_interpret_write [OF assms(1,2), of reply opts]
        by (cases "\<exists>m. reply = Reply_error m") (auto simp: redis_execute_def Let_def)
    qed (use sent assms(1) in \<open>simp_all add: redis_execute_def Let_def\<close>)
    then show ?thesis
      using assms(3) by auto
  qed
qed

theorem redis_write_outcome_witness:
  "let rq = \<lparr>rr_key = [1], rr_value = [], rr_ttl_ms = 0, rr_result_reservation = 0,
             rr_completion = \<lparr>cp_request_id = 7, cp_operation = SE_REDIS_DELETE, cp_status = SE_OK, cp_found = False,
               cp_affected_count = 0, cp_value = [], cp_message = []\<rparr>\<rparr>;
       opts = \<lparr>ro_address = ''h'', ro_username = [], ro_password = [], ro_port = 6379, ro_connect_timeout_ms = 1,
             ro_command_timeout_ms = 1, ro_max_inflight_requests = 1, ro_max_key_bytes = 1, ro_max_value_bytes = 1,
             ro_max_queue_bytes = 1, ro_max_result_bytes = 1\<rparr>;
       net = \<lparr>net_cancelled = (\<lambda>_. False), net_connect = Some SE_OK, net_command = (\<lambda>_ _ _. Failed SE_TIMEOUT True)\<rparr>
   in cp_status (fst (redis_execute opts net False rq)) = SE_OUTCOME_UNKNOWN
     \<and> cp_operation (rr_completion rq) \<noteq> SE_REDIS_GET
     \<and> cp_status (fst (redis_execute opts net False rq)) \<in> {SE_OK, SE_OUTCOME_UNKNOWN}"
proof -
  define rq where "rq = \<lparr>rr_key = [1], rr_value = [], rr_ttl_ms = 0, rr_result_reservation = 0,
             rr_completion = \<lparr>cp_request_id = 7, cp_operation = SE_REDIS_DELETE, cp_status = SE_OK, cp_found = False,
               cp_affected_count = 0, cp_value = [], cp_message = []\<rparr>\<rparr>"
  define opts where "opts = \<lparr>ro_address = ''h'', ro_username = [], ro_password = [], ro_port = 6379, ro_connect_timeout_ms = 1,
             ro_command_timeout_ms = 1, ro_max_inflight_requests = 1, ro_max_key_bytes = 1, ro_max_value_bytes = 1,
             ro_max_queue_bytes = 1, ro_max_result_bytes = 1\<rparr>"
  define net where "net = \<lparr>net_cancelled = (\<lambda>_. False), net_connect = Some SE_OK,
             net_command = (\<lambda>_ _ _. Failed SE_TIMEOUT True)\<rparr>"
  have run: "cp_status (fst (redis_execute opts net False rq)) = SE_OUTCOME_UNKNOWN"
    by (simp add: redis_execute_def redis_prepare_def rq_def opts_def net_def redis_operations Let_def)
  have "cp_status (fst (redis_execute opts net False rq)) \<in> {SE_OK, SE_OUTCOME_UNKNOWN}"
    using run redis_write_outcome [of rq opts net False "fst (redis_execute opts net False rq)"
        "snd (redis_execute opts net False rq)"]
    by (simp add: rq_def redis_operations)
  then show ?thesis
    unfolding rq_def [symmetric] opts_def [symmetric] net_def [symmetric] Let_def
    using run by (simp add: rq_def redis_operations)
qed

end
