(* ===== verification/Redis_Service.thy ===== *)
theory Redis_Service
  imports Redis_Connection Interfaces
begin

text \<open>
  \<^verbatim>\<open>data::redis::Service\<close> (src/src/Data/Redis/Service.cpp): requests wait in \<^verbatim>\<open>pending_\<close>, the one
  being executed is in the worker's list \<^verbatim>\<open>running\<close>, outcomes wait in \<^verbatim>\<open>ready_\<close>. Each critical
  section under \<^verbatim>\<open>mutex_\<close> is one operation; the execution of a request touches nothing but the
  request and the connection, so it is part of the step that publishes it. A pointer to bytes is the
  memory that starts there, or \<open>None\<close>.
\<close>

section \<open>State and operations\<close>

record redis_service =
  rv_options :: redis_options
  rv_open :: bool
  rv_pending :: "redis_request list"
  rv_running :: "redis_request list"
  rv_ready :: "redis_request list"
  rv_next_id :: u64
  rv_queue_bytes :: nat
  rv_reserved_result_bytes :: nat
  rv_inflight :: nat
  rv_stopping :: bool
  rv_stopped :: bool

definition RedisService_new :: "redis_options \<Rightarrow> redis_service" where
  "RedisService_new opts = \<lparr>rv_options = opts, rv_open = False, rv_pending = [], rv_running = [], rv_ready = [],
     rv_next_id = 1, rv_queue_bytes = 0, rv_reserved_result_bytes = 0, rv_inflight = 0,
     rv_stopping = False, rv_stopped = False\<rparr>"

type_synonym memory = "nat \<Rightarrow> u8"

definition read_memory :: "memory option \<Rightarrow> nat \<Rightarrow> bytes" where
  "read_memory p n = (case p of None \<Rightarrow> [] | Some mem \<Rightarrow> map mem [0..<n])"

definition redis_submit_valid :: "redis_options \<Rightarrow> memory option \<Rightarrow> nat \<Rightarrow> memory option \<Rightarrow> nat \<Rightarrow> nat \<Rightarrow> bool" where
  "redis_submit_valid opts key key_size value value_size ttl_ms \<longleftrightarrow>
     \<not> (key = None \<or> key_size = 0 \<or> key_size > ro_max_key_bytes opts
        \<or> value = None \<and> value_size \<noteq> 0 \<or> value_size > ro_max_value_bytes opts
        \<or> ttl_ms > 9223372036854775807)"

definition redis_request_new ::
  "nat \<Rightarrow> bytes \<Rightarrow> bytes \<Rightarrow> nat \<Rightarrow> nat \<Rightarrow> u64 \<Rightarrow> redis_request" where
  "redis_request_new operation key value ttl_ms reservation request_id =
     \<lparr>rr_key = key, rr_value = value, rr_ttl_ms = ttl_ms, rr_result_reservation = reservation,
      rr_completion = \<lparr>cp_request_id = request_id, cp_operation = operation, cp_status = SE_OK,
        cp_found = False, cp_affected_count = 0, cp_value = [], cp_message = []\<rparr>\<rparr>"

definition redis_submit ::
  "nat \<Rightarrow> memory option \<Rightarrow> nat \<Rightarrow> memory option \<Rightarrow> nat \<Rightarrow> nat \<Rightarrow> redis_service \<Rightarrow> redis_service \<times> se_status \<times> u64" where
  "redis_submit operation key key_size value value_size ttl_ms s =
     (if \<not> redis_submit_valid (rv_options s) key key_size value value_size ttl_ms then (s, SE_INVALID_ARGUMENT, 0)
      else if rv_stopping s then (s, SE_STOPPED, 0)
      else
        (let size = add64 key_size value_size;
             reservation = (if operation = SE_REDIS_GET then ro_max_value_bytes (rv_options s) else 0) in
         if rv_inflight s \<ge> ro_max_inflight_requests (rv_options s)
           \<or> size > sub64 (ro_max_queue_bytes (rv_options s)) (rv_queue_bytes s)
           \<or> reservation > sub64 (ro_max_result_bytes (rv_options s)) (rv_reserved_result_bytes s)
         then (s, SE_BACKPRESSURE, 0)
         else if rv_next_id s = 0 then (s, SE_INVALID_STATE, 0)
         else
           (s\<lparr>rv_pending := rv_pending s @ [redis_request_new operation (read_memory key key_size)
                 (read_memory value value_size) ttl_ms reservation (rv_next_id s)],
              rv_next_id := rv_next_id s + 1,
              rv_queue_bytes := add64 (rv_queue_bytes s) size,
              rv_reserved_result_bytes := add64 (rv_reserved_result_bytes s) reservation,
              rv_inflight := (rv_inflight s + 1) mod W32\<rparr>,
            SE_OK, rv_next_id s)))"

definition request_bytes :: "redis_request \<Rightarrow> nat" where
  "request_bytes rq = length (rr_key rq) + length (rr_value rq)"

definition drop_payload :: "redis_request \<Rightarrow> redis_request" where
  "drop_payload rq = rq\<lparr>rr_key := [], rr_value := []\<rparr>"

text \<open>The worker refuses everything that still waits once stop was asked for.\<close>

definition refuse_pending :: "redis_request \<Rightarrow> redis_request" where
  "refuse_pending rq =
     drop_payload (rq\<lparr>rr_completion :=
       completion_fail SE_STOPPED ''Redis request cancelled before execution'' (rr_completion rq)\<rparr>)"

definition redis_begin :: "redis_service \<Rightarrow> redis_service" where
  "redis_begin s =
     (if rv_stopping s then
        s\<lparr>rv_queue_bytes := fold (\<lambda>rq used. sub64 used (request_bytes rq)) (rv_pending s) (rv_queue_bytes s),
          rv_ready := rv_ready s @ map refuse_pending (rv_pending s),
          rv_pending := [], rv_stopped := True\<rparr>
      else
        (case rv_pending s of
           [] \<Rightarrow> s
         | rq # rest \<Rightarrow> s\<lparr>rv_running := [rq], rv_pending := rest\<rparr>))"

definition redis_finish :: "redis_net \<Rightarrow> redis_request \<Rightarrow> redis_service \<Rightarrow> redis_service" where
  "redis_finish net rq s =
     (let (completion, open_socket) = redis_execute (rv_options s) net (rv_open s) rq in
      s\<lparr>rv_open := open_socket,
        rv_queue_bytes := sub64 (rv_queue_bytes s) (request_bytes rq),
        rv_ready := rv_ready s @ [drop_payload (rq\<lparr>rr_completion := completion\<rparr>)],
        rv_running := []\<rparr>)"

definition redis_worker :: "redis_net \<Rightarrow> redis_service \<Rightarrow> redis_service" where
  "redis_worker net s =
     (if rv_stopped s then s
      else (case rv_running s of [] \<Rightarrow> redis_begin s | rq # _ \<Rightarrow> redis_finish net rq s))"

record redis_output =
  ru_request_id :: u64
  ru_operation :: nat
  ru_status :: se_status
  ru_found :: bool
  ru_value_size :: u32
  ru_affected_count :: nat
  ru_message :: string

definition completion_output :: "redis_completion \<Rightarrow> redis_output" where
  "completion_output c = \<lparr>ru_request_id = cp_request_id c, ru_operation = cp_operation c, ru_status = cp_status c,
     ru_found = cp_found c, ru_value_size = of_nat (length (cp_value c)),
     ru_affected_count = cp_affected_count c, ru_message = cp_message c\<rparr>"

text \<open>The wait of \<^verbatim>\<open>poll\<close> ends in this state; the output and the bytes written to the caller's buffer.\<close>

definition redis_poll :: "nat \<Rightarrow> redis_service \<Rightarrow> redis_service \<times> se_status \<times> (redis_output \<times> bytes) option" where
  "redis_poll capacity s =
     (case rv_ready s of
        [] \<Rightarrow> (s, if rv_stopped s then SE_STOPPED else SE_TIMEOUT, None)
      | rq # rest \<Rightarrow>
          (let c = rr_completion rq in
           if length (cp_value c) > capacity then (s, SE_BUFFER_TOO_SMALL, Some (completion_output c, []))
           else
             (s\<lparr>rv_reserved_result_bytes := sub64 (rv_reserved_result_bytes s) (rr_result_reservation rq),
                rv_inflight := (rv_inflight s + (W32 - 1)) mod W32,
                rv_ready := rest\<rparr>,
              SE_OK, Some (completion_output c, cp_value c))))"

definition redis_stop :: "redis_service \<Rightarrow> redis_service" where
  "redis_stop s = s\<lparr>rv_stopping := True\<rparr>"

section \<open>Invariant\<close>

definition held :: "redis_service \<Rightarrow> redis_request list" where
  "held s = rv_ready s @ rv_running s @ rv_pending s"

definition request_id :: "redis_request \<Rightarrow> u64" where
  "request_id rq = cp_request_id (rr_completion rq)"

definition redis_queue :: "redis_service \<Rightarrow> u64 list" where
  "redis_queue s = map request_id (held s)"

definition redis_horizon :: "redis_service \<Rightarrow> nat" where
  "redis_horizon s = (if rv_next_id s = 0 then W64 else unat (rv_next_id s))"

definition redis_options_ok :: "redis_options \<Rightarrow> bool" where
  "redis_options_ok opts \<longleftrightarrow>
     0 < ro_max_inflight_requests opts \<and> ro_max_inflight_requests opts < W32
     \<and> ro_max_key_bytes opts + ro_max_value_bytes opts \<le> ro_max_queue_bytes opts \<and> ro_max_queue_bytes opts < W64
     \<and> ro_max_value_bytes opts \<le> ro_max_result_bytes opts \<and> ro_max_result_bytes opts < W64"

text \<open>A held request: what it has reserved covers its value, which only an executed one has.\<close>

definition waiting_ok :: "redis_options \<Rightarrow> redis_request \<Rightarrow> bool" where
  "waiting_ok opts rq \<longleftrightarrow> cp_value (rr_completion rq) = []
     \<and> rr_result_reservation rq =
       (if cp_operation (rr_completion rq) = SE_REDIS_GET then ro_max_value_bytes opts else 0)"

definition ready_ok :: "redis_options \<Rightarrow> redis_request \<Rightarrow> bool" where
  "ready_ok opts rq \<longleftrightarrow> length (cp_value (rr_completion rq)) \<le> rr_result_reservation rq
     \<and> rr_result_reservation rq \<le> ro_max_value_bytes opts \<and> request_bytes rq = 0"

definition redis_inv :: "redis_service \<Rightarrow> bool" where
  "redis_inv s \<longleftrightarrow> redis_options_ok (rv_options s)
     \<and> rv_queue_bytes s = sum_list (map request_bytes (rv_running s @ rv_pending s))
     \<and> rv_queue_bytes s \<le> ro_max_queue_bytes (rv_options s)
     \<and> rv_reserved_result_bytes s = sum_list (map rr_result_reservation (held s))
     \<and> rv_reserved_result_bytes s \<le> ro_max_result_bytes (rv_options s)
     \<and> rv_inflight s = length (held s) \<and> rv_inflight s \<le> ro_max_inflight_requests (rv_options s)
     \<and> length (rv_running s) \<le> 1
     \<and> list_all (waiting_ok (rv_options s)) (rv_running s @ rv_pending s) \<and> list_all (ready_ok (rv_options s)) (rv_ready s)
     \<and> sorted_wrt (<) (map unat (redis_queue s)) \<and> list_all (\<lambda>i. unat i < redis_horizon s) (redis_queue s)
     \<and> (rv_stopped s \<longrightarrow> rv_stopping s \<and> rv_pending s = [] \<and> rv_running s = [])"

lemmas redis_inv_defs = redis_inv_def held_def redis_queue_def redis_horizon_def

lemma redis_inv_new: "redis_options_ok opts \<Longrightarrow> redis_inv (RedisService_new opts)"
  by (simp add: redis_inv_defs RedisService_new_def)

lemma request_new_simps [simp]:
  "request_id (redis_request_new op k v ttl res i) = i"
  "rr_result_reservation (redis_request_new op k v ttl res i) = res"
  "request_bytes (redis_request_new op k v ttl res i) = length k + length v"
  "waiting_ok opts (redis_request_new op k v ttl res i) \<longleftrightarrow>
     res = (if op = SE_REDIS_GET then ro_max_value_bytes opts else 0)"
  by (simp_all add: request_id_def request_bytes_def waiting_ok_def redis_request_new_def)

lemma drop_payload_simps [simp]:
  "request_bytes (drop_payload rq) = 0" "rr_completion (drop_payload rq) = rr_completion rq"
  "rr_result_reservation (drop_payload rq) = rr_result_reservation rq"
  by (simp_all add: drop_payload_def request_bytes_def)

lemma refuse_pending_simps [simp]:
  "request_bytes (refuse_pending rq) = 0" "request_id (refuse_pending rq) = request_id rq"
  "rr_result_reservation (refuse_pending rq) = rr_result_reservation rq" "waiting_ok opts rq \<Longrightarrow> ready_ok opts (refuse_pending rq)"
  by (simp_all add: refuse_pending_def request_id_def ready_ok_def waiting_ok_def)

text \<open>An accepted request, in one place.\<close>

lemma redis_submit_accepted:
  assumes "redis_inv s" "key_size < W32" "value_size < W32"
    "redis_submit operation key key_size value value_size ttl s = (t, SE_OK, i)"
  obtains rq where "i = rv_next_id s" "i \<noteq> 0" "\<not> rv_stopping s" "request_id rq = i" "waiting_ok (rv_options s) rq"
    "rv_inflight s < ro_max_inflight_requests (rv_options s)"
    "rv_queue_bytes s + request_bytes rq \<le> ro_max_queue_bytes (rv_options s)"
    "rv_reserved_result_bytes s + rr_result_reservation rq \<le> ro_max_result_bytes (rv_options s)"
    "t = s\<lparr>rv_pending := rv_pending s @ [rq], rv_next_id := i + 1,
           rv_queue_bytes := rv_queue_bytes s + request_bytes rq,
           rv_reserved_result_bytes := rv_reserved_result_bytes s + rr_result_reservation rq,
           rv_inflight := rv_inflight s + 1\<rparr>"
proof -
  let ?res = "if operation = SE_REDIS_GET then ro_max_value_bytes (rv_options s) else 0"
  let ?rq = "redis_request_new operation (read_memory key key_size) (read_memory value value_size) ttl ?res (rv_next_id s)"
  have sub: "redis_submit_valid (rv_options s) key key_size value value_size ttl" "\<not> rv_stopping s"
      "rv_inflight s < ro_max_inflight_requests (rv_options s)"
      "\<not> add64 key_size value_size > sub64 (ro_max_queue_bytes (rv_options s)) (rv_queue_bytes s)"
      "\<not> ?res > sub64 (ro_max_result_bytes (rv_options s)) (rv_reserved_result_bytes s)"
      "rv_next_id s \<noteq> 0" "i = rv_next_id s"
      and t: "t = s\<lparr>rv_pending := rv_pending s @ [?rq], rv_next_id := rv_next_id s + 1,
              rv_queue_bytes := add64 (rv_queue_bytes s) (add64 key_size value_size),
              rv_reserved_result_bytes := add64 (rv_reserved_result_bytes s) ?res,
              rv_inflight := (rv_inflight s + 1) mod W32\<rparr>"
    using assms(4) by (auto simp: redis_submit_def Let_def split: if_splits)
  have b: "rv_queue_bytes s \<le> ro_max_queue_bytes (rv_options s)" "ro_max_queue_bytes (rv_options s) < W64"
      "rv_reserved_result_bytes s \<le> ro_max_result_bytes (rv_options s)" "ro_max_result_bytes (rv_options s) < W64"
      "ro_max_inflight_requests (rv_options s) < W32"
    using assms(1) by (auto simp: redis_inv_def redis_options_ok_def)
  have size: "add64 key_size value_size = key_size + value_size"
    using assms(2,3) by simp
  have bytes: "request_bytes ?rq = key_size + value_size"
    using sub(1) by (auto simp: redis_submit_valid_def read_memory_def split: option.splits)
  have fits: "rv_queue_bytes s + request_bytes ?rq \<le> ro_max_queue_bytes (rv_options s)"
      "rv_reserved_result_bytes s + ?res \<le> ro_max_result_bytes (rv_options s)"
    using sub(4,5) size bytes sub64_fits_iff [OF b(1,2)] sub64_fits_iff [OF b(3,4)] by simp_all
  show thesis
  proof (rule that [of ?rq])
    show "t = s\<lparr>rv_pending := rv_pending s @ [?rq], rv_next_id := i + 1,
           rv_queue_bytes := rv_queue_bytes s + request_bytes ?rq,
           rv_reserved_result_bytes := rv_reserved_result_bytes s + rr_result_reservation ?rq,
           rv_inflight := rv_inflight s + 1\<rparr>"
      using t sub(3,7) fits b size bytes by simp
  qed (use sub fits in simp_all)
qed

lemma redis_horizon_inc: "rv_next_id s \<noteq> 0 \<Longrightarrow>
    redis_horizon (s\<lparr>rv_next_id := rv_next_id s + 1\<rparr>) = Suc (unat (rv_next_id s))"
proof (cases "rv_next_id s = - 1")
  case True
  then show ?thesis by (simp add: redis_horizon_def unsigned_minus_1_eq_mask mask_eq_exp_minus_1)
next
  case False
  then have nz: "rv_next_id s + 1 \<noteq> 0"
    by (metis eq_neg_iff_add_eq_0)
  moreover have "unat (rv_next_id s + 1) = Suc (unat (rv_next_id s))"
    using unatSuc [of "rv_next_id s"] nz by (metis add.commute)
  ultimately show ?thesis unfolding redis_horizon_def by simp
qed

lemma redis_submit_queue:
  assumes "redis_inv s" "key_size < W32" "value_size < W32"
    "redis_submit operation key key_size value value_size ttl s = (t, SE_OK, i)"
  shows "redis_inv t" "redis_queue t = redis_queue s @ [i]" "redis_horizon s = unat i" "redis_horizon t = Suc (unat i)"
proof -
  obtain rq where rq: "i = rv_next_id s" "i \<noteq> 0" "\<not> rv_stopping s" "request_id rq = i" "waiting_ok (rv_options s) rq"
      "rv_inflight s < ro_max_inflight_requests (rv_options s)"
      "rv_queue_bytes s + request_bytes rq \<le> ro_max_queue_bytes (rv_options s)"
      "rv_reserved_result_bytes s + rr_result_reservation rq \<le> ro_max_result_bytes (rv_options s)"
    and t: "t = s\<lparr>rv_pending := rv_pending s @ [rq], rv_next_id := i + 1,
           rv_queue_bytes := rv_queue_bytes s + request_bytes rq,
           rv_reserved_result_bytes := rv_reserved_result_bytes s + rr_result_reservation rq,
           rv_inflight := rv_inflight s + 1\<rparr>"
    by (rule redis_submit_accepted [OF assms])
  show q: "redis_queue t = redis_queue s @ [i]"
    using rq(4) by (simp add: t redis_queue_def held_def)
  show h: "redis_horizon s = unat i" "redis_horizon t = Suc (unat i)"
    using redis_horizon_inc [of s] rq(1,2) by (simp_all add: t redis_horizon_def split: if_splits)
  have below: "\<forall>j \<in> set (redis_queue s). unat j < unat i"
    using assms(1) h(1) by (simp add: redis_inv_def list_all_iff)
  have "list_all (\<lambda>j. unat j < redis_horizon t) (redis_queue t)" "sorted_wrt (<) (map unat (redis_queue t))"
    using below assms(1) by (auto simp: q h(2) list_all_iff sorted_wrt_append redis_inv_def)
  then show "redis_inv t"
    using assms(1) rq unfolding redis_inv_def by (simp add: t held_def)
qed

lemma redis_submit_refused: "redis_submit op k ks v vs ttl s = (t, st, i) \<Longrightarrow> st \<noteq> SE_OK \<Longrightarrow> t = s \<and> i = 0"
  by (auto simp: redis_submit_def Let_def split: if_splits)

lemma fold_sub64: "sum_list (map f xs) \<le> n \<Longrightarrow> n < W64 \<Longrightarrow>
    fold (\<lambda>x used. sub64 used (f x)) xs n = n - sum_list (map f xs)"
  by (induction xs arbitrary: n) auto

lemma redis_begin_queue: "rv_running s = [] \<Longrightarrow> redis_queue (redis_begin s) = redis_queue s"
  by (simp add: redis_queue_def held_def redis_begin_def comp_def split: list.split)

lemma redis_begin_inv:
  assumes "redis_inv s" "rv_running s = []"
  shows "redis_inv (redis_begin s)"
proof -
  have h: "redis_horizon (redis_begin s) = redis_horizon s"
    by (simp add: redis_begin_def redis_horizon_def split: list.split)
  note q = redis_begin_queue [OF assms(2)]
  have w: "fold (\<lambda>rq used. sub64 used (request_bytes rq)) (rv_pending s) (rv_queue_bytes s) = 0"
    using assms fold_sub64 [of request_bytes "rv_pending s" "rv_queue_bytes s"]
    by (simp add: redis_inv_def redis_options_ok_def)
  have r: "list_all (ready_ok (rv_options s)) (map refuse_pending (rv_pending s))"
    using assms(1) by (auto simp: redis_inv_def list_all_iff)
  show ?thesis
    using assms w r unfolding redis_inv_def q h
    by (auto simp: redis_begin_def held_def comp_def split: list.split)
qed

lemma redis_finish_queue:
  "rv_running s = [rq] \<Longrightarrow> redis_queue (redis_finish net rq s) = redis_queue s"
  by (simp add: redis_queue_def held_def redis_finish_def request_id_def redis_execute_frame(1) case_prod_beta)

text \<open>A value is only produced by a read.\<close>

lemma redis_execute_value:
  assumes "waiting_ok opts rq"
  shows "length (cp_value (fst (redis_execute opts net sock rq))) \<le> rr_result_reservation rq"
proof (cases "cp_operation (rr_completion rq) = SE_REDIS_GET")
  case True
  then show ?thesis
    using redis_execute_frame(2) [of rq opts net sock] assms by (simp add: waiting_ok_def)
next
  case False
  then have "cp_value (fst (redis_interpret opts reply (rr_completion rq))) = []" for reply
    using assms by (cases reply) (auto simp: redis_interpret_def waiting_ok_def)
  then show ?thesis
    by (auto simp: redis_execute_def Let_def split: sum.split command_outcome.split)
qed

lemma redis_finish_inv:
  assumes "redis_inv s" "rv_running s = [rq]"
  shows "redis_inv (redis_finish net rq s)"
proof -
  have h: "redis_horizon (redis_finish net rq s) = redis_horizon s"
    by (simp add: redis_finish_def redis_horizon_def case_prod_beta)
  note q = redis_finish_queue [OF assms(2), of net]
  have "waiting_ok (rv_options s) rq"
    using assms by (simp add: redis_inv_def)
  with redis_execute_value [OF this]
  have "ready_ok (rv_options s) (drop_payload (rq\<lparr>rr_completion := fst (redis_execute (rv_options s) net (rv_open s) rq)\<rparr>))"
    by (simp add: ready_ok_def waiting_ok_def)
  then show ?thesis
    using assms unfolding redis_inv_def q h
    by (auto simp: redis_finish_def held_def case_prod_beta redis_options_ok_def)
qed

lemma redis_worker_keeps:
  assumes "redis_inv s"
  shows "redis_inv (redis_worker net s) \<and> redis_queue (redis_worker net s) = redis_queue s
    \<and> redis_horizon (redis_worker net s) = redis_horizon s \<and> rv_stopping (redis_worker net s) = rv_stopping s
    \<and> rv_options (redis_worker net s) = rv_options s"
proof (cases "rv_running s")
  case Nil
  then show ?thesis
    using assms redis_begin_inv redis_begin_queue
    by (auto simp: redis_worker_def redis_begin_def redis_horizon_def split: list.splits)
next
  case (Cons rq rest)
  then have "rv_running s = [rq]" using assms by (simp add: redis_inv_def)
  then show ?thesis
    using assms redis_finish_inv redis_finish_queue
    by (auto simp: redis_worker_def redis_finish_def redis_horizon_def case_prod_beta)
qed

lemma redis_poll_keeps:
  assumes "redis_inv s"
  shows "redis_inv (fst (redis_poll capacity s))"
    and "redis_poll capacity s = (t, SE_OK, Some (out, v)) \<Longrightarrow> redis_queue s = ru_request_id out # redis_queue t"
    and "redis_poll capacity s = (t, st, r) \<Longrightarrow> st \<noteq> SE_OK \<Longrightarrow> t = s"
    and "redis_horizon (fst (redis_poll capacity s)) = redis_horizon s"
    and "rv_options (fst (redis_poll capacity s)) = rv_options s"
proof -
  show "redis_inv (fst (redis_poll capacity s))"
  proof (cases "rv_ready s")
    case (Cons rq rest)
    have "rv_inflight s < W32" "0 < rv_inflight s"
      using assms Cons by (auto simp: redis_inv_def redis_options_ok_def held_def)
    then have dec: "(rv_inflight s + (W32 - 1)) mod W32 = rv_inflight s - 1"
      by (simp add: mod_if)
    then show ?thesis
      using assms Cons
      by (auto simp: redis_poll_def redis_inv_defs Let_def redis_options_ok_def)
  qed (use assms in \<open>simp add: redis_poll_def\<close>)
qed (auto simp: redis_poll_def redis_queue_def held_def redis_horizon_def completion_output_def request_id_def Let_def
    split: list.splits if_splits)

lemma redis_stop_keeps:
  "redis_inv s \<Longrightarrow> redis_inv (redis_stop s)" "redis_queue (redis_stop s) = redis_queue s"
  "redis_horizon (redis_stop s) = redis_horizon s" "rv_stopping (redis_stop s)" "rv_options (redis_stop s) = rv_options s"
  by (auto simp: redis_stop_def redis_inv_defs)

section \<open>Runs of the service\<close>

inductive redis_act :: "redis_service \<Rightarrow> flow \<Rightarrow> redis_service \<Rightarrow> bool" where
  accept: "redis_submit op k ks v vs ttl s = (t, SE_OK, i) \<Longrightarrow> ks < W32 \<Longrightarrow> vs < W32 \<Longrightarrow> redis_act s (Accepted i) t"
| refuse: "redis_submit op k ks v vs ttl s = (t, st, i) \<Longrightarrow> st \<noteq> SE_OK \<Longrightarrow> redis_act s Silent t"
| deliver: "redis_poll capacity s = (t, SE_OK, Some (out, bs)) \<Longrightarrow> redis_act s (Delivers (ru_request_id out)) t"
| nothing: "redis_poll capacity s = (t, st, r) \<Longrightarrow> st \<noteq> SE_OK \<Longrightarrow> redis_act s Silent t"
| work: "redis_act s Silent (redis_worker net s)"
| stop: "redis_act s Silent (redis_stop s)"

inductive_cases redis_act_acceptE: "redis_act s (Accepted i) t"
inductive_cases redis_act_deliverE: "redis_act s (Delivers i) t"
inductive_cases redis_act_silentE: "redis_act s Silent t"

lemma redis_act_keeps:
  "redis_act s e t \<Longrightarrow> redis_inv s \<Longrightarrow> redis_inv t \<and> redis_horizon s \<le> redis_horizon t \<and> rv_options t = rv_options s"
proof (induction rule: redis_act.induct)
  case (accept op k ks v vs ttl s t i)
  moreover have "rv_options t = rv_options s"
    using accept.hyps(1) by (auto simp: redis_submit_def Let_def split: if_splits)
  ultimately show ?case
    using redis_submit_queue [OF accept.prems accept.hyps(2,3,1)] by simp
next
  case (deliver capacity s t out bs)
  then show ?case
    using redis_poll_keeps(1,4,5) [OF deliver.prems, of capacity] by simp
qed (auto dest: redis_submit_refused redis_poll_keeps(3) simp: redis_worker_keeps redis_stop_keeps)

interpretation redis_source: fifo_source redis_act redis_queue redis_horizon redis_inv
proof (unfold_locales, goal_cases)
  case (1 s e t)
  then show ?case using redis_act_keeps [OF 1(2,1)] by blast
next
  case (2 s e t)
  then show ?case using redis_act_keeps [OF 2(2,1)] by blast
next
  case (3 s i t)
  from 3(2) show ?case
  proof (rule redis_act_acceptE)
    fix op k ks v vs ttl
    assume "redis_submit op k ks v vs ttl s = (t, SE_OK, i)" "ks < W32" "vs < W32"
    then show ?thesis using redis_submit_queue [OF 3(1)] by simp
  qed
next
  case (4 s i t)
  from 4(2) show ?case
  proof (rule redis_act_deliverE)
    fix capacity out bs
    assume "i = ru_request_id out" "redis_poll capacity s = (t, SE_OK, Some (out, bs))"
    then show ?thesis using redis_poll_keeps(2) [OF 4(1)] by blast
  qed
next
  case (5 s t)
  from 5(2) show ?case
  proof cases
    case (refuse op k ks v vs ttl st i)
    then show ?thesis using redis_submit_refused by blast
  next
    case (nothing capacity st r)
    then show ?thesis using redis_poll_keeps(3) [OF 5(1)] by blast
  qed (use 5(1) in \<open>simp_all add: redis_worker_keeps redis_stop_keeps\<close>)
next
  case (6 s)
  then have "distinct (map unat (redis_queue s))"
    by (simp add: redis_inv_def strict_sorted_iff)
  then show ?case by (simp add: distinct_map)
qed

section \<open>Properties\<close>

lemma redis_run_facts:
  assumes "redis_options_ok opts" "flow_run redis_act (RedisService_new opts) tr s"
  shows "redis_inv s" "rv_options s = opts" "accepted_ids tr = delivered_ids tr @ redis_queue s"
proof -
  note inv = redis_inv_new [OF assms(1)]
  show "redis_inv s" "accepted_ids tr = delivered_ids tr @ redis_queue s"
    using redis_source.fifo_flow [OF assms(2) inv] by (simp_all add: redis_queue_def held_def RedisService_new_def)
  have "rv_options s = rv_options r" if "flow_run redis_act r tr s" "redis_inv r" for r
    using that
    by (induction rule: flow_run.induct) (auto dest: redis_act_keeps redis_source.completes.flows_inv)
  from this [OF assms(2) inv] show "rv_options s = opts" by (simp add: RedisService_new_def)
qed

text \<open>Polling until there is nothing ready.\<close>

fun redis_drain :: "nat \<Rightarrow> nat \<Rightarrow> redis_service \<Rightarrow> u64 list \<times> redis_service" where
  "redis_drain capacity 0 s = ([], s)"
| "redis_drain capacity (Suc n) s =
     (case redis_poll capacity s of
        (t, SE_OK, Some (out, _)) \<Rightarrow> (let (ids, u) = redis_drain capacity n t in (ru_request_id out # ids, u))
      | (t, _, _) \<Rightarrow> ([], t))"

lemma redis_drain_spec:
  "list_all (\<lambda>rq. length (cp_value (rr_completion rq)) \<le> capacity) (rv_ready s) \<Longrightarrow> length (rv_ready s) \<le> n \<Longrightarrow>
     fst (redis_drain capacity n s) = map request_id (rv_ready s) \<and> rv_ready (snd (redis_drain capacity n s)) = []
     \<and> rv_stopped (snd (redis_drain capacity n s)) = rv_stopped s"
proof (induction n arbitrary: s)
  case (Suc n)
  show ?case
  proof (cases "rv_ready s")
    case (Cons rq rest)
    then show ?thesis
      using Suc.IH [of "fst (redis_poll capacity s)"] Suc.prems
      by (simp add: redis_poll_def Let_def case_prod_beta completion_output_def request_id_def)
  qed (simp add: redis_poll_def)
qed simp

lemma redis_stop_joins:
  assumes "redis_inv s"
  shows "rv_stopped (redis_worker net2 (redis_worker net1 (redis_stop s)))"
proof -
  let ?s = "redis_stop s"
  have inv: "redis_inv ?s" and stop: "rv_stopping ?s"
    using assms by (simp_all add: redis_stop_keeps)
  show ?thesis
  proof (cases "rv_running ?s")
    case Nil
    then show ?thesis
      using stop by (simp add: redis_worker_def redis_begin_def)
  next
    case (Cons rq rest)
    then show ?thesis
      using stop inv by (auto simp: redis_worker_def redis_begin_def redis_finish_def redis_inv_def case_prod_beta)
  qed
qed

text \<open>
  C14. The Redis service answers in the order of acceptance and loses nothing: in every run, whatever
  the server, the socket, the worker and the application do, the ids accepted so far are those
  delivered followed by those held, oldest first, and they increase strictly. After stop, two steps
  of the worker end it, and polling then hands out exactly the requests held, in order, before
  \<^verbatim>\<open>SE_STOPPED\<close>.
\<close>

theorem redis_answers_in_order:
  assumes "redis_options_ok opts" and "flow_run redis_act (RedisService_new opts) tr s"
    and "joined = redis_worker net2 (redis_worker net1 (redis_stop s))"
    and "redis_drain (ro_max_value_bytes opts) (ro_max_inflight_requests opts) joined = (ids, drained)"
  shows "accepted_ids tr = delivered_ids tr @ redis_queue s \<and> sorted_wrt (<) (map unat (accepted_ids tr))
    \<and> rv_stopped joined \<and> ids = redis_queue s
    \<and> fst (snd (redis_poll (ro_max_value_bytes opts) drained)) = SE_STOPPED"
proof -
  note run = redis_run_facts [OF assms(1,2)]
  have "sorted_wrt (<) (map unat (accepted_ids tr))"
    using redis_source.completes.flows_spec [OF assms(2) redis_inv_new [OF assms(1)]]
    by (simp add: redis_queue_def held_def RedisService_new_def)
  moreover have stopped: "rv_stopped joined"
    using redis_stop_joins [OF run(1)] assms(3) by simp
  moreover have j: "redis_inv joined" "redis_queue joined = redis_queue s" "rv_options joined = opts"
    using run(1,2) assms(3) by (simp_all add: redis_worker_keeps redis_stop_keeps)
  have ready: "redis_queue joined = map request_id (rv_ready joined)" "length (rv_ready joined) \<le> ro_max_inflight_requests opts"
    using j(1,3) stopped by (auto simp: redis_inv_def redis_queue_def held_def)
  have "list_all (\<lambda>rq. length (cp_value (rr_completion rq)) \<le> ro_max_value_bytes opts) (rv_ready joined)"
    using j by (auto simp: redis_inv_def list_all_iff ready_ok_def)
  from redis_drain_spec [OF this ready(2)]
  have "ids = redis_queue s" "rv_ready drained = []" "rv_stopped drained"
    using assms(4) stopped ready(1) j(2) by simp_all
  ultimately show ?thesis
    using run(3) by (simp add: redis_poll_def)
qed

text \<open>
  C34. The budgets of the Redis service hold at every moment: the counters of queued bytes, of reserved
  result bytes and of requests equal the bytes, the reservations and the number of the requests it
  holds, so a delivered result has given its reservation back, and all three stay within the options; the
  value of each request it holds fits its reservation, so the values never take more than
  \<^verbatim>\<open>max_result_bytes\<close>; a waiting read has the largest value reserved; and a poll with room for \<^verbatim>\<open>max_value_bytes\<close> is never refused for its size.
\<close>

theorem redis_budgets:
  assumes "redis_options_ok opts" and "flow_run redis_act (RedisService_new opts) tr s"
  shows "rv_queue_bytes s = sum_list (map request_bytes (held s)) \<and> rv_queue_bytes s \<le> ro_max_queue_bytes opts
    \<and> rv_reserved_result_bytes s = sum_list (map rr_result_reservation (held s))
    \<and> (\<forall>rq \<in> set (held s). length (cp_value (rr_completion rq)) \<le> rr_result_reservation rq
        \<and> rr_result_reservation rq \<le> ro_max_value_bytes opts)
    \<and> (\<forall>rq \<in> set (rv_running s @ rv_pending s). rr_result_reservation rq =
          (if cp_operation (rr_completion rq) = SE_REDIS_GET then ro_max_value_bytes opts else 0))
    \<and> sum_list (map (\<lambda>rq. length (cp_value (rr_completion rq))) (held s)) \<le> rv_reserved_result_bytes s
    \<and> rv_reserved_result_bytes s \<le> ro_max_result_bytes opts
    \<and> rv_inflight s = length (held s) \<and> rv_inflight s \<le> ro_max_inflight_requests opts
    \<and> fst (snd (redis_poll (ro_max_value_bytes opts) s)) \<noteq> SE_BUFFER_TOO_SMALL"
proof -
  note run = redis_run_facts [OF assms]
  have ready: "\<forall>rq \<in> set (rv_ready s). ready_ok opts rq"
    and waiting: "\<forall>rq \<in> set (rv_running s @ rv_pending s). waiting_ok opts rq"
    using run(1,2) by (auto simp: redis_inv_def list_all_iff)
  have "sum_list (map request_bytes (rv_ready s)) = 0"
    using ready by (simp add: ready_ok_def)
  moreover have "sum_list (map (\<lambda>rq. length (cp_value (rr_completion rq))) (held s)) \<le>
      sum_list (map rr_result_reservation (held s))"
    using ready waiting by (intro sum_list_mono) (auto simp: held_def ready_ok_def waiting_ok_def)
  moreover have "fst (snd (redis_poll (ro_max_value_bytes opts) s)) \<noteq> SE_BUFFER_TOO_SMALL"
    using ready by (auto simp: redis_poll_def ready_ok_def Let_def split: list.split)
  moreover have "\<forall>rq \<in> set (held s). length (cp_value (rr_completion rq)) \<le> rr_result_reservation rq
      \<and> rr_result_reservation rq \<le> ro_max_value_bytes opts"
    using ready waiting by (auto simp: held_def ready_ok_def waiting_ok_def)
  moreover have "\<forall>rq \<in> set (rv_running s @ rv_pending s). rr_result_reservation rq =
      (if cp_operation (rr_completion rq) = SE_REDIS_GET then ro_max_value_bytes opts else 0)"
    using waiting by (simp add: waiting_ok_def)
  ultimately show ?thesis
    using run(1,2) by (simp add: redis_inv_def held_def)
qed

section \<open>Witnesses\<close>

definition sample_redis_options :: redis_options where
  "sample_redis_options = \<lparr>ro_address = ''127.0.0.1'', ro_username = [], ro_password = [], ro_port = 6379,
     ro_connect_timeout_ms = 3000, ro_command_timeout_ms = 3000, ro_max_inflight_requests = 2,
     ro_max_key_bytes = 16, ro_max_value_bytes = 32, ro_max_queue_bytes = 64, ro_max_result_bytes = 64\<rparr>"

definition sample_redis_net :: redis_net where
  "sample_redis_net = \<lparr>net_cancelled = (\<lambda>_. False), net_connect = Some SE_OK,
     net_command = (\<lambda>_ _ _. Replied (Reply_string [104, 105]))\<rparr>"

definition sample_redis_run :: redis_service where
  "sample_redis_run = redis_worker sample_redis_net (redis_worker sample_redis_net
     (fst (redis_submit SE_REDIS_GET (Some (\<lambda>_. 107)) 1 None 0 0 (RedisService_new sample_redis_options))))"

lemma sample_redis_options_ok: "redis_options_ok sample_redis_options"
  by (simp add: redis_options_ok_def sample_redis_options_def)

lemma sample_redis_flow: "flow_run redis_act (RedisService_new sample_redis_options) [Accepted 1, Silent, Silent] sample_redis_run"
proof -
  let ?s = "RedisService_new sample_redis_options"
  let ?t = "fst (redis_submit SE_REDIS_GET (Some (\<lambda>_. 107)) 1 None 0 0 ?s)"
  have "redis_submit SE_REDIS_GET (Some (\<lambda>_. 107)) 1 None 0 0 ?s = (?t, SE_OK, 1)"
    by (simp add: redis_submit_def redis_submit_valid_def RedisService_new_def sample_redis_options_def)
  then have "redis_act ?s (Accepted 1) ?t"
    by (rule redis_act.accept) simp_all
  then have "flow_run redis_act ?s ([] @ [Accepted 1]) ?t"
    by (rule flow_run.more [OF flow_run.none])
  note two = flow_run.more [OF flow_run.more [OF this redis_act.work] redis_act.work]
  show ?thesis
    using two [of sample_redis_net sample_redis_net] by (simp add: sample_redis_run_def)
qed

theorem redis_answers_in_order_witness:
  "redis_queue sample_redis_run = [1]
   \<and> fst (redis_drain 32 2 (redis_worker sample_redis_net (redis_worker sample_redis_net (redis_stop sample_redis_run)))) = [1]"
proof -
  let ?j = "redis_worker sample_redis_net (redis_worker sample_redis_net (redis_stop sample_redis_run))"
  have n: "ro_max_value_bytes sample_redis_options = 32" "ro_max_inflight_requests sample_redis_options = 2"
    by (simp_all add: sample_redis_options_def)
  show ?thesis
    using redis_answers_in_order [OF sample_redis_options_ok sample_redis_flow refl, unfolded n,
        of sample_redis_net sample_redis_net "fst (redis_drain 32 2 ?j)" "snd (redis_drain 32 2 ?j)"]
    by (simp add: accepted_ids_def delivered_ids_def)
qed

theorem redis_budgets_witness:
  "fst (snd (redis_poll 32 sample_redis_run)) = SE_OK \<and> rv_inflight sample_redis_run = 1
   \<and> rv_inflight sample_redis_run \<le> 2 \<and> rv_reserved_result_bytes sample_redis_run = 32
   \<and> sum_list (map rr_result_reservation (held sample_redis_run)) = 32
   \<and> rv_reserved_result_bytes (fst (redis_poll 32 sample_redis_run)) = 0
   \<and> fst (snd (redis_poll 1 sample_redis_run)) = SE_BUFFER_TOO_SMALL"
proof -
  have "fst (snd (redis_poll 32 sample_redis_run)) = SE_OK \<and> rv_inflight sample_redis_run = 1
   \<and> rv_reserved_result_bytes sample_redis_run = 32
   \<and> rv_reserved_result_bytes (fst (redis_poll 32 sample_redis_run)) = 0
   \<and> fst (snd (redis_poll 1 sample_redis_run)) = SE_BUFFER_TOO_SMALL"
    by (simp add: sample_redis_run_def redis_submit_def redis_submit_valid_def RedisService_new_def sample_redis_options_def
        redis_worker_def redis_begin_def redis_finish_def redis_execute_def redis_prepare_def redis_interpret_def
        redis_request_new_def sample_redis_net_def redis_poll_def drop_payload_def Let_def)
  then show ?thesis
    using redis_budgets [OF sample_redis_options_ok sample_redis_flow] by (simp add: sample_redis_options_def)
qed

end
