(* ===== verification/Handle_Registry.thy ===== *)
theory Handle_Registry
  imports Abi_Status
begin

text \<open>
  The boundary of the C interface (src/src/Abi/Boundary.h) and the three registries of handles:
  servers (HandleRegistry.cpp), SQL services (Data/Sql/Registry.cpp) and Redis services (the
  registry of Abi/Redis.cpp). A handle is a number; the upper byte names the family of its service.
  What a call does with its registry is stated once, in the locale \<open>handle_issuer\<close>.
\<close>

unbundle bit_operations_syntax

section \<open>Boundary\<close>

record se_error =
  er_code :: int
  er_message :: string

definition abi_fail :: "se_error option \<Rightarrow> se_status \<Rightarrow> string \<Rightarrow> se_error option \<times> se_status" where
  "abi_fail error code message =
     (map_option (\<lambda>_. \<lparr>er_code = status_code code, er_message = bounded_message 252 message\<rparr>) error, code)"

text \<open>
  The body of an export either leaves by \<^verbatim>\<open>fail\<close> or by an exception (a left value) or returns a
  status with its outputs.
\<close>

type_synonym 'a abi_body = "(se_status \<times> 'a) outcome"

definition protect :: "se_error option \<Rightarrow> 'a abi_body \<Rightarrow> se_error option \<times> se_status" where
  "protect error body =
     (let cleared = map_option (\<lambda>_. \<lparr>er_code = 0, er_message = []\<rparr>) error in
      case body of Inl (code, message) \<Rightarrow> abi_fail cleared code message | Inr (code, _) \<Rightarrow> (cleared, code))"

lemma protect_error:
  "protect (Some e) body = (Some e', st) \<Longrightarrow>
     length (er_message e') < 252 \<and> (isl body \<longrightarrow> er_code e' = status_code st)"
  by (auto simp: protect_def abi_fail_def bounded_message_def Let_def split: sum.splits)

section \<open>Registries\<close>

record 'a handle_registry =
  hg_next :: u64
  hg_entries :: "(u64, 'a) umap"

definition HostRegistry_new :: "'a handle_registry" where
  "HostRegistry_new = \<lparr>hg_next = 1, hg_entries = []\<rparr>"

definition SqlRegistry_new :: "'a handle_registry" where
  "SqlRegistry_new = \<lparr>hg_next = 0x5300000000000001, hg_entries = []\<rparr>"

definition RedisRegistry_new :: "'a handle_registry" where
  "RedisRegistry_new = \<lparr>hg_next = 1, hg_entries = []\<rparr>"

definition register_host :: "'a \<Rightarrow> 'a handle_registry \<Rightarrow> ('a handle_registry \<times> u64) outcome" where
  "register_host host r =
     (if hg_next r > 0x00ffffffffffffff then Inl (SE_INTERNAL_ERROR, ''server handle space exhausted'')
      else Inr (\<lparr>hg_next = hg_next r + 1, hg_entries = fst (umap_emplace (hg_next r) host (hg_entries r))\<rparr>, hg_next r))"

definition register_service :: "'a \<Rightarrow> 'a handle_registry \<Rightarrow> ('a handle_registry \<times> u64) outcome" where
  "register_service service r =
     (if hg_next r = 0x5400000000000000 then Inl (SE_INVALID_STATE, ''SQL service handle space exhausted'')
      else Inr (\<lparr>hg_next = hg_next r + 1, hg_entries = fst (umap_emplace (hg_next r) service (hg_entries r))\<rparr>, hg_next r))"

definition register_redis :: "'a \<Rightarrow> 'a handle_registry \<Rightarrow> ('a handle_registry \<times> u64) outcome" where
  "register_redis service r =
     (if hg_next r > 0x00FFFFFFFFFFFFFF then Inl (SE_INVALID_STATE, ''Redis handle space exhausted'')
      else
        (let handle = 0x5200000000000000 OR hg_next r in
         Inr (\<lparr>hg_next = hg_next r + 1, hg_entries = fst (umap_emplace handle service (hg_entries r))\<rparr>, handle)))"

definition find_handle :: "u64 \<Rightarrow> 'a handle_registry \<Rightarrow> 'a option" where
  "find_handle handle r = umap_find (hg_entries r) handle"

definition remove_handle :: "u64 \<Rightarrow> 'a handle_registry \<Rightarrow> ('a handle_registry \<times> 'a) option" where
  "remove_handle handle r =
     (case umap_find (hg_entries r) handle of
        None \<Rightarrow> None
      | Some x \<Rightarrow> Some (r\<lparr>hg_entries := umap_erase handle (hg_entries r)\<rparr>, x))"

text \<open>A call on the object behind a handle: the shared pointer's target changes, the table does not.\<close>

definition put_handle :: "u64 \<Rightarrow> 'a \<Rightarrow> 'a handle_registry \<Rightarrow> 'a handle_registry" where
  "put_handle handle x r = r\<lparr>hg_entries := umap_assign handle x (hg_entries r)\<rparr>"

lemma put_handle_frame [simp]: "hg_next (put_handle h x r) = hg_next r"
  by (simp add: put_handle_def)

lemma find_put [simp]: "find_handle k (put_handle h x r) = (if h = k then Some x else find_handle k r)"
  by (simp add: find_handle_def put_handle_def)

section \<open>The contract of a registry\<close>

definition family_base :: "nat \<Rightarrow> nat" where
  "family_base f = f * 2 ^ 56"

definition registry_inv :: "nat \<Rightarrow> nat \<Rightarrow> 'a handle_registry \<Rightarrow> bool" where
  "registry_inv f horizon r \<longleftrightarrow> umap_wf (hg_entries r) \<and> family_base f < horizon \<and> horizon \<le> family_base (Suc f)
     \<and> (\<forall>h x. find_handle h r = Some x \<longrightarrow> family_base f < unat h \<and> unat h < horizon)"

lemma family_unique:
  "family_base f < n \<Longrightarrow> n < family_base (Suc f) \<Longrightarrow> n div 2 ^ 56 = f"
  unfolding family_base_def by (metis div_nat_eqI less_imp_le mult.commute)

locale handle_issuer =
  fixes register :: "'a \<Rightarrow> 'a handle_registry \<Rightarrow> ('a handle_registry \<times> u64) outcome"
    and horizon :: "'a handle_registry \<Rightarrow> nat"
    and family :: nat
  assumes register_spec: "registry_inv family (horizon r) r \<Longrightarrow> register x r = Inr (r', h) \<Longrightarrow>
      unat h = horizon r \<and> horizon r' = Suc (horizon r) \<and> horizon r < family_base (Suc family)
      \<and> hg_entries r' = fst (umap_emplace h x (hg_entries r))"
    and horizon_entries: "horizon (r\<lparr>hg_entries := m\<rparr>) = horizon r"
begin

definition table_ok :: "'a handle_registry \<Rightarrow> bool" where
  "table_ok r \<longleftrightarrow> registry_inv family (horizon r) r"

lemma register_table:
  assumes "table_ok r" "register x r = Inr (r', h)"
  shows "table_ok r'" "find_handle h r = None" "horizon r \<le> unat h" "unat h < horizon r'"
    "find_handle k r' = (if k = h then Some x else find_handle k r)" "h \<noteq> 0" "unat h div 2 ^ 56 = family"
proof -
  have s: "unat h = horizon r" "horizon r' = Suc (horizon r)" "horizon r < family_base (Suc family)"
      "hg_entries r' = fst (umap_emplace h x (hg_entries r))"
    using register_spec [of r x r' h] assms by (auto simp: table_ok_def)
  show fresh: "find_handle h r = None"
    using assms(1) s(1) by (cases "find_handle h r") (auto simp: table_ok_def registry_inv_def)
  then have e: "hg_entries r' = umap_assign h x (hg_entries r)"
    using s(4) by (simp add: umap_emplace_def find_handle_def)
  show found: "find_handle k r' = (if k = h then Some x else find_handle k r)" for k
    using e by (simp add: find_handle_def)
  have base: "family_base family < horizon r"
    using assms(1) by (simp add: table_ok_def registry_inv_def)
  have "umap_wf (hg_entries r')"
    using assms(1) e by (simp add: table_ok_def registry_inv_def umap.wf_assign)
  moreover have "family_base family < unat k \<and> unat k < horizon r'" if "find_handle k r' = Some y" for k y
    using that assms(1) s(1,2) found base
    by (cases "k = h") (auto simp: table_ok_def registry_inv_def intro: less_SucI)
  ultimately show "table_ok r'"
    using s(2,3) base by (simp add: table_ok_def registry_inv_def)
  show "h \<noteq> 0" using s(1) base by auto
  show "horizon r \<le> unat h" "unat h < horizon r'" using s by simp_all
  show "unat h div 2 ^ 56 = family" using family_unique base s(1,3) by simp
qed

lemma put_table: "table_ok r \<Longrightarrow> find_handle h r \<noteq> None \<Longrightarrow> table_ok (put_handle h x r) \<and> horizon (put_handle h x r) = horizon r"
  by (auto simp: table_ok_def registry_inv_def put_handle_def find_handle_def horizon_entries umap.wf_assign split: if_splits)

lemma remove_table:
  "table_ok r \<Longrightarrow> remove_handle h r = Some (r', x) \<Longrightarrow>
     table_ok r' \<and> horizon r' = horizon r \<and> find_handle k r' = (if k = h then None else find_handle k r) \<and> find_handle h r = Some x"
  by (auto simp: table_ok_def registry_inv_def remove_handle_def find_handle_def horizon_entries umap.wf_erase split: option.splits if_splits)

text \<open>
  What any call may do to a table of objects that satisfy \<open>good\<close>: nothing, register a good object,
  change the object behind a handle and keep it good, or take a handle away.
\<close>

inductive table_step :: "('a \<Rightarrow> bool) \<Rightarrow> 'a handle_registry \<Rightarrow> 'a handle_registry \<Rightarrow> bool" for good where
  same: "table_step good r r"
| register: "good x \<Longrightarrow> register x r = Inr (r', h) \<Longrightarrow> table_step good r r'"
| put: "find_handle h r = Some x \<Longrightarrow> (good x \<Longrightarrow> good x') \<Longrightarrow> table_step good r (put_handle h x' r)"
| remove: "remove_handle h r = Some (r', x) \<Longrightarrow> table_step good r r'"

definition all_good :: "('a \<Rightarrow> bool) \<Rightarrow> 'a handle_registry \<Rightarrow> bool" where
  "all_good good r \<longleftrightarrow> table_ok r \<and> (\<forall>h x. find_handle h r = Some x \<longrightarrow> good x)"

lemma table_step_good: "table_step good r r' \<Longrightarrow> all_good good r \<Longrightarrow> all_good good r' \<and> horizon r \<le> horizon r'"
proof (induction rule: table_step.induct)
  case (register x r r' h)
  then show ?case
    using register_table [of r x r' h] by (auto simp: all_good_def split: if_splits)
next
  case (put h r x x')
  then show ?case
    using put_table [of r h x'] by (auto simp: all_good_def split: if_splits)
next
  case (remove h r r' x)
  then show ?case
    using remove_table [of r h r' x] by (auto simp: all_good_def split: if_splits)
qed simp

lemma table_step_stale:
  "table_step good r r' \<Longrightarrow> all_good good r \<Longrightarrow> unat k < horizon r \<Longrightarrow> find_handle k r = None \<Longrightarrow> find_handle k r' = None"
proof (induction rule: table_step.induct)
  case (register x r r' h)
  then show ?case
    using register_table [of r x r' h] by (auto simp: all_good_def)
next
  case (remove h r r' x)
  then show ?case
    using remove_table [of r h r' x k] by (simp add: all_good_def)
qed (auto split: if_splits)

lemma found_family: "table_ok r \<Longrightarrow> find_handle h r = Some x \<Longrightarrow> unat h div 2 ^ 56 = family \<and> unat h < horizon r"
  unfolding table_ok_def registry_inv_def by (meson family_unique less_le_trans)

end

section \<open>The three registries\<close>

lemma word_or_base:
  assumes "(n :: u64) \<le> 0x00FFFFFFFFFFFFFF" and base: "b AND mask 56 = 0" and "unat b \<le> 0xFF00000000000000"
  shows "unat (b OR n) = unat b + unat n"
proof -
  have le: "unat n \<le> 0x00FFFFFFFFFFFFFF"
    using assms(1) by (simp add: word_le_nat_alt)
  then have "uint n < 0x0100000000000000"
    unfolding uint_nat by linarith
  then have n: "mask 56 AND n = n"
    using mask_eq_iff [of n 56] by (simp add: and.commute)
  have "b AND n = (b AND mask 56) AND n"
    by (simp only: and.assoc n)
  then have "b AND n = 0"
    by (simp only: base and_zero_eq and.left_idem zero_and_eq)
  then have "b OR n = b + n"
    by (rule disjunctive_add_eq_or [symmetric])
  then show ?thesis
    using le assms(3) by (simp add: unat_add_lem [THEN iffD1])
qed

lemma base_low_bits:
  "(0x4700000000000000 :: u64) AND mask 56 = 0" "(0x5000000000000000 :: u64) AND mask 56 = 0"
  "(0x5200000000000000 :: u64) AND mask 56 = 0"
  by (simp_all add: mask_eq_exp_minus_1)

lemma unat_inc: "unat n < 0x5400000000000000 \<Longrightarrow> unat ((n :: u64) + 1) = Suc (unat n)"
  by (simp add: unat_add_lem [THEN iffD1])

definition host_horizon :: "'a handle_registry \<Rightarrow> nat" where
  "host_horizon r = unat (hg_next r)"

definition redis_horizon_handle :: "'a handle_registry \<Rightarrow> nat" where
  "redis_horizon_handle r = 0x5200000000000000 + unat (hg_next r)"

interpretation host_handles: handle_issuer register_host host_horizon "0"
  by unfold_locales
    (auto simp: register_host_def host_horizon_def registry_inv_def family_base_def word_less_nat_alt unat_inc
      not_less split: if_splits)

interpretation sql_handles: handle_issuer register_service host_horizon "0x53"
proof (unfold_locales, goal_cases)
  case (1 r x r' h)
  then have h: "h = hg_next r" "hg_next r \<noteq> 0x5400000000000000" "hg_next r' = hg_next r + 1"
      "hg_entries r' = fst (umap_emplace h x (hg_entries r))"
    by (auto simp: register_service_def split: if_splits)
  have "unat (hg_next r) \<noteq> unat (0x5400000000000000 :: u64)"
    using h(2) by (simp add: word_unat_eq_iff)
  moreover have "unat (hg_next r) \<le> 0x5400000000000000"
    using 1(1) by (simp add: registry_inv_def host_horizon_def family_base_def)
  ultimately have "unat (hg_next r) < 0x5400000000000000" by simp
  then show ?case
    using h unat_inc by (simp add: host_horizon_def family_base_def)
qed (simp add: host_horizon_def)

interpretation redis_handles: handle_issuer register_redis redis_horizon_handle "0x52"
proof (unfold_locales, goal_cases)
  case (1 r x r' h)
  then have h: "h = 0x5200000000000000 OR hg_next r" "hg_next r \<le> 0x00FFFFFFFFFFFFFF" "hg_next r' = hg_next r + 1"
      "hg_entries r' = fst (umap_emplace h x (hg_entries r))"
    by (auto simp: register_redis_def Let_def not_less split: if_splits)
  then have "unat (hg_next r) \<le> 0x00FFFFFFFFFFFFFF"
    by (simp add: word_le_nat_alt)
  then show ?case
    using h word_or_base [OF h(2) base_low_bits(3)] unat_inc [of "hg_next r"]
    by (simp add: redis_horizon_handle_def family_base_def)
qed (simp add: redis_horizon_handle_def)

lemma registries_new:
  "host_handles.table_ok HostRegistry_new" "sql_handles.table_ok SqlRegistry_new" "redis_handles.table_ok RedisRegistry_new"
  by (simp_all add: host_handles.table_ok_def sql_handles.table_ok_def redis_handles.table_ok_def registry_inv_def
      HostRegistry_new_def SqlRegistry_new_def RedisRegistry_new_def host_horizon_def redis_horizon_handle_def
      family_base_def find_handle_def)

end
