(* ===== verification/Abi_Server.thy ===== *)
theory Abi_Server
  imports Handle_Registry Server_Host
begin

text \<open>
  The C interface of a server (src/src/Abi/Options.cpp, Lifecycle.cpp, Messaging.cpp, Http.cpp): the
  checks of the structures an application passes in and the exports that act on a host through its
  handle. An export takes the registry of hosts and returns it changed, with the body that the
  boundary turns into a status and an error record. A null output pointer is the argument \<open>False\<close>.
\<close>

section \<open>Option structures\<close>

record se_server_options =
  so_struct_size :: nat
  so_abi_version :: nat
  so_max_connections :: nat
  so_max_message_bytes :: nat
  so_max_send_queue_bytes :: nat
  so_max_event_queue_count :: nat
  so_max_event_queue_bytes :: nat
  so_idle_timeout_ms :: nat
  so_reserved :: "u64 list"

record se_listener_options =
  lo_struct_size :: nat
  lo_abi_version :: nat
  lo_protocol :: nat
  lo_security :: nat
  lo_port :: nat
  lo_handshake_timeout_ms :: nat
  lo_bind_address :: "string option"
  lo_certificate_chain_file :: "string option"
  lo_private_key_file :: "string option"
  lo_websocket_path :: "string option"
  lo_reserved :: "u64 list"

text \<open>The sizes of the structures: 32-bit and 64-bit members, pointers of eight bytes, four reserved words.\<close>

definition server_options_size :: nat where
  "server_options_size = 6 * 4 + 2 * 8 + 4 * 8"

definition listener_options_size :: nat where
  "listener_options_size = 6 * 4 + 4 * 8 + 4 * 8"

definition valid_header :: "nat \<Rightarrow> nat \<Rightarrow> nat \<Rightarrow> u64 list \<Rightarrow> bool" where
  "valid_header expected struct_size abi_version reserved \<longleftrightarrow>
     struct_size = expected \<and> abi_version = SE_ABI_VERSION \<and> list_all (\<lambda>v. v = 0) reserved"

definition text_or :: "string option \<Rightarrow> string \<Rightarrow> string" where
  "text_or text fallback = (case text of None \<Rightarrow> fallback | Some t \<Rightarrow> c_string t)"

definition se_server_options_init :: se_server_options where
  "se_server_options_init = \<lparr>so_struct_size = server_options_size, so_abi_version = SE_ABI_VERSION,
     so_max_connections = 4096, so_max_message_bytes = 65536, so_max_send_queue_bytes = 1024 * 1024,
     so_max_event_queue_count = 8192, so_max_event_queue_bytes = 16 * 1024 * 1024,
     so_idle_timeout_ms = 300000, so_reserved = [0, 0, 0, 0]\<rparr>"

definition se_listener_options_init :: se_listener_options where
  "se_listener_options_init = \<lparr>lo_struct_size = listener_options_size, lo_abi_version = SE_ABI_VERSION,
     lo_protocol = SE_PROTOCOL_TCP, lo_security = SE_SECURITY_TLS, lo_port = 0, lo_handshake_timeout_ms = 10000,
     lo_bind_address = None, lo_certificate_chain_file = None, lo_private_key_file = None,
     lo_websocket_path = None, lo_reserved = [0, 0, 0, 0]\<rparr>"

definition decode_server_options :: "se_server_options option \<Rightarrow> host_options res" where
  "decode_server_options source =
     (case source of
        None \<Rightarrow> Inl ''invalid options size/version/reserved; use se_server_options_init''
      | Some s \<Rightarrow>
          if \<not> valid_header server_options_size (so_struct_size s) (so_abi_version s) (so_reserved s)
          then Inl ''invalid options size/version/reserved; use se_server_options_init''
          else if so_max_connections s = 0 \<or> so_max_connections s > 1000000
            \<or> so_max_message_bytes s = 0 \<or> so_max_message_bytes s > 16 * 1024 * 1024
            \<or> so_max_send_queue_bytes s < (so_max_message_bytes s + 16) mod W32
            \<or> so_max_send_queue_bytes s > 256 * 1024 * 1024
            \<or> so_max_event_queue_count s = 0 \<or> so_max_event_queue_count s > 1000000
            \<or> so_max_event_queue_bytes s < so_max_message_bytes s
            \<or> so_max_event_queue_bytes s > 1073741824
            \<or> so_idle_timeout_ms s < 100 \<or> so_idle_timeout_ms s > 86400000
          then Inl ''limits outside supported range (message <=16MiB, idle 100ms..24h, queues bounded)''
          else
            Inr \<lparr>ho_network = \<lparr>worker_threads = 1, max_connections = so_max_connections s,
                   max_message_bytes = so_max_message_bytes s,
                   max_send_queue_bytes = so_max_send_queue_bytes s, idle_timeout_ms = so_idle_timeout_ms s\<rparr>,
                 ho_max_event_queue_count = so_max_event_queue_count s,
                 ho_max_event_queue_bytes = so_max_event_queue_bytes s\<rparr>)"

text \<open>The conversion of a protocol number that passed the range check.\<close>

definition protocol_of :: "nat \<Rightarrow> protocol" where
  "protocol_of n =
     (if n = SE_PROTOCOL_TCP then PTcp else if n = SE_PROTOCOL_UDP then PUdp
      else if n = SE_PROTOCOL_WEBSOCKET then PWebSocket else PHttp)"

definition listener_of :: "se_listener_options \<Rightarrow> listener_config" where
  "listener_of s =
     \<lparr>lc_id = 0, lc_protocol = protocol_of (lo_protocol s),
      lc_bind_address = text_or (lo_bind_address s) ''127.0.0.1'', lc_port = of_nat (lo_port s),
      lc_security = (if lo_security s = SE_SECURITY_NONE then Sec_None else Sec_Tls),
      lc_certificate_chain_file = text_or (lo_certificate_chain_file s) [],
      lc_private_key_file = text_or (lo_private_key_file s) [],
      lc_websocket_path = text_or (lo_websocket_path s) ''/'',
      lc_handshake_timeout_ms = lo_handshake_timeout_ms s\<rparr>"

definition decode_listener_options :: "se_listener_options option \<Rightarrow> listener_config res" where
  "decode_listener_options source =
     (case source of
        None \<Rightarrow> Inl ''invalid listener size/version/reserved; use se_listener_options_init''
      | Some s \<Rightarrow>
          if \<not> valid_header listener_options_size (lo_struct_size s) (lo_abi_version s) (lo_reserved s)
          then Inl ''invalid listener size/version/reserved; use se_listener_options_init''
          else if lo_protocol s < SE_PROTOCOL_TCP \<or> lo_protocol s > SE_PROTOCOL_HTTP
            \<or> lo_security s > SE_SECURITY_TLS \<or> lo_port s = 0 \<or> lo_port s > 65535
            \<or> lo_handshake_timeout_ms s < 100 \<or> lo_handshake_timeout_ms s > 300000
          then Inl ''invalid protocol/security/port/handshake timeout''
          else if lo_protocol s = SE_PROTOCOL_UDP \<and> lo_security s \<noteq> SE_SECURITY_NONE
          then Inl ''TLS cannot secure UDP; DTLS is not implemented. Select explicit plaintext UDP or use TLS/WSS''
          else
            (let result = listener_of s in
             if lc_security result = Sec_Tls
               \<and> (lc_certificate_chain_file result = [] \<or> lc_private_key_file result = [])
             then Inl ''TLS listener requires certificate_chain_file and private_key_file''
             else if length (lc_bind_address result) > 64 \<or> lc_websocket_path result = []
               \<or> hd (lc_websocket_path result) \<noteq> CHR ''/'' \<or> length (lc_websocket_path result) > 2048
             then Inl ''invalid bind address or WebSocket path''
             else Inr result))"

section \<open>Lifecycle\<close>

type_synonym hosts = "server_host handle_registry"

text \<open>What the system does during a call on a host.\<close>

record host_env =
  he_alloc :: "event_queue \<Rightarrow> bool"
  he_text_ok :: "string \<Rightarrow> bool"
  he_launch :: launch
  he_opens :: "listener_config \<Rightarrow> unit res"
  he_invoke_ok :: bool

definition with_host :: "string \<Rightarrow> u64 \<Rightarrow> (server_host \<Rightarrow> server_host \<times> 'a abi_body) \<Rightarrow> hosts \<Rightarrow> hosts \<times> 'a abi_body" where
  "with_host unknown server f r =
     (case find_handle server r of
        None \<Rightarrow> (r, Inl (SE_INVALID_HANDLE, unknown))
      | Some h \<Rightarrow> (let (h', body) = f h in (put_handle server h' r, body)))"

text \<open>The result of a host operation: an error text becomes a failure with the given status.\<close>

definition or_fail :: "se_status \<Rightarrow> 'a res \<Rightarrow> 'a abi_body" where
  "or_fail status r = (case r of Inl detail \<Rightarrow> Inl (status, detail) | Inr x \<Rightarrow> Inr (SE_OK, x))"

definition se_server_create :: "se_server_options option \<Rightarrow> bool \<Rightarrow> hosts \<Rightarrow> hosts \<times> u64 abi_body" where
  "se_server_create options server_out r =
     (if \<not> server_out then (r, Inl (SE_INVALID_ARGUMENT, ''output server handle is null''))
      else
        (case decode_server_options options of
           Inl detail \<Rightarrow> (r, Inl (SE_INVALID_ARGUMENT, detail))
         | Inr decoded \<Rightarrow>
             (case register_host (ServerHost_new decoded) r of
                Inl e \<Rightarrow> (r, Inl e)
              | Inr (r', handle) \<Rightarrow> (r', Inr (SE_OK, handle)))))"

definition se_server_add_listener ::
  "u64 \<Rightarrow> se_listener_options option \<Rightarrow> bool \<Rightarrow> hosts \<Rightarrow> hosts \<times> u64 abi_body" where
  "se_server_add_listener server options listener_out r =
     (if \<not> listener_out then (r, Inl (SE_INVALID_ARGUMENT, ''output listener ID is null''))
      else with_host ''unknown server handle'' server (\<lambda>h.
        case decode_listener_options options of
          Inl detail \<Rightarrow> (h, Inl (SE_INVALID_ARGUMENT, detail))
        | Inr decoded \<Rightarrow> map_prod id (or_fail SE_INVALID_STATE) (host_add_listener decoded h)) r)"

definition se_server_start :: "host_env \<Rightarrow> u64 \<Rightarrow> hosts \<Rightarrow> hosts \<times> unit abi_body" where
  "se_server_start env server =
     with_host ''unknown server handle'' server (\<lambda>h. map_prod id (or_fail SE_IO_ERROR)
       (host_start (he_alloc env) (he_text_ok env) (he_launch env) (he_opens env) h))"

definition se_server_stop :: "host_env \<Rightarrow> u64 \<Rightarrow> hosts \<Rightarrow> hosts \<times> unit abi_body" where
  "se_server_stop env server = with_host ''unknown server handle'' server (\<lambda>h. (host_stop (he_invoke_ok env) h, Inr (SE_OK, ())))"

text \<open>The host a destroyed handle named is stopped after it left the registry; it is part of the result.\<close>

definition se_server_destroy :: "host_env \<Rightarrow> u64 \<Rightarrow> hosts \<Rightarrow> hosts \<times> server_host abi_body" where
  "se_server_destroy env server r =
     (case remove_handle server r of
        None \<Rightarrow> (r, Inl (SE_INVALID_HANDLE, ''unknown server handle''))
      | Some (r', h) \<Rightarrow> (r', Inr (SE_OK, host_stop (he_invoke_ok env) h)))"

section \<open>Messaging\<close>

definition se_server_send :: "u64 \<Rightarrow> u64 \<Rightarrow> bytes option \<Rightarrow> nat \<Rightarrow> hosts \<Rightarrow> hosts \<times> unit abi_body" where
  "se_server_send server session_id data n r =
     (if data = None \<and> n \<noteq> 0 \<or> session_id = 0
      then (r, Inl (SE_INVALID_ARGUMENT, ''invalid message pointer or session ID''))
      else with_host ''unknown server handle'' server (\<lambda>h.
        if n > max_message_bytes (ho_network (sh_options h))
        then (h, Inl (SE_INVALID_ARGUMENT, ''message exceeds configured limit''))
        else if eq_overflowed (host_events h)
        then (h, Inl (SE_BACKPRESSURE, ''event queue overflowed; poll terminal event and recreate server''))
        else map_prod id (or_fail SE_IO_ERROR) (host_send session_id (Buffer_of_memory data n) h)) r)"

definition se_server_disconnect :: "u64 \<Rightarrow> u64 \<Rightarrow> hosts \<Rightarrow> hosts \<times> unit abi_body" where
  "se_server_disconnect server session_id =
     with_host ''unknown server handle'' server (\<lambda>h. map_prod id (or_fail SE_IO_ERROR) (host_disconnect session_id h))"

record se_event =
  se_kind :: nat
  se_protocol :: nat
  se_session_id :: u64
  se_listener_id :: u64
  se_sequence :: u64
  se_payload_size :: u32
  se_peer_port :: u16
  se_peer_address :: string

fun event_code :: "event_kind \<Rightarrow> nat" where
  "event_code EvOpen = 1"
| "event_code EvMessage = 2"
| "event_code EvClose = 3"
| "event_code EvError = 4"
| "event_code EvOverflow = 5"
| "event_code EvHttpRequest = 6"

fun protocol_code :: "protocol \<Rightarrow> nat" where
  "protocol_code PTcp = 1"
| "protocol_code PUdp = 2"
| "protocol_code PWebSocket = 3"
| "protocol_code PHttp = 4"

definition event_out :: "event \<Rightarrow> se_event" where
  "event_out e =
     \<lparr>se_kind = event_code (ev_kind e), se_protocol = protocol_code (p_protocol (ev_peer e)),
      se_session_id = p_session_id (ev_peer e), se_listener_id = p_listener_id (ev_peer e),
      se_sequence = ev_sequence e, se_payload_size = of_nat (ev_payload_size e),
      se_peer_port = p_port (ev_peer e), se_peer_address = bounded_message 64 (p_address (ev_peer e))\<rparr>"

text \<open>The caller's event structure is null or has a size and a version.\<close>

definition event_size :: nat where
  "event_size = 4 * 4 + 3 * 8 + 2 * 4 + 64"

definition event_header_ok :: "(nat \<times> nat) option \<Rightarrow> bool" where
  "event_header_ok header \<longleftrightarrow> header = Some (event_size, SE_ABI_VERSION)"

definition se_server_poll_event ::
  "host_env \<Rightarrow> u64 \<Rightarrow> (nat \<times> nat) option \<Rightarrow> bool \<Rightarrow> nat \<Rightarrow> hosts \<Rightarrow> hosts \<times> (se_event option \<times> bytes) abi_body" where
  "se_server_poll_event env server header payload_null capacity r =
     (if \<not> event_header_ok header \<or> payload_null \<and> capacity \<noteq> 0
      then (r, Inl (SE_INVALID_ARGUMENT, ''invalid event header or payload buffer''))
      else with_host ''unknown server handle'' server (\<lambda>h.
        case host_poll (he_invoke_ok env) capacity h of
          (h', result, e, payload) \<Rightarrow>
            (h', Inr (if result = Timeout then (SE_TIMEOUT, None, [])
                      else if result = Stopped then (SE_STOPPED, None, [])
                      else (if result = BufferTooSmall then SE_BUFFER_TOO_SMALL else SE_OK,
                            map_option event_out e, payload)))) r)"

section \<open>HTTP\<close>

definition copy_text :: "string option \<Rightarrow> nat \<Rightarrow> string option" where
  "copy_text source maximum =
     (case source of
        None \<Rightarrow> None
      | Some t \<Rightarrow> if length (c_string t) > maximum then None else Some (c_string t))"

record se_http_response =
  hs_struct_size :: nat
  hs_abi_version :: nat
  hs_reserved :: "u64 list"
  hs_status_code :: nat
  hs_close_connection :: nat
  hs_content_type :: "string option"
  hs_headers :: "(string option \<times> string option) list option"
  hs_header_count :: nat
  hs_body_size :: nat
  hs_body :: "bytes option"

definition http_response_size :: nat where
  "http_response_size = 4 * 4 + 2 * 8 + 2 * 4 + 8 + 4 * 8"

fun copy_headers :: "(string option \<times> string option) list \<Rightarrow> nat \<Rightarrow> (http_header list \<times> nat) res" where
  "copy_headers [] header_bytes = Inr ([], header_bytes)"
| "copy_headers ((name, value) # hs) header_bytes =
     (case (copy_text name 128, copy_text value 8192) of
        (Some n, Some v) \<Rightarrow>
          (let total = header_bytes + (length n + length v + 4) in
           if total > http_header_limit then Inl ''HTTP response headers exceed 16 KiB''
           else (case copy_headers hs total of
                   Inl e \<Rightarrow> Inl e
                 | Inr (rest, used) \<Rightarrow> Inr (\<lparr>hh_name = n, hh_value = v\<rparr> # rest, used)))
      | _ \<Rightarrow> Inl ''Invalid HTTP header string or length'')"

definition decode_response :: "se_http_response option \<Rightarrow> nat \<Rightarrow> http_response res" where
  "decode_response source body_limit =
     (case source of
        None \<Rightarrow> Inl ''Invalid HTTP response size/version/reserved, pointer, or body/header limit''
      | Some s \<Rightarrow>
          if \<not> valid_header http_response_size (hs_struct_size s) (hs_abi_version s) (hs_reserved s) \<or> hs_close_connection s > 1
            \<or> hs_header_count s > 64 \<or> (hs_header_count s \<noteq> 0 \<and> hs_headers s = None)
            \<or> (hs_body_size s \<noteq> 0 \<and> hs_body s = None) \<or> hs_body_size s > body_limit
          then Inl ''Invalid HTTP response size/version/reserved, pointer, or body/header limit''
          else
            (case (if hs_content_type s = None then Some ''application/octet-stream''
                   else copy_text (hs_content_type s) 1024) of
               None \<Rightarrow> Inl ''HTTP content type exceeds 1024 bytes''
             | Some content_type \<Rightarrow>
                 (case copy_headers (take (hs_header_count s) (case hs_headers s of None \<Rightarrow> [] | Some l \<Rightarrow> l))
                         (256 + length content_type) of
                    Inl e \<Rightarrow> Inl e
                  | Inr (headers, _) \<Rightarrow>
                      (let response = \<lparr>hr_status_code = hs_status_code s,
                             hr_close_connection = (hs_close_connection s \<noteq> 0), hr_content_type = content_type,
                             hr_headers = headers, hr_body = Buffer_of_memory (hs_body s) (hs_body_size s)\<rparr> in
                       (case validate_http_response response body_limit of
                          Inl e \<Rightarrow> Inl e | Inr _ \<Rightarrow> Inr response)))))"

definition se_http_request_read :: "bytes option \<Rightarrow> bool \<Rightarrow> http_request_view abi_body" where
  "se_http_request_read payload request_out =
     (if \<not> request_out then Inl (SE_INVALID_ARGUMENT, ''Invalid HTTP request event payload'')
      else (case decode_http_request payload of
              None \<Rightarrow> Inl (SE_INVALID_ARGUMENT, ''Invalid HTTP request event payload'')
            | Some view \<Rightarrow> Inr (SE_OK, view)))"

definition se_http_respond ::
  "u64 \<Rightarrow> u64 \<Rightarrow> u64 \<Rightarrow> se_http_response option \<Rightarrow> hosts \<Rightarrow> hosts \<times> unit abi_body" where
  "se_http_respond server session_id request_id response r =
     (if session_id = 0 \<or> request_id = 0
      then (r, Inl (SE_INVALID_ARGUMENT, ''HTTP session and request IDs must be nonzero''))
      else with_host ''Unknown server handle'' server (\<lambda>h.
        if eq_overflowed (host_events h)
        then (h, Inl (SE_BACKPRESSURE, ''Event queue overflowed; recreate server''))
        else
          (case decode_response response (max_message_bytes (ho_network (sh_options h))) of
             Inl detail \<Rightarrow> (h, Inl (SE_INVALID_ARGUMENT, detail))
           | Inr decoded \<Rightarrow> map_prod id (or_fail SE_IO_ERROR)
               (host_respond_http session_id request_id decoded h))) r)"

section \<open>What the checks give\<close>

lemma decode_server_options_ok:
  "decode_server_options src = Inr opts \<Longrightarrow>
     1 \<le> max_connections (ho_network opts) \<and> 1 \<le> max_message_bytes (ho_network opts)
     \<and> max_message_bytes (ho_network opts) + 16 \<le> max_send_queue_bytes (ho_network opts)
     \<and> max_send_queue_bytes (ho_network opts) < W64
     \<and> max_message_bytes (ho_network opts) \<le> ho_max_event_queue_bytes opts \<and> 1 \<le> ho_max_event_queue_count opts"
  by (auto simp: decode_server_options_def split: option.splits if_splits)

lemma decode_server_options_init: "\<exists>opts. decode_server_options (Some se_server_options_init) = Inr opts"
  by (simp add: decode_server_options_def se_server_options_init_def valid_header_def)

lemma host_of_decoded: "decode_server_options src = Inr opts \<Longrightarrow> host_initial (ServerHost_new opts)"
  using decode_server_options_ok [of src opts] by (auto simp: host_initial_def)

lemma port_nonzero: "0 < p \<Longrightarrow> \<not> 65535 < p \<Longrightarrow> (of_nat p :: u16) \<noteq> 0"
  using dvd_imp_le [of 65536 p] by (auto simp: word_of_nat_eq_0_iff)

lemma decode_listener_options_ok:
  "decode_listener_options src = Inr c \<Longrightarrow>
     (lc_protocol c = PUdp \<longrightarrow> lc_security c = Sec_None)
     \<and> (lc_security c = Sec_Tls \<longrightarrow> lc_certificate_chain_file c \<noteq> [] \<and> lc_private_key_file c \<noteq> [])
     \<and> lc_port c \<noteq> 0 \<and> hd (lc_websocket_path c) = CHR ''/''"
  by (auto simp: decode_listener_options_def listener_of_def protocol_of_def abi_constants Let_def
      port_nonzero split: option.splits if_splits)

lemma decode_response_valid:
  "decode_response src limit = Inr response \<Longrightarrow> \<exists>n. validate_http_response response limit = Inr n"
  by (auto simp: decode_response_def Let_def split: option.splits if_splits sum.splits)

end
