(* ===== verification/Abi_Sql.thy ===== *)
theory Abi_Sql
  imports Handle_Registry Sql_Properties Sqlite_Transactions
begin

text \<open>
  The C interface of the SQL services (src/src/Abi/Sql.cpp) and the stack below it: a service whose
  worker executes requests with the SQLite driver. The readers of a result index the rows and columns
  of a C++ vector without a check of their own beyond the counts; that every stored result has rows
  of the right width is an invariant of the whole stack.
\<close>

section \<open>Exports\<close>

type_synonym sqls = "sql_service handle_registry"

definition se_sql_options_init :: sql_c_options where
  "se_sql_options_init = \<lparr>co_struct_size = sql_options_size, co_abi_version = SE_SQL_ABI_VERSION,
     co_provider = SE_SQL_SQLITE, co_max_outstanding_requests = 128, co_max_request_bytes = 64 * 1024,
     co_max_result_bytes = 1024 * 1024, co_max_rows = 10000, co_max_columns = 128,
     co_query_timeout_ms = 5000, co_busy_timeout_ms = 1000, co_memory_budget_bytes = 64 * 1024 * 1024,
     co_connection = None, co_reserved = [0, 0, 0, 0]\<rparr>"

definition with_sql :: "u64 \<Rightarrow> (sql_service \<Rightarrow> sql_service \<times> 'a abi_body) \<Rightarrow> sqls \<Rightarrow> sqls \<times> 'a abi_body" where
  "with_sql service f r =
     (case find_handle service r of
        None \<Rightarrow> (r, Inl (SE_INVALID_HANDLE, ''unknown or destroyed SQL service''))
      | Some s \<Rightarrow> (let (s', body) = f s in (put_handle service s' r, body)))"

definition ok_body :: "'a outcome \<Rightarrow> 'a abi_body" where
  "ok_body m = and_then m (\<lambda>x. Inr (SE_OK, x))"

text \<open>\<open>codes\<close> are the results of SQLite's calls while the connection is opened.\<close>

definition se_sql_create ::
  "(setup_call \<Rightarrow> nat) \<Rightarrow> sql_c_options option \<Rightarrow> bool \<Rightarrow> sqls \<Rightarrow> sqls \<times> u64 abi_body" where
  "se_sql_create codes options service_out r =
     (case options of
        None \<Rightarrow> (r, Inl (SE_INVALID_ARGUMENT, ''SQL options/output handle is null''))
      | Some c \<Rightarrow>
          if \<not> service_out then (r, Inl (SE_INVALID_ARGUMENT, ''SQL options/output handle is null''))
          else
            (case and_then (decode_options c) (\<lambda>opts.
                    and_then (snd (driver_open opts codes)) (\<lambda>_.
                    register_service (SqlService_new opts) r)) of
               Inl e \<Rightarrow> (r, Inl e)
             | Inr (r', handle) \<Rightarrow> (r', Inr (SE_OK, handle))))"

definition se_sql_submit ::
  "layout \<Rightarrow> u64 \<Rightarrow> sql_c_statement list option \<Rightarrow> nat \<Rightarrow> bool \<Rightarrow> sqls \<Rightarrow> sqls \<times> u64 abi_body" where
  "se_sql_submit lay service statements count request_out r =
     (if \<not> request_out then (r, Inl (SE_INVALID_ARGUMENT, ''SQL request ID output is null''))
      else with_sql service (\<lambda>s. map_prod id ok_body (sql_submit lay statements count s)) r)"

text \<open>\<open>header\<close> are the size and version of the caller's structure, if it is not null.\<close>

definition sql_result_size :: nat where
  "sql_result_size = 2 * 4 + 8 + 4 * 4 + 2 * 8 + 256"

definition se_sql_poll ::
  "u64 \<Rightarrow> (nat \<times> nat) option \<Rightarrow> sqls \<Rightarrow> sqls \<times> sql_output option abi_body" where
  "se_sql_poll service header r =
     (if header \<noteq> Some (sql_result_size, SE_SQL_ABI_VERSION)
      then (r, Inl (SE_INVALID_ARGUMENT, ''SQL result layout/version is invalid''))
      else with_sql service (\<lambda>s. case sql_poll s of (s', status, out) \<Rightarrow> (s', Inr (status, out))) r)"

text \<open>The size of the name and the characters written, with their terminator.\<close>

definition read_column_name :: "nat \<Rightarrow> nat \<Rightarrow> sql_result \<Rightarrow> (nat \<times> string) abi_body" where
  "read_column_name column capacity result =
     (if column \<ge> length (rs_columns result)
      then Inl (SE_INVALID_ARGUMENT, ''SQL column index out of range'')
      else
        (let text = rs_columns result ! column in
         if capacity \<le> length text then Inr (SE_BUFFER_TOO_SMALL, length text, [])
         else Inr (SE_OK, length text, text @ [CHR 0x00])))"

definition se_sql_column_name ::
  "u64 \<Rightarrow> u64 \<Rightarrow> nat \<Rightarrow> bool \<Rightarrow> nat \<Rightarrow> bool \<Rightarrow> sqls \<Rightarrow> (nat \<times> string) abi_body" where
  "se_sql_column_name service request_id column name_null capacity size_out r =
     (if \<not> size_out \<or> capacity \<noteq> 0 \<and> name_null
      then Inl (SE_INVALID_ARGUMENT, ''invalid SQL column name output'')
      else snd (with_sql service (\<lambda>s. (s, read_result request_id (read_column_name column capacity) s)) r))"

record se_sql_cell =
  ce_type :: nat
  ce_size :: nat
  ce_integer :: int
  ce_real :: u64

definition read_cell_out :: "nat \<Rightarrow> nat \<Rightarrow> nat \<Rightarrow> sql_result \<Rightarrow> (se_sql_cell \<times> string) abi_body" where
  "read_cell_out row column capacity result =
     (if row \<ge> length (rs_rows result) \<or> column \<ge> length (rs_columns result)
      then Inl (SE_INVALID_ARGUMENT, ''SQL cell index out of range'')
      else
        (let value = (rs_rows result ! row) ! column;
             cell = \<lparr>ce_type = va_type value, ce_size = length (va_bytes value) mod W32,
                     ce_integer = va_integer value, ce_real = va_real value\<rparr> in
         if capacity < length (va_bytes value) then Inr (SE_BUFFER_TOO_SMALL, cell, [])
         else Inr (SE_OK, cell, va_bytes value)))"

definition se_sql_get_cell ::
  "u64 \<Rightarrow> u64 \<Rightarrow> nat \<Rightarrow> nat \<Rightarrow> bool \<Rightarrow> bool \<Rightarrow> nat \<Rightarrow> sqls \<Rightarrow> (se_sql_cell \<times> string) abi_body" where
  "se_sql_get_cell service request_id row column cell_out data_null capacity r =
     (if \<not> cell_out \<or> capacity \<noteq> 0 \<and> data_null
      then Inl (SE_INVALID_ARGUMENT, ''invalid SQL cell output'')
      else snd (with_sql service (\<lambda>s. (s, read_result request_id (read_cell_out row column capacity) s)) r))"

definition se_sql_release_result :: "u64 \<Rightarrow> u64 \<Rightarrow> sqls \<Rightarrow> sqls \<times> unit abi_body" where
  "se_sql_release_result service request_id =
     with_sql service (\<lambda>s. map_prod id ok_body (sql_release request_id s))"

text \<open>Stop returns when the worker has ended: the steps it has left, with what the driver answers.\<close>

definition sql_join :: "(sql_request \<Rightarrow> sql_result) \<Rightarrow> sql_service \<Rightarrow> sql_service" where
  "sql_join driver s = (worker_step driver ^^ (3 * sqo_max_outstanding (sq_options s) + 3)) (sql_stop s)"

definition se_sql_stop :: "(sql_request \<Rightarrow> sql_result) \<Rightarrow> u64 \<Rightarrow> sqls \<Rightarrow> sqls \<times> unit abi_body" where
  "se_sql_stop driver service = with_sql service (\<lambda>s. (sql_join driver s, Inr (SE_OK, ())))"

definition se_sql_destroy :: "(sql_request \<Rightarrow> sql_result) \<Rightarrow> u64 \<Rightarrow> sqls \<Rightarrow> sqls \<times> sql_service abi_body" where
  "se_sql_destroy driver service r =
     (case remove_handle service r of
        None \<Rightarrow> (r, Inl (SE_INVALID_HANDLE, ''unknown or destroyed SQL service''))
      | Some (r', s) \<Rightarrow> (r', Inr (SE_OK, sql_join driver s)))"

lemma sql_join_ends: "sql_inv s \<Longrightarrow> sql_inv (sql_join d s) \<and> sq_worker (sql_join d s) = W_done"
  unfolding sql_join_def
  using sql_inv_stop [of s] worker_run_inv [of "sql_stop s"] worker_run_done [of "sql_stop s"] steps_left_le [of "sql_stop s"]
  by (simp add: sql_stop_def)

section \<open>A service with its driver\<close>

definition driver_sound :: "('db, 'st) sqlite_api \<Rightarrow> 'db driver \<Rightarrow> bool" where
  "driver_sound api d \<longleftrightarrow> dv_poisoned d \<or> api_autocommit api (dv_db d)"

text \<open>A step of the worker's loop in which the driver executes the request that was taken.\<close>

definition stack_work :: "layout \<Rightarrow> ('db, 'st) sqlite_api \<Rightarrow> cancel_view \<Rightarrow> sql_service \<times> 'db driver \<Rightarrow> sql_service \<times> 'db driver" where
  "stack_work lay api cancel = (\<lambda>(s, d).
     case sq_worker s of
       W_taken i \<Rightarrow>
         (case umap_find (sq_requests s) i of
            None \<Rightarrow> (worker_step rq_result s, d)
          | Some rq \<Rightarrow>
              if sq_stopping s then (worker_step rq_result s, d)
              else (let (d', result) = driver_execute lay api (sq_options s) cancel rq d
                    in (worker_step (\<lambda>_. result) s, d')))
     | _ \<Rightarrow> (worker_step rq_result s, d))"

inductive stack_act :: "('db, 'st) sqlite_api \<Rightarrow> sql_service \<times> 'db driver \<Rightarrow> flow \<Rightarrow> sql_service \<times> 'db driver \<Rightarrow> bool" for api where
  submit: "sql_submit lay src n s = (t, Inr i) \<Longrightarrow> stack_act api (s, d) (Accepted i) (t, d)"
| poll: "sql_poll s = (t, SE_OK, Some out) \<Longrightarrow> stack_act api (s, d) (Delivers (ou_request_id out)) (t, d)"
| release: "stack_act api (s, d) Silent (fst (sql_release i s), d)"
| work: "stack_act api sd Silent (stack_work lay api cancel sd)"
| stop: "stack_act api (s, d) Silent (sql_stop s, d)"

text \<open>Every request holds an empty result until it was executed, and one of the right shape from then on.\<close>

definition results_ok :: "sql_service \<Rightarrow> bool" where
  "results_ok s \<longleftrightarrow> (\<forall>i rq. umap_find (sq_requests s) i = Some rq \<longrightarrow> result_shape (sq_options s) (rq_result rq)
     \<and> (rq_state rq = Rq_queued \<or> sq_worker s = W_taken i \<longrightarrow> rq_result rq = sql_result_new))"

lemma result_shape_new [simp]: "result_shape opts sql_result_new"
  by (simp add: result_shape_def sql_result_new_def)

lemma driver_execute_sound:
  assumes "driver_sound api d" "driver_execute lay api opts cancel rq d = (d', r)"
  shows "driver_sound api d'"
  using assms by (auto simp: driver_sound_def driver_execute_def rollback_def split: if_splits sum.splits prod.splits)

lemma driver_execute_shape:
  assumes "sqlite_documented api committed pending plain" "driver_sound api d" "rq_result rq = sql_result_new"
  shows "result_shape opts (snd (driver_execute lay api opts cancel rq d))"
proof (cases "dv_poisoned d")
  case False
  then show ?thesis
    using driver_result_shape [OF assms(1,3)] assms(2) by (simp add: driver_sound_def)
qed (simp add: driver_execute_def)

lemma results_ok_set:
  assumes "results_ok s" "umap_find (sq_requests s) (rq_id rq) = Some old"
    "result_shape (sq_options s) (rq_result rq)"
    "rq_state rq = Rq_queued \<or> ph = W_taken (rq_id rq) \<Longrightarrow> rq_result rq = sql_result_new"
    "\<And>i. ph = W_taken i \<Longrightarrow> i = rq_id rq"
  shows "results_ok ((set_request rq s)\<lparr>sq_worker := ph\<rparr>)"
  using assms by (auto simp: results_ok_def set_request_def)

lemma results_ok_step:
  assumes "sql_inv s" "results_ok s"
    and "\<And>i rq. sq_worker s = W_taken i \<Longrightarrow> umap_find (sq_requests s) i = Some rq \<Longrightarrow> \<not> sq_stopping s \<Longrightarrow>
          result_shape (sq_options s) (driver rq)"
  shows "results_ok (worker_step driver s)"
proof (cases "sq_worker s")
  case W_waiting
  show ?thesis
  proof (cases "find_state Rq_queued s")
    case None
    then show ?thesis
      using assms(2) W_waiting by (auto simp: worker_step_def worker_take_def results_ok_def)
  next
    case (Some rq)
    note f = find_state_Some [OF assms(1) Some]
    have "result_shape (sq_options s) (rq_result rq)" "rq_result rq = sql_result_new"
      using assms(2) f by (auto simp: results_ok_def)
    then show ?thesis
      using results_ok_set [OF assms(2), of "rq\<lparr>rq_state := Rq_running\<rparr>" rq "W_taken (rq_id rq)"] f(1)
      by (simp add: worker_step_def worker_take_def W_waiting Some)
  qed
next
  case (W_taken i)
  then obtain rq where rq: "umap_find (sq_requests s) i = Some rq" "rq_id rq = i" "rq_state rq = Rq_running"
    using worker_request [OF assms(1), of i] by (auto simp: worker_ids_def)
  let ?r = "if sq_stopping s then result_fail SE_SQL_CANCELLED ''SQL request cancelled before execution'' (rq_result rq)
            else driver rq"
  have "result_shape (sq_options s) ?r"
    using assms(3) [OF W_taken rq(1)] by simp
  then show ?thesis
    using results_ok_set [OF assms(2), of "rq\<lparr>rq_result := ?r\<rparr>" rq "W_executed i"] rq
    by (simp add: worker_step_def worker_execute_def W_taken)
next
  case (W_executed i)
  then obtain rq where rq: "umap_find (sq_requests s) i = Some rq" "rq_id rq = i" "rq_state rq = Rq_running"
    using worker_request [OF assms(1), of i] by (auto simp: worker_ids_def)
  then show ?thesis
    using results_ok_set [OF assms(2), of "rq\<lparr>rq_state := Rq_complete\<rparr>" rq W_waiting] assms(2)
    by (auto simp: worker_step_def worker_publish_def W_executed results_ok_def [of s])
qed (use assms(2) in \<open>simp add: worker_step_def\<close>)

definition stack_inv :: "('db, 'st) sqlite_api \<Rightarrow> sql_service \<times> 'db driver \<Rightarrow> bool" where
  "stack_inv api sd \<longleftrightarrow> sql_inv (fst sd) \<and> results_ok (fst sd) \<and> driver_sound api (snd sd)"

lemma stack_work_inv:
  assumes doc: "sqlite_documented api committed pending plain" and inv: "stack_inv api (s, d)"
  shows "stack_inv api (stack_work lay api cancel (s, d))"
proof -
  have i: "sql_inv s" "results_ok s" "driver_sound api d"
    using inv by (simp_all add: stack_inv_def)
  have kept: "results_ok (worker_step rq_result s)"
    using results_ok_step [OF i(1,2), of rq_result] i(2) by (auto simp: results_ok_def [of s])
  note step = worker_step_inv [OF i(1)]
  show ?thesis
  proof (cases "\<exists>j rq. sq_worker s = W_taken j \<and> umap_find (sq_requests s) j = Some rq \<and> \<not> sq_stopping s")
    case False
    then have "stack_work lay api cancel (s, d) = (worker_step rq_result s, d)"
      by (auto simp: stack_work_def split: worker_phase.split option.split)
    then show ?thesis
      using kept step i(3) by (simp add: stack_inv_def)
  next
    case True
    then obtain j rq where t: "sq_worker s = W_taken j" "umap_find (sq_requests s) j = Some rq" "\<not> sq_stopping s"
      by blast
    obtain d' r where ex: "driver_execute lay api (sq_options s) cancel rq d = (d', r)"
      by (cases "driver_execute lay api (sq_options s) cancel rq d")
    have "rq_result rq = sql_result_new"
      using i(2) t by (auto simp: results_ok_def)
    then have "result_shape (sq_options s) r"
      using driver_execute_shape [OF doc i(3), of rq "sq_options s" lay cancel] ex by simp
    then have "results_ok (worker_step (\<lambda>_. r) s)"
      using results_ok_step [OF i(1,2), of "\<lambda>_. r"] by blast
    then show ?thesis
      using step driver_execute_sound [OF i(3) ex] by (simp add: stack_work_def t ex stack_inv_def)
  qed
qed

lemma results_ok_submit:
  assumes "sql_inv s" "results_ok s" "sql_submit lay src n s = (t, Inr i)"
  shows "results_ok t"
proof -
  obtain rq where rq: "copy_request lay src n (sq_options s) = Inr rq" and
      t: "t = s\<lparr>sq_next_id := i + 1, sq_requests := umap_assign i (rq\<lparr>rq_id := i\<rparr>) (sq_requests s),
           sq_reserved_bytes := sq_reserved_bytes s + rq_reserved_bytes rq\<rparr>"
    by (rule sql_submit_accepted [OF assms(1,3)])
  have "rq_result rq = sql_result_new"
    using copy_request_queued [OF rq] by simp
  then show ?thesis
    using assms(2) by (simp add: t results_ok_def)
qed

lemma results_ok_poll:
  assumes "sql_inv s" "results_ok s" "sql_poll s = (t, SE_OK, Some out)"
  shows "results_ok t"
proof -
  obtain rq where rq: "find_state Rq_complete s = Some rq" "t = set_request (rq\<lparr>rq_state := Rq_delivered\<rparr>) s"
    using assms(3) by (cases "find_state Rq_complete s") (auto simp: sql_poll_def)
  note f = find_state_Some [OF assms(1) rq(1)]
  have "request_ok s (rq_id rq) rq"
    using assms(1) f(1) by (simp add: sql_inv_def)
  then have w: "sq_worker s \<noteq> W_taken (rq_id rq)"
    using f(2) by (auto simp: request_ok_def worker_ids_def)
  show ?thesis
    using assms(2) f w by (simp add: rq(2) results_ok_def set_request_def)
qed

lemma results_ok_release: "results_ok s \<Longrightarrow> results_ok (fst (sql_release i s))"
  by (cases "umap_find (sq_requests s) i") (simp_all add: results_ok_def sql_release_def)

lemma stack_act_inv:
  assumes doc: "sqlite_documented api committed pending plain"
  shows "stack_act api sd e sd' \<Longrightarrow> stack_inv api sd \<Longrightarrow> stack_inv api sd'"
proof (induction rule: stack_act.induct)
  case (submit lay src n s t i d)
  then show ?case
    using results_ok_submit sql_submit_inv by (simp add: stack_inv_def) blast
next
  case (poll s t out d)
  then show ?case
    using results_ok_poll [of s t out] sql_poll_inv [of s] by (simp add: stack_inv_def)
next
  case (release s d i)
  then show ?case
    using sql_release_inv [of s i] results_ok_release [of s i] by (simp add: stack_inv_def)
next
  case (work sd lay cancel)
  then show ?case
    using stack_work_inv [OF doc] by (cases sd) simp
next
  case (stop s d)
  then show ?case
    using sql_inv_stop [of s] by (simp add: stack_inv_def results_ok_def sql_stop_def)
qed

lemma stack_run_inv:
  assumes doc: "sqlite_documented api committed pending plain"
  shows "flow_run (stack_act api) sd tr sd' \<Longrightarrow> stack_inv api sd \<Longrightarrow> stack_inv api sd'"
  by (induction rule: flow_run.induct) (auto intro: stack_act_inv [OF doc])

section \<open>What a reader gets\<close>

lemma stack_options: "flow_run (stack_act api) sd tr sd' \<Longrightarrow> sq_options (fst sd') = sq_options (fst sd)"
proof (induction rule: flow_run.induct)
  case (more sd tr sd' e sd'')
  have "sq_options (fst sd'') = sq_options (fst sd')"
    using more.hyps(2)
    by (cases rule: stack_act.cases)
      (auto simp: sql_submit_def sql_poll_def sql_release_def sql_stop_def set_request_def stack_work_def case_prod_beta
        Let_def split: if_splits sum.splits option.splits worker_phase.splits)
  then show ?case using more.IH by simp
qed simp

lemma read_cell_out_ok:
  assumes "result_shape opts result"
  shows "(\<exists>x. read_cell_out row column capacity result = Inr x) \<longleftrightarrow>
      row < length (rs_rows result) \<and> column < length (rs_columns result)"
    and "read_cell_out row column capacity result = Inr (status, cell, data) \<Longrightarrow>
      row < length (rs_rows result) \<and> column < length (rs_rows result ! row)
      \<and> ce_type cell \<le> SE_SQL_BLOB \<and> length data \<le> capacity
      \<and> (status = SE_OK \<longrightarrow> data = va_bytes (rs_rows result ! row ! column)) \<and> status \<in> {SE_OK, SE_BUFFER_TOO_SMALL}"
proof -
  have "length (rs_rows result ! row) = length (rs_columns result) \<and> list_all (\<lambda>v. va_type v \<le> SE_SQL_BLOB) (rs_rows result ! row)"
    if "row < length (rs_rows result)"
    using assms that by (auto simp: result_shape_def list_all_length)
  then show "read_cell_out row column capacity result = Inr (status, cell, data) \<Longrightarrow>
      row < length (rs_rows result) \<and> column < length (rs_rows result ! row)
      \<and> ce_type cell \<le> SE_SQL_BLOB \<and> length data \<le> capacity
      \<and> (status = SE_OK \<longrightarrow> data = va_bytes (rs_rows result ! row ! column)) \<and> status \<in> {SE_OK, SE_BUFFER_TOO_SMALL}"
    by (auto simp: read_cell_out_def Let_def list_all_length split: if_splits)
qed (auto simp: read_cell_out_def Let_def)

text \<open>
  C15. A delivered result can be read without leaving it. In every run of a service over the SQLite
  driver, a cell is returned exactly when its request was delivered and not released and the indexes
  are below the counts; then the row really has that column (the rows of a stored result are as wide
  as its column list), the cell has one of the five value types, and no more bytes are copied than
  the buffer holds.
\<close>

theorem sql_cells_in_bounds:
  assumes "sqlite_documented api committed pending plain" and "options_ok opts" and "driver_sound api d"
    and "flow_run (stack_act api) (SqlService_new opts, d) tr (s, d')" and "find_handle h r = Some s"
  shows "((\<exists>x. se_sql_get_cell h i row column True False capacity r = Inr x) \<longleftrightarrow>
      (\<exists>rq. umap_find (sq_requests s) i = Some rq \<and> rq_state rq = Rq_delivered
         \<and> row < length (rs_rows (rq_result rq)) \<and> column < length (rs_columns (rq_result rq))))
    \<and> (\<forall>status cell data. se_sql_get_cell h i row column True False capacity r = Inr (status, cell, data) \<longrightarrow>
      (\<exists>rq. umap_find (sq_requests s) i = Some rq \<and> length (rs_rows (rq_result rq)) \<le> sqo_max_rows opts
         \<and> row < length (rs_rows (rq_result rq)) \<and> column < length (rs_rows (rq_result rq) ! row)
         \<and> ce_type cell \<le> SE_SQL_BLOB \<and> length data \<le> capacity
         \<and> (status = SE_OK \<longrightarrow> data = va_bytes (rs_rows (rq_result rq) ! row ! column))))"
proof -
  have "stack_inv api (SqlService_new opts, d)"
    using sql_inv_new [OF assms(2)] assms(3) by (simp add: stack_inv_def results_ok_def SqlService_new_def)
  then have "results_ok s"
    using stack_run_inv [OF assms(1,4)] by (simp add: stack_inv_def)
  moreover have o: "sq_options s = opts"
    using stack_options [OF assms(4)] by (simp add: SqlService_new_def)
  ultimately have shape: "result_shape opts (rq_result rq)" if "umap_find (sq_requests s) i = Some rq" for rq
    using that by (auto simp: results_ok_def)
  have get: "se_sql_get_cell h i row column True False capacity r = read_result i (read_cell_out row column capacity) s"
    using assms(5) by (simp add: se_sql_get_cell_def with_sql_def)
  show ?thesis
  proof (cases "\<exists>rq. umap_find (sq_requests s) i = Some rq \<and> rq_state rq = Rq_delivered")
    case False
    then show ?thesis
      unfolding get by (auto simp: read_result_def split: option.split)
  next
    case True
    then obtain rq where rq: "umap_find (sq_requests s) i = Some rq" "rq_state rq = Rq_delivered" by blast
    have "length (rs_rows (rq_result rq)) \<le> sqo_max_rows opts"
      using shape [OF rq(1)] by (simp add: result_shape_def)
    then show ?thesis
      using read_cell_out_ok [OF shape [OF rq(1)], of row column capacity] rq
      unfolding get by (simp add: read_result_def)
  qed
qed

section \<open>Witness\<close>

text \<open>A database with one query that returns one row with the integer seven.\<close>

definition seven_api :: "(toy_db, nat) sqlite_api" where
  "seven_api = toy_api\<lparr>api_prepare := (\<lambda>sql a db. (SQLITE_OK, if sql = [] then None else Some 0, [])),
     api_column_count := (\<lambda>_. 1), api_column_name := (\<lambda>_ _. Some ''n''),
     api_step := (\<lambda>st db. if st = 0 then (1, db, SQLITE_ROW) else (st, db, SQLITE_DONE)),
     api_cell := (\<lambda>_ _. Cell_integer 7)\<rparr>"

lemma seven_documented:
  "sqlite_documented seven_api fst (\<lambda>db. case snd db of None \<Rightarrow> fst db | Some p \<Rightarrow> p) (\<lambda>_. True)"
  by (auto simp: sqlite_documented_def begin_documented_def commit_documented_def rollback_documented_def
      prepare_documented_def step_documented_def seven_api_def toy_api_def toy_exec_def sqlite_codes split: option.splits)

lemma seven_result:
  "driver_execute sample_layout seven_api sample_sql_options (\<lambda>_. (False, False))
      (rq\<lparr>rq_statements := [\<lparr>st_sql = ''select 1'', st_parameters = []\<rparr>], rq_result := sql_result_new\<rparr>)
      \<lparr>dv_db = ([], None), dv_poisoned = False\<rparr> =
   (\<lparr>dv_db = ([], None), dv_poisoned = False\<rparr>,
    sql_result_new\<lparr>rs_columns := [''n''], rs_rows := [[blank_value\<lparr>va_type := SE_SQL_INT64, va_integer := 7\<rparr>]]\<rparr>)"
  by (simp add: driver_execute_def transaction_def act_bind_def should_cancel_def act_of_def require_def control_def
      seven_api_def toy_api_def toy_exec_def sqlite_codes driver_check_def work_def execute_statement_def
      execute_prepared_def step_statement_def read_columns_def account_def sample_sql_options_def sample_layout_def
      read_row_def read_cell_def rollback_def sql_result_new_def fetch_rows.simps Let_def)

text \<open>The stages of a request that asks for it.\<close>

definition stage :: "request_state \<Rightarrow> sql_result \<Rightarrow> worker_phase \<Rightarrow> sql_service" where
  "stage st res ph = \<lparr>sq_options = sample_sql_options,
     sq_requests = [(1, \<lparr>rq_id = 1, rq_reserved_bytes = 5696,
       rq_statements = [\<lparr>st_sql = ''select 1'', st_parameters = []\<rparr>], rq_result = res, rq_state = st\<rparr>)],
     sq_next_id = 2, sq_reserved_bytes = 5696, sq_stopping = False, sq_worker = ph\<rparr>"

definition idle_driver :: "toy_db driver" where
  "idle_driver = \<lparr>dv_db = ([], None), dv_poisoned = False\<rparr>"

definition seven :: sql_result where
  "seven = sql_result_new\<lparr>rs_columns := [''n''], rs_rows := [[blank_value\<lparr>va_type := SE_SQL_INT64, va_integer := 7\<rparr>]]\<rparr>"

lemma stage_submitted:
  "sql_submit sample_layout (Some sample_sql) 1 (SqlService_new sample_sql_options) = (stage Rq_queued sql_result_new W_waiting, Inr 1)"
  by (simp add: sql_submit_def SqlService_new_def stage_def umap_emplace_def copy_request_def sample_sql_def
      sample_sql_options_def sample_layout_def copy_statement_def add_bytes_def c_text_def c_parameters_def require_def)

lemma stage_taken:
  "stack_work sample_layout seven_api (\<lambda>_. (False, False)) (stage Rq_queued sql_result_new W_waiting, idle_driver) =
     (stage Rq_running sql_result_new (W_taken 1), idle_driver)"
  by (simp add: stack_work_def stage_def worker_step_def worker_take_def find_state_def set_request_def)

lemma stage_executed:
  "stack_work sample_layout seven_api (\<lambda>_. (False, False)) (stage Rq_running sql_result_new (W_taken 1), idle_driver) =
     (stage Rq_running seven (W_executed 1), idle_driver)"
  using seven_result [of "\<lparr>rq_id = 1, rq_reserved_bytes = 5696, rq_statements = [], rq_result = seven, rq_state = Rq_running\<rparr>"]
  by (simp add: stack_work_def stage_def worker_step_def worker_execute_def umap_find_def set_request_def seven_def idle_driver_def)

lemma stage_published:
  "stack_work sample_layout seven_api (\<lambda>_. (False, False)) (stage Rq_running seven (W_executed 1), idle_driver) =
     (stage Rq_complete seven W_waiting, idle_driver)"
  by (simp add: stack_work_def stage_def worker_step_def worker_publish_def umap_find_def set_request_def)

lemma stage_polled: "\<exists>out. sql_poll (stage Rq_complete seven W_waiting) = (stage Rq_delivered seven W_waiting, SE_OK, Some out)
    \<and> ou_request_id out = 1"
  by (simp add: sql_poll_def stage_def find_state_def set_request_def result_output_def)

lemma stage_run:
  "flow_run (stack_act seven_api) (SqlService_new sample_sql_options, idle_driver)
     ([] @ [Accepted 1] @ [Silent] @ [Silent] @ [Silent] @ [Delivers 1]) (stage Rq_delivered seven W_waiting, idle_driver)"
proof -
  let ?act = "stack_act seven_api"
  have work: "?act (a, idle_driver) Silent (b, idle_driver)"
    if "stack_work sample_layout seven_api (\<lambda>_. (False, False)) (a, idle_driver) = (b, idle_driver)" for a b
    using stack_act.work [of seven_api "(a, idle_driver)" sample_layout "\<lambda>_. (False, False)"] that by simp
  have poll: "?act (stage Rq_complete seven W_waiting, idle_driver) (Delivers 1) (stage Rq_delivered seven W_waiting, idle_driver)"
    using stage_polled stack_act.poll [of "stage Rq_complete seven W_waiting" _ _ seven_api idle_driver] by auto
  have one: "?act (SqlService_new sample_sql_options, idle_driver) (Accepted 1) (stage Rq_queued sql_result_new W_waiting, idle_driver)"
    by (rule stack_act.submit [OF stage_submitted])
  note run = flow_run.more [of ?act _ "[]", OF flow_run.none one]
  from flow_run.more [OF flow_run.more [OF flow_run.more [OF flow_run.more [OF run work [OF stage_taken]]
        work [OF stage_executed]] work [OF stage_published]] poll]
  show ?thesis by simp
qed

theorem sql_cells_in_bounds_witness:
  "\<exists>cell. se_sql_get_cell 0x5300000000000001 1 0 0 True False 8
      \<lparr>hg_next = 0x5300000000000002, hg_entries = [(0x5300000000000001, stage Rq_delivered seven W_waiting)]\<rparr> = Inr (SE_OK, cell, [])
    \<and> ce_type cell = SE_SQL_INT64 \<and> ce_integer cell = 7 \<and> ce_type cell \<le> SE_SQL_BLOB"
proof -
  let ?r = "\<lparr>hg_next = 0x5300000000000002, hg_entries = [(0x5300000000000001, stage Rq_delivered seven W_waiting)]\<rparr>"
  have found: "find_handle 0x5300000000000001 ?r = Some (stage Rq_delivered seven W_waiting)"
    by (simp add: find_handle_def umap_find_def)
  have "driver_sound seven_api idle_driver"
    by (simp add: driver_sound_def idle_driver_def seven_api_def toy_api_def)
  note bounds = sql_cells_in_bounds [OF seven_documented sample_sql_options_ok this stage_run found, of 1 0 0 8]
  have "se_sql_get_cell 0x5300000000000001 1 0 0 True False 8 ?r =
      Inr (SE_OK, \<lparr>ce_type = SE_SQL_INT64, ce_size = 0, ce_integer = 7, ce_real = 0\<rparr>, [])"
    by (simp add: se_sql_get_cell_def with_sql_def find_handle_def read_result_def stage_def umap_find_def read_cell_out_def
        seven_def blank_value_def)
  then show ?thesis
    using bounds by auto
qed

end
