(* ===== verification/Abi_Redis.thy ===== *)
theory Abi_Redis
  imports Handle_Registry Redis_Service
begin

text \<open>
  The C interface of the Redis services (src/src/Abi/Redis.cpp): the check of the options, the
  registry and the exports. Whether an address is numeric is decided by Asio and whether Redis was
  compiled in by the build; both are arguments.
\<close>

section \<open>Options\<close>

record se_redis_options =
  ri_struct_size :: nat
  ri_abi_version :: nat
  ri_address :: "string option"
  ri_username :: "string option"
  ri_password :: "string option"
  ri_port :: nat
  ri_security :: nat
  ri_connect_timeout_ms :: nat
  ri_command_timeout_ms :: nat
  ri_max_inflight_requests :: nat
  ri_max_key_bytes :: nat
  ri_max_value_bytes :: nat
  ri_reserved32 :: nat
  ri_max_queue_bytes :: nat
  ri_max_result_bytes :: nat
  ri_reserved :: "u64 list"

definition redis_options_size :: nat where
  "redis_options_size = 2 * 4 + 3 * 8 + 8 * 4 + 2 * 8 + 4 * 8"

definition redis_result_size :: nat where
  "redis_result_size = 2 * 4 + 8 + 4 * 4 + 8 + 192 + 4 * 8"

definition se_redis_options_init :: se_redis_options where
  "se_redis_options_init = \<lparr>ri_struct_size = redis_options_size, ri_abi_version = SE_ABI_VERSION,
     ri_address = None, ri_username = None, ri_password = None, ri_port = 6379, ri_security = SE_SECURITY_TLS,
     ri_connect_timeout_ms = 3000, ri_command_timeout_ms = 3000, ri_max_inflight_requests = 128,
     ri_max_key_bytes = 1024, ri_max_value_bytes = 1024 * 1024, ri_reserved32 = 0,
     ri_max_queue_bytes = 8 * 1024 * 1024, ri_max_result_bytes = 8 * 1024 * 1024, ri_reserved = [0, 0, 0, 0]\<rparr>"

text \<open>The string to use, with the value kept for a null pointer; nothing when it is too long.\<close>

definition copy_string :: "string option \<Rightarrow> nat \<Rightarrow> string \<Rightarrow> string option" where
  "copy_string source limit kept =
     (case source of
        None \<Rightarrow> Some kept
      | Some t \<Rightarrow> if length (c_string t) > limit then None else Some (c_string t))"

definition redis_limits_ok :: "se_redis_options \<Rightarrow> bool" where
  "redis_limits_ok s \<longleftrightarrow>
     \<not> (ri_security s \<noteq> SE_SECURITY_NONE \<or> ri_port s = 0 \<or> ri_port s > 65535
        \<or> ri_connect_timeout_ms s < 100 \<or> ri_connect_timeout_ms s > 30000
        \<or> ri_command_timeout_ms s < 100 \<or> ri_command_timeout_ms s > 30000
        \<or> ri_max_inflight_requests s = 0 \<or> ri_max_inflight_requests s > 65536
        \<or> ri_max_key_bytes s = 0 \<or> ri_max_key_bytes s > 65536
        \<or> ri_max_value_bytes s = 0 \<or> ri_max_value_bytes s > 16 * 1024 * 1024
        \<or> ri_max_queue_bytes s < ri_max_key_bytes s + ri_max_value_bytes s
        \<or> ri_max_queue_bytes s > 1024 * 1024 * 1024
        \<or> ri_max_result_bytes s < ri_max_value_bytes s
        \<or> ri_max_result_bytes s > 1024 * 1024 * 1024)"

definition redis_credentials :: "(string \<Rightarrow> bool) \<Rightarrow> se_redis_options \<Rightarrow> (string \<times> string \<times> string) option" where
  "redis_credentials valid_address s =
     (case (copy_string (ri_address s) 64 ''127.0.0.1'', copy_string (ri_username s) 256 [],
            copy_string (ri_password s) 4096 []) of
        (Some address, Some username, Some password) \<Rightarrow>
          if address = [] \<or> \<not> valid_address address \<or> username \<noteq> [] \<and> password = [] then None
          else Some (address, username, password)
      | _ \<Rightarrow> None)"

definition redis_decode :: "(string \<Rightarrow> bool) \<Rightarrow> se_redis_options option \<Rightarrow> redis_options outcome" where
  "redis_decode valid_address input =
     (case input of
        None \<Rightarrow> Inl (SE_INVALID_ARGUMENT, ''invalid Redis options layout, version or reserved fields'')
      | Some s \<Rightarrow>
          if ri_struct_size s \<noteq> redis_options_size \<or> ri_abi_version s \<noteq> SE_ABI_VERSION
            \<or> ri_reserved32 s \<noteq> 0 \<or> list_ex (\<lambda>v. v \<noteq> 0) (ri_reserved s)
          then Inl (SE_INVALID_ARGUMENT, ''invalid Redis options layout, version or reserved fields'')
          else if ri_security s = SE_SECURITY_TLS
          then Inl (SE_NOT_SUPPORTED, ''Redis TLS is not implemented; no plaintext fallback'')
          else if \<not> redis_limits_ok s
          then Inl (SE_INVALID_ARGUMENT, ''invalid Redis endpoint, timeout or queue limits'')
          else
            (case redis_credentials valid_address s of
               None \<Rightarrow> Inl (SE_INVALID_ARGUMENT, ''invalid Redis numeric address or credential configuration'')
             | Some (address, username, password) \<Rightarrow>
                 Inr \<lparr>ro_address = address, ro_username = username, ro_password = password, ro_port = ri_port s,
                      ro_connect_timeout_ms = ri_connect_timeout_ms s, ro_command_timeout_ms = ri_command_timeout_ms s,
                      ro_max_inflight_requests = ri_max_inflight_requests s, ro_max_key_bytes = ri_max_key_bytes s,
                      ro_max_value_bytes = ri_max_value_bytes s, ro_max_queue_bytes = ri_max_queue_bytes s,
                      ro_max_result_bytes = ri_max_result_bytes s\<rparr>))"

lemma redis_decode_ok: "redis_decode valid_address input = Inr opts \<Longrightarrow> redis_options_ok opts"
  by (auto simp: redis_decode_def redis_limits_ok_def redis_options_ok_def split: option.splits if_splits)

text \<open>Credentials are never sent over a connection whose security was not chosen explicitly.\<close>

lemma redis_init_refused: "redis_decode valid_address (Some se_redis_options_init) =
    Inl (SE_NOT_SUPPORTED, ''Redis TLS is not implemented; no plaintext fallback'')"
  by (simp add: redis_decode_def se_redis_options_init_def)

section \<open>Exports\<close>

type_synonym redises = "redis_service handle_registry"

definition with_redis :: "u64 \<Rightarrow> (redis_service \<Rightarrow> redis_service \<times> 'a abi_body) \<Rightarrow> redises \<Rightarrow> redises \<times> 'a abi_body" where
  "with_redis redis f r =
     (case find_handle redis r of
        None \<Rightarrow> (r, Inl (SE_INVALID_HANDLE, ''invalid Redis handle''))
      | Some s \<Rightarrow> (let (s', body) = f s in (put_handle redis s' r, body)))"

definition se_redis_open ::
  "(string \<Rightarrow> bool) \<Rightarrow> bool \<Rightarrow> se_redis_options option \<Rightarrow> bool \<Rightarrow> redises \<Rightarrow> redises \<times> u64 abi_body" where
  "se_redis_open valid_address supported options redis_out r =
     (if \<not> redis_out then (r, Inl (SE_INVALID_ARGUMENT, ''Redis handle output is required''))
      else
        (case redis_decode valid_address options of
           Inl e \<Rightarrow> (r, Inl e)
         | Inr decoded \<Rightarrow>
             if \<not> supported then (r, Inl (SE_NOT_SUPPORTED, ''Redis support was not compiled''))
             else
               (case register_redis (RedisService_new decoded) r of
                  Inl e \<Rightarrow> (r, Inl e)
                | Inr (r', handle) \<Rightarrow> (r', Inr (SE_OK, handle)))))"

definition submit_body :: "se_status \<Rightarrow> u64 \<Rightarrow> u64 abi_body" where
  "submit_body status i =
     (if status = SE_BACKPRESSURE then Inl (status, ''Redis request or result budget is full; poll results'')
      else if status = SE_STOPPED then Inl (status, ''Redis service is stopped'')
      else if status \<noteq> SE_OK then Inl (status, ''invalid Redis key, value, TTL or exhausted request IDs'')
      else Inr (SE_OK, i))"

definition abi_redis_submit ::
  "u64 \<Rightarrow> nat \<Rightarrow> memory option \<Rightarrow> nat \<Rightarrow> memory option \<Rightarrow> nat \<Rightarrow> nat \<Rightarrow> bool \<Rightarrow> redises \<Rightarrow> redises \<times> u64 abi_body" where
  "abi_redis_submit handle operation key key_size value value_size ttl_ms request_out r =
     (if \<not> request_out then (r, Inl (SE_INVALID_ARGUMENT, ''request_id output is required''))
      else with_redis handle (\<lambda>s.
        case redis_submit operation key key_size value value_size ttl_ms s of
          (s', status, i) \<Rightarrow> (s', submit_body status i)) r)"

definition se_redis_get :: "u64 \<Rightarrow> memory option \<Rightarrow> nat \<Rightarrow> bool \<Rightarrow> redises \<Rightarrow> redises \<times> u64 abi_body" where
  "se_redis_get redis key key_size = abi_redis_submit redis SE_REDIS_GET key key_size None 0 0"

definition se_redis_set ::
  "u64 \<Rightarrow> memory option \<Rightarrow> nat \<Rightarrow> memory option \<Rightarrow> nat \<Rightarrow> nat \<Rightarrow> bool \<Rightarrow> redises \<Rightarrow> redises \<times> u64 abi_body" where
  "se_redis_set redis key key_size value value_size ttl_ms =
     abi_redis_submit redis SE_REDIS_SET key key_size value value_size ttl_ms"

definition se_redis_delete :: "u64 \<Rightarrow> memory option \<Rightarrow> nat \<Rightarrow> bool \<Rightarrow> redises \<Rightarrow> redises \<times> u64 abi_body" where
  "se_redis_delete redis key key_size = abi_redis_submit redis SE_REDIS_DELETE key key_size None 0 0"

definition se_redis_poll ::
  "u64 \<Rightarrow> (nat \<times> nat) option \<Rightarrow> bool \<Rightarrow> nat \<Rightarrow> redises \<Rightarrow> redises \<times> (redis_output \<times> bytes) option abi_body" where
  "se_redis_poll redis header value_null capacity r =
     (if header \<noteq> Some (redis_result_size, SE_ABI_VERSION) \<or> value_null \<and> capacity \<noteq> 0
      then (r, Inl (SE_INVALID_ARGUMENT, ''invalid Redis result layout or payload buffer''))
      else with_redis redis (\<lambda>s. case redis_poll capacity s of (s', status, out) \<Rightarrow> (s', Inr (status, out))) r)"

text \<open>Stop returns when the worker has ended; \<open>net1\<close> and \<open>net2\<close> are what its last steps meet.\<close>

definition redis_join :: "redis_net \<Rightarrow> redis_net \<Rightarrow> redis_service \<Rightarrow> redis_service" where
  "redis_join net1 net2 s = redis_worker net2 (redis_worker net1 (redis_stop s))"

definition se_redis_stop :: "redis_net \<Rightarrow> redis_net \<Rightarrow> u64 \<Rightarrow> redises \<Rightarrow> redises \<times> unit abi_body" where
  "se_redis_stop net1 net2 redis = with_redis redis (\<lambda>s. (redis_join net1 net2 s, Inr (SE_OK, ())))"

definition se_redis_destroy :: "redis_net \<Rightarrow> redis_net \<Rightarrow> u64 \<Rightarrow> redises \<Rightarrow> redises \<times> redis_service abi_body" where
  "se_redis_destroy net1 net2 redis r =
     (case remove_handle redis r of
        None \<Rightarrow> (r, Inl (SE_INVALID_HANDLE, ''invalid Redis handle''))
      | Some (r', s) \<Rightarrow> (r', Inr (SE_OK, redis_join net1 net2 s)))"

lemma redis_join_keeps: "redis_inv s \<Longrightarrow> redis_inv (redis_join n1 n2 s) \<and> rv_stopped (redis_join n1 n2 s)"
  unfolding redis_join_def
  using redis_worker_keeps redis_stop_keeps(1) redis_stop_joins by blast

end
