(* ===== verification/Abi_World.thy ===== *)
theory Abi_World
  imports Abi_Server Abi_Sql Abi_Redis
begin

text \<open>
  The whole library behind its C interface: the three registries with the services they hold. A step
  is one export, with whatever arguments, or one step of a worker thread of some service. The
  invariants of the components hold in every state an application can bring about, and a handle that
  was destroyed is dead for ever.
\<close>

section \<open>Steps\<close>

inductive host_call :: "hosts \<Rightarrow> hosts \<Rightarrow> bool" where
  create: "host_call r (fst (se_server_create options out r))"
| add_listener: "host_call r (fst (se_server_add_listener h listener out r))"
| start: "host_call r (fst (se_server_start env h r))"
| stop: "host_call r (fst (se_server_stop env h r))"
| destroy: "host_call r (fst (se_server_destroy env h r))"
| send: "host_call r (fst (se_server_send h i data n r))"
| disconnect: "host_call r (fst (se_server_disconnect h i r))"
| poll: "host_call r (fst (se_server_poll_event env h header payload_null capacity r))"
| respond: "host_call r (fst (se_http_respond h i rid response r))"
| transport: "find_handle h r = Some x \<Longrightarrow> host_step x x' \<Longrightarrow> host_call r (put_handle h x' r)"

inductive sql_call :: "sqls \<Rightarrow> sqls \<Rightarrow> bool" where
  create: "sql_call r (fst (se_sql_create codes options out r))"
| submit: "sql_call r (fst (se_sql_submit lay h statements count out r))"
| poll: "sql_call r (fst (se_sql_poll h header r))"
| release: "sql_call r (fst (se_sql_release_result h i r))"
| stop: "sql_call r (fst (se_sql_stop driver h r))"
| destroy: "sql_call r (fst (se_sql_destroy driver h r))"
| work: "find_handle h r = Some s \<Longrightarrow> sql_call r (put_handle h (worker_step driver s) r)"

inductive redis_call :: "redises \<Rightarrow> redises \<Rightarrow> bool" where
  opened: "redis_call r (fst (se_redis_open valid supported options out r))"
| get: "n < W32 \<Longrightarrow> redis_call r (fst (se_redis_get h key n out r))"
| set_value: "n < W32 \<Longrightarrow> m < W32 \<Longrightarrow> redis_call r (fst (se_redis_set h key n value m ttl out r))"
| delete: "n < W32 \<Longrightarrow> redis_call r (fst (se_redis_delete h key n out r))"
| poll: "redis_call r (fst (se_redis_poll h header value_null capacity r))"
| stop: "redis_call r (fst (se_redis_stop net1 net2 h r))"
| destroy: "redis_call r (fst (se_redis_destroy net1 net2 h r))"
| work: "find_handle h r = Some s \<Longrightarrow> redis_call r (put_handle h (redis_worker net s) r)"

record abi_world =
  aw_hosts :: hosts
  aw_sqls :: sqls
  aw_redises :: redises

definition abi_initial :: abi_world where
  "abi_initial = \<lparr>aw_hosts = HostRegistry_new, aw_sqls = SqlRegistry_new, aw_redises = RedisRegistry_new\<rparr>"

inductive abi_step :: "abi_world \<Rightarrow> abi_world \<Rightarrow> bool" where
  host: "host_call (aw_hosts w) r \<Longrightarrow> abi_step w (w\<lparr>aw_hosts := r\<rparr>)"
| sql: "sql_call (aw_sqls w) r \<Longrightarrow> abi_step w (w\<lparr>aw_sqls := r\<rparr>)"
| redis: "redis_call (aw_redises w) r \<Longrightarrow> abi_step w (w\<lparr>aw_redises := r\<rparr>)"

section \<open>Calls keep the tables\<close>

lemma with_host_step:
  assumes "\<And>x. host_inv x \<Longrightarrow> host_inv (fst (f x))"
  shows "host_handles.table_step host_inv r (fst (with_host msg h f r))"
proof (cases "find_handle h r")
  case None
  then show ?thesis by (simp add: with_host_def host_handles.table_step.same)
next
  case (Some x)
  then show ?thesis
    using host_handles.table_step.put [OF Some, of host_inv "fst (f x)"] assms [of x]
    by (simp add: with_host_def case_prod_beta Let_def)
qed

lemma create_step: "host_handles.table_step host_inv r (fst (se_server_create options out r))"
proof -
  have "host_inv (ServerHost_new opts)" if "decode_server_options options = Inr opts" for opts
    using host_of_decoded [OF that] by (auto simp: host_initial_def host_inv_new)
  then show ?thesis
    by (auto simp: se_server_create_def host_handles.table_step.same split: sum.split
        intro: host_handles.table_step.register)
qed

lemma host_call_table: "host_call r r' \<Longrightarrow> host_handles.table_step host_inv r r'"
proof (induction rule: host_call.induct)
  case (create r options out)
  show ?case by (rule create_step)
next
  case (add_listener r h listener out)
  have "host_inv (fst (case decode_listener_options listener of
          Inl detail \<Rightarrow> (x, Inl (SE_INVALID_ARGUMENT, detail))
        | Inr decoded \<Rightarrow> map_prod id (or_fail SE_INVALID_STATE) (host_add_listener decoded x)))" if "host_inv x" for x
    using that host_step_inv [OF that host_step.add] by (simp split: sum.split)
  then show ?case
    by (simp add: se_server_add_listener_def with_host_step host_handles.table_step.same)
next
  case (start r env h)
  show ?case
    unfolding se_server_start_def by (rule with_host_step) (simp add: host_step_inv [OF _ host_step.start])
next
  case (stop r env h)
  show ?case
    unfolding se_server_stop_def by (rule with_host_step) (simp add: host_stop_inv)
next
  case (destroy r env h)
  show ?case
    by (auto simp: se_server_destroy_def host_handles.table_step.same split: option.split
        intro: host_handles.table_step.remove)
next
  case (send r h i data n)
  have "host_inv (fst (map_prod id (or_fail SE_IO_ERROR) (host_send i b x)))" if "host_inv x" for x b
    using host_step_inv [OF that host_step.send] by simp
  then show ?case
    by (simp add: se_server_send_def with_host_step host_handles.table_step.same)
next
  case (disconnect r h i)
  show ?case
    unfolding se_server_disconnect_def
    by (rule with_host_step) (simp add: host_step_inv [OF _ host_step.disconnect])
next
  case (poll r env h header payload_null capacity)
  show ?case
    using host_poll_inv
    by (auto simp: se_server_poll_event_def case_prod_beta host_handles.table_step.same intro!: with_host_step)
next
  case (respond r h i rid response)
  have "host_inv (fst (map_prod id (or_fail SE_IO_ERROR) (host_respond_http i rid m x)))" if "host_inv x" for x m
    using host_step_inv [OF that host_step.respond] by simp
  then show ?case
    by (auto simp: se_http_respond_def host_handles.table_step.same intro!: with_host_step split: sum.split)
next
  case (transport h r x x')
  then show ?case
    using host_handles.table_step.put [OF transport(1), of host_inv x'] host_step_inv by blast
qed

lemma with_sql_step:
  assumes "\<And>x. sql_inv x \<Longrightarrow> sql_inv (fst (f x))"
  shows "sql_handles.table_step sql_inv r (fst (with_sql h f r))"
proof (cases "find_handle h r")
  case None
  then show ?thesis by (simp add: with_sql_def sql_handles.table_step.same)
next
  case (Some x)
  then show ?thesis
    using sql_handles.table_step.put [OF Some, of sql_inv "fst (f x)"] assms [of x]
    by (simp add: with_sql_def case_prod_beta Let_def)
qed

lemma sql_submit_keeps: "sql_inv s \<Longrightarrow> sql_inv (fst (sql_submit lay src n s))"
  using sql_submit_inv [of s lay src n] sql_submit_refused [of lay src n s]
  by (cases "sql_submit lay src n s"; cases "snd (sql_submit lay src n s)") auto

lemma sql_create_step: "sql_handles.table_step sql_inv r (fst (se_sql_create codes options out r))"
proof -
  have "sql_inv (SqlService_new opts)" if "decode_options c = Inr opts" for c opts
    using decode_options_ok [OF that] sql_inv_new by blast
  then show ?thesis
    by (auto simp: se_sql_create_def sql_handles.table_step.same and_then_eq_Inr split: option.split sum.split
        intro: sql_handles.table_step.register)
qed

lemma sql_call_table: "sql_call r r' \<Longrightarrow> sql_handles.table_step sql_inv r r'"
proof (induction rule: sql_call.induct)
  case (create r codes options out)
  show ?case by (rule sql_create_step)
next
  case (submit r lay h statements count out)
  show ?case
    by (simp add: se_sql_submit_def with_sql_step sql_submit_keeps sql_handles.table_step.same)
next
  case (poll r h header)
  show ?case
    using sql_poll_inv
    by (auto simp: se_sql_poll_def case_prod_beta sql_handles.table_step.same intro!: with_sql_step)
next
  case (release r h i)
  show ?case
    unfolding se_sql_release_result_def by (rule with_sql_step) (simp add: sql_release_inv)
next
  case (stop r driver h)
  show ?case
    unfolding se_sql_stop_def by (rule with_sql_step) (simp add: sql_join_ends)
next
  case (destroy r driver h)
  show ?case
    by (auto simp: se_sql_destroy_def sql_handles.table_step.same split: option.split
        intro: sql_handles.table_step.remove)
next
  case (work h r s driver)
  then show ?case
    using sql_handles.table_step.put [OF work, of sql_inv "worker_step driver s"] worker_step_inv by blast
qed

lemma with_redis_step:
  assumes "\<And>x. redis_inv x \<Longrightarrow> redis_inv (fst (f x))"
  shows "redis_handles.table_step redis_inv r (fst (with_redis h f r))"
proof (cases "find_handle h r")
  case None
  then show ?thesis by (simp add: with_redis_def redis_handles.table_step.same)
next
  case (Some x)
  then show ?thesis
    using redis_handles.table_step.put [OF Some, of redis_inv "fst (f x)"] assms [of x]
    by (simp add: with_redis_def case_prod_beta Let_def)
qed

lemma redis_submit_keeps:
  assumes "redis_inv s" "n < W32" "m < W32"
  shows "redis_inv (fst (redis_submit op key n value m ttl s))"
proof -
  obtain t st i where sub: "redis_submit op key n value m ttl s = (t, st, i)"
    by (cases "redis_submit op key n value m ttl s") auto
  show ?thesis
    using redis_submit_queue(1) [OF assms, where i = i and t = t] redis_submit_refused [OF sub] assms(1) sub
    by (cases "st = SE_OK") auto
qed

lemma abi_redis_submit_step:
  "n < W32 \<Longrightarrow> m < W32 \<Longrightarrow> redis_handles.table_step redis_inv r (fst (abi_redis_submit h op key n value m ttl out r))"
  using redis_submit_keeps
  by (auto simp: abi_redis_submit_def case_prod_beta redis_handles.table_step.same intro!: with_redis_step)

lemma redis_open_step: "redis_handles.table_step redis_inv r (fst (se_redis_open valid supported options out r))"
proof -
  have "redis_inv (RedisService_new opts)" if "redis_decode valid options = Inr opts" for opts
    using redis_decode_ok [OF that] redis_inv_new by blast
  then show ?thesis
    by (auto simp: se_redis_open_def redis_handles.table_step.same split: sum.split
        intro: redis_handles.table_step.register)
qed

lemma redis_call_table: "redis_call r r' \<Longrightarrow> redis_handles.table_step redis_inv r r'"
proof (induction rule: redis_call.induct)
  case (opened r valid supported options out)
  show ?case by (rule redis_open_step)
next
  case (poll r h header value_null capacity)
  show ?case
    using redis_poll_keeps(1)
    by (auto simp: se_redis_poll_def case_prod_beta redis_handles.table_step.same intro!: with_redis_step)
next
  case (stop r net1 net2 h)
  show ?case
    unfolding se_redis_stop_def by (rule with_redis_step) (simp add: redis_join_keeps)
next
  case (destroy r net1 net2 h)
  show ?case
    by (auto simp: se_redis_destroy_def redis_handles.table_step.same split: option.split
        intro: redis_handles.table_step.remove)
next
  case (work h r s net)
  then show ?case
    using redis_handles.table_step.put [OF work, of redis_inv "redis_worker net s"] redis_worker_keeps by blast
qed (simp_all add: se_redis_get_def se_redis_set_def se_redis_delete_def abi_redis_submit_step)

section \<open>The world\<close>

definition world_inv :: "abi_world \<Rightarrow> bool" where
  "world_inv w \<longleftrightarrow> host_handles.all_good host_inv (aw_hosts w) \<and> sql_handles.all_good sql_inv (aw_sqls w)
     \<and> redis_handles.all_good redis_inv (aw_redises w)"

lemma world_inv_initial: "world_inv abi_initial"
  using registries_new
  by (simp add: world_inv_def abi_initial_def host_handles.all_good_def sql_handles.all_good_def
      redis_handles.all_good_def find_handle_def HostRegistry_new_def SqlRegistry_new_def RedisRegistry_new_def)

lemma abi_step_inv:
  assumes "world_inv w" "abi_step w w'"
  shows "world_inv w' \<and> host_horizon (aw_hosts w) \<le> host_horizon (aw_hosts w')
    \<and> host_horizon (aw_sqls w) \<le> host_horizon (aw_sqls w')
    \<and> redis_horizon_handle (aw_redises w) \<le> redis_horizon_handle (aw_redises w')"
  using assms(2)
proof cases
  case (host r)
  then show ?thesis
    using host_handles.table_step_good [OF host_call_table] assms(1) by (simp add: world_inv_def)
next
  case (sql r)
  then show ?thesis
    using sql_handles.table_step_good [OF sql_call_table] assms(1) by (simp add: world_inv_def)
next
  case (redis r)
  then show ?thesis
    using redis_handles.table_step_good [OF redis_call_table] assms(1) by (simp add: world_inv_def)
qed

interpretation world: transition_system "\<lambda>w. w = abi_initial" abi_step world_inv
  by unfold_locales (auto simp: world_inv_initial abi_step_inv)

text \<open>A handle is live when some registry knows it, and spent when it was issued and is not live.\<close>

definition live :: "abi_world \<Rightarrow> u64 \<Rightarrow> bool" where
  "live w h \<longleftrightarrow> find_handle h (aw_hosts w) \<noteq> None \<or> find_handle h (aw_sqls w) \<noteq> None \<or> find_handle h (aw_redises w) \<noteq> None"

definition spent :: "abi_world \<Rightarrow> u64 \<Rightarrow> bool" where
  "spent w h \<longleftrightarrow> \<not> live w h
     \<and> (unat h div 2 ^ 56 = 0 \<and> unat h < host_horizon (aw_hosts w)
        \<or> unat h div 2 ^ 56 = 0x53 \<and> unat h < host_horizon (aw_sqls w)
        \<or> unat h div 2 ^ 56 = 0x52 \<and> unat h < redis_horizon_handle (aw_redises w))"

lemma world_families:
  assumes "world_inv w"
  shows "find_handle h (aw_hosts w) = Some x \<Longrightarrow> host_inv x \<and> unat h div 2 ^ 56 = 0 \<and> unat h < host_horizon (aw_hosts w)"
    and "find_handle h (aw_sqls w) = Some s \<Longrightarrow> sql_inv s \<and> unat h div 2 ^ 56 = 0x53 \<and> unat h < host_horizon (aw_sqls w)"
    and "find_handle h (aw_redises w) = Some v \<Longrightarrow>
      redis_inv v \<and> unat h div 2 ^ 56 = 0x52 \<and> unat h < redis_horizon_handle (aw_redises w)"
  using assms host_handles.found_family [of "aw_hosts w" h x] sql_handles.found_family [of "aw_sqls w" h s]
    redis_handles.found_family [of "aw_redises w" h v]
  by (simp_all add: world_inv_def host_handles.all_good_def sql_handles.all_good_def redis_handles.all_good_def)

lemma world_steps:
  "abi_step\<^sup>*\<^sup>* w w' \<Longrightarrow> world_inv w \<Longrightarrow> world_inv w' \<and> host_horizon (aw_hosts w) \<le> host_horizon (aw_hosts w')
    \<and> host_horizon (aw_sqls w) \<le> host_horizon (aw_sqls w')
    \<and> redis_horizon_handle (aw_redises w) \<le> redis_horizon_handle (aw_redises w')"
  by (induction rule: rtranclp_induct) (auto dest: abi_step_inv intro: order_trans)

lemma live_dead_spent:
  assumes "world_inv w" "live w h" "abi_step\<^sup>*\<^sup>* w w'" "\<not> live w' h"
  shows "spent w' h"
proof -
  note mono = world_steps [OF assms(3,1)]
  consider x where "find_handle h (aw_hosts w) = Some x" | s where "find_handle h (aw_sqls w) = Some s"
    | v where "find_handle h (aw_redises w) = Some v"
    using assms(2) by (auto simp: live_def)
  then show ?thesis
  proof cases
    case 1
    then show ?thesis
      using world_families(1) [OF assms(1) 1] mono assms(4) by (simp add: spent_def)
  next
    case 2
    then show ?thesis
      using world_families(2) [OF assms(1) 2] mono assms(4) by (simp add: spent_def)
  next
    case 3
    then show ?thesis
      using world_families(3) [OF assms(1) 3] mono assms(4) by (simp add: spent_def)
  qed
qed

lemma not_found_elsewhere:
  assumes "world_inv w"
  shows "unat h div 2 ^ 56 \<noteq> 0 \<Longrightarrow> find_handle h (aw_hosts w) = None"
    and "unat h div 2 ^ 56 \<noteq> 0x53 \<Longrightarrow> find_handle h (aw_sqls w) = None"
    and "unat h div 2 ^ 56 \<noteq> 0x52 \<Longrightarrow> find_handle h (aw_redises w) = None"
  using world_families [OF assms, of h] by (metis not_None_eq)+

lemma spent_step:
  assumes "world_inv w" "spent w h" "abi_step w w'"
  shows "spent w' h"
proof -
  note inv' = abi_step_inv [OF assms(1,3)]
  have none: "find_handle h (aw_hosts w) = None" "find_handle h (aw_sqls w) = None" "find_handle h (aw_redises w) = None"
    using assms(2) by (auto simp: spent_def live_def)
  have good: "host_handles.all_good host_inv (aw_hosts w)" "sql_handles.all_good sql_inv (aw_sqls w)"
      "redis_handles.all_good redis_inv (aw_redises w)"
    using assms(1) by (simp_all add: world_inv_def)
  have dead: "\<not> live w' h"
    using assms(3)
  proof cases
    case (host r)
    have "find_handle h r = None"
    proof (cases "unat h div 2 ^ 56 = 0")
      case True
      then have "unat h < host_horizon (aw_hosts w)" using assms(2) by (simp add: spent_def)
      then show ?thesis
        using host_handles.table_step_stale [OF host_call_table [OF host(2)] good(1)] none(1) by blast
    next
      case False
      then show ?thesis using not_found_elsewhere(1) inv' host(1) by fastforce
    qed
    then show ?thesis using none by (simp add: live_def host(1))
  next
    case (sql r)
    have "find_handle h r = None"
    proof (cases "unat h div 2 ^ 56 = 0x53")
      case True
      then have "unat h < host_horizon (aw_sqls w)" using assms(2) by (simp add: spent_def)
      then show ?thesis
        using sql_handles.table_step_stale [OF sql_call_table [OF sql(2)] good(2)] none(2) by blast
    next
      case False
      then show ?thesis using not_found_elsewhere(2) inv' sql(1) by fastforce
    qed
    then show ?thesis using none by (simp add: live_def sql(1))
  next
    case (redis r)
    have "find_handle h r = None"
    proof (cases "unat h div 2 ^ 56 = 0x52")
      case True
      then have "unat h < redis_horizon_handle (aw_redises w)" using assms(2) by (simp add: spent_def)
      then show ?thesis
        using redis_handles.table_step_stale [OF redis_call_table [OF redis(2)] good(3)] none(3) by blast
    next
      case False
      then show ?thesis using not_found_elsewhere(3) inv' redis(1) by fastforce
    qed
    then show ?thesis using none by (simp add: live_def redis(1))
  qed
  then show ?thesis
    using assms(2) inv' by (auto simp: spent_def intro: less_le_trans)
qed

lemma spent_steps: "abi_step\<^sup>*\<^sup>* w w' \<Longrightarrow> world_inv w \<Longrightarrow> spent w h \<Longrightarrow> spent w' h"
proof (induction rule: rtranclp_induct)
  case (step w' w'')
  then show ?case
    using world_steps [OF step.hyps(1)] spent_step [OF _ _ step.hyps(2)] by blast
qed

section \<open>Properties\<close>

text \<open>
  C11. The library is sound behind its C interface: whatever sequence of exports an application makes,
  with whatever arguments, and however the worker threads of all services interleave with it, every
  server, SQL service and Redis service that a handle names satisfies the invariant of its component,
  and the upper byte of the handle tells its family, so no handle ever names two services.
\<close>

theorem abi_world_sound:
  assumes "world.reaches w"
  shows "(\<forall>h x. find_handle h (aw_hosts w) = Some x \<longrightarrow> host_inv x \<and> unat h div 2 ^ 56 = 0)
    \<and> (\<forall>h s. find_handle h (aw_sqls w) = Some s \<longrightarrow> sql_inv s \<and> unat h div 2 ^ 56 = 0x53)
    \<and> (\<forall>h v. find_handle h (aw_redises w) = Some v \<longrightarrow> redis_inv v \<and> unat h div 2 ^ 56 = 0x52)"
  using world_families [OF world.reaches_inv [OF assms]] by blast

text \<open>
  A refused call leaves the table as it is and fails, with \<^verbatim>\<open>SE_INVALID_ARGUMENT\<close> if its other arguments
  were bad, which the exports look at first, and with \<^verbatim>\<open>SE_INVALID_HANDLE\<close> otherwise.
\<close>

definition rejected :: "bool \<Rightarrow> 'a abi_body \<Rightarrow> bool" where
  "rejected bad b \<longleftrightarrow> (\<exists>text. b = Inl (if bad then SE_INVALID_ARGUMENT else SE_INVALID_HANDLE, text))"

definition refused :: "bool \<Rightarrow> 'r \<Rightarrow> 'r \<times> 'a abi_body \<Rightarrow> bool" where
  "refused bad r result \<longleftrightarrow> fst result = r \<and> rejected bad (snd result)"

lemmas refused_defs = refused_def rejected_def

lemma remove_unknown: "find_handle h r = None \<Longrightarrow> remove_handle h r = None"
  by (simp add: find_handle_def remove_handle_def)

lemma unknown_server_refused:
  assumes "find_handle h r = None"
  shows "refused (\<not> out) r (se_server_add_listener h listener out r)"
    and "refused False r (se_server_start env h r)" and "refused False r (se_server_stop env h r)"
    and "refused False r (se_server_destroy env h r)"
    and "refused (data = None \<and> n \<noteq> 0 \<or> i = 0) r (se_server_send h i data n r)"
    and "refused False r (se_server_disconnect h i r)"
    and "refused (\<not> event_header_ok header \<or> null \<and> capacity \<noteq> 0) r (se_server_poll_event env h header null capacity r)"
    and "refused (i = 0 \<or> rid = 0) r (se_http_respond h i rid response r)"
  using assms remove_unknown [OF assms]
  by (simp_all add: refused_defs with_host_def se_server_add_listener_def se_server_start_def se_server_stop_def
      se_server_destroy_def se_server_send_def se_server_disconnect_def se_server_poll_event_def se_http_respond_def)

lemma unknown_sql_refused:
  assumes "find_handle h r = None"
  shows "refused (\<not> out) r (se_sql_submit lay h statements count out r)"
    and "refused (header \<noteq> Some (sql_result_size, SE_SQL_ABI_VERSION)) r (se_sql_poll h header r)"
    and "rejected (\<not> out \<or> capacity \<noteq> 0 \<and> null) (se_sql_column_name h i column null capacity out r)"
    and "rejected (\<not> out \<or> capacity \<noteq> 0 \<and> null) (se_sql_get_cell h i row column out null capacity r)"
    and "refused False r (se_sql_release_result h i r)" and "refused False r (se_sql_stop driver h r)"
    and "refused False r (se_sql_destroy driver h r)"
  using assms remove_unknown [OF assms]
  by (simp_all add: refused_defs with_sql_def se_sql_submit_def se_sql_poll_def se_sql_column_name_def
      se_sql_get_cell_def se_sql_release_result_def se_sql_stop_def se_sql_destroy_def)

lemma unknown_redis_refused:
  assumes "find_handle h r = None"
  shows "refused (\<not> out) r (se_redis_get h key n out r)"
    and "refused (\<not> out) r (se_redis_set h key n val m ttl out r)"
    and "refused (\<not> out) r (se_redis_delete h key n out r)"
    and "refused (header \<noteq> Some (redis_result_size, SE_ABI_VERSION) \<or> null \<and> capacity \<noteq> 0) r
      (se_redis_poll h header null capacity r)"
    and "refused False r (se_redis_stop net1 net2 h r)" and "refused False r (se_redis_destroy net1 net2 h r)"
  using assms remove_unknown [OF assms]
  by (simp_all add: refused_defs with_redis_def se_redis_get_def se_redis_set_def se_redis_delete_def
      abi_redis_submit_def se_redis_poll_def se_redis_stop_def se_redis_destroy_def)

text \<open>
  C16. A destroyed handle is dead for ever: once a handle that named a service names none any more, no
  later sequence of calls makes it valid again, whatever is created in the meantime. Each export of the
  server, the SQL and the Redis interface that takes a handle then changes nothing and fails: with
  \<^verbatim>\<open>SE_INVALID_ARGUMENT\<close> if its output pointers, its structure header or its session and request ids are
  invalid, because these are looked at first, and with \<^verbatim>\<open>SE_INVALID_HANDLE\<close> in every other case.
\<close>

theorem destroyed_handle_stays_dead:
  assumes "world.reaches w" and "live w h" and "abi_step\<^sup>*\<^sup>* w w1" and "\<not> live w1 h" and "abi_step\<^sup>*\<^sup>* w1 w2"
    and r: "r = aw_hosts w2" "q = aw_sqls w2" "v = aw_redises w2"
  shows "\<not> live w2 h
    \<and> refused (\<not> out) r (se_server_add_listener h listener out r)
    \<and> refused False r (se_server_start env h r) \<and> refused False r (se_server_stop env h r)
    \<and> refused False r (se_server_destroy env h r) \<and> refused False r (se_server_disconnect h i r)
    \<and> refused (data = None \<and> n \<noteq> 0 \<or> i = 0) r (se_server_send h i data n r)
    \<and> refused (\<not> event_header_ok header \<or> null \<and> capacity \<noteq> 0) r (se_server_poll_event env h header null capacity r)
    \<and> refused (i = 0 \<or> rid = 0) r (se_http_respond h i rid response r)
    \<and> refused (\<not> out) q (se_sql_submit lay h statements count out q)
    \<and> refused (header \<noteq> Some (sql_result_size, SE_SQL_ABI_VERSION)) q (se_sql_poll h header q)
    \<and> rejected (\<not> out \<or> capacity \<noteq> 0 \<and> null) (se_sql_column_name h i column null capacity out q)
    \<and> rejected (\<not> out \<or> capacity \<noteq> 0 \<and> null) (se_sql_get_cell h i row column out null capacity q)
    \<and> refused False q (se_sql_release_result h i q)
    \<and> refused False q (se_sql_stop driver h q) \<and> refused False q (se_sql_destroy driver h q)
    \<and> refused (\<not> out) v (se_redis_get h key n out v) \<and> refused (\<not> out) v (se_redis_set h key n val m ttl out v)
    \<and> refused (\<not> out) v (se_redis_delete h key n out v)
    \<and> refused (header \<noteq> Some (redis_result_size, SE_ABI_VERSION) \<or> null \<and> capacity \<noteq> 0) v
        (se_redis_poll h header null capacity v)
    \<and> refused False v (se_redis_stop net1 net2 h v) \<and> refused False v (se_redis_destroy net1 net2 h v)"
proof -
  note inv = world.reaches_inv [OF assms(1)]
  have "spent w1 h" using live_dead_spent [OF inv assms(2,3,4)] .
  then have "spent w2 h"
    using spent_steps [OF assms(5)] world_steps [OF assms(3) inv] by blast
  then have dead: "\<not> live w2 h" by (simp add: spent_def)
  then have "find_handle h r = None" "find_handle h q = None" "find_handle h v = None"
    by (simp_all add: live_def r)
  then show ?thesis
    by (intro conjI dead unknown_server_refused unknown_sql_refused unknown_redis_refused)
qed

section \<open>Witnesses\<close>

definition one_host :: abi_world where
  "one_host = abi_initial\<lparr>aw_hosts := fst (se_server_create (Some se_server_options_init) True HostRegistry_new)\<rparr>"

definition sample_env :: host_env where
  "sample_env = \<lparr>he_alloc = (\<lambda>_. True), he_text_ok = (\<lambda>_. True), he_launch = Launched,
     he_opens = (\<lambda>_. Inr ()), he_invoke_ok = True\<rparr>"

definition no_host :: abi_world where
  "no_host = one_host\<lparr>aw_hosts := fst (se_server_destroy sample_env 1 (aw_hosts one_host))\<rparr>"

definition next_host :: abi_world where
  "next_host = no_host\<lparr>aw_hosts := fst (se_server_create (Some se_server_options_init) True (aw_hosts no_host))\<rparr>"

lemma one_host_reached: "world.reaches one_host"
proof -
  have "abi_step abi_initial one_host"
    unfolding one_host_def using abi_step.host [of abi_initial] host_call.create [of HostRegistry_new "Some se_server_options_init" True]
    by (simp add: abi_initial_def)
  then show ?thesis by (rule world.reaches.step [OF world.reaches.here [OF refl]])
qed

lemma one_host_table: "\<exists>x. aw_hosts one_host = \<lparr>hg_next = 2, hg_entries = [(1, x)]\<rparr>"
proof -
  obtain opts where "decode_server_options (Some se_server_options_init) = Inr opts"
    using decode_server_options_init by blast
  then show ?thesis
    by (simp add: one_host_def se_server_create_def register_host_def HostRegistry_new_def umap_emplace_def)
qed

theorem abi_world_sound_witness: "\<exists>x. find_handle 1 (aw_hosts one_host) = Some x \<and> host_inv x"
  using abi_world_sound [OF one_host_reached] one_host_table by (auto simp: find_handle_def umap_find_def)

theorem destroyed_handle_stays_dead_witness:
  "live one_host 1 \<and> live next_host 2 \<and> \<not> live next_host 1
   \<and> refused False (aw_hosts next_host) (se_server_stop sample_env 1 (aw_hosts next_host))
   \<and> refused True (aw_hosts next_host) (se_server_send 1 0 None 0 (aw_hosts next_host))
   \<and> refused False (aw_sqls next_host) (se_sql_release_result 1 5 (aw_sqls next_host))"
proof -
  obtain x where one: "aw_hosts one_host = \<lparr>hg_next = 2, hg_entries = [(1, x)]\<rparr>"
    using one_host_table by blast
  have others: "find_handle h (aw_sqls one_host) = None" "find_handle h (aw_redises one_host) = None" for h
    by (simp_all add: one_host_def abi_initial_def find_handle_def SqlRegistry_new_def RedisRegistry_new_def)
  have no: "aw_hosts no_host = \<lparr>hg_next = 2, hg_entries = []\<rparr>"
    by (simp add: no_host_def se_server_destroy_def one remove_handle_def umap_find_def umap_erase_def)
  obtain opts where opts: "decode_server_options (Some se_server_options_init) = Inr opts"
    using decode_server_options_init by blast
  have two: "live next_host 2"
    by (simp add: live_def next_host_def no se_server_create_def opts register_host_def umap_emplace_def find_handle_def umap_find_def)
  have same: "aw_sqls no_host = aw_sqls one_host" "aw_redises no_host = aw_redises one_host"
    by (simp_all add: no_host_def)
  have live: "live one_host 1" and dead: "\<not> live no_host 1"
    using others by (simp_all add: live_def one no same find_handle_def umap_find_def)
  have "abi_step one_host no_host"
    unfolding no_host_def by (rule abi_step.host [OF host_call.destroy])
  then have r1: "abi_step\<^sup>*\<^sup>* one_host no_host" by (rule r_into_rtranclp)
  have "abi_step no_host next_host"
    unfolding next_host_def by (rule abi_step.host [OF host_call.create])
  then have r2: "abi_step\<^sup>*\<^sup>* no_host next_host" by (rule r_into_rtranclp)
  show ?thesis
    using destroyed_handle_stays_dead [OF one_host_reached live r1 dead r2 refl refl refl, of _ _ sample_env 0 None 0]
      destroyed_handle_stays_dead [OF one_host_reached live r1 dead r2 refl refl refl, of _ _ _ 5] live two by simp
qed

end
