(* ===== verification/Gns_Endpoint.thy ===== *)
theory Gns_Endpoint
  imports Handle_Registry
begin

text \<open>
  The datagram transport over Valve's GameNetworkingSockets (src/src/Net/Transports/Gns): an endpoint
  with its peers and its bounded event queue (Endpoint.cpp, EndpointEvents.cpp, Options.cpp). The
  library itself is not part of the repository: what its functions return are arguments of the
  operations. Three fields of the state belong to the model only: \<open>ep_log\<close>, the events the
  queue accepted, \<open>ep_taken\<close>, those that polls returned, and \<open>ep_closed\<close>, the native connections closed.
\<close>

section \<open>Options\<close>

definition SE_DATAGRAM_ABI_VERSION :: nat where "SE_DATAGRAM_ABI_VERSION = 0x00010000"
definition SE_DATAGRAM_UNRELIABLE :: nat where "SE_DATAGRAM_UNRELIABLE = 0"
definition SE_DATAGRAM_RELIABLE_ORDERED :: nat where "SE_DATAGRAM_RELIABLE_ORDERED = 1"

record datagram_options =
  dg_struct_size :: nat
  dg_abi_version :: nat
  dg_flags :: u32
  dg_max_peers :: nat
  dg_max_message_bytes :: nat
  dg_max_send_queue_bytes :: nat
  dg_max_event_queue_count :: nat
  dg_connect_timeout_ms :: nat
  dg_max_event_queue_bytes :: nat
  dg_reserved :: "u64 list"

definition datagram_options_size :: nat where
  "datagram_options_size = 8 * 4 + 8 + 4 * 8"

definition datagram_event_size :: nat where
  "datagram_event_size = 4 * 4 + 8 + 2 * 4 + 128 + 4 * 8"

definition allow_remote :: "datagram_options \<Rightarrow> bool" where
  "allow_remote o' \<longleftrightarrow> dg_flags o' AND 1 \<noteq> 0"

definition native_receive_bytes :: "datagram_options \<Rightarrow> nat" where
  "native_receive_bytes o' = max 4096 ((dg_max_message_bytes o' * 2) mod W32)"

definition native_receive_count :: "datagram_options \<Rightarrow> nat" where
  "native_receive_count o' = max 2 (min 1024 (dg_max_event_queue_count o'))"

definition valid_options :: "datagram_options option \<Rightarrow> bool" where
  "valid_options options =
     (case options of
        None \<Rightarrow> False
      | Some o' \<Rightarrow>
          \<not> (dg_struct_size o' \<noteq> datagram_options_size \<or> dg_abi_version o' \<noteq> SE_DATAGRAM_ABI_VERSION
             \<or> dg_flags o' AND (NOT 1) \<noteq> 0 \<or> list_ex (\<lambda>v. v \<noteq> 0) (dg_reserved o'))
          \<and> \<not> (dg_max_peers o' = 0 \<or> dg_max_peers o' > 1024
             \<or> dg_max_message_bytes o' < 64 \<or> dg_max_message_bytes o' > 512 * 1024
             \<or> dg_max_send_queue_bytes o' < 4096 \<or> dg_max_send_queue_bytes o' < dg_max_message_bytes o'
             \<or> dg_max_send_queue_bytes o' > 16 * 1024 * 1024
             \<or> dg_max_event_queue_count o' = 0 \<or> dg_max_event_queue_count o' > 65536
             \<or> dg_max_event_queue_bytes o' < datagram_event_size + dg_max_message_bytes o'
             \<or> dg_max_event_queue_bytes o' > 256 * 1024 * 1024
             \<or> dg_connect_timeout_ms o' < 100 \<or> dg_connect_timeout_ms o' > 60000)
          \<and> (dg_max_send_queue_bytes o' + native_receive_bytes o') * dg_max_peers o' \<le> 512 * 1024 * 1024)"

section \<open>State\<close>

datatype dg_kind = Dg_none | Dg_connected | Dg_message | Dg_disconnected | Dg_overflow

record dg_event =
  de_kind :: dg_kind
  de_delivery :: nat
  de_peer_id :: u64
  de_payload_size :: nat
  de_reason :: int
  de_message :: string

definition empty_event :: dg_event where
  "empty_event = \<lparr>de_kind = Dg_none, de_delivery = 0, de_peer_id = 0, de_payload_size = 0, de_reason = 0, de_message = []\<rparr>"

record dg_peer =
  pe_id :: u64
  pe_connected :: bool

type_synonym native = u32

record endpoint =
  ep_id :: u64
  ep_options :: datagram_options
  ep_listener :: native
  ep_group :: native
  ep_peers :: "(native, dg_peer) umap"
  ep_events :: "(dg_event \<times> bytes) list"
  ep_event_bytes :: nat
  ep_stopped :: bool
  ep_overflow :: bool
  ep_overflow_reported :: bool
  ep_log :: "(dg_kind \<times> u64) list"
  ep_taken :: "(dg_kind \<times> u64) list"
  ep_closed :: "native list"

definition Endpoint_new :: "u64 \<Rightarrow> datagram_options \<Rightarrow> native \<Rightarrow> endpoint" where
  "Endpoint_new i options grp = \<lparr>ep_id = i, ep_options = options, ep_listener = 0, ep_group = grp, ep_peers = [],
     ep_events = [], ep_event_bytes = 0, ep_stopped = False, ep_overflow = False, ep_overflow_reported = False,
     ep_log = [], ep_taken = [], ep_closed = []\<rparr>"

definition ep_shutdown :: "endpoint \<Rightarrow> endpoint" where
  "ep_shutdown e = e\<lparr>ep_stopped := True, ep_closed := ep_closed e @ map fst (ep_peers e), ep_peers := [],
     ep_listener := 0, ep_group := 0, ep_events := [], ep_event_bytes := 0\<rparr>"

definition ep_overflows :: "endpoint \<Rightarrow> endpoint" where
  "ep_overflows e = ep_shutdown (e\<lparr>ep_overflow := True\<rparr>)"

section \<open>The event queue\<close>

definition event_cost :: "dg_event \<times> bytes \<Rightarrow> nat" where
  "event_cost q = datagram_event_size + length (snd q)"

definition event_tag :: "dg_event \<times> bytes \<Rightarrow> dg_kind \<times> u64" where
  "event_tag q = (de_kind (fst q), de_peer_id (fst q))"

text \<open>\<open>alloc\<close>: whether the allocation of the queue entry succeeds; that of table entries is taken to succeed.\<close>

definition ep_push :: "bool \<Rightarrow> dg_event \<Rightarrow> bytes \<Rightarrow> endpoint \<Rightarrow> endpoint \<times> bool" where
  "ep_push alloc event data e =
     (if ep_stopped e then (e, False)
      else
        (let cost = datagram_event_size + length data in
         if length (ep_events e) \<ge> dg_max_event_queue_count (ep_options e)
           \<or> cost > sub64 (dg_max_event_queue_bytes (ep_options e)) (ep_event_bytes e)
         then (ep_overflows e, False)
         else if \<not> alloc then (ep_overflows e, False)
         else (e\<lparr>ep_events := ep_events e @ [(event\<lparr>de_payload_size := length data\<rparr>, data)],
                 ep_event_bytes := add64 (ep_event_bytes e) cost,
                 ep_log := ep_log e @ [(de_kind event, de_peer_id event)]\<rparr>, True)))"

definition ep_take :: "nat \<Rightarrow> endpoint \<Rightarrow> endpoint \<times> se_status \<times> (dg_event \<times> bytes) option" where
  "ep_take capacity e =
     (if ep_overflow e \<and> \<not> ep_overflow_reported e
      then (e\<lparr>ep_overflow_reported := True\<rparr>, SE_OK, Some (empty_event\<lparr>de_kind := Dg_overflow\<rparr>, []))
      else if ep_stopped e then (e, SE_STOPPED, None)
      else
        (case ep_events e of
           [] \<Rightarrow> (e, SE_TIMEOUT, None)
         | q # rest \<Rightarrow>
             if length (snd q) > capacity then (e, SE_BUFFER_TOO_SMALL, Some (fst q, []))
             else (e\<lparr>ep_event_bytes := sub64 (ep_event_bytes e) (event_cost q), ep_events := rest,
                       ep_taken := ep_taken e @ [event_tag q]\<rparr>, SE_OK, Some q)))"

section \<open>Peers\<close>

definition find_peer :: "u64 \<Rightarrow> endpoint \<Rightarrow> (native \<times> dg_peer) option" where
  "find_peer i e = find (\<lambda>entry. pe_id (snd entry) = i) (ep_peers e)"

definition close_native :: "native \<Rightarrow> endpoint \<Rightarrow> endpoint" where
  "close_native c e = e\<lparr>ep_closed := ep_closed e @ [c]\<rparr>"

definition ep_drop :: "bool \<Rightarrow> native \<Rightarrow> int \<Rightarrow> string \<Rightarrow> endpoint \<Rightarrow> endpoint" where
  "ep_drop alloc c reason message e =
     (case umap_find (ep_peers e) c of
        None \<Rightarrow> e
      | Some p \<Rightarrow>
          fst (ep_push alloc
            (empty_event\<lparr>de_kind := Dg_disconnected, de_peer_id := pe_id p, de_reason := reason,
               de_message := bounded_message 128 message\<rparr>) []
            (close_native c (e\<lparr>ep_peers := umap_erase c (ep_peers e)\<rparr>))))"

text \<open>Public peer ids: a counter of the runtime that all endpoints share.\<close>

definition next_peer_id :: "u64 \<Rightarrow> (u64 \<times> u64) option" where
  "next_peer_id n = (if n > 0x00ffffffffffffff then None else Some (0x5000000000000000 OR n, n + 1))"

text \<open>The exception of the exhausted counter, as the boundary reports it.\<close>

definition peer_ids_exhausted :: "se_status \<times> string" where
  "peer_ids_exhausted = (SE_INTERNAL_ERROR, ''Datagram peer ID space exhausted'')"

text \<open>The integer settings of a native connection, and what the library reads back for them.\<close>

datatype config_key =
    K_unencrypted | K_ip_allow_without_auth | K_timeout_initial | K_send_buffer_size | K_recv_buffer_size
  | K_recv_buffer_messages | K_recv_max_message_size | K_recv_max_segments_per_packet

definition native_config :: "datagram_options \<Rightarrow> (config_key \<times> int) list" where
  "native_config o' =
     [(K_unencrypted, 0), (K_ip_allow_without_auth, 2),
      (K_timeout_initial, int (dg_connect_timeout_ms o')),
      (K_send_buffer_size, int (dg_max_send_queue_bytes o')),
      (K_recv_buffer_size, int (native_receive_bytes o')),
      (K_recv_buffer_messages, int (native_receive_count o')),
      (K_recv_max_message_size, int (dg_max_message_bytes o')),
      (K_recv_max_segments_per_packet, 256)]"

record config_read =
  cr_ok :: bool
  cr_int32 :: bool
  cr_size :: nat
  cr_actual :: int

definition config_matches :: "(config_key \<Rightarrow> config_read) option \<Rightarrow> (config_key \<times> int) list \<Rightarrow> bool" where
  "config_matches utils values =
     (case utils of
        None \<Rightarrow> False
      | Some get \<Rightarrow> list_all (\<lambda>(k, v). cr_ok (get k) \<and> cr_int32 (get k) \<and> cr_size (get k) = 4 \<and> cr_actual (get k) = v) values)"

text \<open>
  The answers of the library while a peer is set up: the native handle (zero is invalid), the settings
  it reads back, whether the connection joined the poll group, whether it was accepted.
\<close>

record native_setup =
  ns_handle :: native
  ns_config :: "(config_key \<Rightarrow> config_read) option"
  ns_grouped :: bool
  ns_accepted :: bool

definition setup_matches :: "native_setup \<Rightarrow> endpoint \<Rightarrow> bool" where
  "setup_matches answers e = config_matches (ns_config answers) (native_config (ep_options e))"

text \<open>A native address: the text parses, has no port of its own, and is a loopback address.\<close>

record native_address =
  na_parses :: "string \<Rightarrow> bool"
  na_port_free :: "string \<Rightarrow> bool"
  na_local :: "string \<Rightarrow> bool"

definition address_char :: "char \<Rightarrow> bool" where
  "address_char c \<longleftrightarrow> c = CHR ''.'' \<or> c = CHR '':''
     \<or> (let v = of_char c :: nat in (48 \<le> v \<and> v \<le> 57) \<or> (97 \<le> v \<and> v \<le> 102) \<or> (65 \<le> v \<and> v \<le> 70))"

definition parse_address :: "native_address \<Rightarrow> string option \<Rightarrow> nat \<Rightarrow> bool \<Rightarrow> bool" where
  "parse_address lib text port remote =
     (case text of
        None \<Rightarrow> False
      | Some memory \<Rightarrow>
          (let t = c_string memory;
               dots = length (filter (\<lambda>c. c = CHR ''.'') t);
               colons = length (filter (\<lambda>c. c = CHR '':'') t) in
           \<not> (port = 0 \<or> port > 65535)
           \<and> list_all address_char (take 64 t)
           \<and> \<not> (t = [] \<or> length t \<ge> 64 \<or> colons = 1 \<or> (colons = 0 \<and> dots \<noteq> 3))
           \<and> na_parses lib t \<and> na_port_free lib t \<and> (remote \<or> na_local lib t)))"

definition ep_listen :: "native_address \<Rightarrow> native_setup \<Rightarrow> string option \<Rightarrow> nat \<Rightarrow> endpoint \<Rightarrow> endpoint \<times> se_status" where
  "ep_listen lib answers address port e =
     (if ep_stopped e then (e, SE_STOPPED)
      else if \<not> parse_address lib address port (allow_remote (ep_options e)) then (e, SE_INVALID_ARGUMENT)
      else if ep_listener e \<noteq> 0 then (e, SE_INVALID_STATE)
      else if ns_handle answers = 0 \<or> \<not> setup_matches answers e then (e, SE_IO_ERROR)
      else (e\<lparr>ep_listener := ns_handle answers\<rparr>, SE_OK))"

definition ep_connect :: "native_address \<Rightarrow> native_setup \<Rightarrow> string option \<Rightarrow> nat \<Rightarrow> endpoint \<times> u64 \<Rightarrow>
    (endpoint \<times> u64) \<times> u64 abi_body" where
  "ep_connect lib answers address port = (\<lambda>(e, n).
     if ep_stopped e then ((e, n), Inr (SE_STOPPED, 0))
     else if \<not> parse_address lib address port (allow_remote (ep_options e)) then ((e, n), Inr (SE_INVALID_ARGUMENT, 0))
     else if umap_size (ep_peers e) \<ge> dg_max_peers (ep_options e) then ((e, n), Inr (SE_BACKPRESSURE, 0))
     else if ns_handle answers = 0 then ((e, n), Inr (SE_IO_ERROR, 0))
     else if \<not> setup_matches answers e \<or> \<not> ns_grouped answers then ((close_native (ns_handle answers) e, n), Inr (SE_IO_ERROR, 0))
     else
       (case next_peer_id n of
          None \<Rightarrow> ((close_native (ns_handle answers) e, n), Inl peer_ids_exhausted)
        | Some (i, n') \<Rightarrow>
            if umap_find (ep_peers e) (ns_handle answers) \<noteq> None
            then ((close_native (ns_handle answers) e, n'), Inr (SE_INTERNAL_ERROR, 0))
            else ((e\<lparr>ep_peers := umap_assign (ns_handle answers) \<lparr>pe_id = i, pe_connected = False\<rparr> (ep_peers e)\<rparr>, n'),
                  Inr (SE_OK, i))))"

datatype send_result = Send_ok | Send_limit | Send_invalid_param | Send_invalid_state | Send_no_connection | Send_other

text \<open>\<open>native_send\<close> is the library's answer to a message on a connection.\<close>

definition ep_send :: "(native \<Rightarrow> bytes \<Rightarrow> bool \<Rightarrow> send_result) \<Rightarrow> u64 \<Rightarrow> nat \<Rightarrow> bytes \<Rightarrow> endpoint \<Rightarrow> se_status" where
  "ep_send native_send peer delivery data e =
     (if ep_stopped e then SE_STOPPED
      else if length data > dg_max_message_bytes (ep_options e) then SE_RESULT_TOO_LARGE
      else
        (case find_peer peer e of
           None \<Rightarrow> SE_INVALID_HANDLE
         | Some (c, p) \<Rightarrow>
             if \<not> pe_connected p then SE_INVALID_STATE
             else (case native_send c data (delivery = SE_DATAGRAM_RELIABLE_ORDERED) of
                     Send_ok \<Rightarrow> SE_OK
                   | Send_limit \<Rightarrow> SE_BACKPRESSURE
                   | Send_invalid_param \<Rightarrow> SE_INVALID_ARGUMENT
                   | Send_invalid_state \<Rightarrow> SE_INVALID_STATE
                   | Send_no_connection \<Rightarrow> SE_INVALID_STATE
                   | Send_other \<Rightarrow> SE_IO_ERROR)))"

definition ep_disconnect :: "bool \<Rightarrow> u64 \<Rightarrow> endpoint \<Rightarrow> endpoint \<times> se_status" where
  "ep_disconnect alloc i e =
     (if ep_stopped e then (e, SE_STOPPED)
      else (case find_peer i e of
              None \<Rightarrow> (e, SE_INVALID_HANDLE)
            | Some (c, _) \<Rightarrow> (ep_drop alloc c 0 ''Local disconnect'' e, SE_OK)))"

section \<open>Callbacks\<close>

datatype native_state = Ns_connecting | Ns_connected | Ns_closed_by_peer | Ns_problem | Ns_other

record status_change =
  sc_conn :: native
  sc_state :: native_state
  sc_listen_socket :: native
  sc_local :: bool
  sc_unencrypted :: bool
  sc_end_reason :: int

definition ep_owns :: "status_change \<Rightarrow> endpoint \<Rightarrow> bool" where
  "ep_owns change e \<longleftrightarrow> \<not> ep_stopped e \<and> (umap_find (ep_peers e) (sc_conn change) \<noteq> None
     \<or> ep_listener e \<noteq> 0 \<and> sc_listen_socket change = ep_listener e)"

text \<open>A new inbound connection: admission, configuration, a public id, then acceptance.\<close>

definition ep_admit :: "bool \<Rightarrow> native_setup \<Rightarrow> status_change \<Rightarrow> endpoint \<times> u64 \<Rightarrow> endpoint \<times> u64" where
  "ep_admit alloc answers change = (\<lambda>(e, n).
     let c = sc_conn change in
     if ep_stopped e \<or> umap_size (ep_peers e) \<ge> dg_max_peers (ep_options e)
       \<or> (\<not> allow_remote (ep_options e) \<and> \<not> sc_local change)
     then (close_native c e, n)
     else if \<not> setup_matches answers e \<or> \<not> ns_grouped answers then (close_native c e, n)
     else
       (case next_peer_id n of
          None \<Rightarrow> (ep_overflows (close_native c e), n)
        | Some (i, n') \<Rightarrow>
            (let e' = e\<lparr>ep_peers := umap_assign c \<lparr>pe_id = i, pe_connected = False\<rparr> (ep_peers e)\<rparr> in
             if \<not> ns_accepted answers then (ep_drop alloc c 0 ''Accept failed'' e', n') else (e', n'))))"

definition ep_connected :: "bool \<Rightarrow> native \<Rightarrow> dg_peer \<Rightarrow> endpoint \<Rightarrow> endpoint" where
  "ep_connected alloc c p e =
     (if pe_connected p then e
      else fst (ep_push alloc (empty_event\<lparr>de_kind := Dg_connected, de_peer_id := pe_id p\<rparr>) []
             (e\<lparr>ep_peers := umap_assign c (p\<lparr>pe_connected := True\<rparr>) (ep_peers e)\<rparr>)))"

definition ep_on_status :: "bool \<Rightarrow> native_setup \<Rightarrow> status_change \<Rightarrow> endpoint \<times> u64 \<Rightarrow> endpoint \<times> u64" where
  "ep_on_status alloc answers change = (\<lambda>(e, n).
     case umap_find (ep_peers e) (sc_conn change) of
       None \<Rightarrow> if sc_state change = Ns_connecting then ep_admit alloc answers change (e, n) else (e, n)
     | Some p \<Rightarrow>
         (case sc_state change of
            Ns_connected \<Rightarrow>
              if sc_unencrypted change then (ep_drop alloc (sc_conn change) 0 ''Encryption required'' e, n)
              else (ep_connected alloc (sc_conn change) p e, n)
          | Ns_closed_by_peer \<Rightarrow> (ep_drop alloc (sc_conn change) (sc_end_reason change) ''Transport disconnected'' e, n)
          | Ns_problem \<Rightarrow> (ep_drop alloc (sc_conn change) (sc_end_reason change) ''Transport disconnected'' e, n)
          | _ \<Rightarrow> (e, n)))"

datatype native_receive = Nr_none | Nr_failed | Nr_message native int bytes bool

text \<open>One message of the receive loop; the payload is \<open>data\<close>, its size as the library reports it.\<close>

definition ep_message :: "bool \<Rightarrow> native \<Rightarrow> int \<Rightarrow> bytes \<Rightarrow> bool \<Rightarrow> endpoint \<Rightarrow> endpoint" where
  "ep_message alloc c size_reported data reliable e =
     (case umap_find (ep_peers e) c of
        None \<Rightarrow> e
      | Some p \<Rightarrow>
          if size_reported < 0 \<or> nat size_reported > dg_max_message_bytes (ep_options e)
          then ep_drop alloc c 0 ''Receive limit exceeded'' e
          else if \<not> pe_connected p then ep_drop alloc c 0 ''Message before connected event'' e
          else fst (ep_push alloc (empty_event\<lparr>de_kind := Dg_message, de_peer_id := pe_id p,
                 de_delivery := (if reliable then SE_DATAGRAM_RELIABLE_ORDERED else SE_DATAGRAM_UNRELIABLE)\<rparr>)
                 (take (nat size_reported) data) e))"

text \<open>The loop: at most \<open>budget\<close> of the library's answers, until there is nothing or the endpoint stops.\<close>

fun ep_receive :: "nat \<Rightarrow> (bool \<times> native_receive) list \<Rightarrow> endpoint \<Rightarrow> endpoint" where
  "ep_receive 0 rs e = e"
| "ep_receive (Suc budget) [] e = e"
| "ep_receive (Suc budget) ((alloc, r) # rs) e =
     (if ep_stopped e then e
      else
        (case r of
           Nr_none \<Rightarrow> e
         | Nr_failed \<Rightarrow> ep_overflows e
         | Nr_message c size_reported data reliable \<Rightarrow>
             ep_receive budget rs (ep_message alloc c size_reported data reliable e)))"

section \<open>What an application sees of a peer\<close>

datatype peer_phase = Ph_fresh | Ph_open | Ph_closed | Ph_broken

definition peer_step :: "u64 \<Rightarrow> peer_phase \<Rightarrow> dg_kind \<times> u64 \<Rightarrow> peer_phase" where
  "peer_step i ph ev =
     (if snd ev \<noteq> i then ph
      else
        (case fst ev of
           Dg_connected \<Rightarrow> if ph = Ph_fresh then Ph_open else Ph_broken
         | Dg_message \<Rightarrow> if ph = Ph_open then Ph_open else Ph_broken
         | Dg_disconnected \<Rightarrow> if ph = Ph_fresh \<or> ph = Ph_open then Ph_closed else Ph_broken
         | _ \<Rightarrow> Ph_broken))"

definition peer_phase_of :: "(dg_kind \<times> u64) list \<Rightarrow> u64 \<Rightarrow> peer_phase" where
  "peer_phase_of log i = foldl (peer_step i) Ph_fresh log"

lemma peer_phase_simps [simp]:
  "peer_phase_of [] i = Ph_fresh" "peer_phase_of (log @ [ev]) i = peer_step i (peer_phase_of log i) ev"
  by (simp_all add: peer_phase_of_def)

section \<open>Invariant\<close>

definition peer_horizon :: "u64 \<Rightarrow> nat" where
  "peer_horizon n = 0x5000000000000000 + unat n"

definition queue_ok :: "endpoint \<Rightarrow> bool" where
  "queue_ok e \<longleftrightarrow> ep_event_bytes e = sum_list (map event_cost (ep_events e))
     \<and> ep_event_bytes e \<le> dg_max_event_queue_bytes (ep_options e) \<and> dg_max_event_queue_bytes (ep_options e) < W64
     \<and> length (ep_events e) \<le> dg_max_event_queue_count (ep_options e)
     \<and> (ep_overflow e \<longrightarrow> ep_stopped e) \<and> (ep_stopped e \<longrightarrow> ep_events e = [] \<and> ep_peers e = [])
     \<and> (\<exists>lost. ep_log e = ep_taken e @ map event_tag (ep_events e) @ lost \<and> (lost = [] \<or> ep_stopped e))"

definition peers_ok :: "u64 \<Rightarrow> endpoint \<Rightarrow> bool" where
  "peers_ok n e \<longleftrightarrow> umap_wf (ep_peers e) \<and> umap_size (ep_peers e) \<le> dg_max_peers (ep_options e)
     \<and> (\<forall>c p. umap_find (ep_peers e) c = Some p \<longrightarrow> unat (pe_id p) < peer_horizon n
          \<and> peer_phase_of (ep_log e) (pe_id p) = (if pe_connected p then Ph_open else Ph_fresh))
     \<and> (\<forall>c d p q. umap_find (ep_peers e) c = Some p \<longrightarrow> umap_find (ep_peers e) d = Some q \<longrightarrow> pe_id p = pe_id q \<longrightarrow> c = d)
     \<and> (\<forall>i. peer_phase_of (ep_log e) i \<noteq> Ph_broken)
     \<and> (\<forall>i. peer_horizon n \<le> unat i \<longrightarrow> peer_phase_of (ep_log e) i = Ph_fresh)"

definition ep_inv :: "endpoint \<times> u64 \<Rightarrow> bool" where
  "ep_inv en \<longleftrightarrow> queue_ok (fst en) \<and> peers_ok (snd en) (fst en)"

lemma ep_inv_new: "dg_max_event_queue_bytes options < W64 \<Longrightarrow> ep_inv (Endpoint_new i options g, n)"
  by (simp add: ep_inv_def queue_ok_def peers_ok_def Endpoint_new_def)

lemma shutdown_inv: "queue_ok e \<Longrightarrow> peers_ok n e \<Longrightarrow> queue_ok (ep_shutdown e) \<and> peers_ok n (ep_shutdown e)"
  by (auto simp: queue_ok_def peers_ok_def ep_shutdown_def)

lemma overflows_inv: "queue_ok e \<Longrightarrow> peers_ok n e \<Longrightarrow> queue_ok (ep_overflows e) \<and> peers_ok n (ep_overflows e)"
  by (auto simp: queue_ok_def peers_ok_def ep_overflows_def ep_shutdown_def)

lemma overflows_inv_peers: "peers_ok n e' \<Longrightarrow> ep_log e' = ep_log e \<Longrightarrow> ep_options e' = ep_options e \<Longrightarrow> peers_ok n (ep_overflows e)"
  by (simp add: peers_ok_def ep_overflows_def ep_shutdown_def)

lemma queue_ok_frame: "queue_ok e \<Longrightarrow> queue_ok (e\<lparr>ep_closed := cs\<rparr>)" "queue_ok e \<Longrightarrow> \<not> ep_stopped e \<Longrightarrow> queue_ok (e\<lparr>ep_peers := ps\<rparr>)"
  by (simp_all add: queue_ok_def)

lemma peers_ok_closed: "peers_ok n e \<Longrightarrow> peers_ok n (e\<lparr>ep_closed := cs\<rparr>)"
  by (simp add: peers_ok_def)

text \<open>The three ways a push ends.\<close>

lemma ep_push_cases:
  obtains (stopped) "ep_stopped e" "ep_push alloc ev data e = (e, False)"
  | (overflow) "\<not> ep_stopped e" "ep_push alloc ev data e = (ep_overflows e, False)"
  | (queued) "\<not> ep_stopped e" "length (ep_events e) < dg_max_event_queue_count (ep_options e)"
      "\<not> datagram_event_size + length data > sub64 (dg_max_event_queue_bytes (ep_options e)) (ep_event_bytes e)"
      "ep_push alloc ev data e = (e\<lparr>ep_events := ep_events e @ [(ev\<lparr>de_payload_size := length data\<rparr>, data)],
         ep_event_bytes := add64 (ep_event_bytes e) (datagram_event_size + length data),
         ep_log := ep_log e @ [(de_kind ev, de_peer_id ev)]\<rparr>, True)"
  by (cases "ep_stopped e"; cases "length (ep_events e) \<ge> dg_max_event_queue_count (ep_options e)
        \<or> datagram_event_size + length data > sub64 (dg_max_event_queue_bytes (ep_options e)) (ep_event_bytes e)";
      cases alloc)
    (auto simp: ep_push_def Let_def intro: that)

lemma push_queue_ok: "queue_ok e \<Longrightarrow> queue_ok (fst (ep_push alloc ev data e))"
proof (cases rule: ep_push_cases [of e alloc ev data])
  case queued
  assume q: "queue_ok e"
  then have "ep_event_bytes e + (datagram_event_size + length data) \<le> dg_max_event_queue_bytes (ep_options e)"
    using queued(3) sub64_fits_iff [of "ep_event_bytes e" "dg_max_event_queue_bytes (ep_options e)"]
    by (simp add: queue_ok_def)
  then show ?thesis
    using q queued by (auto simp: queue_ok_def event_cost_def event_tag_def)
qed (auto simp: queue_ok_def ep_overflows_def ep_shutdown_def)

lemma push_frame [simp]:
  "ep_options (fst (ep_push alloc ev data e)) = ep_options e"
  by (cases rule: ep_push_cases [of e alloc ev data]) (simp_all add: ep_overflows_def ep_shutdown_def)

text \<open>
  Pushing an event of a peer keeps the peers in order when the event fits the peer's phase and the
  table \<open>ps\<close> is what the phases say after it.
\<close>

lemma push_peers_ok:
  assumes ok: "peers_ok n e" and mem: "umap_find (ep_peers e) c = Some p"
    and ps: "umap_wf ps" "umap_size ps \<le> umap_size (ep_peers e)"
    and others: "\<And>d. d \<noteq> c \<Longrightarrow> umap_find ps d = umap_find (ep_peers e) d"
    and self: "\<And>q. umap_find ps c = Some q \<Longrightarrow> pe_id q = pe_id p
      \<and> peer_step (pe_id p) (if pe_connected p then Ph_open else Ph_fresh) (de_kind ev, pe_id p) = (if pe_connected q then Ph_open else Ph_fresh)"
    and fits: "peer_step (pe_id p) (if pe_connected p then Ph_open else Ph_fresh) (de_kind ev, pe_id p) \<noteq> Ph_broken"
    and id: "de_peer_id ev = pe_id p" and live: "\<not> ep_stopped e"
  shows "peers_ok n (fst (ep_push alloc ev data (e\<lparr>ep_peers := ps, ep_closed := cs\<rparr>)))"
proof (cases rule: ep_push_cases [of "e\<lparr>ep_peers := ps, ep_closed := cs\<rparr>" alloc ev data])
  case overflow
  then show ?thesis
    using overflows_inv_peers [OF ok, of "e\<lparr>ep_peers := ps, ep_closed := cs\<rparr>"] by simp
next
  case queued
  let ?log = "ep_log e @ [(de_kind ev, pe_id p)]"
  note o = ok [unfolded peers_ok_def]
  have phase: "peer_phase_of (ep_log e) (pe_id p) = (if pe_connected p then Ph_open else Ph_fresh)"
      "unat (pe_id p) < peer_horizon n"
    using o mem by blast+
  have other: "peer_phase_of ?log i = peer_phase_of (ep_log e) i" if "i \<noteq> pe_id p" for i
    using that by (simp add: peer_step_def)
  have at: "peer_phase_of ?log (pe_id p) = peer_step (pe_id p) (if pe_connected p then Ph_open else Ph_fresh) (de_kind ev, pe_id p)"
    using phase by simp
  have old: "umap_find (ep_peers e) d = Some q" "pe_id q \<noteq> pe_id p" if "umap_find ps d = Some q" "d \<noteq> c" for d q
    using that others [of d] o mem by metis+
  have a: "unat (pe_id q) < peer_horizon n \<and> peer_phase_of ?log (pe_id q) = (if pe_connected q then Ph_open else Ph_fresh)"
    if q: "umap_find ps d = Some q" for d q
  proof (cases "d = c")
    case True
    then show ?thesis using self [of q] q at phase(2) by simp
  next
    case False
    then show ?thesis using old [OF q False] other [of "pe_id q"] o by metis
  qed
  have b: "d = d'" if "umap_find ps d = Some q" "umap_find ps d' = Some q'" "pe_id q = pe_id q'" for d d' q q'
  proof (cases "d = c \<or> d' = c")
    case True
    then show ?thesis
      using that old(2) [of d q] old(2) [of d' q'] self by metis
  next
    case False
    then have "umap_find (ep_peers e) d = Some q" "umap_find (ep_peers e) d' = Some q'"
      using old(1) that by auto
    then show ?thesis using o that(3) by blast
  qed
  have c: "peer_phase_of ?log i \<noteq> Ph_broken" for i
    using fits at other [of i] o by (cases "i = pe_id p") auto
  have d: "peer_phase_of ?log i = Ph_fresh" if "peer_horizon n \<le> unat i" for i
    using that other [of i] phase(2) o by (cases "i = pe_id p") auto
  have size: "umap_size ps \<le> dg_max_peers (ep_options e)"
    using ps(2) o by simp
  show ?thesis
    using a b c d size ps(1) queued id unfolding peers_ok_def by simp
qed (use live in simp)

lemma drop_inv:
  assumes "ep_inv (e, n)"
  shows "ep_inv (ep_drop alloc c reason message e, n)"
proof (cases "umap_find (ep_peers e) c")
  case None
  then show ?thesis using assms by (simp add: ep_drop_def)
next
  case (Some p)
  have q: "queue_ok e" and o: "peers_ok n e"
    using assms by (simp_all add: ep_inv_def)
  have live: "\<not> ep_stopped e" and wf: "umap_wf (ep_peers e)"
    using q o Some by (auto simp: queue_ok_def peers_ok_def)
  have sz: "umap_size (umap_erase c (ep_peers e)) \<le> umap_size (ep_peers e)"
    by (rule umap.size_erase_le [OF wf])
  let ?e = "e\<lparr>ep_peers := umap_erase c (ep_peers e), ep_closed := ep_closed e @ [c]\<rparr>"
  have eq: "close_native c (e\<lparr>ep_peers := umap_erase c (ep_peers e)\<rparr>) = ?e"
    by (simp add: close_native_def)
  have "peers_ok n (fst (ep_push alloc ev [] ?e))"
    if "de_kind ev = Dg_disconnected" "de_peer_id ev = pe_id p" for ev
    using that by (intro push_peers_ok [OF o Some umap.wf_erase [OF wf] sz]) (auto simp: peer_step_def live)
  moreover have "queue_ok ?e"
    using q live by (simp add: queue_ok_def)
  ultimately show ?thesis
    using push_queue_ok by (simp add: ep_drop_def Some eq ep_inv_def)
qed

lemma next_peer_id_spec:
  "next_peer_id n = Some (i, n') \<Longrightarrow> unat i = peer_horizon n \<and> peer_horizon n' = Suc (peer_horizon n)"
proof -
  assume a: "next_peer_id n = Some (i, n')"
  then have n: "n \<le> 0x00ffffffffffffff" "i = 0x5000000000000000 OR n" "n' = n + 1"
    by (auto simp: next_peer_id_def not_less split: if_splits)
  then have "unat n \<le> 0x00ffffffffffffff"
    by (simp add: word_le_nat_alt)
  then show ?thesis
    using word_or_base [OF n(1) base_low_bits(2)] unat_inc [of n] n(2,3) by (simp add: peer_horizon_def)
qed

lemma add_peer_inv:
  assumes inv: "ep_inv (e, n)" and id: "next_peer_id n = Some (i, n')" and new: "umap_find (ep_peers e) c = None"
    and live: "\<not> ep_stopped e" and room: "umap_size (ep_peers e) < dg_max_peers (ep_options e)"
  shows "ep_inv (e\<lparr>ep_peers := umap_assign c \<lparr>pe_id = i, pe_connected = False\<rparr> (ep_peers e)\<rparr>, n')"
proof -
  note spec = next_peer_id_spec [OF id]
  note o = inv [unfolded ep_inv_def peers_ok_def, simplified]
  have fresh: "peer_phase_of (ep_log e) i = Ph_fresh"
    using o spec by simp
  have below: "unat (pe_id q) < peer_horizon n" if "umap_find (ep_peers e) d = Some q" for d q
    using o that by blast
  have ne: "pe_id q \<noteq> i" if "umap_find (ep_peers e) d = Some q" for d q
    using below [OF that] spec by auto
  show ?thesis
    using o fresh live room new spec ne below [THEN less_SucI]
    unfolding ep_inv_def peers_ok_def
    by (auto simp: queue_ok_def umap.wf_assign umap.size_assign_new split: if_splits)
qed

lemma closed_inv: "ep_inv (e, n) \<Longrightarrow> ep_inv (close_native c e, n)"
  by (simp add: ep_inv_def queue_ok_def peers_ok_def close_native_def)

lemma overflow_inv: "ep_inv (e, n) \<Longrightarrow> ep_inv (ep_overflows e, n)"
  using overflows_inv by (auto simp: ep_inv_def)

lemma counter_inv: "ep_inv (e, n) \<Longrightarrow> unat n \<le> unat n' \<Longrightarrow> ep_inv (e, n')"
  unfolding ep_inv_def peers_ok_def peer_horizon_def by simp (meson add_left_mono less_le_trans)

lemma next_peer_id_le: "next_peer_id n = Some (i, n') \<Longrightarrow> unat n \<le> unat n'"
  using next_peer_id_spec [of n i n'] by (simp add: peer_horizon_def)

lemma connect_inv: "ep_inv (e, n) \<Longrightarrow> ep_inv (fst (ep_connect lib answers address port (e, n)))"
  using closed_inv counter_inv next_peer_id_le add_peer_inv
  by (auto simp: ep_connect_def not_le split: option.split)

lemma admit_inv:
  assumes "ep_inv (e, n)" "umap_find (ep_peers e) (sc_conn change) = None"
  shows "ep_inv (ep_admit alloc answers change (e, n))"
proof (cases "ep_stopped e \<or> umap_size (ep_peers e) \<ge> dg_max_peers (ep_options e)
       \<or> (\<not> allow_remote (ep_options e) \<and> \<not> sc_local change) \<or> \<not> setup_matches answers e \<or> \<not> ns_grouped answers")
  case True
  then show ?thesis using closed_inv [OF assms(1)] by (auto simp: ep_admit_def Let_def)
next
  case False
  show ?thesis
  proof (cases "next_peer_id n")
    case None
    then show ?thesis
      using False overflow_inv [OF closed_inv [OF assms(1)]] by (auto simp: ep_admit_def Let_def)
  next
    case (Some r)
    then obtain i n' where r: "next_peer_id n = Some (i, n')" by (cases r) auto
    have "ep_inv (e\<lparr>ep_peers := umap_assign (sc_conn change) \<lparr>pe_id = i, pe_connected = False\<rparr> (ep_peers e)\<rparr>, n')"
      using add_peer_inv [OF assms(1) r assms(2)] False by simp
    then show ?thesis
      using False drop_inv by (auto simp: ep_admit_def Let_def r)
  qed
qed

lemma connected_inv:
  assumes "ep_inv (e, n)" "umap_find (ep_peers e) c = Some p"
  shows "ep_inv (ep_connected alloc c p e, n)"
proof (cases "pe_connected p")
  case False
  have q: "queue_ok e" and o: "peers_ok n e"
    using assms(1) by (simp_all add: ep_inv_def)
  have live: "\<not> ep_stopped e" and wf: "umap_wf (ep_peers e)"
    using q o assms(2) by (auto simp: queue_ok_def peers_ok_def)
  let ?ps = "umap_assign c (p\<lparr>pe_connected := True\<rparr>) (ep_peers e)"
  have sz: "umap_size ?ps \<le> umap_size (ep_peers e)"
    using umap.size_assign_old [OF wf assms(2)] by simp
  have "peers_ok n (fst (ep_push alloc ev [] (e\<lparr>ep_peers := ?ps, ep_closed := ep_closed e\<rparr>)))"
    if "de_kind ev = Dg_connected" "de_peer_id ev = pe_id p" for ev
    using that by (intro push_peers_ok [OF o assms(2) umap.wf_assign [OF wf] sz]) (auto simp: peer_step_def live False)
  moreover have "queue_ok (e\<lparr>ep_peers := ?ps\<rparr>)"
    using q live by (simp add: queue_ok_def)
  ultimately show ?thesis
    using push_queue_ok False by (simp add: ep_connected_def ep_inv_def)
qed (use assms in \<open>simp add: ep_connected_def\<close>)

lemma status_inv: "ep_inv (e, n) \<Longrightarrow> ep_inv (ep_on_status alloc answers change (e, n))"
  using drop_inv connected_inv admit_inv
  by (auto simp: ep_on_status_def split: option.split native_state.split)

lemma message_inv:
  assumes "ep_inv (e, n)"
  shows "ep_inv (ep_message alloc c sz data reliable e, n)"
proof (cases "umap_find (ep_peers e) c")
  case (Some p)
  have q: "queue_ok e" and o: "peers_ok n e"
    using assms by (simp_all add: ep_inv_def)
  have live: "\<not> ep_stopped e" and wf: "umap_wf (ep_peers e)"
    using q o Some by (auto simp: queue_ok_def peers_ok_def)
  have "peers_ok n (fst (ep_push alloc ev d (e\<lparr>ep_peers := ep_peers e, ep_closed := ep_closed e\<rparr>)))"
    if "de_kind ev = Dg_message" "de_peer_id ev = pe_id p" "pe_connected p" for ev d
    using that Some by (intro push_peers_ok [OF o Some wf]) (auto simp: peer_step_def live)
  then show ?thesis
    using drop_inv [OF assms] push_queue_ok [OF q] by (simp add: ep_message_def Some ep_inv_def)
qed (use assms in \<open>simp add: ep_message_def\<close>)

lemma receive_inv: "ep_inv (e, n) \<Longrightarrow> ep_inv (ep_receive budget rs e, n)"
proof (induction budget rs e rule: ep_receive.induct)
  case (3 budget alloc r rs e)
  then show ?case
    using overflow_inv message_inv by (auto split: native_receive.split)
qed simp_all

lemma take_inv: "ep_inv (e, n) \<Longrightarrow> ep_inv (fst (ep_take capacity e), n)"
  by (cases "ep_events e") (auto simp: ep_take_def ep_inv_def queue_ok_def peers_ok_def)

end
