(* ===== verification/Gns_Runtime.thy ===== *)
theory Gns_Runtime
  imports Gns_Endpoint Interfaces
begin

text \<open>
  The runtime of the datagram transport (src/src/Net/Transports/Gns/Runtime.cpp) and its C interface
  (src/src/Abi/DatagramTransport.cpp): the table of endpoints under one mutex, the dispatch of the
  library's callbacks, and the exports. A poll that waits releases the mutex, so that other calls run,
  and goes on with \<open>gns_poll_again\<close> on the endpoint it retains, also when that was destroyed meanwhile:
  \<open>rt_retired\<close> holds the destroyed endpoints, and \<open>rt_closed\<close>, a field of the model only, the native
  connections the runtime closed. \<open>supported\<close> is the build option that compiles the transport in.
\<close>

section \<open>State\<close>

record gns_runtime =
  rt_endpoints :: "(u64, endpoint) umap"
  rt_next_endpoint :: u64
  rt_next_peer :: u64
  rt_initialized :: bool
  rt_retired :: "(u64, endpoint) umap"
  rt_closed :: "native list"

definition Runtime_new :: gns_runtime where
  "Runtime_new = \<lparr>rt_endpoints = [], rt_next_endpoint = 1, rt_next_peer = 1, rt_initialized = False,
     rt_retired = [], rt_closed = []\<rparr>"

definition release_if_empty :: "gns_runtime \<Rightarrow> gns_runtime" where
  "release_if_empty r = (if rt_initialized r \<and> rt_endpoints r = [] then r\<lparr>rt_initialized := False\<rparr> else r)"

definition set_endpoint :: "u64 \<Rightarrow> endpoint \<Rightarrow> gns_runtime \<Rightarrow> gns_runtime" where
  "set_endpoint h e r = r\<lparr>rt_endpoints := umap_assign h e (rt_endpoints r)\<rparr>"

section \<open>Operations\<close>

text \<open>\<open>init_error\<close>: why the library does not initialise; \<open>grp\<close>: the poll group it returns, zero when it fails.\<close>

definition gns_create :: "string option \<Rightarrow> native \<Rightarrow> datagram_options \<Rightarrow> gns_runtime \<Rightarrow> gns_runtime \<times> u64 abi_body" where
  "gns_create init_error grp options r =
     (if umap_size (rt_endpoints r) \<ge> 64 then (r, Inr (SE_BACKPRESSURE, 0))
      else if rt_next_endpoint r > 0x00ffffffffffffff then (r, Inr (SE_INTERNAL_ERROR, 0))
      else if \<not> rt_initialized r \<and> init_error \<noteq> None
      then (r, Inl (SE_INTERNAL_ERROR, ''GNS initialization failed: '' @ the init_error))
      else
        (let i = 0x4700000000000000 OR rt_next_endpoint r;
             r' = r\<lparr>rt_initialized := True, rt_next_endpoint := rt_next_endpoint r + 1\<rparr> in
         if grp = 0 then (release_if_empty r', Inl (SE_INTERNAL_ERROR, ''GNS poll group creation failed''))
         else (r'\<lparr>rt_endpoints := fst (umap_emplace i (Endpoint_new i options grp) (rt_endpoints r))\<rparr>, Inr (SE_OK, i))))"

definition with_endpoint ::
  "u64 \<Rightarrow> (endpoint \<times> u64 \<Rightarrow> (endpoint \<times> u64) \<times> 'a abi_body) \<Rightarrow> 'a \<Rightarrow> gns_runtime \<Rightarrow> gns_runtime \<times> 'a abi_body" where
  "with_endpoint h operation nothing r =
     (case umap_find (rt_endpoints r) h of
        None \<Rightarrow> (r, Inr (SE_INVALID_HANDLE, nothing))
      | Some e \<Rightarrow>
          (let ((e', n'), result) = operation (e, rt_next_peer r)
           in (set_endpoint h e' (r\<lparr>rt_next_peer := n'\<rparr>), result)))"

definition gns_listen :: "native_address \<Rightarrow> native_setup \<Rightarrow> u64 \<Rightarrow> string option \<Rightarrow> nat \<Rightarrow> gns_runtime \<Rightarrow>
    gns_runtime \<times> unit abi_body" where
  "gns_listen lib answers h address port =
     with_endpoint h (\<lambda>(e, n). case ep_listen lib answers address port e of (e', st) \<Rightarrow> ((e', n), Inr (st, ()))) ()"

definition gns_connect :: "native_address \<Rightarrow> native_setup \<Rightarrow> u64 \<Rightarrow> string option \<Rightarrow> nat \<Rightarrow> gns_runtime \<Rightarrow>
    gns_runtime \<times> u64 abi_body" where
  "gns_connect lib answers h address port = with_endpoint h (ep_connect lib answers address port) 0"

definition gns_send :: "(native \<Rightarrow> bytes \<Rightarrow> bool \<Rightarrow> send_result) \<Rightarrow> u64 \<Rightarrow> u64 \<Rightarrow> nat \<Rightarrow> bytes \<Rightarrow> gns_runtime \<Rightarrow>
    gns_runtime \<times> unit abi_body" where
  "gns_send native_send h peer delivery data =
     with_endpoint h (\<lambda>(e, n). ((e, n), Inr (ep_send native_send peer delivery data e, ()))) ()"

definition gns_disconnect :: "bool \<Rightarrow> u64 \<Rightarrow> u64 \<Rightarrow> gns_runtime \<Rightarrow> gns_runtime \<times> unit abi_body" where
  "gns_disconnect alloc h peer =
     with_endpoint h (\<lambda>(e, n). case ep_disconnect alloc peer e of (e', st) \<Rightarrow> ((e', n), Inr (st, ()))) ()"

text \<open>A callback of the library: the endpoint that owns the connection or its listener handles it.\<close>

definition status_changed :: "bool \<Rightarrow> native_setup \<Rightarrow> status_change \<Rightarrow> gns_runtime \<Rightarrow> gns_runtime" where
  "status_changed alloc answers change r =
     (case find (\<lambda>entry. ep_owns change (snd entry)) (rt_endpoints r) of
        None \<Rightarrow> if sc_state change = Ns_connecting then r\<lparr>rt_closed := rt_closed r @ [sc_conn change]\<rparr> else r
      | Some (h, e) \<Rightarrow>
          (let (e', n') = ep_on_status alloc answers change (e, rt_next_peer r)
           in set_endpoint h e' (r\<lparr>rt_next_peer := n'\<rparr>)))"

text \<open>What the library does during one pump: its callbacks, then what each endpoint receives.\<close>

record native_pump =
  np_changes :: "(bool \<times> native_setup \<times> status_change) list"
  np_received :: "u64 \<Rightarrow> (bool \<times> native_receive) list"

definition gns_pump :: "native_pump \<Rightarrow> gns_runtime \<Rightarrow> gns_runtime" where
  "gns_pump p r =
     (if \<not> rt_initialized r then r
      else
        (let r' = fold (\<lambda>(alloc, answers, change). status_changed alloc answers change) (np_changes p) r
         in r'\<lparr>rt_endpoints := map (\<lambda>(h, e). (h, ep_receive 64 (np_received p h) e)) (rt_endpoints r')\<rparr>))"

definition gns_take :: "u64 \<Rightarrow> nat \<Rightarrow> gns_runtime \<Rightarrow> gns_runtime \<times> (dg_event \<times> bytes) option abi_body" where
  "gns_take h capacity = with_endpoint h (\<lambda>(e, n). case ep_take capacity e of (e', out) \<Rightarrow> ((e', n), Inr out)) None"

definition gns_poll :: "native_pump \<Rightarrow> u64 \<Rightarrow> nat \<Rightarrow> gns_runtime \<Rightarrow> gns_runtime \<times> (dg_event \<times> bytes) option abi_body" where
  "gns_poll p h capacity r =
     (let first = gns_take h capacity r in
      case snd first of
        Inr (SE_TIMEOUT, _) \<Rightarrow> gns_take h capacity (gns_pump p (fst first))
      | _ \<Rightarrow> first)"

text \<open>A further round of a poll that waited: its endpoint is the one it found at first.\<close>

definition gns_poll_again :: "native_pump \<Rightarrow> u64 \<Rightarrow> nat \<Rightarrow> gns_runtime \<Rightarrow>
    gns_runtime \<times> (dg_event \<times> bytes) option abi_body" where
  "gns_poll_again p h capacity r =
     (case umap_find (rt_retired r) h of
        None \<Rightarrow> gns_poll p h capacity r
      | Some e \<Rightarrow>
          (let (e', out) = ep_take capacity e in (r\<lparr>rt_retired := umap_assign h e' (rt_retired r)\<rparr>, Inr out)))"

definition gns_destroy :: "u64 \<Rightarrow> gns_runtime \<Rightarrow> gns_runtime \<times> unit abi_body" where
  "gns_destroy h r =
     (case umap_find (rt_endpoints r) h of
        None \<Rightarrow> (r, Inr (SE_INVALID_HANDLE, ()))
      | Some e \<Rightarrow>
          (release_if_empty (r\<lparr>rt_endpoints := umap_erase h (rt_endpoints r),
             rt_retired := umap_assign h (ep_shutdown e) (rt_retired r)\<rparr>), Inr (SE_OK, ())))"

section \<open>Exports\<close>

fun description :: "se_status \<Rightarrow> string" where
  "description SE_NOT_SUPPORTED = ''Datagram transport disabled; configure SE_WITH_GNS=ON''"
| "description SE_INVALID_ARGUMENT = ''Invalid datagram transport argument, ABI layout, address or limit''"
| "description SE_INVALID_HANDLE = ''Unknown datagram endpoint or peer handle''"
| "description SE_INVALID_STATE = ''Datagram peer not connected or endpoint already listening''"
| "description SE_BACKPRESSURE = ''Datagram capacity full; message not accepted, poll and retry later''"
| "description SE_RESULT_TOO_LARGE = ''Datagram message exceeds endpoint limit''"
| "description SE_IO_ERROR = ''GNS could not open/configure transport; check address, port and dependency version''"
| "description _ = ''Datagram transport internal failure''"

definition dg_boundary :: "gns_runtime \<times> 'a abi_body \<Rightarrow> gns_runtime \<times> 'a abi_body" where
  "dg_boundary = (\<lambda>(r, body).
     (r, case body of
           Inl thrown \<Rightarrow> Inl thrown
         | Inr (status, x) \<Rightarrow> if status_code status < 0 then Inl (status, description status) else Inr (status, x)))"

definition se_datagram_options_init :: datagram_options where
  "se_datagram_options_init = \<lparr>dg_struct_size = datagram_options_size, dg_abi_version = SE_DATAGRAM_ABI_VERSION,
     dg_flags = 0, dg_max_peers = 64, dg_max_message_bytes = 64 * 1024, dg_max_send_queue_bytes = 256 * 1024,
     dg_max_event_queue_count = 4096, dg_connect_timeout_ms = 10000, dg_max_event_queue_bytes = 8 * 1024 * 1024,
     dg_reserved = [0, 0, 0, 0]\<rparr>"

definition se_datagram_create ::
  "bool \<Rightarrow> string option \<Rightarrow> native \<Rightarrow> datagram_options option \<Rightarrow> bool \<Rightarrow> gns_runtime \<Rightarrow> gns_runtime \<times> u64 abi_body" where
  "se_datagram_create supported init_error grp options endpoint_out r =
     dg_boundary
       (if \<not> endpoint_out \<or> \<not> valid_options options then (r, Inr (SE_INVALID_ARGUMENT, 0))
        else if \<not> supported then (r, Inr (SE_NOT_SUPPORTED, 0))
        else (case options of None \<Rightarrow> (r, Inr (SE_INVALID_ARGUMENT, 0)) | Some o' \<Rightarrow> gns_create init_error grp o' r))"

definition se_datagram_listen :: "bool \<Rightarrow> native_address \<Rightarrow> native_setup \<Rightarrow> u64 \<Rightarrow> string option \<Rightarrow> nat \<Rightarrow> gns_runtime \<Rightarrow>
    gns_runtime \<times> unit abi_body" where
  "se_datagram_listen supported lib answers h address port r =
     dg_boundary (if supported then gns_listen lib answers h address port r else (r, Inr (SE_NOT_SUPPORTED, ())))"

definition se_datagram_connect :: "bool \<Rightarrow> native_address \<Rightarrow> native_setup \<Rightarrow> u64 \<Rightarrow> string option \<Rightarrow> nat \<Rightarrow> bool \<Rightarrow>
    gns_runtime \<Rightarrow> gns_runtime \<times> u64 abi_body" where
  "se_datagram_connect supported lib answers h address port peer_out r =
     dg_boundary (if \<not> peer_out then (r, Inr (SE_INVALID_ARGUMENT, 0))
       else if supported then gns_connect lib answers h address port r else (r, Inr (SE_NOT_SUPPORTED, 0)))"

definition se_datagram_send :: "bool \<Rightarrow> (native \<Rightarrow> bytes \<Rightarrow> bool \<Rightarrow> send_result) \<Rightarrow> u64 \<Rightarrow> u64 \<Rightarrow> nat \<Rightarrow> bytes option \<Rightarrow> nat \<Rightarrow>
    gns_runtime \<Rightarrow> gns_runtime \<times> unit abi_body" where
  "se_datagram_send supported native_send h peer delivery data n r =
     dg_boundary
       (if data = None \<and> n \<noteq> 0 \<or> delivery \<noteq> SE_DATAGRAM_UNRELIABLE \<and> delivery \<noteq> SE_DATAGRAM_RELIABLE_ORDERED
        then (r, Inr (SE_INVALID_ARGUMENT, ()))
        else if \<not> supported then (r, Inr (SE_NOT_SUPPORTED, ()))
        else gns_send native_send h peer delivery (case data of None \<Rightarrow> [] | Some d \<Rightarrow> take n d) r)"

definition se_datagram_poll :: "bool \<Rightarrow> native_pump \<Rightarrow> u64 \<Rightarrow> (nat \<times> nat) option \<Rightarrow> bool \<Rightarrow> nat \<Rightarrow> gns_runtime \<Rightarrow>
    gns_runtime \<times> (dg_event \<times> bytes) option abi_body" where
  "se_datagram_poll supported p h header payload_null capacity r =
     dg_boundary
       (if header \<noteq> Some (datagram_event_size, SE_DATAGRAM_ABI_VERSION) \<or> payload_null \<and> capacity \<noteq> 0
        then (r, Inr (SE_INVALID_ARGUMENT, None))
        else if supported then gns_poll p h capacity r else (r, Inr (SE_NOT_SUPPORTED, None)))"

definition se_datagram_disconnect :: "bool \<Rightarrow> bool \<Rightarrow> u64 \<Rightarrow> u64 \<Rightarrow> gns_runtime \<Rightarrow> gns_runtime \<times> unit abi_body" where
  "se_datagram_disconnect supported alloc h peer r =
     dg_boundary (if supported then gns_disconnect alloc h peer r else (r, Inr (SE_NOT_SUPPORTED, ())))"

definition se_datagram_destroy :: "bool \<Rightarrow> u64 \<Rightarrow> gns_runtime \<Rightarrow> gns_runtime \<times> unit abi_body" where
  "se_datagram_destroy supported h r =
     dg_boundary (if supported then gns_destroy h r else (r, Inr (SE_NOT_SUPPORTED, ())))"

section \<open>Invariant\<close>

definition endpoint_horizon :: "gns_runtime \<Rightarrow> nat" where
  "endpoint_horizon r = 0x4700000000000000 + unat (rt_next_endpoint r)"

definition rt_inv :: "gns_runtime \<Rightarrow> bool" where
  "rt_inv r \<longleftrightarrow> umap_wf (rt_endpoints r) \<and> umap_size (rt_endpoints r) \<le> 64
     \<and> (rt_endpoints r \<noteq> [] \<longrightarrow> rt_initialized r)
     \<and> (\<forall>h e. umap_find (rt_endpoints r) h = Some e \<longrightarrow> ep_inv (e, rt_next_peer r) \<and> unat h < endpoint_horizon r)"

inductive gns_step :: "gns_runtime \<Rightarrow> gns_runtime \<Rightarrow> bool" where
  create: "gns_step r (fst (se_datagram_create supported init_error grp options out r))"
| listen: "gns_step r (fst (se_datagram_listen supported lib answers h address port r))"
| connect: "gns_step r (fst (se_datagram_connect supported lib answers h address port out r))"
| send: "gns_step r (fst (se_datagram_send supported native_send h peer delivery data n r))"
| poll: "gns_step r (fst (se_datagram_poll supported p h header payload_null capacity r))"
| again: "gns_step r (fst (gns_poll_again p h capacity r))"
| disconnect: "gns_step r (fst (se_datagram_disconnect supported alloc h peer r))"
| destroy: "gns_step r (fst (se_datagram_destroy supported h r))"

lemma rt_inv_new: "rt_inv Runtime_new"
  by (simp add: rt_inv_def Runtime_new_def)

lemma release_inv: "rt_inv r \<Longrightarrow> rt_inv (release_if_empty r)"
  by (simp add: rt_inv_def release_if_empty_def endpoint_horizon_def)

text \<open>A step of one endpoint that may draw peer ids keeps the others, whose counter only grows.\<close>

lemma set_endpoint_inv:
  assumes inv: "rt_inv r" and mem: "umap_find (rt_endpoints r) h = Some e"
    and new: "ep_inv (e', n')" and grows: "unat (rt_next_peer r) \<le> unat n'"
  shows "rt_inv (set_endpoint h e' (r\<lparr>rt_next_peer := n'\<rparr>))"
proof -
  have wf: "umap_wf (rt_endpoints r)" using inv by (simp add: rt_inv_def)
  have init: "rt_initialized r" using inv mem by (auto simp: rt_inv_def)
  have kept: "ep_inv (x, n')" if "umap_find (rt_endpoints r) k = Some x" for k x
    using inv that counter_inv [OF _ grows] by (auto simp: rt_inv_def)
  show ?thesis
    using inv mem new kept init umap.wf_assign [OF wf] umap.size_assign_old [OF wf mem]
    by (auto simp: rt_inv_def set_endpoint_def endpoint_horizon_def split: if_splits)
qed

lemma with_endpoint_inv:
  assumes inv: "rt_inv r"
    and keeps: "\<And>e n. ep_inv (e, n) \<Longrightarrow> ep_inv (fst (operation (e, n))) \<and> unat n \<le> unat (snd (fst (operation (e, n))))"
  shows "rt_inv (fst (with_endpoint h operation nothing r))"
proof (cases "umap_find (rt_endpoints r) h")
  case None
  then show ?thesis using inv by (simp add: with_endpoint_def)
next
  case (Some e)
  have "ep_inv (e, rt_next_peer r)" using inv Some by (simp add: rt_inv_def)
  then show ?thesis
    using set_endpoint_inv [OF inv Some, of "fst (fst (operation (e, rt_next_peer r)))" "snd (fst (operation (e, rt_next_peer r)))"]
      keeps [of e "rt_next_peer r"]
    by (simp add: with_endpoint_def Some case_prod_beta Let_def)
qed

lemma listen_inv: "ep_inv (e, n) \<Longrightarrow> ep_inv (fst (ep_listen lib answers address port e), n)"
proof -
  assume inv: "ep_inv (e, n)"
  then have "ep_inv (e\<lparr>ep_listener := l\<rparr>, n)" for l
    by (simp add: ep_inv_def queue_ok_def peers_ok_def)
  then show ?thesis using inv by (simp add: ep_listen_def)
qed

lemma disconnect_inv: "ep_inv (e, n) \<Longrightarrow> ep_inv (fst (ep_disconnect alloc i e), n)"
  using drop_inv by (auto simp: ep_disconnect_def split: option.split)

lemma connect_counter: "unat n \<le> unat (snd (fst (ep_connect lib answers address port (e, n))))"
  using next_peer_id_le by (auto simp: ep_connect_def split: option.split)

lemma status_counter: "unat n \<le> unat (snd (ep_on_status alloc answers change (e, n)))"
  using next_peer_id_le
  by (auto simp: ep_on_status_def ep_admit_def Let_def split: option.split native_state.split)

lemma status_changed_inv:
  assumes "rt_inv r"
  shows "rt_inv (status_changed alloc answers change r)"
proof (cases "find (\<lambda>entry. ep_owns change (snd entry)) (rt_endpoints r)")
  case None
  then show ?thesis using assms by (simp add: status_changed_def rt_inv_def endpoint_horizon_def)
next
  case (Some he)
  obtain h e where he: "he = (h, e)" by (cases he)
  have "(h, e) \<in> set (rt_endpoints r)" using find_SomeD [OF Some] he by simp
  then have mem: "umap_find (rt_endpoints r) h = Some e"
    using assms umap_in_set_find by (auto simp: rt_inv_def)
  then have "ep_inv (e, rt_next_peer r)" using assms by (simp add: rt_inv_def)
  then have "ep_inv (ep_on_status alloc answers change (e, rt_next_peer r))" by (rule status_inv)
  then show ?thesis
    using set_endpoint_inv [OF assms mem, of "fst (ep_on_status alloc answers change (e, rt_next_peer r))"
        "snd (ep_on_status alloc answers change (e, rt_next_peer r))"] status_counter
    by (simp add: status_changed_def Some he case_prod_beta Let_def)
qed

lemma umap_find_map: "umap_find (map (\<lambda>(h, e). (h, f h e)) m) k = map_option (f k) (umap_find m k)"
  by (induction m) (auto simp: umap_find_def)

lemma umap_wf_map: "umap_wf (map (\<lambda>(h, e). (h, f h e)) m) = umap_wf m"
  by (induction m rule: umap_wf.induct) auto

lemma pump_inv: "rt_inv r \<Longrightarrow> rt_inv (gns_pump p r)"
proof -
  assume inv: "rt_inv r"
  have "rt_inv (fold (\<lambda>(alloc, answers, change). status_changed alloc answers change) cs r)" for cs
    using inv by (induction cs arbitrary: r) (auto simp: status_changed_inv)
  then show ?thesis
    using inv receive_inv
    by (auto simp: gns_pump_def Let_def rt_inv_def umap_find_map umap_wf_map umap_size_def endpoint_horizon_def)
qed

lemma take_rt_inv: "rt_inv r \<Longrightarrow> rt_inv (fst (gns_take h capacity r))"
  unfolding gns_take_def by (rule with_endpoint_inv) (auto simp: case_prod_beta take_inv)

lemma poll_rt_inv: "rt_inv r \<Longrightarrow> rt_inv (fst (gns_poll p h capacity r))"
  by (auto simp: gns_poll_def Let_def take_rt_inv pump_inv split: sum.split se_status.split)

text \<open>A handle that create returns was not in the table before and names the new endpoint.\<close>

lemma create_rt_spec:
  assumes inv: "rt_inv r" and limit: "dg_max_event_queue_bytes options < W64"
  shows "rt_inv (fst (gns_create init_error grp options r))"
    and "gns_create init_error grp options r = (r', Inr (SE_OK, h)) \<Longrightarrow>
      umap_find (rt_endpoints r) h = None \<and> umap_find (rt_endpoints r') h = Some (Endpoint_new h options grp)
      \<and> unat h div 2 ^ 56 = 0x47"
proof -
  let ?h = "0x4700000000000000 OR rt_next_endpoint r"
  let ?r = "r\<lparr>rt_initialized := True, rt_next_endpoint := rt_next_endpoint r + 1\<rparr>"
  let ?ok = "umap_size (rt_endpoints r) < 64 \<and> rt_next_endpoint r \<le> 0x00ffffffffffffff \<and> (rt_initialized r \<or> init_error = None)"
  have fresh: "umap_find (rt_endpoints r) ?h = None" "unat ?h = endpoint_horizon r"
      "endpoint_horizon ?r = Suc (endpoint_horizon r)" "endpoint_horizon r < 0x4800000000000000"
      "0x4700000000000000 \<le> endpoint_horizon r" if ok: ?ok
  proof -
    have le: "unat (rt_next_endpoint r) \<le> 0x00ffffffffffffff"
      using ok by (simp add: word_le_nat_alt)
    show h: "unat ?h = endpoint_horizon r"
      using word_or_base [OF _ base_low_bits(1), of "rt_next_endpoint r"] ok by (simp add: endpoint_horizon_def)
    show "endpoint_horizon ?r = Suc (endpoint_horizon r)" "endpoint_horizon r < 0x4800000000000000"
      "0x4700000000000000 \<le> endpoint_horizon r"
      using unat_inc [of "rt_next_endpoint r"] le by (simp_all add: endpoint_horizon_def)
    show "umap_find (rt_endpoints r) ?h = None"
    proof (cases "umap_find (rt_endpoints r) ?h")
      case (Some x)
      then have "unat ?h < endpoint_horizon r" using inv by (auto simp: rt_inv_def)
      then show ?thesis using h by simp
    qed
  qed
  have wf: "umap_wf (rt_endpoints r)" using inv by (simp add: rt_inv_def)
  have base: "rt_inv ?r" if ok: ?ok
    using inv fresh(3) [OF ok] by (auto simp: rt_inv_def intro: less_SucI)
  have added: "rt_inv (?r\<lparr>rt_endpoints := umap_assign ?h (Endpoint_new ?h options grp) (rt_endpoints r)\<rparr>)" if ok: ?ok
  proof -
    have "endpoint_horizon (?r\<lparr>rt_endpoints := m\<rparr>) = Suc (endpoint_horizon r)" for m
      using fresh(3) [OF ok] by (simp add: endpoint_horizon_def)
    then show ?thesis
      using base [OF ok] ok fresh(1,2) [OF ok] ep_inv_new [OF limit] umap.wf_assign [OF wf]
        umap.size_assign_new [OF fresh(1) [OF ok]] fresh(3) [OF ok]
      by (auto simp: rt_inv_def split: if_splits)
  qed
  show "rt_inv (fst (gns_create init_error grp options r))"
  proof (cases ?ok)
    case True
    then show ?thesis
      using added [OF True] release_inv [OF base [OF True]] fresh(1) [OF True]
      by (auto simp: gns_create_def Let_def umap_emplace_def not_less)
  next
    case False
    then show ?thesis using inv by (auto simp: gns_create_def not_less not_le)
  qed
  assume c: "gns_create init_error grp options r = (r', Inr (SE_OK, h))"
  then have ok: ?ok and h: "h = ?h" and r': "rt_endpoints r' = fst (umap_emplace ?h (Endpoint_new ?h options grp) (rt_endpoints r))"
    by (auto simp: gns_create_def Let_def not_less not_le split: if_splits)
  have "unat h div 2 ^ 56 = 0x47"
    using fresh(2,4,5) [OF ok] h by (simp add: div_nat_eqI)
  then show "umap_find (rt_endpoints r) h = None \<and> umap_find (rt_endpoints r') h = Some (Endpoint_new h options grp)
      \<and> unat h div 2 ^ 56 = 0x47"
    using fresh(1) [OF ok] h r' by (simp add: umap_emplace_def)
qed

lemma destroy_rt_inv: "rt_inv r \<Longrightarrow> rt_inv (fst (gns_destroy h r))"
proof (cases "umap_find (rt_endpoints r) h")
  case (Some e)
  assume inv: "rt_inv r"
  then have wf: "umap_wf (rt_endpoints r)" by (simp add: rt_inv_def)
  have "rt_initialized r" using inv Some by (auto simp: rt_inv_def)
  then have "rt_inv (r\<lparr>rt_endpoints := umap_erase h (rt_endpoints r), rt_retired := m\<rparr>)" for m
    using inv umap.wf_erase [OF wf] umap.size_erase_le [OF wf, of h]
    by (auto simp: rt_inv_def endpoint_horizon_def split: if_splits)
  then show ?thesis
    using release_inv by (simp add: gns_destroy_def Some)
qed (simp add: gns_destroy_def)

lemma fst_boundary [simp]: "fst (dg_boundary x) = fst x"
  by (cases x) (simp add: dg_boundary_def)

lemma gns_step_inv: "gns_step r r' \<Longrightarrow> rt_inv r \<Longrightarrow> rt_inv r'"
proof (induction rule: gns_step.induct)
  case (create r supported init_error grp options out)
  then show ?case
    using create_rt_spec(1)
    by (auto simp: se_datagram_create_def valid_options_def split: option.splits)
next
  case (listen r supported lib answers h address port)
  then show ?case
    using listen_inv
    by (auto simp: se_datagram_listen_def gns_listen_def case_prod_beta intro!: with_endpoint_inv)
next
  case (connect r supported lib answers h address port out)
  then show ?case
    using connect_inv connect_counter
    by (auto simp: se_datagram_connect_def gns_connect_def intro!: with_endpoint_inv)
next
  case (send r supported native_send h peer delivery data n)
  then show ?case
    by (auto simp: se_datagram_send_def gns_send_def intro!: with_endpoint_inv)
next
  case (poll r supported p h header payload_null capacity)
  then show ?case
    by (simp add: se_datagram_poll_def poll_rt_inv)
next
  case (again r p h capacity)
  have "rt_inv (r\<lparr>rt_retired := m\<rparr>)" for m
    using again by (simp add: rt_inv_def endpoint_horizon_def)
  then show ?case
    using again by (simp add: gns_poll_again_def poll_rt_inv case_prod_beta split: option.split)
next
  case (disconnect r supported alloc h peer)
  then show ?case
    using disconnect_inv
    by (auto simp: se_datagram_disconnect_def gns_disconnect_def case_prod_beta intro!: with_endpoint_inv)
next
  case (destroy r supported h)
  then show ?case by (simp add: se_datagram_destroy_def destroy_rt_inv)
qed

interpretation gns: transition_system "\<lambda>r. r = Runtime_new" gns_step rt_inv
  by unfold_locales (auto simp: rt_inv_new gns_step_inv)

section \<open>Property\<close>

lemma broken_absorbs: "foldl (peer_step i) Ph_broken log = Ph_broken"
  by (induction log) (auto simp: peer_step_def split: dg_kind.split)

lemma phase_prefix: "peer_phase_of (a @ b) i \<noteq> Ph_broken \<Longrightarrow> peer_phase_of a i \<noteq> Ph_broken"
  using broken_absorbs by (auto simp: peer_phase_of_def)

text \<open>
  C23. What an application is told of a datagram peer is well formed: in every run of the transport,
  whatever the library reports and the application calls, the events that polls of an endpoint have
  returned contain for each peer at most one CONNECTED, messages only after it, at most one
  DISCONNECTED and nothing after that; the event queue and the peer table stay within the options,
  and an endpoint that overflowed has stopped and holds no peer and no event.
\<close>

theorem datagram_event_protocol:
  assumes "gns.reaches r" and "umap_find (rt_endpoints r) h = Some e"
  shows "peer_phase_of (ep_taken e) i \<noteq> Ph_broken
    \<and> sum_list (map event_cost (ep_events e)) \<le> dg_max_event_queue_bytes (ep_options e)
    \<and> length (ep_events e) \<le> dg_max_event_queue_count (ep_options e)
    \<and> umap_size (ep_peers e) \<le> dg_max_peers (ep_options e)
    \<and> (ep_overflow e \<longrightarrow> ep_stopped e \<and> ep_peers e = [] \<and> ep_events e = [])"
proof -
  have inv: "ep_inv (e, rt_next_peer r)"
    using gns.reaches_inv [OF assms(1)] assms(2) by (simp add: rt_inv_def)
  then obtain lost where "ep_log e = ep_taken e @ lost"
    by (auto simp: ep_inv_def queue_ok_def)
  then have "peer_phase_of (ep_taken e) i \<noteq> Ph_broken"
    using inv phase_prefix [of "ep_taken e" lost i] by (simp add: ep_inv_def peers_ok_def)
  then show ?thesis
    using inv by (auto simp: ep_inv_def queue_ok_def peers_ok_def)
qed

text \<open>An endpoint to which a local peer connects.\<close>

definition sample_answers :: native_setup where
  "sample_answers = \<lparr>ns_handle = 9, ns_config = Some (\<lambda>k. \<lparr>cr_ok = True, cr_int32 = True, cr_size = 4,
     cr_actual = the (map_of (native_config se_datagram_options_init) k)\<rparr>), ns_grouped = True, ns_accepted = True\<rparr>"

definition sample_library :: native_address where
  "sample_library = \<lparr>na_parses = (\<lambda>_. True), na_port_free = (\<lambda>_. True), na_local = (\<lambda>_. True)\<rparr>"

definition sample_change :: "native_state \<Rightarrow> status_change" where
  "sample_change st = \<lparr>sc_conn = 5, sc_state = st, sc_listen_socket = 9, sc_local = True, sc_unencrypted = False, sc_end_reason = 0\<rparr>"

definition sample_pump :: native_pump where
  "sample_pump = \<lparr>np_changes = [(True, sample_answers, sample_change Ns_connecting), (True, sample_answers, sample_change Ns_connected)],
     np_received = (\<lambda>_. [(True, Nr_message 5 2 [1, 2] True), (True, Nr_none)])\<rparr>"

definition stage_endpoint ::
  "(native, dg_peer) umap \<Rightarrow> (dg_event \<times> bytes) list \<Rightarrow> (dg_kind \<times> u64) list \<Rightarrow> (dg_kind \<times> u64) list \<Rightarrow> endpoint" where
  "stage_endpoint peers events log taken = (Endpoint_new 0x4700000000000001 se_datagram_options_init 3)\<lparr>ep_listener := 9,
     ep_peers := peers, ep_events := events, ep_event_bytes := sum_list (map event_cost events), ep_log := log, ep_taken := taken\<rparr>"

definition sample_runtime :: "endpoint \<Rightarrow> u64 \<Rightarrow> gns_runtime" where
  "sample_runtime e n = \<lparr>rt_endpoints = [(0x4700000000000001, e)], rt_next_endpoint = 2, rt_next_peer = n, rt_initialized = True,
     rt_retired = [], rt_closed = []\<rparr>"

abbreviation peer_one :: u64 where
  "peer_one \<equiv> 0x5000000000000001"

definition connected_event :: "dg_event \<times> bytes" where
  "connected_event = (empty_event\<lparr>de_kind := Dg_connected, de_peer_id := peer_one\<rparr>, [])"

definition message_event :: "dg_event \<times> bytes" where
  "message_event = (empty_event\<lparr>de_kind := Dg_message, de_peer_id := peer_one, de_delivery := 1, de_payload_size := 2\<rparr>, [1, 2])"

definition polled_endpoint :: endpoint where
  "polled_endpoint = stage_endpoint [(5, \<lparr>pe_id = peer_one, pe_connected = True\<rparr>)] [message_event]
     [(Dg_connected, peer_one), (Dg_message, peer_one)] [(Dg_connected, peer_one)]"

lemmas stage_defs = stage_endpoint_def Endpoint_new_def se_datagram_options_init_def event_cost_def datagram_event_size_def

lemma sample_matches: "ep_options e = se_datagram_options_init \<Longrightarrow> setup_matches sample_answers e"
  by (simp add: setup_matches_def config_matches_def sample_answers_def native_config_def)

lemma sample_created: "fst (se_datagram_create True None 3 (Some se_datagram_options_init) True Runtime_new) =
    sample_runtime (Endpoint_new 0x4700000000000001 se_datagram_options_init 3) 1"
  by (simp add: se_datagram_create_def valid_options_def se_datagram_options_init_def native_receive_bytes_def
      datagram_event_size_def gns_create_def Runtime_new_def sample_runtime_def umap_emplace_def Let_def)

lemma sample_listening: "fst (se_datagram_listen True sample_library sample_answers 0x4700000000000001 (Some ''127.0.0.1'') 7777
      (sample_runtime (Endpoint_new 0x4700000000000001 se_datagram_options_init 3) 1)) = sample_runtime (stage_endpoint [] [] [] []) 1"
  by (simp add: se_datagram_listen_def gns_listen_def with_endpoint_def sample_runtime_def umap_find_def ep_listen_def
      parse_address_def c_string_def address_char_def sample_library_def sample_answers_def Endpoint_new_def
      stage_endpoint_def set_endpoint_def sample_matches [unfolded sample_answers_def] Let_def)

lemma stage_admitted: "ep_on_status True sample_answers (sample_change Ns_connecting) (stage_endpoint [] [] [] [], 1) =
    (stage_endpoint [(5, \<lparr>pe_id = peer_one, pe_connected = False\<rparr>)] [] [] [], 2)"
  by (simp add: ep_on_status_def sample_change_def ep_admit_def next_peer_id_def
      sample_answers_def allow_remote_def setup_matches_def config_matches_def native_config_def stage_defs)

lemma stage_connected: "ep_on_status True sample_answers (sample_change Ns_connected)
      (stage_endpoint [(5, \<lparr>pe_id = peer_one, pe_connected = False\<rparr>)] [] [] [], 2) =
    (stage_endpoint [(5, \<lparr>pe_id = peer_one, pe_connected = True\<rparr>)] [connected_event] [(Dg_connected, peer_one)] [], 2)"
  by (simp add: ep_on_status_def sample_change_def ep_connected_def ep_push_def connected_event_def umap_find_def stage_defs
      empty_event_def)

lemma ep_receive_pos: "0 < b \<Longrightarrow> ep_receive b ((alloc, r) # rs) e =
    (if ep_stopped e then e
     else case r of Nr_none \<Rightarrow> e | Nr_failed \<Rightarrow> ep_overflows e
     | Nr_message c n data reliable \<Rightarrow> ep_receive (b - 1) rs (ep_message alloc c n data reliable e))"
  by (cases b; cases r) simp_all

lemma stage_message: "ep_receive 64 [(True, Nr_message 5 2 [1, 2] True), (True, Nr_none)]
      (stage_endpoint [(5, \<lparr>pe_id = peer_one, pe_connected = True\<rparr>)] [connected_event] [(Dg_connected, peer_one)] []) =
    stage_endpoint [(5, \<lparr>pe_id = peer_one, pe_connected = True\<rparr>)] [connected_event, message_event]
      [(Dg_connected, peer_one), (Dg_message, peer_one)] []"
  by (simp add: ep_receive_pos ep_message_def ep_push_def umap_find_def stage_defs connected_event_def message_event_def
      empty_event_def SE_DATAGRAM_RELIABLE_ORDERED_def)

lemma gns_stage_taken: "fst (ep_take 16 (stage_endpoint [(5, \<lparr>pe_id = peer_one, pe_connected = True\<rparr>)] [connected_event, message_event]
      [(Dg_connected, peer_one), (Dg_message, peer_one)] [])) = polled_endpoint"
  by (simp add: ep_take_def polled_endpoint_def stage_defs connected_event_def message_event_def event_tag_def empty_event_def)

lemma sample_pumped: "gns_pump sample_pump (sample_runtime (stage_endpoint [] [] [] []) 1) =
    sample_runtime (stage_endpoint [(5, \<lparr>pe_id = peer_one, pe_connected = True\<rparr>)] [connected_event, message_event]
      [(Dg_connected, peer_one), (Dg_message, peer_one)] []) 2"
proof -
  have one: "status_changed True sample_answers (sample_change st) (sample_runtime (stage_endpoint ps evs log []) n) =
      sample_runtime (fst (ep_on_status True sample_answers (sample_change st) (stage_endpoint ps evs log [], n)))
        (snd (ep_on_status True sample_answers (sample_change st) (stage_endpoint ps evs log [], n)))" for st ps evs log n
    by (simp add: status_changed_def sample_runtime_def ep_owns_def sample_change_def stage_endpoint_def Endpoint_new_def
        case_prod_beta Let_def set_endpoint_def)
  have init: "rt_initialized (sample_runtime e n)" "rt_endpoints (sample_runtime e n) = [(0x4700000000000001, e)]"
      "(sample_runtime e n)\<lparr>rt_endpoints := [(0x4700000000000001, e')]\<rparr> = sample_runtime e' n" for e e' n
    by (simp_all add: sample_runtime_def)
  show ?thesis
    by (simp add: gns_pump_def init sample_pump_def one stage_admitted stage_connected stage_message Let_def)
qed

lemma sample_polled: "fst (se_datagram_poll True sample_pump 0x4700000000000001 (Some (datagram_event_size, SE_DATAGRAM_ABI_VERSION)) False 16
      (sample_runtime (stage_endpoint [] [] [] []) 1)) = sample_runtime polled_endpoint 2"
proof -
  have take: "fst (gns_take 0x4700000000000001 16 (sample_runtime e n)) = sample_runtime (fst (ep_take 16 e)) n"
      "snd (gns_take 0x4700000000000001 16 (sample_runtime e n)) = Inr (snd (ep_take 16 e))" for e n
    by (simp_all add: gns_take_def with_endpoint_def sample_runtime_def umap_find_def case_prod_beta set_endpoint_def)
  have empty: "ep_take 16 (stage_endpoint [] [] [] []) = (stage_endpoint [] [] [] [], SE_TIMEOUT, None)"
    by (simp add: ep_take_def stage_defs)
  show ?thesis
    by (simp add: se_datagram_poll_def gns_poll_def take empty sample_pumped gns_stage_taken Let_def)
qed

lemma sample_reached: "gns.reaches (sample_runtime polled_endpoint 2)"
proof -
  have "gns.reaches (sample_runtime (Endpoint_new 0x4700000000000001 se_datagram_options_init 3) 1)"
    using gns.reaches.step [OF gns.reaches.here [OF refl] gns_step.create] sample_created by metis
  then have "gns.reaches (sample_runtime (stage_endpoint [] [] [] []) 1)"
    using gns.reaches.step [OF _ gns_step.listen] sample_listening by metis
  then show ?thesis
    using gns.reaches.step [OF _ gns_step.poll] sample_polled by metis
qed

theorem datagram_event_protocol_witness:
  "ep_taken polled_endpoint = [(Dg_connected, peer_one)] \<and> ep_events polled_endpoint = [message_event]
   \<and> peer_phase_of (ep_taken polled_endpoint) peer_one = Ph_open
   \<and> sum_list (map event_cost (ep_events polled_endpoint)) \<le> dg_max_event_queue_bytes (ep_options polled_endpoint)"
proof -
  have found: "umap_find (rt_endpoints (sample_runtime polled_endpoint 2)) 0x4700000000000001 = Some polled_endpoint"
    by (simp add: sample_runtime_def umap_find_def)
  show ?thesis
    using datagram_event_protocol [OF sample_reached found, of peer_one]
    by (simp add: polled_endpoint_def stage_endpoint_def peer_phase_of_def peer_step_def)
qed

end
