(* ===== verification/Threaded_Server.thy ===== *)
theory Threaded_Server
  imports Line_Framer Names Containers Interfaces
begin

text \<open>
  The TCP backend with blocking sockets (src/src/Net/Threaded): one accept thread, one receive thread
  for each client, the owner that starts and stops the server, and any number of threads that send to
  or disconnect clients. The threads share \<^verbatim>\<open>running_\<close>, the registry \<^verbatim>\<open>clients_\<close> under its mutex and the
  \<^verbatim>\<open>closed_\<close> flag of each connection; one access to a shared variable, one locked section or one
  callback is one step, and each thread has a program counter. What the operating system answers is an
  argument of the step (the POSIX branch of SocketOperations.cpp).

  Model only: \<open>tv_log\<close>, the callbacks made so far, \<open>tv_created\<close>, the number of connections, and what a
  connection wrote and read, \<open>cl_sent\<close> and \<open>cl_received\<close>.
\<close>

section \<open>State\<close>

record tcp_options =
  tc_bind_endpoint :: endpoint
  tc_worker_count :: nat
  tc_max_connections :: nat
  tc_max_message_bytes :: nat
  tc_idle_timeout_ms :: u64
  tc_receive_timeout_ms :: int
  tc_no_delay :: bool

text \<open>Which of the callbacks are set, and what they are called with.\<close>

record tcp_callbacks =
  has_accepting :: bool
  has_connected :: bool
  has_message :: bool
  has_disconnected :: bool
  has_error :: bool

datatype tcp_call =
    On_accepting u64 endpoint
  | On_connected u64 endpoint
  | On_message u64 endpoint buffer
  | On_disconnected u64 endpoint
  | On_error string

record client_connection =
  cl_remote :: endpoint
  cl_closed :: bool
  cl_shutdowns :: nat
  cl_timeout :: "int \<times> int"
  cl_no_delay :: bool
  cl_sent :: bytes
  cl_received :: string

datatype receive_pc =
    R_start | R_loop | R_receive | R_dispatch | R_left string | R_disconnect | R_closing | R_notify | R_store | R_finished

record client_thread =
  th_id :: u64
  th_pc :: receive_pc
  th_framer :: line_framer
  th_last_activity :: u64

datatype accept_pc =
    A_none | A_loop | A_wait | A_ready | A_created u64 | A_accepting u64 | A_configure u64 | A_register u64
  | A_connected u64 | A_launch u64 | A_undo u64 string | A_undo_closing u64 string | A_undo_notify u64 string
  | A_undo_report string | A_done

datatype owner_pc = O_idle | O_swap | O_interrupt "u64 list" | O_join_accept | O_join_clients

record threaded_server =
  tv_options :: tcp_options
  tv_callbacks :: tcp_callbacks
  tv_listening :: bool
  tv_running :: bool
  tv_next_id :: u64
  tv_objects :: "(u64, client_connection) umap"
  tv_clients :: "(u64, unit) umap"
  tv_threads :: "client_thread list"
  tv_accept :: accept_pc
  tv_owner :: owner_pc
  tv_sending :: "(u64 \<times> buffer) list"
  tv_closing :: "u64 list"
  tv_info :: "string list"
  tv_log :: "tcp_call list"
  tv_created :: nat

definition TcpServerOptions_default :: tcp_options where
  "TcpServerOptions_default =
     \<lparr>tc_bind_endpoint = \<lparr>ep_address = ''0.0.0.0'', ep_port = 0\<rparr>, tc_worker_count = 4, tc_max_connections = 10000,
      tc_max_message_bytes = 65536, tc_idle_timeout_ms = 300000, tc_receive_timeout_ms = 1000, tc_no_delay = True\<rparr>"

definition Impl_new :: threaded_server where
  "Impl_new =
     \<lparr>tv_options = TcpServerOptions_default,
      tv_callbacks = \<lparr>has_accepting = False, has_connected = False, has_message = False, has_disconnected = False,
        has_error = False\<rparr>,
      tv_listening = False, tv_running = False, tv_next_id = 1,
      tv_objects = [], tv_clients = [], tv_threads = [], tv_accept = A_none, tv_owner = O_idle, tv_sending = [],
      tv_closing = [], tv_info = [], tv_log = [], tv_created = 0\<rparr>"

definition call_back :: "bool \<Rightarrow> tcp_call \<Rightarrow> threaded_server \<Rightarrow> threaded_server" where
  "call_back is_set c s = (if is_set then s\<lparr>tv_log := tv_log s @ [c]\<rparr> else s)"

definition report_error :: "string \<Rightarrow> threaded_server \<Rightarrow> threaded_server" where
  "report_error message s =
     call_back (has_error (tv_callbacks s)) (On_error message) (s\<lparr>tv_info := tv_info s @ [''TCP error: '' @ message]\<rparr>)"

definition remote_of :: "u64 \<Rightarrow> threaded_server \<Rightarrow> endpoint" where
  "remote_of i s = (case umap_find (tv_objects s) i of None \<Rightarrow> \<lparr>ep_address = [], ep_port = 0\<rparr> | Some c \<Rightarrow> cl_remote c)"

definition is_closed :: "u64 \<Rightarrow> threaded_server \<Rightarrow> bool" where
  "is_closed i s = (case umap_find (tv_objects s) i of None \<Rightarrow> True | Some c \<Rightarrow> cl_closed c)"

definition update_object :: "u64 \<Rightarrow> (client_connection \<Rightarrow> client_connection) \<Rightarrow> threaded_server \<Rightarrow> threaded_server" where
  "update_object i f s =
     (case umap_find (tv_objects s) i of None \<Rightarrow> s | Some c \<Rightarrow> s\<lparr>tv_objects := umap_assign i (f c) (tv_objects s)\<rparr>)"

section \<open>Connections\<close>

text \<open>\<^verbatim>\<open>ClientConnection::disconnect\<close>: the flag is exchanged, the socket is shut down by whoever sets it first.\<close>

definition client_disconnect :: "u64 \<Rightarrow> threaded_server \<Rightarrow> threaded_server" where
  "client_disconnect i =
     update_object i (\<lambda>c. if cl_closed c then c else c\<lparr>cl_closed := True, cl_shutdowns := cl_shutdowns c + 1\<rparr>)"

text \<open>
  \<^verbatim>\<open>ClientConnection::send\<close>: \<open>answers k n\<close> is what the \<open>k\<close>-th call of the socket returns for a chunk of
  \<open>n\<close> bytes. The result: the bytes the socket took, and whether all of them went out.
\<close>

function send_loop :: "(nat \<Rightarrow> int \<Rightarrow> int) \<Rightarrow> nat \<Rightarrow> bytes \<Rightarrow> bytes \<times> bool" where
  "send_loop answers k data =
     (if data = [] then ([], True)
      else
        (let sent = answers k (int (min (length data) 2147483647)) in
         if sent \<le> 0 then ([], False)
         else
           (let (more, ok) = send_loop answers (Suc k) (drop (nat sent) data)
            in (take (nat sent) data @ more, ok))))"
  by pat_completeness auto
termination
  by (relation "measure (\<lambda>(_, _, data). length data)") auto

declare send_loop.simps [simp del]

text \<open>What goes out is a prefix of the data, and all of it when the loop succeeds.\<close>

lemma send_loop_prefix: "\<exists>rest. data = fst (send_loop answers k data) @ rest \<and> (snd (send_loop answers k data) \<longrightarrow> rest = [])"
proof (induction answers k data rule: send_loop.induct)
  case (1 answers k data)
  let ?sent = "answers k (int (min (length data) 2147483647))"
  show ?case
  proof (cases "data = [] \<or> ?sent \<le> 0")
    case True
    then show ?thesis by (auto simp: send_loop.simps [of answers k data] Let_def)
  next
    case False
    then obtain rest where "drop (nat ?sent) data = fst (send_loop answers (Suc k) (drop (nat ?sent) data)) @ rest"
        "snd (send_loop answers (Suc k) (drop (nat ?sent) data)) \<longrightarrow> rest = []"
      using 1 by auto
    then show ?thesis
      using False append_take_drop_id [of "nat ?sent" data]
      by (auto simp: send_loop.simps [of answers k data] Let_def case_prod_beta intro!: exI [of _ rest])
  qed
qed

definition client_send :: "(nat \<Rightarrow> int \<Rightarrow> int) \<Rightarrow> string \<Rightarrow> buffer \<Rightarrow> client_connection \<Rightarrow> client_connection \<times> unit res" where
  "client_send answers socket_error data c =
     (if cl_closed c then (c, Inl ''connection is closed'')
      else
        (let (out, ok) = send_loop answers 0 (buf_bytes data)
         in (c\<lparr>cl_sent := cl_sent c @ out\<rparr>, if ok then Inr () else Inl (''send() failed: '' @ socket_error))))"

text \<open>\<^verbatim>\<open>configure_client_socket\<close>: the mode must be set; the time-out is at least a millisecond.\<close>

definition receive_timeval :: "tcp_options \<Rightarrow> int \<times> int" where
  "receive_timeval options = (let ms = max 1 (tc_receive_timeout_ms options) in (ms div 1000, ms mod 1000 * 1000))"

definition configure_client_socket :: "string option \<Rightarrow> tcp_options \<Rightarrow> client_connection \<Rightarrow> client_connection res" where
  "configure_client_socket mode_error options c =
     (case mode_error of
        Some e \<Rightarrow> Inl (''setting client blocking failed: '' @ e)
      | None \<Rightarrow> Inr (c\<lparr>cl_timeout := receive_timeval options, cl_no_delay := tc_no_delay options\<rparr>))"

section \<open>The registry\<close>

text \<open>
  \<^verbatim>\<open>Impl::send\<close> and \<^verbatim>\<open>Impl::disconnect\<close> look the connection up under the mutex and then work on the object
  without it: two steps. \<open>tv_sending\<close> and \<open>tv_closing\<close> hold the calls between the two.
\<close>

definition send_find :: "u64 \<Rightarrow> buffer \<Rightarrow> threaded_server \<Rightarrow> threaded_server \<times> unit res" where
  "send_find i data s =
     (case umap_find (tv_clients s) i of
        None \<Rightarrow> (s, Inl ''connection not found'')
      | Some _ \<Rightarrow> (s\<lparr>tv_sending := (i, data) # tv_sending s\<rparr>, Inr ()))"

definition send_write :: "(nat \<Rightarrow> int \<Rightarrow> int) \<Rightarrow> string \<Rightarrow> u64 \<Rightarrow> buffer \<Rightarrow> threaded_server \<Rightarrow> threaded_server \<times> unit res" where
  "send_write answers socket_error i data s =
     (if (i, data) \<in> set (tv_sending s)
      then (case umap_find (tv_objects s) i of
              None \<Rightarrow> (s, Inl ''connection is closed'')
            | Some c \<Rightarrow>
                (let (c', r) = client_send answers socket_error data c
                 in (s\<lparr>tv_sending := remove1 (i, data) (tv_sending s), tv_objects := umap_assign i c' (tv_objects s)\<rparr>, r)))
      else (s, Inl ''connection not found''))"

definition disconnect_erase :: "u64 \<Rightarrow> threaded_server \<Rightarrow> threaded_server" where
  "disconnect_erase i s =
     (case umap_find (tv_clients s) i of
        None \<Rightarrow> s
      | Some _ \<Rightarrow> s\<lparr>tv_clients := umap_erase i (tv_clients s), tv_closing := i # tv_closing s\<rparr>)"

definition disconnect_close :: "u64 \<Rightarrow> threaded_server \<Rightarrow> threaded_server" where
  "disconnect_close i s =
     (if i \<in> set (tv_closing s) then (client_disconnect i s)\<lparr>tv_closing := remove1 i (tv_closing s)\<rparr> else s)"

section \<open>The accept thread\<close>

definition at_accept :: "accept_pc \<Rightarrow> threaded_server \<Rightarrow> threaded_server" where
  "at_accept pc s = s\<lparr>tv_accept := pc\<rparr>"

record accept_answer =
  aa_ready :: int
  aa_error :: string
  aa_socket :: "endpoint option"
  aa_would_block :: bool
  aa_allowed :: bool
  aa_mode_error :: "string option"
  aa_thread_error :: "string option"

definition reap_finished_clients :: "threaded_server \<Rightarrow> threaded_server" where
  "reap_finished_clients s = s\<lparr>tv_threads := filter (\<lambda>t. th_pc t \<noteq> R_finished) (tv_threads s)\<rparr>"

definition accept_ready :: "accept_answer \<Rightarrow> threaded_server \<Rightarrow> threaded_server" where
  "accept_ready a s =
     (case aa_socket a of
        None \<Rightarrow>
          at_accept A_loop
            (if tv_running s \<and> \<not> aa_would_block a then report_error (''accept() failed: '' @ aa_error a) s else s)
      | Some remote \<Rightarrow>
          (let i = tv_next_id s;
               c = \<lparr>cl_remote = remote, cl_closed = False, cl_shutdowns = 0, cl_timeout = (0, 0), cl_no_delay = False,
                    cl_sent = [], cl_received = []\<rparr> in
           at_accept (A_created i)
             ((reap_finished_clients s)\<lparr>tv_next_id := i + 1, tv_created := tv_created s + 1,
                tv_objects := umap_assign i c (tv_objects s)\<rparr>)))"

definition accept_allow :: "accept_answer \<Rightarrow> u64 \<Rightarrow> threaded_server \<Rightarrow> threaded_server" where
  "accept_allow a i s =
     (if has_accepting (tv_callbacks s)
      then at_accept (if aa_allowed a then A_configure i else A_loop) (call_back True (On_accepting i (remote_of i s)) s)
      else at_accept (A_configure i) s)"

definition accept_configure :: "accept_answer \<Rightarrow> u64 \<Rightarrow> threaded_server \<Rightarrow> threaded_server" where
  "accept_configure a i s =
     (case umap_find (tv_objects s) i of
        None \<Rightarrow> at_accept A_loop s
      | Some c \<Rightarrow>
          (case configure_client_socket (aa_mode_error a) (tv_options s) c of
             Inl e \<Rightarrow> at_accept A_loop (report_error e s)
           | Inr c' \<Rightarrow> at_accept (A_register i) (s\<lparr>tv_objects := umap_assign i c' (tv_objects s)\<rparr>)))"

definition accept_register :: "u64 \<Rightarrow> threaded_server \<Rightarrow> threaded_server" where
  "accept_register i s =
     (if \<not> tv_running s then at_accept A_done s
      else if umap_size (tv_clients s) \<ge> tc_max_connections (tv_options s)
      then at_accept A_loop (report_error ''connection rejected: max TCP connections reached'' s)
      else at_accept (A_connected i) (s\<lparr>tv_clients := fst (umap_emplace i () (tv_clients s))\<rparr>))"

definition launch_client :: "accept_answer \<Rightarrow> u64 \<Rightarrow> threaded_server \<Rightarrow> threaded_server" where
  "launch_client a i s =
     (case aa_thread_error a of
        None \<Rightarrow>
          at_accept A_loop
            (s\<lparr>tv_threads := tv_threads s @
                 [\<lparr>th_id = i, th_pc = R_start, th_framer = LineFramer_new (tc_max_message_bytes (tv_options s)),
                   th_last_activity = 0\<rparr>]\<rparr>)
      | Some e \<Rightarrow> at_accept (A_undo i e) s)"

text \<open>The clean-up of a client whose thread could not be started: it was already published.\<close>

definition undo_erase :: "u64 \<Rightarrow> string \<Rightarrow> threaded_server \<Rightarrow> threaded_server" where
  "undo_erase i e s =
     (case umap_find (tv_clients s) i of
        None \<Rightarrow> at_accept (A_undo_notify i e) s
      | Some _ \<Rightarrow> at_accept (A_undo_closing i e) (s\<lparr>tv_clients := umap_erase i (tv_clients s)\<rparr>))"

definition accept_step :: "accept_answer \<Rightarrow> threaded_server \<Rightarrow> threaded_server" where
  "accept_step a s =
     (case tv_accept s of
        A_none \<Rightarrow> s
      | A_loop \<Rightarrow> at_accept (if tv_running s then A_wait else A_done) s
      | A_wait \<Rightarrow>
          if \<not> tv_running s then at_accept A_done s
          else if aa_ready a < 0 then at_accept A_loop (report_error (''waiting for TCP client failed: '' @ aa_error a) s)
          else at_accept (if aa_ready a = 0 then A_loop else A_ready) s
      | A_ready \<Rightarrow> accept_ready a s
      | A_created i \<Rightarrow> at_accept (if tv_running s then A_accepting i else A_done) s
      | A_accepting i \<Rightarrow> accept_allow a i s
      | A_configure i \<Rightarrow> accept_configure a i s
      | A_register i \<Rightarrow> accept_register i s
      | A_connected i \<Rightarrow>
          at_accept (A_launch i) (call_back (has_connected (tv_callbacks s)) (On_connected i (remote_of i s)) s)
      | A_launch i \<Rightarrow> launch_client a i s
      | A_undo i e \<Rightarrow> undo_erase i e s
      | A_undo_closing i e \<Rightarrow> at_accept (A_undo_notify i e) (client_disconnect i s)
      | A_undo_notify i e \<Rightarrow>
          at_accept (A_undo_report e) (call_back (has_disconnected (tv_callbacks s)) (On_disconnected i (remote_of i s)) s)
      | A_undo_report e \<Rightarrow> at_accept A_loop (report_error (''starting TCP client thread failed: '' @ e) s)
      | A_done \<Rightarrow> s)"

section \<open>The receive threads\<close>

datatype receive_answer = Received string | Receive_end | Receive_timeout | Receive_failed string

text \<open>
  After \<^verbatim>\<open>recv\<close>, with the time \<open>now\<close> on the clock: the next program counter, framer, time of the last
  activity, and a line for the log. \<open>Received\<close> holds at least one byte.
\<close>

definition after_receive :: "tcp_options \<Rightarrow> bool \<Rightarrow> endpoint \<Rightarrow> receive_answer \<Rightarrow> u64 \<Rightarrow> client_thread \<Rightarrow>
    client_thread \<times> string list" where
  "after_receive options closed remote answer now t =
     (case answer of
        Received bytes \<Rightarrow>
          if bytes = [] then (t\<lparr>th_pc := R_left []\<rparr>, [])
          else
            (let (f, ok) = framer_append (th_framer t) bytes
             in (t\<lparr>th_framer := f, th_last_activity := now,
                   th_pc := (if ok then R_dispatch else R_left ''connection closed: message exceeds max_message_bytes'')\<rparr>, []))
      | Receive_end \<Rightarrow> (t\<lparr>th_pc := R_left []\<rparr>, [])
      | Receive_failed e \<Rightarrow> (t\<lparr>th_pc := R_left (if closed then [] else ''recv() failed: '' @ e)\<rparr>, [])
      | Receive_timeout \<Rightarrow>
          if closed then (t\<lparr>th_pc := R_left []\<rparr>, [])
          else if tc_idle_timeout_ms options > 0 \<and> now - th_last_activity t \<ge> tc_idle_timeout_ms options
          then (t\<lparr>th_pc := R_left []\<rparr>,
                [''TCP idle timeout connection='' @ decimal (unat (th_id t)) @ '' remote='' @ endpoint_to_string remote])
          else (t\<lparr>th_pc := R_loop\<rparr>, []))"

definition put_thread :: "nat \<Rightarrow> client_thread \<Rightarrow> threaded_server \<Rightarrow> threaded_server" where
  "put_thread k t s = s\<lparr>tv_threads := (tv_threads s)[k := t]\<rparr>"

definition received_bytes :: "receive_answer \<Rightarrow> string" where
  "received_bytes answer = (case answer of Received bytes \<Rightarrow> bytes | _ \<Rightarrow> [])"

definition thread_receive :: "receive_answer \<Rightarrow> u64 \<Rightarrow> nat \<Rightarrow> client_thread \<Rightarrow> threaded_server \<Rightarrow> threaded_server" where
  "thread_receive answer now k t s =
     (let (t', info) = after_receive (tv_options s) (is_closed (th_id t) s) (remote_of (th_id t) s) answer now t
      in put_thread k t' (update_object (th_id t) (\<lambda>c. c\<lparr>cl_received := cl_received c @ received_bytes answer\<rparr>)
           (s\<lparr>tv_info := tv_info s @ info\<rparr>)))"

definition thread_dispatch :: "nat \<Rightarrow> client_thread \<Rightarrow> threaded_server \<Rightarrow> threaded_server" where
  "thread_dispatch k t s =
     (if is_closed (th_id t) s then put_thread k (t\<lparr>th_pc := R_loop\<rparr>) s
      else
        (case framer_try_pop (th_framer t) of
           None \<Rightarrow> put_thread k (t\<lparr>th_pc := R_loop\<rparr>) s
         | Some (f, line) \<Rightarrow>
             put_thread k (t\<lparr>th_framer := f\<rparr>)
               (call_back (has_message (tv_callbacks s)) (On_message (th_id t) (remote_of (th_id t) s) (from_text line)) s)))"

text \<open>\<^verbatim>\<open>run_client\<close>: the thread's own \<^verbatim>\<open>disconnect\<close> of its connection, again in two steps.\<close>

definition thread_erase :: "nat \<Rightarrow> client_thread \<Rightarrow> threaded_server \<Rightarrow> threaded_server" where
  "thread_erase k t s =
     (case umap_find (tv_clients s) (th_id t) of
        None \<Rightarrow> put_thread k (t\<lparr>th_pc := R_notify\<rparr>) s
      | Some _ \<Rightarrow> put_thread k (t\<lparr>th_pc := R_closing\<rparr>) (s\<lparr>tv_clients := umap_erase (th_id t) (tv_clients s)\<rparr>))"

definition thread_run :: "receive_answer \<Rightarrow> u64 \<Rightarrow> nat \<Rightarrow> client_thread \<Rightarrow> threaded_server \<Rightarrow> threaded_server" where
  "thread_run answer now k t s =
     (case th_pc t of
        R_start \<Rightarrow> put_thread k (t\<lparr>th_pc := R_loop, th_last_activity := now\<rparr>) s
      | R_loop \<Rightarrow> put_thread k (t\<lparr>th_pc := (if is_closed (th_id t) s then R_left [] else R_receive)\<rparr>) s
      | R_receive \<Rightarrow> thread_receive answer now k t s
      | R_dispatch \<Rightarrow> thread_dispatch k t s
      | R_left e \<Rightarrow> put_thread k (t\<lparr>th_pc := R_disconnect\<rparr>) (if e = [] then s else report_error e s)
      | R_disconnect \<Rightarrow> thread_erase k t s
      | R_closing \<Rightarrow> put_thread k (t\<lparr>th_pc := R_notify\<rparr>) (client_disconnect (th_id t) s)
      | R_notify \<Rightarrow>
          put_thread k (t\<lparr>th_pc := R_store\<rparr>)
            (call_back (has_disconnected (tv_callbacks s)) (On_disconnected (th_id t) (remote_of (th_id t) s)) s)
      | R_store \<Rightarrow> put_thread k (t\<lparr>th_pc := R_finished\<rparr>) s
      | R_finished \<Rightarrow> s)"

definition thread_step :: "receive_answer \<Rightarrow> u64 \<Rightarrow> nat \<Rightarrow> threaded_server \<Rightarrow> threaded_server" where
  "thread_step answer now k s =
     (if k < length (tv_threads s) then thread_run answer now k (tv_threads s ! k) s else s)"

section \<open>The owner\<close>

text \<open>\<^verbatim>\<open>open_listener\<close> with the error texts of its system calls, in their order.\<close>

record listen_answer =
  la_address_ok :: bool
  la_socket :: "string option"
  la_bind :: "string option"
  la_listen :: "string option"
  la_mode :: "string option"

definition open_listener :: "listen_answer \<Rightarrow> endpoint \<Rightarrow> unit res" where
  "open_listener a e =
     (if \<not> la_address_ok a then Inl (''invalid IPv4 bind address: '' @ ep_address e)
      else
        (case la_socket a of
           Some m \<Rightarrow> Inl (''socket() failed: '' @ m)
         | None \<Rightarrow>
             (case la_bind a of
                Some m \<Rightarrow> Inl (''bind() failed: '' @ m)
              | None \<Rightarrow>
                  (case la_listen a of
                     Some m \<Rightarrow> Inl (''listen() failed: '' @ m)
                   | None \<Rightarrow>
                       (case la_mode a of
                          Some m \<Rightarrow> Inl (''setting listener nonblocking failed: '' @ m)
                        | None \<Rightarrow> Inr ())))))"

text \<open>\<open>system\<close> is the error of \<^verbatim>\<open>SocketSystem\<close>, \<open>thread\<close> that of creating the accept thread.\<close>

definition impl_start :: "string option \<Rightarrow> listen_answer \<Rightarrow> string option \<Rightarrow> tcp_options \<Rightarrow> tcp_callbacks \<Rightarrow>
    threaded_server \<Rightarrow> threaded_server \<times> unit res" where
  "impl_start system a thread options callbacks s =
     (if tv_running s then (s, Inr ())
      else
        (case system of
           Some e \<Rightarrow> (s, Inl e)
         | None \<Rightarrow>
             (case open_listener a (tc_bind_endpoint options) of
                Inl e \<Rightarrow> (s\<lparr>tv_listening := False\<rparr>, Inl e)
              | Inr _ \<Rightarrow>
                  (case thread of
                     Some e \<Rightarrow>
                       (s\<lparr>tv_options := options, tv_callbacks := callbacks, tv_running := False, tv_listening := False\<rparr>,
                        Inl (''starting TCP accept thread failed: '' @ e))
                   | None \<Rightarrow>
                       (s\<lparr>tv_options := options, tv_callbacks := callbacks, tv_running := True, tv_listening := True,
                          tv_accept := A_loop,
                          tv_info := tv_info s @ [''TCP listening on '' @ endpoint_to_string (tc_bind_endpoint options)]\<rparr>,
                        Inr ())))))"

text \<open>
  \<^verbatim>\<open>Impl::stop\<close> in its steps: the exchange of \<^verbatim>\<open>running_\<close>, the swap of the registry under the mutex, one
  disconnect for each client taken out, the join of the accept thread, the join of the receive threads.
  A join waits: its step changes nothing until the thread has ended.
\<close>

definition stop_call :: "threaded_server \<Rightarrow> threaded_server" where
  "stop_call s = (if tv_running s then s\<lparr>tv_running := False, tv_owner := O_swap\<rparr> else s)"

definition stop_step :: "threaded_server \<Rightarrow> threaded_server" where
  "stop_step s =
     (case tv_owner s of
        O_idle \<Rightarrow> s
      | O_swap \<Rightarrow> s\<lparr>tv_owner := O_interrupt (map fst (tv_clients s)), tv_clients := []\<rparr>
      | O_interrupt [] \<Rightarrow> s\<lparr>tv_owner := O_join_accept\<rparr>
      | O_interrupt (i # is) \<Rightarrow> (client_disconnect i s)\<lparr>tv_owner := O_interrupt is\<rparr>
      | O_join_accept \<Rightarrow>
          if tv_accept s = A_done
          then s\<lparr>tv_accept := A_none, tv_listening := False, tv_owner := O_join_clients\<rparr> else s
      | O_join_clients \<Rightarrow>
          if list_all (\<lambda>t. th_pc t = R_finished) (tv_threads s)
          then s\<lparr>tv_threads := [], tv_owner := O_idle,
                 tv_info := tv_info s @ [''TCP listener stopped on '' @ endpoint_to_string (tc_bind_endpoint (tv_options s))]\<rparr>
          else s)"

section \<open>Runs\<close>

text \<open>
  Start and stop belong to one thread: they are called while no other call of it is under way. The
  application sets the callbacks for connections, messages and disconnections, as
  src/src/Runtime/TcpListener.cpp does.
\<close>

definition complete :: "tcp_callbacks \<Rightarrow> bool" where
  "complete c \<longleftrightarrow> has_connected c \<and> has_message c \<and> has_disconnected c"

inductive tcp_step :: "threaded_server \<Rightarrow> threaded_server \<Rightarrow> bool" where
  start: "tv_owner s = O_idle \<Longrightarrow> complete callbacks \<Longrightarrow> tcp_step s (fst (impl_start system a thread options callbacks s))"
| stop: "tv_owner s = O_idle \<Longrightarrow> tcp_step s (stop_call s)"
| stopping: "tcp_step s (stop_step s)"
| accept: "tcp_step s (accept_step a s)"
| receive: "tcp_step s (thread_step answer now k s)"
| send_find: "tcp_step s (fst (send_find i data s))"
| send_write: "tcp_step s (fst (send_write answers e i data s))"
| erase: "tcp_step s (disconnect_erase i s)"
| close: "tcp_step s (disconnect_close i s)"

end
