(* ===== verification/Threaded_Invariant.thy ===== *)
theory Threaded_Invariant
  imports Threaded_Server
begin

text \<open>
  Invariants of the threads of the TCP backend: the life cycle of the server, the phase of each
  connection as the program counters have it, and that every open connection is in reach of stop.
\<close>

section \<open>What the application sees of a connection\<close>

datatype conn_phase = Cp_fresh | Cp_open | Cp_closed | Cp_broken

definition conn_step :: "u64 \<Rightarrow> conn_phase \<Rightarrow> tcp_call \<Rightarrow> conn_phase" where
  "conn_step i ph c =
     (case c of
        On_accepting j _ \<Rightarrow> if j = i \<and> ph \<noteq> Cp_fresh then Cp_broken else ph
      | On_connected j _ \<Rightarrow> if j = i then (if ph = Cp_fresh then Cp_open else Cp_broken) else ph
      | On_message j _ _ \<Rightarrow> if j = i \<and> ph \<noteq> Cp_open then Cp_broken else ph
      | On_disconnected j _ \<Rightarrow> if j = i then (if ph = Cp_open then Cp_closed else Cp_broken) else ph
      | On_error _ \<Rightarrow> ph)"

definition conn_phase_of :: "tcp_call list \<Rightarrow> u64 \<Rightarrow> conn_phase" where
  "conn_phase_of log i = foldl (conn_step i) Cp_fresh log"

lemma conn_phase_simps [simp]:
  "conn_phase_of [] i = Cp_fresh"
  "conn_phase_of (log @ [c]) i = conn_step i (conn_phase_of log i) c"
  by (simp_all add: conn_phase_of_def)

text \<open>The phase that the program counter of the thread in charge of a connection stands for.\<close>

fun accept_role :: "accept_pc \<Rightarrow> (u64 \<times> conn_phase) option" where
  "accept_role (A_created i) = Some (i, Cp_fresh)"
| "accept_role (A_accepting i) = Some (i, Cp_fresh)"
| "accept_role (A_configure i) = Some (i, Cp_fresh)"
| "accept_role (A_register i) = Some (i, Cp_fresh)"
| "accept_role (A_connected i) = Some (i, Cp_fresh)"
| "accept_role (A_launch i) = Some (i, Cp_open)"
| "accept_role (A_undo i e) = Some (i, Cp_open)"
| "accept_role (A_undo_closing i e) = Some (i, Cp_open)"
| "accept_role (A_undo_notify i e) = Some (i, Cp_open)"
| "accept_role _ = None"

definition thread_phase :: "receive_pc \<Rightarrow> conn_phase" where
  "thread_phase pc = (if pc = R_store \<or> pc = R_finished then Cp_closed else Cp_open)"

definition held :: "threaded_server \<Rightarrow> u64 set" where
  "held s = set (map th_id (tv_threads s)) \<union> fst ` set_option (accept_role (tv_accept s))"

section \<open>Frames\<close>

lemma call_back_frame [simp]:
  "tv_options (call_back b c s) = tv_options s" "tv_callbacks (call_back b c s) = tv_callbacks s"
  "tv_running (call_back b c s) = tv_running s" "tv_next_id (call_back b c s) = tv_next_id s"
  "tv_objects (call_back b c s) = tv_objects s" "tv_clients (call_back b c s) = tv_clients s"
  "tv_threads (call_back b c s) = tv_threads s" "tv_accept (call_back b c s) = tv_accept s"
  "tv_owner (call_back b c s) = tv_owner s" "tv_closing (call_back b c s) = tv_closing s"
  "tv_created (call_back b c s) = tv_created s"
  "tv_log (call_back b c s) = tv_log s @ (if b then [c] else [])"
  by (simp_all add: call_back_def)

lemma tcp_report_frame [simp]:
  "tv_options (report_error e s) = tv_options s" "tv_callbacks (report_error e s) = tv_callbacks s"
  "tv_running (report_error e s) = tv_running s" "tv_next_id (report_error e s) = tv_next_id s"
  "tv_objects (report_error e s) = tv_objects s" "tv_clients (report_error e s) = tv_clients s"
  "tv_threads (report_error e s) = tv_threads s" "tv_accept (report_error e s) = tv_accept s"
  "tv_owner (report_error e s) = tv_owner s" "tv_closing (report_error e s) = tv_closing s"
  "tv_created (report_error e s) = tv_created s"
  "tv_log (report_error e s) = tv_log s @ (if has_error (tv_callbacks s) then [On_error e] else [])"
  by (simp_all add: report_error_def)

lemma at_accept_frame [simp]:
  "tv_options (at_accept pc s) = tv_options s" "tv_callbacks (at_accept pc s) = tv_callbacks s"
  "tv_running (at_accept pc s) = tv_running s" "tv_next_id (at_accept pc s) = tv_next_id s"
  "tv_objects (at_accept pc s) = tv_objects s" "tv_clients (at_accept pc s) = tv_clients s"
  "tv_threads (at_accept pc s) = tv_threads s" "tv_accept (at_accept pc s) = pc"
  "tv_owner (at_accept pc s) = tv_owner s" "tv_closing (at_accept pc s) = tv_closing s"
  "tv_created (at_accept pc s) = tv_created s" "tv_log (at_accept pc s) = tv_log s"
  by (simp_all add: at_accept_def)

lemma put_thread_frame [simp]:
  "tv_options (put_thread k t s) = tv_options s" "tv_callbacks (put_thread k t s) = tv_callbacks s"
  "tv_running (put_thread k t s) = tv_running s" "tv_next_id (put_thread k t s) = tv_next_id s"
  "tv_objects (put_thread k t s) = tv_objects s" "tv_clients (put_thread k t s) = tv_clients s"
  "tv_threads (put_thread k t s) = (tv_threads s)[k := t]" "tv_accept (put_thread k t s) = tv_accept s"
  "tv_owner (put_thread k t s) = tv_owner s" "tv_closing (put_thread k t s) = tv_closing s"
  "tv_created (put_thread k t s) = tv_created s" "tv_log (put_thread k t s) = tv_log s"
  by (simp_all add: put_thread_def)

lemma update_object_frame [simp]:
  "tv_options (update_object i f s) = tv_options s" "tv_callbacks (update_object i f s) = tv_callbacks s"
  "tv_running (update_object i f s) = tv_running s" "tv_next_id (update_object i f s) = tv_next_id s"
  "tv_clients (update_object i f s) = tv_clients s" "tv_threads (update_object i f s) = tv_threads s"
  "tv_accept (update_object i f s) = tv_accept s" "tv_owner (update_object i f s) = tv_owner s"
  "tv_closing (update_object i f s) = tv_closing s" "tv_created (update_object i f s) = tv_created s"
  "tv_log (update_object i f s) = tv_log s"
  by (simp_all add: update_object_def split: option.split)

lemma find_update_object [simp]:
  "umap_find (tv_objects (update_object i f s)) j =
     (if j = i then map_option f (umap_find (tv_objects s) i) else umap_find (tv_objects s) j)"
  by (simp add: update_object_def split: option.split)

lemma client_disconnect_frame [simp]:
  "tv_options (client_disconnect i s) = tv_options s" "tv_callbacks (client_disconnect i s) = tv_callbacks s"
  "tv_running (client_disconnect i s) = tv_running s" "tv_next_id (client_disconnect i s) = tv_next_id s"
  "tv_clients (client_disconnect i s) = tv_clients s" "tv_threads (client_disconnect i s) = tv_threads s"
  "tv_accept (client_disconnect i s) = tv_accept s" "tv_owner (client_disconnect i s) = tv_owner s"
  "tv_closing (client_disconnect i s) = tv_closing s" "tv_created (client_disconnect i s) = tv_created s"
  "tv_log (client_disconnect i s) = tv_log s"
  by (simp_all add: client_disconnect_def)

lemma is_closed_disconnect [simp]: "is_closed j (client_disconnect i s) \<longleftrightarrow> j = i \<or> is_closed j s"
  by (auto simp: is_closed_def client_disconnect_def split: option.split)

lemma is_closed_cong: "tv_objects s = tv_objects s' \<Longrightarrow> is_closed i s = is_closed i s'"
  by (simp add: is_closed_def)

lemma is_closed_simps [simp]:
  "is_closed i (call_back b c s) = is_closed i s" "is_closed i (report_error e s) = is_closed i s"
  "is_closed i (at_accept pc s) = is_closed i s" "is_closed i (put_thread k t s) = is_closed i s"
  by (rule is_closed_cong; simp)+

section \<open>Life cycle\<close>

definition lifecycle :: "threaded_server \<Rightarrow> bool" where
  "lifecycle s \<longleftrightarrow>
     (tv_running s \<longrightarrow> tv_owner s = O_idle \<and> tv_accept s \<noteq> A_none \<and> tv_accept s \<noteq> A_done)
     \<and> (\<not> tv_running s \<and> tv_owner s \<noteq> O_swap \<longrightarrow> tv_clients s = [])
     \<and> (\<not> tv_running s \<and> tv_owner s = O_idle \<longrightarrow> tv_accept s = A_none \<and> tv_threads s = [])
     \<and> (tv_owner s = O_join_clients \<longleftrightarrow> tv_accept s = A_none \<and> tv_owner s \<noteq> O_idle)
     \<and> (tv_accept s \<noteq> A_none \<or> tv_threads s \<noteq> [] \<longrightarrow> complete (tv_callbacks s))
     \<and> umap_wf (tv_clients s) \<and> umap_size (tv_clients s) \<le> tc_max_connections (tv_options s)"

lemma lifecycle_new: "lifecycle Impl_new"
  by (simp add: lifecycle_def Impl_new_def umap_size_def)

lemma erase_within: "umap_wf m \<Longrightarrow> umap_size m \<le> n \<Longrightarrow> umap_size (umap_erase k m) \<le> n"
  using umap.size_erase_le [of m k] by simp

lemma lifecycle_start:
  "lifecycle s \<Longrightarrow> tv_owner s = O_idle \<Longrightarrow> complete callbacks \<Longrightarrow>
     lifecycle (fst (impl_start system a thread options callbacks s))"
  by (auto simp: lifecycle_def impl_start_def umap_size_def split: option.split sum.split)

lemma lifecycle_stop: "lifecycle s \<Longrightarrow> tv_owner s = O_idle \<Longrightarrow> lifecycle (stop_call s)"
  by (auto simp: lifecycle_def stop_call_def)

lemma lifecycle_stopping: "lifecycle s \<Longrightarrow> lifecycle (stop_step s)"
  by (auto simp: lifecycle_def stop_step_def umap_size_def split: owner_pc.split list.split)

lemmas accept_defs = accept_step_def accept_ready_def accept_allow_def accept_configure_def accept_register_def
  launch_client_def undo_erase_def reap_finished_clients_def configure_client_socket_def

lemma emplace_wf: "umap_wf m \<Longrightarrow> umap_wf (fst (umap_emplace k v m))"
  by (auto simp: umap_emplace_def umap.wf_assign split: option.split)

lemma emplace_size: "umap_wf m \<Longrightarrow> umap_size m < n \<Longrightarrow> umap_size (fst (umap_emplace k v m)) \<le> n"
  by (auto simp: umap_emplace_def umap.size_assign_new split: option.split)

lemma lifecycle_accept: "lifecycle s \<Longrightarrow> lifecycle (accept_step a s)"
  by (cases "tv_accept s")
    (auto simp: lifecycle_def accept_defs Let_def emplace_wf emplace_size not_le umap.wf_erase erase_within
      split: option.split)

lemma lifecycle_receive: "lifecycle s \<Longrightarrow> lifecycle (thread_step answer now k s)"
  by (cases "th_pc (tv_threads s ! k)")
    (auto simp: lifecycle_def thread_step_def thread_run_def thread_receive_def thread_dispatch_def thread_erase_def
      case_prod_beta Let_def umap.wf_erase erase_within split: option.split)

lemma lifecycle_others:
  "lifecycle s \<Longrightarrow> lifecycle (fst (send_find i data s))"
  "lifecycle s \<Longrightarrow> lifecycle (fst (send_write answers e i data s))"
  "lifecycle s \<Longrightarrow> lifecycle (disconnect_erase i s)"
  "lifecycle s \<Longrightarrow> lifecycle (disconnect_close i s)"
  by (auto simp: lifecycle_def send_find_def send_write_def disconnect_erase_def disconnect_close_def case_prod_beta
      Let_def umap.wf_erase erase_within split: option.split)

lemma tcp_step_lifecycle: "tcp_step s s' \<Longrightarrow> lifecycle s \<Longrightarrow> lifecycle s'"
  by (induction rule: tcp_step.induct)
    (simp_all add: lifecycle_start lifecycle_stop lifecycle_stopping lifecycle_accept lifecycle_receive lifecycle_others)

section \<open>Connections in the hands of threads\<close>

definition ids_ok :: "threaded_server \<Rightarrow> bool" where
  "ids_ok s \<longleftrightarrow> unat (tv_next_id s) = tv_created s + 1 \<and> umap_wf (tv_objects s)
     \<and> (\<forall>i. 0 < unat i \<and> unat i \<le> tv_created s \<longrightarrow> umap_find (tv_objects s) i \<noteq> None)
     \<and> distinct (map th_id (tv_threads s))
     \<and> (\<forall>i\<in>held s. 0 < unat i \<and> unat i \<le> tv_created s)
     \<and> (\<forall>i ph. accept_role (tv_accept s) = Some (i, ph) \<longrightarrow> i \<notin> set (map th_id (tv_threads s)))"

definition phases_ok :: "threaded_server \<Rightarrow> bool" where
  "phases_ok s \<longleftrightarrow> (\<forall>t\<in>set (tv_threads s). conn_phase_of (tv_log s) (th_id t) = thread_phase (th_pc t))
     \<and> (\<forall>i ph. accept_role (tv_accept s) = Some (i, ph) \<longrightarrow> conn_phase_of (tv_log s) i = ph)
     \<and> (\<forall>i. i \<notin> held s \<longrightarrow> conn_phase_of (tv_log s) i \<in> {Cp_fresh, Cp_closed})
     \<and> (\<forall>i. tv_created s < unat i \<longrightarrow> conn_phase_of (tv_log s) i = Cp_fresh)"

definition conns_ok :: "threaded_server \<Rightarrow> bool" where
  "conns_ok s \<longleftrightarrow> ids_ok s \<and> phases_ok s"

lemma conns_ok_new: "conns_ok Impl_new"
  by (auto simp: conns_ok_def ids_ok_def phases_ok_def Impl_new_def held_def)

lemma conns_ok_cong:
  assumes "conns_ok s" "tv_next_id s' = tv_next_id s" "tv_created s' = tv_created s" "umap_wf (tv_objects s')"
    "\<And>i. umap_find (tv_objects s') i = None \<longleftrightarrow> umap_find (tv_objects s) i = None"
    "tv_threads s' = tv_threads s" "tv_accept s' = tv_accept s" "tv_log s' = tv_log s"
  shows "conns_ok s'"
  using assms by (simp add: conns_ok_def ids_ok_def phases_ok_def held_def)

text \<open>Updating one thread, told apart from the others by its connection.\<close>

lemma ball_update:
  assumes "distinct (map th_id ts)" "k < length ts" "th_id t = th_id (ts ! k)"
  shows "(\<forall>x\<in>set (ts[k := t]). P x) \<longleftrightarrow> P t \<and> (\<forall>x\<in>set ts. th_id x \<noteq> th_id t \<longrightarrow> P x)"
proof -
  have "x \<in> set ts \<and> th_id x \<noteq> th_id t \<longleftrightarrow> (\<exists>j<length ts. j \<noteq> k \<and> x = ts ! j)" for x
    using assms by (auto simp: in_set_conv_nth distinct_conv_nth)
  then show ?thesis
    using assms(2) by (auto simp: set_conv_nth nth_list_update) (metis)+
qed

lemma map_update_same: "k < length ts \<Longrightarrow> f t = f (ts ! k) \<Longrightarrow> map f (ts[k := t]) = map f ts"
  by (simp add: map_update) (metis list_update_id nth_map)

lemma conns_ok_thread:
  assumes ok: "conns_ok s" and k: "k < length (tv_threads s)" and id: "th_id t = th_id (tv_threads s ! k)"
    and s': "tv_threads s' = (tv_threads s)[k := t]" "tv_accept s' = tv_accept s" "tv_created s' = tv_created s"
      "tv_next_id s' = tv_next_id s" "umap_wf (tv_objects s')"
      "\<And>i. umap_find (tv_objects s') i = None \<longleftrightarrow> umap_find (tv_objects s) i = None"
    and other: "\<And>j. j \<noteq> th_id t \<Longrightarrow> conn_phase_of (tv_log s') j = conn_phase_of (tv_log s) j"
    and own: "conn_phase_of (tv_log s') (th_id t) = thread_phase (th_pc t)"
  shows "conns_ok s'"
proof -
  have ids: "map th_id (tv_threads s') = map th_id (tv_threads s)"
    using map_update_same [OF k id] s'(1) by simp
  have held: "held s' = held s"
    using ids s'(2) by (simp add: held_def flip: set_map)
  have mem: "th_id t \<in> set (map th_id (tv_threads s))"
    using k id by simp
  have i: "ids_ok s" and p: "phases_ok s"
    using ok by (simp_all add: conns_ok_def)
  have "th_id t \<in> held s" "unat (th_id t) \<le> tv_created s"
    using mem i by (auto simp: held_def ids_ok_def)
  moreover have "ids_ok s'"
    using i ids held s' by (simp add: ids_ok_def flip: set_map)
  moreover have "\<forall>x\<in>set (tv_threads s'). conn_phase_of (tv_log s') (th_id x) = thread_phase (th_pc x)"
    using ball_update [of "tv_threads s" k t] i k id own other p s'(1) by (auto simp: ids_ok_def phases_ok_def)
  moreover have "accept_role (tv_accept s) = Some (j, ph) \<Longrightarrow> j \<noteq> th_id t" for j ph
    using i mem by (auto simp: ids_ok_def)
  ultimately show ?thesis
    using p other held s' by (auto simp: conns_ok_def phases_ok_def) (metis leD)+
qed

text \<open>
  A step of the accept thread on the connection \<open>i\<close> it holds: it keeps or gives up the connection, and
  only the phase of \<open>i\<close> changes.
\<close>

lemma conns_ok_accept:
  assumes ok: "conns_ok s" and role: "accept_role (tv_accept s) = Some (i, ph)"
    and s': "tv_threads s' = tv_threads s" "tv_created s' = tv_created s" "tv_next_id s' = tv_next_id s"
      "umap_wf (tv_objects s')" "\<And>j. umap_find (tv_objects s') j = None \<longleftrightarrow> umap_find (tv_objects s) j = None"
    and other: "\<And>j. j \<noteq> i \<Longrightarrow> conn_phase_of (tv_log s') j = conn_phase_of (tv_log s) j"
    and own: "case accept_role (tv_accept s') of
        None \<Rightarrow> conn_phase_of (tv_log s') i \<in> {Cp_fresh, Cp_closed}
      | Some (j, ph') \<Rightarrow> j = i \<and> conn_phase_of (tv_log s') i = ph'"
  shows "conns_ok s'"
proof -
  have ids: "ids_ok s" and p: "phases_ok s"
    using ok by (simp_all add: conns_ok_def)
  have new: "i \<notin> set (map th_id (tv_threads s))" and i: "unat i \<le> tv_created s"
    using ids role by (auto simp: ids_ok_def held_def)
  have cases: "accept_role (tv_accept s') = None \<or> (\<exists>ph'. accept_role (tv_accept s') = Some (i, ph'))"
    using own by (auto split: option.splits)
  then have held: "held s' \<subseteq> held s" "held s = insert i (held s')"
    using role s'(1) by (auto simp: held_def)
  have "ids_ok s'"
    using ids cases held s' new by (auto simp: ids_ok_def subset_iff)
  moreover have "conn_phase_of (tv_log s') j \<in> {Cp_fresh, Cp_closed}" if "j \<notin> held s'" for j
  proof (cases "j = i")
    case True
    then show ?thesis using own that cases by (auto simp: held_def split: option.splits)
  next
    case False
    then show ?thesis using p that held other [OF False] by (auto simp: phases_ok_def)
  qed
  moreover have "conn_phase_of (tv_log s') (th_id t) = thread_phase (th_pc t)" if "t \<in> set (tv_threads s')" for t
    using that p s'(1) new other [of "th_id t"] by (auto simp: phases_ok_def)
  moreover have "conn_phase_of (tv_log s') j = Cp_fresh" if "tv_created s' < unat j" for j
    using that p s'(2) i other [of j] by (cases "j = i") (simp_all add: phases_ok_def)
  moreover have "conn_phase_of (tv_log s') j = ph'" if "accept_role (tv_accept s') = Some (j, ph')" for j ph'
    using that own by simp
  ultimately show ?thesis
    by (simp add: conns_ok_def phases_ok_def)
qed

text \<open>A step of the accept thread while it holds no connection.\<close>

lemma conns_ok_idle:
  assumes "conns_ok s" "accept_role (tv_accept s) = None" "accept_role (tv_accept s') = None"
    "tv_threads s' = tv_threads s" "tv_created s' = tv_created s" "tv_next_id s' = tv_next_id s"
    "tv_objects s' = tv_objects s" "\<And>j. conn_phase_of (tv_log s') j = conn_phase_of (tv_log s) j"
  shows "conns_ok s'"
  using assms by (simp add: conns_ok_def ids_ok_def phases_ok_def held_def)

lemma error_phase [simp]: "conn_step i ph (On_error e) = ph"
  by (simp add: conn_step_def)

lemma phase_of_error [simp]:
  "conn_phase_of (tv_log (report_error e s)) j = conn_phase_of (tv_log s) j"
  by simp

lemma conns_ok_create:
  assumes ok: "conns_ok s" and role: "accept_role (tv_accept s) = None" and small: "tv_created s + 2 < W64"
    and s': "tv_threads s' = filter (\<lambda>t. th_pc t \<noteq> R_finished) (tv_threads s)" "tv_created s' = tv_created s + 1"
      "tv_next_id s' = tv_next_id s + 1" "tv_objects s' = umap_assign (tv_next_id s) c (tv_objects s)"
      "tv_log s' = tv_log s" "tv_accept s' = A_created (tv_next_id s)"
  shows "conns_ok s'"
proof -
  have ids: "ids_ok s" and p: "phases_ok s"
    using ok by (simp_all add: conns_ok_def)
  have n: "unat (tv_next_id s) = tv_created s + 1"
    using ids by (simp add: ids_ok_def)
  have n': "unat (tv_next_id s + 1) = tv_created s + 2"
    using n small unat_add_lem [of "tv_next_id s" 1] by simp
  have at: "i = tv_next_id s" if "unat i = tv_created s + 1" for i
    using that n by (simp add: word_unat_eq_iff)
  have sub: "set (map th_id (tv_threads s')) \<subseteq> set (map th_id (tv_threads s))"
    using s'(1) by auto
  have below: "unat i \<le> tv_created s" "0 < unat i" if "i \<in> set (map th_id (tv_threads s))" for i
    using ids that by (auto simp: ids_ok_def held_def)
  have fresh: "tv_next_id s \<notin> set (map th_id (tv_threads s))"
    using below n by fastforce
  have held: "held s' = insert (tv_next_id s) (set (map th_id (tv_threads s')))"
    using s'(6) by (auto simp: held_def)
  have "umap_find (tv_objects s') i \<noteq> None" if "0 < unat i" "unat i \<le> tv_created s'" for i
    using that ids at [of i] s'(2,4) by (cases "unat i \<le> tv_created s") (auto simp: ids_ok_def)
  moreover have "distinct (map th_id (tv_threads s'))"
    using ids s'(1) by (simp add: ids_ok_def distinct_map_filter)
  moreover have "0 < unat i \<and> unat i \<le> tv_created s'" if "i \<in> held s'" for i
    using that held n below [of i] sub s'(2) by auto
  ultimately have "ids_ok s'"
    using ids s' n' sub fresh unfolding ids_ok_def by (auto simp: umap.wf_assign)
  moreover have "conn_phase_of (tv_log s) i \<in> {Cp_fresh, Cp_closed}" if out: "i \<notin> held s'" for i
  proof (cases "i \<in> set (map th_id (tv_threads s))")
    case True
    then obtain t where "t \<in> set (tv_threads s)" "th_id t = i" "th_pc t = R_finished"
      using out held s'(1) by auto
    then show ?thesis using p by (auto simp: phases_ok_def thread_phase_def)
  next
    case False
    then have "i \<notin> held s" using role by (simp add: held_def)
    then show ?thesis using p by (simp add: phases_ok_def)
  qed
  ultimately show ?thesis
    using p s' n by (auto simp: conns_ok_def phases_ok_def)
qed

lemma conns_ok_launch:
  assumes ok: "conns_ok s" and role: "accept_role (tv_accept s) = Some (i, Cp_open)"
    and s': "tv_threads s' = tv_threads s @ [t]" "th_id t = i" "th_pc t = R_start"
      "tv_created s' = tv_created s" "tv_next_id s' = tv_next_id s" "tv_objects s' = tv_objects s"
      "tv_log s' = tv_log s" "accept_role (tv_accept s') = None"
  shows "conns_ok s'"
proof -
  have "held s' = held s"
    using role s' by (auto simp: held_def)
  then show ?thesis
    using ok role s' by (auto simp: conns_ok_def ids_ok_def phases_ok_def thread_phase_def)
qed

lemma conns_objects_wf: "conns_ok s \<Longrightarrow> umap_wf (tv_objects s)"
  by (simp add: conns_ok_def ids_ok_def)

lemma update_object_wf: "conns_ok s \<Longrightarrow> umap_wf (tv_objects (update_object i f s))"
  by (auto simp: update_object_def umap.wf_assign conns_objects_wf split: option.split)

lemma disconnect_wf: "conns_ok s \<Longrightarrow> umap_wf (tv_objects (client_disconnect i s))"
  by (simp add: client_disconnect_def update_object_wf)

lemma disconnect_find: "umap_find (tv_objects (client_disconnect i s)) j = None \<longleftrightarrow> umap_find (tv_objects s) j = None"
  by (simp add: client_disconnect_def)

lemma conns_accept_role: "conns_ok s \<Longrightarrow> accept_role (tv_accept s) = Some (i, ph) \<Longrightarrow> conn_phase_of (tv_log s) i = ph"
  by (simp add: conns_ok_def phases_ok_def)

lemma conns_ok_accept_step:
  assumes ok: "conns_ok s" and life: "lifecycle s" and small: "tv_created (accept_step a s) + 1 < W64"
  shows "conns_ok (accept_step a s)"
proof (cases "accept_role (tv_accept s)")
  case None
  show ?thesis
  proof (cases "tv_accept s = A_ready \<and> aa_socket a \<noteq> None")
    case True
    then obtain remote where r: "aa_socket a = Some remote" by auto
    show ?thesis
      by (rule conns_ok_create [OF ok None]) (use True r small in \<open>auto simp: accept_defs Let_def\<close>)
  next
    case False
    then show ?thesis
      using None by (intro conns_ok_idle [OF ok None]; cases "tv_accept s") (auto simp: accept_defs Let_def)
  qed
next
  case (Some r)
  obtain i ph where role: "accept_role (tv_accept s) = Some (i, ph)"
    using Some by (cases r) auto
  have full: "complete (tv_callbacks s)"
    using life role by (auto simp: lifecycle_def)
  show ?thesis
  proof (cases "\<exists>i. tv_accept s = A_launch i \<and> aa_thread_error a = None")
    case True
    then show ?thesis
      using role by (intro conns_ok_launch [OF ok, of i]) (auto simp: accept_defs)
  next
    case False
    then show ?thesis
      using role conns_accept_role [OF ok role] full
      by (intro conns_ok_accept [OF ok role]; cases "tv_accept s")
        (auto simp: accept_defs complete_def conn_step_def conns_objects_wf [OF ok] disconnect_wf [OF ok] disconnect_find
          umap.wf_assign split: option.split)
  qed
qed

lemmas thread_defs = thread_run_def thread_dispatch_def thread_erase_def

lemma after_receive_id [simp]: "th_id (fst (after_receive options closed remote answer now t)) = th_id t"
  by (simp add: after_receive_def case_prod_beta Let_def split: receive_answer.split)

lemma after_receive_phase [simp]: "thread_phase (th_pc (fst (after_receive options closed remote answer now t))) = Cp_open"
  by (simp add: after_receive_def thread_phase_def case_prod_beta Let_def split: receive_answer.split)

lemma conns_ok_thread_step:
  assumes ok: "conns_ok s" and life: "lifecycle s"
  shows "conns_ok (thread_step answer now k s)"
proof (cases "k < length (tv_threads s)")
  case True
  let ?t = "tv_threads s ! k"
  have full: "complete (tv_callbacks s)"
    using life True by (auto simp: lifecycle_def)
  have ph: "conn_phase_of (tv_log s) (th_id ?t) = thread_phase (th_pc ?t)"
    using ok True by (simp add: conns_ok_def phases_ok_def)
  have put: "conns_ok s'" if "tv_threads s' = (tv_threads s)[k := t']" "th_id t' = th_id ?t" "tv_accept s' = tv_accept s"
    "tv_created s' = tv_created s" "tv_next_id s' = tv_next_id s" "umap_wf (tv_objects s')"
    "\<And>i. umap_find (tv_objects s') i = None \<longleftrightarrow> umap_find (tv_objects s) i = None"
    "\<And>j. j \<noteq> th_id ?t \<Longrightarrow> conn_phase_of (tv_log s') j = conn_phase_of (tv_log s) j"
    "conn_phase_of (tv_log s') (th_id ?t) = thread_phase (th_pc t')" for s' t'
    using that by (intro conns_ok_thread [OF ok True, of t']) auto
  have upd: "umap_wf (tv_objects (update_object i f (s\<lparr>tv_info := x\<rparr>)))" for i f x
    using update_object_wf [OF ok, of i f] by (simp add: update_object_def split: option.splits)
  have rec: "umap_find (tv_objects (update_object i f (s\<lparr>tv_info := x\<rparr>))) j = None \<longleftrightarrow> umap_find (tv_objects s) j = None"
    for i f x j by simp
  have goal: "conns_ok (thread_run answer now k ?t s)"
  proof (cases "th_pc ?t")
    case R_receive
    let ?r = "fst (after_receive (tv_options s) (is_closed (th_id ?t) s) (remote_of (th_id ?t) s) answer now ?t)"
    show ?thesis
      using ph [unfolded R_receive thread_phase_def] R_receive by (intro put [of _ ?r])
        (auto simp: upd thread_run_def thread_receive_def case_prod_beta Let_def)
  next
    case R_dispatch
    then show ?thesis
      using ph full
      by (auto simp: thread_defs complete_def conn_step_def thread_phase_def conns_objects_wf [OF ok] split: option.split
          intro!: put)
  next
    case R_finished
    then show ?thesis using ok by (simp add: thread_run_def)
  qed (use ph full in \<open>auto simp: thread_defs complete_def conn_step_def thread_phase_def conns_objects_wf [OF ok]
        disconnect_wf [OF ok] disconnect_find split: option.split intro!: put\<close>)
  show ?thesis
    using goal True by (simp add: thread_step_def)
qed (use ok in \<open>simp add: thread_step_def\<close>)

lemma conns_ok_stop_step:
  assumes ok: "conns_ok s"
  shows "conns_ok (stop_step s)"
proof (cases "tv_owner s")
  case (O_interrupt ids)
  show ?thesis
    by (cases ids; rule conns_ok_cong [OF ok])
      (simp_all add: O_interrupt stop_step_def disconnect_wf [OF ok] disconnect_find conns_objects_wf [OF ok])
next
  case O_join_accept
  then show ?thesis
    using ok by (auto simp: stop_step_def conns_ok_def ids_ok_def phases_ok_def held_def)
next
  case O_join_clients
  show ?thesis
  proof (cases "list_all (\<lambda>t. th_pc t = R_finished) (tv_threads s)")
    case True
    have "conn_phase_of (tv_log s) i \<in> {Cp_fresh, Cp_closed}" if "i \<in> set (map th_id (tv_threads s))" for i
      using that ok True by (auto simp: conns_ok_def phases_ok_def thread_phase_def list_all_iff)
    moreover have "conn_phase_of (tv_log s) i \<in> {Cp_fresh, Cp_closed}"
      if "i \<notin> fst ` set_option (accept_role (tv_accept s))" "i \<notin> set (map th_id (tv_threads s))" for i
      using that ok by (simp add: conns_ok_def phases_ok_def held_def)
    ultimately have "conn_phase_of (tv_log s) i \<in> {Cp_fresh, Cp_closed}"
      if "i \<notin> fst ` set_option (accept_role (tv_accept s))" for i
      using that by blast
    then show ?thesis
      using ok True unfolding conns_ok_def ids_ok_def phases_ok_def held_def
      by (simp add: O_join_clients stop_step_def)
  qed (use ok O_join_clients in \<open>simp add: stop_step_def\<close>)
qed (use ok in \<open>auto simp: stop_step_def conns_ok_def ids_ok_def phases_ok_def held_def\<close>)

lemma conns_ok_others:
  assumes ok: "conns_ok s"
  shows "conns_ok (fst (send_find i data s))" "conns_ok (fst (send_write answers e i data s))"
    "conns_ok (disconnect_erase i s)" "conns_ok (disconnect_close i s)" "conns_ok (stop_call s)"
  by (auto simp: send_find_def send_write_def disconnect_erase_def disconnect_close_def stop_call_def
      disconnect_wf [OF ok] disconnect_find conns_objects_wf [OF ok] umap.wf_assign ok case_prod_beta Let_def
      split: option.split if_splits intro!: conns_ok_cong [OF ok])

lemma conns_ok_start:
  "conns_ok s \<Longrightarrow> lifecycle s \<Longrightarrow> tv_owner s = O_idle \<Longrightarrow> conns_ok (fst (impl_start system a thread options callbacks s))"
  by (auto simp: impl_start_def lifecycle_def split: option.split sum.split intro: conns_ok_idle)

lemma created_step: "tcp_step s s' \<Longrightarrow> tv_created s \<le> tv_created s'"
proof (induction rule: tcp_step.induct)
  case (accept s a)
  then show ?case by (cases "tv_accept s") (auto simp: accept_defs Let_def split: option.split)
next
  case (receive s answer now k)
  then show ?case
    by (cases "th_pc (tv_threads s ! k)")
      (auto simp: thread_step_def thread_defs thread_receive_def case_prod_beta Let_def split: option.split)
next
  case (stopping s)
  then show ?case by (auto simp: stop_step_def split: owner_pc.split list.split)
qed (auto simp: impl_start_def stop_call_def send_find_def send_write_def disconnect_erase_def disconnect_close_def
    case_prod_beta Let_def split: option.split sum.split)

lemma tcp_step_conns:
  assumes "tcp_step s s'" "lifecycle s" "conns_ok s" "tv_created s' + 1 < W64"
  shows "conns_ok s'"
  using assms
proof (induction rule: tcp_step.induct)
  case (accept s a)
  then show ?case by (simp add: conns_ok_accept_step)
qed (simp_all add: conns_ok_thread_step conns_ok_stop_step conns_ok_others conns_ok_start)

section \<open>Every open connection is in reach of stop\<close>

text \<open>
  A connection whose thread still receives is closed, or somebody will close it: it is in the registry
  that stop takes over, in the hands of a caller of disconnect, or on the list that stop works off.
\<close>

definition running_pc :: "receive_pc \<Rightarrow> bool" where
  "running_pc pc \<longleftrightarrow> pc \<notin> {R_closing, R_notify, R_store, R_finished}"

fun guarded :: "accept_pc \<Rightarrow> u64 option" where
  "guarded (A_connected i) = Some i"
| "guarded (A_launch i) = Some i"
| "guarded (A_undo i e) = Some i"
| "guarded _ = None"

fun interrupts :: "owner_pc \<Rightarrow> u64 set" where
  "interrupts (O_interrupt ids) = set ids"
| "interrupts _ = {}"

definition in_reach :: "threaded_server \<Rightarrow> u64 \<Rightarrow> bool" where
  "in_reach s i \<longleftrightarrow> is_closed i s \<or> umap_find (tv_clients s) i \<noteq> None \<or> i \<in> set (tv_closing s) \<or> i \<in> interrupts (tv_owner s)"

definition covered :: "threaded_server \<Rightarrow> bool" where
  "covered s \<longleftrightarrow> (\<forall>t\<in>set (tv_threads s). running_pc (th_pc t) \<longrightarrow> in_reach s (th_id t))
     \<and> (\<forall>i. guarded (tv_accept s) = Some i \<longrightarrow> in_reach s i)"

lemma covered_new: "covered Impl_new"
  by (simp add: covered_def Impl_new_def)

lemma guarded_role: "guarded pc = Some i \<Longrightarrow> \<exists>ph. accept_role pc = Some (i, ph)"
  by (cases pc) auto

lemma covered_mono:
  "covered s \<Longrightarrow> tv_threads s' = tv_threads s \<Longrightarrow> tv_accept s' = tv_accept s \<Longrightarrow> (\<And>i. in_reach s i \<Longrightarrow> in_reach s' i) \<Longrightarrow> covered s'"
  by (simp add: covered_def)

lemma closed_assign:
  "umap_find (tv_objects s) i = Some c \<Longrightarrow> cl_closed c' = cl_closed c \<Longrightarrow>
     is_closed j (s\<lparr>tv_objects := umap_assign i c' (tv_objects s)\<rparr>) = is_closed j s"
  by (auto simp: is_closed_def)

lemma client_send_closed [simp]: "cl_closed (fst (client_send answers e data c)) = cl_closed c"
  by (simp add: client_send_def case_prod_beta)

lemma is_closed_fields [simp]:
  "is_closed j (s\<lparr>tv_clients := m\<rparr>) = is_closed j s" "is_closed j (s\<lparr>tv_closing := l\<rparr>) = is_closed j s"
  "is_closed j (s\<lparr>tv_owner := p\<rparr>) = is_closed j s" "is_closed j (s\<lparr>tv_sending := q\<rparr>) = is_closed j s"
  "is_closed j (s\<lparr>tv_threads := ts\<rparr>) = is_closed j s" "is_closed j (s\<lparr>tv_info := x\<rparr>) = is_closed j s"
  "is_closed j (s\<lparr>tv_running := b\<rparr>) = is_closed j s"
  by (simp_all add: is_closed_def)

lemma covered_others:
  assumes c: "covered s"
  shows "covered (fst (send_find i data s))" "covered (fst (send_write answers e i data s))"
    "covered (disconnect_erase i s)" "covered (disconnect_close i s)" "tv_owner s = O_idle \<Longrightarrow> covered (stop_call s)"
proof -
  show "covered (fst (send_write answers e i data s))"
  proof (cases "umap_find (tv_objects s) i")
    case (Some x)
    have "is_closed j (s\<lparr>tv_sending := q, tv_objects := umap_assign i (fst (client_send answers e data x)) (tv_objects s)\<rparr>)
        = is_closed j s" for j q
      using closed_assign [of "s\<lparr>tv_sending := q\<rparr>" i x] Some by simp
    then show ?thesis
      using c Some by (auto simp: send_write_def case_prod_beta Let_def in_reach_def intro: covered_mono)
  qed (use c in \<open>simp add: send_write_def\<close>)
  show "covered (disconnect_close i s)"
    using c by (auto simp: disconnect_close_def in_reach_def intro!: covered_mono [OF c] dest: notin_set_remove1)
qed (use c in \<open>auto simp: send_find_def disconnect_erase_def stop_call_def in_reach_def split: option.split
      intro!: covered_mono [OF c]\<close>)

lemma covered_start:
  "covered s \<Longrightarrow> lifecycle s \<Longrightarrow> tv_owner s = O_idle \<Longrightarrow> covered (fst (impl_start system a thread options callbacks s))"
  by (auto simp: impl_start_def lifecycle_def covered_def split: option.split sum.split)

lemma clients_listed: "umap_find m i \<noteq> None \<Longrightarrow> i \<in> set (map fst m)"
  using umap_find_in_set [of m i] by (metis fst_conv image_eqI not_None_eq set_map)

lemma covered_stop_step:
  assumes c: "covered s"
  shows "covered (stop_step s)"
proof (cases "tv_owner s")
  case O_swap
  have reach: "in_reach (stop_step s) i" if "in_reach s i" for i
    using that clients_listed [of "tv_clients s" i] by (auto simp: O_swap stop_step_def in_reach_def)
  show ?thesis
    by (rule covered_mono [OF c _ _ reach]) (simp_all add: O_swap stop_step_def)
next
  case (O_interrupt ids)
  have reach: "in_reach (stop_step s) i" if "in_reach s i" for i
    using that by (cases ids) (auto simp: O_interrupt stop_step_def in_reach_def)
  show ?thesis
    by (rule covered_mono [OF c _ _ reach]) (cases ids; simp add: O_interrupt stop_step_def)+
next
  case O_join_accept
  show ?thesis
    using c by (simp add: O_join_accept stop_step_def covered_def in_reach_def is_closed_def)
next
  case O_join_clients
  show ?thesis
    using c by (simp add: O_join_clients stop_step_def covered_def in_reach_def is_closed_def)
qed (use c in \<open>simp add: stop_step_def\<close>)

text \<open>The steps of the accept thread and of a receive thread.\<close>

lemma covered_accept:
  assumes c: "covered s" and ok: "conns_ok s"
  shows "covered (accept_step a s)"
proof (cases "tv_accept s = A_ready \<and> aa_socket a \<noteq> None")
  case True
  then obtain remote where r: "aa_socket a = Some remote" by auto
  have "th_id t \<noteq> tv_next_id s" if "t \<in> set (tv_threads s)" for t
    using ok that by (force simp: conns_ok_def ids_ok_def held_def)
  then show ?thesis
    using c True r by (auto simp: covered_def accept_defs Let_def in_reach_def is_closed_def) blast
next
  case False
  have other: "th_id t \<noteq> i" if "t \<in> set (tv_threads s)" "guarded (tv_accept s) = Some i" for t i
    using ok that guarded_role [of "tv_accept s" i] by (auto simp: conns_ok_def ids_ok_def)
  show ?thesis
  proof (cases "tv_accept s")
    case (A_configure i)
    show ?thesis
      using c by (auto simp: covered_def accept_defs A_configure in_reach_def closed_assign split: option.split)
  next
    case (A_register i)
    show ?thesis
      using c by (auto simp: covered_def accept_defs A_register in_reach_def umap_emplace_def split: option.split)
  next
    case (A_undo i e)
    show ?thesis
      using c other by (auto simp: covered_def accept_defs A_undo in_reach_def split: option.split)
  next
    case (A_launch i)
    show ?thesis
      using c by (auto simp: covered_def accept_defs A_launch in_reach_def split: option.split)
  next
    case A_ready
    then show ?thesis using c False by (auto simp: covered_def accept_defs in_reach_def)
  qed (use c in \<open>auto simp: covered_def accept_defs in_reach_def\<close>)
qed

lemma after_receive_closed:
  "is_closed j (update_object i (\<lambda>c. c\<lparr>cl_received := f c\<rparr>) s) = is_closed j s"
  by (auto simp: is_closed_def split: option.split)

lemma covered_thread:
  assumes c: "covered s" and ok: "conns_ok s"
  shows "covered (thread_step answer now k s)"
proof (cases "k < length (tv_threads s)")
  case True
  let ?t = "tv_threads s ! k"
  have dist: "distinct (map th_id (tv_threads s))" and role: "guarded (tv_accept s) = Some i \<Longrightarrow> i \<noteq> th_id ?t" for i
    using ok True guarded_role [of "tv_accept s" i] by (auto simp: conns_ok_def ids_ok_def)
  have own: "running_pc (th_pc ?t) \<Longrightarrow> in_reach s (th_id ?t)"
    using c True by (simp add: covered_def)
  have put: "covered s'" if "tv_threads s' = (tv_threads s)[k := t']" "th_id t' = th_id ?t" "tv_accept s' = tv_accept s"
    "\<And>i. i \<noteq> th_id ?t \<Longrightarrow> in_reach s i \<Longrightarrow> in_reach s' i" "running_pc (th_pc t') \<Longrightarrow> in_reach s' (th_id ?t)" for s' t'
    using that c ball_update [OF dist True that(2), of "\<lambda>t. running_pc (th_pc t) \<longrightarrow> in_reach s' (th_id t)"] role
    by (simp add: covered_def)
  have "covered (thread_run answer now k ?t s)"
  proof (cases "th_pc ?t")
    case R_receive
    let ?r = "fst (after_receive (tv_options s) (is_closed (th_id ?t) s) (remote_of (th_id ?t) s) answer now ?t)"
    have "in_reach (put_thread k x (update_object i (\<lambda>c. c\<lparr>cl_received := f c\<rparr>) (s\<lparr>tv_info := y\<rparr>))) j = in_reach s j" for x i f y j
      by (simp add: in_reach_def after_receive_closed)
    then show ?thesis
      using own R_receive by (intro put [of _ ?r])
        (simp_all add: thread_run_def thread_receive_def case_prod_beta Let_def running_pc_def)
  next
    case R_finished
    then show ?thesis using c by (simp add: thread_run_def)
  qed (use own in \<open>auto simp: thread_defs running_pc_def in_reach_def split: option.split intro!: put\<close>)
  then show ?thesis
    using True by (simp add: thread_step_def)
qed (use c in \<open>simp add: thread_step_def\<close>)

lemma tcp_step_covered:
  assumes "tcp_step s s'" "lifecycle s" "conns_ok s" "covered s"
  shows "covered s'"
  using assms
  by (induction rule: tcp_step.induct)
    (simp_all add: covered_start covered_others covered_stop_step covered_accept covered_thread)

end
