(* ===== verification/Threaded_Properties.thy ===== *)
theory Threaded_Properties
  imports Threaded_Invariant
begin

text \<open>
  What the TCP backend promises for every interleaving of its threads: the callbacks of a connection
  are well formed, its messages are the lines it received, and stop ends all threads and leaves no
  connection without its disconnect callback.
\<close>

section \<open>Messages\<close>

definition conn_messages :: "tcp_call list \<Rightarrow> u64 \<Rightarrow> buffer list" where
  "conn_messages log i = concat (map (\<lambda>c. case c of On_message j _ b \<Rightarrow> if j = i then [b] else [] | _ \<Rightarrow> []) log)"

definition received :: "threaded_server \<Rightarrow> u64 \<Rightarrow> string" where
  "received s i = (case umap_find (tv_objects s) i of None \<Rightarrow> [] | Some c \<Rightarrow> cl_received c)"

definition lines_of :: "string \<Rightarrow> buffer list" where
  "lines_of text = map (\<lambda>l. from_text (strip_cr l)) (fst (split_lines text))"

lemma conn_messages_snoc [simp]:
  "conn_messages (log @ [c]) i = conn_messages log i @ (case c of On_message j _ b \<Rightarrow> if j = i then [b] else [] | _ \<Rightarrow> [])"
  by (simp add: conn_messages_def)

lemma conn_messages_call [simp]:
  "conn_messages (log @ (if p then [c] else [])) i =
     conn_messages log i @ (if p then case c of On_message j _ b \<Rightarrow> if j = i then [b] else [] | _ \<Rightarrow> [] else [])"
  by simp

text \<open>\<open>consumed\<close> are the complete lines dispatched so far; the framer holds the rest of the stream.\<close>

definition framed :: "tcp_call list \<Rightarrow> string \<Rightarrow> client_thread \<Rightarrow> bool" where
  "framed log text t \<longleftrightarrow> \<not> lf_failed (th_framer t)
     \<and> (\<exists>consumed. text = consumed @ framer_rest (th_framer t) \<and> snd (split_lines consumed) = []
          \<and> conn_messages log (th_id t) = lines_of consumed)"

definition reading_pc :: "receive_pc \<Rightarrow> bool" where
  "reading_pc pc \<longleftrightarrow> pc \<in> {R_start, R_loop, R_receive, R_dispatch}"

definition messages_ok :: "threaded_server \<Rightarrow> bool" where
  "messages_ok s \<longleftrightarrow>
     (\<forall>i. \<exists>rest. lines_of (received s i) = conn_messages (tv_log s) i @ rest)
     \<and> (\<forall>t\<in>set (tv_threads s). reading_pc (th_pc t) \<longrightarrow> framed (tv_log s) (received s (th_id t)) t
          \<and> (th_pc t \<noteq> R_dispatch \<and> \<not> is_closed (th_id t) s \<longrightarrow> LF \<notin> set (framer_rest (th_framer t))))
     \<and> (\<forall>i ph. accept_role (tv_accept s) = Some (i, ph) \<longrightarrow> received s i = [] \<and> conn_messages (tv_log s) i = [])"

lemma lines_of_append: "snd (split_lines a) = [] \<Longrightarrow> lines_of (a @ b) = lines_of a @ lines_of b"
  using split_lines_append [of a b] by (simp add: lines_of_def case_prod_beta Let_def)

lemma lines_of_prefix: "\<exists>rest. lines_of (a @ b) = lines_of a @ rest"
  using split_lines_append [of a b] by (simp add: lines_of_def case_prod_beta Let_def)

lemma framed_prefix: "framed log text t \<Longrightarrow> \<exists>rest. lines_of text = conn_messages log (th_id t) @ rest"
  by (auto simp: framed_def lines_of_append)

lemma framed_all: "framed log text t \<Longrightarrow> LF \<notin> set (framer_rest (th_framer t)) \<Longrightarrow> lines_of text = conn_messages log (th_id t)"
  by (auto simp: framed_def lines_of_append) (simp add: lines_of_def split_lines_no_LF)

lemma fresh_no_messages: "conn_phase_of log i = Cp_fresh \<Longrightarrow> conn_messages log i = []"
proof -
  have "conn_phase_of log i = Cp_fresh \<longrightarrow> conn_messages log i = []"
    by (induction log rule: rev_induct)
      (auto simp: conn_step_def conn_messages_def [of "[]"] split: tcp_call.splits if_splits)
  then show "conn_phase_of log i = Cp_fresh \<Longrightarrow> conn_messages log i = []" by simp
qed

lemma framed_dispatch:
  assumes f: "framed log text t" and p: "framer_try_pop (th_framer t) = Some (g, line)"
  shows "framed (log @ [On_message (th_id t) remote (from_text line)]) text (t\<lparr>th_framer := g\<rparr>)"
proof -
  obtain l where l: "framer_rest (th_framer t) = l @ LF # framer_rest g" "LF \<notin> set l" "line = strip_cr l" "\<not> lf_failed g"
    by (rule framer_try_pop_Some [OF p]) blast
  obtain consumed where c: "text = consumed @ framer_rest (th_framer t)" "snd (split_lines consumed) = []"
      "conn_messages log (th_id t) = lines_of consumed"
    using f by (auto simp: framed_def)
  have one: "split_lines (l @ [LF]) = ([l], [])"
    using split_lines_first [OF l(2), of "[]"] by simp
  have "split_lines (consumed @ l @ [LF]) = (fst (split_lines consumed) @ [l], [])"
    using c(2) one split_lines_append [of consumed "l @ [LF]"] by (simp add: case_prod_beta Let_def)
  then have "snd (split_lines (consumed @ l @ [LF])) = [] \<and> lines_of (consumed @ l @ [LF]) = lines_of consumed @ [from_text line]"
    by (simp add: lines_of_def l(3))
  then show ?thesis
    using c l(1,4) unfolding framed_def by (intro conjI exI [of _ "consumed @ l @ [LF]"]) auto
qed

lemma messages_new: "messages_ok Impl_new"
  by (simp add: messages_ok_def Impl_new_def received_def lines_of_def conn_messages_def)

lemma framed_cong: "conn_messages log' (th_id t) = conn_messages log (th_id t) \<Longrightarrow> framed log' text t = framed log text t"
  by (simp add: framed_def)

lemma messages_mono:
  assumes ok: "messages_ok s" and same: "\<And>i. received s' i = received s i"
    "\<And>i. conn_messages (tv_log s') i = conn_messages (tv_log s) i" "\<And>i. is_closed i s \<Longrightarrow> is_closed i s'"
    and sub: "set (tv_threads s') \<subseteq> set (tv_threads s)"
    and role: "\<And>i ph. accept_role (tv_accept s') = Some (i, ph) \<Longrightarrow> \<exists>ph'. accept_role (tv_accept s) = Some (i, ph')"
  shows "messages_ok s'"
  using ok sub same(3) role framed_cong [of "tv_log s'" _ "tv_log s"] same(1,2)
  unfolding messages_ok_def by (simp add: subset_iff) metis

lemma received_disconnect [simp]: "received (client_disconnect j s) i = received s i"
  by (simp add: received_def client_disconnect_def split: option.split)

lemma received_cong: "tv_objects s' = tv_objects s \<Longrightarrow> received s' i = received s i"
  by (simp add: received_def)

lemma received_assign:
  "umap_find (tv_objects s) j = Some c \<Longrightarrow> cl_received c' = cl_received c \<Longrightarrow>
     tv_objects s' = umap_assign j c' (tv_objects s) \<Longrightarrow> received s' i = received s i"
  by (auto simp: received_def)

lemma closed_assign_cong:
  "umap_find (tv_objects s) j = Some c \<Longrightarrow> cl_closed c' = cl_closed c \<Longrightarrow>
     tv_objects s' = umap_assign j c' (tv_objects s) \<Longrightarrow> is_closed i s' = is_closed i s"
  by (auto simp: is_closed_def)

lemma received_simps [simp]:
  "received (call_back b c s) i = received s i" "received (report_error e s) i = received s i"
  "received (at_accept pc s) i = received s i" "received (put_thread k t s) i = received s i"
  "received (s\<lparr>tv_clients := m\<rparr>) i = received s i" "received (s\<lparr>tv_closing := l\<rparr>) i = received s i"
  "received (s\<lparr>tv_owner := p\<rparr>) i = received s i" "received (s\<lparr>tv_sending := q\<rparr>) i = received s i"
  "received (s\<lparr>tv_threads := ts\<rparr>) i = received s i" "received (s\<lparr>tv_info := x\<rparr>) i = received s i"
  "received (s\<lparr>tv_running := r\<rparr>) i = received s i"
  by (rule received_cong; simp)+

lemma client_send_received [simp]: "cl_received (fst (client_send answers e data c)) = cl_received c"
  by (simp add: client_send_def case_prod_beta)

lemma messages_others:
  assumes ok: "messages_ok s"
  shows "messages_ok (fst (send_find i data s))" "messages_ok (fst (send_write answers e i data s))"
    "messages_ok (disconnect_erase i s)" "messages_ok (disconnect_close i s)" "messages_ok (stop_call s)"
    "messages_ok (stop_step s)"
proof -
  show "messages_ok (fst (send_write answers e i data s))"
  proof (cases "umap_find (tv_objects s) i")
    case (Some c)
    then show ?thesis
      using ok received_assign [OF Some client_send_received [of answers e data]]
        closed_assign_cong [OF Some client_send_closed [of answers e data]]
      by (auto simp: send_write_def case_prod_beta Let_def intro!: messages_mono [OF ok])
  qed (use ok in \<open>simp add: send_write_def\<close>)
  show "messages_ok (stop_step s)"
    by (rule messages_mono [OF ok])
      (auto simp: stop_step_def received_def is_closed_def client_disconnect_def
        split: owner_pc.splits list.splits option.splits if_splits)
qed (use ok in \<open>auto simp: send_find_def disconnect_erase_def disconnect_close_def stop_call_def split: option.split
      intro!: messages_mono [OF ok]\<close>)

lemma messages_start:
  "messages_ok s \<Longrightarrow> messages_ok (fst (impl_start system a thread options callbacks s))"
  by (rule messages_mono [of s])
    (auto simp: impl_start_def received_def is_closed_def split: option.splits sum.splits if_splits)

lemma messages_accept:
  assumes ok: "messages_ok s" and conns: "conns_ok s"
  shows "messages_ok (accept_step a s)"
proof -
  consider (create) remote where "tv_accept s = A_ready" "aa_socket a = Some remote"
    | (launch) i where "tv_accept s = A_launch i" "aa_thread_error a = None"
    | (configure) i where "tv_accept s = A_configure i"
    | (others) "tv_accept s = A_ready \<Longrightarrow> aa_socket a = None" "\<And>i. tv_accept s = A_launch i \<Longrightarrow> aa_thread_error a \<noteq> None"
        "\<And>i. tv_accept s \<noteq> A_configure i"
    by (cases "tv_accept s"; cases "aa_socket a"; cases "aa_thread_error a") auto
  then show ?thesis
  proof cases
    case create
    let ?n = "tv_next_id s"
    have n: "unat ?n = tv_created s + 1" and ids: "t \<in> set (tv_threads s) \<Longrightarrow> unat (th_id t) \<le> tv_created s" for t
      using conns by (auto simp: conns_ok_def ids_ok_def held_def)
    then have ne: "th_id t \<noteq> ?n" if "t \<in> set (tv_threads s)" for t
      using that by fastforce
    have "conn_phase_of (tv_log s) ?n = Cp_fresh"
      using conns n by (simp add: conns_ok_def phases_ok_def)
    then have none: "conn_messages (tv_log s) ?n = []" by (rule fresh_no_messages)
    have eqs: "received (accept_step a s) i = (if i = ?n then [] else received s i)"
        "is_closed i (accept_step a s) \<longleftrightarrow> i \<noteq> ?n \<and> is_closed i s" for i
      using create by (auto simp: accept_defs Let_def received_def is_closed_def)
    have rest: "tv_log (accept_step a s) = tv_log s" "set (tv_threads (accept_step a s)) \<subseteq> set (tv_threads s)"
        "tv_accept (accept_step a s) = A_created ?n"
      using create by (auto simp: accept_defs Let_def)
    show ?thesis
      using ok none rest ne unfolding messages_ok_def eqs by (auto simp: subset_iff lines_of_def)
  next
    case launch
    have "framed (tv_log s) (received s i) \<lparr>th_id = i, th_pc = R_start, th_framer = LineFramer_new n, th_last_activity = 0\<rparr>" for n
      using ok launch by (auto simp: messages_ok_def framed_def lines_of_def LineFramer_new_def framer_rest_def)
    then show ?thesis
      using ok launch unfolding messages_ok_def
      by (auto simp: accept_defs)
  next
    case configure
    show ?thesis
    proof (cases "umap_find (tv_objects s) i")
      case (Some c)
      then show ?thesis
        using received_assign [OF Some, of "c\<lparr>cl_timeout := receive_timeval (tv_options s), cl_no_delay := tc_no_delay (tv_options s)\<rparr>"]
          closed_assign_cong [OF Some, of "c\<lparr>cl_timeout := receive_timeval (tv_options s), cl_no_delay := tc_no_delay (tv_options s)\<rparr>"]
          configure
        by (intro messages_mono [OF ok]) (auto simp: accept_defs split: option.splits)
    qed (use configure in \<open>auto simp: accept_defs intro!: messages_mono [OF ok]\<close>)
  next
    case others
    then show ?thesis
      by (cases "tv_accept s"; intro messages_mono [OF ok]) (auto simp: accept_defs split: option.splits if_splits)
  qed
qed

text \<open>What a thread in a receiving state keeps about the text of its connection.\<close>

definition reader_ok :: "tcp_call list \<Rightarrow> string \<Rightarrow> bool \<Rightarrow> client_thread \<Rightarrow> bool" where
  "reader_ok log text closed t \<longleftrightarrow> (reading_pc (th_pc t) \<longrightarrow> framed log text t
     \<and> (th_pc t \<noteq> R_dispatch \<and> \<not> closed \<longrightarrow> LF \<notin> set (framer_rest (th_framer t))))"

lemma messages_ok_readers:
  "messages_ok s \<longleftrightarrow>
     (\<forall>i. \<exists>rest. lines_of (received s i) = conn_messages (tv_log s) i @ rest)
     \<and> (\<forall>t\<in>set (tv_threads s). reader_ok (tv_log s) (received s (th_id t)) (is_closed (th_id t) s) t)
     \<and> (\<forall>i ph. accept_role (tv_accept s) = Some (i, ph) \<longrightarrow> received s i = [] \<and> conn_messages (tv_log s) i = [])"
  by (simp add: messages_ok_def reader_ok_def)

lemma reader_ok_mono:
  "reader_ok log text closed t \<Longrightarrow> conn_messages log' (th_id t) = conn_messages log (th_id t) \<Longrightarrow> (closed \<Longrightarrow> closed') \<Longrightarrow>
     reader_ok log' text closed' t"
  using framed_cong [of log' t log] by (auto simp: reader_ok_def)

lemma messages_put:
  assumes ok: "messages_ok s" and conns: "conns_ok s" and k: "k < length (tv_threads s)"
    and t': "tv_threads s' = (tv_threads s)[k := t']" "th_id t' = th_id (tv_threads s ! k)" "tv_accept s' = tv_accept s"
    and other: "\<And>i. i \<noteq> th_id t' \<Longrightarrow> received s' i = received s i \<and> conn_messages (tv_log s') i = conn_messages (tv_log s) i"
    and closed: "\<And>i. is_closed i s \<Longrightarrow> is_closed i s'"
    and prefix: "\<exists>rest. lines_of (received s' (th_id t')) = conn_messages (tv_log s') (th_id t') @ rest"
    and reading: "reader_ok (tv_log s') (received s' (th_id t')) (is_closed (th_id t') s') t'"
  shows "messages_ok s'"
proof -
  let ?P = "\<lambda>t. reader_ok (tv_log s') (received s' (th_id t)) (is_closed (th_id t) s') t"
  have dist: "distinct (map th_id (tv_threads s))"
    and role: "accept_role (tv_accept s) = Some (i, ph) \<Longrightarrow> i \<noteq> th_id t'" for i ph
    using conns k t'(2) by (auto simp: conns_ok_def ids_ok_def)
  have "?P t" if "t \<in> set (tv_threads s)" "th_id t \<noteq> th_id t'" for t
    using ok that other [OF that(2)] closed reader_ok_mono [of "tv_log s" _ _ t "tv_log s'"] by (auto simp: messages_ok_readers)
  then have "\<forall>t\<in>set (tv_threads s'). ?P t"
    using ball_update [OF dist k t'(2), of ?P] reading t' by simp
  moreover have "\<exists>rest. lines_of (received s' i) = conn_messages (tv_log s') i @ rest" for i
    using ok prefix other [of i] by (cases "i = th_id t'") (simp_all add: messages_ok_def)
  moreover have "received s' i = [] \<and> conn_messages (tv_log s') i = []" if "accept_role (tv_accept s') = Some (i, ph)" for i ph
    using ok that role [of i ph] other [of i] t'(3) by (simp add: messages_ok_def)
  ultimately show ?thesis
    by (simp add: messages_ok_readers)
qed

lemma reader_after_receive:
  assumes f: "framed log text t" and rest: "\<not> closed \<Longrightarrow> LF \<notin> set (framer_rest (th_framer t))"
  shows "reader_ok log (text @ received_bytes answer) closed (fst (after_receive options closed remote answer now t))"
proof (cases answer)
  case (Received bytes)
  obtain g ok where a: "framer_append (th_framer t) bytes = (g, ok)" by (cases "framer_append (th_framer t) bytes")
  have "ok \<Longrightarrow> framed log (text @ bytes) (t\<lparr>th_framer := g, th_last_activity := now, th_pc := R_dispatch\<rparr>)"
    using f framer_append_rest [of "th_framer t" bytes g] a by (auto simp: framed_def)
  then show ?thesis
    using a by (simp add: Received received_bytes_def after_receive_def reader_ok_def reading_pc_def)
qed (use f rest in \<open>auto simp: received_bytes_def after_receive_def reader_ok_def reading_pc_def framed_def\<close>)

lemma messages_receive:
  assumes ok: "messages_ok s" and conns: "conns_ok s" and k: "k < length (tv_threads s)"
    and pc: "th_pc (tv_threads s ! k) = R_receive"
  shows "messages_ok (thread_receive answer now k (tv_threads s ! k) s)"
proof -
  let ?t = "tv_threads s ! k" and ?s = "thread_receive answer now k (tv_threads s ! k) s"
  let ?x = "after_receive (tv_options s) (is_closed (th_id ?t) s) (remote_of (th_id ?t) s) answer now ?t"
  have s': "?s = put_thread k (fst ?x) (update_object (th_id ?t) (\<lambda>c. c\<lparr>cl_received := cl_received c @ received_bytes answer\<rparr>)
      (s\<lparr>tv_info := tv_info s @ snd ?x\<rparr>))"
    by (simp add: thread_receive_def case_prod_beta Let_def)
  have "umap_find (tv_objects s) (th_id ?t) \<noteq> None" and mem: "?t \<in> set (tv_threads s)"
    using conns k by (auto simp: conns_ok_def ids_ok_def held_def)
  then have recv: "received ?s i = (if i = th_id ?t then received s i @ received_bytes answer else received s i)" for i
    unfolding s' by (auto simp: received_def)
  have closed: "is_closed i ?s = is_closed i s" for i
    unfolding s' by (simp add: after_receive_closed)
  have f: "framed (tv_log s) (received s (th_id ?t)) ?t" "\<not> is_closed (th_id ?t) s \<Longrightarrow> LF \<notin> set (framer_rest (th_framer ?t))"
    using ok mem pc by (auto simp: messages_ok_def reading_pc_def)
  obtain a b where "lines_of (received s (th_id ?t)) = conn_messages (tv_log s) (th_id ?t) @ a"
      "lines_of (received s (th_id ?t) @ received_bytes answer) = lines_of (received s (th_id ?t)) @ b"
    using ok lines_of_prefix [of "received s (th_id ?t)" "received_bytes answer"] unfolding messages_ok_def by blast
  then show ?thesis
    using recv closed reader_after_receive [of "tv_log s" "received s (th_id ?t)" ?t "is_closed (th_id ?t) s"] f
    by (intro messages_put [OF ok conns k, of _ "fst ?x"]) (auto simp: s')
qed

lemma messages_dispatch:
  assumes ok: "messages_ok s" and conns: "conns_ok s" and k: "k < length (tv_threads s)"
    and pc: "th_pc (tv_threads s ! k) = R_dispatch" and full: "complete (tv_callbacks s)"
  shows "messages_ok (thread_dispatch k (tv_threads s ! k) s)"
proof -
  let ?t = "tv_threads s ! k"
  have f: "framed (tv_log s) (received s (th_id ?t)) ?t"
    using ok k pc by (simp add: messages_ok_def reading_pc_def)
  show ?thesis
  proof (cases "is_closed (th_id ?t) s \<or> framer_try_pop (th_framer ?t) = None")
    case True
    have "is_closed (th_id ?t) s \<or> LF \<notin> set (framer_rest (th_framer ?t))"
      using True f framer_try_pop_None by (auto simp: framed_def)
    then show ?thesis
      using True f framed_prefix [OF f] by (intro messages_put [OF ok conns k, of _ "?t\<lparr>th_pc := R_loop\<rparr>"])
        (auto simp: thread_dispatch_def reader_ok_def framed_def)
  next
    case False
    then obtain g line where r: "framer_try_pop (th_framer ?t) = Some (g, line)" by auto
    note d = framed_dispatch [OF f r, of "remote_of (th_id ?t) s"]
    show ?thesis
      using False pc r full d framed_prefix [OF d]
      by (intro messages_put [OF ok conns k, of _ "?t\<lparr>th_framer := g\<rparr>"]) (auto simp: thread_dispatch_def complete_def reader_ok_def)
  qed
qed

lemma messages_thread:
  assumes ok: "messages_ok s" and conns: "conns_ok s" and life: "lifecycle s"
  shows "messages_ok (thread_step answer now k s)"
proof (cases "k < length (tv_threads s)")
  case True
  let ?t = "tv_threads s ! k"
  have own: "reader_ok (tv_log s) (received s (th_id ?t)) (is_closed (th_id ?t) s) ?t"
    and old: "\<exists>rest. lines_of (received s (th_id ?t)) = conn_messages (tv_log s) (th_id ?t) @ rest"
    using ok True by (auto simp: messages_ok_readers)
  have full: "complete (tv_callbacks s)"
    using life True by (auto simp: lifecycle_def)
  note put = messages_put [OF ok conns True]
  have "messages_ok (thread_run answer now k ?t s)"
  proof (cases "th_pc ?t")
    case R_receive
    then show ?thesis using messages_receive [OF ok conns True] by (simp add: thread_run_def)
  next
    case R_dispatch
    then show ?thesis using messages_dispatch [OF ok conns True _ full] by (simp add: thread_run_def)
  next
    case R_finished
    then show ?thesis using ok by (simp add: thread_run_def)
  next
    case R_disconnect
    then show ?thesis
      using old by (intro put [of _ "?t\<lparr>th_pc := (if umap_find (tv_clients s) (th_id ?t) = None then R_notify else R_closing)\<rparr>"])
        (auto simp: thread_defs reader_ok_def reading_pc_def split: option.split)
  next
    case R_loop
    then show ?thesis
      using own old by (intro put [of _ "?t\<lparr>th_pc := (if is_closed (th_id ?t) s then R_left [] else R_receive)\<rparr>"])
        (auto simp: thread_defs reader_ok_def reading_pc_def framed_def)
  qed (use own old in \<open>auto simp: thread_defs reader_ok_def reading_pc_def framed_def intro!: put\<close>)
  then show ?thesis
    using True by (simp add: thread_step_def)
qed (use ok in \<open>simp add: thread_step_def\<close>)

lemma tcp_step_messages: "tcp_step s s' \<Longrightarrow> lifecycle s \<Longrightarrow> conns_ok s \<Longrightarrow> messages_ok s \<Longrightarrow> messages_ok s'"
  by (induction rule: tcp_step.induct)
    (simp_all add: messages_start messages_others messages_accept messages_thread)

section \<open>The run of a server\<close>

definition tcp_inv :: "threaded_server \<Rightarrow> bool" where
  "tcp_inv s \<longleftrightarrow> lifecycle s \<and> (tv_created s + 1 < W64 \<longrightarrow> conns_ok s \<and> covered s \<and> messages_ok s)"

interpretation tcp: transition_system "\<lambda>s. s = Impl_new" tcp_step tcp_inv
proof
  show "tcp_inv s'" if "tcp_inv s" "tcp_step s s'" for s s'
    using that created_step [OF that(2)] tcp_step_lifecycle [OF that(2)] tcp_step_conns [OF that(2)]
      tcp_step_covered [OF that(2)] tcp_step_messages [OF that(2)]
    by (auto simp: tcp_inv_def)
qed (simp add: tcp_inv_def lifecycle_new conns_ok_new covered_new messages_new)

lemma reached_inv:
  "tcp.reaches s \<Longrightarrow> tv_created s + 1 < W64 \<Longrightarrow> lifecycle s \<and> conns_ok s \<and> covered s \<and> messages_ok s"
  using tcp.reaches_inv by (simp add: tcp_inv_def)

lemma role_not_broken: "accept_role pc = Some (i, ph) \<Longrightarrow> ph = Cp_fresh \<or> ph = Cp_open"
  by (cases pc) auto

lemma conns_not_broken:
  assumes "conns_ok s"
  shows "conn_phase_of (tv_log s) i \<noteq> Cp_broken"
proof -
  have p: "phases_ok s" using assms by (simp add: conns_ok_def)
  consider t where "t \<in> set (tv_threads s)" "i = th_id t" | ph where "accept_role (tv_accept s) = Some (i, ph)" | "i \<notin> held s"
    by (cases "i \<in> held s") (auto simp: held_def)
  then show ?thesis
  proof cases
    case 1
    then show ?thesis using p by (simp add: phases_ok_def thread_phase_def)
  next
    case 2
    then show ?thesis using p role_not_broken [OF 2] by (auto simp: phases_ok_def)
  next
    case 3
    then have "conn_phase_of (tv_log s) i \<in> {Cp_fresh, Cp_closed}" using p by (simp add: phases_ok_def)
    then show ?thesis by auto
  qed
qed

section \<open>Stop ends\<close>

text \<open>The steps a thread has left once its connection is closed and the server no longer runs.\<close>

fun thread_work :: "receive_pc \<Rightarrow> nat" where
  "thread_work R_receive = 8"
| "thread_work R_dispatch = 7"
| "thread_work R_start = 7"
| "thread_work R_loop = 6"
| "thread_work (R_left e) = 5"
| "thread_work R_disconnect = 4"
| "thread_work R_closing = 3"
| "thread_work R_notify = 2"
| "thread_work R_store = 1"
| "thread_work R_finished = 0"

fun accept_work :: "accept_pc \<Rightarrow> nat" where
  "accept_work (A_connected i) = 10"
| "accept_work (A_launch i) = 9"
| "accept_work (A_undo i e) = 5"
| "accept_work (A_undo_closing i e) = 4"
| "accept_work (A_undo_notify i e) = 3"
| "accept_work (A_undo_report e) = 2"
| "accept_work (A_accepting i) = 3"
| "accept_work (A_configure i) = 2"
| "accept_work (A_register i) = 1"
| "accept_work (A_created i) = 1"
| "accept_work A_ready = 3"
| "accept_work A_wait = 2"
| "accept_work A_loop = 1"
| "accept_work A_none = 0"
| "accept_work A_done = 0"

definition join_work :: "threaded_server \<Rightarrow> nat" where
  "join_work s = accept_work (tv_accept s) + sum_list (map (\<lambda>t. thread_work (th_pc t)) (tv_threads s))"

lemma join_work_bound: "join_work s \<le> 10 + 8 * length (tv_threads s)"
proof -
  have "thread_work pc \<le> 8" for pc by (cases pc) auto
  then have "sum_list (map (\<lambda>t. thread_work (th_pc t)) ts) \<le> 8 * length ts" for ts
    by (induction ts) (auto simp: add_mono)
  moreover have "accept_work (tv_accept s) \<le> 10" by (cases "tv_accept s") auto
  ultimately show ?thesis unfolding join_work_def using add_mono by blast
qed

lemma reap_work: "sum_list (map (\<lambda>t. thread_work (th_pc t)) (filter (\<lambda>t. th_pc t \<noteq> R_finished) ts)) =
    sum_list (map (\<lambda>t. thread_work (th_pc t)) ts)"
  by (induction ts) auto

lemma accept_work_less:
  "\<not> tv_running s \<Longrightarrow> tv_clients s = [] \<Longrightarrow> tv_accept s \<noteq> A_none \<Longrightarrow> tv_accept s \<noteq> A_done \<Longrightarrow>
     join_work (accept_step a s) < join_work s"
  by (cases "tv_accept s")
    (auto simp: join_work_def accept_defs reap_work umap_find_def Let_def split: option.split)

lemma join_work_put:
  assumes "tv_threads s' = (tv_threads s)[k := t]" "tv_accept s' = tv_accept s" "k < length (tv_threads s)"
    "thread_work (th_pc t) < thread_work (th_pc (tv_threads s ! k))"
  shows "join_work s' < join_work s"
proof -
  let ?f = "\<lambda>t. thread_work (th_pc t)"
  have "?f (tv_threads s ! k) \<le> sum_list (map ?f (tv_threads s))"
    using elem_le_sum_list [of k "map ?f (tv_threads s)"] assms(3) by simp
  then show ?thesis
    using assms sum_list_update [of k "map ?f (tv_threads s)" "?f t"] by (simp add: join_work_def map_update)
qed

lemma thread_work_less:
  assumes k: "k < length (tv_threads s)" "th_pc (tv_threads s ! k) \<noteq> R_finished"
    and closed: "running_pc (th_pc (tv_threads s ! k)) \<Longrightarrow> is_closed (th_id (tv_threads s ! k)) s"
  shows "join_work (thread_step answer now k s) < join_work s"
proof -
  let ?t = "tv_threads s ! k"
  note put = join_work_put [OF _ _ k(1)]
  have "join_work (thread_run answer now k ?t s) < join_work s"
  proof (cases "th_pc ?t")
    case R_receive
    then show ?thesis
      by (intro put [of _ "fst (after_receive (tv_options s) (is_closed (th_id ?t) s) (remote_of (th_id ?t) s) answer now ?t)"])
        (auto simp: thread_run_def thread_receive_def case_prod_beta Let_def after_receive_def split: receive_answer.split)
  next
    case R_disconnect
    then show ?thesis by (auto simp: thread_defs split: option.split intro!: put)
  qed (use k closed in \<open>auto simp: thread_defs running_pc_def intro!: put\<close>)
  then show ?thesis
    using k(1) by (simp add: thread_step_def)
qed

section \<open>Properties\<close>

text \<open>
  C17. The callbacks of the blocking TCP backend are well formed for every interleaving of its threads: for
  each connection at most one connect, messages only between connect and disconnect, at most one
  disconnect. The registry never exceeds the limit. When stop has returned, every connection that was
  announced has had its disconnect callback, and no thread and no registry entry is left.
\<close>

theorem threaded_callbacks_paired:
  assumes "tcp.reaches s" and "tv_created s + 1 < W64"
  shows "conn_phase_of (tv_log s) i \<noteq> Cp_broken
    \<and> umap_size (tv_clients s) \<le> tc_max_connections (tv_options s)
    \<and> (tv_owner s = O_idle \<and> \<not> tv_running s \<longrightarrow>
         conn_phase_of (tv_log s) i \<in> {Cp_fresh, Cp_closed} \<and> tv_clients s = [] \<and> tv_threads s = [] \<and> tv_accept s = A_none)"
proof -
  have inv: "lifecycle s" "conns_ok s"
    using reached_inv [OF assms] by auto
  have "i \<notin> held s" if "tv_owner s = O_idle" "\<not> tv_running s"
    using inv(1) that by (simp add: lifecycle_def held_def)
  then show ?thesis
    using inv conns_not_broken [OF inv(2)] by (auto simp: lifecycle_def conns_ok_def phases_ok_def)
qed

text \<open>
  C19. The messages of a connection are the lines it received, in order and without a gap, whatever the
  other threads do; a thread that is about to read again on an open connection has passed on every
  complete line.
\<close>

theorem threaded_messages_are_lines:
  assumes "tcp.reaches s" and "tv_created s + 1 < W64"
  shows "(\<exists>rest. lines_of (received s i) = conn_messages (tv_log s) i @ rest)
    \<and> (t \<in> set (tv_threads s) \<and> th_id t = i \<and> th_pc t = R_receive \<and> \<not> is_closed i s \<longrightarrow>
         conn_messages (tv_log s) i = lines_of (received s i))"
proof -
  have m: "messages_ok s" using reached_inv [OF assms] by simp
  show ?thesis
    using m framed_all [of "tv_log s" "received s (th_id t)" t] by (auto simp: messages_ok_def reading_pc_def)
qed

text \<open>
  C18. Stop ends: once it has interrupted the clients and no call of disconnect is under way, each step of
  the accept thread and of a receive thread, whatever the system answers, lowers \<open>join_work\<close>, which is
  at most \<open>10 + 8 * n\<close> for \<open>n\<close> receive threads; when no thread has a step left, the two joins go through.
\<close>

theorem threaded_stop_terminates:
  assumes "tcp.reaches s" and "tv_created s + 1 < W64" and "tv_owner s = O_join_accept \<or> tv_owner s = O_join_clients"
    and "tv_closing s = []"
  shows "join_work s \<le> 10 + 8 * length (tv_threads s)
    \<and> (tv_accept s \<noteq> A_none \<and> tv_accept s \<noteq> A_done \<longrightarrow> join_work (accept_step a s) < join_work s)
    \<and> (k < length (tv_threads s) \<and> th_pc (tv_threads s ! k) \<noteq> R_finished \<longrightarrow>
         join_work (thread_step answer now k s) < join_work s)
    \<and> (join_work s = 0 \<longrightarrow> tv_owner (stop_step (stop_step s)) = O_idle \<and> tv_threads (stop_step (stop_step s)) = [])"
proof -
  have inv: "lifecycle s" "conns_ok s" "covered s"
    using reached_inv [OF assms(1,2)] by auto
  have stopped: "\<not> tv_running s" "tv_clients s = []"
    using inv(1) assms(3) by (auto simp: lifecycle_def)
  have closed: "running_pc (th_pc t) \<Longrightarrow> is_closed (th_id t) s" if "t \<in> set (tv_threads s)" for t
    using inv(3) that stopped assms(3,4) by (auto simp: covered_def in_reach_def umap_find_def)
  have "tv_owner (stop_step (stop_step s)) = O_idle \<and> tv_threads (stop_step (stop_step s)) = []" if "join_work s = 0"
  proof -
    have "thread_work pc = 0 \<Longrightarrow> pc = R_finished" for pc by (cases pc) auto
    then have fin: "list_all (\<lambda>t. th_pc t = R_finished) (tv_threads s)"
      using that by (auto simp: join_work_def list_all_iff)
    have "accept_work (tv_accept s) = 0" using that by (simp add: join_work_def)
    then have "tv_accept s = A_none \<or> tv_accept s = A_done" by (cases "tv_accept s") auto
    then have "tv_owner s = O_join_accept \<Longrightarrow> tv_accept s = A_done"
      using inv(1) by (simp add: lifecycle_def)
    then show ?thesis
      using assms(3) fin by (elim disjE) (simp_all add: stop_step_def)
  qed
  moreover have "join_work (thread_step answer now k s) < join_work s"
    if "k < length (tv_threads s)" "th_pc (tv_threads s ! k) \<noteq> R_finished"
    using that closed by (intro thread_work_less) simp_all
  ultimately show ?thesis
    using join_work_bound [of s] accept_work_less [OF stopped] by blast
qed

section \<open>A run with one client\<close>

definition one_client :: accept_answer where
  "one_client = \<lparr>aa_ready = 1, aa_error = [], aa_socket = Some \<lparr>ep_address = ''127.0.0.1'', ep_port = 5000\<rparr>,
     aa_would_block = False, aa_allowed = True, aa_mode_error = None, aa_thread_error = None\<rparr>"

definition all_callbacks :: tcp_callbacks where
  "all_callbacks = \<lparr>has_accepting = True, has_connected = True, has_message = True, has_disconnected = True, has_error = True\<rparr>"

definition start_ok :: listen_answer where
  "start_ok = \<lparr>la_address_ok = True, la_socket = None, la_bind = None, la_listen = None, la_mode = None\<rparr>"

definition sample_client :: "bool \<Rightarrow> nat \<Rightarrow> string \<Rightarrow> client_connection" where
  "sample_client closed n text = \<lparr>cl_remote = \<lparr>ep_address = ''127.0.0.1'', ep_port = 5000\<rparr>, cl_closed = closed, cl_shutdowns = n,
     cl_timeout = (1, 0), cl_no_delay = True, cl_sent = [], cl_received = text\<rparr>"

definition sample_thread :: "receive_pc \<Rightarrow> line_framer \<Rightarrow> u64 \<Rightarrow> client_thread" where
  "sample_thread pc f now = \<lparr>th_id = 1, th_pc = pc, th_framer = f, th_last_activity = now\<rparr>"

definition listening :: threaded_server where
  "listening = fst (impl_start None start_ok None TcpServerOptions_default all_callbacks Impl_new)"

text \<open>The server with its one client, by what changes in the run.\<close>

definition stage :: "bool \<Rightarrow> owner_pc \<Rightarrow> accept_pc \<Rightarrow> (u64, unit) umap \<Rightarrow> client_connection \<Rightarrow> client_thread list \<Rightarrow> tcp_call list \<Rightarrow>
    threaded_server" where
  "stage run owner pc clients c ts log =
     \<lparr>tv_options = TcpServerOptions_default, tv_callbacks = all_callbacks, tv_listening = True, tv_running = run,
      tv_next_id = 2, tv_objects = [(1, c)], tv_clients = clients, tv_threads = ts, tv_accept = pc, tv_owner = owner,
      tv_sending = [], tv_closing = [], tv_info = tv_info listening, tv_log = log, tv_created = 1\<rparr>"

lemma listening_reached: "tcp.reaches listening"
  unfolding listening_def
  by (rule tcp.reaches.step [OF tcp.reaches.here [OF refl] tcp_step.start]) (simp_all add: Impl_new_def complete_def all_callbacks_def)

abbreviation "connect_log \<equiv> [On_accepting 1 \<lparr>ep_address = ''127.0.0.1'', ep_port = 5000\<rparr>,
  On_connected 1 \<lparr>ep_address = ''127.0.0.1'', ep_port = 5000\<rparr>]"

lemma listening_value: "listening = \<lparr>tv_options = TcpServerOptions_default, tv_callbacks = all_callbacks, tv_listening = True,
    tv_running = True, tv_next_id = 1, tv_objects = [], tv_clients = [], tv_threads = [], tv_accept = A_loop, tv_owner = O_idle,
    tv_sending = [], tv_closing = [], tv_info = tv_info listening, tv_log = [], tv_created = 0\<rparr>"
  by (simp add: listening_def impl_start_def start_ok_def open_listener_def Impl_new_def)

definition raw_client :: client_connection where
  "raw_client = \<lparr>cl_remote = \<lparr>ep_address = ''127.0.0.1'', ep_port = 5000\<rparr>, cl_closed = False, cl_shutdowns = 0,
     cl_timeout = (0, 0), cl_no_delay = False, cl_sent = [], cl_received = []\<rparr>"

lemmas step_defs = accept_step_def accept_allow_def accept_configure_def accept_register_def launch_client_def
  configure_client_socket_def receive_timeval_def at_accept_def call_back_def remote_of_def is_closed_def one_client_def all_callbacks_def
  umap_find_def umap_emplace_def umap_size_def TcpServerOptions_default_def stage_def sample_client_def sample_thread_def raw_client_def

lemma stage_created:
  "accept_step one_client (accept_step one_client (accept_step one_client listening)) = stage True O_idle (A_created 1) [] raw_client [] []"
  by (subst listening_value) (simp add: step_defs accept_ready_def reap_finished_clients_def Let_def)

lemma stage_accepting:
  "accept_step one_client (stage True O_idle (A_created 1) [] c ts log) = stage True O_idle (A_accepting 1) [] c ts log"
  "accept_step one_client (stage True O_idle (A_accepting 1) [] raw_client ts log) = stage True O_idle (A_configure 1) [] raw_client ts
     (log @ [On_accepting 1 \<lparr>ep_address = ''127.0.0.1'', ep_port = 5000\<rparr>])"
  "accept_step one_client (stage True O_idle (A_configure 1) [] raw_client ts log) =
     stage True O_idle (A_register 1) [] (sample_client False 0 []) ts log"
  "accept_step one_client (stage True O_idle (A_register 1) [] c ts log) = stage True O_idle (A_connected 1) [(1, ())] c ts log"
  "accept_step one_client (stage True O_idle (A_connected 1) cs (sample_client False 0 []) ts log) =
     stage True O_idle (A_launch 1) cs (sample_client False 0 []) ts (log @ [On_connected 1 \<lparr>ep_address = ''127.0.0.1'', ep_port = 5000\<rparr>])"
  "accept_step one_client (stage True O_idle (A_launch 1) cs c ts log) =
     stage True O_idle A_loop cs c (ts @ [sample_thread R_start (LineFramer_new 65536) 0]) log"
  by (simp_all add: step_defs)

definition accepted_server :: threaded_server where
  "accepted_server = fold accept_step [one_client, one_client, one_client, one_client, one_client, one_client, one_client,
     one_client, one_client] listening"

lemma accepted_value: "accepted_server =
    stage True O_idle A_loop [(1, ())] (sample_client False 0 []) [sample_thread R_start (LineFramer_new 65536) 0] connect_log"
  by (simp add: accepted_server_def stage_created stage_accepting)

text \<open>The receive thread: it reads a line, passes it on and reads again.\<close>

definition sample_framer :: "string \<Rightarrow> nat \<Rightarrow> line_framer" where
  "sample_framer pending consumed = \<lparr>lf_max_message_bytes = 65536, lf_pending = pending, lf_consumed_bytes = consumed,
     lf_current_line_bytes = 0, lf_failed = False\<rparr>"

definition run_thread :: "(receive_answer \<times> u64) list \<Rightarrow> threaded_server \<Rightarrow> threaded_server" where
  "run_thread = fold (\<lambda>(answer, now). thread_step answer now 0)"

definition reading_server :: threaded_server where
  "reading_server = run_thread [(Receive_end, 1), (Receive_end, 1), (Received [CHR ''h'', CHR ''i'', LF], 1), (Receive_end, 1),
     (Receive_end, 1), (Receive_end, 1)] accepted_server"

lemma reading_value: "reading_server =
    stage True O_idle A_loop [(1, ())] (sample_client False 0 [CHR ''h'', CHR ''i'', LF]) [sample_thread R_receive (sample_framer [CHR ''h'', CHR ''i'', LF] 3) 1]
      (connect_log @ [On_message 1 \<lparr>ep_address = ''127.0.0.1'', ep_port = 5000\<rparr> (from_text ''hi'')])"
  by (simp add: reading_server_def accepted_value run_thread_def thread_step_def thread_run_def put_thread_def thread_receive_def
      thread_dispatch_def after_receive_def update_object_def received_bytes_def framer_append_def LineFramer_new_def framer_try_pop_def
      find_newline_def strip_cr_def sample_framer_def step_defs Let_def)

definition joining_server :: threaded_server where
  "joining_server = stop_step (stop_step (stop_step (stop_call reading_server)))"

lemma joining_value: "joining_server =
    stage False O_join_accept A_loop [] (sample_client True 1 [CHR ''h'', CHR ''i'', LF]) (tv_threads reading_server) (tv_log reading_server)"
  by (simp add: joining_server_def reading_value stop_call_def stop_step_def client_disconnect_def update_object_def step_defs)

definition stopped_server :: threaded_server where
  "stopped_server = stop_step (stop_step (run_thread [(Receive_end, 2), (Receive_end, 2), (Receive_end, 2), (Receive_end, 2), (Receive_end, 2)]
     (accept_step one_client joining_server)))"

lemma stopped_value:
  "tv_owner stopped_server = O_idle" "\<not> tv_running stopped_server" "tv_created stopped_server = 1"
  "tv_log stopped_server = tv_log reading_server @ [On_disconnected 1 \<lparr>ep_address = ''127.0.0.1'', ep_port = 5000\<rparr>]"
  by (simp_all add: stopped_server_def joining_value reading_value run_thread_def thread_step_def thread_run_def put_thread_def
      thread_receive_def after_receive_def thread_erase_def update_object_def received_bytes_def stop_step_def step_defs Let_def)

lemma reaches_steps:
  "tcp.reaches s \<Longrightarrow> tcp.reaches (accept_step a s)" "tcp.reaches s \<Longrightarrow> tcp.reaches (thread_step answer now k s)"
  "tcp.reaches s \<Longrightarrow> tcp.reaches (stop_step s)"
  by (auto intro: tcp.reaches.step tcp_step.accept tcp_step.receive tcp_step.stopping)

lemma reaches_accepts: "tcp.reaches s \<Longrightarrow> tcp.reaches (fold accept_step answers s)"
  by (induction answers arbitrary: s) (auto intro: reaches_steps)

lemma reaches_thread: "tcp.reaches s \<Longrightarrow> tcp.reaches (run_thread reads s)"
  unfolding run_thread_def by (induction reads arbitrary: s) (auto intro: reaches_steps)

lemma tcp_samples_reached: "tcp.reaches reading_server" "tcp.reaches joining_server" "tcp.reaches stopped_server"
proof -
  show r: "tcp.reaches reading_server"
    unfolding reading_server_def accepted_server_def by (intro reaches_thread reaches_accepts listening_reached)
  then have "tcp.reaches (stop_call reading_server)"
    by (rule tcp.reaches.step) (rule tcp_step.stop, simp add: reading_value stage_def)
  then show "tcp.reaches joining_server"
    unfolding joining_server_def by (intro reaches_steps)
  then show "tcp.reaches stopped_server"
    unfolding stopped_server_def by (intro reaches_steps reaches_thread)
qed

theorem threaded_messages_are_lines_witness:
  "conn_messages (tv_log reading_server) 1 = lines_of (received reading_server 1)
   \<and> conn_messages (tv_log reading_server) 1 = [from_text ''hi'']"
  using threaded_messages_are_lines [OF tcp_samples_reached(1), of 1 "sample_thread R_receive (sample_framer [CHR ''h'', CHR ''i'', LF] 3) 1"]
  by (simp add: reading_value stage_def sample_thread_def is_closed_def sample_client_def umap_find_def conn_messages_def)

theorem threaded_callbacks_paired_witness:
  "conn_phase_of (tv_log stopped_server) 1 = Cp_closed \<and> tv_threads stopped_server = [] \<and> tv_accept stopped_server = A_none"
  using threaded_callbacks_paired [OF tcp_samples_reached(3), of 1] stopped_value
  by (simp add: reading_value stage_def conn_phase_of_def conn_step_def)

theorem threaded_stop_terminates_witness:
  "join_work joining_server = 9 \<and> join_work (accept_step one_client joining_server) < 9
   \<and> join_work (thread_step Receive_timeout 7 0 joining_server) < 9"
proof -
  have work: "join_work joining_server = 9"
    by (simp add: joining_value reading_value join_work_def stage_def sample_thread_def)
  show ?thesis
    using threaded_stop_terminates [OF tcp_samples_reached(2), of one_client 0 Receive_timeout 7] work
    by (simp add: joining_value reading_value stage_def sample_thread_def)
qed

end
