(* ===== verification/Iocp_Server.thy ===== *)
theory Iocp_Server
  imports Threaded_Invariant
begin

text \<open>
  The TCP backend on Windows completion ports (src/src/Net/Iocp): an accept thread, an idle monitor, a
  pool of workers that take completed operations off the port, the owner, and callers of send and
  disconnect. A thread is a value of type \<open>task\<close>, the place it is at with what it holds in local
  variables; \<open>task_step\<close> is one step of one thread on the shared state: an access to a shared variable,
  a section under one mutex, a callback or a call of the system. What the system answers is an argument.
  \<open>Disc\<close> is a call of disconnect with what the thread does after it.

  Model only: the log of callbacks, \<open>io_created\<close>, and for each connection \<open>ic_accepted\<close>, the buffers that
  send accepted, \<open>ic_wire\<close>, the bytes the system reported as sent, and \<open>ic_failed\<close>, a send the system refused.
  \<open>ic_no_delay\<close> is the option set on the socket before the connection takes it over.
\<close>

section \<open>State\<close>

record iocp_connection =
  ic_endpoint :: endpoint
  ic_closing :: bool
  ic_last_activity :: u64
  ic_send_queue :: "bytes list"
  ic_send_in_progress :: bool
  ic_messages :: line_framer
  ic_active :: nat
  ic_pending :: bool
  ic_accepted :: "bytes list"
  ic_wire :: bytes
  ic_failed :: bool
  ic_no_delay :: bool

datatype operation = Op_receive u64 | Op_send u64 bytes nat

fun op_connection :: "operation \<Rightarrow> u64" where
  "op_connection (Op_receive i) = i"
| "op_connection (Op_send i b k) = i"

record iocp_shared =
  io_options :: tcp_options
  io_callbacks :: tcp_callbacks
  io_running :: bool
  io_next_id :: u64
  io_objects :: "(u64, iocp_connection) umap"
  io_connections :: "(u64, unit) umap"
  io_kernel :: "operation list"
  io_pending_operations :: nat
  io_wakes :: nat
  io_info :: "string list"
  io_log :: "tcp_call list"
  io_created :: nat

datatype disc_pc = D_enter u64 | D_request u64 | D_notify u64

datatype task =
    T_end
  | Disc disc_pc task
  | Ac_loop | Ac_wait | Ac_accept | Ac_admit endpoint | Ac_accepting u64 endpoint | Ac_check u64 endpoint
  | Ac_capacity u64 endpoint | Ac_associate u64 endpoint | Ac_publish u64 | Ac_connected u64 | Ac_leave u64
  | Ac_left u64 | Ac_post u64 | Ac_post_failed u64 string
  | Wk_wait | Wk_got operation bool nat string | Wk_send operation nat | Wk_send_failed u64 string
  | Wk_active operation string | Wk_deliver operation string | Wk_scope operation string | Wk_refused operation | Wk_pop operation
  | Wk_line operation string | Wk_message operation string | Wk_return operation | Wk_leave operation | Wk_recheck operation
  | Wk_post operation | Wk_post_failed operation string | Wk_free operation
  | Id_loop | Id_sleep | Id_scan "u64 list" u64 | Id_check u64 "u64 list" u64
  | Ca_send u64 buffer

record iocp_answer =
  ia_ready :: int
  ia_error :: string
  ia_socket :: "endpoint option"
  ia_would_block :: bool
  ia_allowed :: bool
  ia_associate :: "string option"
  ia_submit :: "string option"
  ia_now :: u64
  ia_completion :: "(nat \<times> bool \<times> nat \<times> string) option"

definition io_call :: "bool \<Rightarrow> tcp_call \<Rightarrow> iocp_shared \<Rightarrow> iocp_shared" where
  "io_call is_set c s = (if is_set then s\<lparr>io_log := io_log s @ [c]\<rparr> else s)"

definition io_report :: "string \<Rightarrow> iocp_shared \<Rightarrow> iocp_shared" where
  "io_report message s =
     io_call (has_error (io_callbacks s)) (On_error message) (s\<lparr>io_info := io_info s @ [''TCP IOCP error: '' @ message]\<rparr>)"

definition io_endpoint :: "u64 \<Rightarrow> iocp_shared \<Rightarrow> endpoint" where
  "io_endpoint i s = (case umap_find (io_objects s) i of None \<Rightarrow> \<lparr>ep_address = [], ep_port = 0\<rparr> | Some c \<Rightarrow> ic_endpoint c)"

definition io_closing :: "u64 \<Rightarrow> iocp_shared \<Rightarrow> bool" where
  "io_closing i s = (case umap_find (io_objects s) i of None \<Rightarrow> True | Some c \<Rightarrow> ic_closing c)"

definition io_update :: "u64 \<Rightarrow> (iocp_connection \<Rightarrow> iocp_connection) \<Rightarrow> iocp_shared \<Rightarrow> iocp_shared" where
  "io_update i f s =
     (case umap_find (io_objects s) i of None \<Rightarrow> s | Some c \<Rightarrow> s\<lparr>io_objects := umap_assign i (f c) (io_objects s)\<rparr>)"

section \<open>Connection\<close>

definition Connection_new :: "endpoint \<Rightarrow> nat \<Rightarrow> bool \<Rightarrow> u64 \<Rightarrow> iocp_connection" where
  "Connection_new endpoint max_message_bytes no_delay now =
     \<lparr>ic_endpoint = endpoint, ic_closing = False, ic_last_activity = now, ic_send_queue = [], ic_send_in_progress = False,
      ic_messages = LineFramer_new max_message_bytes, ic_active = 0, ic_pending = False, ic_accepted = [], ic_wire = [],
      ic_failed = False, ic_no_delay = no_delay\<rparr>"

definition conn_close :: "iocp_connection \<Rightarrow> iocp_connection" where
  "conn_close c = (if ic_closing c then c else c\<lparr>ic_closing := True, ic_send_queue := []\<rparr>)"

definition begin_callback :: "iocp_connection \<Rightarrow> iocp_connection \<times> bool" where
  "begin_callback c = (if ic_closing c then (c, False) else (c\<lparr>ic_active := ic_active c + 1\<rparr>, True))"

definition end_callback :: "iocp_connection \<Rightarrow> iocp_connection \<times> bool" where
  "end_callback c =
     (let c' = c\<lparr>ic_active := ic_active c - 1\<rparr> in
      if ic_active c' = 0 \<and> ic_pending c' then (c'\<lparr>ic_pending := False\<rparr>, True) else (c', False))"

definition request_disconnect_notification :: "iocp_connection \<Rightarrow> iocp_connection \<times> bool" where
  "request_disconnect_notification c = (if ic_active c = 0 then (c, True) else (c\<lparr>ic_pending := True\<rparr>, False))"

text \<open>
  An operation counts as pending from its construction to its destruction. \<open>submit_op\<close> hands it to the
  system; when that fails at once there is no completion and the operation is destroyed.
\<close>

definition operation_started :: "iocp_shared \<Rightarrow> iocp_shared" where
  "operation_started s = s\<lparr>io_pending_operations := io_pending_operations s + 1\<rparr>"

definition operation_finished :: "iocp_shared \<Rightarrow> iocp_shared" where
  "operation_finished s = s\<lparr>io_pending_operations := io_pending_operations s - 1\<rparr>"

fun submit_text :: "operation \<Rightarrow> string" where
  "submit_text (Op_receive i) = ''WSARecv() failed: ''"
| "submit_text (Op_send i b k) = ''WSASend() failed: ''"

definition submit_op :: "string option \<Rightarrow> operation \<Rightarrow> iocp_shared \<Rightarrow> iocp_shared \<times> unit res" where
  "submit_op failure op s =
     (case failure of
        None \<Rightarrow> (s\<lparr>io_kernel := io_kernel s @ [op]\<rparr>, Inr ())
      | Some e \<Rightarrow> (operation_finished s, Inl (submit_text op @ e)))"

definition post_receive :: "string option \<Rightarrow> u64 \<Rightarrow> iocp_shared \<Rightarrow> iocp_shared \<times> unit res" where
  "post_receive failure i s =
     (if io_closing i s then (s, Inl ''connection is closing'')
      else submit_op failure (Op_receive i) (operation_started s))"

definition post_next_send :: "string option \<Rightarrow> u64 \<Rightarrow> iocp_shared \<Rightarrow> iocp_shared \<times> unit res" where
  "post_next_send failure i s =
     (case umap_find (io_objects s) i of
        None \<Rightarrow> (s, Inr ())
      | Some c \<Rightarrow>
          (case ic_send_queue c of
             [] \<Rightarrow> (io_update i (\<lambda>c. c\<lparr>ic_send_in_progress := False\<rparr>) s, Inr ())
           | b # rest \<Rightarrow>
               (case submit_op failure (Op_send i b 0)
                       (operation_started (io_update i (\<lambda>c. c\<lparr>ic_send_queue := rest, ic_send_in_progress := True\<rparr>) s)) of
                  (s', Inr _) \<Rightarrow> (s', Inr ())
                | (s', Inl e) \<Rightarrow> (io_update i (\<lambda>c. c\<lparr>ic_send_in_progress := False, ic_failed := True\<rparr>) s', Inl e))))"

definition connection_send :: "string option \<Rightarrow> u64 \<Rightarrow> buffer \<Rightarrow> iocp_shared \<Rightarrow> iocp_shared \<times> unit res" where
  "connection_send failure i data s =
     (case umap_find (io_objects s) i of
        None \<Rightarrow> (s, Inl ''connection is closing'')
      | Some c \<Rightarrow>
          if ic_closing c then (s, Inl ''connection is closing'')
          else
            (let s' = io_update i (\<lambda>c. c\<lparr>ic_send_queue := ic_send_queue c @ [buf_bytes data],
                        ic_accepted := ic_accepted c @ [buf_bytes data]\<rparr>) s in
             if ic_send_in_progress c then (s', Inr ()) else post_next_send failure i s'))"

text \<open>The result says whether the worker still owns the operation; it does not after a resubmission.\<close>

definition complete_send :: "string option \<Rightarrow> u64 \<Rightarrow> operation \<Rightarrow> nat \<Rightarrow> iocp_shared \<Rightarrow> iocp_shared \<times> bool \<times> unit res" where
  "complete_send failure now op transferred s =
     (case op of
        Op_receive i \<Rightarrow> (s, True, Inr ())
      | Op_send i b k \<Rightarrow>
          if io_closing i s then (s, True, Inr ())
          else
            (let s1 = io_update i (\<lambda>c. c\<lparr>ic_last_activity := now, ic_wire := ic_wire c @ take transferred (drop k b)\<rparr>) s in
             if k + transferred < length b
             then (case submit_op failure (Op_send i b (k + transferred)) s1 of
                     (s2, Inr _) \<Rightarrow> (s2, False, Inr ())
                   | (s2, Inl e) \<Rightarrow> (io_update i (\<lambda>c. c\<lparr>ic_failed := True\<rparr>) s2, False, Inl e))
             else (case post_next_send failure i s1 of (s2, r) \<Rightarrow> (s2, True, r))))"

section \<open>Threads\<close>

text \<open>\<^verbatim>\<open>Server::disconnect\<close> and \<^verbatim>\<open>notify_disconnected\<close>, called from every thread: the call and what is left of it.\<close>

definition disc_step :: "disc_pc \<Rightarrow> iocp_shared \<Rightarrow> iocp_shared \<times> disc_pc option" where
  "disc_step d s =
     (case d of
        D_enter i \<Rightarrow>
          (case umap_find (io_connections s) i of
             None \<Rightarrow> (s, None)
           | Some _ \<Rightarrow> ((io_update i conn_close s)\<lparr>io_connections := umap_erase i (io_connections s)\<rparr>, Some (D_request i)))
      | D_request i \<Rightarrow>
          (case umap_find (io_objects s) i of
             None \<Rightarrow> (s, None)
           | Some c \<Rightarrow>
               (case request_disconnect_notification c of
                  (c', now) \<Rightarrow> (io_update i (\<lambda>_. c') s, if now then Some (D_notify i) else None)))
      | D_notify i \<Rightarrow>
          (io_call (has_disconnected (io_callbacks s)) (On_disconnected i (io_endpoint i s)) s, None))"

text \<open>Leaving a callback scope: the last callback out delivers a deferred disconnect.\<close>

definition leave_scope :: "u64 \<Rightarrow> task \<Rightarrow> iocp_shared \<Rightarrow> iocp_shared \<times> task" where
  "leave_scope i k s =
     (case umap_find (io_objects s) i of
        None \<Rightarrow> (s, k)
      | Some c \<Rightarrow>
          (case end_callback c of
             (c', notify) \<Rightarrow> (io_update i (\<lambda>_. c') s, if notify then Disc (D_notify i) k else k)))"

definition accept_socket :: "iocp_answer \<Rightarrow> iocp_shared \<Rightarrow> iocp_shared \<times> task" where
  "accept_socket a s =
     (case ia_socket a of
        None \<Rightarrow>
          (if io_running s \<and> \<not> ia_would_block a then io_report (''accept() failed: '' @ ia_error a) s else s, Ac_loop)
      | Some e \<Rightarrow> (s, Ac_admit e))"

definition accept_step_iocp :: "iocp_answer \<Rightarrow> task \<Rightarrow> iocp_shared \<Rightarrow> iocp_shared \<times> task" where
  "accept_step_iocp a t s =
     (case t of
        Ac_loop \<Rightarrow> (s, if io_running s then Ac_wait else T_end)
      | Ac_wait \<Rightarrow>
          if \<not> io_running s then (s, T_end)
          else if ia_ready a < 0 then (io_report (''select(listener) failed: '' @ ia_error a) s, Ac_loop)
          else (s, if ia_ready a = 0 then Ac_loop else Ac_accept)
      | Ac_accept \<Rightarrow> accept_socket a s
      | Ac_admit e \<Rightarrow>
          if \<not> io_running s then (s, T_end)
          else (s\<lparr>io_next_id := io_next_id s + 1, io_created := io_created s + 1\<rparr>, Ac_accepting (io_next_id s) e)
      | Ac_accepting i e \<Rightarrow>
          if has_accepting (io_callbacks s)
          then (io_call True (On_accepting i e) s, if ia_allowed a then Ac_check i e else Ac_loop)
          else (s, Ac_check i e)
      | Ac_check i e \<Rightarrow> (s, if io_running s then Ac_capacity i e else T_end)
      | Ac_capacity i e \<Rightarrow>
          if umap_size (io_connections s) \<ge> tc_max_connections (io_options s)
          then (io_report ''connection rejected: max TCP IOCP connections reached'' s, Ac_loop)
          else (s, Ac_associate i e)
      | Ac_associate i e \<Rightarrow>
          (case ia_associate a of
             Some m \<Rightarrow> (io_report (''CreateIoCompletionPort(client) failed: '' @ m) s, Ac_loop)
           | None \<Rightarrow>
               (s\<lparr>io_objects := umap_assign i
                     (fst (begin_callback (Connection_new e (tc_max_message_bytes (io_options s)) (tc_no_delay (io_options s)) (ia_now a)))) (io_objects s)\<rparr>,
                Ac_publish i))
      | Ac_publish i \<Rightarrow> (s\<lparr>io_connections := fst (umap_emplace i () (io_connections s))\<rparr>, Ac_connected i)
      | Ac_connected i \<Rightarrow> (io_call (has_connected (io_callbacks s)) (On_connected i (io_endpoint i s)) s, Ac_leave i)
      | Ac_leave i \<Rightarrow> leave_scope i (Ac_left i) s
      | Ac_left i \<Rightarrow> (s, if \<not> io_running s \<or> io_closing i s then Disc (D_enter i) Ac_loop else Ac_post i)
      | Ac_post i \<Rightarrow>
          (case post_receive (ia_submit a) i s of
             (s', Inr _) \<Rightarrow> (s', Ac_loop)
           | (s', Inl e) \<Rightarrow> (s', Ac_post_failed i e))
      | Ac_post_failed i e \<Rightarrow> (if io_closing i s then s else io_report e s, Disc (D_enter i) Ac_loop)
      | _ \<Rightarrow> (s, t))"

text \<open>
  \<^verbatim>\<open>worker_loop\<close> and \<^verbatim>\<open>deliver_received\<close>. A completion is an index into the operations under way, whether it
  succeeded, the count and the bytes; \<open>None\<close> is a null packet, of which there are \<open>io_wakes\<close>.
\<close>

definition worker_wait :: "iocp_answer \<Rightarrow> iocp_shared \<Rightarrow> iocp_shared \<times> task" where
  "worker_wait a s =
     (case ia_completion a of
        None \<Rightarrow> if 0 < io_wakes s then (s\<lparr>io_wakes := io_wakes s - 1\<rparr>, T_end) else (s, Wk_wait)
      | Some (j, ok, n, bytes) \<Rightarrow>
          if j < length (io_kernel s)
          then (s\<lparr>io_kernel := take j (io_kernel s) @ drop (Suc j) (io_kernel s)\<rparr>, Wk_got (io_kernel s ! j) ok n bytes)
          else (s, Wk_wait))"

definition worker_dispatch :: "operation \<Rightarrow> bool \<Rightarrow> nat \<Rightarrow> string \<Rightarrow> iocp_shared \<Rightarrow> iocp_shared \<times> task" where
  "worker_dispatch op ok n bytes s =
     (if \<not> ok \<or> n = 0 \<or> \<not> io_running s \<or> io_closing (op_connection op) s
      then (s, Disc (D_enter (op_connection op)) (Wk_free op))
      else
        (case op of
           Op_send i b k \<Rightarrow> (s, Wk_send op n)
         | Op_receive i \<Rightarrow> (s, Wk_active op (take n bytes))))"

definition worker_begin :: "operation \<Rightarrow> string \<Rightarrow> iocp_shared \<Rightarrow> iocp_shared \<times> task" where
  "worker_begin op bytes s =
     (case umap_find (io_objects s) (op_connection op) of
        None \<Rightarrow> (s, Wk_free op)
      | Some c \<Rightarrow>
          (case begin_callback c of
             (c', entered) \<Rightarrow> (io_update (op_connection op) (\<lambda>_. c') s, if entered then Wk_scope op bytes else Wk_free op)))"

definition worker_append :: "operation \<Rightarrow> string \<Rightarrow> iocp_shared \<Rightarrow> iocp_shared \<times> task" where
  "worker_append op bytes s =
     (if \<not> io_running s then (s, Wk_return op)
      else
        (case umap_find (io_objects s) (op_connection op) of
           None \<Rightarrow> (s, Wk_return op)
         | Some c \<Rightarrow>
             (case framer_append (ic_messages c) bytes of
                (f, ok) \<Rightarrow> (io_update (op_connection op) (\<lambda>c. c\<lparr>ic_messages := f\<rparr>) s, if ok then Wk_pop op else Wk_refused op))))"

definition worker_pop :: "operation \<Rightarrow> iocp_shared \<Rightarrow> iocp_shared \<times> task" where
  "worker_pop op s =
     (case umap_find (io_objects s) (op_connection op) of
        None \<Rightarrow> (s, Wk_return op)
      | Some c \<Rightarrow>
          (case framer_try_pop (ic_messages c) of
             None \<Rightarrow> (s, Wk_leave op)
           | Some (f, line) \<Rightarrow> (io_update (op_connection op) (\<lambda>c. c\<lparr>ic_messages := f\<rparr>) s, Wk_line op line)))"

definition worker_step_iocp :: "iocp_answer \<Rightarrow> task \<Rightarrow> iocp_shared \<Rightarrow> iocp_shared \<times> task" where
  "worker_step_iocp a t s =
     (case t of
        Wk_wait \<Rightarrow> worker_wait a s
      | Wk_got op ok n bytes \<Rightarrow> worker_dispatch op ok n bytes s
      | Wk_send op n \<Rightarrow>
          (case complete_send (ia_submit a) (ia_now a) op n s of
             (s', owned, Inr _) \<Rightarrow> (s', if owned then Wk_free op else Wk_wait)
           | (s', owned, Inl e) \<Rightarrow>
               ((if owned then operation_finished s' else s'), Wk_send_failed (op_connection op) e))
      | Wk_send_failed i e \<Rightarrow> (io_report e s, Disc (D_enter i) Wk_wait)
      | Wk_active op bytes \<Rightarrow>
          (io_update (op_connection op) (\<lambda>c. c\<lparr>ic_last_activity := ia_now a\<rparr>) s, Wk_deliver op bytes)
      | Wk_deliver op bytes \<Rightarrow> worker_begin op bytes s
      | Wk_scope op bytes \<Rightarrow> worker_append op bytes s
      | Wk_refused op \<Rightarrow>
          (io_report ''connection closed: message exceeds max_message_bytes'' s, Disc (D_enter (op_connection op)) (Wk_return op))
      | Wk_pop op \<Rightarrow> worker_pop op s
      | Wk_line op line \<Rightarrow>
          (s, if \<not> io_running s \<or> io_closing (op_connection op) s then Wk_return op else Wk_message op line)
      | Wk_message op line \<Rightarrow>
          (io_call (has_message (io_callbacks s))
             (On_message (op_connection op) (io_endpoint (op_connection op) s) (from_text line)) s, Wk_pop op)
      | Wk_return op \<Rightarrow> leave_scope (op_connection op) (Wk_free op) s
      | Wk_leave op \<Rightarrow> leave_scope (op_connection op) (Wk_recheck op) s
      | Wk_recheck op \<Rightarrow> (s, if \<not> io_running s \<or> io_closing (op_connection op) s then Wk_free op else Wk_post op)
      | Wk_post op \<Rightarrow>
          (case post_receive (ia_submit a) (op_connection op) s of
             (s', Inr _) \<Rightarrow> (s', Wk_free op)
           | (s', Inl e) \<Rightarrow> (s', Wk_post_failed op e))
      | Wk_post_failed op e \<Rightarrow>
          (if io_closing (op_connection op) s then s else io_report e s, Disc (D_enter (op_connection op)) (Wk_free op))
      | Wk_free op \<Rightarrow> (operation_finished s, Wk_wait)
      | _ \<Rightarrow> (s, t))"

definition idle_for_too_long :: "u64 \<Rightarrow> u64 \<Rightarrow> u64 \<Rightarrow> bool" where
  "idle_for_too_long now activity timeout \<longleftrightarrow> activity > 0 \<and> now \<ge> activity \<and> now - activity \<ge> timeout"

definition idle_step :: "iocp_answer \<Rightarrow> task \<Rightarrow> iocp_shared \<Rightarrow> iocp_shared \<times> task" where
  "idle_step a t s =
     (case t of
        Id_loop \<Rightarrow> (s, if io_running s then Id_sleep else T_end)
      | Id_sleep \<Rightarrow>
          (s, if \<not> io_running s \<or> tc_idle_timeout_ms (io_options s) = 0 then Id_loop
              else Id_scan (map fst (io_connections s)) (ia_now a))
      | Id_scan ids now \<Rightarrow>
          (case ids of
             [] \<Rightarrow> (s, Id_loop)
           | i # rest \<Rightarrow> (s, if io_closing i s then Id_scan rest now else Id_check i rest now))
      | Id_check i rest now \<Rightarrow>
          (case umap_find (io_objects s) i of
             None \<Rightarrow> (s, Id_scan rest now)
           | Some c \<Rightarrow>
               if idle_for_too_long now (ic_last_activity c) (tc_idle_timeout_ms (io_options s))
               then (s\<lparr>io_info := io_info s @ [''TCP IOCP idle timeout connection='' @ decimal (unat i)
                       @ '' remote='' @ endpoint_to_string (ic_endpoint c)]\<rparr>, Disc (D_enter i) (Id_scan rest now))
               else (s, Id_scan rest now))
      | _ \<Rightarrow> (s, t))"

text \<open>The second half of a caller's \<^verbatim>\<open>Server::send\<close>; a refused send disconnects.\<close>

definition caller_step :: "iocp_answer \<Rightarrow> task \<Rightarrow> iocp_shared \<Rightarrow> iocp_shared \<times> task" where
  "caller_step a t s =
     (case t of
        Ca_send i data \<Rightarrow>
          (case connection_send (ia_submit a) i data s of
             (s', Inr _) \<Rightarrow> (s', T_end)
           | (s', Inl _) \<Rightarrow> (s', Disc (D_enter i) T_end))
      | _ \<Rightarrow> (s, t))"

datatype thread_kind = K_accept | K_worker | K_idle | K_caller | K_end

primrec kind_of :: "task \<Rightarrow> thread_kind" where
  "kind_of T_end = K_end"
| "kind_of (Disc d k) = kind_of k"
| "kind_of Wk_wait = K_worker" | "kind_of (Wk_got op ok n bytes) = K_worker" | "kind_of (Wk_send op n) = K_worker"
| "kind_of (Wk_send_failed i e) = K_worker" | "kind_of (Wk_active op bytes) = K_worker"
| "kind_of (Wk_deliver op bytes) = K_worker" | "kind_of (Wk_scope op bytes) = K_worker"
| "kind_of (Wk_refused op) = K_worker" | "kind_of (Wk_pop op) = K_worker" | "kind_of (Wk_line op line) = K_worker"
| "kind_of (Wk_message op line) = K_worker" | "kind_of (Wk_return op) = K_worker" | "kind_of (Wk_leave op) = K_worker"
| "kind_of (Wk_recheck op) = K_worker" | "kind_of (Wk_post op) = K_worker" | "kind_of (Wk_post_failed op e) = K_worker"
| "kind_of (Wk_free op) = K_worker"
| "kind_of Id_loop = K_idle" | "kind_of Id_sleep = K_idle" | "kind_of (Id_scan ids now) = K_idle"
| "kind_of (Id_check i ids now) = K_idle"
| "kind_of (Ca_send i data) = K_caller"
| "kind_of Ac_loop = K_accept" | "kind_of Ac_wait = K_accept" | "kind_of Ac_accept = K_accept" | "kind_of (Ac_admit e) = K_accept"
| "kind_of (Ac_accepting i e) = K_accept" | "kind_of (Ac_check i e) = K_accept" | "kind_of (Ac_capacity i e) = K_accept"
| "kind_of (Ac_associate i e) = K_accept" | "kind_of (Ac_publish i) = K_accept" | "kind_of (Ac_connected i) = K_accept"
| "kind_of (Ac_leave i) = K_accept" | "kind_of (Ac_left i) = K_accept" | "kind_of (Ac_post i) = K_accept"
| "kind_of (Ac_post_failed i e) = K_accept"

definition disc_run :: "disc_pc \<Rightarrow> task \<Rightarrow> iocp_shared \<Rightarrow> iocp_shared \<times> task" where
  "disc_run d k s = (case disc_step d s of (s', None) \<Rightarrow> (s', k) | (s', Some d') \<Rightarrow> (s', Disc d' k))"

definition task_step :: "iocp_answer \<Rightarrow> task \<Rightarrow> iocp_shared \<Rightarrow> iocp_shared \<times> task" where
  "task_step a t s =
     (case t of
        Disc d k \<Rightarrow> disc_run d k s
      | _ \<Rightarrow>
          (case kind_of t of
             K_accept \<Rightarrow> accept_step_iocp a t s
           | K_worker \<Rightarrow> worker_step_iocp a t s
           | K_idle \<Rightarrow> idle_step a t s
           | K_caller \<Rightarrow> caller_step a t s
           | K_end \<Rightarrow> (s, t)))"

section \<open>The server\<close>

datatype iocp_owner =
    Ow_idle | Ow_start_failed | Ow_join_accept | Ow_join_idle | Ow_snapshot | Ow_close "u64 list" | Ow_drain | Ow_wake nat
  | Ow_join_workers

text \<open>\<open>is_accept\<close> and \<open>is_idle\<close>: \<open>None\<close> when there is no such thread. \<open>is_owner_task\<close> is the disconnect that the owner runs.\<close>

record iocp_server =
  is_shared :: iocp_shared
  is_accept :: "task option"
  is_idle :: "task option"
  is_workers :: "task list"
  is_callers :: "task list"
  is_owner :: iocp_owner
  is_owner_task :: task
  is_listening :: bool
  is_port_open :: bool

definition Shared_new :: iocp_shared where
  "Shared_new =
     \<lparr>io_options = TcpServerOptions_default,
      io_callbacks = \<lparr>has_accepting = False, has_connected = False, has_message = False, has_disconnected = False,
        has_error = False\<rparr>,
      io_running = False, io_next_id = 1, io_objects = [], io_connections = [], io_kernel = [], io_pending_operations = 0,
      io_wakes = 0, io_info = [], io_log = [], io_created = 0\<rparr>"

definition Server_iocp_new :: iocp_server where
  "Server_iocp_new =
     \<lparr>is_shared = Shared_new, is_accept = None, is_idle = None, is_workers = [], is_callers = [], is_owner = Ow_idle,
      is_owner_task = T_end, is_listening = False, is_port_open = False\<rparr>"

definition open_listener_iocp :: "listen_answer \<Rightarrow> endpoint \<Rightarrow> unit res" where
  "open_listener_iocp a e =
     (if \<not> la_address_ok a then Inl (''invalid IPv4 bind address: '' @ ep_address e)
      else
        (case la_socket a of
           Some m \<Rightarrow> Inl (''WSASocketW() failed: '' @ m)
         | None \<Rightarrow>
             (case la_bind a of
                Some m \<Rightarrow> Inl (''bind() failed: '' @ m)
              | None \<Rightarrow>
                  (case la_listen a of
                     Some m \<Rightarrow> Inl (''listen() failed: '' @ m)
                   | None \<Rightarrow>
                       (case la_mode a of
                          Some m \<Rightarrow> Inl (''ioctlsocket(FIONBIO) failed: '' @ m)
                        | None \<Rightarrow> Inr ())))))"

text \<open>
  \<open>port\<close>: the error of creating the completion port. \<open>failure\<close>: how many threads could be created before
  one failed, and why; the workers come first, then the accept thread, then the idle monitor.
\<close>

definition iocp_start :: "string option \<Rightarrow> listen_answer \<Rightarrow> string option \<Rightarrow> (nat \<times> string) option \<Rightarrow> tcp_options \<Rightarrow>
    tcp_callbacks \<Rightarrow> iocp_server \<Rightarrow> iocp_server \<times> unit res" where
  "iocp_start system a port failure options callbacks v =
     (if io_running (is_shared v) then (v, Inr ())
      else
        (case system of
           Some e \<Rightarrow> (v, Inl e)
         | None \<Rightarrow>
             (case open_listener_iocp a (tc_bind_endpoint options) of
                Inl e \<Rightarrow> (v, Inl e)
              | Inr _ \<Rightarrow>
                  (case port of
                     Some e \<Rightarrow> (v, Inl (''CreateIoCompletionPort() failed: '' @ e))
                   | None \<Rightarrow>
                       (let n = max 1 (tc_worker_count options);
                            s = (is_shared v)\<lparr>io_options := options, io_callbacks := callbacks, io_running := True\<rparr>;
                            v' = v\<lparr>is_listening := True, is_port_open := True\<rparr> in
                        case failure of
                          Some (m, e) \<Rightarrow>
                            (v'\<lparr>is_shared := s, is_workers := replicate (min m n) Wk_wait,
                                is_accept := (if n < m then Some Ac_loop else None), is_owner := Ow_start_failed\<rparr>,
                             Inl (''failed to start IOCP threads: '' @ e))
                        | None \<Rightarrow>
                            (v'\<lparr>is_shared := s\<lparr>io_info := io_info s @ [''TCP IOCP listening on ''
                                  @ endpoint_to_string (tc_bind_endpoint options) @ '' workers='' @ decimal n]\<rparr>,
                                is_workers := replicate n Wk_wait, is_accept := Some Ac_loop, is_idle := Some Id_loop\<rparr>,
                             Inr ()))))))"

definition iocp_stop_call :: "iocp_server \<Rightarrow> iocp_server" where
  "iocp_stop_call v =
     (if io_running (is_shared v) then v\<lparr>is_shared := (is_shared v)\<lparr>io_running := False\<rparr>, is_owner := Ow_join_accept\<rparr> else v)"

text \<open>The steps of \<^verbatim>\<open>stop\<close>; a join or the drain barrier changes nothing while it has to wait.\<close>

definition iocp_stop_step :: "iocp_server \<Rightarrow> iocp_server" where
  "iocp_stop_step v =
     (case is_owner v of
        Ow_idle \<Rightarrow> v
      | Ow_start_failed \<Rightarrow> iocp_stop_call v
      | Ow_join_accept \<Rightarrow>
          if is_accept v = None \<or> is_accept v = Some T_end
          then v\<lparr>is_accept := None, is_listening := False, is_owner := Ow_join_idle\<rparr> else v
      | Ow_join_idle \<Rightarrow>
          if is_idle v = None \<or> is_idle v = Some T_end then v\<lparr>is_idle := None, is_owner := Ow_snapshot\<rparr> else v
      | Ow_snapshot \<Rightarrow> v\<lparr>is_owner := Ow_close (map fst (io_connections (is_shared v)))\<rparr>
      | Ow_close ids \<Rightarrow>
          if is_owner_task v \<noteq> T_end then v
          else (case ids of
                  [] \<Rightarrow> v\<lparr>is_owner := Ow_drain\<rparr>
                | i # rest \<Rightarrow> v\<lparr>is_owner_task := Disc (D_enter i) T_end, is_owner := Ow_close rest\<rparr>)
      | Ow_drain \<Rightarrow>
          if io_pending_operations (is_shared v) = 0 then v\<lparr>is_owner := Ow_wake (length (is_workers v))\<rparr> else v
      | Ow_wake n \<Rightarrow>
          (case n of
             0 \<Rightarrow> v\<lparr>is_owner := Ow_join_workers\<rparr>
           | Suc m \<Rightarrow> v\<lparr>is_shared := (is_shared v)\<lparr>io_wakes := io_wakes (is_shared v) + 1\<rparr>, is_owner := Ow_wake m\<rparr>)
      | Ow_join_workers \<Rightarrow>
          if list_all (\<lambda>t. t = T_end) (is_workers v)
          then v\<lparr>is_workers := [], is_port_open := False, is_owner := Ow_idle,
                 is_shared := (is_shared v)\<lparr>io_info := io_info (is_shared v) @ [''TCP IOCP listener stopped on ''
                   @ endpoint_to_string (tc_bind_endpoint (io_options (is_shared v)))]\<rparr>\<rparr>
          else v)"

definition call_send :: "u64 \<Rightarrow> buffer \<Rightarrow> iocp_server \<Rightarrow> iocp_server \<times> unit res" where
  "call_send i data v =
     (if buf_bytes data = [] then (v, Inr ())
      else
        (case umap_find (io_connections (is_shared v)) i of
           None \<Rightarrow> (v, Inl ''connection not found'')
         | Some _ \<Rightarrow> (v\<lparr>is_callers := Ca_send i data # is_callers v\<rparr>, Inr ())))"

definition call_disconnect :: "u64 \<Rightarrow> iocp_server \<Rightarrow> iocp_server" where
  "call_disconnect i v = v\<lparr>is_callers := Disc (D_enter i) T_end # is_callers v\<rparr>"

section \<open>Runs\<close>

definition run_accept :: "iocp_answer \<Rightarrow> iocp_server \<Rightarrow> iocp_server" where
  "run_accept a v =
     (case is_accept v of
        None \<Rightarrow> v
      | Some t \<Rightarrow> (case task_step a t (is_shared v) of (s, t') \<Rightarrow> v\<lparr>is_shared := s, is_accept := Some t'\<rparr>))"

definition run_idle :: "iocp_answer \<Rightarrow> iocp_server \<Rightarrow> iocp_server" where
  "run_idle a v =
     (case is_idle v of
        None \<Rightarrow> v
      | Some t \<Rightarrow> (case task_step a t (is_shared v) of (s, t') \<Rightarrow> v\<lparr>is_shared := s, is_idle := Some t'\<rparr>))"

definition run_worker :: "iocp_answer \<Rightarrow> nat \<Rightarrow> iocp_server \<Rightarrow> iocp_server" where
  "run_worker a k v =
     (if k < length (is_workers v)
      then (case task_step a (is_workers v ! k) (is_shared v) of
              (s, t') \<Rightarrow> v\<lparr>is_shared := s, is_workers := (is_workers v)[k := t']\<rparr>)
      else v)"

definition run_caller :: "iocp_answer \<Rightarrow> nat \<Rightarrow> iocp_server \<Rightarrow> iocp_server" where
  "run_caller a k v =
     (if k < length (is_callers v)
      then (case task_step a (is_callers v ! k) (is_shared v) of
              (s, t') \<Rightarrow> v\<lparr>is_shared := s, is_callers := filter (\<lambda>t. t \<noteq> T_end) ((is_callers v)[k := t'])\<rparr>)
      else v)"

definition run_owner :: "iocp_answer \<Rightarrow> iocp_server \<Rightarrow> iocp_server" where
  "run_owner a v = (case task_step a (is_owner_task v) (is_shared v) of (s, t') \<Rightarrow> v\<lparr>is_shared := s, is_owner_task := t'\<rparr>)"

inductive iocp_step :: "iocp_server \<Rightarrow> iocp_server \<Rightarrow> bool" where
  start: "is_owner v = Ow_idle \<Longrightarrow> complete callbacks \<Longrightarrow> iocp_step v (fst (iocp_start system a port failure options callbacks v))"
| stop: "is_owner v = Ow_idle \<Longrightarrow> iocp_step v (iocp_stop_call v)"
| stopping: "iocp_step v (iocp_stop_step v)"
| owner: "iocp_step v (run_owner a v)"
| accept: "iocp_step v (run_accept a v)"
| idle: "iocp_step v (run_idle a v)"
| worker: "iocp_step v (run_worker a k v)"
| caller: "iocp_step v (run_caller a k v)"
| send: "iocp_step v (fst (call_send i data v))"
| disconnect: "iocp_step v (call_disconnect i v)"

end
