(* ===== verification/Iocp_Invariant.thy ===== *)
theory Iocp_Invariant
  imports Iocp_Server "HOL-Library.Multiset"
begin

text \<open>
  What the threads of the completion port backend hold of a connection, as a multiset of claims, and the
  invariant that one step of one thread keeps, whatever the other threads hold.
\<close>

section \<open>Claims\<close>

text \<open>
  \<open>Scope\<close>: a callback scope was entered. \<open>Reader\<close>: the right to receive, held by the operation under way
  or the thread that delivers. \<open>Writer\<close>: a send under way, with the bytes that remain. \<open>Request\<close> and
  \<open>Notify\<close>: a disconnect that still has to ask for, or to deliver, the notification. \<open>Reserved\<close>,
  \<open>Unpublished\<close> and \<open>Connecting\<close>: the stages of the accept thread. \<open>Held\<close>: an operation not yet destroyed.
\<close>

datatype claim =
    Scope u64 | Reader u64 | Writer u64 bytes | Request u64 | Notify u64 | Reserved u64 | Unpublished u64 | Connecting u64 | Held

fun op_claims :: "operation \<Rightarrow> claim multiset" where
  "op_claims (Op_receive i) = {#Held, Reader i#}"
| "op_claims (Op_send i b k) = {#Held, Writer i (drop k b)#}"

fun disc_claims :: "disc_pc \<Rightarrow> claim multiset" where
  "disc_claims (D_enter i) = {#}"
| "disc_claims (D_request i) = {#Request i#}"
| "disc_claims (D_notify i) = {#Notify i#}"

definition scoped :: "operation \<Rightarrow> claim multiset" where
  "scoped op = {#Held, Reader (op_connection op), Scope (op_connection op)#}"

primrec claims_of :: "task \<Rightarrow> claim multiset" where
  "claims_of T_end = {#}"
| "claims_of (Disc d k) = disc_claims d + claims_of k"
| "claims_of Wk_wait = {#}"
| "claims_of (Wk_got op ok n bytes) = op_claims op"
| "claims_of (Wk_send op n) = op_claims op"
| "claims_of (Wk_send_failed i e) = {#}"
| "claims_of (Wk_active op bytes) = {#Held, Reader (op_connection op)#}"
| "claims_of (Wk_deliver op bytes) = {#Held, Reader (op_connection op)#}"
| "claims_of (Wk_scope op bytes) = scoped op"
| "claims_of (Wk_refused op) = scoped op"
| "claims_of (Wk_pop op) = scoped op"
| "claims_of (Wk_line op line) = scoped op"
| "claims_of (Wk_message op line) = scoped op"
| "claims_of (Wk_return op) = scoped op"
| "claims_of (Wk_leave op) = scoped op"
| "claims_of (Wk_recheck op) = {#Held, Reader (op_connection op)#}"
| "claims_of (Wk_post op) = {#Held, Reader (op_connection op)#}"
| "claims_of (Wk_post_failed op e) = {#Held#}"
| "claims_of (Wk_free op) = {#Held#}"
| "claims_of Id_loop = {#}"
| "claims_of Id_sleep = {#}"
| "claims_of (Id_scan ids now) = {#}"
| "claims_of (Id_check i ids now) = {#}"
| "claims_of (Ca_send i data) = {#}"
| "claims_of Ac_loop = {#}"
| "claims_of Ac_wait = {#}"
| "claims_of Ac_accept = {#}"
| "claims_of (Ac_admit e) = {#}"
| "claims_of (Ac_accepting i e) = {#Reserved i#}"
| "claims_of (Ac_check i e) = {#Reserved i#}"
| "claims_of (Ac_capacity i e) = {#Reserved i#}"
| "claims_of (Ac_associate i e) = {#Reserved i#}"
| "claims_of (Ac_publish i) = {#Scope i, Unpublished i#}"
| "claims_of (Ac_connected i) = {#Scope i, Connecting i#}"
| "claims_of (Ac_leave i) = {#Scope i, Reader i#}"
| "claims_of (Ac_left i) = {#Reader i#}"
| "claims_of (Ac_post i) = {#Reader i#}"
| "claims_of (Ac_post_failed i e) = {#}"

definition ops_claims :: "operation list \<Rightarrow> claim multiset" where
  "ops_claims ops = sum_list (map op_claims ops)"

abbreviation kernel_claims :: "iocp_shared \<Rightarrow> claim multiset" where
  "kernel_claims s \<equiv> ops_claims (io_kernel s)"

lemma ops_claims_simps [simp]:
  "ops_claims [] = {#}" "ops_claims (ops @ [op]) = ops_claims ops + op_claims op"
  by (simp_all add: ops_claims_def)

lemma ops_claims_taken: "j < length ops \<Longrightarrow> ops_claims ops = op_claims (ops ! j) + ops_claims (take j ops @ drop (Suc j) ops)"
  by (subst id_take_nth_drop [of j ops]) (simp_all add: ops_claims_def ac_simps)

section \<open>The invariant of one connection\<close>

definition registered :: "iocp_shared \<Rightarrow> u64 \<Rightarrow> bool" where
  "registered s i \<longleftrightarrow> umap_find (io_connections s) i \<noteq> None"

definition ending :: "claim multiset \<Rightarrow> u64 \<Rightarrow> nat" where
  "ending C i = count C (Request i) + count C (Notify i)"

definition starting :: "claim multiset \<Rightarrow> u64 \<Rightarrow> nat" where
  "starting C i = count C (Unpublished i) + count C (Connecting i)"

definition absent_ok :: "claim multiset \<Rightarrow> bool \<Rightarrow> conn_phase \<Rightarrow> u64 \<Rightarrow> bool" where
  "absent_ok C reg ph i \<longleftrightarrow> \<not> reg \<and> ph = Cp_fresh \<and> count C (Scope i) = 0 \<and> count C (Reader i) = 0 \<and> ending C i = 0
     \<and> starting C i = 0 \<and> count C (Reserved i) \<le> 1"

definition exclusive :: "claim multiset \<Rightarrow> u64 \<Rightarrow> bool" where
  "exclusive C i \<longleftrightarrow> count C (Reserved i) = 0 \<and> count C (Reader i) + starting C i \<le> 1"

definition lifetime :: "claim multiset \<Rightarrow> bool \<Rightarrow> conn_phase \<Rightarrow> u64 \<Rightarrow> iocp_connection \<Rightarrow> bool" where
  "lifetime C reg ph i c \<longleftrightarrow>
     ic_active c = count C (Scope i) \<and> starting C i \<le> ic_active c
     \<and> (0 < starting C i \<longleftrightarrow> ph = Cp_fresh) \<and> ph \<noteq> Cp_broken
     \<and> (ic_pending c \<longrightarrow> 0 < ic_active c) \<and> (0 < count C (Notify i) \<or> ph = Cp_closed \<longrightarrow> ic_active c = 0)
     \<and> (if reg \<or> 0 < count C (Unpublished i)
        then \<not> ic_closing c \<and> \<not> ic_pending c \<and> ending C i = 0 \<and> ph \<noteq> Cp_closed \<and> \<not> (reg \<and> 0 < count C (Unpublished i))
        else ic_closing c \<and> ending C i + of_bool (ic_pending c) + of_bool (ph = Cp_closed) = 1)"

definition present_ok :: "claim multiset \<Rightarrow> bool \<Rightarrow> conn_phase \<Rightarrow> u64 \<Rightarrow> iocp_connection \<Rightarrow> bool" where
  "present_ok C reg ph i c \<longleftrightarrow> exclusive C i \<and> lifetime C reg ph i c"

definition conn_ok :: "claim multiset \<Rightarrow> iocp_shared \<Rightarrow> u64 \<Rightarrow> bool" where
  "conn_ok C s i \<longleftrightarrow>
     (case umap_find (io_objects s) i of
        None \<Rightarrow> absent_ok C (registered s i) (conn_phase_of (io_log s) i) i
      | Some c \<Rightarrow> present_ok C (registered s i) (conn_phase_of (io_log s) i) i c)
     \<and> (unat (io_next_id s) \<le> unat i \<longrightarrow> umap_find (io_objects s) i = None \<and> count C (Reserved i) = 0)"

declare count_greater_zero_iff [simp del]

section \<open>Frames\<close>

lemma io_call_frame [simp]:
  "io_options (io_call b c s) = io_options s" "io_callbacks (io_call b c s) = io_callbacks s"
  "io_running (io_call b c s) = io_running s" "io_next_id (io_call b c s) = io_next_id s"
  "io_objects (io_call b c s) = io_objects s" "io_connections (io_call b c s) = io_connections s"
  "io_kernel (io_call b c s) = io_kernel s" "io_pending_operations (io_call b c s) = io_pending_operations s"
  "io_wakes (io_call b c s) = io_wakes s" "io_created (io_call b c s) = io_created s"
  "io_log (io_call b c s) = io_log s @ (if b then [c] else [])"
  by (simp_all add: io_call_def)

lemma io_report_frame [simp]:
  "io_options (io_report e s) = io_options s" "io_callbacks (io_report e s) = io_callbacks s"
  "io_running (io_report e s) = io_running s" "io_next_id (io_report e s) = io_next_id s"
  "io_objects (io_report e s) = io_objects s" "io_connections (io_report e s) = io_connections s"
  "io_kernel (io_report e s) = io_kernel s" "io_pending_operations (io_report e s) = io_pending_operations s"
  "io_wakes (io_report e s) = io_wakes s" "io_created (io_report e s) = io_created s"
  "io_log (io_report e s) = io_log s @ (if has_error (io_callbacks s) then [On_error e] else [])"
  by (simp_all add: io_report_def)

lemma io_update_frame [simp]:
  "io_options (io_update i f s) = io_options s" "io_callbacks (io_update i f s) = io_callbacks s"
  "io_running (io_update i f s) = io_running s" "io_next_id (io_update i f s) = io_next_id s"
  "io_connections (io_update i f s) = io_connections s" "io_kernel (io_update i f s) = io_kernel s"
  "io_pending_operations (io_update i f s) = io_pending_operations s" "io_wakes (io_update i f s) = io_wakes s"
  "io_created (io_update i f s) = io_created s" "io_log (io_update i f s) = io_log s"
  by (simp_all add: io_update_def split: option.split)

lemma find_io_update [simp]:
  "umap_find (io_objects (io_update i f s)) j =
     (if j = i then map_option f (umap_find (io_objects s) i) else umap_find (io_objects s) j)"
  by (simp add: io_update_def split: option.split)

lemma operation_count_frame [simp]:
  "io_objects (operation_started s) = io_objects s" "io_objects (operation_finished s) = io_objects s"
  "io_connections (operation_started s) = io_connections s" "io_connections (operation_finished s) = io_connections s"
  "io_log (operation_started s) = io_log s" "io_log (operation_finished s) = io_log s"
  "io_next_id (operation_started s) = io_next_id s" "io_next_id (operation_finished s) = io_next_id s"
  "io_created (operation_started s) = io_created s" "io_created (operation_finished s) = io_created s"
  "io_kernel (operation_started s) = io_kernel s" "io_kernel (operation_finished s) = io_kernel s"
  "io_callbacks (operation_started s) = io_callbacks s" "io_callbacks (operation_finished s) = io_callbacks s"
  "io_pending_operations (operation_started s) = io_pending_operations s + 1"
  "io_pending_operations (operation_finished s) = io_pending_operations s - 1"
  by (simp_all add: operation_started_def operation_finished_def)

lemma conn_phase_call [simp]:
  "conn_phase_of (log @ (if p then [c] else [])) i = (if p then conn_step i (conn_phase_of log i) c else conn_phase_of log i)"
  by simp


lemma registered_simps [simp]:
  "registered (io_call b c s) i = registered s i" "registered (io_report e s) i = registered s i"
  "registered (io_update j f s) i = registered s i" "registered (operation_started s) i = registered s i"
  "registered (operation_finished s) i = registered s i" "registered (s\<lparr>io_objects := m\<rparr>) i = registered s i"
  "registered (s\<lparr>io_next_id := n, io_created := k\<rparr>) i = registered s i" "registered (s\<lparr>io_info := x\<rparr>) i = registered s i"
  "registered (s\<lparr>io_wakes := w\<rparr>) i = registered s i" "registered (s\<lparr>io_kernel := ops\<rparr>) i = registered s i"
  "registered (s\<lparr>io_connections := umap_erase j r\<rparr>) i \<longleftrightarrow> i \<noteq> j \<and> umap_find r i \<noteq> None"
  "registered (s\<lparr>io_connections := fst (umap_emplace j () r)\<rparr>) i \<longleftrightarrow> i = j \<or> umap_find r i \<noteq> None"
  by (auto simp: registered_def umap_emplace_def split: option.split)

section \<open>Disconnecting\<close>

definition armed :: "iocp_shared \<Rightarrow> bool" where
  "armed s \<longleftrightarrow> (\<forall>i. umap_find (io_objects s) i \<noteq> None \<longrightarrow> complete (io_callbacks s))"

lemmas conn_defs = conn_ok_def absent_ok_def present_ok_def exclusive_def lifetime_def ending_def starting_def

lemma conn_ok_cong:
  assumes "conn_ok C s i" "umap_find (io_objects s') i = umap_find (io_objects s) i" "registered s' i = registered s i"
    "conn_phase_of (io_log s') i = conn_phase_of (io_log s) i" "io_next_id s' = io_next_id s"
    "count C' (Scope i) = count C (Scope i)" "count C' (Reader i) = count C (Reader i)"
    "count C' (Request i) = count C (Request i)" "count C' (Notify i) = count C (Notify i)"
    "count C' (Reserved i) = count C (Reserved i)" "count C' (Unpublished i) = count C (Unpublished i)"
    "count C' (Connecting i) = count C (Connecting i)"
  shows "conn_ok C' s' i"
  using assms(1) unfolding conn_defs assms(2-) .

lemma disc_enter_ok:
  assumes ok: "conn_ok N s j" and c: "umap_find (io_objects s) j = Some c" and r: "umap_find (io_connections s) j \<noteq> None"
  shows "conn_ok (add_mset (Request j) N) ((io_update j conn_close s)\<lparr>io_connections := umap_erase j (io_connections s)\<rparr>) j"
  using ok c r by (auto simp: conn_defs registered_def conn_close_def)

lemma disc_request_ok:
  assumes ok: "conn_ok (add_mset (Request j) N) s j" and c: "umap_find (io_objects s) j = Some c"
  shows "ic_active c = 0 \<Longrightarrow> conn_ok (add_mset (Notify j) N) (io_update j (\<lambda>_. c) s) j"
    "ic_active c \<noteq> 0 \<Longrightarrow> conn_ok N (io_update j (\<lambda>_. c\<lparr>ic_pending := True\<rparr>) s) j"
  using ok c by (auto simp: conn_defs split: if_splits)

lemma disc_notify_ok:
  assumes ok: "conn_ok (add_mset (Notify j) N) s j" and full: "armed s"
  shows "conn_ok N (io_call (has_disconnected (io_callbacks s)) (On_disconnected j e) s) j"
proof -
  obtain c where c: "umap_find (io_objects s) j = Some c"
    using ok by (cases "umap_find (io_objects s) j") (auto simp: conn_defs)
  show ?thesis
    using ok full c by (cases "conn_phase_of (io_log s) j")
      (auto simp: conn_defs armed_def complete_def conn_step_def split: if_splits)
qed

lemma disc_conn_ok:
  assumes ok: "conn_ok (disc_claims d + N) s i" and full: "armed s" and st: "disc_step d s = (s', d')"
  shows "conn_ok ((case d' of None \<Rightarrow> {#} | Some x \<Rightarrow> disc_claims x) + N) s' i"
proof (cases d)
  case (D_enter j)
  show ?thesis
  proof (cases "i = j \<and> registered s j")
    case True
    then obtain c where "umap_find (io_objects s) j = Some c"
      using ok by (cases "umap_find (io_objects s) j") (auto simp: conn_defs)
    then show ?thesis
      using disc_enter_ok [of N s j] True ok st by (auto simp: D_enter disc_step_def registered_def)
  next
    case False
    then show ?thesis
      using st by (auto simp: D_enter disc_step_def registered_def split: option.splits intro!: conn_ok_cong [OF ok])
  qed
next
  case (D_request j)
  show ?thesis
  proof (cases "i = j")
    case True
    obtain c where "umap_find (io_objects s) j = Some c"
      using ok True by (cases "umap_find (io_objects s) j") (auto simp: D_request conn_defs)
    then show ?thesis
      using disc_request_ok [of j N s] True ok st
      by (auto simp: D_request disc_step_def request_disconnect_notification_def split: if_splits)
  next
    case False
    then show ?thesis
      using st by (auto simp: D_request disc_step_def request_disconnect_notification_def split: option.splits if_splits
          intro!: conn_ok_cong [OF ok])
  qed
next
  case (D_notify j)
  show ?thesis
    using disc_notify_ok [of j N s] ok full st
    by (cases "i = j") (auto simp: D_notify disc_step_def conn_step_def intro!: conn_ok_cong [OF ok])
qed

section \<open>Moves of a thread\<close>

lemma conn_ok_weaken:
  assumes ok: "conn_ok C s i"
    and eq: "count C' (Scope i) = count C (Scope i)" "count C' (Request i) = count C (Request i)"
      "count C' (Notify i) = count C (Notify i)" "count C' (Unpublished i) = count C (Unpublished i)"
      "count C' (Connecting i) = count C (Connecting i)"
    and le: "count C' (Reader i) \<le> count C (Reader i)" "count C' (Reserved i) \<le> count C (Reserved i)"
  shows "conn_ok C' s i"
proof -
  have "lifetime C' reg ph i c = lifetime C reg ph i c" "starting C' i = starting C i" "ending C' i = ending C i" for reg ph c
    unfolding lifetime_def starting_def ending_def eq by (rule refl)+
  then show ?thesis
    using ok eq le by (auto simp: conn_ok_def absent_ok_def present_ok_def exclusive_def split: option.splits)
qed

lemma conn_ok_drop:
  "conn_ok (add_mset (Reader j) N) s i \<Longrightarrow> conn_ok N s i" "conn_ok (add_mset (Reserved j) N) s i \<Longrightarrow> conn_ok N s i"
  "conn_ok (add_mset x (add_mset (Reader j) N)) s i \<Longrightarrow> conn_ok (add_mset x N) s i"
  by (erule conn_ok_weaken; simp)+

lemma present_ok_fields:
  assumes "ic_active c' = ic_active c" "ic_pending c' = ic_pending c" "ic_closing c' = ic_closing c"
  shows "present_ok C reg ph i c' = present_ok C reg ph i c"
  unfolding present_ok_def lifetime_def assms ..

lemma leave_ok:
  assumes ok: "conn_ok (add_mset (Scope j) N) s j" and r: "0 < count N (Reader j)" and c: "umap_find (io_objects s) j = Some c"
    and e: "end_callback c = (c', notify)"
  shows "conn_ok (if notify then add_mset (Notify j) N else N) (io_update j (\<lambda>_. c') s) j"
  using ok r c e by (auto simp: conn_defs end_callback_def Let_def split: if_splits)

lemma enter_ok:
  assumes ok: "conn_ok N s j" and c: "umap_find (io_objects s) j = Some c" and n: "\<not> ic_closing c"
  shows "conn_ok (add_mset (Scope j) N) (io_update j (\<lambda>_. c\<lparr>ic_active := ic_active c + 1\<rparr>) s) j"
  using ok c n by (auto simp: conn_defs split: if_splits)

lemma admit_ok:
  assumes ok: "conn_ok N s i" and n: "unat (io_next_id s + 1) = unat (io_next_id s) + 1"
  shows "conn_ok (add_mset (Reserved (io_next_id s)) N) (s\<lparr>io_next_id := io_next_id s + 1, io_created := k\<rparr>) i"
proof (cases "i = io_next_id s")
  case True
  have "umap_find (io_objects s) (io_next_id s) = None"
    using ok True by (simp add: conn_ok_def)
  then show ?thesis
    using ok n True by (simp add: conn_defs)
next
  case False
  have "conn_ok N (s\<lparr>io_next_id := io_next_id s + 1, io_created := k\<rparr>) i"
    using ok n by (cases "umap_find (io_objects s) i") (simp_all add: conn_ok_def)
  then show ?thesis
    by (rule conn_ok_cong) (simp_all add: False False [symmetric])
qed

lemma accepting_ok:
  assumes ok: "conn_ok (add_mset (Reserved j) N) s i"
  shows "conn_ok (add_mset (Reserved j) N) (io_call b (On_accepting j e) s) i"
proof (cases "i = j")
  case True
  then show ?thesis
    using ok by (cases "umap_find (io_objects s) j") (auto simp: conn_defs conn_step_def)
qed (simp add: conn_ok_cong [OF ok] conn_step_def)

lemma associate_ok:
  assumes ok: "conn_ok (add_mset (Reserved j) N) s i"
  shows "conn_ok (add_mset (Scope j) (add_mset (Unpublished j) N))
    (s\<lparr>io_objects := umap_assign j (fst (begin_callback (Connection_new e n nd now))) (io_objects s)\<rparr>) i"
proof (cases "i = j")
  case True
  then show ?thesis
    using ok by (cases "umap_find (io_objects s) j") (auto simp: conn_defs begin_callback_def Connection_new_def)
qed (auto intro!: conn_ok_cong [OF ok])

lemma publish_ok:
  assumes ok: "conn_ok (add_mset (Scope j) (add_mset (Unpublished j) N)) s i"
  shows "conn_ok (add_mset (Scope j) (add_mset (Connecting j) N)) (s\<lparr>io_connections := fst (umap_emplace j () (io_connections s))\<rparr>) i"
proof (cases "i = j")
  case True
  then show ?thesis
    using ok by (cases "umap_find (io_objects s) j") (auto simp: conn_defs)
qed (auto simp: registered_def [of s] intro!: conn_ok_cong [OF ok])

lemma connected_ok:
  assumes ok: "conn_ok (add_mset (Scope j) (add_mset (Connecting j) N)) s i" and full: "armed s"
  shows "conn_ok (add_mset (Scope j) (add_mset (Reader j) N)) (io_call (has_connected (io_callbacks s)) (On_connected j e) s) i"
proof (cases "i = j")
  case True
  obtain c where c: "umap_find (io_objects s) j = Some c"
    using ok True by (cases "umap_find (io_objects s) j") (auto simp: conn_defs)
  show ?thesis
    using ok full c True by (auto simp: conn_defs armed_def complete_def conn_step_def split: if_splits)
qed (use ok in \<open>auto simp: conn_step_def intro!: conn_ok_cong [OF ok]\<close>)

lemma message_ok:
  assumes ok: "conn_ok N s i" and r: "0 < count N (Reader j)" "0 < count N (Scope j)"
  shows "conn_ok N (io_call b (On_message j e m) s) i"
proof (cases "i = j")
  case True
  obtain c where c: "umap_find (io_objects s) j = Some c"
    using ok r True by (cases "umap_find (io_objects s) j") (auto simp: conn_defs)
  show ?thesis
    using ok r c True by (cases "conn_phase_of (io_log s) j") (auto simp: conn_defs conn_step_def split: if_splits)
qed (use ok in \<open>auto simp: conn_step_def intro!: conn_ok_cong [OF ok]\<close>)

section \<open>Steps\<close>

definition life :: "iocp_connection \<Rightarrow> bool \<times> nat \<times> bool" where
  "life c = (ic_closing c, ic_active c, ic_pending c)"

lemmas life_simps = life_def [abs_def] option.map_comp o_def

definition traffic :: "claim \<Rightarrow> bool" where
  "traffic x \<longleftrightarrow> x = Held \<or> (\<exists>j b. x = Writer j b)"

lemma traffic_simps [simp]:
  "traffic Held" "traffic (Writer j b)" "\<not> traffic (Scope j)" "\<not> traffic (Reader j)" "\<not> traffic (Request j)"
  "\<not> traffic (Notify j)" "\<not> traffic (Reserved j)" "\<not> traffic (Unpublished j)" "\<not> traffic (Connecting j)"
  by (simp_all add: traffic_def)

lemma conn_ok_frame:
  assumes ok: "conn_ok C s i" and same: "io_connections s' = io_connections s" "io_next_id s' = io_next_id s"
      "conn_phase_of (io_log s') i = conn_phase_of (io_log s) i"
      "filter_mset (\<lambda>x. \<not> traffic x) C' = filter_mset (\<lambda>x. \<not> traffic x) C"
    and life: "map_option life (umap_find (io_objects s') i) = map_option life (umap_find (io_objects s) i)"
  shows "conn_ok C' s' i"
proof -
  have count: "count C' x = count C x" if "\<not> traffic x" for x
    using that arg_cong [OF same(4), of "\<lambda>D. count D x"] by (simp only: count_filter_mset) simp
  let ?s = "s'\<lparr>io_objects := io_objects s\<rparr>"
  have ok': "conn_ok C' ?s i"
    by (rule conn_ok_cong [OF ok]) (simp_all add: same registered_def count)
  show ?thesis
  proof (cases "umap_find (io_objects s) i")
    case (Some c)
    then obtain c' where c': "umap_find (io_objects s') i = Some c'" "life c' = life c"
      using life by auto
    then show ?thesis
      using ok' Some present_ok_fields [of c' c] by (simp add: conn_ok_def life_def)
  qed (use ok' life in \<open>simp add: conn_ok_def\<close>)
qed

lemma leave_conn_ok:
  assumes ok: "conn_ok (add_mset (Scope j) (claims_of k + N)) s i" and r: "0 < count (claims_of k + N) (Reader j)"
    and st: "leave_scope j k s = (s', t')"
  shows "conn_ok (claims_of t' + N) s' i"
proof (cases "i = j")
  case True
  obtain c where "umap_find (io_objects s) j = Some c"
    using ok True by (cases "umap_find (io_objects s) j") (auto simp: conn_defs)
  then show ?thesis
    using leave_ok [OF _ r] ok st True by (force simp: leave_scope_def split: prod.splits if_splits)
next
  case False
  then show ?thesis
    using st by (auto simp: leave_scope_def split: option.splits prod.splits if_splits intro!: conn_ok_cong [OF ok])
qed

lemma leave_kernel: "leave_scope j k s = (s', t') \<Longrightarrow> io_kernel s' = io_kernel s"
  by (auto simp: leave_scope_def split: option.splits prod.splits)

lemma disc_run_kernel: "disc_run d k s = (s', t') \<Longrightarrow> io_kernel s' = io_kernel s"
  by (auto simp: disc_run_def disc_step_def split: option.splits prod.splits disc_pc.splits)

lemma disc_run_ok:
  assumes ok: "conn_ok (disc_claims d + claims_of k + N) s i" and full: "armed s" and st: "disc_run d k s = (s', t')"
  shows "conn_ok (claims_of t' + N) s' i"
  using disc_conn_ok [of d "claims_of k + N" s i] ok full st
  by (auto simp: disc_run_def ac_simps split: prod.splits option.splits)

lemma post_receive_ok:
  assumes ok: "conn_ok (add_mset (Reader j) (M + kernel_claims s)) s i" and st: "post_receive failure j s = (s', r)"
  shows "conn_ok (M + kernel_claims s') s' i"
  using st conn_ok_drop(1) [OF ok]
  by (auto simp: post_receive_def submit_op_def split: if_splits option.splits intro: conn_ok_frame [OF ok] conn_ok_frame)

lemma accept_conn_ok:
  assumes ok: "conn_ok (claims_of t + M + kernel_claims s) s i" and full: "armed s"
    and n: "\<And>e. t = Ac_admit e \<Longrightarrow> io_running s \<Longrightarrow> unat (io_next_id s + 1) = unat (io_next_id s) + 1" and t: "\<And>d k. t \<noteq> Disc d k"
    and st: "accept_step_iocp a t s = (s', t')"
  shows "conn_ok (claims_of t' + M + kernel_claims s') s' i"
proof (cases t)
  case (Ac_admit e)
  then show ?thesis
    using st ok admit_ok [OF ok n] by (auto simp: accept_step_iocp_def split: if_splits)
next
  case (Ac_accepting j e)
  then show ?thesis
    using st ok by (auto simp: accept_step_iocp_def intro: accepting_ok accepting_ok [THEN conn_ok_drop(2)] split: if_splits)
next
  case (Ac_associate j e)
  then show ?thesis
    using st ok by (auto simp: accept_step_iocp_def intro: associate_ok conn_ok_frame conn_ok_drop(2) split: option.splits)
next
  case (Ac_publish j)
  then show ?thesis
    using st ok by (auto simp: accept_step_iocp_def intro: publish_ok)
next
  case (Ac_connected j)
  then show ?thesis
    using st ok full by (auto simp: accept_step_iocp_def intro: connected_ok)
next
  case (Ac_leave j)
  then show ?thesis
    using st ok leave_conn_ok [of j "Ac_left j" "M + kernel_claims s" s i] by (simp add: accept_step_iocp_def leave_kernel ac_simps)
next
  case (Ac_post j)
  then show ?thesis
    using st ok post_receive_ok [of j M s i] by (auto simp: accept_step_iocp_def split: prod.splits sum.splits)
qed (use ok st t in \<open>auto simp: accept_step_iocp_def accept_socket_def conn_step_def intro: conn_ok_drop conn_ok_frame
        split: if_splits option.splits\<close>)

lemma post_next_send_ok:
  assumes ok: "conn_ok (M + kernel_claims s) s i" and st: "post_next_send failure j s = (s', r)"
  shows "conn_ok (M + kernel_claims s') s' i"
  using st
  by (auto simp: post_next_send_def submit_op_def life_simps split: list.splits option.splits prod.splits
      intro!: conn_ok_frame [OF ok])

lemma connection_send_ok:
  assumes ok: "conn_ok (M + kernel_claims s) s i" and st: "connection_send failure j data s = (s', r)"
  shows "conn_ok (M + kernel_claims s') s' i"
proof (cases "umap_find (io_objects s) j")
  case (Some c)
  let ?s = "io_update j (\<lambda>c. c\<lparr>ic_send_queue := ic_send_queue c @ [buf_bytes data], ic_accepted := ic_accepted c @ [buf_bytes data]\<rparr>) s"
  have "conn_ok (M + kernel_claims ?s) ?s i"
    by (auto simp: life_simps intro!: conn_ok_frame [OF ok])
  then show ?thesis
    using st ok Some post_next_send_ok [of M ?s i failure j] by (auto simp: connection_send_def Let_def split: if_splits)
qed (use st ok in \<open>simp add: connection_send_def\<close>)

lemma complete_send_ok:
  assumes ok: "conn_ok (M + kernel_claims s) s i" and st: "complete_send failure now op n s = (s', owned, r)"
  shows "conn_ok (M + kernel_claims s') s' i"
proof (cases op)
  case (Op_send j b k)
  let ?s = "io_update j (\<lambda>c. c\<lparr>ic_last_activity := now, ic_wire := ic_wire c @ take n (drop k b)\<rparr>) s"
  have "conn_ok (M + kernel_claims ?s) ?s i"
    by (auto simp: life_simps intro!: conn_ok_frame [OF ok])
  then show ?thesis
    using st ok Op_send post_next_send_ok [of M ?s i failure j]
    by (auto simp: complete_send_def submit_op_def Let_def life_simps split: if_splits option.splits prod.splits
        intro!: conn_ok_frame [OF ok])
qed (use st ok in \<open>simp add: complete_send_def\<close>)

lemma worker_begin_ok:
  assumes ok: "conn_ok (add_mset (Reader j) N) s i" and j: "j = op_connection op" and st: "worker_begin op bytes s = (s', t')"
  shows "conn_ok (claims_of t' + N) s' i"
proof (cases "umap_find (io_objects s) j")
  case (Some c)
  have enter: "conn_ok (add_mset (Scope j) (add_mset (Reader j) N)) (io_update j (\<lambda>_. c\<lparr>ic_active := ic_active c + 1\<rparr>) s) i"
    if "\<not> ic_closing c"
    using enter_ok [OF _ Some that] ok by (cases "i = j") (auto intro: conn_ok_cong [OF ok])
  show ?thesis
    using st j Some conn_ok_frame [OF enter] conn_ok_frame [OF conn_ok_drop(1) [OF ok]]
    by (auto simp: worker_begin_def begin_callback_def scoped_def life_simps ac_simps split: if_splits)
qed (use st j conn_ok_drop(1) [OF ok] in \<open>auto simp: worker_begin_def intro: conn_ok_frame\<close>)

lemma worker_begin_kernel: "worker_begin op bytes s = (s', t') \<Longrightarrow> io_kernel s' = io_kernel s"
  by (auto simp: worker_begin_def begin_callback_def split: option.splits prod.splits if_splits)

lemma worker_conn_ok:
  assumes ok: "conn_ok (claims_of t + M + kernel_claims s) s i" and t: "\<And>d k. t \<noteq> Disc d k"
    and st: "worker_step_iocp a t s = (s', t')"
  shows "conn_ok (claims_of t' + M + kernel_claims s') s' i"
proof (cases t)
  case Wk_wait
  then show ?thesis
    using st ok ops_claims_taken [of _ "io_kernel s"]
    by (auto simp: worker_step_iocp_def worker_wait_def ac_simps split: option.splits prod.splits if_splits intro!: conn_ok_frame [OF ok])
next
  case (Wk_got op success n bytes)
  then show ?thesis
    using st ok by (cases op) (auto simp: worker_step_iocp_def worker_dispatch_def split: if_splits
        intro: conn_ok_frame conn_ok_drop(1,3))
next
  case (Wk_send op n)
  obtain s1 owned r where r: "complete_send (ia_submit a) (ia_now a) op n s = (s1, owned, r)"
    by (cases "complete_send (ia_submit a) (ia_now a) op n s") auto
  have "conn_ok (M + kernel_claims s) s i"
  proof (cases op)
    case (Op_receive j)
    then have "conn_ok (add_mset (Reader j) (M + kernel_claims s)) s i"
      using ok Wk_send by (auto intro: conn_ok_frame)
    then show ?thesis by (rule conn_ok_drop)
  qed (use ok Wk_send in \<open>auto intro: conn_ok_frame\<close>)
  then have "conn_ok (M + kernel_claims s1) s1 i"
    using r by (rule complete_send_ok)
  then show ?thesis
    using st Wk_send r by (auto simp: worker_step_iocp_def split: sum.splits if_splits intro: conn_ok_frame)
next
  case (Wk_deliver op bytes)
  have "conn_ok (add_mset (Reader (op_connection op)) (M + kernel_claims s)) s i"
    by (rule conn_ok_frame [OF ok]) (simp_all add: Wk_deliver)
  then show ?thesis
    using st worker_begin_ok [OF _ refl, of op "M + kernel_claims s" s i bytes s' t'] worker_begin_kernel [of op bytes s s' t']
    by (simp add: Wk_deliver worker_step_iocp_def ac_simps)
next
  case (Wk_message op line)
  then show ?thesis
    using st ok by (auto simp: worker_step_iocp_def scoped_def intro!: message_ok)
next
  case (Wk_return op)
  let ?j = "op_connection op"
  have l: "leave_scope ?j (Wk_free op) s = (s', t')"
    using st by (simp add: Wk_return worker_step_iocp_def)
  have "conn_ok (claims_of t' + add_mset (Reader ?j) (M + kernel_claims s)) s' i"
    by (rule leave_conn_ok [OF _ _ l]) (use ok in \<open>simp_all add: Wk_return scoped_def add_mset_commute\<close>)
  then show ?thesis
    using leave_kernel [OF l] conn_ok_drop(1) [of ?j "claims_of t' + M + kernel_claims s"] by (simp add: ac_simps)
next
  case (Wk_leave op)
  let ?j = "op_connection op"
  have l: "leave_scope ?j (Wk_recheck op) s = (s', t')"
    using st by (simp add: Wk_leave worker_step_iocp_def)
  have "conn_ok (claims_of t' + (M + kernel_claims s)) s' i"
    by (rule leave_conn_ok [OF _ _ l]) (use ok in \<open>simp_all add: Wk_leave scoped_def add_mset_commute\<close>)
  then show ?thesis
    using leave_kernel [OF l] by (simp add: ac_simps)
next
  case (Wk_post op)
  have "conn_ok (add_mset (Reader (op_connection op)) (add_mset Held M + kernel_claims s)) s i"
    using ok by (simp add: Wk_post add_mset_commute)
  from post_receive_ok [OF this] show ?thesis
    using st by (auto simp: Wk_post worker_step_iocp_def split: prod.splits sum.splits)
qed (use ok st t in \<open>auto simp: worker_step_iocp_def worker_append_def worker_pop_def scoped_def life_simps conn_step_def
      intro: conn_ok_frame conn_ok_drop(3) split: if_splits option.splits prod.splits\<close>)

lemma task_step_kinds:
  assumes "\<And>d k. t \<noteq> Disc d k"
  shows "task_step a t s =
     (case kind_of t of K_accept \<Rightarrow> accept_step_iocp a t s | K_worker \<Rightarrow> worker_step_iocp a t s
      | K_idle \<Rightarrow> idle_step a t s | K_caller \<Rightarrow> caller_step a t s | K_end \<Rightarrow> (s, t))"
proof (cases t)
  case (Disc d k)
  then show ?thesis using assms by blast
qed (simp_all add: task_step_def)

lemma task_step_elim:
  assumes "task_step a t s = (s', t')"
  obtains (disc) d k where "t = Disc d k" "disc_run d k s = (s', t')"
    | (accept) "\<And>d k. t \<noteq> Disc d k" "kind_of t = K_accept" "accept_step_iocp a t s = (s', t')"
    | (worker) "\<And>d k. t \<noteq> Disc d k" "kind_of t = K_worker" "worker_step_iocp a t s = (s', t')"
    | (idle) "\<And>d k. t \<noteq> Disc d k" "kind_of t = K_idle" "idle_step a t s = (s', t')"
    | (caller) j data where "t = Ca_send j data" "caller_step a t s = (s', t')"
    | (ended) "t = T_end" "s' = s" "t' = T_end"
proof (cases t)
  case (Disc d k)
  then show ?thesis using assms disc by (simp add: task_step_def)
qed (use assms accept worker idle caller ended in \<open>simp_all add: task_step_def\<close>)

lemma task_conn_ok:
  assumes st: "task_step a t s = (s', t')" and ok: "conn_ok (claims_of t + M + kernel_claims s) s i" and full: "armed s"
    and n: "\<And>e. t = Ac_admit e \<Longrightarrow> io_running s \<Longrightarrow> unat (io_next_id s + 1) = unat (io_next_id s) + 1"
  shows "conn_ok (claims_of t' + M + kernel_claims s') s' i"
  using st
proof (cases rule: task_step_elim)
  case (disc d k)
  then show ?thesis
    using disc_run_ok [of d k "M + kernel_claims s" s i] ok full disc_run_kernel [of d k s] by (simp add: ac_simps)
next
  case idle
  then show ?thesis
    using ok by (cases t) (auto simp: idle_step_def split: if_splits list.splits option.splits intro: conn_ok_frame)
next
  case (caller j data)
  then show ?thesis
    using ok connection_send_ok [of M s i "ia_submit a" j data] by (auto simp: caller_step_def split: prod.splits sum.splits)
qed (use ok accept_conn_ok [OF ok full n] worker_conn_ok [OF ok] in simp_all)

section \<open>The operations under way\<close>

definition owed :: "claim multiset \<Rightarrow> iocp_shared \<Rightarrow> bool" where
  "owed C s \<longleftrightarrow> io_pending_operations s = count (C + kernel_claims s) Held"

lemma held_ops [simp]: "count (op_claims op) Held = 1"
  by (cases op) simp_all

lemma held_disc [simp]: "count (disc_claims d) Held = 0"
  by (cases d) simp_all

lemma submit_owed:
  assumes "io_pending_operations s = Suc (count (C + kernel_claims s) Held)" "submit_op failure op s = (s', r)"
  shows "owed C s'"
  using assms by (auto simp: owed_def submit_op_def split: option.splits)

lemma owed_update [simp]: "owed C (io_update i f s) = owed C s"
  by (simp add: owed_def)

lemma post_receive_owed: "owed C s \<Longrightarrow> post_receive failure i s = (s', r) \<Longrightarrow> owed C s'"
  using submit_owed [of "operation_started s" C failure "Op_receive i" s' r] by (auto simp: post_receive_def owed_def split: if_splits)

lemma post_next_send_owed:
  assumes "owed C s" "post_next_send failure i s = (s', r)"
  shows "owed C s'"
proof (cases "umap_find (io_objects s) i")
  case (Some c)
  show ?thesis
  proof (cases "ic_send_queue c")
    case (Cons b rest)
    let ?s = "operation_started (io_update i (\<lambda>c. c\<lparr>ic_send_queue := rest, ic_send_in_progress := True\<rparr>) s)"
    obtain s1 r1 where s1: "submit_op failure (Op_send i b 0) ?s = (s1, r1)" by fastforce
    have "owed C s1"
      by (rule submit_owed [OF _ s1]) (use assms(1) in \<open>simp add: owed_def\<close>)
    then show ?thesis
      using assms(2) Some Cons s1 by (auto simp: post_next_send_def split: sum.splits)
  qed (use assms Some in \<open>auto simp: post_next_send_def\<close>)
qed (use assms in \<open>simp add: post_next_send_def\<close>)

lemma connection_send_owed: "owed C s \<Longrightarrow> connection_send failure i data s = (s', r) \<Longrightarrow> owed C s'"
  by (auto simp: connection_send_def Let_def split: option.splits if_splits dest: post_next_send_owed [rotated])

lemma complete_send_owed:
  assumes "owed (add_mset Held C) s" "complete_send failure now op n s = (s', owned, r)"
  shows "owed (if owned then add_mset Held C else C) s'"
proof (cases op)
  case (Op_send i b k)
  let ?s = "io_update i (\<lambda>c. c\<lparr>ic_last_activity := now, ic_wire := ic_wire c @ take n (drop k b)\<rparr>) s"
  obtain s1 r1 where s1: "submit_op failure (Op_send i b (k + n)) ?s = (s1, r1)" by fastforce
  have "owed C s1"
    by (rule submit_owed [OF _ s1]) (use assms(1) in \<open>simp add: owed_def\<close>)
  then show ?thesis
    using assms s1 post_next_send_owed [of "add_mset Held C" ?s failure i]
    by (auto simp: Op_send complete_send_def Let_def split: if_splits sum.splits prod.splits)
qed (use assms in \<open>simp add: complete_send_def\<close>)

lemma owed_frame:
  "owed C s \<Longrightarrow> io_pending_operations s' = io_pending_operations s \<Longrightarrow> io_kernel s' = io_kernel s \<Longrightarrow>
     count C' Held = count C Held \<Longrightarrow> owed C' s'"
  by (simp add: owed_def)

lemma leave_frame: "leave_scope j k s = (s', t') \<Longrightarrow> io_pending_operations s' = io_pending_operations s \<and> io_kernel s' = io_kernel s
    \<and> count (claims_of t') Held = count (claims_of k) Held"
  by (auto simp: leave_scope_def split: option.splits prod.splits)

lemma disc_run_frame: "disc_run d k s = (s', t') \<Longrightarrow> io_pending_operations s' = io_pending_operations s \<and> io_kernel s' = io_kernel s
    \<and> count (claims_of t') Held = count (claims_of k) Held"
  by (auto simp: disc_run_def disc_step_def split: option.splits prod.splits disc_pc.splits if_splits)

lemma accept_owed:
  assumes ok: "owed (claims_of t + M) s" and t: "\<And>d k. t \<noteq> Disc d k" and st: "accept_step_iocp a t s = (s', t')"
  shows "owed (claims_of t' + M) s'"
proof (cases t)
  case (Ac_post j)
  show ?thesis
    using st ok post_receive_owed [of M s "ia_submit a" j]
    by (auto simp: Ac_post accept_step_iocp_def owed_def split: prod.splits sum.splits)
next
  case (Ac_leave j)
  show ?thesis
    using st ok leave_frame [of j "Ac_left j" s] by (auto simp: Ac_leave accept_step_iocp_def intro!: owed_frame [OF ok])
qed (use ok st t in \<open>auto simp: accept_step_iocp_def accept_socket_def intro!: owed_frame [OF ok] split: if_splits option.splits\<close>)

lemma worker_owed:
  assumes ok: "owed (claims_of t + M) s" and t: "\<And>d k. t \<noteq> Disc d k" and st: "worker_step_iocp a t s = (s', t')"
  shows "owed (claims_of t' + M) s'"
proof (cases t)
  case Wk_wait
  then show ?thesis
    using st ok ops_claims_taken [of _ "io_kernel s"]
    by (auto simp: worker_step_iocp_def worker_wait_def owed_def split: option.splits prod.splits if_splits)
next
  case (Wk_send op n)
  have "owed (add_mset Held M) s"
    using ok by (simp add: Wk_send owed_def)
  then show ?thesis
    using st complete_send_owed [of M s "ia_submit a" "ia_now a" op n]
    by (fastforce simp: Wk_send worker_step_iocp_def owed_def split: prod.splits sum.splits if_splits)
next
  case (Wk_return op)
  show ?thesis
    using st ok leave_frame [of "op_connection op" "Wk_free op" s]
    by (auto simp: Wk_return worker_step_iocp_def scoped_def intro!: owed_frame [OF ok])
next
  case (Wk_leave op)
  show ?thesis
    using st ok leave_frame [of "op_connection op" "Wk_recheck op" s]
    by (auto simp: Wk_leave worker_step_iocp_def scoped_def intro!: owed_frame [OF ok])
next
  case (Wk_post op)
  have "owed (add_mset Held M) s"
    using ok by (simp add: Wk_post owed_def)
  then show ?thesis
    using st post_receive_owed [of "add_mset Held M" s "ia_submit a" "op_connection op"]
    by (auto simp: Wk_post worker_step_iocp_def split: prod.splits sum.splits)
next
  case (Wk_free op)
  show ?thesis
    using st ok by (auto simp: Wk_free worker_step_iocp_def owed_def)
next
  case (Wk_got op success n bytes)
  show ?thesis
    using st ok by (cases op) (auto simp: Wk_got worker_step_iocp_def worker_dispatch_def split: if_splits intro!: owed_frame [OF ok])
qed (use ok st t in \<open>auto simp: worker_step_iocp_def worker_begin_def worker_append_def worker_pop_def begin_callback_def scoped_def
      intro!: owed_frame [OF ok] split: if_splits option.splits prod.splits\<close>)

lemma task_owed:
  assumes st: "task_step a t s = (s', t')" and ok: "owed (claims_of t + M) s"
  shows "owed (claims_of t' + M) s'"
  using st
proof (cases rule: task_step_elim)
  case (disc d k)
  then show ?thesis
    using disc_run_frame [of d k s] by (auto intro!: owed_frame [OF ok])
next
  case idle
  then show ?thesis
    using ok by (cases t) (auto simp: idle_step_def split: if_splits list.splits option.splits intro: owed_frame)
next
  case (caller j data)
  then show ?thesis
    using ok connection_send_owed [of M s "ia_submit a" j data] by (auto simp: caller_step_def split: prod.splits sum.splits)
qed (use ok accept_owed [OF ok] worker_owed [OF ok] in simp_all)

end
