(* ===== verification/Iocp_Sends.thy ===== *)
theory Iocp_Sends
  imports Iocp_Invariant
begin

text \<open>
  The order of sends: what the system reported as sent on a connection is a prefix of what send accepted,
  buffer after buffer, until a send is refused. At most one send of a connection is under way, and the
  bytes it has left, followed by the queue, are exactly what is still to be sent.
\<close>

section \<open>The invariant\<close>

fun is_writer :: "u64 \<Rightarrow> claim \<Rightarrow> bool" where
  "is_writer i (Writer j r) = (j = i)"
| "is_writer i _ = False"

definition writers :: "claim multiset \<Rightarrow> u64 \<Rightarrow> claim multiset" where
  "writers C i = filter_mset (is_writer i) C"

definition stream :: "iocp_connection \<Rightarrow> bool \<times> bytes list \<times> bool \<times> bytes list \<times> bytes \<times> bool" where
  "stream c = (ic_closing c, ic_send_queue c, ic_send_in_progress c, ic_accepted c, ic_wire c, ic_failed c)"

definition stream_ok :: "claim multiset \<Rightarrow> u64 \<Rightarrow> iocp_connection \<Rightarrow> bool" where
  "stream_ok W i c \<longleftrightarrow>
     W = {#} \<or> (\<exists>r. W = {#Writer i r#} \<and> ic_send_in_progress c
       \<and> (ic_failed c \<or> ic_closing c \<or> ic_wire c @ r @ concat (ic_send_queue c) = concat (ic_accepted c)))"

definition drained_ok :: "iocp_connection \<Rightarrow> bool" where
  "drained_ok c \<longleftrightarrow> ic_failed c \<or> (\<exists>rest. concat (ic_accepted c) = ic_wire c @ rest)
     \<and> (ic_closing c \<or> ic_send_in_progress c \<or> ic_send_queue c = [] \<and> ic_wire c = concat (ic_accepted c))"

definition sends_ok :: "claim multiset \<Rightarrow> iocp_shared \<Rightarrow> u64 \<Rightarrow> bool" where
  "sends_ok C s i \<longleftrightarrow>
     (case umap_find (io_objects s) i of
        None \<Rightarrow> writers C i = {#}
      | Some c \<Rightarrow> stream_ok (writers C i) i c \<and> drained_ok c)"

lemma writers_simps [simp]:
  "writers {#} i = {#}" "writers (A + B) i = writers A i + writers B i"
  "writers (add_mset x C) i = (if is_writer i x then add_mset x (writers C i) else writers C i)"
  by (simp_all add: writers_def)

lemma stream_fields:
  assumes "stream c' = stream c"
  shows "stream_ok W i c' = stream_ok W i c" "drained_ok c' = drained_ok c"
  using assms by (simp_all add: stream_def stream_ok_def drained_ok_def)

lemma sends_frame:
  assumes ok: "sends_ok C s i" and w: "writers C' i = writers C i"
    and f: "map_option stream (umap_find (io_objects s') i) = map_option stream (umap_find (io_objects s) i)"
  shows "sends_ok C' s' i"
proof (cases "umap_find (io_objects s) i")
  case (Some c)
  then obtain c' where "umap_find (io_objects s') i = Some c'" "stream c' = stream c"
    using f by auto
  then show ?thesis
    using ok w Some stream_fields [of c' c] by (simp add: sends_ok_def)
qed (use ok w f in \<open>simp add: sends_ok_def\<close>)

lemma sends_drop: "sends_ok (add_mset x C) s i \<Longrightarrow> sends_ok C s i"
  by (auto simp: sends_ok_def stream_ok_def split: option.splits if_splits)

lemmas stream_simps = stream_def [abs_def] option.map_comp o_def

section \<open>Steps\<close>

lemma disc_sends:
  assumes ok: "sends_ok (disc_claims d + claims_of k + N) s i" and st: "disc_run d k s = (s', t')"
  shows "sends_ok (claims_of t' + N) s' i"
proof -
  have w: "writers (disc_claims x + C) i = writers C i" for x C
    by (cases x) simp_all
  have closed: "sends_ok C (io_update j conn_close s) i" if "sends_ok C s i" for j C
    using that by (auto simp: sends_ok_def stream_ok_def drained_ok_def conn_close_def split: option.splits)
  show ?thesis
  proof (cases d)
    case (D_enter j)
    then show ?thesis
      using st ok closed [of "claims_of k + N" j]
      by (auto simp: disc_run_def disc_step_def split: option.splits intro: sends_frame)
  next
    case (D_request j)
    then show ?thesis
      using st by (auto simp: disc_run_def disc_step_def request_disconnect_notification_def stream_simps
          split: option.splits if_splits intro!: sends_frame [OF ok])
  next
    case (D_notify j)
    then show ?thesis
      using st by (auto simp: disc_run_def disc_step_def intro!: sends_frame [OF ok])
  qed
qed

lemma leave_sends:
  assumes ok: "sends_ok (claims_of k + N) s i" and st: "leave_scope j k s = (s', t')"
  shows "sends_ok (claims_of t' + N) s' i"
  using st by (auto simp: leave_scope_def end_callback_def Let_def stream_simps split: option.splits if_splits intro!: sends_frame [OF ok])

lemma post_receive_sends:
  assumes ok: "sends_ok (M + kernel_claims s) s i" and st: "post_receive failure j s = (s', r)"
  shows "sends_ok (M + kernel_claims s') s' i"
  using st by (auto simp: post_receive_def submit_op_def split: if_splits option.splits intro!: sends_frame [OF ok])

text \<open>Between two sends: nothing is under way and the queue is exactly what is still to be sent.\<close>

definition idle_stream :: "iocp_connection \<Rightarrow> bool" where
  "idle_stream c \<longleftrightarrow> ic_failed c \<or> ic_wire c @ concat (ic_send_queue c) = concat (ic_accepted c)"

lemma post_next_send_sends:
  assumes c: "umap_find (io_objects s) j = Some c" and w: "writers (M + kernel_claims s) j = {#}" and q: "idle_stream c"
    and st: "post_next_send failure j s = (s', r)"
  shows "sends_ok (M + kernel_claims s') s' j"
  using st c w q
  by (auto simp: post_next_send_def submit_op_def sends_ok_def stream_ok_def drained_ok_def idle_stream_def
      split: list.splits option.splits) (metis append.assoc)+

lemma post_next_send_elsewhere:
  assumes "post_next_send failure j s = (s', r)" "i \<noteq> j"
  shows "umap_find (io_objects s') i = umap_find (io_objects s) i" "writers (kernel_claims s') i = writers (kernel_claims s) i"
  using assms by (auto simp: post_next_send_def submit_op_def split: list.splits option.splits)

lemma post_next_send_from:
  assumes st: "post_next_send failure j (io_update j f s) = (s', r)" and c: "umap_find (io_objects s) j = Some c"
    and own: "i = j \<Longrightarrow> writers (M + kernel_claims s) j = {#} \<and> idle_stream (f c)"
    and other: "i \<noteq> j \<Longrightarrow> sends_ok (M + kernel_claims s) s i"
  shows "sends_ok (M + kernel_claims s') s' i"
proof (cases "i = j")
  case True
  then show ?thesis
    using post_next_send_sends [OF _ _ _ st] c own by simp
next
  case False
  then show ?thesis
    using post_next_send_elsewhere [OF st False] by (intro sends_frame [OF other]) simp_all
qed

text \<open>Queueing behind a send under way, and queueing on an idle connection.\<close>

abbreviation queued :: "bytes \<Rightarrow> iocp_connection \<Rightarrow> iocp_connection" where
  "queued b c \<equiv> c\<lparr>ic_send_queue := ic_send_queue c @ [b], ic_accepted := ic_accepted c @ [b]\<rparr>"

lemma queue_busy_stream: "stream_ok W j c \<Longrightarrow> stream_ok W j (queued b c)"
  by (auto simp: stream_ok_def simp flip: append_assoc)

lemma queue_busy_drained: "ic_send_in_progress c \<Longrightarrow> drained_ok c \<Longrightarrow> drained_ok (queued b c)"
  by (auto simp: drained_ok_def)

lemma queue_idle:
  assumes "stream_ok W j c" "drained_ok c" "\<not> ic_closing c" "\<not> ic_send_in_progress c"
  shows "W = {#} \<and> idle_stream (queued b c)"
proof -
  have "ic_failed c \<or> ic_send_queue c = [] \<and> ic_wire c = concat (ic_accepted c)"
    using assms unfolding drained_ok_def by blast
  then show ?thesis
    using assms(1,4) by (auto simp: idle_stream_def stream_ok_def)
qed

lemma connection_send_sends:
  assumes ok: "sends_ok (M + kernel_claims s) s i" and st: "connection_send failure j data s = (s', r)"
  shows "sends_ok (M + kernel_claims s') s' i"
proof (cases "umap_find (io_objects s) j")
  case (Some c)
  have own: "stream_ok (writers (M + kernel_claims s) j) j c \<and> drained_ok c" if "i = j"
    using that ok Some by (simp add: sends_ok_def)
  consider (closing) "ic_closing c" | (busy) "\<not> ic_closing c" "ic_send_in_progress c" | (post) "\<not> ic_closing c" "\<not> ic_send_in_progress c"
    by blast
  then show ?thesis
  proof cases
    case closing
    then show ?thesis using st ok Some by (simp add: connection_send_def)
  next
    case busy
    then have s': "s' = io_update j (queued (buf_bytes data)) s"
      using st Some by (simp add: connection_send_def Let_def)
    show ?thesis
    proof (cases "i = j")
      case True
      then show ?thesis
        using own Some busy queue_busy_stream queue_busy_drained by (simp add: s' sends_ok_def)
    qed (rule sends_frame [OF ok], simp_all add: s')
  next
    case post
    then have "post_next_send failure j (io_update j (queued (buf_bytes data)) s) = (s', r)"
      using st Some by (simp add: connection_send_def Let_def)
    then show ?thesis
      by (rule post_next_send_from [OF _ Some]) (use own post queue_idle ok in blast)+
  qed
qed (use st ok in \<open>simp add: connection_send_def\<close>)

text \<open>A completed send: the bytes move from what was left to the wire.\<close>

abbreviation sent :: "u64 \<Rightarrow> bytes \<Rightarrow> iocp_connection \<Rightarrow> iocp_connection" where
  "sent now x c \<equiv> c\<lparr>ic_last_activity := now, ic_wire := ic_wire c @ x\<rparr>"

lemma resubmit_sends:
  assumes ok: "sends_ok (add_mset (Writer j r) (M + kernel_claims s)) s i" and c: "umap_find (io_objects s) j = Some c" "\<not> ic_closing c"
    and r: "r = x @ drop k b"
    and st: "submit_op failure (Op_send j b k) (io_update j (sent now x) s) = (s1, q)"
    and s': "s' = (case q of Inr _ \<Rightarrow> s1 | Inl _ \<Rightarrow> io_update j (\<lambda>c. c\<lparr>ic_failed := True\<rparr>) s1)"
  shows "sends_ok (M + kernel_claims s') s' i"
proof (cases "i = j")
  case True
  have w: "writers (M + kernel_claims s) j = {#}" "ic_send_in_progress c"
    and "ic_failed c \<or> ic_wire c @ r @ concat (ic_send_queue c) = concat (ic_accepted c)"
    using ok c True by (auto simp: sends_ok_def stream_ok_def)
  then have "ic_failed c \<or> concat (ic_accepted c) = (ic_wire c @ x) @ drop k b @ concat (ic_send_queue c)"
    using r by (metis append.assoc)
  then show ?thesis
    using st s' w c True
    by (auto simp: submit_op_def sends_ok_def stream_ok_def drained_ok_def split: option.splits)
next
  case False
  then show ?thesis
    using st s' by (intro sends_frame [OF ok]) (auto simp: submit_op_def split: option.splits)
qed

lemma complete_send_sends:
  assumes ok: "sends_ok (add_mset (Writer j (drop k b)) (M + kernel_claims s)) s i"
    and st: "complete_send failure now (Op_send j b k) n s = (s', owned, r)"
  shows "sends_ok (M + kernel_claims s') s' i"
proof (cases "io_closing j s")
  case True
  then show ?thesis
    using st sends_drop [OF ok] by (simp add: complete_send_def)
next
  case False
  then obtain c where c: "umap_find (io_objects s) j = Some c" "\<not> ic_closing c"
    by (auto simp: io_closing_def split: option.splits)
  let ?s = "io_update j (sent now (take n (drop k b))) s"
  show ?thesis
  proof (cases "k + n < length b")
    case True
    obtain s1 q where q: "submit_op failure (Op_send j b (k + n)) ?s = (s1, q)" by fastforce
    have "drop k b = take n (drop k b) @ drop (k + n) b"
      by (metis add.commute append_take_drop_id drop_drop)
    then show ?thesis
      by (rule resubmit_sends [OF ok c _ q]) (use st False True q in \<open>auto simp: complete_send_def Let_def split: sum.splits\<close>)
  next
    case whole: False
    then obtain r' where st': "post_next_send failure j ?s = (s', r')"
      using st False by (auto simp: complete_send_def Let_def split: prod.splits)
    show ?thesis
    proof (rule post_next_send_from [OF st' c(1)])
      show "sends_ok (M + kernel_claims s) s i"
        by (rule sends_drop [OF ok])
    qed (use ok c whole in \<open>auto simp: sends_ok_def stream_ok_def idle_stream_def\<close>)
  qed
qed

lemma accept_sends:
  assumes ok: "sends_ok (claims_of t + M + kernel_claims s) s i" and t: "\<And>d k. t \<noteq> Disc d k"
    and conn: "\<And>j. conn_ok (claims_of t + M + kernel_claims s) s j" and st: "accept_step_iocp a t s = (s', t')"
  shows "sends_ok (claims_of t' + M + kernel_claims s') s' i"
proof (cases t)
  case (Ac_associate j e)
  have "umap_find (io_objects s) j = None"
    using conn [of j] by (cases "umap_find (io_objects s) j") (simp_all add: Ac_associate conn_ok_def present_ok_def exclusive_def)
  then have "sends_ok (claims_of (Ac_publish j) + M + kernel_claims s) (s\<lparr>io_objects := umap_assign j
      (fst (begin_callback (Connection_new e n nd now))) (io_objects s)\<rparr>) i" for n nd now
    using ok Ac_associate
    by (cases "i = j"; cases "umap_find (io_objects s) i")
      (simp_all add: sends_ok_def stream_ok_def drained_ok_def begin_callback_def Connection_new_def)
  then show ?thesis
    using st ok by (auto simp: Ac_associate accept_step_iocp_def split: option.splits intro: sends_frame)
next
  case (Ac_leave j)
  then show ?thesis
    using st ok leave_sends [of "Ac_left j" "M + kernel_claims s" s i] leave_kernel [of j "Ac_left j" s]
    by (simp add: accept_step_iocp_def ac_simps sends_frame [OF ok])
next
  case (Ac_post j)
  then show ?thesis
    using st ok post_receive_sends [of M s i] sends_frame [OF ok, of "M + kernel_claims s" s]
    by (auto simp: accept_step_iocp_def split: prod.splits sum.splits)
qed (use ok st t in \<open>auto simp: accept_step_iocp_def accept_socket_def intro!: sends_frame [OF ok] split: if_splits option.splits\<close>)

lemma worker_sends:
  assumes ok: "sends_ok (claims_of t + M + kernel_claims s) s i" and t: "\<And>d k. t \<noteq> Disc d k"
    and st: "worker_step_iocp a t s = (s', t')"
  shows "sends_ok (claims_of t' + M + kernel_claims s') s' i"
proof (cases t)
  case Wk_wait
  then show ?thesis
    using st ok ops_claims_taken [of _ "io_kernel s"]
    by (auto simp: worker_step_iocp_def worker_wait_def ac_simps split: option.splits prod.splits if_splits intro!: sends_frame [OF ok])
next
  case (Wk_got op success n bytes)
  have "sends_ok (M + kernel_claims s) s i"
    using ok by (cases op) (auto simp: Wk_got dest!: sends_drop)
  then show ?thesis
    using st ok by (cases op) (auto simp: Wk_got worker_step_iocp_def worker_dispatch_def split: if_splits intro: sends_frame)
next
  case (Wk_send op n)
  obtain s1 owned r where r: "complete_send (ia_submit a) (ia_now a) op n s = (s1, owned, r)"
    by (cases "complete_send (ia_submit a) (ia_now a) op n s") auto
  have "sends_ok (M + kernel_claims s1) s1 i"
  proof (cases op)
    case (Op_receive j)
    then show ?thesis
      using ok r by (auto simp: Wk_send complete_send_def dest!: sends_drop)
  next
    case (Op_send j b k)
    have "sends_ok (add_mset (Writer j (drop k b)) (M + kernel_claims s)) s i"
      using ok by (auto simp: Wk_send Op_send intro: sends_frame)
    then show ?thesis
      using r complete_send_sends by (simp add: Op_send)
  qed
  then show ?thesis
    using st r by (auto simp: Wk_send worker_step_iocp_def split: sum.splits if_splits intro: sends_frame)
next
  case (Wk_return op)
  show ?thesis
    using st leave_sends [of "Wk_free op" "M + kernel_claims s" s i "op_connection op"] leave_kernel [of "op_connection op" "Wk_free op" s]
      sends_frame [OF ok, of "add_mset Held (M + kernel_claims s)" s]
    by (simp add: Wk_return worker_step_iocp_def scoped_def ac_simps)
next
  case (Wk_leave op)
  show ?thesis
    using st leave_sends [of "Wk_recheck op" "M + kernel_claims s" s i "op_connection op"] leave_kernel [of "op_connection op" "Wk_recheck op" s]
      sends_frame [OF ok, of "claims_of (Wk_recheck op) + (M + kernel_claims s)" s]
    by (simp add: Wk_leave worker_step_iocp_def scoped_def ac_simps)
next
  case (Wk_post op)
  have "sends_ok (add_mset Held M + kernel_claims s) s i"
    using ok by (auto simp: Wk_post intro: sends_frame)
  from post_receive_sends [OF this] show ?thesis
    using st by (auto simp: Wk_post worker_step_iocp_def split: prod.splits sum.splits)
qed (use ok st t in \<open>auto simp: worker_step_iocp_def worker_begin_def worker_append_def worker_pop_def begin_callback_def scoped_def
      stream_simps intro!: sends_frame [OF ok] split: if_splits option.splits prod.splits\<close>)

lemma task_sends:
  assumes st: "task_step a t s = (s', t')" and ok: "sends_ok (claims_of t + M + kernel_claims s) s i"
    and conn: "\<And>j. conn_ok (claims_of t + M + kernel_claims s) s j"
  shows "sends_ok (claims_of t' + M + kernel_claims s') s' i"
  using st
proof (cases rule: task_step_elim)
  case (disc d k)
  then show ?thesis
    using disc_sends [of d k "M + kernel_claims s" s i] ok disc_run_kernel [of d k s] by (simp add: ac_simps)
next
  case idle
  then show ?thesis
    using ok by (cases t) (auto simp: idle_step_def split: if_splits list.splits option.splits intro: sends_frame)
next
  case (caller j data)
  then show ?thesis
    using ok connection_send_sends [of M s i "ia_submit a" j data] by (auto simp: caller_step_def split: prod.splits sum.splits)
qed (use ok accept_sends [OF ok _ conn] worker_sends [OF ok] in simp_all)

end
