(* ===== verification/Iocp_Lifecycle.thy ===== *)
theory Iocp_Lifecycle
  imports Iocp_Sends
begin

text \<open>
  The whole server of the completion port backend: the claims of all threads together, the stages of
  stop, and that every step of every thread keeps the invariants.
\<close>

section \<open>One step of one thread\<close>

definition core :: "claim multiset \<Rightarrow> iocp_shared \<Rightarrow> bool" where
  "core C s \<longleftrightarrow> umap_wf (io_connections s) \<and> unat (io_next_id s) = io_created s + 1 \<and> armed s \<and> owed C s
     \<and> (\<forall>i. conn_ok (C + kernel_claims s) s i) \<and> (\<forall>i. sends_ok (C + kernel_claims s) s i)"

lemma disc_run_shared:
  assumes "disc_run d k s = (s', t')"
  shows "io_running s' = io_running s" "io_options s' = io_options s" "io_callbacks s' = io_callbacks s"
    "io_created s' = io_created s" "io_next_id s' = io_next_id s" "kind_of t' = kind_of k"
    "umap_wf (io_connections s) \<Longrightarrow> umap_wf (io_connections s') \<and> umap_size (io_connections s') \<le> umap_size (io_connections s)"
    "umap_find (io_connections s') i \<noteq> None \<Longrightarrow> umap_find (io_connections s) i \<noteq> None \<and> d \<noteq> D_enter i"
    "umap_find (io_objects s') i = None \<longleftrightarrow> umap_find (io_objects s) i = None"
  using assms umap.size_erase_le
  by (auto simp: disc_run_def disc_step_def umap.wf_erase split: disc_pc.splits option.splits prod.splits if_splits)

text \<open>The steps that leave the settings, the registry and the set of objects alone.\<close>

definition quiet :: "iocp_shared \<Rightarrow> iocp_shared \<Rightarrow> bool" where
  "quiet s s' \<longleftrightarrow> io_running s' = io_running s \<and> io_options s' = io_options s \<and> io_callbacks s' = io_callbacks s
     \<and> io_created s' = io_created s \<and> io_next_id s' = io_next_id s \<and> io_connections s' = io_connections s
     \<and> (\<forall>i. umap_find (io_objects s') i = None \<longleftrightarrow> umap_find (io_objects s) i = None)"

lemma quiet_refl [simp]: "quiet s s"
  by (simp add: quiet_def)

lemma quiet_trans: "quiet s s' \<Longrightarrow> quiet s' s'' \<Longrightarrow> quiet s s''"
  by (simp add: quiet_def)

lemma find_update_none [simp]: "umap_find (io_objects (io_update i f s)) j = None \<longleftrightarrow> umap_find (io_objects s) j = None"
  by simp

lemma quiet_update [simp]: "quiet s (io_update i f s') = quiet s s'"
  by (simp add: quiet_def del: find_io_update)

lemma quiet_simps [simp]:
  "quiet s (io_call b c s') = quiet s s'" "quiet s (io_report e s') = quiet s s'"
  "quiet s (operation_started s') = quiet s s'" "quiet s (operation_finished s') = quiet s s'"
  "quiet s (s'\<lparr>io_kernel := ops\<rparr>) = quiet s s'" "quiet s (s'\<lparr>io_info := x\<rparr>) = quiet s s'" "quiet s (s'\<lparr>io_wakes := w\<rparr>) = quiet s s'"
  by (simp_all add: quiet_def operation_started_def operation_finished_def)

lemma quiet_leave: "leave_scope j k s = (s', t') \<Longrightarrow> quiet s s' \<and> kind_of t' = kind_of k"
  by (auto simp: leave_scope_def split: option.splits prod.splits)

lemma quiet_submit: "submit_op failure op s = (s', r) \<Longrightarrow> quiet s s'"
  by (auto simp: submit_op_def split: option.splits)

lemma quiet_post_receive: "post_receive failure i s = (s', r) \<Longrightarrow> quiet s s'"
  using quiet_submit [of failure "Op_receive i" "operation_started s" s' r] quiet_trans [of s "operation_started s" s']
  by (auto simp: post_receive_def split: if_splits)

lemma quiet_post_next_send: "post_next_send failure i s = (s', r) \<Longrightarrow> quiet s s'"
  by (auto simp: post_next_send_def submit_op_def split: option.splits list.splits)

lemma quiet_connection_send:
  assumes "connection_send failure i data s = (s', r)"
  shows "quiet s s'"
proof -
  let ?s = "io_update i (queued (buf_bytes data)) s"
  have "quiet s ?s" by simp
  then show ?thesis
    using assms quiet_trans [of s ?s s'] quiet_post_next_send [of failure i ?s s' r]
    by (auto simp: connection_send_def Let_def split: option.splits if_splits)
qed

lemma quiet_complete_send:
  assumes "complete_send failure now op n s = (s', owned, r)"
  shows "quiet s s'"
proof (cases op)
  case (Op_send j b k)
  let ?s = "io_update j (sent now (take n (drop k b))) s"
  have "quiet s ?s" by simp
  then show ?thesis
    using assms quiet_trans [of s ?s s'] quiet_post_next_send [of failure j ?s s' r]
    by (auto simp: Op_send complete_send_def submit_op_def Let_def split: option.splits if_splits prod.splits)
qed (use assms in \<open>simp add: complete_send_def\<close>)

lemma worker_quiet:
  assumes t: "\<And>d k. t \<noteq> Disc d k" and st: "worker_step_iocp a t s = (s', t')" and k: "kind_of t = K_worker"
  shows "quiet s s' \<and> kind_of t' \<in> {K_worker, K_end}"
proof (cases t)
  case (Wk_send op n)
  then show ?thesis
    using st quiet_complete_send [of "ia_submit a" "ia_now a" op n s]
    by (auto simp: worker_step_iocp_def split: prod.splits sum.splits)
next
  case (Wk_return op)
  then show ?thesis
    using st quiet_leave [of "op_connection op" "Wk_free op" s s' t'] by (simp add: worker_step_iocp_def)
next
  case (Wk_leave op)
  then show ?thesis
    using st quiet_leave [of "op_connection op" "Wk_recheck op" s s' t'] by (simp add: worker_step_iocp_def)
next
  case (Wk_post op)
  then show ?thesis
    using st quiet_post_receive [of "ia_submit a" "op_connection op" s]
    by (auto simp: worker_step_iocp_def split: prod.splits sum.splits)
qed (use st t k in \<open>auto simp: worker_step_iocp_def worker_wait_def worker_dispatch_def worker_begin_def worker_append_def worker_pop_def
      begin_callback_def Let_def split: option.splits prod.splits if_splits operation.splits\<close>)

fun accept_special :: "task \<Rightarrow> bool" where
  "accept_special (Ac_admit e) = True"
| "accept_special (Ac_associate i e) = True"
| "accept_special (Ac_publish i) = True"
| "accept_special _ = False"

lemma accept_quiet:
  assumes t: "\<And>d k. t \<noteq> Disc d k" and st: "accept_step_iocp a t s = (s', t')" and k: "kind_of t = K_accept" "\<not> accept_special t"
  shows "quiet s s' \<and> kind_of t' \<in> {K_accept, K_end}"
proof (cases t)
  case (Ac_leave j)
  then show ?thesis
    using st quiet_leave [of j "Ac_left j" s s' t'] by (simp add: accept_step_iocp_def)
next
  case (Ac_post j)
  then show ?thesis
    using st quiet_post_receive [of "ia_submit a" j s] by (auto simp: accept_step_iocp_def split: prod.splits sum.splits)
qed (use st t k in \<open>auto simp: accept_step_iocp_def accept_socket_def split: option.splits if_splits\<close>)

text \<open>What every step of a thread keeps of the settings and of the registry.\<close>

definition registry_effect :: "task \<Rightarrow> iocp_shared \<Rightarrow> iocp_shared \<Rightarrow> bool" where
  "registry_effect t s s' \<longleftrightarrow>
     (umap_wf (io_connections s) \<longrightarrow> umap_wf (io_connections s'))
     \<and> (umap_wf (io_connections s) \<and> (\<forall>i. t \<noteq> Ac_publish i) \<longrightarrow> umap_size (io_connections s') \<le> umap_size (io_connections s))
     \<and> (\<forall>i. umap_find (io_connections s') i \<noteq> None \<longrightarrow>
          (umap_find (io_connections s) i \<noteq> None \<and> (\<forall>k. t \<noteq> Disc (D_enter i) k)) \<or> t = Ac_publish i)"

definition effect :: "task \<Rightarrow> iocp_shared \<Rightarrow> iocp_shared \<Rightarrow> task \<Rightarrow> bool" where
  "effect t s s' t' \<longleftrightarrow>
     io_running s' = io_running s \<and> io_options s' = io_options s \<and> io_callbacks s' = io_callbacks s
     \<and> (kind_of t' = kind_of t \<or> kind_of t' = K_end) \<and> registry_effect t s s'
     \<and> (io_next_id s' = io_next_id s \<and> io_created s' = io_created s
        \<or> io_running s \<and> (\<exists>e. t = Ac_admit e) \<and> io_next_id s' = io_next_id s + 1 \<and> io_created s' = io_created s + 1)
     \<and> (\<forall>i. umap_find (io_objects s') i = None \<longleftrightarrow> umap_find (io_objects s) i = None \<and> (\<forall>e. t \<noteq> Ac_associate i e \<or> t' \<noteq> Ac_publish i))"

lemma effect_quiet:
  "quiet s s' \<Longrightarrow> kind_of t' = kind_of t \<or> kind_of t' = K_end \<Longrightarrow> (\<And>d k. t \<noteq> Disc d k) \<Longrightarrow> \<not> accept_special t \<Longrightarrow> effect t s s' t'"
  by (auto simp: effect_def quiet_def registry_effect_def)

lemma effect_special:
  assumes st: "accept_step_iocp a t s = (s', t')" and k: "accept_special t"
  shows "effect t s s' t'"
proof -
  consider (admit) e where "t = Ac_admit e" | (associate) i e where "t = Ac_associate i e" | (publish) i where "t = Ac_publish i"
    using k by (cases t) auto
  then show ?thesis
  proof cases
    case publish
    then show ?thesis
      using st by (auto simp: effect_def registry_effect_def accept_step_iocp_def umap.wf_assign umap_emplace_def split: option.splits)
  qed (use st in \<open>auto simp: effect_def registry_effect_def accept_step_iocp_def split: if_splits option.splits\<close>)
qed

lemma task_effect:
  assumes st: "task_step a t s = (s', t')"
  shows "effect t s s' t'"
  using st
proof (cases rule: task_step_elim)
  case (disc d k)
  then show ?thesis
    using disc_run_shared [OF disc(2)] by (auto simp: effect_def registry_effect_def)
next
  case accept
  show ?thesis
  proof (cases "accept_special t")
    case True
    then show ?thesis using accept(3) by (rule effect_special [rotated])
  next
    case False
    show ?thesis
      by (rule effect_quiet) (use accept_quiet [OF accept(1,3,2) False] accept(1,2) False in auto)
  qed
next
  case worker
  have "\<not> accept_special t"
    using worker(2) by (cases t) auto
  then show ?thesis
    by (intro effect_quiet) (use worker_quiet [OF worker(1,3,2)] worker(1,2) in auto)
next
  case idle
  then show ?thesis
    by (intro effect_quiet; cases t) (auto simp: idle_step_def split: if_splits list.splits option.splits)
next
  case (caller j data)
  then show ?thesis
    using quiet_connection_send [of "ia_submit a" j data s]
    by (intro effect_quiet) (auto simp: caller_step_def split: prod.splits sum.splits)
next
  case ended
  then show ?thesis
    by (simp add: effect_def registry_effect_def)
qed

lemma task_core:
  assumes st: "task_step a t s = (s', t')" and ok: "core (claims_of t + M) s"
    and full: "kind_of t = K_accept \<Longrightarrow> complete (io_callbacks s)" and small: "io_created s' + 1 < W64"
  shows "core (claims_of t' + M) s'"
proof -
  note e = task_effect [OF st, unfolded effect_def]
  have c: "\<And>i. conn_ok (claims_of t + M + kernel_claims s) s i" and next_id: "unat (io_next_id s) = io_created s + 1"
    and armed: "armed s"
    using ok by (simp_all add: core_def)
  have step: "unat (io_next_id s + 1) = unat (io_next_id s) + 1" if "io_created s' = io_created s + 1"
    using small that next_id unat_add_lem [of "io_next_id s" 1] by simp
  have "unat (io_next_id s') = io_created s' + 1"
    using e next_id step by auto
  moreover have "armed s'"
    using armed e full by (auto simp: armed_def)
  moreover have "conn_ok (claims_of t' + M + kernel_claims s') s' i" for i
    by (rule task_conn_ok [OF st c armed]) (use step st in \<open>auto simp: task_step_def accept_step_iocp_def\<close>)
  moreover have "sends_ok (claims_of t' + M + kernel_claims s') s' i" for i
    by (rule task_sends [OF st _ c]) (use ok in \<open>simp add: core_def\<close>)
  moreover have "owed (claims_of t' + M) s'"
    by (rule task_owed [OF st]) (use ok in \<open>simp add: core_def\<close>)
  ultimately show ?thesis
    using e ok by (simp add: core_def registry_effect_def)
qed

section \<open>All threads together\<close>

definition option_claims :: "task option \<Rightarrow> claim multiset" where
  "option_claims t = (case t of None \<Rightarrow> {#} | Some x \<Rightarrow> claims_of x)"

definition list_claims :: "task list \<Rightarrow> claim multiset" where
  "list_claims ts = sum_list (map claims_of ts)"

definition server_claims :: "iocp_server \<Rightarrow> claim multiset" where
  "server_claims v = option_claims (is_accept v) + option_claims (is_idle v) + list_claims (is_workers v)
     + list_claims (is_callers v) + claims_of (is_owner_task v)"

lemma option_claims_simps [simp]: "option_claims None = {#}" "option_claims (Some t) = claims_of t"
  by (simp_all add: option_claims_def)

lemma list_claims_simps [simp]: "list_claims [] = {#}" "list_claims (t # ts) = claims_of t + list_claims ts"
  by (simp_all add: list_claims_def)

lemma list_claims_ended: "list_claims (filter (\<lambda>t. t \<noteq> T_end) ts) = list_claims ts"
  by (induction ts) auto

lemma list_claims_waiting: "list_claims (replicate n Wk_wait) = {#}"
  by (induction n) simp_all

lemma list_claims_update:
  assumes "k < length ts"
  obtains M where "list_claims ts = claims_of (ts ! k) + M" "\<And>t. list_claims (ts[k := t]) = claims_of t + M"
proof
  show "list_claims ts = claims_of (ts ! k) + list_claims (take k ts @ drop (Suc k) ts)"
    by (subst id_take_nth_drop [OF assms]) (simp add: list_claims_def ac_simps)
  show "list_claims (ts[k := t]) = claims_of t + list_claims (take k ts @ drop (Suc k) ts)" for t
    using assms by (simp add: upd_conv_take_nth_drop list_claims_def ac_simps)
qed

section \<open>The stages of stop\<close>

text \<open>How far stop has come: 0 while the server runs, 8 when it is stopped.\<close>

fun owner_stage :: "iocp_owner \<Rightarrow> bool \<Rightarrow> nat" where
  "owner_stage Ow_idle r = (if r then 0 else 8)"
| "owner_stage Ow_start_failed r = 0"
| "owner_stage Ow_join_accept r = 1"
| "owner_stage Ow_join_idle r = 2"
| "owner_stage Ow_snapshot r = 3"
| "owner_stage (Ow_close ids) r = 4"
| "owner_stage Ow_drain r = 5"
| "owner_stage (Ow_wake n) r = 6"
| "owner_stage Ow_join_workers r = 7"

definition stop_stage :: "iocp_server \<Rightarrow> nat" where
  "stop_stage v = owner_stage (is_owner v) (io_running (is_shared v))"

definition kinds_ok :: "iocp_server \<Rightarrow> bool" where
  "kinds_ok v \<longleftrightarrow> (\<forall>t\<in>set_option (is_accept v). kind_of t \<in> {K_accept, K_end})
     \<and> (\<forall>t\<in>set_option (is_idle v). kind_of t \<in> {K_idle, K_end}) \<and> (\<forall>t\<in>set (is_workers v). kind_of t \<in> {K_worker, K_end})
     \<and> (\<forall>t\<in>set (is_callers v). kind_of t \<in> {K_caller, K_end}) \<and> kind_of (is_owner_task v) = K_end"

definition stages_ok :: "iocp_server \<Rightarrow> bool" where
  "stages_ok v \<longleftrightarrow>
     (stop_stage v = 0 \<longleftrightarrow> io_running (is_shared v))
     \<and> (2 \<le> stop_stage v \<longrightarrow> is_accept v = None \<and> \<not> is_listening v) \<and> (3 \<le> stop_stage v \<longrightarrow> is_idle v = None)
     \<and> (stop_stage v \<noteq> 4 \<longrightarrow> is_owner_task v = T_end)
     \<and> (\<forall>ids i. is_owner v = Ow_close ids \<and> umap_find (io_connections (is_shared v)) i \<noteq> None \<longrightarrow>
          i \<in> set ids \<or> is_owner_task v = Disc (D_enter i) T_end)
     \<and> (5 \<le> stop_stage v \<longrightarrow> io_connections (is_shared v) = [])
     \<and> (6 \<le> stop_stage v \<longrightarrow> io_pending_operations (is_shared v) = 0)
     \<and> (8 \<le> stop_stage v \<longrightarrow> is_workers v = []) \<and> (is_port_open v \<longleftrightarrow> stop_stage v < 8)"

text \<open>Places of the accept thread between the test of the capacity and the registration.\<close>

fun needs_room :: "task \<Rightarrow> bool" where
  "needs_room (Ac_associate i e) = True"
| "needs_room (Ac_publish i) = True"
| "needs_room (Disc d k) = needs_room k"
| "needs_room _ = False"

definition room_ok :: "iocp_server \<Rightarrow> bool" where
  "room_ok v \<longleftrightarrow> umap_size (io_connections (is_shared v)) \<le> tc_max_connections (io_options (is_shared v))
     \<and> (\<forall>t. is_accept v = Some t \<and> needs_room t \<longrightarrow>
          umap_size (io_connections (is_shared v)) < tc_max_connections (io_options (is_shared v)))
     \<and> (is_accept v \<noteq> None \<longrightarrow> complete (io_callbacks (is_shared v)))"

definition iocp_inv :: "iocp_server \<Rightarrow> bool" where
  "iocp_inv v \<longleftrightarrow> core (server_claims v) (is_shared v) \<and> kinds_ok v \<and> stages_ok v \<and> room_ok v"

section \<open>No operation starts once every connection is closing\<close>

lemma pending_closed:
  assumes st: "task_step a t s = (s', t')" and cl: "\<And>i. io_closing i s"
  shows "io_pending_operations s' \<le> io_pending_operations s"
  using st
proof (cases rule: task_step_elim)
  case (disc d k)
  then show ?thesis using disc_run_frame [of d k s] by simp
next
  case accept
  show ?thesis
  proof (cases t)
    case (Ac_leave j)
    then show ?thesis using accept(3) leave_frame [of j "Ac_left j" s] by (simp add: accept_step_iocp_def)
  qed (use accept cl in \<open>auto simp: accept_step_iocp_def accept_socket_def post_receive_def split: if_splits option.splits\<close>)
next
  case worker
  show ?thesis
  proof (cases t)
    case (Wk_return op)
    then show ?thesis using worker(3) leave_frame [of "op_connection op" "Wk_free op" s] by (simp add: worker_step_iocp_def)
  next
    case (Wk_leave op)
    then show ?thesis using worker(3) leave_frame [of "op_connection op" "Wk_recheck op" s] by (simp add: worker_step_iocp_def)
  next
    case (Wk_send op n)
    then show ?thesis using worker(3) cl by (auto simp: worker_step_iocp_def complete_send_def split: operation.splits)
  qed (use worker cl in \<open>auto simp: worker_step_iocp_def worker_wait_def worker_dispatch_def worker_begin_def worker_append_def
      worker_pop_def post_receive_def split: if_splits option.splits prod.splits operation.splits\<close>)
next
  case idle
  then show ?thesis by (cases t) (auto simp: idle_step_def split: if_splits list.splits option.splits)
next
  case (caller j data)
  then show ?thesis
    using cl [of j] by (auto simp: caller_step_def connection_send_def io_closing_def split: option.splits if_splits)
qed simp

lemma unpublished_accept: "kind_of t \<noteq> K_accept \<Longrightarrow> count (claims_of t) (Unpublished i) = 0"
proof (induction t)
  case (Disc d k)
  then show ?case by (cases d) simp_all
next
  case (Wk_got op ok n bytes)
  then show ?case by (cases op) simp_all
next
  case (Wk_send op n)
  then show ?case by (cases op) simp_all
qed (simp_all add: scoped_def)

lemma unpublished_list: "(\<And>t. t \<in> set ts \<Longrightarrow> kind_of t \<noteq> K_accept) \<Longrightarrow> count (list_claims ts) (Unpublished i) = 0"
  by (induction ts) (simp_all add: unpublished_accept)

lemma unpublished_ops: "count (ops_claims ops) (Unpublished i) = 0"
proof (induction ops rule: rev_induct)
  case (snoc op ops)
  then show ?case by (cases op) simp_all
qed simp

lemma all_closing:
  assumes inv: "kinds_ok v" "core (server_claims v) (is_shared v)" and a: "is_accept v = None" "io_connections (is_shared v) = []"
  shows "io_closing i (is_shared v)"
proof (cases "umap_find (io_objects (is_shared v)) i")
  case (Some c)
  have "count (server_claims v + kernel_claims (is_shared v)) (Unpublished i) = 0"
    using inv(1) a(1)
    by (cases "is_idle v") (auto simp: kinds_ok_def server_claims_def unpublished_ops intro!: unpublished_list unpublished_accept)
  moreover have "conn_ok (server_claims v + kernel_claims (is_shared v)) (is_shared v) i"
    using inv(2) by (simp add: core_def)
  ultimately show ?thesis
    using Some a(2) by (simp add: io_closing_def conn_ok_def present_ok_def lifetime_def registered_def)
qed (simp add: io_closing_def)

section \<open>Steps of the threads\<close>

text \<open>Thread \<open>t\<close> of the server made a step: the rest of the server is as before.\<close>

definition ran :: "iocp_server \<Rightarrow> iocp_server \<Rightarrow> task \<Rightarrow> task \<Rightarrow> bool" where
  "ran v v' t t' \<longleftrightarrow>
     (\<exists>M. server_claims v = claims_of t + M \<and> server_claims v' = claims_of t' + M)
     \<and> is_owner v' = is_owner v \<and> is_listening v' = is_listening v \<and> is_port_open v' = is_port_open v
     \<and> (is_accept v' = is_accept v \<and> kind_of t \<noteq> K_accept \<or> is_accept v = Some t \<and> is_accept v' = Some t')
     \<and> (is_idle v' = None \<longleftrightarrow> is_idle v = None) \<and> (is_workers v' = [] \<longleftrightarrow> is_workers v = [])
     \<and> (is_owner_task v' = is_owner_task v \<or> is_owner_task v = t \<and> is_owner_task v' = t')"

lemma empty_registry:
  assumes "\<And>i. umap_find m i \<noteq> None \<Longrightarrow> False"
  shows "m = []"
proof (cases m)
  case (Cons x rest)
  then have "umap_find m (fst x) \<noteq> None"
    by (cases x) (simp add: umap_find_def)
  then show ?thesis using assms by blast
qed simp

lemma ran_core:
  assumes st: "task_step a t (is_shared v) = (is_shared v', t')" and r: "ran v v' t t'" and inv: "iocp_inv v"
    and small: "io_created (is_shared v') + 1 < W64"
  shows "core (server_claims v') (is_shared v')"
proof -
  obtain M where m: "server_claims v = claims_of t + M" "server_claims v' = claims_of t' + M"
    using r by (auto simp: ran_def)
  have "core (claims_of t' + M) (is_shared v')"
    by (rule task_core [OF st _ _ small]) (use inv r m in \<open>auto simp: iocp_inv_def ran_def room_ok_def\<close>)
  then show ?thesis by (simp add: m)
qed

lemma disc_room: "disc_run d k s = (s', t') \<Longrightarrow> needs_room t' = needs_room k"
  by (auto simp: disc_run_def split: prod.splits option.splits)

lemma accept_room:
  assumes st: "task_step a t s = (s', t')" and wf: "umap_wf (io_connections s)"
    and room: "umap_size (io_connections s) \<le> tc_max_connections (io_options s)"
      "needs_room t \<Longrightarrow> umap_size (io_connections s) < tc_max_connections (io_options s)"
    and k: "kind_of t = K_accept"
  shows "umap_size (io_connections s') \<le> tc_max_connections (io_options s)
    \<and> (needs_room t' \<longrightarrow> umap_size (io_connections s') < tc_max_connections (io_options s))"
  using st
proof (cases rule: task_step_elim)
  case (disc d k)
  then show ?thesis
    using disc_run_shared(7) [OF disc(2) wf] disc_room [OF disc(2)] room by auto
next
  case accept
  show ?thesis
  proof (cases t)
    case (Ac_publish i)
    then show ?thesis
      using accept(3) room(2) emplace_size [OF wf] by (auto simp: accept_step_iocp_def)
  next
    case (Ac_leave j)
    then show ?thesis
      using accept(3) room(1) by (auto simp: accept_step_iocp_def leave_scope_def split: option.splits prod.splits if_splits)
  next
    case (Ac_post j)
    obtain s1 r where p: "post_receive (ia_submit a) j s = (s1, r)" by fastforce
    have "io_connections s1 = io_connections s"
      using quiet_post_receive [OF p] by (simp add: quiet_def)
    then show ?thesis
      using accept(3) room(1) p by (auto simp: Ac_post accept_step_iocp_def split: sum.splits)
  next
    case (Ac_associate i e)
    then show ?thesis
      using accept(3) room(2) by (auto simp: accept_step_iocp_def split: option.splits)
  qed (use accept room(1) in \<open>auto simp: accept_step_iocp_def accept_socket_def split: if_splits option.splits\<close>)
qed (use k in simp_all)

lemma ended_room: "kind_of t = K_end \<Longrightarrow> \<not> needs_room t"
  by (induction t) simp_all

lemma ran_room:
  assumes st: "task_step a t (is_shared v) = (is_shared v', t')" and r: "ran v v' t t'" and inv: "iocp_inv v"
  shows "room_ok v'"
proof -
  note e = task_effect [OF st, unfolded effect_def]
  have wf: "umap_wf (io_connections (is_shared v))" and room: "room_ok v"
    using inv by (simp_all add: iocp_inv_def core_def)
  have opt: "io_options (is_shared v') = io_options (is_shared v)" "io_callbacks (is_shared v') = io_callbacks (is_shared v)"
    using e by auto
  show ?thesis
  proof (cases "kind_of t = K_accept")
    case True
    then have acc: "is_accept v = Some t" "is_accept v' = Some t'" using r by (auto simp: ran_def)
    then show ?thesis
      using accept_room [OF st wf _ _ True] room opt by (simp add: room_ok_def)
  next
    case False
    then have le: "umap_size (io_connections (is_shared v')) \<le> umap_size (io_connections (is_shared v))"
      using e wf by (auto simp: registry_effect_def)
    have "kind_of t' = kind_of t \<or> kind_of t' = K_end" "is_accept v = Some t \<Longrightarrow> kind_of t = K_end"
      using e False inv by (auto simp: iocp_inv_def kinds_ok_def)
    then have "is_accept v' = is_accept v \<or> is_accept v' = Some t' \<and> is_accept v \<noteq> None \<and> \<not> needs_room t'"
      using r False ended_room [of t'] by (auto simp: ran_def)
    then show ?thesis
      using room opt le by (auto simp: room_ok_def)
  qed
qed

lemma ran_fields:
  assumes "ran v v' t t'"
  shows "is_owner v' = is_owner v" "is_listening v' = is_listening v" "is_port_open v' = is_port_open v"
    "is_idle v' = None \<longleftrightarrow> is_idle v = None" "is_workers v' = [] \<longleftrightarrow> is_workers v = []"
    "is_accept v = None \<Longrightarrow> is_accept v' = None \<and> kind_of t \<noteq> K_accept"
    "is_owner_task v' = is_owner_task v \<or> is_owner_task v = t \<and> is_owner_task v' = t'"
  using assms by (auto simp: ran_def)

lemma ran_stages:
  assumes st: "task_step a t (is_shared v) = (is_shared v', t')" and r: "ran v v' t t'" and inv: "iocp_inv v"
  shows "stages_ok v'"
proof -
  note e = task_effect [OF st, unfolded effect_def]
  have stage: "stop_stage v' = stop_stage v"
    using e r by (simp add: stop_stage_def ran_def)
  have ok: "stages_ok v" using inv by (simp add: iocp_inv_def)
  have sub: "umap_find (io_connections (is_shared v')) i \<noteq> None \<Longrightarrow>
      umap_find (io_connections (is_shared v)) i \<noteq> None \<and> t \<noteq> Disc (D_enter i) T_end" if "2 \<le> stop_stage v" for i
  proof -
    assume reg: "umap_find (io_connections (is_shared v')) i \<noteq> None"
    have "kind_of t \<noteq> K_accept"
      using that ok ran_fields(6) [OF r] by (simp add: stages_ok_def)
    then have "t \<noteq> Ac_publish i" by auto
    then show ?thesis
      using reg e unfolding registry_effect_def by blast
  qed
  have "io_connections (is_shared v') = []" if "5 \<le> stop_stage v"
  proof (rule empty_registry)
    have "io_connections (is_shared v) = []" "2 \<le> stop_stage v"
      using that ok by (simp_all add: stages_ok_def)
    then show False if "umap_find (io_connections (is_shared v')) i \<noteq> None" for i
      using sub [of i] that by simp
  qed
  moreover have "io_pending_operations (is_shared v') = 0" if "6 \<le> stop_stage v"
  proof -
    have "io_closing i (is_shared v)" for i
      by (rule all_closing) (use inv that in \<open>auto simp: iocp_inv_def stages_ok_def\<close>)
    then show ?thesis
      using pending_closed [OF st] ok that by (simp add: stages_ok_def)
  qed
  moreover have "is_owner_task v' = T_end" if "stop_stage v \<noteq> 4"
  proof -
    have "is_owner_task v = T_end" "task_step a T_end (is_shared v) = (is_shared v, T_end)"
      using that ok by (simp_all add: stages_ok_def task_step_def)
    then show ?thesis using ran_fields(7) [OF r] st by auto
  qed
  moreover have "i \<in> set ids \<or> is_owner_task v' = Disc (D_enter i) T_end"
    if "is_owner v' = Ow_close ids" "umap_find (io_connections (is_shared v')) i \<noteq> None" for ids i
  proof -
    have o: "is_owner v = Ow_close ids"
      using that(1) ran_fields(1) [OF r] by simp
    then have "stop_stage v = 4" by (simp add: stop_stage_def)
    then have reg: "umap_find (io_connections (is_shared v)) i \<noteq> None" "t \<noteq> Disc (D_enter i) T_end"
      using sub [of i] that(2) by simp_all
    then have "i \<in> set ids \<or> is_owner_task v = Disc (D_enter i) T_end"
      using ok o unfolding stages_ok_def by blast
    then show ?thesis
      using ran_fields(7) [OF r] reg(2) by auto
  qed
  moreover have "is_accept v' = None" if "2 \<le> stop_stage v"
    using that ok ran_fields(6) [OF r] by (simp add: stages_ok_def)
  moreover have "io_running (is_shared v') = io_running (is_shared v)" using e by simp
  ultimately show ?thesis
    using ok ran_fields(1-5) [OF r] stage by (simp add: stages_ok_def)
qed

lemma ran_inv:
  "task_step a t (is_shared v) = (is_shared v', t') \<Longrightarrow> ran v v' t t' \<Longrightarrow> kinds_ok v' \<Longrightarrow> iocp_inv v \<Longrightarrow>
     io_created (is_shared v') + 1 < W64 \<Longrightarrow> iocp_inv v'"
  using ran_core ran_room ran_stages by (simp add: iocp_inv_def)

lemma run_accept_inv:
  assumes inv: "iocp_inv v" and small: "io_created (is_shared (run_accept a v)) + 1 < W64"
  shows "iocp_inv (run_accept a v)"
proof (cases "is_accept v")
  case (Some t)
  obtain s' t' where st: "task_step a t (is_shared v) = (s', t')" by fastforce
  have v': "run_accept a v = v\<lparr>is_shared := s', is_accept := Some t'\<rparr>"
    by (simp add: run_accept_def Some st)
  have "kind_of t' = kind_of t \<or> kind_of t' = K_end"
    using task_effect [OF st] by (simp add: effect_def)
  then have "kinds_ok (run_accept a v)"
    using inv Some by (auto simp: v' iocp_inv_def kinds_ok_def)
  moreover have "ran v (run_accept a v) t t'"
    by (auto simp: ran_def v' Some server_claims_def ac_simps)
  ultimately show ?thesis
    using ran_inv [of a t v "run_accept a v" t'] st inv small by (simp add: v')
qed (use inv in \<open>simp add: run_accept_def\<close>)

lemma run_idle_inv:
  assumes inv: "iocp_inv v" and small: "io_created (is_shared (run_idle a v)) + 1 < W64"
  shows "iocp_inv (run_idle a v)"
proof (cases "is_idle v")
  case (Some t)
  obtain s' t' where st: "task_step a t (is_shared v) = (s', t')" by fastforce
  have v': "run_idle a v = v\<lparr>is_shared := s', is_idle := Some t'\<rparr>"
    by (simp add: run_idle_def Some st)
  have k: "kind_of t' = kind_of t \<or> kind_of t' = K_end" "kind_of t \<in> {K_idle, K_end}"
    using task_effect [OF st] inv Some by (auto simp: effect_def iocp_inv_def kinds_ok_def)
  then have "kinds_ok (run_idle a v)"
    using inv Some by (auto simp: v' iocp_inv_def kinds_ok_def)
  moreover have "ran v (run_idle a v) t t'"
    using k(2) by (auto simp: ran_def v' Some server_claims_def ac_simps)
  ultimately show ?thesis
    using ran_inv [of a t v "run_idle a v" t'] st inv small by (simp add: v')
qed (use inv in \<open>simp add: run_idle_def\<close>)

lemma run_owner_inv:
  assumes inv: "iocp_inv v" and small: "io_created (is_shared (run_owner a v)) + 1 < W64"
  shows "iocp_inv (run_owner a v)"
proof -
  let ?t = "is_owner_task v"
  obtain s' t' where st: "task_step a ?t (is_shared v) = (s', t')" by fastforce
  have v': "run_owner a v = v\<lparr>is_shared := s', is_owner_task := t'\<rparr>"
    by (simp add: run_owner_def st)
  have k: "kind_of t' = K_end" "kind_of ?t = K_end"
    using task_effect [OF st] inv by (auto simp: effect_def iocp_inv_def kinds_ok_def)
  then have "kinds_ok (run_owner a v)"
    using inv by (auto simp: v' iocp_inv_def kinds_ok_def)
  moreover have "ran v (run_owner a v) ?t t'"
    using k(2) by (auto simp: ran_def v' server_claims_def ac_simps)
  ultimately show ?thesis
    using ran_inv [of a ?t v "run_owner a v" t'] st inv small by (simp add: v')
qed

lemma run_worker_inv:
  assumes inv: "iocp_inv v" and small: "io_created (is_shared (run_worker a k v)) + 1 < W64"
  shows "iocp_inv (run_worker a k v)"
proof (cases "k < length (is_workers v)")
  case True
  let ?t = "is_workers v ! k"
  obtain s' t' where st: "task_step a ?t (is_shared v) = (s', t')" by fastforce
  have v': "run_worker a k v = v\<lparr>is_shared := s', is_workers := (is_workers v)[k := t']\<rparr>"
    using True by (simp add: run_worker_def st)
  have kind: "kind_of t' = kind_of ?t \<or> kind_of t' = K_end" "kind_of ?t \<in> {K_worker, K_end}"
    using task_effect [OF st] inv True by (auto simp: effect_def iocp_inv_def kinds_ok_def)
  then have "kinds_ok (run_worker a k v)"
    using inv by (auto simp: v' iocp_inv_def kinds_ok_def dest!: set_update_subset_insert [THEN subsetD])
  moreover obtain M where "list_claims (is_workers v) = claims_of ?t + M" "\<And>t. list_claims ((is_workers v)[k := t]) = claims_of t + M"
    using list_claims_update [OF True] by blast
  then have "ran v (run_worker a k v) ?t t'"
    using kind(2) by (auto simp: ran_def v' server_claims_def ac_simps)
  ultimately show ?thesis
    using ran_inv [of a ?t v "run_worker a k v" t'] st inv small by (simp add: v')
qed (use inv in \<open>simp add: run_worker_def\<close>)

lemma run_caller_inv:
  assumes inv: "iocp_inv v" and small: "io_created (is_shared (run_caller a k v)) + 1 < W64"
  shows "iocp_inv (run_caller a k v)"
proof (cases "k < length (is_callers v)")
  case True
  let ?t = "is_callers v ! k"
  obtain s' t' where st: "task_step a ?t (is_shared v) = (s', t')" by fastforce
  have v': "run_caller a k v = v\<lparr>is_shared := s', is_callers := filter (\<lambda>t. t \<noteq> T_end) ((is_callers v)[k := t'])\<rparr>"
    using True by (simp add: run_caller_def st)
  have kind: "kind_of t' = kind_of ?t \<or> kind_of t' = K_end" "kind_of ?t \<in> {K_caller, K_end}"
    using task_effect [OF st] inv True by (auto simp: effect_def iocp_inv_def kinds_ok_def)
  then have "kinds_ok (run_caller a k v)"
    using inv by (auto simp: v' iocp_inv_def kinds_ok_def dest!: set_update_subset_insert [THEN subsetD])
  moreover obtain M where "list_claims (is_callers v) = claims_of ?t + M" "\<And>t. list_claims ((is_callers v)[k := t]) = claims_of t + M"
    using list_claims_update [OF True] by blast
  then have "ran v (run_caller a k v) ?t t'"
    using kind(2) by (auto simp: ran_def v' server_claims_def list_claims_ended ac_simps)
  ultimately show ?thesis
    using ran_inv [of a ?t v "run_caller a k v" t'] st inv small by (simp add: v')
qed (use inv in \<open>simp add: run_caller_def\<close>)

section \<open>The owner and the callers\<close>

lemma core_frame:
  assumes ok: "core C s" and same: "io_connections s' = io_connections s" "io_next_id s' = io_next_id s" "io_created s' = io_created s"
      "io_objects s' = io_objects s" "io_kernel s' = io_kernel s" "io_log s' = io_log s"
      "io_pending_operations s' = io_pending_operations s" "armed s'"
  shows "core C s'"
proof -
  have "conn_ok (C + kernel_claims s') s' i" for i
    by (rule conn_ok_cong [of "C + kernel_claims s" s]) (use ok in \<open>simp_all add: core_def same registered_def\<close>)
  moreover have "sends_ok (C + kernel_claims s') s' i" for i
    by (rule sends_frame [of "C + kernel_claims s" s]) (use ok in \<open>simp_all add: core_def same\<close>)
  ultimately show ?thesis
    using ok same by (simp add: core_def owed_def)
qed

lemma armed_cong: "io_objects s' = io_objects s \<Longrightarrow> io_callbacks s' = io_callbacks s \<Longrightarrow> armed s' = armed s"
  by (simp add: armed_def)

lemma start_inv:
  assumes inv: "iocp_inv v" and idle: "is_owner v = Ow_idle" and full: "complete callbacks"
  shows "iocp_inv (fst (iocp_start system la port failure options callbacks v))"
proof (cases "fst (iocp_start system la port failure options callbacks v) = v")
  case False
  let ?v = "fst (iocp_start system la port failure options callbacks v)"
  have stopped: "\<not> io_running (is_shared v)" and ok: "system = None" "port = None" "open_listener_iocp la (tc_bind_endpoint options) = Inr ()"
    using False by (auto simp: iocp_start_def split: option.splits sum.splits if_splits)
  have "8 \<le> stop_stage v"
    using idle stopped by (simp add: stop_stage_def)
  then have none: "is_accept v = None" "is_idle v = None" "is_workers v = []" "is_owner_task v = T_end"
      "io_connections (is_shared v) = []" "io_pending_operations (is_shared v) = 0"
    using inv by (simp_all add: iocp_inv_def stages_ok_def)
  have c: "core (server_claims v) (is_shared v)" and k: "kinds_ok v"
    using inv by (simp_all add: iocp_inv_def)
  have claims: "server_claims ?v = server_claims v"
    using stopped ok none by (simp add: iocp_start_def server_claims_def list_claims_waiting Let_def split: option.splits prod.splits)
  have "armed (is_shared ?v)"
    using stopped ok full by (auto simp: iocp_start_def armed_def Let_def split: option.splits prod.splits)
  then have "core (server_claims ?v) (is_shared ?v)"
    unfolding claims using stopped ok
    by (intro core_frame [OF c]) (auto simp: iocp_start_def Let_def split: option.splits prod.splits)
  moreover have "kinds_ok ?v"
    using k stopped ok none by (auto simp: iocp_start_def kinds_ok_def Let_def split: option.splits prod.splits)
  moreover have "stages_ok ?v"
    using stopped ok none idle by (auto simp: iocp_start_def stages_ok_def stop_stage_def Let_def split: option.splits prod.splits)
  moreover have "room_ok ?v"
    using stopped ok none full by (auto simp: iocp_start_def room_ok_def umap_size_def Let_def split: option.splits prod.splits)
  ultimately show ?thesis by (simp add: iocp_inv_def)
qed (use inv in simp)

lemma owner_move:
  assumes inv: "iocp_inv v" and s': "is_shared v' = (is_shared v)\<lparr>io_running := r, io_wakes := w, io_info := x\<rparr>"
    and claims: "server_claims v' = server_claims v" and kinds: "kinds_ok v'" and stages: "stages_ok v'"
    and acc: "is_accept v' = is_accept v \<or> is_accept v' = None"
  shows "iocp_inv v'"
proof -
  have c: "core (server_claims v) (is_shared v)" "armed (is_shared v)" and room: "room_ok v"
    using inv by (simp_all add: iocp_inv_def core_def)
  have "core (server_claims v') (is_shared v')"
    unfolding claims using c(2) by (intro core_frame [OF c(1)]) (simp_all add: s' armed_def)
  moreover have "room_ok v'"
    using room acc by (auto simp: room_ok_def s')
  ultimately show ?thesis using kinds stages by (simp add: iocp_inv_def)
qed

lemma stop_call_inv:
  assumes inv: "iocp_inv v" and o: "is_owner v = Ow_idle \<or> is_owner v = Ow_start_failed"
  shows "iocp_inv (iocp_stop_call v)"
proof (cases "io_running (is_shared v)")
  case True
  let ?v = "v\<lparr>is_shared := (is_shared v)\<lparr>io_running := False\<rparr>, is_owner := Ow_join_accept\<rparr>"
  have "stop_stage v = 0" "stop_stage ?v = 1" "stages_ok v" "kinds_ok v"
    using inv o True by (auto simp: iocp_inv_def stop_stage_def)
  then have "stages_ok ?v" "kinds_ok ?v"
    by (simp_all add: stages_ok_def kinds_ok_def)
  then have "iocp_inv ?v"
    by (intro owner_move [OF inv, where r = False and w = "io_wakes (is_shared v)" and x = "io_info (is_shared v)"]) (simp_all add: server_claims_def)
  then show ?thesis using True by (simp add: iocp_stop_call_def)
qed (use inv in \<open>simp add: iocp_stop_call_def\<close>)

text \<open>The stages follow one another; each step of stop has what the next stage asks for.\<close>

lemma stop_step_stages:
  assumes st: "stages_ok v" and o: "is_owner v \<noteq> Ow_start_failed"
  shows "stages_ok (iocp_stop_step v)"
proof (cases "is_owner v")
  case Ow_snapshot
  then have v: "iocp_stop_step v = v\<lparr>is_owner := Ow_close (map fst (io_connections (is_shared v)))\<rparr>" and "stop_stage v = 3"
      "stop_stage (iocp_stop_step v) = 4"
    by (simp_all add: iocp_stop_step_def stop_stage_def)
  moreover have "umap_find (io_connections (is_shared v)) i \<noteq> None \<Longrightarrow> i \<in> fst ` set (io_connections (is_shared v))" for i
    using clients_listed [of "io_connections (is_shared v)" i] by simp
  ultimately show ?thesis
    using st unfolding stages_ok_def by simp
next
  case (Ow_close ids)
  have s4: "stop_stage v = 4" by (simp add: Ow_close stop_stage_def)
  show ?thesis
  proof (cases "is_owner_task v = T_end")
    case True
    have reg: "umap_find (io_connections (is_shared v)) i \<noteq> None \<Longrightarrow> i \<in> set ids" for i
      using st Ow_close True unfolding stages_ok_def by auto
    show ?thesis
    proof (cases ids)
      case Nil
      have "io_connections (is_shared v) = []"
      proof (rule empty_registry)
        show False if "umap_find (io_connections (is_shared v)) i \<noteq> None" for i
          using reg [OF that] Nil by simp
      qed
      moreover have "iocp_stop_step v = v\<lparr>is_owner := Ow_drain\<rparr>" "stop_stage (iocp_stop_step v) = 5"
        by (simp_all add: iocp_stop_step_def stop_stage_def Ow_close Nil True)
      ultimately show ?thesis
        using st s4 True unfolding stages_ok_def by simp
    next
      case (Cons j rest)
      have "iocp_stop_step v = v\<lparr>is_owner_task := Disc (D_enter j) T_end, is_owner := Ow_close rest\<rparr>"
          "stop_stage (iocp_stop_step v) = 4"
        by (simp_all add: iocp_stop_step_def stop_stage_def Ow_close Cons True)
      then show ?thesis
        using st s4 reg Cons unfolding stages_ok_def by auto
    qed
  next
    case False
    then show ?thesis using st Ow_close by (simp add: iocp_stop_step_def)
  qed
next
  case (Ow_wake n)
  then show ?thesis
    using st by (cases n) (simp_all add: iocp_stop_step_def stages_ok_def stop_stage_def)
qed (use st o in \<open>simp_all add: iocp_stop_step_def stages_ok_def stop_stage_def\<close>)

lemma ended_claims: "list_all (\<lambda>t. t = T_end) ts \<Longrightarrow> list_claims ts = {#}"
  by (induction ts) simp_all

lemma stop_step_frame:
  assumes "is_owner v \<noteq> Ow_start_failed" "kinds_ok v"
  shows "\<exists>w x. is_shared (iocp_stop_step v) = (is_shared v)\<lparr>io_running := io_running (is_shared v), io_wakes := w, io_info := x\<rparr>" (is ?E)
    and "server_claims (iocp_stop_step v) = server_claims v" and "kinds_ok (iocp_stop_step v)"
    and "is_accept (iocp_stop_step v) = is_accept v \<or> is_accept (iocp_stop_step v) = None"
proof -
  let ?v = "iocp_stop_step v" and ?s = "is_shared v"
  have same: ?E if "is_shared ?v = ?s"
    using that by (intro exI [of _ "io_wakes ?s"] exI [of _ "io_info ?s"]) simp
  show ?E
  proof (cases "is_owner v")
    case (Ow_wake n)
    show ?thesis
    proof (cases n)
      case (Suc m)
      then have "is_shared ?v = ?s\<lparr>io_wakes := io_wakes ?s + 1\<rparr>"
        by (simp add: iocp_stop_step_def Ow_wake)
      then show ?thesis by (intro exI [of _ "io_wakes ?s + 1"] exI [of _ "io_info ?s"]) simp
    qed (rule same, simp add: iocp_stop_step_def Ow_wake)
  next
    case Ow_join_workers
    then show ?thesis
      by (intro exI [of _ "io_wakes ?s"] exI [of _ "io_info (is_shared ?v)"]) (simp add: iocp_stop_step_def)
  next
    case (Ow_close ids)
    show ?thesis
      by (rule same) (simp add: iocp_stop_step_def Ow_close split: list.split)
  qed (rule same, use assms in \<open>simp add: iocp_stop_step_def\<close>)+
  show "server_claims ?v = server_claims v"
    using assms(1) ended_claims by (cases "is_owner v") (auto simp: iocp_stop_step_def server_claims_def split: list.splits nat.splits)
  show "kinds_ok ?v"
    using assms by (cases "is_owner v") (auto simp: iocp_stop_step_def kinds_ok_def split: list.splits nat.splits)
  show "is_accept ?v = is_accept v \<or> is_accept ?v = None"
    using assms(1) by (cases "is_owner v") (auto simp: iocp_stop_step_def split: list.splits nat.splits)
qed

lemma stop_step_inv:
  assumes inv: "iocp_inv v"
  shows "iocp_inv (iocp_stop_step v)"
proof (cases "is_owner v = Ow_start_failed")
  case True
  then show ?thesis using stop_call_inv [OF inv] by (simp add: iocp_stop_step_def)
next
  case False
  have k: "kinds_ok v" and st: "stages_ok v"
    using inv by (simp_all add: iocp_inv_def)
  note f = stop_step_frame [OF False k]
  obtain w x where "is_shared (iocp_stop_step v) = (is_shared v)\<lparr>io_running := io_running (is_shared v), io_wakes := w, io_info := x\<rparr>"
    using f(1) by blast
  then show ?thesis
    by (rule owner_move [OF inv _ f(2,3) stop_step_stages [OF st False] f(4)])
qed

lemma call_inv:
  assumes inv: "iocp_inv v" and t: "claims_of t = {#}" "kind_of t \<in> {K_caller, K_end}"
  shows "iocp_inv (v\<lparr>is_callers := t # is_callers v\<rparr>)"
  using inv t by (simp add: iocp_inv_def server_claims_def kinds_ok_def stages_ok_def stop_stage_def room_ok_def)

lemma calls_inv: "iocp_inv v \<Longrightarrow> iocp_inv (fst (call_send i data v))" "iocp_inv v \<Longrightarrow> iocp_inv (call_disconnect i v)"
  using call_inv [of v] by (auto simp: call_send_def call_disconnect_def split: option.splits)

lemma new_inv: "iocp_inv Server_iocp_new"
  by (simp add: iocp_inv_def Server_iocp_new_def Shared_new_def core_def server_claims_def armed_def owed_def conn_ok_def absent_ok_def
      ending_def starting_def registered_def sends_ok_def kinds_ok_def stages_ok_def stop_stage_def room_ok_def umap_size_def)

section \<open>Every step keeps the invariant\<close>

lemma runs_created:
  "io_created (is_shared v) \<le> io_created (is_shared (run_accept a v))"
  "io_created (is_shared v) \<le> io_created (is_shared (run_idle a v))"
  "io_created (is_shared v) \<le> io_created (is_shared (run_owner a v))"
  "io_created (is_shared v) \<le> io_created (is_shared (run_worker a k v))"
  "io_created (is_shared v) \<le> io_created (is_shared (run_caller a k v))"
proof -
  have le: "io_created (is_shared v) \<le> io_created s'" if "task_step a t (is_shared v) = (s', t')" for t s' t'
    using task_effect [OF that] by (auto simp: effect_def)
  show "io_created (is_shared v) \<le> io_created (is_shared (run_accept a v))"
    "io_created (is_shared v) \<le> io_created (is_shared (run_idle a v))"
    "io_created (is_shared v) \<le> io_created (is_shared (run_owner a v))"
    "io_created (is_shared v) \<le> io_created (is_shared (run_worker a k v))"
    "io_created (is_shared v) \<le> io_created (is_shared (run_caller a k v))"
    by (auto simp: run_accept_def run_idle_def run_owner_def run_worker_def run_caller_def split: option.splits prod.splits dest: le)
qed

lemma iocp_step_inv:
  "iocp_step v v' \<Longrightarrow> iocp_inv v \<Longrightarrow> io_created (is_shared v') + 1 < W64 \<Longrightarrow> iocp_inv v'"
  by (induction rule: iocp_step.induct)
    (simp_all add: start_inv stop_call_inv stop_step_inv run_owner_inv run_accept_inv run_idle_inv run_worker_inv run_caller_inv calls_inv)

lemma iocp_step_created: "iocp_step v v' \<Longrightarrow> io_created (is_shared v) \<le> io_created (is_shared v')"
proof (induction rule: iocp_step.induct)
  case (stopping v)
  then show ?case
    by (cases "is_owner v") (auto simp: iocp_stop_step_def iocp_stop_call_def split: list.splits nat.splits)
qed (auto simp: runs_created iocp_start_def iocp_stop_call_def call_send_def call_disconnect_def Let_def
    split: option.splits sum.splits prod.splits)

end
