(* ===== verification/Iocp_Properties.thy ===== *)
theory Iocp_Properties
  imports Iocp_Lifecycle
begin

text \<open>
  What the completion port backend promises for every interleaving of its threads: the callbacks of a
  connection are well formed, every operation is accounted for and none is left when the port closes, and
  the bytes of a connection leave in the order in which they were accepted.
\<close>

definition iocp_counted_inv :: "iocp_server \<Rightarrow> bool" where
  "iocp_counted_inv v \<longleftrightarrow> (io_created (is_shared v) + 1 < W64 \<longrightarrow> iocp_inv v)"

interpretation iocp: transition_system "\<lambda>v. v = Server_iocp_new" iocp_step iocp_counted_inv
proof
  show "iocp_counted_inv v" if "v = Server_iocp_new" for v
    using that new_inv by (simp add: iocp_counted_inv_def)
  show "iocp_counted_inv v'" if "iocp_counted_inv v" "iocp_step v v'" for v v'
    using that iocp_step_inv [of v v'] iocp_step_created [of v v'] by (simp add: iocp_counted_inv_def)
qed

lemma iocp_reached: "iocp.reaches v \<Longrightarrow> io_created (is_shared v) + 1 < W64 \<Longrightarrow> iocp_inv v"
  using iocp.reaches_inv by (simp add: iocp_counted_inv_def)

section \<open>Callbacks\<close>

lemma conn_ok_not_broken: "conn_ok C s i \<Longrightarrow> conn_phase_of (io_log s) i \<noteq> Cp_broken"
  by (auto simp: conn_ok_def absent_ok_def present_ok_def lifetime_def split: option.splits)

lemma conn_ok_quiet:
  assumes "conn_ok {#} s i" "io_connections s = []"
  shows "conn_phase_of (io_log s) i \<in> {Cp_fresh, Cp_closed}"
proof (cases "umap_find (io_objects s) i")
  case (Some c)
  then show ?thesis
    using assms by (cases "conn_phase_of (io_log s) i")
      (auto simp: conn_ok_def present_ok_def lifetime_def ending_def starting_def registered_def)
qed (use assms in \<open>simp add: conn_ok_def absent_ok_def\<close>)

lemma held_list: "count (ops_claims ops) Held = length ops"
  by (induction ops rule: rev_induct) simp_all

lemma stopped_claims:
  assumes inv: "iocp_inv v" and s: "stop_stage v = 8" "is_callers v = []"
  shows "server_claims v = {#}" "io_kernel (is_shared v) = []"
proof -
  have st: "is_accept v = None" "is_idle v = None" "is_workers v = []" "is_owner_task v = T_end" "io_pending_operations (is_shared v) = 0"
    using inv s(1) by (simp_all add: iocp_inv_def stages_ok_def)
  then show "server_claims v = {#}"
    using s(2) by (simp add: server_claims_def)
  have "owed (server_claims v) (is_shared v)"
    using inv by (simp add: iocp_inv_def core_def)
  then show "io_kernel (is_shared v) = []"
    using st by (simp add: owed_def held_list)
qed

text \<open>
  C20. The callbacks of the completion port backend. Whatever the threads, the callers and the system do, a
  connection is announced once, has its messages between its connect and its disconnect callback and is
  never reported twice; the registry stays within the configured number of connections; and when the
  server has stopped and no caller is inside it, every announced connection has had its disconnect callback.
\<close>

theorem iocp_callbacks_paired:
  assumes "iocp.reaches v" and "io_created (is_shared v) + 1 < W64"
  shows "conn_phase_of (io_log (is_shared v)) i \<noteq> Cp_broken
    \<and> umap_size (io_connections (is_shared v)) \<le> tc_max_connections (io_options (is_shared v))
    \<and> (is_owner v = Ow_idle \<and> \<not> io_running (is_shared v) \<and> is_callers v = [] \<longrightarrow>
         conn_phase_of (io_log (is_shared v)) i \<in> {Cp_fresh, Cp_closed} \<and> io_connections (is_shared v) = [])"
proof -
  have inv: "iocp_inv v" by (rule iocp_reached [OF assms])
  then have conn: "conn_ok (server_claims v + kernel_claims (is_shared v)) (is_shared v) i"
    by (simp add: iocp_inv_def core_def)
  have "conn_phase_of (io_log (is_shared v)) i \<in> {Cp_fresh, Cp_closed} \<and> io_connections (is_shared v) = []"
    if "is_owner v = Ow_idle" "\<not> io_running (is_shared v)" "is_callers v = []"
  proof -
    have s: "stop_stage v = 8" using that by (simp add: stop_stage_def)
    then have "io_connections (is_shared v) = []"
      using inv by (simp add: iocp_inv_def stages_ok_def)
    then show ?thesis
      using conn conn_ok_quiet [of "is_shared v" i] stopped_claims [OF inv s that(3)] by simp
  qed
  then show ?thesis
    using conn_ok_not_broken [OF conn] inv by (simp add: iocp_inv_def room_ok_def)
qed

section \<open>Operations\<close>

definition operations_held :: "task list \<Rightarrow> nat" where
  "operations_held ts = sum_list (map (\<lambda>t. count (claims_of t) Held) ts)"

lemma held_worker: "kind_of t \<noteq> K_worker \<Longrightarrow> count (claims_of t) Held = 0"
  by (induction t) simp_all

lemma held_others: "(\<And>t. t \<in> set ts \<Longrightarrow> kind_of t \<noteq> K_worker) \<Longrightarrow> count (list_claims ts) Held = 0"
  by (induction ts) (simp_all add: held_worker)

lemma held_workers: "count (list_claims ts) Held = operations_held ts"
  by (induction ts) (simp_all add: operations_held_def)

lemma held_server:
  assumes "kinds_ok v"
  shows "count (server_claims v) Held = operations_held (is_workers v)"
proof -
  have "count (option_claims (is_accept v)) Held = 0" "count (option_claims (is_idle v)) Held = 0"
    "count (list_claims (is_callers v)) Held = 0" "count (claims_of (is_owner_task v)) Held = 0"
    using assms by (auto simp: kinds_ok_def option_claims_def split: option.splits intro!: held_worker held_others)
  then show ?thesis by (simp add: server_claims_def held_workers)
qed

text \<open>
  C21. Operations and the completion port. The counter that the drain barrier waits on is the number of
  operations the system has plus those the workers hold. When stop has passed the barrier no operation is
  left anywhere, and none is started while it wakes and joins the workers; the port is closed only then.
\<close>

theorem iocp_operations_drained:
  assumes "iocp.reaches v" and "io_created (is_shared v) + 1 < W64"
  shows "io_pending_operations (is_shared v) = length (io_kernel (is_shared v)) + operations_held (is_workers v)
    \<and> (is_owner v = Ow_wake n \<or> is_owner v = Ow_join_workers \<longrightarrow> io_kernel (is_shared v) = [] \<and> operations_held (is_workers v) = 0)
    \<and> (\<not> is_port_open v \<longrightarrow> io_kernel (is_shared v) = [] \<and> is_workers v = [])"
proof -
  have inv: "iocp_inv v" by (rule iocp_reached [OF assms])
  then have kinds: "kinds_ok v" and owed: "owed (server_claims v) (is_shared v)" and st: "stages_ok v"
    by (simp_all add: iocp_inv_def core_def)
  have count: "io_pending_operations (is_shared v) = length (io_kernel (is_shared v)) + operations_held (is_workers v)"
    using owed by (simp add: owed_def held_list held_server [OF kinds])
  have "6 \<le> stop_stage v" if "is_owner v = Ow_wake n \<or> is_owner v = Ow_join_workers"
    using that by (auto simp: stop_stage_def)
  moreover have "8 \<le> stop_stage v" if "\<not> is_port_open v"
    using that st by (simp add: stages_ok_def)
  moreover have "6 \<le> stop_stage v \<Longrightarrow> io_pending_operations (is_shared v) = 0" "8 \<le> stop_stage v \<Longrightarrow> is_workers v = []"
    using st by (simp_all add: stages_ok_def)
  ultimately show ?thesis
    using count by auto
qed

section \<open>Sends\<close>

text \<open>
  C22. The order of sends. On every connection the bytes that the system reported as sent are a prefix of
  the accepted buffers joined in the order of acceptance, as long as no send was refused; and on an open
  connection with no send under way everything accepted has been sent and the queue is empty.
\<close>

theorem iocp_sends_in_order:
  assumes "iocp.reaches v" and "io_created (is_shared v) + 1 < W64"
    and "umap_find (io_objects (is_shared v)) i = Some c" and "\<not> ic_failed c"
  shows "(\<exists>rest. concat (ic_accepted c) = ic_wire c @ rest)
    \<and> (\<not> ic_closing c \<and> \<not> ic_send_in_progress c \<longrightarrow> ic_wire c = concat (ic_accepted c) \<and> ic_send_queue c = [])"
proof -
  have "sends_ok (server_claims v + kernel_claims (is_shared v)) (is_shared v) i"
    using iocp_reached [OF assms(1,2)] by (simp add: iocp_inv_def core_def)
  then have "drained_ok c" using assms(3) by (simp add: sends_ok_def)
  then show ?thesis using assms(4) unfolding drained_ok_def by blast
qed

section \<open>A run with one client\<close>

definition every_callback :: tcp_callbacks where
  "every_callback = \<lparr>has_accepting = True, has_connected = True, has_message = True, has_disconnected = True, has_error = True\<rparr>"

definition listen_ok :: listen_answer where
  "listen_ok = \<lparr>la_address_ok = True, la_socket = None, la_bind = None, la_listen = None, la_mode = None\<rparr>"

definition one_worker :: tcp_options where
  "one_worker = TcpServerOptions_default\<lparr>tc_worker_count := 1\<rparr>"

abbreviation "peer \<equiv> \<lparr>ep_address = ''127.0.0.1'', ep_port = 5000\<rparr>"

definition answer :: "(nat \<times> bool \<times> nat \<times> string) option \<Rightarrow> iocp_answer" where
  "answer c = \<lparr>ia_ready = 1, ia_error = [], ia_socket = Some peer, ia_would_block = False, ia_allowed = True, ia_associate = None,
     ia_submit = None, ia_now = 7, ia_completion = c\<rparr>"

definition port_listening :: iocp_server where
  "port_listening = fst (iocp_start None listen_ok None None one_worker every_callback Server_iocp_new)"

text \<open>The server with one client, by what changes in the run.\<close>

definition shared_at :: "bool \<Rightarrow> iocp_connection \<Rightarrow> (u64, unit) umap \<Rightarrow> operation list \<Rightarrow> nat \<Rightarrow> tcp_call list \<Rightarrow> iocp_shared" where
  "shared_at run c conns ops pending log =
     \<lparr>io_options = one_worker, io_callbacks = every_callback, io_running = run, io_next_id = 2, io_objects = [(1, c)],
      io_connections = conns, io_kernel = ops, io_pending_operations = pending, io_wakes = 0,
      io_info = io_info (is_shared port_listening), io_log = log, io_created = 1\<rparr>"

definition port_at :: "iocp_owner \<Rightarrow> task \<Rightarrow> task option \<Rightarrow> task option \<Rightarrow> task \<Rightarrow> task list \<Rightarrow> bool \<Rightarrow> iocp_shared \<Rightarrow> iocp_server" where
  "port_at owner t acc idl w callers l s =
     \<lparr>is_shared = s, is_accept = acc, is_idle = idl, is_workers = [w], is_callers = callers, is_owner = owner, is_owner_task = t,
      is_listening = l, is_port_open = True\<rparr>"

definition new_peer :: iocp_connection where
  "new_peer = \<lparr>ic_endpoint = peer, ic_closing = False, ic_last_activity = 7, ic_send_queue = [], ic_send_in_progress = False,
     ic_messages = LineFramer_new 65536, ic_active = 0, ic_pending = False, ic_accepted = [], ic_wire = [], ic_failed = False,
     ic_no_delay = True\<rparr>"

lemma port_listening_value: "port_listening =
    \<lparr>is_shared = \<lparr>io_options = one_worker, io_callbacks = every_callback, io_running = True, io_next_id = 1, io_objects = [],
       io_connections = [], io_kernel = [], io_pending_operations = 0, io_wakes = 0, io_info = io_info (is_shared port_listening),
       io_log = [], io_created = 0\<rparr>,
     is_accept = Some Ac_loop, is_idle = Some Id_loop, is_workers = [Wk_wait], is_callers = [], is_owner = Ow_idle,
     is_owner_task = T_end, is_listening = True, is_port_open = True\<rparr>"
  by (simp add: port_listening_def iocp_start_def listen_ok_def open_listener_iocp_def Server_iocp_new_def Shared_new_def one_worker_def
      TcpServerOptions_default_def Let_def)

lemmas run_defs = run_accept_def run_idle_def run_owner_def run_worker_def run_caller_def task_step_def port_at_def shared_at_def answer_def
  every_callback_def one_worker_def TcpServerOptions_default_def umap_find_def umap_emplace_def umap_size_def io_update_def io_call_def
  io_closing_def io_endpoint_def

abbreviation "go \<equiv> answer None"

definition port_accepted :: iocp_server where
  "port_accepted = fold run_accept [go, go, go, go, go, go, go, go, go, go, go, go, go] port_listening"

lemma port_accepted_value: "port_accepted =
    port_at Ow_idle T_end (Some Ac_loop) (Some Id_loop) Wk_wait [] True
      (shared_at True new_peer [(1, ())] [Op_receive 1] 1 [On_accepting 1 peer, On_connected 1 peer])"
  by (subst port_accepted_def, subst port_listening_value)
    (simp add: run_defs accept_step_iocp_def accept_socket_def leave_scope_def begin_callback_def end_callback_def Connection_new_def
      post_receive_def submit_op_def operation_started_def new_peer_def Let_def)

text \<open>A caller sends two bytes; the worker takes the completion of the whole send.\<close>

definition two_bytes :: buffer where
  "two_bytes = \<lparr>buf_bytes = [1, 2]\<rparr>"

definition port_sent :: iocp_server where
  "port_sent = run_worker go 0 (run_worker go 0 (run_worker go 0 (run_worker (answer (Some (1, True, 2, []))) 0
     (run_caller go 0 (fst (call_send 1 two_bytes port_accepted))))))"

abbreviation "sent_peer \<equiv> new_peer\<lparr>ic_accepted := [[1, 2]], ic_wire := [1, 2]\<rparr>"

lemmas worker_run_defs = worker_step_iocp_def worker_wait_def worker_dispatch_def complete_send_def post_next_send_def submit_op_def
  operation_started_def operation_finished_def

lemma port_sent_value: "port_sent =
    port_at Ow_idle T_end (Some Ac_loop) (Some Id_loop) Wk_wait [] True
      (shared_at True sent_peer [(1, ())] [Op_receive 1] 1 [On_accepting 1 peer, On_connected 1 peer])"
  by (simp add: port_sent_def port_accepted_value run_defs worker_run_defs caller_step_def call_send_def connection_send_def two_bytes_def
      new_peer_def Let_def)

text \<open>Stop: the accept thread and the idle monitor end, the connection is closed, the worker takes the cancelled receive.\<close>

definition port_closing :: iocp_server where
  "port_closing = iocp_stop_step (iocp_stop_step (iocp_stop_step (run_idle go (iocp_stop_step (run_accept go (iocp_stop_call port_sent))))))"

lemma port_closing_value: "port_closing =
    port_at (Ow_close []) (Disc (D_enter 1) T_end) None None Wk_wait [] False
      (shared_at False sent_peer [(1, ())] [Op_receive 1] 1 [On_accepting 1 peer, On_connected 1 peer])"
  by (simp add: port_closing_def port_sent_value run_defs accept_step_iocp_def idle_step_def iocp_stop_step_def iocp_stop_call_def)

definition port_drained :: iocp_server where
  "port_drained = iocp_stop_step (iocp_stop_step (run_worker go 0 (run_worker go 0 (run_worker go 0
     (run_worker (answer (Some (0, False, 0, []))) 0 (run_owner go (run_owner go (run_owner go port_closing))))))))"

lemma port_drained_value: "port_drained =
    port_at (Ow_wake 1) T_end None None Wk_wait [] False
      (shared_at False (sent_peer\<lparr>ic_closing := True\<rparr>) [] [] 0 [On_accepting 1 peer, On_connected 1 peer, On_disconnected 1 peer])"
  by (simp add: port_drained_def port_closing_value run_defs worker_run_defs iocp_stop_step_def disc_run_def disc_step_def conn_close_def
      request_disconnect_notification_def umap_erase_def new_peer_def)

definition port_stopped :: iocp_server where
  "port_stopped = iocp_stop_step (run_worker go 0 (iocp_stop_step (iocp_stop_step port_drained)))"

lemma port_stopped_value:
  "is_owner port_stopped = Ow_idle" "\<not> io_running (is_shared port_stopped)" "is_callers port_stopped = []" "\<not> is_port_open port_stopped"
  "io_created (is_shared port_stopped) = 1"
  "io_log (is_shared port_stopped) = [On_accepting 1 peer, On_connected 1 peer, On_disconnected 1 peer]"
  by (simp_all add: port_stopped_def port_drained_value run_defs worker_run_defs iocp_stop_step_def)

lemma iocp_moves:
  "iocp.reaches v \<Longrightarrow> iocp.reaches (run_accept a v)" "iocp.reaches v \<Longrightarrow> iocp.reaches (run_idle a v)"
  "iocp.reaches v \<Longrightarrow> iocp.reaches (run_owner a v)" "iocp.reaches v \<Longrightarrow> iocp.reaches (run_worker a k v)"
  "iocp.reaches v \<Longrightarrow> iocp.reaches (run_caller a k v)" "iocp.reaches v \<Longrightarrow> iocp.reaches (iocp_stop_step v)"
  "iocp.reaches v \<Longrightarrow> iocp.reaches (fst (call_send i data v))"
  by (auto intro: iocp.reaches.step iocp_step.accept iocp_step.idle iocp_step.owner iocp_step.worker iocp_step.caller
      iocp_step.stopping iocp_step.send)

lemma iocp_accepts: "iocp.reaches v \<Longrightarrow> iocp.reaches (fold run_accept answers v)"
  by (induction answers arbitrary: v) (auto intro: iocp_moves)

lemma iocp_samples: "iocp.reaches port_sent" "iocp.reaches port_drained" "iocp.reaches port_stopped"
proof -
  have "iocp.reaches port_listening"
    unfolding port_listening_def
    by (rule iocp.reaches.step [OF iocp.reaches.here [OF refl] iocp_step.start])
      (simp_all add: Server_iocp_new_def complete_def every_callback_def)
  then show sent: "iocp.reaches port_sent"
    unfolding port_sent_def port_accepted_def by (intro iocp_moves iocp_accepts)
  have "iocp.reaches (iocp_stop_call port_sent)"
    by (rule iocp.reaches.step [OF sent iocp_step.stop]) (simp add: port_sent_value port_at_def)
  then show "iocp.reaches port_drained"
    unfolding port_drained_def port_closing_def by (intro iocp_moves)
  then show "iocp.reaches port_stopped"
    unfolding port_stopped_def by (intro iocp_moves)
qed

theorem iocp_callbacks_paired_witness:
  "conn_phase_of (io_log (is_shared port_stopped)) 1 = Cp_closed \<and> io_connections (is_shared port_stopped) = []"
  using iocp_callbacks_paired [OF iocp_samples(3), of 1] port_stopped_value by (simp add: conn_phase_of_def conn_step_def)

theorem iocp_operations_drained_witness:
  "io_pending_operations (is_shared port_drained) = 0 \<and> io_kernel (is_shared port_drained) = [] \<and> operations_held (is_workers port_drained) = 0"
  using iocp_operations_drained [OF iocp_samples(2), of 1] by (simp add: port_drained_value port_at_def shared_at_def)

theorem iocp_sends_in_order_witness:
  "umap_find (io_objects (is_shared port_sent)) 1 = Some sent_peer \<and> ic_wire sent_peer = concat (ic_accepted sent_peer)
   \<and> ic_wire sent_peer = [1, 2]"
  using iocp_sends_in_order [OF iocp_samples(1), of 1 sent_peer]
  by (simp add: port_sent_value port_at_def shared_at_def umap_find_def new_peer_def)

end
