(* ===== verification/Redis_Transport.thy ===== *)
theory Redis_Transport
  imports Redis_Connection
begin

text \<open>
  The asynchronous half of \<^verbatim>\<open>data::redis::Connection::Impl\<close> (src/src/Data/Redis/Connection.cpp): the
  deadline, the cancellation, the guarded completion handlers and the event loop that runs them while
  \<^verbatim>\<open>connect\<close> or \<^verbatim>\<open>command\<close> waits in \<^verbatim>\<open>drain\<close>. The order in which Asio runs handlers is outside the
  repository: it is the list of events a run is given. Hiredis' parser is the argument \<open>parse\<close>.
\<close>

section \<open>State\<close>

datatype waiting = W_none | W_connect | W_write | W_read

record redis_io =
  ri_cancelled :: bool
  ri_finished :: bool
  ri_status :: se_status
  ri_open :: bool
  ri_timer :: bool
  ri_posted :: nat
  ri_waiting :: waiting
  ri_reader :: reply_reader
  ri_reply :: "redis_reply option"

text \<open>
  What \<^verbatim>\<open>redisReaderFeed\<close> and \<^verbatim>\<open>redisReaderGetReply\<close> make of all the bytes fed so far: an error, a reply
  that is not complete, or a reply and whether bytes are left behind it.
\<close>

datatype parse_result = Parse_error | Parse_more | Parse_reply redis_reply bool

text \<open>The completion of the outstanding socket operation: an error, a handler that throws, or success.\<close>

datatype op_result = Op_error | Op_throws | Op_done string

text \<open>
  What happens while the loop runs: another thread calls \<^verbatim>\<open>cancel\<close> (and its \<^verbatim>\<open>post\<close> succeeds or not), a
  posted handler runs, the timer's handler runs (an aborted wait is reported only after \<^verbatim>\<open>finish\<close>,
  where the guard ignores it), the outstanding operation completes.
\<close>

datatype io_event = Ev_cancel bool | Ev_posted | Ev_timer | Ev_op op_result

definition redis_io_new :: redis_io where
  "redis_io_new =
     \<lparr>ri_cancelled = False, ri_finished = True, ri_status = SE_OK, ri_open = False, ri_timer = False,
      ri_posted = 0, ri_waiting = W_none, ri_reader = reader_new 0, ri_reply = None\<rparr>"

section \<open>Operations\<close>

definition redis_cancel :: "bool \<Rightarrow> redis_io \<Rightarrow> redis_io" where
  "redis_cancel post_succeeds st =
     st\<lparr>ri_cancelled := True, ri_posted := (if post_succeeds then Suc (ri_posted st) else ri_posted st)\<rparr>"

definition io_close :: "redis_io \<Rightarrow> redis_io" where
  "io_close st = st\<lparr>ri_open := False\<rparr>"

definition io_finish :: "se_status \<Rightarrow> redis_io \<Rightarrow> redis_io" where
  "io_finish status st =
     (if ri_finished st then st
      else
        (let st1 = st\<lparr>ri_finished := True, ri_status := status\<rparr> in
         if status \<noteq> SE_OK then io_close st1 else st1))"

text \<open>\<open>armed\<close> is false when the wait for the timer could not be started, which throws.\<close>

definition io_begin :: "bool \<Rightarrow> redis_io \<Rightarrow> redis_io" where
  "io_begin armed st = st\<lparr>ri_finished := False, ri_status := SE_OK, ri_timer := armed\<rparr>"

text \<open>A completed read: the checks, then the parser, then either the reply or the next read.\<close>

definition on_reply_bytes :: "(string \<Rightarrow> parse_result) \<Rightarrow> string \<Rightarrow> redis_io \<Rightarrow> redis_io" where
  "on_reply_bytes parse chunk st =
     (case read_chunk chunk (ri_reader st) of
        Inr status \<Rightarrow> io_finish status st
      | Inl reader \<Rightarrow>
          (let st1 = st\<lparr>ri_reader := reader\<rparr> in
           case parse (rp_fed reader) of
             Parse_error \<Rightarrow> io_finish SE_IO_ERROR st1
           | Parse_more \<Rightarrow> st1\<lparr>ri_waiting := W_read\<rparr>
           | Parse_reply r trailing \<Rightarrow>
               (if trailing then io_finish SE_IO_ERROR (st1\<lparr>ri_reply := Some r\<rparr>)
                else io_finish SE_OK (st1\<lparr>ri_reply := Some r\<rparr>))))"

text \<open>The handler of each operation, without its guard.\<close>

definition io_handler :: "(string \<Rightarrow> parse_result) \<Rightarrow> waiting \<Rightarrow> op_result \<Rightarrow> redis_io \<Rightarrow> redis_io" where
  "io_handler parse operation result st =
     (case result of
        Op_error \<Rightarrow> io_finish SE_IO_ERROR st
      | Op_throws \<Rightarrow> io_finish SE_INTERNAL_ERROR st
      | Op_done chunk \<Rightarrow>
          (case operation of
             W_none \<Rightarrow> st
           | W_connect \<Rightarrow> io_finish SE_OK st
           | W_write \<Rightarrow> st\<lparr>ri_waiting := W_read\<rparr>
           | W_read \<Rightarrow> on_reply_bytes parse chunk st))"

definition guarded :: "(redis_io \<Rightarrow> redis_io) \<Rightarrow> redis_io \<Rightarrow> redis_io" where
  "guarded handler st = (if ri_finished st then st else handler st)"

definition io_event :: "(string \<Rightarrow> parse_result) \<Rightarrow> io_event \<Rightarrow> redis_io \<Rightarrow> redis_io" where
  "io_event parse e st =
     (case e of
        Ev_cancel post_succeeds \<Rightarrow> redis_cancel post_succeeds st
      | Ev_posted \<Rightarrow>
          (if ri_posted st = 0 then st
           else io_close (io_finish SE_STOPPED (st\<lparr>ri_posted := ri_posted st - 1\<rparr>)))
      | Ev_timer \<Rightarrow>
          (if ri_timer st then guarded (io_finish SE_TIMEOUT) (st\<lparr>ri_timer := False\<rparr>) else st)
      | Ev_op result \<Rightarrow>
          (if ri_waiting st = W_none then st
           else guarded (io_handler parse (ri_waiting st) result) (st\<lparr>ri_waiting := W_none\<rparr>)))"

text \<open>\<^verbatim>\<open>io_.run\<close> returns when no handler is outstanding.\<close>

definition io_idle :: "redis_io \<Rightarrow> bool" where
  "io_idle st \<longleftrightarrow> ri_waiting st = W_none \<and> \<not> ri_timer st \<and> ri_posted st = 0"

definition io_drain :: "(string \<Rightarrow> parse_result) \<Rightarrow> io_event list \<Rightarrow> redis_io \<Rightarrow> redis_io" where
  "io_drain parse events st = fold (io_event parse) events st"

text \<open>
  \<open>throws\<close>: the call throws after \<^verbatim>\<open>begin\<close> has set its flags, with the timer armed or not. The result is
  \<open>None\<close> when the call throws.
\<close>

definition io_connect ::
  "(string \<Rightarrow> parse_result) \<Rightarrow> bool option \<Rightarrow> io_event list \<Rightarrow> redis_io \<Rightarrow> redis_io \<times> se_status option" where
  "io_connect parse throws events st =
     (case throws of
        Some armed \<Rightarrow> (io_begin armed st, None)
      | None \<Rightarrow>
          (let st1 = io_drain parse events (io_begin True st\<lparr>ri_open := True, ri_waiting := W_connect\<rparr>) in
           if ri_cancelled st1 then (io_close st1, Some SE_STOPPED) else (st1, Some (ri_status st1))))"

text \<open>Whether the local part of a command succeeds, fails without an exception, or throws before or after its reset.\<close>

datatype local_part = Local_ok | Local_fails | Local_throws | Local_throws_begun bool

definition io_command_begun :: "nat \<Rightarrow> bool \<Rightarrow> redis_io \<Rightarrow> redis_io" where
  "io_command_begun maximum_reply armed st =
     io_begin armed (st\<lparr>ri_reader := reader_new maximum_reply, ri_reply := None\<rparr>)"

definition io_command ::
  "(string \<Rightarrow> parse_result) \<Rightarrow> local_part \<Rightarrow> nat \<Rightarrow> io_event list \<Rightarrow> redis_io \<Rightarrow> redis_io \<times> se_status option" where
  "io_command parse local maximum_reply events st =
     (if ri_cancelled st then (st, Some SE_STOPPED)
      else
        (case local of
           Local_fails \<Rightarrow> (st, Some SE_INTERNAL_ERROR)
         | Local_throws \<Rightarrow> (st, None)
         | Local_throws_begun armed \<Rightarrow> (io_command_begun maximum_reply armed st, None)
         | Local_ok \<Rightarrow>
             (let st1 = io_drain parse events (io_command_begun maximum_reply True st\<lparr>ri_waiting := W_write\<rparr>)
              in (st1, Some (ri_status st1)))))"

text \<open>The catch of \<^verbatim>\<open>execute\<close>.\<close>

definition io_caught :: "(string \<Rightarrow> parse_result) \<Rightarrow> io_event list \<Rightarrow> redis_io \<Rightarrow> redis_io" where
  "io_caught parse events st = io_drain parse events (io_close (io_finish SE_INTERNAL_ERROR st))"

section \<open>Finishing once\<close>

lemmas io_defs = io_event_def redis_cancel_def io_close_def io_finish_def guarded_def

text \<open>Once finished, a run keeps its status, its reply and its reader, and no handler opens the socket.\<close>

lemma io_event_finished:
  "ri_finished st \<Longrightarrow> ri_finished (io_event parse e st) \<and> ri_status (io_event parse e st) = ri_status st
     \<and> ri_reply (io_event parse e st) = ri_reply st \<and> ri_reader (io_event parse e st) = ri_reader st"
  by (cases e) (simp_all add: io_defs Let_def)

lemma io_handler_open: "ri_open (io_handler parse w r st) \<Longrightarrow> ri_open st"
  by (cases r; cases w) (auto simp: io_handler_def on_reply_bytes_def io_defs Let_def
      split: sum.splits parse_result.splits if_splits)

lemma io_event_open: "ri_open (io_event parse e st) \<Longrightarrow> ri_open st"
  by (cases e) (auto simp: io_defs Let_def dest!: io_handler_open split: if_splits)

lemma io_handler_posted: "ri_posted (io_handler parse w r st) = ri_posted st"
  by (cases r; cases w) (auto simp: io_handler_def on_reply_bytes_def io_defs Let_def
      split: sum.splits parse_result.splits if_splits)

lemma io_drain_append: "io_drain parse (xs @ ys) st = io_drain parse ys (io_drain parse xs st)"
  by (simp add: io_drain_def)

lemma io_drain_snoc: "io_drain parse (es @ [e]) st = io_event parse e (io_drain parse es st)"
  by (simp add: io_drain_def)

lemma io_drain_finished:
  "ri_finished st \<Longrightarrow> ri_finished (io_drain parse es st) \<and> ri_status (io_drain parse es st) = ri_status st"
  by (induction es arbitrary: st) (simp_all add: io_drain_def io_event_finished)

text \<open>A cancellation that could be posted closes the socket by the time the loop is idle.\<close>

lemma io_event_cancelled:
  "ri_posted st > 0 \<or> \<not> ri_open st \<Longrightarrow> ri_posted (io_event parse e st) > 0 \<or> \<not> ri_open (io_event parse e st)"
  using io_event_open [of parse e st]
  by (cases e) (auto simp: io_defs io_handler_posted Let_def split: if_splits)

lemma io_drain_cancelled:
  "Ev_cancel True \<in> set es \<or> ri_posted st > 0 \<or> \<not> ri_open st \<Longrightarrow>
     ri_posted (io_drain parse es st) > 0 \<or> \<not> ri_open (io_drain parse es st)"
proof (induction es arbitrary: st)
  case (Cons e es)
  have "Ev_cancel True \<in> set es \<or> ri_posted (io_event parse e st) > 0 \<or> \<not> ri_open (io_event parse e st)"
  proof (cases "e = Ev_cancel True")
    case True
    then show ?thesis by (simp add: io_defs)
  next
    case False
    then show ?thesis
      using Cons.prems io_event_cancelled [of st parse e] by auto
  qed
  then show ?case
    using Cons.IH by (simp add: io_drain_def)
qed (simp add: io_drain_def)

section \<open>The invariant of a command\<close>

fun op_chunks :: "io_event list \<Rightarrow> string list" where
  "op_chunks [] = []"
| "op_chunks (Ev_op (Op_done c) # es) = c # op_chunks es"
| "op_chunks (_ # es) = op_chunks es"

lemma op_chunks_append: "op_chunks (xs @ ys) = op_chunks xs @ op_chunks ys"
  by (induction xs rule: op_chunks.induct) simp_all

lemma read_chunks_snoc:
  "read_chunks (cs @ [c]) rd = (case read_chunks cs rd of Inr st \<Rightarrow> Inr st | Inl rd' \<Rightarrow> read_chunk c rd')"
  by (induction cs arbitrary: rd) (simp_all split: sum.split)

definition command_waits :: "nat \<Rightarrow> io_event list \<Rightarrow> redis_io \<Rightarrow> bool" where
  "command_waits m es st \<longleftrightarrow> ri_timer st
     \<and> (ri_waiting st = W_write \<and> op_chunks es = [] \<and> ri_reader st = reader_new m
        \<or> ri_waiting st = W_read \<and> (\<exists>w cs. op_chunks es = w # cs \<and> read_chunks cs (reader_new m) = Inl (ri_reader st)))"

definition command_answered :: "(string \<Rightarrow> parse_result) \<Rightarrow> nat \<Rightarrow> io_event list \<Rightarrow> redis_io \<Rightarrow> bool" where
  "command_answered parse m es st \<longleftrightarrow>
     (\<exists>w cs rest r. op_chunks es = w # cs @ rest \<and> read_chunks cs (reader_new m) = Inl (ri_reader st)
        \<and> parse (rp_fed (ri_reader st)) = Parse_reply r False \<and> ri_reply st = Some r)"

definition command_inv :: "(string \<Rightarrow> parse_result) \<Rightarrow> nat \<Rightarrow> io_event list \<Rightarrow> redis_io \<Rightarrow> bool" where
  "command_inv parse m es st \<longleftrightarrow>
     (if \<not> ri_finished st then command_waits m es st
      else if ri_status st = SE_OK then command_answered parse m es st
      else \<not> ri_open st)"

lemma command_answered_snoc: "command_answered parse m es st \<Longrightarrow>
    ri_reader st' = ri_reader st \<Longrightarrow> ri_reply st' = ri_reply st \<Longrightarrow> command_answered parse m (es @ [e]) st'"
  by (fastforce simp: command_answered_def op_chunks_append)

lemma command_inv_finished:
  "command_inv parse m es st \<Longrightarrow> ri_finished st \<Longrightarrow> command_inv parse m (es @ [e]) (io_event parse e st)"
  using io_event_finished [of st parse e] io_event_open [of parse e st]
  by (auto simp: command_inv_def intro: command_answered_snoc split: if_splits)

lemma command_inv_failed: "status \<noteq> SE_OK \<Longrightarrow> \<not> ri_finished st \<Longrightarrow> command_inv parse m es (io_finish status st)"
  by (simp add: command_inv_def io_finish_def io_close_def Let_def)

lemma read_chunk_refusal: "read_chunk c rd = Inr st \<Longrightarrow> st \<noteq> SE_OK"
proof -
  have bulk: "bulk_check l h = Inr s \<Longrightarrow> s \<noteq> SE_OK" for l h s
    by (auto simp: bulk_check_def split: option.splits if_splits)
  have "check_header l h cs = Inr st \<Longrightarrow> st \<noteq> SE_OK" for l h cs
    by (induction l h cs rule: check_header.induct) (auto simp: Let_def dest: bulk split: if_splits sum.splits)
  then show "read_chunk c rd = Inr st \<Longrightarrow> st \<noteq> SE_OK"
    by (auto simp: read_chunk_def Let_def split: if_splits sum.splits)
qed

lemma command_inv_read:
  assumes chunks: "op_chunks es = w # cs @ [c]" "read_chunks cs (reader_new m) = Inl (ri_reader st)"
    and open_run: "\<not> ri_finished st" "ri_timer st"
  shows "command_inv parse m es (on_reply_bytes parse c st)"
proof (cases "read_chunk c (ri_reader st)")
  case (Inr status)
  then show ?thesis
    using open_run read_chunk_refusal [OF Inr] command_inv_failed by (simp add: on_reply_bytes_def)
next
  case (Inl rd)
  then have fed: "read_chunks (cs @ [c]) (reader_new m) = Inl rd"
    using chunks by (simp add: read_chunks_snoc)
  show ?thesis
  proof (cases "parse (rp_fed rd)")
    case Parse_error
    then show ?thesis
      using Inl open_run command_inv_failed by (simp add: on_reply_bytes_def)
  next
    case Parse_more
    then show ?thesis
      using Inl open_run fed chunks by (simp add: on_reply_bytes_def command_inv_def command_waits_def)
  next
    case (Parse_reply r trailing)
    then show ?thesis
      using Inl open_run fed chunks command_inv_failed
      by (cases trailing) (simp add: on_reply_bytes_def,
          auto simp: on_reply_bytes_def command_inv_def command_answered_def io_finish_def)
  qed
qed

lemma command_inv_step:
  assumes "command_inv parse m es st" and "\<not> ri_finished st"
  shows "command_inv parse m (es @ [e]) (io_event parse e st)"
proof -
  have waits: "command_waits m es st"
    using assms by (simp add: command_inv_def)
  show ?thesis
  proof (cases e)
    case (Ev_cancel b)
    then show ?thesis
      using assms waits by (simp add: command_inv_def command_waits_def io_event_def redis_cancel_def op_chunks_append)
  next
    case Ev_posted
    then show ?thesis
      using assms waits by (auto simp: command_inv_def command_waits_def io_defs op_chunks_append)
  next
    case Ev_timer
    then show ?thesis
      using assms waits command_inv_failed by (simp add: command_waits_def io_event_def guarded_def)
  next
    case (Ev_op result)
    then have run: "io_event parse e st = io_handler parse (ri_waiting st) result (st\<lparr>ri_waiting := W_none\<rparr>)"
      using assms waits by (auto simp: command_waits_def io_event_def guarded_def)
    show ?thesis
    proof (cases result)
      case (Op_done c)
      then have chunk: "op_chunks (es @ [e]) = op_chunks es @ [c]"
        using Ev_op by (simp add: op_chunks_append)
      from waits consider "ri_waiting st = W_write" "op_chunks es = []" "ri_reader st = reader_new m"
        | w cs where "ri_waiting st = W_read" "op_chunks es = w # cs" "read_chunks cs (reader_new m) = Inl (ri_reader st)"
        by (auto simp: command_waits_def)
      then show ?thesis
      proof cases
        case 1
        then show ?thesis
          using assms waits chunk Op_done by (simp add: run io_handler_def command_inv_def command_waits_def)
      next
        case (2 w cs)
        then show ?thesis
          using assms waits chunk Op_done command_inv_read [of "es @ [e]" w cs c m "st\<lparr>ri_waiting := W_none\<rparr>" parse]
          by (simp add: run io_handler_def command_waits_def)
      qed
    qed (use assms command_inv_failed run in \<open>simp_all add: io_handler_def\<close>)
  qed
qed

lemma command_inv_drain:
  "command_inv parse m es (io_drain parse es (io_command_begun m True st\<lparr>ri_waiting := W_write\<rparr>))"
proof (induction es rule: rev_induct)
  case Nil
  then show ?case
    by (simp add: io_drain_def io_command_begun_def io_begin_def command_inv_def command_waits_def)
next
  case (snoc e es)
  then show ?case
    unfolding io_drain_snoc using command_inv_step command_inv_finished by blast
qed

section \<open>Outcome of a command\<close>

text \<open>
  C29. When the event loop of a Redis command runs dry, the command has an outcome. Success means that
  hiredis read one complete reply, with nothing behind it, from bytes that passed the size checks and
  that the socket delivered in that order after the command was written; any other status leaves the
  socket closed, and so does a cancellation that could be posted. The deadline is for the whole
  command: if the timer fires before the outcome, then the status is \<^verbatim>\<open>SE_TIMEOUT\<close> whatever
  completes afterwards.
\<close>

theorem redis_command_outcome:
  assumes "\<not> ri_cancelled st" and "io_command parse Local_ok m events st = (st', Some status)" and "io_idle st'"
  shows "ri_finished st'
    \<and> (status = SE_OK \<longrightarrow>
        (\<exists>w cs rest r. op_chunks events = w # cs @ rest \<and> read_chunks cs (reader_new m) = Inl (ri_reader st')
          \<and> parse (rp_fed (ri_reader st')) = Parse_reply r False \<and> ri_reply st' = Some r))
    \<and> (status \<noteq> SE_OK \<or> Ev_cancel True \<in> set events \<longrightarrow> \<not> ri_open st')
    \<and> (\<forall>pre post. events = pre @ Ev_timer # post
          \<and> \<not> ri_finished (fst (io_command parse Local_ok m pre st)) \<longrightarrow> status = SE_TIMEOUT)"
proof -
  define begun where "begun = io_command_begun m True st\<lparr>ri_waiting := W_write\<rparr>"
  have run: "io_command parse Local_ok m es st = (io_drain parse es begun, Some (ri_status (io_drain parse es begun)))" for es
    using assms(1) by (simp add: io_command_def begun_def Let_def)
  have inv: "command_inv parse m es (io_drain parse es begun)" for es
    by (simp add: begun_def command_inv_drain)
  have res: "st' = io_drain parse events begun" "status = ri_status st'"
    using assms(2) by (auto simp: run)
  have fin: "ri_finished st'"
    using inv [of events] assms(3) by (auto simp: res(1) command_inv_def command_waits_def io_idle_def split: if_splits)
  have "status = SE_TIMEOUT" if late: "events = pre @ Ev_timer # post" "\<not> ri_finished (io_drain parse pre begun)" for pre post
  proof -
    let ?at = "io_event parse Ev_timer (io_drain parse pre begun)"
    have "ri_finished ?at \<and> ri_status ?at = SE_TIMEOUT"
      using late(2) inv [of pre] by (simp add: command_inv_def command_waits_def io_defs Let_def)
    moreover have "st' = io_drain parse post ?at"
      using late(1) by (simp add: res(1) io_drain_append) (simp add: io_drain_def)
    ultimately show ?thesis
      using io_drain_finished [of ?at parse post] by (simp add: res(2))
  qed
  then show ?thesis
    using fin inv [of events] io_drain_cancelled [of events begun parse] assms(3)
    by (auto simp: run res command_inv_def command_answered_def io_idle_def)
qed

definition sample_parse :: "string \<Rightarrow> parse_result" where
  "sample_parse s =
     (if s = ''+OK'' @ [CR, LF] then Parse_reply (Reply_status ''OK'') False
      else if length s < 5 then Parse_more else Parse_error)"

theorem redis_command_outcome_witness:
  "snd (io_command sample_parse Local_ok 4096
      [Ev_op (Op_done []), Ev_op (Op_done ''+O''), Ev_op (Op_done (''K'' @ [CR, LF])), Ev_timer] redis_io_new) = Some SE_OK
   \<and> snd (io_command sample_parse Local_ok 4096
      [Ev_op (Op_done []), Ev_op (Op_done ''+O''), Ev_timer, Ev_op (Op_done (''K'' @ [CR, LF]))] redis_io_new) = Some SE_TIMEOUT"
proof -
  let ?ok = "[Ev_op (Op_done []), Ev_op (Op_done ''+O''), Ev_op (Op_done (''K'' @ [CR, LF])), Ev_timer]"
  let ?late = "[Ev_op (Op_done []), Ev_op (Op_done ''+O''), Ev_timer, Ev_op (Op_done (''K'' @ [CR, LF]))]"
  note eval = io_command_def io_command_begun_def io_begin_def io_drain_def io_defs io_handler_def on_reply_bytes_def
    read_chunk_def reader_new_def reply_start_ok_def sample_parse_def redis_io_new_def bulk_check_def io_idle_def Let_def
  have idle: "io_idle (fst (io_command sample_parse Local_ok 4096 ?late redis_io_new))"
    and waits: "\<not> ri_finished (fst (io_command sample_parse Local_ok 4096 (take 2 ?late) redis_io_new))"
    and fresh: "\<not> ri_cancelled redis_io_new"
    by (simp_all add: eval)
  obtain st status where run: "io_command sample_parse Local_ok 4096 ?late redis_io_new = (st, Some status)"
    by (simp add: eval)
  have "?late = take 2 ?late @ Ev_timer # drop 3 ?late"
    by simp
  then have "status = SE_TIMEOUT"
    using redis_command_outcome [OF fresh run] idle waits run by (metis fst_conv)
  moreover have "snd (io_command sample_parse Local_ok 4096 ?ok redis_io_new) = Some SE_OK"
    by (simp add: eval)
  ultimately show ?thesis
    by (simp only: run snd_conv)
qed

end
