(* ===== verification/Tls_Context.thy ===== *)
theory Tls_Context
  imports Net_Types
begin

text \<open>
  \<^verbatim>\<open>make_tls_context\<close> (src/src/Net/Async/TlsContext.cpp): the checks between a listener's configuration and
  the TLS context that its connections share. OpenSSL and the file system are outside the repository:
  what they answer is a value of \<open>tls_library\<close>, and a function from paths to \<open>pem_source\<close>. An exception
  is a value of \<open>tls_throw\<close>.
\<close>

section \<open>Files\<close>

datatype tls_throw = Throw_filesystem | Throw_other

text \<open>\<open>Pem_file n content\<close>: the size at opening and the bytes that can be read.\<close>

datatype pem_source = Pem_throws tls_throw | Pem_absent | Pem_file int string

definition max_pem_file_bytes :: int where
  "max_pem_file_bytes = 1024 * 1024"

definition read_pem_file :: "(string \<Rightarrow> pem_source) \<Rightarrow> string \<Rightarrow> tls_throw + string option" where
  "read_pem_file files path =
     (if path = [] \<or> CHR 0x00 \<in> set path then Inr None
      else
        (case files path of
           Pem_throws x \<Rightarrow> Inl x
         | Pem_absent \<Rightarrow> Inr None
         | Pem_file n content \<Rightarrow>
             if n \<le> 0 \<or> n > max_pem_file_bytes then Inr None
             else if int (length content) < n then Inr None
             else Inr (Some (take (nat n) content))))"

section \<open>The library and the context\<close>

record tls_library =
  tl_context :: "tls_throw option"
  tl_min_version :: "nat \<Rightarrow> bool"
  tl_max_version :: "nat \<Rightarrow> bool"
  tl_groups :: "string \<Rightarrow> bool"
  tl_ciphersuites :: "string \<Rightarrow> bool"
  tl_early_data :: "nat \<Rightarrow> bool"
  tl_chain :: "string \<Rightarrow> bool"
  tl_key :: "string \<Rightarrow> bool"
  tl_matches :: "string \<Rightarrow> string \<Rightarrow> bool"
  tl_key_type :: "string \<Rightarrow> string option"
  tl_key_bits :: "string \<Rightarrow> int"

record tls_context =
  tx_min_version :: "nat option"
  tx_max_version :: "nat option"
  tx_groups :: string
  tx_ciphersuites :: string
  tx_early_data :: "nat option"
  tx_compression :: bool
  tx_prompts :: bool
  tx_chain :: string
  tx_key :: string

definition TLS1_3_VERSION :: nat where
  "TLS1_3_VERSION = 0x0304"

definition context_new :: tls_context where
  "context_new = \<lparr>tx_min_version = None, tx_max_version = None, tx_groups = [], tx_ciphersuites = [], tx_early_data = None,
     tx_compression = True, tx_prompts = True, tx_chain = [], tx_key = []\<rparr>"

text \<open>Every call that succeeds leaves its setting in the context.\<close>

definition configure_tls_policy :: "tls_library \<Rightarrow> tls_context \<Rightarrow> tls_context option" where
  "configure_tls_policy lib c =
     (if \<not> tl_min_version lib TLS1_3_VERSION then None
      else if \<not> tl_max_version lib TLS1_3_VERSION then None
      else if \<not> tl_groups lib ''P-256:P-384'' then None
      else if \<not> tl_ciphersuites lib ''TLS_AES_256_GCM_SHA384:TLS_CHACHA20_POLY1305_SHA256:TLS_AES_128_GCM_SHA256'' then None
      else if \<not> tl_early_data lib 0 then None
      else Some (c\<lparr>tx_min_version := Some TLS1_3_VERSION, tx_max_version := Some TLS1_3_VERSION, tx_groups := ''P-256:P-384'',
             tx_ciphersuites := ''TLS_AES_256_GCM_SHA384:TLS_CHACHA20_POLY1305_SHA256:TLS_AES_128_GCM_SHA256'',
             tx_early_data := Some 0, tx_compression := False\<rparr>))"

definition load_identity :: "tls_library \<Rightarrow> string \<Rightarrow> string \<Rightarrow> tls_context \<Rightarrow> string + tls_context" where
  "load_identity lib chain key c =
     (if \<not> tl_chain lib chain then Inl ''TLS certificate chain is not valid PEM.''
      else if \<not> tl_key lib key \<or> \<not> tl_matches lib chain key
        then Inl ''TLS private key must be unencrypted PEM matching the certificate.''
      else if tl_key_type lib key \<noteq> Some ''EC'' \<or> tl_key_bits lib key < 256
        then Inl ''TLS requires an EC server certificate of at least 256 bits.''
      else Inr (c\<lparr>tx_chain := chain, tx_key := key\<rparr>))"

definition build_context :: "tls_library \<Rightarrow> string \<Rightarrow> string \<Rightarrow> tls_throw + (string + tls_context)" where
  "build_context lib chain key =
     (case tl_context lib of
        Some x \<Rightarrow> Inl x
      | None \<Rightarrow>
          (case configure_tls_policy lib context_new of
             None \<Rightarrow> Inr (Inl ''TLS 1.3 ECC/AEAD policy could not be configured.'')
           | Some c \<Rightarrow> Inr (load_identity lib chain key (c\<lparr>tx_prompts := False\<rparr>))))"

definition load_context :: "tls_library \<Rightarrow> (string \<Rightarrow> pem_source) \<Rightarrow> listener_config \<Rightarrow> tls_throw + (string + tls_context)" where
  "load_context lib files config =
     (case read_pem_file files (lc_certificate_chain_file config) of
        Inl x \<Rightarrow> Inl x
      | Inr None \<Rightarrow> Inr (Inl ''TLS certificate chain file is unreadable, empty, or exceeds 1 MiB.'')
      | Inr (Some chain) \<Rightarrow>
          (case read_pem_file files (lc_private_key_file config) of
             Inl x \<Rightarrow> Inl x
           | Inr None \<Rightarrow> Inr (Inl ''TLS private key file is unreadable, empty, or exceeds 1 MiB.'')
           | Inr (Some key) \<Rightarrow> build_context lib chain key))"

definition make_tls_context :: "tls_library \<Rightarrow> (string \<Rightarrow> pem_source) \<Rightarrow> listener_config \<Rightarrow> string + tls_context" where
  "make_tls_context lib files config =
     (if lc_security config \<noteq> Sec_Tls \<or> (lc_protocol config \<noteq> PTcp \<and> lc_protocol config \<noteq> PWebSocket \<and> lc_protocol config \<noteq> PHttp)
      then Inl ''TLS requires a TCP, WebSocket or HTTP listener.''
      else
        (case load_context lib files config of
           Inl Throw_filesystem \<Rightarrow> Inl ''TLS PEM path is not valid UTF-8 or cannot be accessed.''
         | Inl Throw_other \<Rightarrow> Inl ''TLS context initialization failed.''
         | Inr r \<Rightarrow> r))"

section \<open>The diagnostics and the policy\<close>

definition tls_diagnostics :: "string list" where
  "tls_diagnostics =
     [''TLS requires a TCP, WebSocket or HTTP listener.'',
      ''TLS certificate chain file is unreadable, empty, or exceeds 1 MiB.'',
      ''TLS private key file is unreadable, empty, or exceeds 1 MiB.'',
      ''TLS 1.3 ECC/AEAD policy could not be configured.'',
      ''TLS certificate chain is not valid PEM.'',
      ''TLS private key must be unencrypted PEM matching the certificate.'',
      ''TLS requires an EC server certificate of at least 256 bits.'',
      ''TLS PEM path is not valid UTF-8 or cannot be accessed.'',
      ''TLS context initialization failed.'']"

definition strict_policy :: "tls_context \<Rightarrow> bool" where
  "strict_policy c \<longleftrightarrow> tx_min_version c = Some TLS1_3_VERSION \<and> tx_max_version c = Some TLS1_3_VERSION
     \<and> tx_early_data c = Some 0 \<and> \<not> tx_compression c \<and> \<not> tx_prompts c"

lemma read_pem_bounds:
  "read_pem_file files path = Inr (Some bytes) \<Longrightarrow> path \<noteq> [] \<and> CHR 0x00 \<notin> set path \<and> 0 < length bytes \<and> int (length bytes) \<le> 1048576
     \<and> (\<exists>content. files path = Pem_file (int (length bytes)) content \<and> bytes = take (length bytes) content)"
  by (auto simp: read_pem_file_def max_pem_file_bytes_def split: if_splits pem_source.splits)

lemma policy_strict: "configure_tls_policy lib c = Some c' \<Longrightarrow> strict_policy (c'\<lparr>tx_prompts := False\<rparr>)"
  by (auto simp: configure_tls_policy_def strict_policy_def split: if_splits)

lemma load_identity_ok:
  "load_identity lib chain key c = Inr c' \<Longrightarrow> strict_policy c \<Longrightarrow> strict_policy c' \<and> tx_chain c' = chain \<and> tx_key c' = key
     \<and> tl_chain lib chain \<and> tl_matches lib chain key \<and> tl_key_type lib key = Some ''EC'' \<and> 256 \<le> tl_key_bits lib key"
  by (auto simp: load_identity_def strict_policy_def split: if_splits)

lemma load_identity_error: "load_identity lib chain key c = Inl e \<Longrightarrow> e \<in> set tls_diagnostics"
  by (auto simp: load_identity_def tls_diagnostics_def split: if_splits)

lemma build_context_error: "build_context lib chain key = Inr (Inl e) \<Longrightarrow> e \<in> set tls_diagnostics"
  using load_identity_error by (fastforce simp: build_context_def tls_diagnostics_def split: option.splits)

lemma load_context_error: "load_context lib files config = Inr (Inl e) \<Longrightarrow> e \<in> set tls_diagnostics"
  using build_context_error by (fastforce simp: load_context_def tls_diagnostics_def split: sum.splits option.splits)

lemma build_context_ok:
  assumes "build_context lib chain key = Inr (Inr c)"
  shows "strict_policy c \<and> tx_chain c = chain \<and> tx_key c = key \<and> tl_matches lib chain key
    \<and> tl_key_type lib key = Some ''EC'' \<and> 256 \<le> tl_key_bits lib key"
proof -
  obtain c0 where c0: "configure_tls_policy lib context_new = Some c0" "load_identity lib chain key (c0\<lparr>tx_prompts := False\<rparr>) = Inr c"
    using assms by (auto simp: build_context_def split: option.splits)
  show ?thesis
    using load_identity_ok [OF c0(2) policy_strict [OF c0(1)]] by simp
qed

text \<open>
  C30. The TLS policy. A listener gets a context only when it is a TLS listener on a stream protocol, and the
  context then allows TLS 1.3 alone, no early data, no compression and no password prompt; its chain and key
  are the files named in the configuration, of 1 byte to 1 MiB each, that the library found to match, with an
  EC key of at least 256 bits. Every refusal carries one of nine fixed messages: no path, no content of a
  file and no library diagnostic gets into it.
\<close>

theorem tls_context_policy:
  "(make_tls_context lib files config = Inr c \<longrightarrow>
      lc_security config = Sec_Tls \<and> lc_protocol config \<noteq> PUdp \<and> strict_policy c
      \<and> read_pem_file files (lc_certificate_chain_file config) = Inr (Some (tx_chain c))
      \<and> read_pem_file files (lc_private_key_file config) = Inr (Some (tx_key c))
      \<and> length (tx_chain c) \<in> {1..1048576} \<and> length (tx_key c) \<in> {1..1048576}
      \<and> tl_matches lib (tx_chain c) (tx_key c) \<and> tl_key_type lib (tx_key c) = Some ''EC'' \<and> 256 \<le> tl_key_bits lib (tx_key c))
   \<and> (make_tls_context lib files config = Inl e \<longrightarrow> e \<in> set tls_diagnostics)"
proof (rule conjI; rule impI)
  assume ok: "make_tls_context lib files config = Inr c"
  then have sec: "lc_security config = Sec_Tls" "lc_protocol config \<noteq> PUdp" and l: "load_context lib files config = Inr (Inr c)"
    by (auto simp: make_tls_context_def split: if_splits sum.splits tls_throw.splits)
  obtain chain key where f: "read_pem_file files (lc_certificate_chain_file config) = Inr (Some chain)"
      "read_pem_file files (lc_private_key_file config) = Inr (Some key)" and b: "build_context lib chain key = Inr (Inr c)"
    using l by (auto simp: load_context_def split: sum.splits option.splits)
  have "length chain \<in> {1..1048576}" "length key \<in> {1..1048576}"
    using read_pem_bounds [OF f(1)] read_pem_bounds [OF f(2)] by (simp_all add: Suc_le_eq)
  then show "lc_security config = Sec_Tls \<and> lc_protocol config \<noteq> PUdp \<and> strict_policy c
      \<and> read_pem_file files (lc_certificate_chain_file config) = Inr (Some (tx_chain c))
      \<and> read_pem_file files (lc_private_key_file config) = Inr (Some (tx_key c))
      \<and> length (tx_chain c) \<in> {1..1048576} \<and> length (tx_key c) \<in> {1..1048576}
      \<and> tl_matches lib (tx_chain c) (tx_key c) \<and> tl_key_type lib (tx_key c) = Some ''EC'' \<and> 256 \<le> tl_key_bits lib (tx_key c)"
    using sec f build_context_ok [OF b] by simp
next
  assume "make_tls_context lib files config = Inl e"
  then show "e \<in> set tls_diagnostics"
    using load_context_error [of lib files config e]
    by (auto simp: make_tls_context_def tls_diagnostics_def split: if_splits sum.splits tls_throw.splits)
qed

section \<open>A listener with a good key\<close>

definition good_library :: tls_library where
  "good_library = \<lparr>tl_context = None, tl_min_version = (\<lambda>_. True), tl_max_version = (\<lambda>_. True), tl_groups = (\<lambda>_. True),
     tl_ciphersuites = (\<lambda>_. True), tl_early_data = (\<lambda>_. True), tl_chain = (\<lambda>_. True), tl_key = (\<lambda>_. True), tl_matches = (\<lambda>_ _. True),
     tl_key_type = (\<lambda>_. Some ''EC''), tl_key_bits = (\<lambda>_. 256)\<rparr>"

definition wss_config :: listener_config where
  "wss_config = \<lparr>lc_id = 1, lc_protocol = PWebSocket, lc_bind_address = ''127.0.0.1'', lc_port = 443, lc_security = Sec_Tls,
     lc_certificate_chain_file = ''chain.pem'', lc_private_key_file = ''key.pem'', lc_websocket_path = ''/'', lc_handshake_timeout_ms = 1000\<rparr>"

definition wss_context :: tls_context where
  "wss_context = \<lparr>tx_min_version = Some TLS1_3_VERSION, tx_max_version = Some TLS1_3_VERSION, tx_groups = ''P-256:P-384'',
     tx_ciphersuites = ''TLS_AES_256_GCM_SHA384:TLS_CHACHA20_POLY1305_SHA256:TLS_AES_128_GCM_SHA256'',
     tx_early_data = Some 0, tx_compression = False, tx_prompts = False, tx_chain = ''CCC'', tx_key = ''CCC''\<rparr>"

lemma wss_context_made: "make_tls_context good_library (\<lambda>_. Pem_file 3 ''CCC'') wss_config = Inr wss_context"
  by (simp add: make_tls_context_def load_context_def read_pem_file_def max_pem_file_bytes_def build_context_def configure_tls_policy_def
      load_identity_def context_new_def good_library_def wss_config_def wss_context_def)

theorem tls_context_policy_witness:
  "make_tls_context good_library (\<lambda>_. Pem_file 3 ''CCC'') wss_config = Inr wss_context \<and> strict_policy wss_context
   \<and> make_tls_context good_library (\<lambda>_. Pem_absent) wss_config \<in> Inl ` set tls_diagnostics"
proof -
  have "make_tls_context good_library (\<lambda>_. Pem_absent) wss_config = Inl ''TLS certificate chain file is unreadable, empty, or exceeds 1 MiB.''"
    by (simp add: make_tls_context_def load_context_def read_pem_file_def wss_config_def)
  then show ?thesis
    using wss_context_made tls_context_policy [of good_library "\<lambda>_. Pem_file 3 ''CCC''" wss_config wss_context "[]"]
      tls_context_policy [of good_library "\<lambda>_. Pem_absent" wss_config wss_context "''TLS certificate chain file is unreadable, empty, or exceeds 1 MiB.''"]
    by blast
qed

end
