(* ===== verification/Cpp_Sdk.thy ===== *)
theory Cpp_Sdk
  imports Abi_World
begin

text \<open>
  The optional C++ layer over the C interface (src/include/ServerEngine/Cpp/Engine.h): \<^verbatim>\<open>Network\<close> with its
  poll that grows the buffer, and \<^verbatim>\<open>Sql\<close> and \<^verbatim>\<open>SqlResult\<close>, whose objects share the owner of a service
  through a \<^verbatim>\<open>shared_ptr\<close>. The objects of an application are a table; the owner of a service is named by
  the handle it holds, and it is destroyed with the last object that refers to it.
\<close>

section \<open>Exceptions\<close>

datatype sdk_throw =
    Runtime_error string | Logic_error string | Length_error string | Overflow_error string | Out_of_range string

text \<open>What \<^verbatim>\<open>require\<close> makes of a call: the status and the message that \<^verbatim>\<open>protect\<close> leaves.\<close>

definition sdk_require :: "'a abi_body \<Rightarrow> sdk_throw + unit" where
  "sdk_require body =
     (case protect (Some \<lparr>er_code = 0, er_message = []\<rparr>) body of
        (error, status) \<Rightarrow>
          (if status \<noteq> SE_OK
           then Inl (Runtime_error (case error of
                  Some e \<Rightarrow> if er_message e \<noteq> [] then er_message e else ''Engine operation failed''
                | None \<Rightarrow> ''Engine operation failed''))
           else Inr ()))"

definition sdk_call :: "'a abi_body \<Rightarrow> sdk_throw + 'a" where
  "sdk_call body =
     (case sdk_require body of
        Inl x \<Rightarrow> Inl x
      | Inr _ \<Rightarrow> (case body of Inr (status, v) \<Rightarrow> Inr v | Inl e \<Rightarrow> Inl (Runtime_error (snd e))))"

text \<open>Statements in sequence, the second after the first has not thrown.\<close>

definition throw_then :: "sdk_throw + 'a \<Rightarrow> ('a \<Rightarrow> sdk_throw + 'b) \<Rightarrow> sdk_throw + 'b" where
  "throw_then m f = (case m of Inl x \<Rightarrow> Inl x | Inr v \<Rightarrow> f v)"

lemma sdk_call_ok [simp]: "sdk_call (Inr (SE_OK, v)) = Inr v"
  by (simp add: sdk_call_def sdk_require_def protect_def)

lemma sdk_require_status:
  "sdk_require (Inr (status, v)) = Inr () \<longleftrightarrow> status = SE_OK"
  by (simp add: sdk_require_def protect_def)

section \<open>Network\<close>

record network_event =
  ne_metadata :: se_event
  ne_payload :: bytes

text \<open>The network object, its handle and an event of it.\<close>

definition network_new :: "se_server_options \<Rightarrow> hosts \<Rightarrow> hosts \<times> (sdk_throw + u64)" where
  "network_new options r = map_prod id sdk_call (se_server_create (Some options) True r)"

definition network_listen :: "u64 \<Rightarrow> se_listener_options \<Rightarrow> hosts \<Rightarrow> hosts \<times> (sdk_throw + u64)" where
  "network_listen h options r = map_prod id sdk_call (se_server_add_listener h (Some options) True r)"

definition network_start :: "host_env \<Rightarrow> u64 \<Rightarrow> hosts \<Rightarrow> hosts \<times> (sdk_throw + unit)" where
  "network_start env h r = map_prod id sdk_call (se_server_start env h r)"

definition network_stop :: "host_env \<Rightarrow> u64 \<Rightarrow> hosts \<Rightarrow> hosts \<times> (sdk_throw + unit)" where
  "network_stop env h r = map_prod id sdk_call (se_server_stop env h r)"

definition network_poll_once ::
  "host_env \<Rightarrow> u64 \<Rightarrow> nat \<Rightarrow> hosts \<Rightarrow> hosts \<times> (se_event option \<times> bytes) abi_body" where
  "network_poll_once env h capacity r =
     se_server_poll_event env h (Some (event_size, SE_ABI_VERSION)) False capacity r"

definition blank_event :: se_event where
  "blank_event = \<lparr>se_kind = 0, se_protocol = 0, se_session_id = 0, se_listener_id = 0, se_sequence = 0,
     se_payload_size = 0, se_peer_port = 0, se_peer_address = []\<rparr>"

text \<open>What a call writes into the caller's event and buffer.\<close>

definition event_filled :: "(se_event option \<times> bytes) abi_body \<Rightarrow> network_event \<Rightarrow> network_event" where
  "event_filled body ev =
     (case body of
        Inl _ \<Rightarrow> ev
      | Inr (_, out, written) \<Rightarrow>
          ev\<lparr>ne_metadata := (case out of Some e \<Rightarrow> e | None \<Rightarrow> ne_metadata ev),
             ne_payload := written @ drop (length written) (ne_payload ev)\<rparr>)"

definition vector_resize :: "nat \<Rightarrow> bytes \<Rightarrow> bytes" where
  "vector_resize n v = take n v @ replicate (n - length v) 0"

definition body_status :: "'a abi_body \<Rightarrow> se_status" where
  "body_status body = snd (protect None body)"

definition poll_status :: "'a abi_body \<Rightarrow> sdk_throw + se_status" where
  "poll_status body =
     (if status_code (body_status body) < 0
      then (case sdk_require body of Inl x \<Rightarrow> Inl x | Inr _ \<Rightarrow> Inr (body_status body))
      else Inr (body_status body))"

definition network_poll ::
  "host_env \<Rightarrow> u64 \<Rightarrow> network_event \<Rightarrow> hosts \<Rightarrow> hosts \<times> network_event \<times> (sdk_throw + se_status)" where
  "network_poll env h ev r =
     (case network_poll_once env h (length (ne_payload ev)) r of
        (r1, body) \<Rightarrow>
          (let ev1 = event_filled body (ev\<lparr>ne_metadata := blank_event\<rparr>) in
           if body_status body = SE_BUFFER_TOO_SMALL then
             (let needed = unat (se_payload_size (ne_metadata ev1));
                  ev2 = ev1\<lparr>ne_payload := vector_resize needed (ne_payload ev1)\<rparr> in
              case network_poll_once env h needed r1 of
                (r2, body2) \<Rightarrow> (r2, event_filled body2 ev2, poll_status body2))
           else (r1, ev1, poll_status body)))"

definition event_bytes :: "network_event \<Rightarrow> bytes" where
  "event_bytes ev = take (unat (se_payload_size (ne_metadata ev))) (ne_payload ev)"

definition network_destroy :: "host_env \<Rightarrow> u64 \<Rightarrow> hosts \<Rightarrow> hosts" where
  "network_destroy env h r = (if h \<noteq> 0 then fst (se_server_destroy env h r) else r)"

lemma body_status_simps [simp]:
  "body_status (Inr (status, v)) = status" "body_status (Inl (status, m)) = status"
  by (simp_all add: body_status_def protect_def abi_fail_def)

lemma poll_status_ok: "poll_status (Inr (status, v)) = Inr status' \<Longrightarrow> status' = status"
  by (auto simp: poll_status_def split: if_splits sum.splits)

lemma poll_status_positive: "\<not> status_code status < 0 \<Longrightarrow> poll_status (Inr (status, v)) = Inr status"
  by (simp add: poll_status_def)

text \<open>One call on a server that exists.\<close>

lemma poll_once_found:
  assumes "find_handle h r = Some x"
  shows "network_poll_once env h capacity r =
    (case host_poll (he_invoke_ok env) capacity x of
       (x', result, e, payload) \<Rightarrow>
         (put_handle h x' r, Inr (if result = Timeout then (SE_TIMEOUT, None, [])
                    else if result = Stopped then (SE_STOPPED, None, [])
                    else (if result = BufferTooSmall then SE_BUFFER_TOO_SMALL else SE_OK, map_option event_out e, payload))))"
  using assms by (simp add: network_poll_once_def se_server_poll_event_def event_header_ok_def with_host_def split: prod.split)

lemma set_host_events_same: "set_host_events (host_events x) x = x"
  by (simp add: set_host_events_def host_events_def)

text \<open>The head of the queue decides: an entry is delivered whole, whatever the buffer held before.\<close>

lemma poll_entry:
  assumes "eq_entries (host_events x) = entry # rest" and "\<not> eq_overflow (host_events x)"
    and "ev_kind (en_event entry) \<noteq> EvOverflow"
  shows "host_poll ok capacity x =
    (if buffer_size (en_payload entry) > capacity then (x, BufferTooSmall, Some (en_event entry), [])
     else (set_host_events ((host_events x)\<lparr>eq_bytes := sub64 (eq_bytes (host_events x)) (buffer_size (en_payload entry)),
             eq_entries := rest\<rparr>) x, Ready, Some (en_event entry), buf_bytes (en_payload entry)))"
  using assms by (simp add: host_poll_def eq_poll_def set_host_events_same)

lemma head_facts:
  assumes "eq_inv q" "eq_entries q = entry # rest" "eq_max_bytes q < W32"
  shows "\<not> eq_overflow q" "ev_kind (en_event entry) \<noteq> EvOverflow"
    "unat (se_payload_size (event_out (en_event entry))) = buffer_size (en_payload entry)"
proof -
  have e: "ev_payload_size (en_event entry) = buffer_size (en_payload entry)" "\<not> eq_overflow q"
      "ev_kind (en_event entry) \<noteq> EvOverflow" "buffer_size (en_payload entry) < W32"
    using assms by (auto simp: eq_inv_def entry_cost_def)
  then show "\<not> eq_overflow q" "ev_kind (en_event entry) \<noteq> EvOverflow"
    by simp_all
  show "unat (se_payload_size (event_out (en_event entry))) = buffer_size (en_payload entry)"
    using e by (simp add: event_out_def unat_of_nat)
qed

lemma event_bytes_filled:
  assumes "unat (se_payload_size e) = length written"
  shows "event_bytes (event_filled (Inr (status, Some e, written)) ev) = written"
    and "ne_metadata (event_filled (Inr (status, Some e, written)) ev) = e"
  using assms by (simp_all add: event_bytes_def event_filled_def)

lemma network_poll_entry:
  assumes x: "find_handle h r = Some x" and q: "eq_inv (host_events x)" "eq_max_bytes (host_events x) < W32"
    and head: "eq_entries (host_events x) = entry # rest" and run: "network_poll env h ev r = (r', ev', result)"
  shows "result = Inr SE_OK \<and> ne_metadata ev' = event_out (en_event entry) \<and> event_bytes ev' = buf_bytes (en_payload entry)
    \<and> (\<exists>x'. find_handle h r' = Some x' \<and> eq_entries (host_events x') = rest)"
proof -
  note f = head_facts [OF q(1) head q(2)]
  note poll = poll_entry [OF head f(1,2)]
  define n where "n = buffer_size (en_payload entry)"
  define taken where "taken = set_host_events ((host_events x)\<lparr>eq_bytes := sub64 (eq_bytes (host_events x)) n, eq_entries := rest\<rparr>) x"
  have left: "eq_entries (host_events taken) = rest"
    by (simp add: taken_def host_events_def set_host_events_def)
  define ready where "ready = (Inr (SE_OK, Some (event_out (en_event entry)), buf_bytes (en_payload entry)) :: (se_event option \<times> bytes) abi_body)"
  have small: "network_poll_once env h c r =
      (put_handle h x r, Inr (SE_BUFFER_TOO_SMALL, Some (event_out (en_event entry)), []))" if "n > c" for c
    using that by (simp add: poll_once_found [OF x] poll n_def)
  have fits: "network_poll_once env h c r' = (put_handle h taken r', ready)"
    if "n \<le> c" "find_handle h r' = Some x" for c r'
    using that by (simp add: poll_once_found [OF that(2)] poll n_def taken_def ready_def)
  have filled: "event_bytes (event_filled ready e) = buf_bytes (en_payload entry)"
      "ne_metadata (event_filled ready e) = event_out (en_event entry)" for e
    unfolding ready_def by (rule event_bytes_filled; simp add: f(3) buffer_size_def)+
  have ok: "poll_status ready = Inr SE_OK" "body_status ready = SE_OK"
    by (simp_all add: ready_def poll_status_positive)
  have "(\<exists>e. ev' = event_filled ready e) \<and> result = Inr SE_OK \<and> find_handle h r' = Some taken"
  proof (cases "n > length (ne_payload ev)")
    case True
    have "find_handle h (put_handle h x r) = Some x"
      by simp
    then show ?thesis
      using run f(3) fits [of n "put_handle h x r"] ok
      by (auto simp: network_poll_def small [OF True] event_filled_def [of "Inr (SE_BUFFER_TOO_SMALL, _)"] n_def Let_def)
  next
    case False
    then show ?thesis
      using run fits [of "length (ne_payload ev)" r] x ok by (auto simp: network_poll_def Let_def)
  qed
  then show ?thesis
    using filled left by auto
qed

text \<open>
  The C++ layer's \<^verbatim>\<open>Network::poll\<close> returns events whole. On a server that exists it never throws and never
  returns \<^verbatim>\<open>SE_BUFFER_TOO_SMALL\<close>: when an event is queued, whatever the size of the buffer passed in, the call
  returns \<^verbatim>\<open>SE_OK\<close> with that event and exactly its payload, and takes this event and no other off the queue.
\<close>

theorem sdk_poll_delivers:
  assumes "find_handle h r = Some x" and "eq_inv (host_events x)" and "eq_max_bytes (host_events x) < W32"
    and "network_poll env h ev r = (r', ev', result)"
  shows "result \<in> {Inr SE_OK, Inr SE_TIMEOUT, Inr SE_STOPPED}
    \<and> (\<forall>entry rest. eq_entries (host_events x) = entry # rest \<longrightarrow>
        result = Inr SE_OK \<and> ne_metadata ev' = event_out (en_event entry) \<and> event_bytes ev' = buf_bytes (en_payload entry)
        \<and> (\<exists>x'. find_handle h r' = Some x' \<and> eq_entries (host_events x') = rest))"
proof (cases "eq_entries (host_events x)")
  case Nil
  define c where "c = length (ne_payload ev)"
  obtain x' res e p where hp: "host_poll (he_invoke_ok env) c x = (x', res, e, p)"
    by (metis prod_cases4)
  then have "res \<noteq> BufferTooSmall"
    using Nil by (auto simp: host_poll_def eq_poll_def split: if_splits)
  then have "result \<in> {Inr SE_OK, Inr SE_TIMEOUT, Inr SE_STOPPED}"
    using assms(4) hp
    by (auto simp: network_poll_def poll_once_found [OF assms(1)] c_def poll_status_positive Let_def split: if_splits)
  then show ?thesis
    using Nil by simp
next
  case (Cons entry rest)
  then show ?thesis
    using network_poll_entry [OF assms(1-3) Cons assms(4)] by simp
qed

definition waiting_host :: server_host where
  "waiting_host = set_host_events (fst (eq_push True EvMessage Peer_default (Buffer_of_vector [7, 8]) (EventQueue_new 4 100)))
     (ServerHost_new sample_host_options)"

theorem sdk_poll_delivers_witness:
  "let r = \<lparr>hg_next = 2, hg_entries = [(1, waiting_host)]\<rparr>; ev = \<lparr>ne_metadata = blank_event, ne_payload = [0]\<rparr>
   in event_bytes (fst (snd (network_poll sample_env 1 ev r))) = [7, 8]
     \<and> snd (snd (network_poll sample_env 1 ev r)) = Inr SE_OK"
proof -
  define r where "r = \<lparr>hg_next = 2, hg_entries = [(1 :: u64, waiting_host)]\<rparr>"
  define ev where "ev = \<lparr>ne_metadata = blank_event, ne_payload = [0]\<rparr>"
  let ?q = "fst (eq_push True EvMessage Peer_default (Buffer_of_vector [7, 8]) (EventQueue_new 4 100))"
  have found: "find_handle 1 r = Some waiting_host"
    by (simp add: r_def find_handle_def umap_find_def)
  have q: "host_events waiting_host = ?q"
    by (simp add: waiting_host_def host_events_def set_host_events_def)
  have inv: "eq_inv ?q"
    by (intro eq_inv_push eq_inv_new) simp_all
  have max: "eq_max_bytes ?q < W32"
    by (simp add: eq_push_def EventQueue_new_def buffer_defs Let_def)
  have head: "\<exists>entry. eq_entries ?q = [entry] \<and> buf_bytes (en_payload entry) = [7, 8]"
    by (simp add: eq_push_def EventQueue_new_def buffer_defs sub64_def Let_def)
  show ?thesis
    unfolding r_def [symmetric] ev_def [symmetric] Let_def
    using sdk_poll_delivers [OF found, unfolded q, OF inv max, of sample_env ev] head by (metis prod.collapse)
qed

end
