(* ===== verification/Cpp_Sql.thy ===== *)
theory Cpp_Sql
  imports Cpp_Sdk
begin

text \<open>
  \<^verbatim>\<open>Sql\<close> and \<^verbatim>\<open>SqlResult\<close> of src/include/ServerEngine/Cpp/Engine.h. An application has \<^verbatim>\<open>Sql\<close> objects, named by
  the handle of their service, and \<^verbatim>\<open>SqlResult\<close> objects in numbered places. An object refers to its service
  through a shared owner; the owner's destructor runs when the last reference goes.
\<close>

section \<open>State\<close>

record sdk_result =
  rt_metadata :: sql_output
  rt_owner :: "u64 option"

record sdk_sql =
  sk_services :: sqls
  sk_objects :: "u64 list"
  sk_results :: "(nat, sdk_result) umap"

definition blank_metadata :: sql_output where
  "blank_metadata = \<lparr>ou_request_id = 0, ou_status = SE_OK, ou_row_count = 0, ou_column_count = 0,
     ou_affected_rows = 0, ou_last_insert_id = 0, ou_message = []\<rparr>"

definition blank_result :: sdk_result where
  "blank_result = \<lparr>rt_metadata = blank_metadata, rt_owner = None\<rparr>"

definition sdk_initial :: sdk_sql where
  "sdk_initial = \<lparr>sk_services = SqlRegistry_new, sk_objects = [], sk_results = []\<rparr>"

text \<open>Whether some object still refers to the owner of \<open>h\<close>.\<close>

definition referenced :: "u64 \<Rightarrow> sdk_sql \<Rightarrow> bool" where
  "referenced h st \<longleftrightarrow> h \<in> set (sk_objects st) \<or> list_ex (\<lambda>(k, r). rt_owner r = Some h) (sk_results st)"

section \<open>Operations\<close>

text \<open>\<open>driver\<close> is what the worker does with the requests it still has when a service is stopped or destroyed.\<close>

definition drop_owner :: "(sql_request \<Rightarrow> sql_result) \<Rightarrow> u64 \<Rightarrow> sdk_sql \<Rightarrow> sdk_sql" where
  "drop_owner driver h st =
     (if referenced h st then st else st\<lparr>sk_services := fst (se_sql_destroy driver h (sk_services st))\<rparr>)"

definition release_held :: "sdk_result \<Rightarrow> sqls \<Rightarrow> sqls" where
  "release_held r services =
     (case rt_owner r of
        Some h \<Rightarrow>
          (if ou_request_id (rt_metadata r) \<noteq> 0
           then fst (se_sql_release_result h (ou_request_id (rt_metadata r)) services) else services)
      | None \<Rightarrow> services)"

definition result_reset :: "(sql_request \<Rightarrow> sql_result) \<Rightarrow> nat \<Rightarrow> sdk_sql \<Rightarrow> sdk_sql" where
  "result_reset driver k st =
     (case umap_find (sk_results st) k of
        None \<Rightarrow> st
      | Some r \<Rightarrow>
          (let st1 = st\<lparr>sk_services := release_held r (sk_services st),
                        sk_results := umap_assign k blank_result (sk_results st)\<rparr> in
           case rt_owner r of None \<Rightarrow> st1 | Some h \<Rightarrow> drop_owner driver h st1))"

definition result_construct :: "nat \<Rightarrow> sdk_sql \<Rightarrow> sdk_sql" where
  "result_construct k st = st\<lparr>sk_results := umap_assign k blank_result (sk_results st)\<rparr>"

definition result_destruct :: "(sql_request \<Rightarrow> sql_result) \<Rightarrow> nat \<Rightarrow> sdk_sql \<Rightarrow> sdk_sql" where
  "result_destruct driver k st =
     (let st1 = result_reset driver k st in st1\<lparr>sk_results := umap_erase k (sk_results st1)\<rparr>)"

text \<open>The content of place \<open>i\<close> goes to \<open>j\<close>, which holds nothing.\<close>

definition result_transfer :: "nat \<Rightarrow> nat \<Rightarrow> sdk_sql \<Rightarrow> sdk_sql" where
  "result_transfer i j st =
     (case umap_find (sk_results st) i of
        None \<Rightarrow> st
      | Some r \<Rightarrow> st\<lparr>sk_results := umap_assign i blank_result (umap_assign j r (sk_results st))\<rparr>)"

definition result_move_construct :: "nat \<Rightarrow> nat \<Rightarrow> sdk_sql \<Rightarrow> sdk_sql" where
  "result_move_construct i j st = result_transfer i j st"

definition result_move_assign :: "(sql_request \<Rightarrow> sql_result) \<Rightarrow> nat \<Rightarrow> nat \<Rightarrow> sdk_sql \<Rightarrow> sdk_sql" where
  "result_move_assign driver i j st = (if i = j then st else result_transfer i j (result_reset driver j st))"

definition sql_construct :: "(setup_call \<Rightarrow> nat) \<Rightarrow> sql_c_options \<Rightarrow> sdk_sql \<Rightarrow> sdk_sql \<times> (sdk_throw + u64)" where
  "sql_construct codes options st =
     (case se_sql_create codes (Some options) True (sk_services st) of
        (services, body) \<Rightarrow>
          (case sdk_call body of
             Inl x \<Rightarrow> (st\<lparr>sk_services := services\<rparr>, Inl x)
           | Inr h \<Rightarrow> (st\<lparr>sk_services := services, sk_objects := h # sk_objects st\<rparr>, Inr h)))"

definition sql_destruct :: "(sql_request \<Rightarrow> sql_result) \<Rightarrow> u64 \<Rightarrow> sdk_sql \<Rightarrow> sdk_sql" where
  "sql_destruct driver h st = drop_owner driver h (st\<lparr>sk_objects := removeAll h (sk_objects st)\<rparr>)"

definition sdk_submit ::
  "layout \<Rightarrow> u64 \<Rightarrow> sql_c_statement list option \<Rightarrow> nat \<Rightarrow> sdk_sql \<Rightarrow> sdk_sql \<times> (sdk_throw + u64)" where
  "sdk_submit lay h statements count st =
     (case se_sql_submit lay h statements count True (sk_services st) of
        (services, body) \<Rightarrow> (st\<lparr>sk_services := services\<rparr>, sdk_call body))"

definition sdk_query ::
  "layout \<Rightarrow> u64 \<Rightarrow> string \<Rightarrow> sql_parameter list option \<Rightarrow> nat \<Rightarrow> sdk_sql \<Rightarrow> sdk_sql \<times> (sdk_throw + u64)" where
  "sdk_query lay h sql parameters count st =
     (if length sql > 4294967295 then (st, Inl (Length_error ''SQL text exceeds ABI size''))
      else sdk_submit lay h (Some [\<lparr>cs_sql = Some sql, cs_sql_size = length sql, cs_parameter_count = count,
             cs_parameters = parameters\<rparr>]) 1 st)"

definition sdk_poll ::
  "(sql_request \<Rightarrow> sql_result) \<Rightarrow> u64 \<Rightarrow> nat \<Rightarrow> sdk_sql \<Rightarrow> sdk_sql \<times> (sdk_throw + se_status)" where
  "sdk_poll driver h k st =
     (let st1 = result_reset driver k st in
      case se_sql_poll h (Some (sql_result_size, SE_SQL_ABI_VERSION)) (sk_services st1) of
        (services, body) \<Rightarrow>
          (let st2 = st1\<lparr>sk_services := services\<rparr> in
           case body of
             Inr (SE_OK, Some out) \<Rightarrow>
               (st2\<lparr>sk_results := umap_assign k \<lparr>rt_metadata = out, rt_owner = Some h\<rparr> (sk_results st2)\<rparr>, Inr SE_OK)
           | _ \<Rightarrow> (st2, poll_status body)))"

definition sdk_stop :: "(sql_request \<Rightarrow> sql_result) \<Rightarrow> u64 \<Rightarrow> sdk_sql \<Rightarrow> sdk_sql \<times> (sdk_throw + unit)" where
  "sdk_stop driver h st =
     (case se_sql_stop driver h (sk_services st) of (services, body) \<Rightarrow> (st\<lparr>sk_services := services\<rparr>, sdk_call body))"

text \<open>Reading a cell of a result.\<close>

definition ensure_result :: "sdk_result \<Rightarrow> sdk_throw + u64" where
  "ensure_result r =
     (case rt_owner r of
        None \<Rightarrow> Inl (Logic_error ''SQL result is empty or released'')
      | Some h \<Rightarrow>
          (if ou_request_id (rt_metadata r) = 0 then Inl (Logic_error ''SQL result is empty or released'')
           else if ou_status (rt_metadata r) \<noteq> SE_OK then Inl (Runtime_error (ou_message (rt_metadata r)))
           else Inr h))"

definition result_integer :: "nat \<Rightarrow> nat \<Rightarrow> sdk_result \<Rightarrow> sqls \<Rightarrow> sdk_throw + int" where
  "result_integer row column r services =
     (case ensure_result r of
        Inl x \<Rightarrow> Inl x
      | Inr h \<Rightarrow>
          (case sdk_call (se_sql_get_cell h (ou_request_id (rt_metadata r)) row column True True 0 services) of
             Inl x \<Rightarrow> Inl x
           | Inr (cell, _) \<Rightarrow>
               (if ce_type cell \<noteq> SE_SQL_INT64 then Inl (Runtime_error ''Expected SQL integer'') else Inr (ce_integer cell))))"

definition result_text :: "nat \<Rightarrow> nat \<Rightarrow> sdk_result \<Rightarrow> sqls \<Rightarrow> sdk_throw + string" where
  "result_text row column r services =
     (case ensure_result r of
        Inl x \<Rightarrow> Inl x
      | Inr h \<Rightarrow>
          (let i = ou_request_id (rt_metadata r);
               first = se_sql_get_cell h i row column True True 0 services in
           case (if body_status first \<noteq> SE_BUFFER_TOO_SMALL then sdk_require first else Inr ()) of
             Inl x \<Rightarrow> Inl x
           | Inr _ \<Rightarrow>
               (case first of
                  Inl e \<Rightarrow> Inl (Runtime_error (snd e))
                | Inr (_, cell, _) \<Rightarrow>
                    (if ce_type cell \<noteq> SE_SQL_TEXT then Inl (Runtime_error ''Expected SQL text'')
                     else map_sum id snd (sdk_call (se_sql_get_cell h i row column True False (ce_size cell) services))))))"

text \<open>What an application does with these objects, and what the workers of its services do meanwhile.\<close>

inductive sdk_step :: "sdk_sql \<Rightarrow> sdk_sql \<Rightarrow> bool" where
  construct: "sdk_step st (fst (sql_construct codes options st))"
| destruct: "h \<in> set (sk_objects st) \<Longrightarrow> sdk_step st (sql_destruct driver h st)"
| submit: "h \<in> set (sk_objects st) \<Longrightarrow> sdk_step st (fst (sdk_submit lay h statements count st))"
| query: "h \<in> set (sk_objects st) \<Longrightarrow> sdk_step st (fst (sdk_query lay h sql parameters count st))"
| poll: "h \<in> set (sk_objects st) \<Longrightarrow> umap_find (sk_results st) k \<noteq> None \<Longrightarrow> sdk_step st (fst (sdk_poll driver h k st))"
| stop: "h \<in> set (sk_objects st) \<Longrightarrow> sdk_step st (fst (sdk_stop driver h st))"
| result_new: "umap_find (sk_results st) k = None \<Longrightarrow> sdk_step st (result_construct k st)"
| result_reset: "sdk_step st (result_reset driver k st)"
| result_end: "sdk_step st (result_destruct driver k st)"
| move_new: "umap_find (sk_results st) i \<noteq> None \<Longrightarrow> umap_find (sk_results st) j = None \<Longrightarrow> sdk_step st (result_move_construct i j st)"
| move: "umap_find (sk_results st) i \<noteq> None \<Longrightarrow> umap_find (sk_results st) j \<noteq> None \<Longrightarrow> sdk_step st (result_move_assign driver i j st)"
| work: "find_handle h (sk_services st) = Some s \<Longrightarrow>
    sdk_step st (st\<lparr>sk_services := put_handle h (worker_step driver s) (sk_services st)\<rparr>)"

section \<open>Delivered requests of a service\<close>

definition delivered :: "sql_service \<Rightarrow> u64 set" where
  "delivered s = {i. \<exists>rq. umap_find (sq_requests s) i = Some rq \<and> rq_state rq = Rq_delivered}"

text \<open>Zero is no request: the guard of \<^verbatim>\<open>reset\<close> never skips a result.\<close>

definition ids_ok :: "sql_service \<Rightarrow> bool" where
  "ids_ok s \<longleftrightarrow> sq_next_id s \<noteq> 0 \<and> umap_find (sq_requests s) 0 = None"

definition service_ok :: "sql_service \<Rightarrow> bool" where
  "service_ok s \<longleftrightarrow> sql_inv s \<and> ids_ok s"

lemma delivered_nonzero: "service_ok s \<Longrightarrow> i \<in> delivered s \<Longrightarrow> i \<noteq> 0"
  by (auto simp: service_ok_def ids_ok_def delivered_def)

lemma delivered_set:
  assumes "umap_find (sq_requests s) (rq_id rq) = Some old" "rq_state old \<noteq> Rq_delivered" "rq_state rq \<noteq> Rq_delivered"
  shows "delivered ((set_request rq s)\<lparr>sq_worker := ph\<rparr>) = delivered s"
    and "ids_ok s \<Longrightarrow> ids_ok ((set_request rq s)\<lparr>sq_worker := ph\<rparr>)"
  using assms by (auto simp: delivered_def set_request_def ids_ok_def split: if_splits)

lemma worker_service:
  assumes "service_ok s"
  shows "service_ok (worker_step d s) \<and> delivered (worker_step d s) = delivered s"
proof -
  have inv: "sql_inv s" "ids_ok s" using assms by (simp_all add: service_ok_def)
  have "ids_ok (worker_step d s) \<and> delivered (worker_step d s) = delivered s"
  proof (cases "sq_worker s")
    case W_waiting
    show ?thesis
    proof (cases "find_state Rq_queued s")
      case None
      then show ?thesis
        using inv W_waiting by (simp add: worker_step_def worker_take_def ids_ok_def delivered_def)
    next
      case (Some rq)
      then show ?thesis
        using find_state_Some [OF inv(1) Some] inv(2) delivered_set [of s "rq\<lparr>rq_state := Rq_running\<rparr>" rq]
        by (simp add: worker_step_def worker_take_def W_waiting)
    qed
  next
    case (W_taken i)
    obtain rq where "umap_find (sq_requests s) i = Some rq" "rq_id rq = i" "rq_state rq = Rq_running"
      using worker_request [OF inv(1), of i] W_taken by (auto simp: worker_ids_def)
    then show ?thesis
      using inv(2) delivered_set [of s "rq\<lparr>rq_result := x\<rparr>" rq for x]
      by (simp add: worker_step_def worker_execute_def W_taken)
  next
    case (W_executed i)
    obtain rq where "umap_find (sq_requests s) i = Some rq" "rq_id rq = i" "rq_state rq = Rq_running"
      using worker_request [OF inv(1), of i] W_executed by (auto simp: worker_ids_def)
    then show ?thesis
      using inv(2) delivered_set [of s "rq\<lparr>rq_state := Rq_complete\<rparr>" rq]
      by (simp add: worker_step_def worker_publish_def W_executed)
  qed (use inv in \<open>simp add: worker_step_def\<close>)
  then show ?thesis
    using worker_step_inv [OF inv(1)] by (simp add: service_ok_def)
qed

lemma workers_service: "service_ok s \<Longrightarrow> service_ok ((worker_step d ^^ n) s) \<and> delivered ((worker_step d ^^ n) s) = delivered s"
  by (induction n) (auto simp: worker_service)

lemma join_service: "service_ok s \<Longrightarrow> service_ok (sql_join d s) \<and> delivered (sql_join d s) = delivered s"
proof -
  assume "service_ok s"
  then have "service_ok (sql_stop s)" "delivered (sql_stop s) = delivered s"
    using sql_inv_stop [of s] by (simp_all add: service_ok_def ids_ok_def delivered_def sql_stop_def)
  then show ?thesis
    using workers_service [of "sql_stop s"] by (simp add: sql_join_def)
qed

lemma submit_service:
  assumes "service_ok s"
  shows "service_ok (fst (sql_submit lay src n s)) \<and> delivered (fst (sql_submit lay src n s)) = delivered s"
proof -
  have inv: "sql_inv s" "ids_ok s" using assms by (simp_all add: service_ok_def)
  obtain t res where sub: "sql_submit lay src n s = (t, res)" by force
  show ?thesis
  proof (cases res)
    case (Inl e)
    then show ?thesis
      using sql_submit_refused [of lay src n s t e] sub assms by simp
  next
    case (Inr i)
    obtain rq where rq: "copy_request lay src n (sq_options s) = Inr rq" "i = sq_next_id s" "i \<noteq> - 1"
      and t: "t = s\<lparr>sq_next_id := i + 1, sq_requests := umap_assign i (rq\<lparr>rq_id := i\<rparr>) (sq_requests s),
           sq_reserved_bytes := sq_reserved_bytes s + rq_reserved_bytes rq\<rparr>"
      by (rule sql_submit_accepted [OF inv(1) sub [unfolded Inr]])
    have wrap: "i + 1 \<noteq> 0"
      using rq(3) by (metis add_eq_0_iff2)
    have "delivered t = delivered s"
      using copy_request_queued [OF rq(1)] next_id_absent(1) [OF inv(1)] rq(2) by (auto simp: t delivered_def split: if_splits)
    then show ?thesis
      using sql_submit_inv [OF inv(1) sub [unfolded Inr]] inv(2) wrap rq(2) sub by (simp add: service_ok_def ids_ok_def t)
  qed
qed

lemma poll_service:
  assumes "service_ok s" and "sql_poll s = (t, status, out)"
  shows "service_ok t \<and> (out = None \<and> status \<noteq> SE_OK \<and> t = s
    \<or> (\<exists>x. out = Some x \<and> status = SE_OK \<and> ou_request_id x \<notin> delivered s \<and> delivered t = insert (ou_request_id x) (delivered s)))"
proof (cases "find_state Rq_complete s")
  case None
  then show ?thesis
    using assms by (auto simp: sql_poll_def split: if_splits)
next
  case (Some rq)
  have inv: "sql_inv s" "ids_ok s" using assms by (simp_all add: service_ok_def)
  note f = find_state_Some [OF inv(1) Some]
  have t: "t = set_request (rq\<lparr>rq_state := Rq_delivered\<rparr>) s" "status = SE_OK" "out = Some (result_output rq)"
    using assms(2) Some by (simp_all add: sql_poll_def)
  have "sql_inv t"
    using sql_poll_inv [OF inv(1)] assms(2) by simp
  moreover have "rq_id rq \<notin> delivered s" "delivered t = insert (rq_id rq) (delivered s)"
    using f by (auto simp: t(1) delivered_def set_request_def split: if_splits)
  moreover have "ids_ok t"
    using inv(2) f by (auto simp: t(1) ids_ok_def set_request_def)
  ultimately show ?thesis
    using t by (simp add: service_ok_def result_output_def)
qed

lemma release_service:
  assumes "service_ok s"
  shows "service_ok (fst (sql_release i s)) \<and> delivered (fst (sql_release i s)) = delivered s - {i}"
proof -
  have "ids_ok (fst (sql_release i s)) \<and> delivered (fst (sql_release i s)) = delivered s - {i}"
    using assms by (auto simp: service_ok_def sql_release_def ids_ok_def delivered_def split: option.splits if_splits)
  then show ?thesis
    using sql_release_inv [of s i] assms by (simp add: service_ok_def)
qed

section \<open>Ownership\<close>

definition owners :: "(nat, sdk_result) umap \<Rightarrow> u64 \<Rightarrow> u64 \<Rightarrow> nat set" where
  "owners m h i = {k. \<exists>r. umap_find m k = Some r \<and> rt_owner r = Some h \<and> ou_request_id (rt_metadata r) = i}"

text \<open>Every delivered request of a live service has exactly one result object, and no object has anything else.\<close>

definition results_match :: "(nat, sdk_result) umap \<Rightarrow> sqls \<Rightarrow> bool" where
  "results_match m services \<longleftrightarrow> (\<forall>h s i. find_handle h services = Some s \<longrightarrow>
     (if i \<in> delivered s then \<exists>k. owners m h i = {k} else owners m h i = {}))"

definition sdk_core :: "sdk_sql \<Rightarrow> bool" where
  "sdk_core st \<longleftrightarrow> sql_handles.all_good service_ok (sk_services st) \<and> umap_wf (sk_results st)
     \<and> results_match (sk_results st) (sk_services st)"

definition sdk_inv :: "sdk_sql \<Rightarrow> bool" where
  "sdk_inv st \<longleftrightarrow> sdk_core st \<and> (\<forall>h. referenced h st \<longleftrightarrow> find_handle h (sk_services st) \<noteq> None)"

lemma owners_assign: "owners (umap_assign k r m) h i =
    (owners m h i - {k}) \<union> (if rt_owner r = Some h \<and> ou_request_id (rt_metadata r) = i then {k} else {})"
  by (auto simp: owners_def split: if_splits)

lemma owners_erase: "owners (umap_erase k m) h i = owners m h i - {k}"
  by (auto simp: owners_def split: if_splits)

lemma owner_blank [simp]: "rt_owner blank_result = None"
  by (simp add: blank_result_def)

lemma owners_free: "umap_find m k = None \<or> (\<exists>r. umap_find m k = Some r \<and> rt_owner r = None) \<Longrightarrow> k \<notin> owners m h i"
  by (auto simp: owners_def)

lemma referenced_iff:
  "umap_wf (sk_results st) \<Longrightarrow> referenced h st \<longleftrightarrow> h \<in> set (sk_objects st) \<or> (\<exists>i. owners (sk_results st) h i \<noteq> {})"
proof -
  assume wf: "umap_wf (sk_results st)"
  have "(\<exists>i. owners (sk_results st) h i \<noteq> {}) \<longleftrightarrow> (\<exists>k r. umap_find (sk_results st) k = Some r \<and> rt_owner r = Some h)"
    by (auto simp: owners_def)
  also have "\<dots> \<longleftrightarrow> list_ex (\<lambda>(k, r). rt_owner r = Some h) (sk_results st)"
    unfolding list_ex_iff umap_find_iff [OF wf] by fastforce
  finally show ?thesis
    by (simp add: referenced_def)
qed

lemma put_good:
  "sql_handles.all_good service_ok r \<Longrightarrow> find_handle h r = Some s \<Longrightarrow> service_ok s' \<Longrightarrow>
     sql_handles.all_good service_ok (put_handle h s' r)"
  using sql_handles.table_step_good [OF sql_handles.table_step.put, of h r s service_ok s'] by simp

text \<open>A call on a service that delivers and releases nothing.\<close>

lemma sdk_inv_put:
  assumes "sdk_inv st" "find_handle h (sk_services st) = Some s" "service_ok s' \<and> delivered s' = delivered s"
  shows "sdk_inv (st\<lparr>sk_services := put_handle h s' (sk_services st)\<rparr>)"
  using assms put_good [of "sk_services st" h s s']
  by (auto simp: sdk_inv_def sdk_core_def results_match_def referenced_def)

lemma core_service: "sdk_core st \<Longrightarrow> find_handle h (sk_services st) = Some s \<Longrightarrow> service_ok s"
  by (simp add: sdk_core_def sql_handles.all_good_def)

lemma sdk_inv_with_sql:
  assumes "sdk_inv st" "\<And>s. service_ok s \<Longrightarrow> service_ok (fst (f s)) \<and> delivered (fst (f s)) = delivered s"
  shows "sdk_inv (st\<lparr>sk_services := fst (with_sql h f (sk_services st))\<rparr>)"
proof (cases "find_handle h (sk_services st)")
  case None
  then show ?thesis
    using assms(1) by (simp add: with_sql_def)
next
  case (Some s)
  have "service_ok s"
    using core_service [OF _ Some] assms(1) by (simp add: sdk_inv_def)
  then show ?thesis
    using sdk_inv_put [OF assms(1) Some assms(2)] Some by (simp add: with_sql_def case_prod_beta Let_def)
qed

lemma sdk_inv_submit: "sdk_inv st \<Longrightarrow> sdk_inv (fst (sdk_submit lay h statements count st))"
  using sdk_inv_with_sql [of st "\<lambda>s. map_prod id ok_body (sql_submit lay statements count s)" h] submit_service
  by (simp add: sdk_submit_def se_sql_submit_def case_prod_beta)

lemma sdk_inv_stop: "sdk_inv st \<Longrightarrow> sdk_inv (fst (sdk_stop d h st))"
  using sdk_inv_with_sql [of st "\<lambda>s. (sql_join d s, Inr (SE_OK, ()))" h] join_service
  by (simp add: sdk_stop_def se_sql_stop_def case_prod_beta)

lemma sdk_inv_work:
  "sdk_inv st \<Longrightarrow> find_handle h (sk_services st) = Some s \<Longrightarrow>
     sdk_inv (st\<lparr>sk_services := put_handle h (worker_step d s) (sk_services st)\<rparr>)"
  using sdk_inv_put [of st h s "worker_step d s"] worker_service [of s d] core_service [of st h s] by (simp add: sdk_inv_def [of st])

section \<open>The last reference\<close>

text \<open>Dropping the owner of \<open>h\<close> brings the table and the references together again.\<close>

lemma drop_owner_inv:
  assumes core: "sdk_core st" and live: "referenced h st \<Longrightarrow> find_handle h (sk_services st) \<noteq> None"
    and others: "\<And>h'. h' \<noteq> h \<Longrightarrow> referenced h' st \<longleftrightarrow> find_handle h' (sk_services st) \<noteq> None"
  shows "sdk_inv (drop_owner d h st)"
proof (cases "referenced h st")
  case True
  have "referenced h' st \<longleftrightarrow> find_handle h' (sk_services st) \<noteq> None" for h'
    using True live others by (cases "h' = h") auto
  then show ?thesis
    using True core by (simp add: drop_owner_def sdk_inv_def)
next
  case False
  define services where "services = fst (se_sql_destroy d h (sk_services st))"
  have good: "sql_handles.all_good service_ok (sk_services st)"
    using core by (simp add: sdk_core_def)
  have step: "sql_handles.all_good service_ok services
      \<and> (\<forall>k. find_handle k services = (if k = h then None else find_handle k (sk_services st)))"
  proof (cases "remove_handle h (sk_services st)")
    case None
    then have "find_handle h (sk_services st) = None"
      by (simp add: remove_handle_def find_handle_def split: option.splits)
    then show ?thesis
      using None good by (simp add: services_def se_sql_destroy_def)
  next
    case (Some p)
    obtain r' x where p: "p = (r', x)" by (cases p)
    then have "services = r'"
      using Some by (simp add: services_def se_sql_destroy_def)
    then show ?thesis
      using sql_handles.remove_table [of "sk_services st" h r' x] sql_handles.table_step_good [OF sql_handles.table_step.remove, of h "sk_services st" r' x service_ok]
        Some p good by (simp add: sql_handles.all_good_def)
  qed
  then show ?thesis
    using core False others
    by (auto simp: drop_owner_def sdk_inv_def sdk_core_def results_match_def referenced_def services_def [symmetric])
qed

lemma sql_destruct_inv:
  assumes "sdk_inv st" shows "sdk_inv (sql_destruct d h st)"
  unfolding sql_destruct_def
proof (rule drop_owner_inv)
  show "sdk_core (st\<lparr>sk_objects := removeAll h (sk_objects st)\<rparr>)"
    using assms by (simp add: sdk_inv_def sdk_core_def)
qed (use assms in \<open>auto simp: sdk_inv_def referenced_def\<close>)

lemma result_reset_inv:
  assumes inv: "sdk_inv st"
  shows "sdk_inv (result_reset d k st)"
proof (cases "umap_find (sk_results st) k")
  case None
  then show ?thesis using inv by (simp add: result_reset_def)
next
  case (Some r)
  have wf: "umap_wf (sk_results st)" and core: "sdk_core st"
    using inv by (simp_all add: sdk_inv_def sdk_core_def)
  let ?m = "umap_assign k blank_result (sk_results st)"
  have own: "owners ?m h i = owners (sk_results st) h i - {k}" for h i
    by (simp add: owners_assign)
  show ?thesis
  proof (cases "rt_owner r")
    case None
    then have "owners ?m = owners (sk_results st)"
      using owners_free [of "sk_results st" k] Some own by (intro ext) auto
    then show ?thesis
      using inv Some None wf umap.wf_assign [OF wf]
      by (simp add: result_reset_def release_held_def sdk_inv_def sdk_core_def results_match_def referenced_iff)
  next
    case (Some h)
    define i where "i = ou_request_id (rt_metadata r)"
    have k: "k \<in> owners (sk_results st) h i"
      using \<open>umap_find (sk_results st) k = Some r\<close> Some by (simp add: owners_def i_def)
    then have "referenced h st"
      using referenced_iff [OF wf] by blast
    then obtain s where s: "find_handle h (sk_services st) = Some s"
      using inv by (auto simp: sdk_inv_def)
    note ok = core_service [OF core s]
    have "if i \<in> delivered s then \<exists>k. owners (sk_results st) h i = {k} else owners (sk_results st) h i = {}"
      using core s by (simp add: sdk_core_def results_match_def)
    then have i: "i \<in> delivered s" "owners (sk_results st) h i = {k}"
      using k by (auto split: if_splits)
    define st1 where "st1 = st\<lparr>sk_services := put_handle h (fst (sql_release i s)) (sk_services st), sk_results := ?m\<rparr>"
    have "k \<notin> owners (sk_results st) h' i'" if "h' \<noteq> h \<or> i' \<noteq> i" for h' i'
      using that \<open>umap_find (sk_results st) k = Some r\<close> Some by (auto simp: owners_def i_def)
    then have own': "owners ?m h' i' = (if h' = h \<and> i' = i then {} else owners (sk_results st) h' i')" for h' i'
      using own i(2) by auto
    have core1: "sdk_core st1"
      using core put_good [OF _ s] release_service [OF ok, of i] umap.wf_assign [OF wf] s
      by (auto simp: st1_def sdk_core_def results_match_def own')
    have "result_reset d k st = drop_owner d h st1"
      using \<open>umap_find (sk_results st) k = Some r\<close> Some s delivered_nonzero [OF ok i(1)]
      by (simp add: result_reset_def release_held_def st1_def i_def se_sql_release_result_def with_sql_def case_prod_beta Let_def)
    moreover have "referenced h' st1 \<longleftrightarrow> find_handle h' (sk_services st1) \<noteq> None" if "h' \<noteq> h" for h'
      using that inv core1 wf umap.wf_assign [OF wf]
      by (simp add: sdk_inv_def st1_def referenced_iff own')
    ultimately show ?thesis
      using drop_owner_inv [OF core1, of h d] by (simp add: st1_def)
  qed
qed

section \<open>Objects that come, move and go\<close>

lemma result_reset_place:
  "umap_find (sk_results (result_reset d k st)) j =
     (if j = k \<and> umap_find (sk_results st) k \<noteq> None then Some blank_result else umap_find (sk_results st) j)"
  by (auto simp: result_reset_def drop_owner_def Let_def split: option.splits)

lemma result_reset_objects [simp]: "sk_objects (result_reset d k st) = sk_objects st"
  by (simp add: result_reset_def drop_owner_def Let_def split: option.split)

lemma same_owners_inv:
  assumes "sdk_inv st" "umap_wf m" "owners m = owners (sk_results st)"
  shows "sdk_inv (st\<lparr>sk_results := m\<rparr>)"
proof -
  have "umap_wf (sk_results st)"
    using assms(1) by (simp add: sdk_inv_def sdk_core_def)
  then show ?thesis
    using assms by (simp add: sdk_inv_def sdk_core_def results_match_def referenced_iff)
qed

lemma sdk_inv_wf: "sdk_inv st \<Longrightarrow> umap_wf (sk_results st)"
  by (simp add: sdk_inv_def sdk_core_def)

lemma result_construct_inv:
  assumes "sdk_inv st" "umap_find (sk_results st) k = None"
  shows "sdk_inv (result_construct k st)"
proof -
  have "owners (umap_assign k blank_result (sk_results st)) = owners (sk_results st)"
    using owners_free [of "sk_results st" k] assms(2) by (intro ext) (auto simp: owners_assign)
  then show ?thesis
    using same_owners_inv [OF assms(1) umap.wf_assign [OF sdk_inv_wf [OF assms(1)]]] by (simp add: result_construct_def)
qed

lemma result_destruct_inv:
  assumes "sdk_inv st"
  shows "sdk_inv (result_destruct d k st)"
proof -
  note inv = result_reset_inv [OF assms, of d k]
  let ?m = "sk_results (result_reset d k st)"
  have "umap_find ?m k = None \<or> (\<exists>r. umap_find ?m k = Some r \<and> rt_owner r = None)"
    by (auto simp: result_reset_place)
  then have "owners (umap_erase k ?m) = owners ?m"
    using owners_free [of ?m k] by (intro ext) (auto simp: owners_erase)
  then show ?thesis
    using same_owners_inv [OF inv umap.wf_erase [OF sdk_inv_wf [OF inv]]] by (simp add: result_destruct_def Let_def)
qed

lemma owners_transfer:
  assumes "i \<noteq> j" "umap_find m i = Some r" "\<And>h x. j \<notin> owners m h x"
  shows "owners (umap_assign i blank_result (umap_assign j r m)) h x = (\<lambda>k. if k = i then j else k) ` owners m h x"
proof -
  have "owners (umap_assign i blank_result (umap_assign j r m)) h x =
      (owners m h x - {i}) \<union> (if i \<in> owners m h x then {j} else {})"
    using assms by (auto simp: owners_assign owners_def split: if_splits)
  also have "\<dots> = (\<lambda>k. if k = i then j else k) ` owners m h x"
    by auto
  finally show ?thesis .
qed

lemma result_transfer_inv:
  assumes inv: "sdk_inv st" and "i \<noteq> j"
    and free: "umap_find (sk_results st) j = None \<or> (\<exists>r. umap_find (sk_results st) j = Some r \<and> rt_owner r = None)"
  shows "sdk_inv (result_transfer i j st)"
proof (cases "umap_find (sk_results st) i")
  case (Some r)
  let ?m = "umap_assign i blank_result (umap_assign j r (sk_results st))"
  have wf: "umap_wf (sk_results st)" "umap_wf ?m"
    using sdk_inv_wf [OF inv] by (simp_all add: umap.wf_assign)
  have own: "owners ?m h x = (\<lambda>k. if k = i then j else k) ` owners (sk_results st) h x" for h x
    using owners_transfer [OF assms(2) Some owners_free [OF free]] .
  have "results_match ?m (sk_services st)"
    unfolding results_match_def
  proof (intro allI impI)
    fix h s x
    assume "find_handle h (sk_services st) = Some s"
    then have "if x \<in> delivered s then \<exists>k. owners (sk_results st) h x = {k} else owners (sk_results st) h x = {}"
      using inv by (simp add: sdk_inv_def sdk_core_def results_match_def)
    then show "if x \<in> delivered s then \<exists>k. owners ?m h x = {k} else owners ?m h x = {}"
      unfolding own by (metis (no_types, lifting) image_empty image_insert)
  qed
  moreover have "owners ?m h x = {} \<longleftrightarrow> owners (sk_results st) h x = {}" for h x
    unfolding own by (rule image_is_empty)
  ultimately show ?thesis
    using inv wf Some by (simp add: result_transfer_def sdk_inv_def sdk_core_def referenced_iff)
qed (use inv in \<open>simp add: result_transfer_def\<close>)

lemma result_move_inv:
  assumes "sdk_inv st" "umap_find (sk_results st) j \<noteq> None"
  shows "sdk_inv (result_move_assign d i j st)"
proof (cases "i = j")
  case False
  have "umap_find (sk_results (result_reset d j st)) j = Some blank_result"
    using assms(2) by (simp add: result_reset_place)
  then show ?thesis
    using result_transfer_inv [OF result_reset_inv [OF assms(1), of d j] False] False
    by (simp add: result_move_assign_def)
qed (use assms(1) in \<open>simp add: result_move_assign_def\<close>)

lemma create_cases:
  "(\<exists>services h. se_sql_create codes (Some options) True r = (services, Inr (SE_OK, h)))
   \<or> (\<exists>e. se_sql_create codes (Some options) True r = (r, Inl e))"
  by (simp add: se_sql_create_def split: sum.split prod.split)

lemma sdk_call_Inl: "\<exists>x. sdk_call (Inl e) = Inl x"
  by (simp add: sdk_call_def split: sum.split)

lemma sql_construct_inv:
  assumes inv: "sdk_inv st"
  shows "sdk_inv (fst (sql_construct codes options st))"
proof (cases "\<exists>services h. se_sql_create codes (Some options) True (sk_services st) = (services, Inr (SE_OK, h))")
  case False
  then obtain e where "se_sql_create codes (Some options) True (sk_services st) = (sk_services st, Inl e)"
    using create_cases [of codes options "sk_services st"] by blast
  then show ?thesis
    using inv sdk_call_Inl [of e, where 'a = u64] by (auto simp: sql_construct_def)
next
  case True
  then obtain services h where made: "se_sql_create codes (Some options) True (sk_services st) = (services, Inr (SE_OK, h))"
    by blast
  then obtain opts where opts: "decode_options options = Inr opts" "register_service (SqlService_new opts) (sk_services st) = Inr (services, h)"
    by (auto simp: se_sql_create_def and_then_eq_Inr split: sum.splits prod.splits)
  have ok: "service_ok (SqlService_new opts)" "delivered (SqlService_new opts) = {}"
    using sql_inv_new [OF decode_options_ok [OF opts(1)]]
    by (simp_all add: service_ok_def ids_ok_def delivered_def SqlService_new_def)
  have core: "sdk_core st" and good: "sql_handles.all_good service_ok (sk_services st)" and wf: "umap_wf (sk_results st)"
    using inv by (simp_all add: sdk_inv_def sdk_core_def)
  have tab: "sql_handles.table_ok (sk_services st)"
    using good by (simp add: sql_handles.all_good_def)
  note reg = sql_handles.register_table [OF tab opts(2)]
  have "\<not> referenced h st"
    using inv reg(2) by (simp add: sdk_inv_def)
  then have none: "owners (sk_results st) h i = {}" for i
    using referenced_iff [OF wf] by blast
  have "sql_handles.all_good service_ok services"
    using sql_handles.table_step_good [OF sql_handles.table_step.register [where good = service_ok, OF ok(1) opts(2)] good] by simp
  then have core': "sdk_core (st\<lparr>sk_services := services, sk_objects := h # sk_objects st\<rparr>)"
    using core none ok(2) by (auto simp: sdk_core_def results_match_def reg(5))
  have "referenced h' (st\<lparr>sk_services := services, sk_objects := h # sk_objects st\<rparr>) \<longleftrightarrow> find_handle h' services \<noteq> None" for h'
    using inv by (auto simp: sdk_inv_def referenced_def reg(5))
  then show ?thesis
    using core' made by (simp add: sql_construct_def sdk_inv_def)
qed

lemma sdk_poll_inv:
  assumes inv: "sdk_inv st" and k: "umap_find (sk_results st) k \<noteq> None"
  shows "sdk_inv (fst (sdk_poll d h k st))"
proof -
  define st1 where "st1 = result_reset d k st"
  have inv1: "sdk_inv st1"
    using result_reset_inv [OF inv] by (simp add: st1_def)
  have core: "sdk_core st1" and wf: "umap_wf (sk_results st1)"
    using inv1 by (simp_all add: sdk_inv_def sdk_core_def)
  have free: "k \<notin> owners (sk_results st1) h' i" for h' i
    using k by (intro owners_free) (simp add: st1_def result_reset_place)
  show ?thesis
  proof (cases "find_handle h (sk_services st1)")
    case None
    then show ?thesis
      using inv1 by (simp add: sdk_poll_def st1_def [symmetric] se_sql_poll_def with_sql_def Let_def)
  next
    case (Some s)
    obtain t status out where p: "sql_poll s = (t, status, out)" by (metis prod_cases3)
    note ok = poll_service [OF core_service [OF core Some] p]
    show ?thesis
    proof (cases out)
      case None
      then have "t = s" "status \<noteq> SE_OK" using ok by auto
      then have "fst (sdk_poll d h k st) = st1\<lparr>sk_services := put_handle h s (sk_services st1)\<rparr>"
        using Some p None
        by (cases status) (simp_all add: sdk_poll_def st1_def [symmetric] se_sql_poll_def with_sql_def Let_def)
      then show ?thesis
        using sdk_inv_put [OF inv1 Some, of s] core_service [OF core Some] by simp
    next
      case (Some x)
      then have d: "service_ok t" "status = SE_OK" "ou_request_id x \<notin> delivered s"
          "delivered t = insert (ou_request_id x) (delivered s)"
        using ok by auto
      let ?m = "umap_assign k \<lparr>rt_metadata = x, rt_owner = Some h\<rparr> (sk_results st1)"
      let ?st = "st1\<lparr>sk_services := put_handle h t (sk_services st1), sk_results := ?m\<rparr>"
      have own: "owners ?m h' i = owners (sk_results st1) h' i \<union> (if h' = h \<and> i = ou_request_id x then {k} else {})" for h' i
        using free by (auto simp: owners_assign)
      have "owners (sk_results st1) h (ou_request_id x) = {}"
        using core \<open>find_handle h (sk_services st1) = Some s\<close> d(3) by (simp add: sdk_core_def results_match_def)
      then have "results_match ?m (put_handle h t (sk_services st1))"
        using core \<open>find_handle h (sk_services st1) = Some s\<close> d(4) own by (auto simp: sdk_core_def results_match_def)
      then have core2: "sdk_core ?st"
        using core put_good [OF _ \<open>find_handle h (sk_services st1) = Some s\<close> d(1)] umap.wf_assign [OF wf]
        by (simp add: sdk_core_def)
      have "referenced h' ?st \<longleftrightarrow> referenced h' st1 \<or> h' = h" for h'
        using wf umap.wf_assign [OF wf] by (auto simp: referenced_iff own)
      then have "sdk_inv ?st"
        using core2 inv1 \<open>find_handle h (sk_services st1) = Some s\<close> by (simp add: sdk_inv_def)
      then show ?thesis
        using Some p d(2) \<open>find_handle h (sk_services st1) = Some s\<close>
        by (simp add: sdk_poll_def st1_def [symmetric] se_sql_poll_def with_sql_def Let_def)
    qed
  qed
qed

lemma sdk_step_inv: "sdk_step st st' \<Longrightarrow> sdk_inv st \<Longrightarrow> sdk_inv st'"
proof (induction rule: sdk_step.induct)
  case (query h st lay sql parameters count)
  then show ?case
    using sdk_inv_submit by (simp add: sdk_query_def)
next
  case (move_new st i j)
  then have "i \<noteq> j" by auto
  then show ?case
    using move_new result_transfer_inv [of st i j] by (simp add: result_move_construct_def)
qed (simp_all add: sql_construct_inv sql_destruct_inv sdk_inv_submit sdk_poll_inv sdk_inv_stop result_construct_inv
    result_reset_inv result_destruct_inv result_move_inv sdk_inv_work)

lemma sdk_inv_initial: "sdk_inv sdk_initial"
  using registries_new(2)
  by (simp add: sdk_inv_def sdk_core_def sdk_initial_def results_match_def referenced_def sql_handles.all_good_def
      find_handle_def SqlRegistry_new_def)

interpretation sdk: transition_system "\<lambda>st. st = sdk_initial" sdk_step sdk_inv
  by unfold_locales (auto simp: sdk_inv_initial intro: sdk_step_inv)

lemma sdk_inv_match:
  assumes "sdk_inv st" "find_handle h (sk_services st) = Some s"
  shows "if i \<in> delivered s then \<exists>k. owners (sk_results st) h i = {k} else owners (sk_results st) h i = {}"
  using assms by (simp add: sdk_inv_def sdk_core_def results_match_def)

lemma sdk_inv_live:
  assumes "sdk_inv st"
  shows "find_handle h (sk_services st) \<noteq> None \<longleftrightarrow>
      h \<in> set (sk_objects st) \<or> (\<exists>k r. umap_find (sk_results st) k = Some r \<and> rt_owner r = Some h)"
proof -
  have "referenced h st \<longleftrightarrow> find_handle h (sk_services st) \<noteq> None"
    using assms by (simp add: sdk_inv_def)
  then show ?thesis
    by (auto simp: referenced_iff [OF sdk_inv_wf [OF assms]] owners_def)
qed

lemma held_result_readable:
  assumes inv: "sdk_inv st" and r: "umap_find (sk_results st) k = Some r" "rt_owner r = Some h"
  shows "\<exists>s rq. find_handle h (sk_services st) = Some s
      \<and> umap_find (sq_requests s) (ou_request_id (rt_metadata r)) = Some rq \<and> rq_state rq = Rq_delivered"
proof -
  obtain s where s: "find_handle h (sk_services st) = Some s"
    using sdk_inv_live [OF inv, of h] r by auto
  have "k \<in> owners (sk_results st) h (ou_request_id (rt_metadata r))"
    using r by (simp add: owners_def)
  then have "ou_request_id (rt_metadata r) \<in> delivered s"
    using sdk_inv_match [OF inv s, of "ou_request_id (rt_metadata r)"] by (auto split: if_splits)
  then show ?thesis using s by (auto simp: delivered_def)
qed

lemma delivered_owned_once:
  assumes "sdk_inv st" "find_handle h (sk_services st) = Some s" "umap_find (sq_requests s) i = Some rq" "rq_state rq = Rq_delivered"
  shows "\<exists>!k. \<exists>r. umap_find (sk_results st) k = Some r \<and> rt_owner r = Some h \<and> ou_request_id (rt_metadata r) = i"
proof -
  have "i \<in> delivered s" using assms(3,4) by (auto simp: delivered_def)
  then obtain k where "owners (sk_results st) h i = {k}"
    using sdk_inv_match [OF assms(1,2), of i] by auto
  then have "\<exists>!k. k \<in> owners (sk_results st) h i" by auto
  then show ?thesis by (simp add: owners_def)
qed

text \<open>
  C24. Results and services of the C++ layer live exactly as long as they are needed. However an application
  creates, moves, polls into, resets and destroys its objects, while the workers run: a service exists
  exactly as long as some \<^verbatim>\<open>Sql\<close> or \<^verbatim>\<open>SqlResult\<close> object refers to it, so a result may outlive its \<^verbatim>\<open>Sql\<close>;
  the request of a result object is delivered and not released, so it can be read; and every delivered
  request belongs to exactly one object, so none is leaked and none is released twice.
\<close>

theorem sdk_ownership:
  assumes "sdk.reaches st"
  shows "(\<forall>h. find_handle h (sk_services st) \<noteq> None \<longleftrightarrow>
        h \<in> set (sk_objects st) \<or> (\<exists>k r. umap_find (sk_results st) k = Some r \<and> rt_owner r = Some h))
    \<and> (\<forall>k r h. umap_find (sk_results st) k = Some r \<and> rt_owner r = Some h \<longrightarrow>
        (\<exists>s rq. find_handle h (sk_services st) = Some s
           \<and> umap_find (sq_requests s) (ou_request_id (rt_metadata r)) = Some rq \<and> rq_state rq = Rq_delivered))
    \<and> (\<forall>h s i rq. find_handle h (sk_services st) = Some s \<and> umap_find (sq_requests s) i = Some rq
        \<and> rq_state rq = Rq_delivered \<longrightarrow>
        (\<exists>!k. \<exists>r. umap_find (sk_results st) k = Some r \<and> rt_owner r = Some h \<and> ou_request_id (rt_metadata r) = i))"
proof -
  have inv: "sdk_inv st" by (rule sdk.reaches_inv [OF assms])
  show ?thesis
  proof (intro conjI allI impI, goal_cases)
    case (1 h)
    show ?case by (rule sdk_inv_live [OF inv])
  next
    case (2 k r h)
    then show ?case using held_result_readable [OF inv] by blast
  next
    case (3 h s i rq)
    then show ?case by (elim conjE) (rule delivered_owned_once [OF inv])
  qed
qed

section \<open>A result that outlives its service object\<close>

definition sample_c_options :: sql_c_options where
  "sample_c_options = se_sql_options_init\<lparr>co_connection := Some ''game.db'', co_max_outstanding_requests := 2,
     co_max_request_bytes := 4096, co_max_result_bytes := 4096, co_max_rows := 10, co_max_columns := 4,
     co_query_timeout_ms := 100, co_busy_timeout_ms := 0, co_memory_budget_bytes := 65536\<rparr>"

definition sdk_at :: "u64 list \<Rightarrow> (nat, sdk_result) umap \<Rightarrow> sql_service \<Rightarrow> sdk_sql" where
  "sdk_at objects results s = \<lparr>sk_services = \<lparr>hg_next = 0x5300000000000002, hg_entries = [(0x5300000000000001, s)]\<rparr>,
     sk_objects = objects, sk_results = results\<rparr>"

definition seven_result_object :: sdk_result where
  "seven_result_object = \<lparr>rt_metadata = \<lparr>ou_request_id = 1, ou_status = SE_OK, ou_row_count = 1, ou_column_count = 1,
     ou_affected_rows = 0, ou_last_insert_id = 0, ou_message = []\<rparr>, rt_owner = Some 0x5300000000000001\<rparr>"

definition outlived :: sdk_sql where
  "outlived = sdk_at [] [(0, seven_result_object)] (stage Rq_delivered seven W_waiting)"

lemma sample_options_decode: "decode_options sample_c_options = Inr sample_sql_options"
  by (simp add: decode_options_def sample_c_options_def se_sql_options_init_def sample_sql_options_def c_string_def require_def)

lemma sdk_constructed:
  "fst (sql_construct (\<lambda>_. 0) sample_c_options sdk_initial) = sdk_at [0x5300000000000001] [] (SqlService_new sample_sql_options)"
  by (simp add: sql_construct_def se_sql_create_def sample_options_decode driver_open_def setup_calls_def run_setup.simps
      register_service_def sdk_initial_def SqlRegistry_new_def sdk_at_def umap_emplace_def sqlite_codes driver_check_def act_of_def act_bind_def should_cancel_def require_def)

lemma sdk_submitted:
  "fst (sdk_submit sample_layout 0x5300000000000001 (Some sample_sql) 1 (sdk_at objects results (SqlService_new sample_sql_options))) =
     sdk_at objects results (stage Rq_queued sql_result_new W_waiting)"
  by (simp add: sdk_submit_def se_sql_submit_def with_sql_def sdk_at_def find_handle_def umap_find_def put_handle_def stage_submitted [unfolded One_nat_def])

lemma sdk_worked:
  assumes "worker_step driver a = b"
  shows "sdk_step (sdk_at objects results a) (sdk_at objects results b)"
proof -
  have "find_handle 0x5300000000000001 (sk_services (sdk_at objects results a)) = Some a"
    by (simp add: sdk_at_def find_handle_def umap_find_def)
  from sdk_step.work [OF this, of driver] show ?thesis
    using assms by (simp add: sdk_at_def put_handle_def)
qed

lemma sdk_polled:
  "fst (sdk_poll driver 0x5300000000000001 0 (sdk_at [0x5300000000000001] [(0, blank_result)] (stage Rq_complete seven W_waiting))) =
     sdk_at [0x5300000000000001] [(0, seven_result_object)] (stage Rq_delivered seven W_waiting)"
  by (simp add: sdk_poll_def result_reset_def release_held_def se_sql_poll_def with_sql_def sdk_at_def find_handle_def umap_find_def
      put_handle_def sql_poll_def stage_def find_state_def set_request_def result_output_def seven_result_object_def seven_def
      sql_result_new_def Let_def)

lemma sdk_destructed:
  "sql_destruct driver 0x5300000000000001 (sdk_at [0x5300000000000001] [(0, seven_result_object)] s) = sdk_at [] [(0, seven_result_object)] s"
  by (simp add: sql_destruct_def drop_owner_def referenced_def sdk_at_def seven_result_object_def)

lemma outlived_reached: "sdk.reaches outlived"
proof -
  let ?h = "0x5300000000000001 :: u64" and ?blank = "[(0 :: nat, blank_result)]"
  have stages: "worker_step rq_result (stage Rq_queued sql_result_new W_waiting) = stage Rq_running sql_result_new (W_taken 1)"
      "worker_step (\<lambda>_. seven) (stage Rq_running sql_result_new (W_taken 1)) = stage Rq_running seven (W_executed 1)"
      "worker_step rq_result (stage Rq_running seven (W_executed 1)) = stage Rq_complete seven W_waiting"
    by (simp_all add: stage_def worker_step_def worker_take_def worker_execute_def worker_publish_def find_state_def set_request_def umap_find_def)
  have "sdk.reaches (sdk_at [?h] [] (SqlService_new sample_sql_options))"
    using sdk.reaches.step [OF sdk.reaches.here [OF refl] sdk_step.construct] sdk_constructed by metis
  then have "sdk.reaches (sdk_at [?h] ?blank (SqlService_new sample_sql_options))"
    using sdk.reaches.step [OF _ sdk_step.result_new, of "sdk_at [?h] [] (SqlService_new sample_sql_options)" 0]
    by (simp add: sdk_at_def result_construct_def)
  then have "sdk.reaches (sdk_at [?h] ?blank (stage Rq_queued sql_result_new W_waiting))"
    using sdk.reaches.step [OF _ sdk_step.submit, of "sdk_at [?h] ?blank (SqlService_new sample_sql_options)" ?h sample_layout "Some sample_sql" 1]
    unfolding sdk_submitted by (simp add: sdk_at_def)
  then have "sdk.reaches (sdk_at [?h] ?blank (stage Rq_complete seven W_waiting))"
    by (intro sdk.reaches.step [OF sdk.reaches.step [OF sdk.reaches.step [OF _ sdk_worked [OF stages(1)]] sdk_worked [OF stages(2)]] sdk_worked [OF stages(3)]])
  then have "sdk.reaches (sdk_at [?h] [(0, seven_result_object)] (stage Rq_delivered seven W_waiting))"
    using sdk.reaches.step [OF _ sdk_step.poll, of "sdk_at [?h] ?blank (stage Rq_complete seven W_waiting)" ?h 0 rq_result]
    unfolding sdk_polled by (simp add: sdk_at_def umap_find_def)
  then show ?thesis
    using sdk.reaches.step [OF _ sdk_step.destruct, of "sdk_at [?h] [(0, seven_result_object)] (stage Rq_delivered seven W_waiting)" ?h rq_result]
    unfolding sdk_destructed outlived_def by (simp add: sdk_at_def)
qed

theorem sdk_ownership_witness:
  "sk_objects outlived = [] \<and> find_handle 0x5300000000000001 (sk_services outlived) \<noteq> None
   \<and> result_integer 0 0 seven_result_object (sk_services outlived) = Inr 7"
proof -
  have "find_handle 0x5300000000000001 (sk_services outlived) \<noteq> None"
    using sdk_ownership [OF outlived_reached] by (simp add: outlived_def sdk_at_def umap_find_def seven_result_object_def)
  then show ?thesis
    by (simp add: outlived_def sdk_at_def result_integer_def ensure_result_def seven_result_object_def se_sql_get_cell_def with_sql_def
        find_handle_def umap_find_def stage_def read_result_def read_cell_out_def seven_def blank_value_def Let_def)
qed

end
