(* ===== verification/Player_Store.thy ===== *)
theory Player_Store
  imports Cpp_Sql
begin

text \<open>
  \<^verbatim>\<open>PlayerStore\<close> of the game server (src/examples/GameServer/PlayerStore.cpp): the application's table of the SQL
  requests it is waiting for, over a service of the engine. The store owns its \<^verbatim>\<open>Sql\<close> object and no result
  outlives a call of \<^verbatim>\<open>poll\<close>, so the service is there as long as the store; the service itself is part of the state.
\<close>

section \<open>State\<close>

datatype store_operation = Op_open | Op_save | Op_close | Op_history

record store_pending =
  pd_session :: u64
  pd_operation :: store_operation

record store_completion =
  sc_request_id :: u64
  sc_session :: u64
  sc_operation :: store_operation
  sc_status :: se_status
  sc_message :: string
  sc_stored_messages :: int

record player_store =
  ps_sql :: sql_service
  ps_run_id :: int
  ps_pending :: "(u64, store_pending) umap"

section \<open>Opening the store\<close>

definition database_options :: "string \<Rightarrow> sql_c_options" where
  "database_options filename = se_sql_options_init\<lparr>co_connection := Some filename, co_max_outstanding_requests := 512,
     co_max_result_bytes := 64 * 1024\<rparr>"

definition migrations :: "string list" where
  "migrations =
     [''CREATE TABLE IF NOT EXISTS engine_runs (id INTEGER PRIMARY KEY AUTOINCREMENT, '' @
      ''opened_utc TEXT NOT NULL DEFAULT (strftime('' @ [CHR 0x27] @ ''%Y-%m-%dT%H:%M:%fZ'' @ [CHR 0x27] @ '','' @ [CHR 0x27] @ ''now'' @ [CHR 0x27] @ '')))'',
      ''CREATE TABLE IF NOT EXISTS engine_connections (run_id INTEGER NOT NULL, session_id INTEGER NOT NULL, '' @
      ''protocol INTEGER NOT NULL, peer_address TEXT NOT NULL, messages INTEGER NOT NULL DEFAULT 0, '' @
      ''opened_utc TEXT NOT NULL DEFAULT (strftime('' @ [CHR 0x27] @ ''%Y-%m-%dT%H:%M:%fZ'' @ [CHR 0x27] @ '','' @ [CHR 0x27] @ ''now'' @ [CHR 0x27] @ '')), closed_utc TEXT, '' @
      ''PRIMARY KEY(run_id,session_id))'',
      ''INSERT INTO engine_runs DEFAULT VALUES'']"

definition plain_statement :: "string \<Rightarrow> sql_c_statement" where
  "plain_statement sql = \<lparr>cs_sql = Some sql, cs_sql_size = length sql, cs_parameter_count = 0, cs_parameters = None\<rparr>"

text \<open>The submission and the poll of the C++ layer on the store's own service.\<close>

definition sql_call_submit ::
  "layout \<Rightarrow> sql_c_statement list \<Rightarrow> sql_service \<Rightarrow> sql_service \<times> (sdk_throw + u64)" where
  "sql_call_submit lay statements s =
     map_prod id (\<lambda>r. sdk_call (ok_body r)) (sql_submit lay (Some statements) (length statements) s)"

definition sql_call_query ::
  "layout \<Rightarrow> string \<Rightarrow> sql_parameter list \<Rightarrow> sql_service \<Rightarrow> sql_service \<times> (sdk_throw + u64)" where
  "sql_call_query lay sql parameters s =
     (if length sql > 4294967295 then (s, Inl (Length_error ''SQL text exceeds ABI size''))
      else sql_call_submit lay [\<lparr>cs_sql = Some sql, cs_sql_size = length sql, cs_parameter_count = length parameters,
             cs_parameters = Some parameters\<rparr>] s)"

text \<open>\<open>wait\<close> is what the worker does while the constructor waits for its migration.\<close>

definition store_construct ::
  "layout \<Rightarrow> (setup_call \<Rightarrow> nat) \<Rightarrow> (sql_service \<Rightarrow> sql_service) \<Rightarrow> string \<Rightarrow> sdk_throw + player_store" where
  "store_construct lay codes wait filename =
     (case sdk_call (ok_body (and_then (decode_options (database_options filename)) (\<lambda>opts.
              and_then (snd (driver_open opts codes)) (\<lambda>_. Inr opts)))) of
        Inl x \<Rightarrow> Inl x
      | Inr opts \<Rightarrow>
          (case sql_call_submit lay (map plain_statement migrations) (SqlService_new opts) of
             (s, Inl x) \<Rightarrow> Inl x
           | (s, Inr request) \<Rightarrow>
               (case sql_poll (wait s) of
                  (t, SE_OK, Some out) \<Rightarrow>
                    (if ou_request_id out \<noteq> request
                     then Inl (Runtime_error ''Database startup migration did not complete'')
                     else if ou_status out \<noteq> SE_OK then Inl (Runtime_error (ou_message out))
                     else Inr \<lparr>ps_sql = fst (sql_release request t), ps_run_id = ou_last_insert_id out, ps_pending = []\<rparr>)
                | _ \<Rightarrow> Inl (Runtime_error ''Database startup migration did not complete''))))"

section \<open>Operations\<close>

definition integer_parameter :: "int \<Rightarrow> sql_parameter" where
  "integer_parameter v = \<lparr>pa_type = SE_SQL_INT64, pa_size = 0, pa_integer = v, pa_real = 0, pa_data = None\<rparr>"

definition text_parameter :: "string \<Rightarrow> sql_parameter" where
  "text_parameter v = \<lparr>pa_type = SE_SQL_TEXT, pa_size = length v mod W32, pa_integer = 0, pa_real = 0, pa_data = Some v\<rparr>"

definition database_session :: "u64 \<Rightarrow> sdk_throw + int" where
  "database_session session =
     (if unat session > 9223372036854775807 then Inl (Overflow_error ''Session ID exceeds SQL integer range'')
      else Inr (int (unat session)))"

text \<open>The slot under key zero is taken before the request is submitted and then gets its real key.\<close>

definition store_submit ::
  "layout \<Rightarrow> u64 \<Rightarrow> store_operation \<Rightarrow> string \<Rightarrow> sql_parameter list \<Rightarrow> player_store \<Rightarrow> player_store \<times> (sdk_throw + u64)" where
  "store_submit lay session operation sql parameters ps =
     (case umap_emplace 0 \<lparr>pd_session = session, pd_operation = operation\<rparr> (ps_pending ps) of
        (m, False) \<Rightarrow> (ps, Inl (Logic_error ''SQL submit cannot reenter application tracking''))
      | (m, True) \<Rightarrow>
          (case sql_call_query lay sql parameters (ps_sql ps) of
             (s, Inl x) \<Rightarrow> (ps\<lparr>ps_sql := s, ps_pending := umap_erase 0 m\<rparr>, Inl x)
           | (s, Inr request) \<Rightarrow>
               (ps\<lparr>ps_sql := s, ps_pending := fst (umap_emplace request
                   \<lparr>pd_session = session, pd_operation = operation\<rparr> (umap_erase 0 m))\<rparr>, Inr request)))"

definition with_session ::
  "u64 \<Rightarrow> (int \<Rightarrow> player_store \<Rightarrow> player_store \<times> (sdk_throw + u64)) \<Rightarrow> player_store \<Rightarrow> player_store \<times> (sdk_throw + u64)" where
  "with_session session f ps = (case database_session session of Inl x \<Rightarrow> (ps, Inl x) | Inr key \<Rightarrow> f key ps)"

definition open_connection ::
  "layout \<Rightarrow> u64 \<Rightarrow> nat \<Rightarrow> string \<Rightarrow> player_store \<Rightarrow> player_store \<times> (sdk_throw + u64)" where
  "open_connection lay session protocol address ps =
     with_session session (\<lambda>key. store_submit lay session Op_open
       ''INSERT INTO engine_connections(run_id,session_id,protocol,peer_address) VALUES(?,?,?,?)''
       [integer_parameter (ps_run_id ps), integer_parameter key, integer_parameter (int protocol), text_parameter address]) ps"

definition store_update :: "layout \<Rightarrow> u64 \<Rightarrow> int \<Rightarrow> bool \<Rightarrow> player_store \<Rightarrow> player_store \<times> (sdk_throw + u64)" where
  "store_update lay session count closed ps =
     with_session session (\<lambda>key. store_submit lay session (if closed then Op_close else Op_save)
       (if closed
        then ''UPDATE engine_connections SET messages=?,closed_utc=strftime('' @ [CHR 0x27] @ ''%Y-%m-%dT%H:%M:%fZ'' @ [CHR 0x27] @
             '','' @ [CHR 0x27] @ ''now'' @ [CHR 0x27] @ '') WHERE run_id=? AND session_id=?''
        else ''UPDATE engine_connections SET messages=? WHERE run_id=? AND session_id=?'')
       [integer_parameter count, integer_parameter (ps_run_id ps), integer_parameter key]) ps"

definition save_message_count :: "layout \<Rightarrow> u64 \<Rightarrow> int \<Rightarrow> player_store \<Rightarrow> player_store \<times> (sdk_throw + u64)" where
  "save_message_count lay session count = store_update lay session count False"

definition close_connection :: "layout \<Rightarrow> u64 \<Rightarrow> int \<Rightarrow> player_store \<Rightarrow> player_store \<times> (sdk_throw + u64)" where
  "close_connection lay session count = store_update lay session count True"

definition load_history :: "layout \<Rightarrow> u64 \<Rightarrow> player_store \<Rightarrow> player_store \<times> (sdk_throw + u64)" where
  "load_history lay session ps =
     with_session session (\<lambda>key. store_submit lay session Op_history
       ''SELECT messages FROM engine_connections WHERE run_id=? AND session_id=?''
       [integer_parameter (ps_run_id ps), integer_parameter key]) ps"

text \<open>The integer in a cell of the result just polled.\<close>

definition polled_integer :: "nat \<Rightarrow> nat \<Rightarrow> sql_output \<Rightarrow> sql_service \<Rightarrow> sdk_throw + int" where
  "polled_integer row column out s =
     (if ou_status out \<noteq> SE_OK then Inl (Runtime_error (ou_message out))
      else
        (case sdk_call (read_result (ou_request_id out) (read_cell_out row column 0) s) of
           Inl x \<Rightarrow> Inl x
         | Inr (cell, _) \<Rightarrow>
             (if ce_type cell \<noteq> SE_SQL_INT64 then Inl (Runtime_error ''Expected SQL integer'') else Inr (ce_integer cell))))"

definition completion_of :: "sql_output \<Rightarrow> store_pending \<Rightarrow> store_completion" where
  "completion_of out p = \<lparr>sc_request_id = ou_request_id out, sc_session = pd_session p, sc_operation = pd_operation p,
     sc_status = ou_status out, sc_message = ou_message out, sc_stored_messages = 0\<rparr>"

text \<open>The completion after the rows of a history query were looked at.\<close>

definition history_checked :: "sql_output \<Rightarrow> sql_service \<Rightarrow> store_completion \<Rightarrow> sdk_throw + store_completion" where
  "history_checked out s c =
     (if sc_status c = SE_OK \<and> sc_operation c = Op_history then
        (if ou_row_count out \<noteq> 1 then Inr (c\<lparr>sc_status := SE_IO_ERROR, sc_message := ''No stored session found''\<rparr>)
         else (case polled_integer 0 0 out s of Inl x \<Rightarrow> Inl x | Inr n \<Rightarrow> Inr (c\<lparr>sc_stored_messages := n\<rparr>)))
      else Inr c)"

text \<open>\<open>Inr None\<close> is the answer false. The result object releases its request when the call ends, on every path.\<close>

definition store_poll :: "player_store \<Rightarrow> player_store \<times> (sdk_throw + store_completion option)" where
  "store_poll ps =
     (case sql_poll (ps_sql ps) of
        (s, SE_OK, Some out) \<Rightarrow>
          (let released = fst (sql_release (ou_request_id out) s) in
           case umap_find (ps_pending ps) (ou_request_id out) of
             None \<Rightarrow> (ps\<lparr>ps_sql := released\<rparr>, Inl (Runtime_error ''Database completion has no matching application request''))
           | Some p \<Rightarrow>
               (ps\<lparr>ps_sql := released, ps_pending := umap_erase (ou_request_id out) (ps_pending ps)\<rparr>,
                map_sum id Some (history_checked out s (completion_of out p))))
      | (s, status, _) \<Rightarrow> (ps\<lparr>ps_sql := s\<rparr>, map_sum id (\<lambda>_. None) (poll_status (Inr (status, ())))))"

definition store_stop :: "(sql_request \<Rightarrow> sql_result) \<Rightarrow> player_store \<Rightarrow> player_store" where
  "store_stop driver ps = ps\<lparr>ps_sql := sql_join driver (ps_sql ps)\<rparr>"

definition pending_count :: "player_store \<Rightarrow> nat" where
  "pending_count ps = umap_size (ps_pending ps)"

inductive store_step :: "player_store \<Rightarrow> player_store \<Rightarrow> bool" where
  opened: "store_step ps (fst (open_connection lay session protocol address ps))"
| saved: "store_step ps (fst (save_message_count lay session count ps))"
| closed: "store_step ps (fst (close_connection lay session count ps))"
| history: "store_step ps (fst (load_history lay session ps))"
| polled: "store_step ps (fst (store_poll ps))"
| worked: "store_step ps (ps\<lparr>ps_sql := worker_step driver (ps_sql ps)\<rparr>)"
| stopped: "store_step ps (store_stop driver ps)"

section \<open>Tracking\<close>

text \<open>Every request that the service still owes is in the table, and nothing else is.\<close>

definition store_inv :: "player_store \<Rightarrow> bool" where
  "store_inv ps \<longleftrightarrow> service_ok (ps_sql ps) \<and> delivered (ps_sql ps) = {} \<and> umap_wf (ps_pending ps)
     \<and> (\<forall>i. umap_find (ps_pending ps) i \<noteq> None \<longleftrightarrow> i \<in> sql_outstanding (ps_sql ps))"

lemma outstanding_nonzero: "service_ok s \<Longrightarrow> 0 \<notin> sql_outstanding s"
  by (simp add: service_ok_def ids_ok_def sql_outstanding_def)

lemma submit_outstanding:
  assumes "service_ok s" and "sql_submit lay src n s = (t, res)"
  shows "case res of Inl e \<Rightarrow> t = s | Inr i \<Rightarrow> i \<notin> sql_outstanding s \<and> i \<noteq> 0 \<and> sql_outstanding t = insert i (sql_outstanding s)"
proof (cases res)
  case (Inl e)
  then show ?thesis using assms(2) sql_submit_refused by simp
next
  case (Inr i)
  have inv: "sql_inv s" "ids_ok s" using assms(1) by (simp_all add: service_ok_def)
  obtain rq where rq: "copy_request lay src n (sq_options s) = Inr rq" "i = sq_next_id s"
    and t: "t = s\<lparr>sq_next_id := i + 1, sq_requests := umap_assign i (rq\<lparr>rq_id := i\<rparr>) (sq_requests s),
           sq_reserved_bytes := sq_reserved_bytes s + rq_reserved_bytes rq\<rparr>"
    by (rule sql_submit_accepted [OF inv(1) assms(2) [unfolded Inr]])
  show ?thesis
    using Inr inv(2) rq(2) next_id_absent(1) [OF inv(1)] copy_request_queued [OF rq(1)]
    by (auto simp: t sql_outstanding_def ids_ok_def split: if_splits)
qed

lemma call_submit_cases:
  assumes "service_ok s" and "sql_call_submit lay statements s = (t, res)"
  shows "service_ok t \<and> delivered t = delivered s
    \<and> (case res of Inl x \<Rightarrow> t = s | Inr i \<Rightarrow> i \<notin> sql_outstanding s \<and> i \<noteq> 0 \<and> sql_outstanding t = insert i (sql_outstanding s))"
proof -
  obtain t' r where sub: "sql_submit lay (Some statements) (length statements) s = (t', r)" by force
  have r: "t' = t" "sdk_call (ok_body r) = res"
    using assms(2) sub by (simp_all add: sql_call_submit_def)
  have kept: "service_ok t \<and> delivered t = delivered s"
    using submit_service [OF assms(1), of lay "Some statements" "length statements"] sub r(1) by simp
  show ?thesis
  proof (cases r)
    case (Inl e)
    then obtain x where "res = Inl x"
      using r(2) sdk_call_Inl [of e, where 'a = u64] by (auto simp: ok_body_def and_then_def)
    then show ?thesis
      using submit_outstanding [OF assms(1) sub] Inl r(1) kept by simp
  next
    case (Inr i)
    then have "res = Inr i"
      using r(2) by (auto simp: ok_body_def and_then_def)
    then show ?thesis
      using submit_outstanding [OF assms(1) sub] Inr r(1) kept by simp
  qed
qed

lemma call_query_cases:
  assumes "service_ok s" and "sql_call_query lay sql parameters s = (t, res)"
  shows "service_ok t \<and> delivered t = delivered s
    \<and> (case res of Inl x \<Rightarrow> t = s | Inr i \<Rightarrow> i \<notin> sql_outstanding s \<and> i \<noteq> 0 \<and> sql_outstanding t = insert i (sql_outstanding s))"
  using assms call_submit_cases [OF assms(1)] by (auto simp: sql_call_query_def split: if_splits)

lemma sdk_call_runtime: "sdk_call body = Inl x \<Longrightarrow> \<exists>m. x = Runtime_error m"
  by (auto simp: sdk_call_def sdk_require_def split: sum.splits prod.splits if_splits)

lemma umap_erase_assign: "umap_wf m \<Longrightarrow> umap_find m k = None \<Longrightarrow> umap_find (umap_erase k (umap_assign k v m)) = umap_find m"
  by (auto simp: fun_eq_iff)

lemma store_submit_spec:
  assumes inv: "store_inv ps" and run: "store_submit lay session operation sql parameters ps = (ps', res)"
  shows "store_inv ps' \<and> ps_run_id ps' = ps_run_id ps
    \<and> (case res of
         Inl x \<Rightarrow> ps_sql ps' = ps_sql ps \<and> umap_find (ps_pending ps') = umap_find (ps_pending ps)
           \<and> x \<noteq> Logic_error ''SQL submit cannot reenter application tracking''
       | Inr i \<Rightarrow> umap_find (ps_pending ps) i = None
           \<and> umap_find (ps_pending ps') = (umap_find (ps_pending ps))(i \<mapsto> \<lparr>pd_session = session, pd_operation = operation\<rparr>))"
proof -
  let ?p = "\<lparr>pd_session = session, pd_operation = operation\<rparr>"
  have ok: "service_ok (ps_sql ps)" "umap_wf (ps_pending ps)" "delivered (ps_sql ps) = {}"
    and keys: "\<And>i. umap_find (ps_pending ps) i \<noteq> None \<longleftrightarrow> i \<in> sql_outstanding (ps_sql ps)"
    using inv by (simp_all add: store_inv_def)
  have zero: "umap_find (ps_pending ps) 0 = None"
    using keys outstanding_nonzero [OF ok(1)] by blast
  define m where "m = umap_erase 0 (umap_assign 0 ?p (ps_pending ps))"
  have m: "umap_wf m" "umap_find m = umap_find (ps_pending ps)"
    using ok(2) umap_erase_assign [OF ok(2) zero] by (simp_all add: m_def umap.wf_assign umap.wf_erase)
  obtain s r where q: "sql_call_query lay sql parameters (ps_sql ps) = (s, r)" by force
  note c = call_query_cases [OF ok(1) q]
  show ?thesis
  proof (cases r)
    case (Inl x)
    have "x \<noteq> Logic_error ''SQL submit cannot reenter application tracking''"
      using q Inl sdk_call_runtime by (fastforce simp: sql_call_query_def sql_call_submit_def map_prod_def split: if_splits prod.splits)
    moreover have "ps' = ps\<lparr>ps_sql := s, ps_pending := m\<rparr>" "res = Inl x"
      using run q Inl zero by (simp_all add: store_submit_def umap_emplace_def m_def)
    ultimately show ?thesis
      using c Inl m inv ok by (simp add: store_inv_def)
  next
    case (Inr i)
    then have i: "i \<notin> sql_outstanding (ps_sql ps)" "sql_outstanding s = insert i (sql_outstanding (ps_sql ps))"
      using c by simp_all
    then have fresh: "umap_find m i = None"
      using keys [of i] m(2) by auto
    then have "ps' = ps\<lparr>ps_sql := s, ps_pending := umap_assign i ?p m\<rparr>" "res = Inr i"
      using run q Inr zero by (simp_all add: store_submit_def umap_emplace_def m_def [symmetric])
    then show ?thesis
      using c Inr m ok keys i fresh by (auto simp: store_inv_def umap.wf_assign fun_eq_iff)
  qed
qed

lemma with_session_inv:
  assumes "store_inv ps" "\<And>key. store_inv (fst (f key ps))"
  shows "store_inv (fst (with_session session f ps))"
  using assms by (simp add: with_session_def split: sum.split)

lemma store_submit_inv: "store_inv ps \<Longrightarrow> store_inv (fst (store_submit lay session operation sql parameters ps))"
  using store_submit_spec by (metis prod.collapse)

lemma store_operations_inv:
  assumes "store_inv ps"
  shows "store_inv (fst (open_connection lay session protocol address ps))"
    "store_inv (fst (store_update lay session count is_closed ps))" "store_inv (fst (load_history lay session ps))"
  using assms by (simp_all add: open_connection_def store_update_def load_history_def with_session_inv store_submit_inv)

lemma poll_outstanding:
  assumes "service_ok s" "delivered s = {}" "sql_poll s = (t, SE_OK, Some out)"
  shows "ou_request_id out \<in> sql_outstanding s"
    and "service_ok (fst (sql_release (ou_request_id out) t)) \<and> delivered (fst (sql_release (ou_request_id out) t)) = {}"
    and "sql_outstanding (fst (sql_release (ou_request_id out) t)) = sql_outstanding s - {ou_request_id out}"
proof -
  have inv: "sql_inv s" using assms(1) by (simp add: service_ok_def)
  obtain rq where rq: "find_state Rq_complete s = Some rq" "t = set_request (rq\<lparr>rq_state := Rq_delivered\<rparr>) s"
      "out = result_output rq"
    using assms(3) by (cases "find_state Rq_complete s") (auto simp: sql_poll_def split: if_splits)
  note f = find_state_Some [OF inv rq(1)]
  have i: "ou_request_id out = rq_id rq"
    by (simp add: rq(3) result_output_def)
  show "ou_request_id out \<in> sql_outstanding s"
    using f by (auto simp: i sql_outstanding_def)
  have p: "service_ok t" "delivered t = insert (rq_id rq) (delivered s)"
    using poll_service [OF assms(1,3)] i by auto
  show "service_ok (fst (sql_release (ou_request_id out) t)) \<and> delivered (fst (sql_release (ou_request_id out) t)) = {}"
    using release_service [OF p(1), of "rq_id rq"] p(2) assms(2) by (auto simp: i)
  show "sql_outstanding (fst (sql_release (ou_request_id out) t)) = sql_outstanding s - {ou_request_id out}"
    using f by (auto simp: i sql_outstanding_def rq(2) sql_release_def set_request_def split: if_splits)
qed

lemma store_poll_spec:
  assumes inv: "store_inv ps" and run: "store_poll ps = (ps', res)"
  shows "store_inv ps'
    \<and> (res = Inr None \<and> ps' = ps
       \<or> (\<exists>i p. umap_find (ps_pending ps) i = Some p \<and> umap_find (ps_pending ps') = (umap_find (ps_pending ps))(i := None)
           \<and> (case res of
                Inl x \<Rightarrow> pd_operation p = Op_history
              | Inr c \<Rightarrow> \<exists>c'. c = Some c' \<and> sc_request_id c' = i \<and> sc_session c' = pd_session p \<and> sc_operation c' = pd_operation p)))"
proof -
  have ok: "service_ok (ps_sql ps)" "umap_wf (ps_pending ps)" "delivered (ps_sql ps) = {}"
    and keys: "\<And>i. umap_find (ps_pending ps) i \<noteq> None \<longleftrightarrow> i \<in> sql_outstanding (ps_sql ps)"
    using inv by (simp_all add: store_inv_def)
  obtain s status out where p: "sql_poll (ps_sql ps) = (s, status, out)" by (metis prod_cases3)
  note c = poll_service [OF ok(1) p]
  show ?thesis
  proof (cases out)
    case None
    then have n: "s = ps_sql ps" "status \<in> {SE_STOPPED, SE_TIMEOUT}"
      using p by (auto simp: sql_poll_def split: option.splits if_splits)
    then have "store_poll ps = (ps, Inr None)"
      using p None by (auto simp: store_poll_def poll_status_positive)
    then show ?thesis
      using inv run by simp
  next
    case (Some x)
    then have okp: "sql_poll (ps_sql ps) = (s, SE_OK, Some x)"
      using c p by auto
    define i where "i = ou_request_id x"
    note o = poll_outstanding [OF ok(1,3) okp, folded i_def]
    obtain q where q: "umap_find (ps_pending ps) i = Some q"
      using keys [of i] o(1) by auto
    have r: "ps' = ps\<lparr>ps_sql := fst (sql_release i s), ps_pending := umap_erase i (ps_pending ps)\<rparr>"
        "res = map_sum id Some (history_checked x s (completion_of x q))"
      using run okp q by (simp_all add: store_poll_def i_def Let_def)
    have "store_inv ps'"
      using o ok keys by (auto simp: r(1) store_inv_def umap.wf_erase split: if_splits)
    moreover have "umap_find (ps_pending ps') = (umap_find (ps_pending ps))(i := None)"
      using ok(2) by (auto simp: r(1) fun_eq_iff)
    moreover have "case res of Inl x \<Rightarrow> pd_operation q = Op_history
        | Inr c \<Rightarrow> \<exists>c'. c = Some c' \<and> sc_request_id c' = i \<and> sc_session c' = pd_session q \<and> sc_operation c' = pd_operation q"
      by (auto simp: r(2) history_checked_def completion_of_def i_def split: sum.splits)
    ultimately show ?thesis
      using q by blast
  qed
qed

section \<open>From the constructor on\<close>

definition store_initial :: "player_store \<Rightarrow> bool" where
  "store_initial ps \<longleftrightarrow> (\<exists>lay codes driver n filename. store_construct lay codes (worker_step driver ^^ n) filename = Inr ps)"

lemma workers_outstanding: "service_ok s \<Longrightarrow> sql_outstanding ((worker_step d ^^ n) s) = sql_outstanding s"
  by (induction n) (use workers_service in \<open>auto simp: worker_step_outstanding service_ok_def\<close>)

lemma join_outstanding: "service_ok s \<Longrightarrow> sql_outstanding (sql_join d s) = sql_outstanding s"
proof -
  assume "service_ok s"
  then have "service_ok (sql_stop s)"
    using sql_inv_stop [of s] by (simp add: service_ok_def ids_ok_def sql_stop_def)
  then show ?thesis
    using workers_outstanding [of "sql_stop s"] by (simp add: sql_join_def sql_outstanding_def sql_stop_def)
qed

lemma store_construct_inv:
  assumes "store_construct lay codes (worker_step d ^^ n) filename = Inr ps"
  shows "store_inv ps"
proof -
  obtain opts s request t out where opts: "decode_options (database_options filename) = Inr opts"
    and sub: "sql_call_submit lay (map plain_statement migrations) (SqlService_new opts) = (s, Inr request)"
    and poll: "sql_poll ((worker_step d ^^ n) s) = (t, SE_OK, Some out)" "ou_request_id out = request"
    and ps: "ps = \<lparr>ps_sql = fst (sql_release request t), ps_run_id = ou_last_insert_id out, ps_pending = []\<rparr>"
    using assms
    by (auto simp: store_construct_def sdk_call_def ok_body_def and_then_def
        split: sum.splits prod.splits option.splits se_status.splits if_splits)
  have new: "service_ok (SqlService_new opts)" "delivered (SqlService_new opts) = {}" "sql_outstanding (SqlService_new opts) = {}"
    using sql_inv_new [OF decode_options_ok [OF opts]]
    by (simp_all add: service_ok_def ids_ok_def delivered_def sql_outstanding_def SqlService_new_def)
  have one: "service_ok s" "delivered s = {}" "sql_outstanding s = {request}"
    using call_submit_cases [OF new(1) sub] new by simp_all
  note w = workers_service [OF one(1), of n d] workers_outstanding [OF one(1), of n d]
  show ?thesis
    using poll_outstanding [OF _ _ poll(1)] w one poll(2) by (simp add: ps store_inv_def)
qed

lemma store_step_inv: "store_step ps ps' \<Longrightarrow> store_inv ps \<Longrightarrow> store_inv ps'"
proof (induction rule: store_step.induct)
  case (polled ps)
  then show ?case
    using store_poll_spec [of ps "fst (store_poll ps)" "snd (store_poll ps)"] by simp
next
  case (worked ps driver)
  then show ?case
    using worker_service [of "ps_sql ps" driver] worker_step_outstanding [of "ps_sql ps" driver]
    by (simp add: store_inv_def service_ok_def)
next
  case (stopped ps driver)
  then show ?case
    using join_service [of "ps_sql ps" driver] join_outstanding [of "ps_sql ps" driver]
    by (simp add: store_inv_def store_stop_def)
qed (simp_all add: store_operations_inv save_message_count_def close_connection_def)

interpretation store: transition_system store_initial store_step store_inv
  by unfold_locales (auto simp: store_initial_def store_construct_inv intro: store_step_inv)

text \<open>
  C25. The game server's table of database requests is exact. In every state of the store, whatever it submitted and
  however the worker ran: a request is in the table exactly when the service accepted it and has not answered it yet;
  a submission that is accepted adds its own entry under a fresh number and touches no other, one that is refused
  changes nothing; and every answer finds its entry, so a completion always carries the session and the operation
  that its submission recorded, and \<^verbatim>\<open>Database completion has no matching application request\<close> is never thrown.
\<close>

theorem player_store_tracks:
  assumes "store.reaches ps"
  shows "(\<forall>i. umap_find (ps_pending ps) i \<noteq> None \<longleftrightarrow> i \<in> sql_outstanding (ps_sql ps))
    \<and> (\<forall>lay session operation sql parameters ps' res. store_submit lay session operation sql parameters ps = (ps', res) \<longrightarrow>
        (case res of
           Inl x \<Rightarrow> ps_sql ps' = ps_sql ps \<and> umap_find (ps_pending ps') = umap_find (ps_pending ps)
         | Inr i \<Rightarrow> umap_find (ps_pending ps) i = None
             \<and> umap_find (ps_pending ps') = (umap_find (ps_pending ps))(i \<mapsto> \<lparr>pd_session = session, pd_operation = operation\<rparr>)))
    \<and> (\<forall>ps' res. store_poll ps = (ps', res) \<longrightarrow>
        res = Inr None \<and> ps' = ps
        \<or> (\<exists>i p. umap_find (ps_pending ps) i = Some p \<and> umap_find (ps_pending ps') = (umap_find (ps_pending ps))(i := None)
            \<and> (case res of
                 Inl x \<Rightarrow> pd_operation p = Op_history
               | Inr c \<Rightarrow> \<exists>c'. c = Some c' \<and> sc_request_id c' = i \<and> sc_session c' = pd_session p \<and> sc_operation c' = pd_operation p)))"
proof -
  have inv: "store_inv ps" by (rule store.reaches_inv [OF assms])
  show ?thesis
  proof (intro conjI allI impI)
    fix lay session operation sql parameters ps' res
    assume run: "store_submit lay session operation sql parameters ps = (ps', res)"
    show "case res of
           Inl x \<Rightarrow> ps_sql ps' = ps_sql ps \<and> umap_find (ps_pending ps') = umap_find (ps_pending ps)
         | Inr i \<Rightarrow> umap_find (ps_pending ps) i = None
             \<and> umap_find (ps_pending ps') = (umap_find (ps_pending ps))(i \<mapsto> \<lparr>pd_session = session, pd_operation = operation\<rparr>)"
      using store_submit_spec [OF inv run] by (auto split: sum.splits)
  next
    fix ps' res
    assume run: "store_poll ps = (ps', res)"
    show "res = Inr None \<and> ps' = ps
        \<or> (\<exists>i p. umap_find (ps_pending ps) i = Some p \<and> umap_find (ps_pending ps') = (umap_find (ps_pending ps))(i := None)
            \<and> (case res of
                 Inl x \<Rightarrow> pd_operation p = Op_history
               | Inr c \<Rightarrow> \<exists>c'. c = Some c' \<and> sc_request_id c' = i \<and> sc_session c' = pd_session p \<and> sc_operation c' = pd_operation p))"
      using store_poll_spec [OF inv run] by (rule conjunct2)
  qed (use inv in \<open>simp add: store_inv_def\<close>)
qed

section \<open>A store that was opened\<close>

definition opened_options :: sql_options where
  "opened_options = \<lparr>sqo_connection = ''game'', sqo_max_outstanding = 512, sqo_max_request_bytes = 65536,
     sqo_max_result_bytes = 65536, sqo_max_rows = 10000, sqo_max_columns = 128, sqo_query_timeout_ms = 5000,
     sqo_busy_timeout_ms = 1000, sqo_memory_budget = 67108864\<rparr>"

definition opened_store :: player_store where
  "opened_store = \<lparr>ps_sql = (SqlService_new opened_options)\<lparr>sq_next_id := 2\<rparr>, ps_run_id = 0, ps_pending = []\<rparr>"

lemma opened_decode: "decode_options (database_options ''game'') = Inr opened_options"
  by (simp add: decode_options_def database_options_def se_sql_options_init_def opened_options_def c_string_def require_def)

lemma opened_setup: "snd (driver_open opts (\<lambda>_. 0)) = Inr ()"
  by (simp add: driver_open_def setup_calls_def run_setup.simps driver_check_def act_of_def sqlite_codes)

lemma migrations_copied: "\<exists>rq. copy_request sample_layout (Some (map plain_statement migrations)) 3 opened_options = Inr rq
    \<and> rq_reserved_bytes rq \<le> 67108864"
  by (simp add: copy_request_def plain_statement_def migrations_def opened_options_def sample_layout_def copy_statement_def
      add_bytes_def c_text_def c_parameters_def require_def add64_def)

definition migrating :: "sql_request \<Rightarrow> request_state \<Rightarrow> worker_phase \<Rightarrow> sql_service" where
  "migrating rq st ph = (SqlService_new opened_options)\<lparr>sq_next_id := 2,
     sq_requests := [(1, rq\<lparr>rq_id := 1, rq_state := st, rq_result := sql_result_new\<rparr>)],
     sq_reserved_bytes := rq_reserved_bytes rq, sq_worker := ph\<rparr>"

lemma migrating_steps:
  "worker_step d (migrating rq Rq_queued W_waiting) = migrating rq Rq_running (W_taken 1)"
  "worker_step (\<lambda>_. sql_result_new) (migrating rq Rq_running (W_taken 1)) = migrating rq Rq_running (W_executed 1)"
  "worker_step d (migrating rq Rq_running (W_executed 1)) = migrating rq Rq_complete W_waiting"
  by (simp_all add: migrating_def worker_step_def worker_take_def worker_execute_def worker_publish_def find_state_def
      set_request_def umap_find_def SqlService_new_def)

lemma opened_reached: "store.reaches opened_store"
proof -
  let ?wait = "worker_step (\<lambda>_. sql_result_new) ^^ 3"
  obtain rq where rq: "copy_request sample_layout (Some (map plain_statement migrations)) 3 opened_options = Inr rq"
      "rq_reserved_bytes rq \<le> 67108864"
    using migrations_copied by blast
  have queued: "rq_state rq = Rq_queued" "rq_result rq = sql_result_new"
    using copy_request_queued [OF rq(1)] by simp_all
  have three: "length migrations = 3"
    by (simp add: migrations_def)
  have sub: "sql_call_submit sample_layout (map plain_statement migrations) (SqlService_new opened_options) =
      (migrating rq Rq_queued W_waiting, Inr 1)"
    using rq queued
    by (cases rq) (simp add: sql_call_submit_def sql_submit_def three SqlService_new_def migrating_def umap_emplace_def
        opened_options_def ok_body_def and_then_def sub64_def add64_def)
  have wait: "?wait (migrating rq Rq_queued W_waiting) = migrating rq Rq_complete W_waiting"
    by (simp add: eval_nat_numeral migrating_steps)
  have "store_construct sample_layout (\<lambda>_. 0) ?wait ''game'' = Inr opened_store"
    using rq(2)
    by (simp add: store_construct_def opened_decode opened_setup ok_body_def and_then_def sub wait)
      (simp add: migrating_def sql_poll_def find_state_def set_request_def result_output_def sql_release_def umap_find_def
        sql_result_new_def opened_store_def SqlService_new_def sub64_def umap_erase_def)
  then show ?thesis
    by (intro store.reaches.here) (unfold store_initial_def, blast)
qed

theorem player_store_tracks_witness:
  "\<exists>ps i. store_submit sample_layout 5 Op_save ''update t'' [] opened_store = (ps, Inr i)
     \<and> umap_find (ps_pending ps) i = Some \<lparr>pd_session = 5, pd_operation = Op_save\<rparr>"
proof -
  have "\<exists>i. snd (store_submit sample_layout 5 Op_save ''update t'' [] opened_store) = Inr i"
    by (simp add: store_submit_def umap_emplace_def opened_store_def sql_call_query_def sql_call_submit_def sql_submit_def
        SqlService_new_def copy_request_def opened_options_def sample_layout_def copy_statement_def
        add_bytes_def c_text_def c_parameters_def require_def add64_def sub64_def ok_body_def outcome_simps)
  then obtain ps i where sub: "store_submit sample_layout 5 Op_save ''update t'' [] opened_store = (ps, Inr i)"
    by (metis prod.collapse)
  have "umap_find (ps_pending ps) = (umap_find (ps_pending opened_store))(i \<mapsto> \<lparr>pd_session = 5, pd_operation = Op_save\<rparr>)"
    using player_store_tracks [OF opened_reached, THEN conjunct2, THEN conjunct1, rule_format, OF sub] by simp
  then show ?thesis
    using sub by simp
qed

end
