(* ===== verification/Game_Server.thy ===== *)
theory Game_Server
  imports Player_Store
begin

text \<open>
  The game server of src/examples/GameServer/GameServer.cpp: its event handler, its commands, the polling of the
  database between events and the shutdown. The engine below is the model of the C interface, so a reply is a call of
  \<^verbatim>\<open>se_server_send\<close>. Console output has no counterpart.
\<close>

section \<open>State\<close>

record player_session =
  pl_display_name :: string
  pl_messages :: int
  pl_logging_requested :: bool

record game_server =
  gs_store :: player_store
  gs_engine :: u64
  gs_hosts :: hosts
  gs_players :: "(u64, player_session) umap"
  gs_payload_size :: nat

definition new_player :: player_session where
  "new_player = \<lparr>pl_display_name = ''Guest'', pl_messages = 0, pl_logging_requested = False\<rparr>"

definition set_player :: "u64 \<Rightarrow> player_session \<Rightarrow> game_server \<Rightarrow> game_server" where
  "set_player session p gs = gs\<lparr>gs_players := umap_assign session p (gs_players gs)\<rparr>"

section \<open>The engine\<close>

definition game_listener :: "nat \<Rightarrow> nat \<Rightarrow> string option \<Rightarrow> string option \<Rightarrow> se_listener_options" where
  "game_listener protocol port certificate private_key = se_listener_options_init\<lparr>lo_protocol := protocol, lo_port := port,
     lo_bind_address := Some ''127.0.0.1'',
     lo_security := (if protocol = SE_PROTOCOL_UDP then SE_SECURITY_NONE else SE_SECURITY_TLS),
     lo_certificate_chain_file := certificate, lo_private_key_file := private_key, lo_websocket_path := Some ''/game''\<rparr>"

definition game_add_listener ::
  "nat \<Rightarrow> nat \<Rightarrow> string option \<Rightarrow> string option \<Rightarrow> u64 \<times> hosts \<Rightarrow> sdk_throw + (u64 \<times> hosts)" where
  "game_add_listener protocol port certificate private_key = (\<lambda>(engine, r).
     case se_server_add_listener engine (Some (game_listener protocol port certificate private_key)) True r of
       (r', body) \<Rightarrow> map_sum id (\<lambda>_. (engine, r')) (sdk_call body))"

definition game_options :: se_server_options where
  "game_options = se_server_options_init\<lparr>so_max_connections := 1024, so_max_message_bytes := 4096,
     so_max_send_queue_bytes := 65536, so_idle_timeout_ms := 60000\<rparr>"

definition game_construct ::
  "host_env \<Rightarrow> string \<Rightarrow> string \<Rightarrow> player_store \<Rightarrow> hosts \<Rightarrow> sdk_throw + game_server" where
  "game_construct env certificate private_key store r =
     (case se_server_create (Some game_options) True r of
        (r0, body) \<Rightarrow>
          throw_then (sdk_call body) (\<lambda>engine.
          throw_then (game_add_listener SE_PROTOCOL_TCP 9443 (Some certificate) (Some private_key) (engine, r0)) (\<lambda>er1.
          throw_then (game_add_listener SE_PROTOCOL_UDP 9001 None None er1) (\<lambda>er2.
          throw_then (game_add_listener SE_PROTOCOL_WEBSOCKET 9444 (Some certificate) (Some private_key) er2) (\<lambda>(e, r3).
          case se_server_start env e r3 of
            (r4, started) \<Rightarrow>
              throw_then (sdk_call started) (\<lambda>_.
                Inr \<lparr>gs_store = store, gs_engine = engine, gs_hosts = r4, gs_players = [], gs_payload_size = 1024\<rparr>))))))"

text \<open>A peer that cannot be written to is disconnected.\<close>

definition game_disconnect :: "u64 \<Rightarrow> game_server \<Rightarrow> game_server" where
  "game_disconnect session gs = gs\<lparr>gs_hosts := fst (se_server_disconnect (gs_engine gs) session (gs_hosts gs))\<rparr>"

definition game_reply :: "u64 \<Rightarrow> string \<Rightarrow> game_server \<Rightarrow> game_server" where
  "game_reply session text gs =
     (case se_server_send (gs_engine gs) session (Some (map byte_of_char text)) (length text mod W32) (gs_hosts gs) of
        (r, body) \<Rightarrow>
          (if body_status body \<noteq> SE_OK then game_disconnect session (gs\<lparr>gs_hosts := r\<rparr>) else gs\<lparr>gs_hosts := r\<rparr>))"

section \<open>Events\<close>

definition valid_name :: "string \<Rightarrow> bool" where
  "valid_name name \<longleftrightarrow> name \<noteq> [] \<and> length name \<le> 48 \<and> list_all (\<lambda>c. (of_char c :: nat) \<ge> 32 \<and> (of_char c :: nat) < 127) name"

text \<open>The commands of a player whose message was counted.\<close>

definition game_command :: "layout \<Rightarrow> u64 \<Rightarrow> string \<Rightarrow> player_session \<Rightarrow> game_server \<Rightarrow> game_server" where
  "game_command lay session payload player gs =
     (if payload = ''PING'' then game_reply session ''PONG'' gs
      else if payload = ''STATS'' then game_reply session (''messages='' @ show_int (pl_messages player)) gs
      else if payload = ''HISTORY'' then
        (case load_history lay session (gs_store gs) of
           (store, Inr _) \<Rightarrow> gs\<lparr>gs_store := store\<rparr>
         | (store, Inl _) \<Rightarrow> game_reply session ''ERR database busy; history request rejected'' (gs\<lparr>gs_store := store\<rparr>))
      else if take 5 payload = ''NAME '' then
        (let name = drop 5 payload in
         if \<not> valid_name name then game_reply session ''ERR name must contain 1..48 printable ASCII bytes'' gs
         else game_reply session (''OK display name='' @ name) (set_player session (player\<lparr>pl_display_name := name\<rparr>) gs))
      else game_reply session ''ERR commands: PING | NAME <display-name> | STATS | HISTORY'' gs)"

definition game_message :: "layout \<Rightarrow> se_event \<Rightarrow> string \<Rightarrow> game_server \<Rightarrow> game_server \<times> sdk_throw option" where
  "game_message lay e payload gs =
     (let session = se_session_id e in
      if se_protocol e = SE_PROTOCOL_UDP
      then (game_reply session (if payload = ''PING'' then ''PONG'' else payload) gs, None)
      else
        (case umap_find (gs_players gs) session of
           None \<Rightarrow> (gs, Some (Out_of_range ''players''))
         | Some player \<Rightarrow>
             if \<not> pl_logging_requested player then (gs, None)
             else if pl_messages player = 9223372036854775807 then (gs, Some (Overflow_error ''Message counter exhausted''))
             else
               (let player' = player\<lparr>pl_messages := pl_messages player + 1\<rparr>;
                    gs1 = set_player session player' gs in
                case save_message_count lay session (pl_messages player') (gs_store gs1) of
                  (store, Inl _) \<Rightarrow> (game_reply session ''ERR database busy; request rejected'' (gs1\<lparr>gs_store := store\<rparr>), None)
                | (store, Inr _) \<Rightarrow> (game_command lay session payload player' (gs1\<lparr>gs_store := store\<rparr>), None))))"

definition game_opened :: "layout \<Rightarrow> se_event \<Rightarrow> game_server \<Rightarrow> game_server" where
  "game_opened lay e gs =
     (let session = se_session_id e;
          insert_player = (\<lambda>p g. g\<lparr>gs_players := fst (umap_emplace session p (gs_players g))\<rparr>) in
      if se_protocol e \<noteq> SE_PROTOCOL_UDP then
        (case open_connection lay session (se_protocol e) (se_peer_address e) (gs_store gs) of
           (store, Inr _) \<Rightarrow> insert_player (new_player\<lparr>pl_logging_requested := True\<rparr>) (gs\<lparr>gs_store := store\<rparr>)
         | (store, Inl _) \<Rightarrow> insert_player new_player (game_disconnect session (gs\<lparr>gs_store := store\<rparr>)))
      else insert_player new_player gs)"

definition game_closed :: "layout \<Rightarrow> u64 \<Rightarrow> game_server \<Rightarrow> game_server" where
  "game_closed lay session gs =
     (case umap_find (gs_players gs) session of
        None \<Rightarrow> gs
      | Some player \<Rightarrow>
          (let gs1 = (if pl_logging_requested player
                      then gs\<lparr>gs_store := fst (close_connection lay session (pl_messages player) (gs_store gs))\<rparr> else gs)
           in gs1\<lparr>gs_players := umap_erase session (gs_players gs1)\<rparr>))"

definition handle_event :: "layout \<Rightarrow> se_event \<Rightarrow> string \<Rightarrow> game_server \<Rightarrow> game_server \<times> sdk_throw option" where
  "handle_event lay e payload gs =
     (if se_kind e = event_code EvOverflow
      then (gs, Some (Runtime_error ''Event overflow: state is incomplete; recreate server before accepting players''))
      else if se_kind e = event_code EvError then (gs, None)
      else if se_kind e = event_code EvOpen then (game_opened lay e gs, None)
      else if se_kind e = event_code EvMessage then game_message lay e payload gs
      else if se_kind e = event_code EvClose then (game_closed lay (se_session_id e) gs, None)
      else (gs, None))"

section \<open>The database between events\<close>

definition game_completion :: "store_completion \<Rightarrow> game_server \<Rightarrow> game_server" where
  "game_completion c gs =
     (let connected = umap_find (gs_players gs) (sc_session c) \<noteq> None in
      if sc_status c \<noteq> SE_OK then
        (if connected then
           (let gs1 = game_reply (sc_session c) ''ERR database operation failed'' gs in
            if sc_operation c \<noteq> Op_history then game_disconnect (sc_session c) gs1 else gs1)
         else gs)
      else if connected \<and> sc_operation c = Op_history
      then game_reply (sc_session c) (''stored_messages='' @ show_int (sc_stored_messages c)) gs
      else gs)"

fun poll_database :: "nat \<Rightarrow> game_server \<Rightarrow> game_server \<times> sdk_throw option" where
  "poll_database 0 gs = (gs, None)"
| "poll_database (Suc n) gs =
     (case store_poll (gs_store gs) of
        (store, Inl x) \<Rightarrow> (gs\<lparr>gs_store := store\<rparr>, Some x)
      | (store, Inr None) \<Rightarrow> (gs\<lparr>gs_store := store\<rparr>, None)
      | (store, Inr (Some c)) \<Rightarrow> poll_database n (game_completion c (gs\<lparr>gs_store := store\<rparr>)))"

text \<open>One round of \<^verbatim>\<open>run\<close>: it goes on, it leaves the loop, or it throws.\<close>

datatype round_end = Round_next | Round_break | Round_throws sdk_throw

definition game_round :: "host_env \<Rightarrow> layout \<Rightarrow> game_server \<Rightarrow> game_server \<times> round_end" where
  "game_round env lay gs =
     (case poll_database 64 gs of
        (gs1, Some x) \<Rightarrow> (gs1, Round_throws x)
      | (gs1, None) \<Rightarrow>
          (case network_poll_once env (gs_engine gs1) (gs_payload_size gs1) (gs_hosts gs1) of
             (r, body) \<Rightarrow>
               (let gs2 = gs1\<lparr>gs_hosts := r\<rparr>;
                    ev = event_filled body \<lparr>ne_metadata = blank_event, ne_payload = []\<rparr> in
                if body_status body = SE_TIMEOUT then (gs2, Round_next)
                else if body_status body = SE_STOPPED then (gs2, Round_break)
                else if body_status body = SE_BUFFER_TOO_SMALL
                then (gs2\<lparr>gs_payload_size := unat (se_payload_size (ne_metadata ev))\<rparr>, Round_next)
                else
                  (case sdk_require body of
                     Inl x \<Rightarrow> (gs2, Round_throws x)
                   | Inr _ \<Rightarrow>
                       (case handle_event lay (ne_metadata ev) (map char_of_byte (event_bytes ev)) gs2 of
                          (gs3, Some x) \<Rightarrow> (gs3, Round_throws x)
                        | (gs3, None) \<Rightarrow> (gs3, Round_next))))))"

section \<open>Shutdown\<close>

definition close_players :: "layout \<Rightarrow> (u64 \<times> player_session) list \<Rightarrow> player_store \<Rightarrow> player_store" where
  "close_players lay players store =
     fold (\<lambda>(session, p) st. if pl_logging_requested p then fst (close_connection lay session (pl_messages p) st) else st)
       players store"

text \<open>The polls until the deadline, each after what the worker did while it waited.\<close>

fun drain_until :: "(sql_service \<Rightarrow> sql_service) list \<Rightarrow> player_store \<Rightarrow> player_store \<times> sdk_throw option" where
  "drain_until [] store = (store, None)"
| "drain_until (w # ws) store =
     (if pending_count store = 0 then (store, None)
      else
        (case store_poll (store\<lparr>ps_sql := w (ps_sql store)\<rparr>) of
           (store', Inl x) \<Rightarrow> (store', Some x)
         | (store', Inr _) \<Rightarrow> drain_until ws store'))"

text \<open>The loop after the stop; it polls at most once for every pending request.\<close>

fun drain_rest :: "nat \<Rightarrow> player_store \<Rightarrow> player_store \<times> sdk_throw option" where
  "drain_rest 0 store = (store, None)"
| "drain_rest (Suc n) store =
     (if pending_count store = 0 then (store, None)
      else
        (case store_poll store of
           (store', Inl x) \<Rightarrow> (store', Some x)
         | (store', Inr None) \<Rightarrow> (store', None)
         | (store', Inr (Some c)) \<Rightarrow> drain_rest n store'))"

definition game_shutdown ::
  "host_env \<Rightarrow> layout \<Rightarrow> (sql_request \<Rightarrow> sql_result) \<Rightarrow> (sql_service \<Rightarrow> sql_service) list \<Rightarrow> game_server \<Rightarrow> game_server \<times> sdk_throw option" where
  "game_shutdown env lay driver waits gs =
     (let gs1 = gs\<lparr>gs_hosts := fst (se_server_stop env (gs_engine gs) (gs_hosts gs)),
                   gs_store := close_players lay (gs_players gs) (gs_store gs)\<rparr> in
      case drain_until waits (gs_store gs1) of
        (store, Some x) \<Rightarrow> (gs1\<lparr>gs_store := store\<rparr>, Some x)
      | (store, None) \<Rightarrow>
          (let stopped = store_stop driver store in
           case drain_rest (pending_count stopped) stopped of
             (store', x) \<Rightarrow> (gs1\<lparr>gs_store := store'\<rparr>, x)))"

section \<open>Invariant\<close>

definition player_ok :: "player_session \<Rightarrow> bool" where
  "player_ok p \<longleftrightarrow> valid_name (pl_display_name p) \<and> 0 \<le> pl_messages p \<and> pl_messages p \<le> 9223372036854775807
     \<and> (\<not> pl_logging_requested p \<longrightarrow> pl_messages p = 0)"

definition game_inv :: "game_server \<Rightarrow> bool" where
  "game_inv gs \<longleftrightarrow> store_inv (gs_store gs) \<and> umap_wf (gs_players gs)
     \<and> (\<forall>i p. umap_find (gs_players gs) i = Some p \<longrightarrow> player_ok p)"

lemma game_disconnect_frame [simp]:
  "gs_store (game_disconnect i gs) = gs_store gs" "gs_players (game_disconnect i gs) = gs_players gs"
  by (simp_all add: game_disconnect_def)

lemma game_reply_frame [simp]: "gs_store (game_reply i t gs) = gs_store gs" "gs_players (game_reply i t gs) = gs_players gs"
  by (simp_all add: game_reply_def split: prod.split)

lemma game_inv_frame:
  "gs_store gs' = gs_store gs \<Longrightarrow> gs_players gs' = gs_players gs \<Longrightarrow> game_inv gs \<Longrightarrow> game_inv gs'"
  by (simp add: game_inv_def)

lemma game_inv_store: "game_inv gs \<Longrightarrow> store_inv store \<Longrightarrow> game_inv (gs\<lparr>gs_store := store\<rparr>)"
  by (simp add: game_inv_def)

lemma game_inv_player:
  "game_inv gs \<Longrightarrow> player_ok p \<Longrightarrow> game_inv (set_player i p gs)"
  by (simp add: game_inv_def set_player_def umap.wf_assign)

lemma game_inv_emplace:
  "game_inv gs \<Longrightarrow> player_ok p \<Longrightarrow> game_inv (gs\<lparr>gs_players := fst (umap_emplace i p (gs_players gs))\<rparr>)"
  by (simp add: game_inv_def umap_emplace_def umap.wf_assign split: option.split)

lemma player_ok_new: "player_ok new_player" "player_ok (new_player\<lparr>pl_logging_requested := b\<rparr>)"
  by (simp_all add: player_ok_def new_player_def valid_name_def)

lemma store_results_inv:
  assumes "store_inv ps"
  shows "load_history lay i ps = (ps', r) \<Longrightarrow> store_inv ps'" "save_message_count lay i n ps = (ps', r) \<Longrightarrow> store_inv ps'"
    "open_connection lay i pr a ps = (ps', r) \<Longrightarrow> store_inv ps'" "store_poll ps = (ps', q) \<Longrightarrow> store_inv ps'"
  using store_operations_inv [OF assms] store_poll_spec [OF assms]
  by (metis fst_conv, metis fst_conv save_message_count_def, metis fst_conv, blast)

lemma game_command_inv:
  assumes inv: "game_inv gs" and p: "player_ok p"
  shows "game_inv (game_command lay i payload p gs)"
proof -
  have store: "store_inv (gs_store gs)" using inv by (simp add: game_inv_def)
  have reply: "game_inv (game_reply i t g)" if "game_inv g" for t g
    using game_inv_frame [OF _ _ that, of "game_reply i t g"] by simp
  show ?thesis
    unfolding game_command_def Let_def
    using store_results_inv(1) [OF store] p
    by (auto intro!: reply game_inv_store game_inv_player inv simp: player_ok_def split: prod.split sum.split)
qed

lemma game_message_inv:
  assumes inv: "game_inv gs"
  shows "game_inv (fst (game_message lay e payload gs))"
proof -
  have store: "store_inv (gs_store gs)" using inv by (simp add: game_inv_def)
  have reply: "game_inv (game_reply i t g)" if "game_inv g" for i t g
    using game_inv_frame [OF _ _ that, of "game_reply i t g"] by simp
  have counted: "player_ok (p\<lparr>pl_messages := pl_messages p + 1\<rparr>)"
    if "umap_find (gs_players gs) i = Some p" "pl_logging_requested p" "pl_messages p \<noteq> 9223372036854775807" for i p
    using inv that by (fastforce simp: game_inv_def player_ok_def)
  have kept: "gs_store (set_player i p gs) = gs_store gs" for i p
    by (simp add: set_player_def)
  show ?thesis
    unfolding game_message_def Let_def
    using store_results_inv(2) [OF store] counted
    by (auto intro!: reply game_command_inv game_inv_store game_inv_player inv simp: kept split: option.split prod.split sum.split)
qed

lemma game_opened_inv:
  assumes inv: "game_inv gs"
  shows "game_inv (game_opened lay e gs)"
proof -
  have store: "store_inv (gs_store gs)" using inv by (simp add: game_inv_def)
  have gone: "game_inv (game_disconnect i g)" if "game_inv g" for i g
    using game_inv_frame [OF _ _ that, of "game_disconnect i g"] by simp
  show ?thesis
  proof (cases "se_protocol e = SE_PROTOCOL_UDP")
    case True
    then show ?thesis
      using game_inv_emplace [OF inv player_ok_new(1)] by (simp add: game_opened_def)
  next
    case False
    obtain st res where o: "open_connection lay (se_session_id e) (se_protocol e) (se_peer_address e) (gs_store gs) = (st, res)"
      by force
    note ok = game_inv_store [OF inv store_results_inv(3) [OF store o]]
    show ?thesis
      using False o game_inv_emplace [OF ok player_ok_new(2), of "se_session_id e" True]
        game_inv_emplace [OF gone [OF ok] player_ok_new(1), of "se_session_id e" "se_session_id e"]
      by (simp add: game_opened_def Let_def split: sum.split)
  qed
qed

lemma game_closed_inv:
  assumes inv: "game_inv gs"
  shows "game_inv (game_closed lay i gs)"
proof -
  have "store_inv (fst (close_connection lay i n (gs_store gs)))" for n
    using inv store_operations_inv(2) by (simp add: game_inv_def close_connection_def)
  then show ?thesis
    using inv by (auto simp: game_closed_def game_inv_def umap.wf_erase Let_def split: option.split if_splits)
qed

lemma handle_event_inv: "game_inv gs \<Longrightarrow> game_inv (fst (handle_event lay e payload gs))"
  by (simp add: handle_event_def game_opened_inv game_message_inv game_closed_inv)

lemma game_completion_frame [simp]:
  "gs_store (game_completion c gs) = gs_store gs" "gs_players (game_completion c gs) = gs_players gs"
  by (simp_all add: game_completion_def Let_def)

lemma poll_database_inv: "game_inv gs \<Longrightarrow> game_inv (fst (poll_database n gs))"
proof (induction n arbitrary: gs)
  case (Suc n)
  obtain store res where p: "store_poll (gs_store gs) = (store, res)" by force
  have ok: "game_inv (gs\<lparr>gs_store := store\<rparr>)"
    using Suc.prems store_results_inv(4) [OF _ p] game_inv_store by (simp add: game_inv_def)
  have after: "game_inv (game_completion c (gs\<lparr>gs_store := store\<rparr>))" for c
    using game_inv_frame [OF _ _ ok, of "game_completion c (gs\<lparr>gs_store := store\<rparr>)"] by simp
  show ?case
    using ok Suc.IH [OF after] by (simp add: p split: sum.split option.split)
qed simp

lemma game_round_inv:
  assumes "game_inv gs"
  shows "game_inv (fst (game_round env lay gs))"
proof -
  obtain gs1 x where d: "poll_database 64 gs = (gs1, x)" by force
  have inv1: "game_inv gs1"
    using poll_database_inv [OF assms, of 64] d by simp
  obtain r body where n: "network_poll_once env (gs_engine gs1) (gs_payload_size gs1) (gs_hosts gs1) = (r, body)" by force
  have inv2: "game_inv (gs1\<lparr>gs_hosts := r\<rparr>)" "game_inv (gs1\<lparr>gs_hosts := r, gs_payload_size := m\<rparr>)" for m
    by (rule game_inv_frame [OF _ _ inv1]; simp)+
  have "fst (case p of (g, Some x) \<Rightarrow> (g, Round_throws x) | (g, None) \<Rightarrow> (g, Round_next)) = fst p" for p :: "game_server \<times> sdk_throw option"
    by (simp split: prod.split option.split)
  then show ?thesis
    using inv1 inv2 handle_event_inv [OF inv2(1)]
    by (simp add: game_round_def d n Let_def split: option.split sum.split)
qed

section \<open>Every player\<close>

definition game_initial :: "game_server \<Rightarrow> bool" where
  "game_initial gs \<longleftrightarrow> (\<exists>env certificate private_key store r. store.reaches store \<and> game_construct env certificate private_key store r = Inr gs)"

inductive game_step :: "game_server \<Rightarrow> game_server \<Rightarrow> bool" where
  round: "game_step gs (fst (game_round env lay gs))"
| work: "game_step gs (gs\<lparr>gs_store := (gs_store gs)\<lparr>ps_sql := worker_step driver (ps_sql (gs_store gs))\<rparr>\<rparr>)"
| engine: "host_call (gs_hosts gs) r \<Longrightarrow> game_step gs (gs\<lparr>gs_hosts := r\<rparr>)"

lemma game_construct_frame:
  "game_construct env certificate private_key store r = Inr gs \<Longrightarrow> gs_store gs = store \<and> gs_players gs = []"
  by (auto simp: game_construct_def throw_then_def split: prod.splits sum.splits)

lemma game_step_inv: "game_step gs gs' \<Longrightarrow> game_inv gs \<Longrightarrow> game_inv gs'"
proof (induction rule: game_step.induct)
  case (work gs driver)
  then show ?case
    using store_step_inv [OF store_step.worked] game_inv_store by (simp add: game_inv_def)
next
  case (engine gs r)
  then show ?case by (simp add: game_inv_def)
qed (simp add: game_round_inv)

lemma game_initial_inv: "game_initial gs \<Longrightarrow> game_inv gs"
  using store.reaches_inv game_construct_frame by (force simp: game_initial_def game_inv_def)

interpretation game: transition_system game_initial game_step game_inv
  by unfold_locales (auto simp: game_initial_inv intro: game_step_inv)

section \<open>Shutdown\<close>

lemma pending_zero: "store_inv ps \<Longrightarrow> pending_count ps = 0 \<longleftrightarrow> sql_outstanding (ps_sql ps) = {}"
proof -
  assume inv: "store_inv ps"
  have "pending_count ps = 0 \<longleftrightarrow> (\<forall>i. umap_find (ps_pending ps) i = None)"
    by (simp add: pending_count_def umap_size_def umap_empty_iff [symmetric] fun_eq_iff)
  then show ?thesis
    using inv by (auto simp: store_inv_def)
qed

lemma poll_decreases:
  assumes "store_inv ps" "store_poll ps = (ps', Inr (Some c))"
  shows "pending_count ps = Suc (pending_count ps')"
proof -
  have wf: "umap_wf (ps_pending ps)" using assms(1) by (simp add: store_inv_def)
  have "\<exists>i p. umap_find (ps_pending ps) i = Some p \<and> ps_pending ps' = umap_erase i (ps_pending ps)"
    using assms(2)
    by (auto simp: store_poll_def Let_def poll_status_def split: prod.splits se_status.splits option.splits sum.splits if_splits)
  then obtain i p where p: "umap_find (ps_pending ps) i = Some p" "ps_pending ps' = umap_erase i (ps_pending ps)"
    by blast
  show ?thesis
    using umap.size_erase_old [OF wf p(1)] by (simp add: pending_count_def p(2))
qed

text \<open>After the stop the worker has ended: as long as something is pending, a poll gets an answer.\<close>

lemma stopped_poll:
  assumes inv: "store_inv ps" and fin: "sq_worker (ps_sql ps) = W_done" and "pending_count ps \<noteq> 0"
  shows "snd (store_poll ps) \<noteq> Inr None" "sq_worker (ps_sql (fst (store_poll ps))) = W_done"
proof -
  have sql: "sql_inv (ps_sql ps)" using inv by (simp add: store_inv_def service_ok_def)
  have "find_state Rq_complete (ps_sql ps) \<noteq> None"
    using complete_ids_done(1) [OF sql fin] complete_ids_nil [of "ps_sql ps"] pending_zero [OF inv] assms(3) by auto
  then obtain rq where rq: "find_state Rq_complete (ps_sql ps) = Some rq" by auto
  show "snd (store_poll ps) \<noteq> Inr None"
    by (auto simp: store_poll_def sql_poll_def rq Let_def history_checked_def split: option.split sum.split)
  show "sq_worker (ps_sql (fst (store_poll ps))) = W_done"
    using fin
    by (auto simp: store_poll_def sql_poll_def rq set_request_def sql_release_def Let_def split: option.split)
qed

lemma drain_rest_all:
  "store_inv ps \<Longrightarrow> sq_worker (ps_sql ps) = W_done \<Longrightarrow> pending_count ps \<le> n \<Longrightarrow> drain_rest n ps = (ps', x) \<Longrightarrow>
     x = None \<Longrightarrow> pending_count ps' = 0"
proof (induction n arbitrary: ps)
  case (Suc n)
  show ?case
  proof (cases "pending_count ps = 0")
    case False
    note sp = stopped_poll [OF Suc.prems(1,2) False]
    obtain ps1 res where p: "store_poll ps = (ps1, res)" by force
    show ?thesis
    proof (cases res)
      case (Inl y)
      then show ?thesis using Suc.prems(4,5) False p by simp
    next
      case (Inr c)
      then obtain c' where c: "c = Some c'" using sp(1) p by (cases c) auto
      then have "pending_count ps1 \<le> n"
        using poll_decreases [OF Suc.prems(1)] p Inr Suc.prems(3) by simp
      then show ?thesis
        using Suc.IH [of ps1] store_results_inv(4) [OF Suc.prems(1) p] sp(2) p Inr c False Suc.prems(4,5) by simp
    qed
  qed (use Suc.prems in simp)
qed simp

lemma drain_rest_inv: "store_inv ps \<Longrightarrow> store_inv (fst (drain_rest n ps))"
proof (induction n arbitrary: ps)
  case (Suc n)
  obtain ps1 res where p: "store_poll ps = (ps1, res)" by force
  show ?case
    using Suc.IH [OF store_results_inv(4) [OF Suc.prems p]] Suc.prems store_results_inv(4) [OF Suc.prems p] p
    by (simp split: sum.split option.split)
qed simp

lemma worked_inv:
  assumes "store_inv ps" "\<exists>d n. w = worker_step d ^^ n"
  shows "store_inv (ps\<lparr>ps_sql := w (ps_sql ps)\<rparr>)"
proof -
  obtain d n where w: "w = worker_step d ^^ n" using assms(2) by auto
  have ok: "service_ok (ps_sql ps)" using assms(1) by (simp add: store_inv_def)
  show ?thesis
    using assms(1) workers_service [OF ok, of n d] workers_outstanding [OF ok, of n d] by (simp add: store_inv_def w)
qed

lemma drain_until_inv:
  "store_inv ps \<Longrightarrow> (\<And>w. w \<in> set ws \<Longrightarrow> \<exists>d n. w = worker_step d ^^ n) \<Longrightarrow> store_inv (fst (drain_until ws ps))"
proof (induction ws arbitrary: ps)
  case (Cons w ws)
  have inv: "store_inv (ps\<lparr>ps_sql := w (ps_sql ps)\<rparr>)"
    using worked_inv [OF Cons.prems(1)] Cons.prems(2) by simp
  obtain ps1 res where p: "store_poll (ps\<lparr>ps_sql := w (ps_sql ps)\<rparr>) = (ps1, res)" by force
  show ?case
    using Cons.IH [OF store_results_inv(4) [OF inv p]] Cons.prems store_results_inv(4) [OF inv p] p by (simp split: sum.split)
qed simp

lemma close_players_inv: "store_inv st \<Longrightarrow> store_inv (close_players lay players st)"
  by (induction players arbitrary: st) (auto simp: close_players_def close_connection_def store_operations_inv)

text \<open>Only the answer to a history query is looked into, so only that can make a poll throw.\<close>

definition no_history :: "player_store \<Rightarrow> bool" where
  "no_history ps \<longleftrightarrow> (\<forall>i p. umap_find (ps_pending ps) i = Some p \<longrightarrow> pd_operation p \<noteq> Op_history)"

lemma poll_no_history:
  assumes "store_inv ps" "no_history ps" "store_poll ps = (ps', res)"
  shows "no_history ps' \<and> (\<exists>c. res = Inr c)"
  using store_poll_spec [OF assms(1,3)] assms(2) by (cases res) (auto simp: no_history_def split: if_splits)

lemma close_no_history:
  assumes "store_inv ps" "no_history ps"
  shows "no_history (fst (close_connection lay i n ps))"
proof (cases "database_session i")
  case (Inr key)
  obtain ps' res where c: "close_connection lay i n ps = (ps', res)" by force
  then obtain sql parameters where s: "store_submit lay i Op_close sql parameters ps = (ps', res)"
    using Inr by (auto simp: close_connection_def store_update_def with_session_def)
  show ?thesis
    using store_submit_spec [OF assms(1) s] assms(2) by (cases res) (auto simp: c no_history_def split: if_splits)
qed (use assms in \<open>simp add: close_connection_def store_update_def with_session_def\<close>)

lemma close_connection_inv: "store_inv ps \<Longrightarrow> store_inv (fst (close_connection lay i n ps))"
  by (simp add: close_connection_def store_operations_inv)

lemma close_players_no_history:
  "store_inv ps \<Longrightarrow> no_history ps \<Longrightarrow> no_history (close_players lay players ps)"
  by (induction players arbitrary: ps) (auto simp: close_players_def close_no_history close_connection_inv)

lemma drain_until_no_history:
  "store_inv ps \<Longrightarrow> no_history ps \<Longrightarrow> (\<And>w. w \<in> set ws \<Longrightarrow> \<exists>d n. w = worker_step d ^^ n) \<Longrightarrow>
     snd (drain_until ws ps) = None \<and> no_history (fst (drain_until ws ps))"
proof (induction ws arbitrary: ps)
  case (Cons w ws)
  define ps0 where "ps0 = ps\<lparr>ps_sql := w (ps_sql ps)\<rparr>"
  have inv: "store_inv ps0" "no_history ps0"
    using worked_inv [OF Cons.prems(1)] Cons.prems(2,3) by (simp_all add: ps0_def no_history_def)
  obtain ps1 res where p: "store_poll ps0 = (ps1, res)" by force
  note n = poll_no_history [OF inv p]
  show ?case
    using Cons.IH [OF store_results_inv(4) [OF inv(1) p]] Cons.prems n p by (auto simp: ps0_def)
qed simp

lemma drain_rest_no_history: "store_inv ps \<Longrightarrow> no_history ps \<Longrightarrow> snd (drain_rest n ps) = None"
proof (induction n arbitrary: ps)
  case (Suc n)
  obtain ps1 res where p: "store_poll ps = (ps1, res)" by force
  note q = poll_no_history [OF Suc.prems p]
  show ?case
    using Suc.IH [OF store_results_inv(4) [OF Suc.prems(1) p]] q p by (auto split: option.split)
qed simp

text \<open>
  The game server's players. In every state that events, database answers, the workers and the transport can
  bring about: every player has a display name of 1 to 48 printable ASCII characters and a message count that is a
  64-bit signed number and zero unless the connection is logged, the database bookkeeping is exact, and a
  datagram, whose source can be forged, changes neither a player nor the database.
\<close>

theorem game_players_valid:
  assumes "game.reaches gs"
  shows "(\<forall>i p. umap_find (gs_players gs) i = Some p \<longrightarrow> valid_name (pl_display_name p) \<and> 0 \<le> pl_messages p
        \<and> pl_messages p < 2 ^ 63 \<and> (\<not> pl_logging_requested p \<longrightarrow> pl_messages p = 0))
    \<and> (\<forall>i. umap_find (ps_pending (gs_store gs)) i \<noteq> None \<longleftrightarrow> i \<in> sql_outstanding (ps_sql (gs_store gs)))
    \<and> (\<forall>lay e payload. se_protocol e = SE_PROTOCOL_UDP \<longrightarrow>
        gs_players (fst (game_message lay e payload gs)) = gs_players gs
        \<and> gs_store (fst (game_message lay e payload gs)) = gs_store gs)"
proof -
  have inv: "game_inv gs" by (rule game.reaches_inv [OF assms])
  have players: "player_ok p" if "umap_find (gs_players gs) i = Some p" for i p
    using inv that by (auto simp: game_inv_def)
  have store: "umap_find (ps_pending (gs_store gs)) i \<noteq> None \<longleftrightarrow> i \<in> sql_outstanding (ps_sql (gs_store gs))" for i
    using inv by (simp add: game_inv_def store_inv_def)
  show ?thesis
    using players store by (fastforce simp: player_ok_def game_message_def Let_def)
qed

text \<open>
  C26. The game server's shutdown collects every outcome. Whatever was pending when the server goes down, and
  whatever the worker did before the deadline, a shutdown that throws nothing leaves no database request of the
  application without its answer, those of the closing players included. It throws nothing unless a history
  query is pending, whose answer is the only one that is looked into.
\<close>

theorem game_shutdown_drains:
  assumes "game.reaches gs" and "\<And>w. w \<in> set waits \<Longrightarrow> \<exists>d n. w = worker_step d ^^ n"
    and "game_shutdown env lay driver waits gs = (gs', x)"
  shows "(x = None \<longrightarrow> ps_pending (gs_store gs') = [] \<and> sql_outstanding (ps_sql (gs_store gs')) = {})
    \<and> (x = None \<or> (\<exists>i p. umap_find (ps_pending (gs_store gs)) i = Some p \<and> pd_operation p = Op_history))"
proof -
  have inv: "store_inv (gs_store gs)"
    using game.reaches_inv [OF assms(1)] by (simp add: game_inv_def)
  define st where "st = close_players lay (gs_players gs) (gs_store gs)"
  obtain st1 x1 where d: "drain_until waits st = (st1, x1)" by force
  have inv1: "store_inv st1"
    using drain_until_inv [OF close_players_inv [OF inv], of waits lay "gs_players gs"] assms(2) d by (simp add: st_def)
  define st2 where "st2 = store_stop driver st1"
  have inv2: "store_inv st2" "sq_worker (ps_sql st2) = W_done"
    using store_step_inv [OF store_step.stopped inv1, of driver] sql_join_ends [of "ps_sql st1" driver] inv1
    by (simp_all add: st2_def store_stop_def store_inv_def service_ok_def)
  obtain st3 x3 where r: "drain_rest (pending_count st2) st2 = (st3, x3)" by force
  have run: "x = (case x1 of Some e \<Rightarrow> Some e | None \<Rightarrow> x3)" "x1 = None \<Longrightarrow> gs_store gs' = st3"
    using assms(3) d r by (auto simp: game_shutdown_def st_def [symmetric] st2_def Let_def split: option.splits)
  have drained: "ps_pending st3 = [] \<and> sql_outstanding (ps_sql st3) = {}" if "x3 = None"
    using drain_rest_all [OF inv2 order_refl r that] drain_rest_inv [OF inv2(1), of "pending_count st2"] r pending_zero [of st3]
    by (simp add: pending_count_def umap_size_def)
  have quiet: "x1 = None \<and> x3 = None" if "no_history (gs_store gs)"
  proof -
    note q1 = drain_until_no_history [OF close_players_inv [OF inv] close_players_no_history [OF inv that], of waits lay "gs_players gs"]
    have "x1 = None" "no_history st1" using q1 assms(2) d by (simp_all add: st_def)
    then show ?thesis
      using drain_rest_no_history [OF inv2(1), of "pending_count st2"] r by (simp add: st2_def store_stop_def no_history_def)
  qed
  show ?thesis
    using run drained quiet by (auto simp: no_history_def split: option.splits)
qed

section \<open>A server that came up\<close>

definition game_decoded :: host_options where
  "game_decoded = \<lparr>ho_network = \<lparr>worker_threads = 1, max_connections = 1024, max_message_bytes = 4096,
       max_send_queue_bytes = 65536, idle_timeout_ms = 60000\<rparr>,
     ho_max_event_queue_count = so_max_event_queue_count se_server_options_init,
     ho_max_event_queue_bytes = so_max_event_queue_bytes se_server_options_init\<rparr>"

definition game_config :: "u64 \<Rightarrow> nat \<Rightarrow> nat \<Rightarrow> listener_config" where
  "game_config i protocol port =
     (listener_of (game_listener protocol port (if protocol = SE_PROTOCOL_UDP then None else Some ''c'')
        (if protocol = SE_PROTOCOL_UDP then None else Some ''k'')))\<lparr>lc_id := i\<rparr>"

definition game_registry :: "listener_config list \<Rightarrow> u64 \<Rightarrow> hosts" where
  "game_registry ls n = \<lparr>hg_next = 2, hg_entries = [(1, (ServerHost_new game_decoded)\<lparr>sh_listeners := ls, sh_next_listener_id := n\<rparr>)]\<rparr>"

lemmas listener_eval = decode_listener_options_def game_listener_def se_listener_options_init_def valid_header_def
  listener_of_def text_or_def protocol_of_def SE_PROTOCOL_TCP_def SE_PROTOCOL_UDP_def SE_PROTOCOL_WEBSOCKET_def
  SE_PROTOCOL_HTTP_def SE_SECURITY_NONE_def SE_SECURITY_TLS_def c_string_def

lemma game_created: "se_server_create (Some game_options) True HostRegistry_new = (game_registry [] 1, Inr (SE_OK, 1))"
  by (simp add: se_server_create_def decode_server_options_def game_options_def se_server_options_init_def valid_header_def
      game_registry_def game_decoded_def register_host_def HostRegistry_new_def umap_emplace_def ServerHost_new_def)

lemma game_listener_added:
  assumes "(protocol, certificate, private_key) \<in> {(SE_PROTOCOL_TCP, Some ''c'', Some ''k''), (SE_PROTOCOL_UDP, None, None),
      (SE_PROTOCOL_WEBSOCKET, Some ''c'', Some ''k'')}" "0 < port" "port < 65536" "length ls < 64"
  shows "game_add_listener protocol port certificate private_key (1, game_registry ls n) =
    Inr (1, game_registry (ls @ [game_config n protocol port]) (n + 1))"
proof -
  let ?l = "game_listener protocol port certificate private_key"
  have d: "decode_listener_options (Some ?l) = Inr (listener_of ?l)"
    using assms(1-3) by (auto simp: listener_eval)
  have "game_config n protocol port = (listener_of ?l)\<lparr>lc_id := n\<rparr>"
    using assms(1) by (auto simp: game_config_def SE_PROTOCOL_TCP_def SE_PROTOCOL_UDP_def SE_PROTOCOL_WEBSOCKET_def)
  then show ?thesis
    using assms(4)
    by (simp add: game_add_listener_def se_server_add_listener_def with_host_def d game_registry_def find_handle_def umap_find_def
        host_add_listener_def ServerHost_new_def or_fail_def put_handle_def)
qed

definition game_listeners :: "listener_config list" where
  "game_listeners = [game_config 1 SE_PROTOCOL_TCP 9443, game_config 2 SE_PROTOCOL_UDP 9001, game_config 3 SE_PROTOCOL_WEBSOCKET 9444]"

lemma game_listeners_valid: "validate game_listeners (ho_network game_decoded) = Inr ()"
  by (simp add: validate_def game_decoded_def game_listeners_def game_config_def listener_eval contains_nul_def add64_def)

lemma game_started: "\<exists>r. se_server_start sample_env 1 (game_registry game_listeners 4) = (r, Inr (SE_OK, ()))"
proof -
  have ready: "\<exists>w'. prepare_listeners (\<lambda>_. Inr ()) game_listeners w = (w', Inr ())" for w :: "event_queue worker"
    by (simp add: game_listeners_def game_config_def listener_eval udp_listener_open_def)
  have "\<exists>t. service_start Launched (\<lambda>_. Inr ()) game_listeners (ho_network game_decoded) cbs
      (TransportService_new no_callbacks q) = (t, Inr ())" for cbs and q :: event_queue
    using ready [of "(ts_worker (TransportService_new no_callbacks q))\<lparr>wc_stopping := False,
        wc_limits := ho_network game_decoded, wc_callbacks := cbs\<rparr>"]
    by (auto simp: service_start_def game_listeners_valid TransportService_new_def Let_def)
  then show ?thesis
    by (auto simp: se_server_start_def with_host_def game_registry_def find_handle_def umap_find_def host_start_def
        ServerHost_new_def sample_env_def or_fail_def split: prod.split sum.split) (metis Inl_Inr_False prod.inject)
qed

lemma game_came_up: "\<exists>gs. game_construct sample_env ''c'' ''k'' opened_store HostRegistry_new = Inr gs"
proof -
  obtain r where "se_server_start sample_env 1 (game_registry game_listeners 4) = (r, Inr (SE_OK, ()))"
    using game_started by blast
  then show ?thesis
    by (simp add: game_construct_def game_created throw_then_def game_listener_added game_listeners_def)
qed

lemma game_up_reached: "\<exists>gs. game.reaches gs \<and> gs_store gs = opened_store \<and> gs_players gs = []"
proof -
  obtain gs where gs: "game_construct sample_env ''c'' ''k'' opened_store HostRegistry_new = Inr gs"
    using game_came_up by blast
  then have "game_initial gs"
    unfolding game_initial_def using opened_reached by blast
  then show ?thesis
    using game.reaches.here game_construct_frame [OF gs] by blast
qed

theorem game_players_valid_witness:
  "\<exists>gs. game.reaches gs \<and> gs_store (fst (game_message sample_layout (blank_event\<lparr>se_protocol := 2, se_session_id := 5\<rparr>) ''PING'' gs)) = opened_store"
proof -
  obtain gs where gs: "game.reaches gs" "gs_store gs = opened_store"
    using game_up_reached by blast
  have "se_protocol (blank_event\<lparr>se_protocol := 2, se_session_id := 5\<rparr>) = SE_PROTOCOL_UDP"
    by (simp add: SE_PROTOCOL_UDP_def)
  then have "gs_store (fst (game_message sample_layout (blank_event\<lparr>se_protocol := 2, se_session_id := 5\<rparr>) ''PING'' gs)) = gs_store gs"
    using game_players_valid [OF gs(1)] by blast
  then show ?thesis
    using gs by auto
qed

theorem game_shutdown_drains_witness:
  "\<exists>gs gs'. game.reaches gs \<and> game_shutdown sample_env sample_layout rq_result [worker_step rq_result ^^ 2] gs = (gs', None)
     \<and> ps_pending (gs_store gs') = []"
proof -
  obtain gs where gs: "game.reaches gs" "gs_store gs = opened_store" "gs_players gs = []"
    using game_up_reached by blast
  obtain gs' x where run: "game_shutdown sample_env sample_layout rq_result [worker_step rq_result ^^ 2] gs = (gs', x)"
    by force
  have steps: "\<exists>d n. w = worker_step d ^^ n" if "w \<in> set [worker_step rq_result ^^ 2]" for w
    using that by auto
  from game_shutdown_drains [OF gs(1) steps run] have "x = None" "ps_pending (gs_store gs') = []"
    by (auto simp: gs(2) opened_store_def umap_find_def)
  then show ?thesis
    using gs(1) run by blast
qed

end
