(* ===== verification/Signal_Room.thy ===== *)
theory Signal_Room
  imports Interfaces Prelude
begin

text \<open>
  \<^verbatim>\<open>SignalRoom\<close> of the web server (src/examples/WebServer/SignalRoom.cpp): two participants exchange the
  signalling of one call. The callbacks the room is built with act on a state of their own, \<open>'s\<close>.
\<close>

section \<open>Operations\<close>

record room =
  rm_first :: u64
  rm_second :: u64

record 's room_callbacks =
  rc_send :: "u64 \<Rightarrow> string \<Rightarrow> 's \<Rightarrow> 's \<times> bool"
  rc_disconnect :: "u64 \<Rightarrow> 's \<Rightarrow> 's"

definition room_new :: room where
  "room_new = \<lparr>rm_first = 0, rm_second = 0\<rparr>"

definition room_other :: "u64 \<Rightarrow> room \<Rightarrow> u64" where
  "room_other session rm = (if rm_first rm = session then rm_second rm else rm_first rm)"

definition room_closed :: "'s room_callbacks \<Rightarrow> u64 \<Rightarrow> room \<times> 's \<Rightarrow> room \<times> 's" where
  "room_closed cb session = (\<lambda>(rm, s).
     if session \<noteq> rm_first rm \<and> session \<noteq> rm_second rm then (rm, s)
     else (room_new, if room_other session rm \<noteq> 0 then rc_disconnect cb (room_other session rm) s else s))"

definition room_opened :: "'s room_callbacks \<Rightarrow> u64 \<Rightarrow> room \<times> 's \<Rightarrow> room \<times> 's" where
  "room_opened cb session = (\<lambda>(rm, s).
     if rm_first rm \<noteq> 0 \<and> rm_second rm \<noteq> 0 then (rm, rc_disconnect cb session s)
     else
       (let rm1 = (if rm_first rm \<noteq> 0 then rm\<lparr>rm_second := session\<rparr> else rm\<lparr>rm_first := session\<rparr>);
            (s1, waiting) = rc_send cb session ''WAIT'' s in
        if \<not> waiting then room_closed cb session (rm1, s1)
        else if rm_first rm1 \<noteq> 0 \<and> rm_second rm1 \<noteq> 0 then
          (let (s2, offered) = rc_send cb (rm_first rm1) ''OFFER'' s1 in
           if \<not> offered then room_closed cb (rm_first rm1) (rm1, s2) else (rm1, s2))
        else (rm1, s1)))"

definition signal_payload :: "string \<Rightarrow> bool" where
  "signal_payload payload \<longleftrightarrow> length payload > 7 \<and> length payload \<le> 65536 \<and> take 7 payload = ''SIGNAL'' @ [CHR 0x0A]"

definition room_message :: "'s room_callbacks \<Rightarrow> u64 \<Rightarrow> string \<Rightarrow> room \<times> 's \<Rightarrow> room \<times> 's" where
  "room_message cb session payload = (\<lambda>(rm, s).
     if session \<noteq> rm_first rm \<and> session \<noteq> rm_second rm then (rm, rc_disconnect cb session s)
     else if payload = ''PING'' then
       (let (s1, answered) = rc_send cb session ''PONG'' s in
        if \<not> answered then room_closed cb session (rm, s1) else (rm, s1))
     else if \<not> signal_payload payload then room_closed cb session (rm, rc_disconnect cb session s)
     else
       (let other = room_other session rm in
        if other = 0 then (rm, s)
        else
          (let (s1, sent) = rc_send cb other payload s in
           if \<not> sent then room_closed cb other (rm, rc_disconnect cb other s1) else (rm, s1))))"

section \<open>Calls\<close>

text \<open>Callbacks that record what is done; the answers of the sends are arbitrary.\<close>

datatype room_action = Room_send u64 string | Room_disconnect u64

definition recording :: "(nat \<Rightarrow> bool) \<Rightarrow> room_action list room_callbacks" where
  "recording answers =
     \<lparr>rc_send = (\<lambda>i text actions. (actions @ [Room_send i text], answers (length actions))),
      rc_disconnect = (\<lambda>i actions. actions @ [Room_disconnect i])\<rparr>"

text \<open>A room with the sessions that were ever opened and the pairs between which a signal was relayed.\<close>

record room_world =
  rw_room :: room
  rw_opened :: "u64 set"
  rw_calls :: "u64 set set"

definition relayed :: "u64 \<Rightarrow> string \<Rightarrow> room_action list \<Rightarrow> u64 set set" where
  "relayed session payload actions =
     (if signal_payload payload then {{session, other} | other. Room_send other payload \<in> set actions} else {})"

inductive room_step :: "room_world \<Rightarrow> room_world \<Rightarrow> bool" where
  opened: "session \<noteq> 0 \<Longrightarrow> session \<notin> rw_opened w \<Longrightarrow>
    room_step w (w\<lparr>rw_room := fst (room_opened (recording answers) session (rw_room w, [])),
      rw_opened := insert session (rw_opened w)\<rparr>)"
| message: "session \<noteq> 0 \<Longrightarrow> room_message (recording answers) session payload (rw_room w, []) = (rm, actions) \<Longrightarrow>
    room_step w (w\<lparr>rw_room := rm, rw_calls := rw_calls w \<union> relayed session payload actions\<rparr>)"
| closed: "session \<noteq> 0 \<Longrightarrow> room_step w (w\<lparr>rw_room := fst (room_closed (recording answers) session (rw_room w, []))\<rparr>)"

definition members :: "room \<Rightarrow> u64 set" where
  "members rm = {rm_first rm, rm_second rm} - {0}"

definition room_inv :: "room_world \<Rightarrow> bool" where
  "room_inv w \<longleftrightarrow> members (rw_room w) \<subseteq> rw_opened w
     \<and> (rm_first (rw_room w) = rm_second (rw_room w) \<longrightarrow> rm_first (rw_room w) = 0)
     \<and> (\<forall>A \<in> rw_calls w. card A = 2 \<and> A \<subseteq> rw_opened w \<and> (A \<inter> members (rw_room w) \<noteq> {} \<longrightarrow> A = members (rw_room w)))
     \<and> (\<forall>A \<in> rw_calls w. \<forall>B \<in> rw_calls w. A \<inter> B \<noteq> {} \<longrightarrow> A = B)"

lemma members_new [simp]: "members room_new = {}"
  by (simp add: members_def room_new_def)

lemma room_closed_members: "fst (room_closed cb i (rm, s)) = rm \<or> fst (room_closed cb i (rm, s)) = room_new"
  by (simp add: room_closed_def)

text \<open>Emptying the room ends the call and forgets nothing of the calls that were.\<close>

lemma room_inv_end: "room_inv w \<Longrightarrow> rm = rw_room w \<or> rm = room_new \<Longrightarrow> room_inv (w\<lparr>rw_room := rm\<rparr>)"
  by (auto simp: room_inv_def room_new_def members_def)

lemma room_opened_members:
  assumes "\<not> (rm_first rm \<noteq> 0 \<and> rm_second rm \<noteq> 0)"
  shows "fst (room_opened cb i (rm, s)) \<in> {room_new, if rm_first rm \<noteq> 0 then rm\<lparr>rm_second := i\<rparr> else rm\<lparr>rm_first := i\<rparr>}"
  using assms by (auto simp: room_opened_def room_closed_def Let_def split: if_splits prod.splits)

lemma room_inv_join:
  assumes inv: "room_inv w" and s: "s \<noteq> 0" "s \<notin> rw_opened w"
    and free: "\<not> (rm_first (rw_room w) \<noteq> 0 \<and> rm_second (rw_room w) \<noteq> 0)"
  defines "rm \<equiv> if rm_first (rw_room w) \<noteq> 0 then (rw_room w)\<lparr>rm_second := s\<rparr> else (rw_room w)\<lparr>rm_first := s\<rparr>"
  shows "room_inv (w\<lparr>rw_room := rm, rw_opened := insert s (rw_opened w)\<rparr>)"
proof -
  have m: "members rm = insert s (members (rw_room w))"
    using free s(1) by (auto simp: rm_def members_def)
  have "card (members (rw_room w)) < 2"
    using free by (auto simp: members_def card_insert_if insert_Diff_if)
  then have apart: "A \<inter> members (rw_room w) = {}" if "A \<in> rw_calls w" for A
    using inv that by (auto simp: room_inv_def)
  have "s \<notin> A" if "A \<in> rw_calls w" for A
    using inv that s(2) by (auto simp: room_inv_def)
  then have none: "A \<inter> members rm = {}" if "A \<in> rw_calls w" for A
    using apart that by (simp add: m)
  have "rm_first rm = rm_second rm \<longrightarrow> rm_first rm = 0"
    using inv s free by (auto simp: rm_def room_inv_def members_def)
  then show ?thesis
    using inv none m by (auto simp: room_inv_def)
qed

lemma relayed_pair:
  assumes "room_message (recording answers) s payload (rm, []) = (rm', actions)" "s \<noteq> 0" "rm_first rm = rm_second rm \<longrightarrow> rm_first rm = 0"
    "A \<in> relayed s payload actions"
  shows "A = members rm \<and> card A = 2"
proof -
  have sig: "signal_payload payload"
    using assms(4) by (auto simp: relayed_def split: if_splits)
  obtain y where y: "A = {s, y}" "Room_send y payload \<in> set actions"
    using assms(4) sig by (auto simp: relayed_def)
  have "payload \<noteq> ''PING''"
    using sig by (auto simp: signal_payload_def)
  then have "(s = rm_first rm \<or> s = rm_second rm) \<and> y = room_other s rm \<and> y \<noteq> 0"
    using assms(1) sig y(2) by (auto simp: room_message_def room_closed_def recording_def Let_def split: if_splits)
  then have "A = members rm" and "s \<noteq> y"
    using y(1) assms(2,3) by (auto simp: members_def room_other_def split: if_splits)
  moreover have "card A = 2"
    using y(1) \<open>s \<noteq> y\<close> by simp
  ultimately show ?thesis
    by blast
qed

lemma room_message_members: "room_message cb i payload (rm, s) = (rm', s') \<Longrightarrow> rm' = rm \<or> rm' = room_new"
  by (auto simp: room_message_def room_closed_def Let_def split: if_splits prod.splits)

lemma room_step_inv: "room_step w w' \<Longrightarrow> room_inv w \<Longrightarrow> room_inv w'"
proof (induction rule: room_step.induct)
  case (opened s w answers)
  show ?case
  proof (cases "rm_first (rw_room w) \<noteq> 0 \<and> rm_second (rw_room w) \<noteq> 0")
    case True
    then have "fst (room_opened (recording answers) s (rw_room w, [])) = rw_room w"
      by (simp add: room_opened_def)
    then show ?thesis
      using opened(3) by (simp add: room_inv_def subset_insertI2)
  next
    case False
    have "room_inv (w\<lparr>rw_room := room_new, rw_opened := insert s (rw_opened w)\<rparr>)"
      using opened(3) by (simp add: room_inv_def subset_insertI2) (simp add: room_new_def)
    then show ?thesis
      using room_opened_members [OF False, of "recording answers" s "[]"] room_inv_join [OF opened(3,1,2) False] by (elim insertE emptyE) simp_all
  qed
next
  case (message s answers payload w rm actions)
  have pair: "A = members (rw_room w) \<and> card A = 2" if "A \<in> relayed s payload actions" for A
    by (rule relayed_pair [OF message(2,1) _ that]) (use message(3) in \<open>simp add: room_inv_def\<close>)
  let ?M = "members (rw_room w)" and ?C = "rw_calls w \<union> relayed s payload actions"
  have old: "\<forall>A \<in> rw_calls w. card A = 2 \<and> A \<subseteq> rw_opened w \<and> (A \<inter> ?M \<noteq> {} \<longrightarrow> A = ?M)"
      "\<forall>A \<in> rw_calls w. \<forall>B \<in> rw_calls w. A \<inter> B \<noteq> {} \<longrightarrow> A = B" "?M \<subseteq> rw_opened w"
    using message(3) by (simp_all add: room_inv_def)
  have "card A = 2 \<and> A \<subseteq> rw_opened w \<and> (A \<inter> ?M \<noteq> {} \<longrightarrow> A = ?M)" if "A \<in> ?C" for A
  proof (cases "A \<in> rw_calls w")
    case False
    then have "A \<in> relayed s payload actions" using that by simp
    then have "A = ?M" and "card A = 2" using pair by simp_all
    then show ?thesis using old(3) by blast
  qed (use old(1) in simp)
  then have calls: "\<forall>A \<in> ?C. card A = 2 \<and> A \<subseteq> rw_opened w \<and> (A \<inter> ?M \<noteq> {} \<longrightarrow> A = ?M)"
    by simp
  have "A = B" if "A \<in> ?C" "B \<in> ?C" "A \<inter> B \<noteq> {}" for A B
  proof (cases "A \<in> relayed s payload actions \<or> B \<in> relayed s payload actions")
    case True
    then have "A = ?M \<or> B = ?M" using pair [of A] pair [of B] by auto
    then show ?thesis
    proof
      assume "A = ?M"
      then have "B \<inter> ?M \<noteq> {}" using that(3) by (simp add: Int_commute)
      then show ?thesis using bspec [OF calls that(2)] \<open>A = ?M\<close> by blast
    next
      assume "B = ?M"
      then show ?thesis using bspec [OF calls that(1)] that(3) by blast
    qed
  next
    case False
    then show ?thesis using old(2) that by simp
  qed
  then have "room_inv (w\<lparr>rw_calls := ?C\<rparr>)"
    using message(3) calls by (simp add: room_inv_def)
  then show ?case
    using room_inv_end [of "w\<lparr>rw_calls := rw_calls w \<union> relayed s payload actions\<rparr>" rm] room_message_members [OF message(2)]
    by (cases w) simp
next
  case (closed s w answers)
  then show ?case
    using room_inv_end [of w "fst (room_closed (recording answers) s (rw_room w, []))"]
      room_closed_members [of "recording answers" s "rw_room w" "[]"] by blast
qed

definition room_initial :: "room_world \<Rightarrow> bool" where
  "room_initial w \<longleftrightarrow> w = \<lparr>rw_room = room_new, rw_opened = {}, rw_calls = {}\<rparr>"

interpretation room: transition_system room_initial room_step room_inv
proof (unfold_locales, goal_cases)
  case (1 w)
  then show ?case by (simp add: room_initial_def room_inv_def) (simp add: room_new_def)
next
  case (2 w w')
  then show ?case by (rule room_step_inv [rotated])
qed

text \<open>
  C27. Calls of the web server never mix. However sessions come and go, whichever sends fail and whatever is sent, the
  pairs of sessions between which the room ever relayed a signal are disjoint: a session exchanges signalling with
  at most one other session in its life, so the offer of a call that ended cannot get into a later one. A call
  that is going on is exactly the two members of the room.
\<close>

theorem signal_calls_disjoint:
  assumes "room.reaches w" and "A \<in> rw_calls w"
  shows "card A = 2 \<and> A \<subseteq> rw_opened w \<and> (\<forall>B \<in> rw_calls w. B = A \<or> B \<inter> A = {})
    \<and> (A \<inter> members (rw_room w) = {} \<or> A = members (rw_room w))"
proof -
  have "\<forall>A \<in> rw_calls w. card A = 2 \<and> A \<subseteq> rw_opened w \<and> (A \<inter> members (rw_room w) \<noteq> {} \<longrightarrow> A = members (rw_room w))"
    and "\<forall>A \<in> rw_calls w. \<forall>B \<in> rw_calls w. A \<inter> B \<noteq> {} \<longrightarrow> A = B"
    using room.reaches_inv [OF assms(1)] by (simp_all add: room_inv_def)
  then show ?thesis
    using assms(2) by (metis inf_commute)
qed

definition talking :: room_world where
  "talking = \<lparr>rw_room = \<lparr>rm_first = 7, rm_second = 8\<rparr>, rw_opened = {8, 7}, rw_calls = {{7, 8}}\<rparr>"

lemma talking_reached: "room.reaches talking"
proof -
  let ?all = "\<lambda>_ :: nat. True" and ?p = "''SIGNAL'' @ [CHR 0x0A] @ ''x''"
  let ?w0 = "\<lparr>rw_room = room_new, rw_opened = {}, rw_calls = {}\<rparr>"
  let ?w1 = "\<lparr>rw_room = \<lparr>rm_first = 7, rm_second = 0\<rparr>, rw_opened = {7}, rw_calls = {}\<rparr>"
  let ?w2 = "\<lparr>rw_room = \<lparr>rm_first = 7, rm_second = 8\<rparr>, rw_opened = {8, 7}, rw_calls = {}\<rparr>"
  have start: "room.reaches ?w0"
    by (rule room.reaches.here) (simp add: room_initial_def)
  have one: "room_step ?w0 ?w1"
    using room_step.opened [of 7 ?w0 ?all] by (simp add: room_opened_def recording_def room_new_def)
  have two: "room_step ?w1 ?w2"
    using room_step.opened [of 8 ?w1 ?all] by (simp add: room_opened_def recording_def)
  have sent: "room_message (recording ?all) 7 ?p (rw_room ?w2, []) = (rw_room ?w2, [Room_send 8 ?p])"
    by (simp add: room_message_def recording_def signal_payload_def room_other_def)
  have pair: "relayed 7 ?p [Room_send 8 ?p] = {{7, 8}}"
    by (simp add: relayed_def signal_payload_def)
  have three: "room_step ?w2 talking"
    using room_step.message [OF _ sent, unfolded pair] by (simp add: talking_def)
  show ?thesis
    by (rule room.reaches.step [OF room.reaches.step [OF room.reaches.step [OF start one] two] three])
qed

theorem signal_calls_disjoint_witness: "{7, 8} \<in> rw_calls talking \<and> {7, 8} = members (rw_room talking)"
  using signal_calls_disjoint [OF talking_reached, of "{7, 8}"] by (auto simp: talking_def members_def)

end
