(* ===== verification/Web_Server.thy ===== *)
theory Web_Server
  imports Player_Store Signal_Room
begin

text \<open>
  The web server of src/examples/WebServer (WebServer.cpp, ProfileStore.cpp): routing of HTTP requests, the table of
  profile queries that wait for the database, JSON strings, and the signalling room on top of the engine. Files are
  read before the network starts and are part of the state; console output has no counterpart.
\<close>

section \<open>Text of an answer\<close>

definition hex_digit :: "nat \<Rightarrow> char" where
  "hex_digit n = ''0123456789abcdef'' ! n"

fun json_body :: "string \<Rightarrow> string" where
  "json_body [] = []"
| "json_body (c # cs) =
     (if c = CHR 0x22 \<or> c = CHR 0x5C then [CHR 0x5C, c]
      else if (of_char c :: nat) < 32
        then [CHR 0x5C] @ ''u00'' @ [hex_digit (of_char c div 16), hex_digit (of_char c mod 16)]
      else [c]) @ json_body cs"

definition json_string :: "string \<Rightarrow> string" where
  "json_string v = [CHR 0x22] @ json_body v @ [CHR 0x22]"

section \<open>State\<close>

record pending_profile =
  pp_session :: u64
  pp_http_request :: u64

record web_server =
  wb_sql :: sql_service
  wb_engine :: u64
  wb_hosts :: hosts
  wb_room :: room
  wb_html :: string
  wb_javascript :: string
  wb_pending :: "(u64, pending_profile) umap"

section \<open>The engine\<close>

definition web_options :: se_server_options where
  "web_options = se_server_options_init\<lparr>so_max_connections := 128, so_max_message_bytes := 128 * 1024,
     so_max_send_queue_bytes := 512 * 1024, so_max_event_queue_count := 512, so_idle_timeout_ms := 60000\<rparr>"

definition web_listener :: "string \<Rightarrow> string \<Rightarrow> nat \<Rightarrow> se_listener_options" where
  "web_listener certificate key protocol = se_listener_options_init\<lparr>lo_protocol := protocol,
     lo_port := (if protocol = SE_PROTOCOL_HTTP then 9553 else if protocol = SE_PROTOCOL_WEBSOCKET then 9554 else 9555),
     lo_certificate_chain_file := Some certificate, lo_private_key_file := Some key, lo_websocket_path := Some ''/signal''\<rparr>"

fun web_listen :: "u64 \<Rightarrow> se_listener_options list \<Rightarrow> hosts \<Rightarrow> sdk_throw + hosts" where
  "web_listen engine [] r = Inr r"
| "web_listen engine (l # ls) r =
     (case network_listen engine l r of (r', res) \<Rightarrow> throw_then res (\<lambda>_. web_listen engine ls r'))"

text \<open>A file is absent or has a size at its end and the bytes that can be read.\<close>

definition read_asset :: "(int \<times> string) option \<Rightarrow> sdk_throw + string" where
  "read_asset file =
     (case file of
        None \<Rightarrow> Inl (Runtime_error ''Cannot open web assets; run from repository root or pass web-root'')
      | Some (n, content) \<Rightarrow>
          if n < 0 \<or> n > 65536 then Inl (Runtime_error ''Web asset exceeds 64 KiB'')
          else if n \<noteq> 0 \<and> int (length content) < n then Inl (Runtime_error ''Cannot read web asset'')
          else Inr (take (nat n) content))"

definition web_construct ::
  "host_env \<Rightarrow> string \<Rightarrow> string \<Rightarrow> sql_service \<Rightarrow> (int \<times> string) option \<Rightarrow> (int \<times> string) option \<Rightarrow> hosts \<Rightarrow> sdk_throw + web_server" where
  "web_construct env certificate key profiles html javascript r =
     (case network_new web_options r of
        (r0, created) \<Rightarrow>
          throw_then created (\<lambda>engine.
          throw_then (read_asset html) (\<lambda>html_text.
          throw_then (read_asset javascript) (\<lambda>script_text.
          throw_then (web_listen engine (map (web_listener certificate key)
              [SE_PROTOCOL_HTTP, SE_PROTOCOL_WEBSOCKET, SE_PROTOCOL_TCP]) r0) (\<lambda>r1.
          case network_start env engine r1 of
            (r2, started) \<Rightarrow>
              throw_then started (\<lambda>_.
                Inr \<lparr>wb_sql = profiles, wb_engine = engine, wb_hosts = r2, wb_room = room_new, wb_html = html_text,
                     wb_javascript = script_text, wb_pending = []\<rparr>))))))"

definition web_disconnect :: "u64 \<Rightarrow> u64 \<Rightarrow> hosts \<Rightarrow> hosts" where
  "web_disconnect engine session r = fst (se_server_disconnect engine session r)"

definition web_send :: "u64 \<Rightarrow> u64 \<Rightarrow> string \<Rightarrow> hosts \<Rightarrow> hosts \<times> bool" where
  "web_send engine session body r =
     (case se_server_send engine session (Some (map byte_of_char body)) (length body mod W32) r of
        (r', result) \<Rightarrow>
          (if body_status result \<noteq> SE_OK then (web_disconnect engine session r', False) else (r', True)))"

definition room_engine :: "u64 \<Rightarrow> hosts room_callbacks" where
  "room_engine engine = \<lparr>rc_send = web_send engine, rc_disconnect = web_disconnect engine\<rparr>"

definition se_http_response_init :: se_http_response where
  "se_http_response_init = \<lparr>hs_struct_size = http_response_size, hs_abi_version = SE_ABI_VERSION, hs_reserved = [0, 0, 0, 0],
     hs_status_code = 200, hs_close_connection = 0, hs_content_type = None, hs_headers = None, hs_header_count = 0,
     hs_body_size = 0, hs_body = None\<rparr>"

definition web_response :: "nat \<Rightarrow> string \<Rightarrow> string \<Rightarrow> se_http_response" where
  "web_response status content_type body = se_http_response_init\<lparr>hs_status_code := status, hs_content_type := Some content_type,
     hs_headers := Some [(Some ''Cache-Control'', Some ''no-store''), (Some ''X-Content-Type-Options'', Some ''nosniff''),
       (Some ''Allow'', Some ''GET, HEAD, POST'')],
     hs_header_count := (if status = 405 then 3 else 2), hs_body := Some (map byte_of_char body),
     hs_body_size := length body mod W32\<rparr>"

definition web_respond :: "u64 \<Rightarrow> u64 \<Rightarrow> nat \<Rightarrow> string \<Rightarrow> string \<Rightarrow> web_server \<Rightarrow> web_server" where
  "web_respond session request status content_type body wb =
     (case se_http_respond (wb_engine wb) session request (Some (web_response status content_type body)) (wb_hosts wb) of
        (r, outcome) \<Rightarrow>
          (if body_status outcome \<noteq> SE_OK then wb\<lparr>wb_hosts := web_disconnect (wb_engine wb) session r\<rparr>
           else wb\<lparr>wb_hosts := r\<rparr>))"

section \<open>Profiles\<close>

definition profile_options :: "string \<Rightarrow> sql_c_options" where
  "profile_options file = se_sql_options_init\<lparr>co_connection := Some file, co_max_outstanding_requests := 64,
     co_max_request_bytes := 32768, co_max_result_bytes := 32768, co_memory_budget_bytes := 8 * 1024 * 1024\<rparr>"

definition profile_migrations :: "string list" where
  "profile_migrations =
     [''CREATE TABLE IF NOT EXISTS sample_profiles (id INTEGER PRIMARY KEY,name TEXT NOT NULL,level INTEGER NOT NULL)'',
      ''INSERT INTO sample_profiles(id,name,level) VALUES(1,'' @ [CHR 0x27] @ ''Demo player'' @ [CHR 0x27] @ '',1) ON CONFLICT(id) DO NOTHING'']"

text \<open>The constructor polls until there is an answer or the deadline; \<open>waits\<close> is what the worker does before each poll.\<close>

fun await_migration :: "u64 \<Rightarrow> (sql_service \<Rightarrow> sql_service) list \<Rightarrow> sql_service \<Rightarrow> sdk_throw + sql_service" where
  "await_migration request [] s = Inl (Runtime_error ''Profile migration timed out'')"
| "await_migration request (w # ws) s =
     (case sql_poll (w s) of
        (t, SE_TIMEOUT, _) \<Rightarrow> await_migration request ws t
      | (t, SE_OK, Some out) \<Rightarrow>
          (if ou_request_id out \<noteq> request \<or> ou_status out \<noteq> SE_OK then Inl (Runtime_error ''Profile migration failed'')
           else Inr (fst (sql_release request t)))
      | _ \<Rightarrow> Inl (Runtime_error ''Profile migration failed''))"

definition profiles_construct ::
  "layout \<Rightarrow> (setup_call \<Rightarrow> nat) \<Rightarrow> (sql_service \<Rightarrow> sql_service) list \<Rightarrow> string \<Rightarrow> sdk_throw + sql_service" where
  "profiles_construct lay codes waits file =
     (case sdk_call (ok_body (and_then (decode_options (profile_options file)) (\<lambda>opts.
              and_then (snd (driver_open opts codes)) (\<lambda>_. Inr opts)))) of
        Inl x \<Rightarrow> Inl x
      | Inr opts \<Rightarrow>
          (case sql_call_submit lay (map plain_statement profile_migrations) (SqlService_new opts) of
             (s, Inl x) \<Rightarrow> Inl x
           | (s, Inr request) \<Rightarrow> await_migration request waits s))"

definition load_sample :: "layout \<Rightarrow> sql_service \<Rightarrow> sql_service \<times> (sdk_throw + u64)" where
  "load_sample lay s = sql_call_query lay ''SELECT id,name,level FROM sample_profiles WHERE id=?'' [integer_parameter 1] s"

definition polled_text :: "nat \<Rightarrow> nat \<Rightarrow> sql_output \<Rightarrow> sql_service \<Rightarrow> sdk_throw + string" where
  "polled_text row column out s =
     (if ou_status out \<noteq> SE_OK then Inl (Runtime_error (ou_message out))
      else
        (let first = read_result (ou_request_id out) (read_cell_out row column 0) s in
         case (if body_status first \<noteq> SE_BUFFER_TOO_SMALL then sdk_require first else Inr ()) of
           Inl x \<Rightarrow> Inl x
         | Inr _ \<Rightarrow>
             (case first of
                Inl e \<Rightarrow> Inl (Runtime_error (snd e))
              | Inr (_, cell, _) \<Rightarrow>
                  (if ce_type cell \<noteq> SE_SQL_TEXT then Inl (Runtime_error ''Expected SQL text'')
                   else map_sum id snd (sdk_call (read_result (ou_request_id out) (read_cell_out row column (ce_size cell)) s))))))"

section \<open>Requests\<close>

definition envelope_part :: "string \<Rightarrow> u32 \<Rightarrow> u32 \<Rightarrow> string" where
  "envelope_part payload offset n = take (unat n) (drop (unat offset) payload)"

text \<open>The slot under key zero is taken before the query is submitted and then gets the key of the query.\<close>

definition request_profile :: "layout \<Rightarrow> u64 \<Rightarrow> u64 \<Rightarrow> web_server \<Rightarrow> web_server" where
  "request_profile lay session request wb =
     (let entry = \<lparr>pp_session = session, pp_http_request = request\<rparr>;
          m = fst (umap_emplace 0 entry (wb_pending wb)) in
      case load_sample lay (wb_sql wb) of
        (s, Inl _) \<Rightarrow> web_respond session request 503 ''text/plain'' ''Database temporarily unavailable''
                      (wb\<lparr>wb_sql := s, wb_pending := umap_erase 0 m\<rparr>)
      | (s, Inr query) \<Rightarrow>
          wb\<lparr>wb_sql := s, wb_pending := fst (umap_emplace query (the (umap_find m 0)) (umap_erase 0 m))\<rparr>)"

definition web_route :: "layout \<Rightarrow> u64 \<Rightarrow> string \<Rightarrow> web_server \<Rightarrow> web_server \<times> sdk_throw option" where
  "web_route lay session payload wb =
     (case sdk_call (se_http_request_read (Some (map byte_of_char payload)) True) of
        Inl x \<Rightarrow> (wb, Some x)
      | Inr view \<Rightarrow>
          (let method = envelope_part payload (rv_method_offset view) (rv_method_size view);
               target = envelope_part payload (rv_target_offset view) (rv_target_size view);
               request = rv_request_id view in
           (if method = ''POST'' \<and> target = ''/api/echo'' then
              web_respond session request 200 ''application/octet-stream''
                (envelope_part payload (rv_body_offset view) (rv_body_size view)) wb
            else if method \<noteq> ''GET'' \<and> method \<noteq> ''HEAD'' then
              web_respond session request 405 ''text/plain; charset=utf-8'' ''Method not allowed'' wb
            else if target = ''/'' then web_respond session request 200 ''text/html; charset=utf-8'' (wb_html wb) wb
            else if target = ''/app.js'' then web_respond session request 200 ''text/javascript; charset=utf-8'' (wb_javascript wb) wb
            else if target = ''/health'' then
              web_respond session request 200 ''application/json'' (''{'' @ json_string ''network'' @ '':'' @ json_string ''ready'' @ ''}'') wb
            else if target = ''/api/profile'' then request_profile lay session request wb
            else web_respond session request 404 ''text/plain'' ''Not found'' wb, None)))"

definition web_room ::
  "(room \<times> hosts \<Rightarrow> room \<times> hosts) \<Rightarrow> web_server \<Rightarrow> web_server" where
  "web_room f wb = (case f (wb_room wb, wb_hosts wb) of (rm, r) \<Rightarrow> wb\<lparr>wb_room := rm, wb_hosts := r\<rparr>)"

definition forget_session :: "u64 \<Rightarrow> (u64, pending_profile) umap \<Rightarrow> (u64, pending_profile) umap" where
  "forget_session session m = filter (\<lambda>(_, p). pp_session p \<noteq> session) m"

definition web_sessions :: "se_event \<Rightarrow> string \<Rightarrow> web_server \<Rightarrow> web_server" where
  "web_sessions e payload wb =
     (let i = se_session_id e; cb = room_engine (wb_engine wb) in
      if se_protocol e = SE_PROTOCOL_WEBSOCKET then
        (if se_kind e = event_code EvOpen then web_room (room_opened cb i) wb
         else if se_kind e = event_code EvMessage then web_room (room_message cb i payload) wb
         else if se_kind e = event_code EvClose then web_room (room_closed cb i) wb
         else wb)
      else if se_protocol e = SE_PROTOCOL_TCP \<and> se_kind e = event_code EvMessage then
        wb\<lparr>wb_hosts := fst (web_send (wb_engine wb) i (if payload = ''PING'' then ''PONG'' else payload) (wb_hosts wb))\<rparr>
      else wb)"

definition web_handle :: "layout \<Rightarrow> se_event \<Rightarrow> string \<Rightarrow> web_server \<Rightarrow> web_server \<times> sdk_throw option" where
  "web_handle lay e payload wb =
     (if se_kind e = event_code EvOverflow then (wb, Some (Runtime_error ''Network event overflow; restart the example''))
      else if se_kind e = event_code EvError then (wb, None)
      else if se_kind e = event_code EvHttpRequest then web_route lay (se_session_id e) payload wb
      else
        (let wb1 = web_sessions e payload wb in
         if se_kind e = event_code EvClose
         then (wb1\<lparr>wb_pending := forget_session (se_session_id e) (wb_pending wb1)\<rparr>, None)
         else (wb1, None)))"

text \<open>The answer to a query that is done.\<close>

definition profile_body :: "sql_output \<Rightarrow> sql_service \<Rightarrow> sdk_throw + string" where
  "profile_body out s =
     (case polled_integer 0 0 out s of
        Inl x \<Rightarrow> Inl x
      | Inr i \<Rightarrow>
          (case polled_text 0 1 out s of
             Inl x \<Rightarrow> Inl x
           | Inr name \<Rightarrow>
               (case polled_integer 0 2 out s of
                  Inl x \<Rightarrow> Inl x
                | Inr level \<Rightarrow>
                    Inr (''{'' @ json_string ''id'' @ '':'' @ show_int i @ '','' @ json_string ''name'' @ '':'' @ json_string name @
                      '','' @ json_string ''level'' @ '':'' @ show_int level @ ''}''))))"

definition answer_profile :: "sql_output \<Rightarrow> sql_service \<Rightarrow> pending_profile \<Rightarrow> web_server \<Rightarrow> web_server \<times> sdk_throw option" where
  "answer_profile out s p wb =
     (if ou_status out \<noteq> SE_OK
      then (web_respond (pp_session p) (pp_http_request p) 500 ''text/plain'' ''Profile query failed'' wb, None)
      else if ou_row_count out = 0
      then (web_respond (pp_session p) (pp_http_request p) 404 ''text/plain'' ''Profile not found'' wb, None)
      else
        (case profile_body out s of
           Inl x \<Rightarrow> (wb, Some x)
         | Inr body \<Rightarrow>
             (web_respond (pp_session p) (pp_http_request p) 200 ''application/json; charset=utf-8'' body wb, None)))"

text \<open>A result is released by the next poll into its object or by the destructor; nothing uses the service in between.\<close>

fun poll_profiles :: "nat \<Rightarrow> web_server \<Rightarrow> web_server \<times> sdk_throw option" where
  "poll_profiles 0 wb = (wb, None)"
| "poll_profiles (Suc n) wb =
     (case sql_poll (wb_sql wb) of
        (s, SE_OK, Some out) \<Rightarrow>
          (let i = ou_request_id out; released = fst (sql_release i s) in
           case umap_find (wb_pending wb) i of
             None \<Rightarrow> poll_profiles n (wb\<lparr>wb_sql := released\<rparr>)
           | Some p \<Rightarrow>
               (case answer_profile out s p (wb\<lparr>wb_sql := released, wb_pending := umap_erase i (wb_pending wb)\<rparr>) of
                  (wb', Some x) \<Rightarrow> (wb', Some x)
                | (wb', None) \<Rightarrow> poll_profiles n wb'))
      | (s, _, _) \<Rightarrow> (wb\<lparr>wb_sql := s\<rparr>, None))"

definition web_round :: "host_env \<Rightarrow> layout \<Rightarrow> network_event \<Rightarrow> web_server \<Rightarrow> web_server \<times> network_event \<times> (sdk_throw + bool)" where
  "web_round env lay ev wb =
     (case network_poll env (wb_engine wb) ev (wb_hosts wb) of
        (r, ev', Inl x) \<Rightarrow> (wb\<lparr>wb_hosts := r\<rparr>, ev', Inl x)
      | (r, ev', Inr status) \<Rightarrow>
          (if status = SE_STOPPED then (wb\<lparr>wb_hosts := r\<rparr>, ev', Inr False)
           else
             (case (if status = SE_OK
                    then web_handle lay (ne_metadata ev') (map char_of_byte (event_bytes ev')) (wb\<lparr>wb_hosts := r\<rparr>)
                    else (wb\<lparr>wb_hosts := r\<rparr>, None)) of
                (wb1, Some x) \<Rightarrow> (wb1, ev', Inl x)
              | (wb1, None) \<Rightarrow>
                  (case poll_profiles 16 wb1 of
                     (wb2, Some x) \<Rightarrow> (wb2, ev', Inl x)
                   | (wb2, None) \<Rightarrow> (wb2, ev', Inr True)))))"

section \<open>Reading JSON strings back\<close>

definition hex_value :: "char \<Rightarrow> nat" where
  "hex_value c = (let n = of_char c :: nat in if n \<ge> 97 then n - 87 else n - 48)"

text \<open>A reader of the escapes that \<^verbatim>\<open>json_string\<close> writes: the text up to the closing quote, and what follows it.\<close>

fun json_read :: "string \<Rightarrow> (string \<times> string) option" where
  "json_read [] = None"
| "json_read (c # cs) =
     (if c = CHR 0x22 then Some ([], cs)
      else if c = CHR 0x5C then
        (case cs of
           [] \<Rightarrow> None
         | d # ds \<Rightarrow>
             if d = CHR ''u'' then
               (if length ds < 4 then None
                else map_option (map_prod (Cons (char_of (16 * hex_value (ds ! 2) + hex_value (ds ! 3)))) id) (json_read (drop 4 ds)))
             else map_option (map_prod (Cons d) id) (json_read ds))
      else if (of_char c :: nat) < 32 then None
      else map_option (map_prod (Cons c) id) (json_read cs))"

lemma hex_roundtrip: "n < 16 \<Longrightarrow> hex_value (hex_digit n) = n"
proof -
  have "list_all (\<lambda>n. hex_value (hex_digit n) = n) [0..<16]"
    by code_simp
  then show "n < 16 \<Longrightarrow> hex_value (hex_digit n) = n"
    by (simp add: list_all_iff)
qed

lemma json_read_body: "json_read (json_body v @ CHR 0x22 # rest) = Some (v, rest)"
proof (induction v)
  case (Cons c v)
  consider (quote) "c = CHR 0x22 \<or> c = CHR 0x5C" | (control) "c \<noteq> CHR 0x22" "c \<noteq> CHR 0x5C" "(of_char c :: nat) < 32"
    | (plain) "c \<noteq> CHR 0x22" "c \<noteq> CHR 0x5C" "\<not> (of_char c :: nat) < 32"
    by blast
  then show ?case
  proof cases
    case quote
    then show ?thesis using Cons.IH by (elim disjE) simp_all
  next
    case control
    then have h: "hex_value (hex_digit (of_char c div 16)) = of_char c div 16" "hex_value (hex_digit (of_char c mod 16)) = of_char c mod 16"
      by (simp_all add: hex_roundtrip)
    have "char_of (16 * (of_char c div 16 :: nat) + of_char c mod 16) = c"
      by simp
    then show ?thesis
      using control Cons.IH h by simp
  next
    case plain
    then show ?thesis using Cons.IH by simp
  qed
qed simp

text \<open>A JSON string is read back as the text it was made from, and it ends where it was meant to end.\<close>

theorem json_string_roundtrip: "json_string v @ rest = CHR 0x22 # tl (json_string v @ rest) \<and> json_read (tl (json_string v @ rest)) = Some (v, rest)"
  using json_read_body [of v rest] by (simp add: json_string_def)

section \<open>Invariant\<close>

definition web_inv :: "web_server \<Rightarrow> bool" where
  "web_inv wb \<longleftrightarrow> service_ok (wb_sql wb) \<and> delivered (wb_sql wb) = {} \<and> umap_wf (wb_pending wb)
     \<and> (\<forall>i. umap_find (wb_pending wb) i \<noteq> None \<longrightarrow> i \<in> sql_outstanding (wb_sql wb))"

lemma web_respond_frame [simp]:
  "wb_sql (web_respond i q n t b wb) = wb_sql wb" "wb_pending (web_respond i q n t b wb) = wb_pending wb"
  by (simp_all add: web_respond_def split: prod.split)

lemma web_room_frame [simp]: "wb_sql (web_room f wb) = wb_sql wb" "wb_pending (web_room f wb) = wb_pending wb"
  by (simp_all add: web_room_def split: prod.split)

lemma web_sessions_frame [simp]:
  "wb_sql (web_sessions e payload wb) = wb_sql wb" "wb_pending (web_sessions e payload wb) = wb_pending wb"
  by (simp_all add: web_sessions_def Let_def)

lemma umap_wf_filter: "umap_wf m \<Longrightarrow> umap_wf (filter P m)"
  by (induction m rule: umap_wf.induct) auto

lemma forget_session_find:
  assumes "umap_wf m"
  shows "umap_find (forget_session session m) i = (case umap_find m i of Some p \<Rightarrow> if pp_session p \<noteq> session then Some p else None | None \<Rightarrow> None)"
proof -
  have wf: "umap_wf (forget_session session m)"
    using umap_wf_filter [OF assms] by (simp add: forget_session_def)
  have "umap_find (forget_session session m) i = Some p \<longleftrightarrow> umap_find m i = Some p \<and> pp_session p \<noteq> session" for p
    unfolding umap_find_iff [OF wf] umap_find_iff [OF assms] by (simp add: forget_session_def)
  then have some: "umap_find m i = Some p \<Longrightarrow> pp_session p \<noteq> session \<Longrightarrow> umap_find (forget_session session m) i = Some p"
    and other: "umap_find (forget_session session m) i = Some p \<Longrightarrow> umap_find m i = Some p \<and> pp_session p \<noteq> session" for p
    by simp_all
  show ?thesis
  proof (cases "umap_find (forget_session session m) i")
    case None
    then show ?thesis using some by (cases "umap_find m i") auto
  next
    case (Some p)
    then show ?thesis using other [OF Some] by simp
  qed
qed

lemma request_profile_spec:
  assumes inv: "web_inv wb"
  shows "web_inv (request_profile lay session request wb)
    \<and> (umap_find (wb_pending (request_profile lay session request wb)) = umap_find (wb_pending wb)
       \<or> (\<exists>query. umap_find (wb_pending wb) query = None
            \<and> umap_find (wb_pending (request_profile lay session request wb)) =
                (umap_find (wb_pending wb))(query \<mapsto> \<lparr>pp_session = session, pp_http_request = request\<rparr>)))"
proof -
  let ?p = "\<lparr>pp_session = session, pp_http_request = request\<rparr>"
  have ok: "service_ok (wb_sql wb)" "umap_wf (wb_pending wb)" "delivered (wb_sql wb) = {}"
    and keys: "\<And>i. umap_find (wb_pending wb) i \<noteq> None \<Longrightarrow> i \<in> sql_outstanding (wb_sql wb)"
    using inv by (simp_all add: web_inv_def)
  have zero: "umap_find (wb_pending wb) 0 = None"
    using keys outstanding_nonzero [OF ok(1)] by blast
  define m where "m = umap_erase 0 (umap_assign 0 ?p (wb_pending wb))"
  have m: "umap_wf m" "umap_find m = umap_find (wb_pending wb)"
    using ok(2) umap_erase_assign [OF ok(2) zero] by (simp_all add: m_def umap.wf_assign umap.wf_erase)
  obtain s r where q: "load_sample lay (wb_sql wb) = (s, r)" by force
  note c = call_query_cases [OF ok(1) q [unfolded load_sample_def]]
  show ?thesis
  proof (cases r)
    case (Inl x)
    then show ?thesis
      using q c zero m ok keys by (auto simp: request_profile_def umap_emplace_def m_def [symmetric] web_inv_def Let_def)
  next
    case (Inr i)
    then have i: "i \<notin> sql_outstanding (wb_sql wb)" "sql_outstanding s = insert i (sql_outstanding (wb_sql wb))"
      using c by simp_all
    then have fresh: "umap_find m i = None"
      using keys [of i] m(2) by (cases "umap_find (wb_pending wb) i") auto
    have r: "request_profile lay session request wb = wb\<lparr>wb_sql := s, wb_pending := umap_assign i ?p m\<rparr>"
      using q Inr zero fresh m(2) by (simp add: request_profile_def umap_emplace_def m_def Let_def)
    have "web_inv (request_profile lay session request wb)"
      using c Inr m ok keys i by (auto simp: r web_inv_def umap.wf_assign split: if_splits)
    moreover have "umap_find (wb_pending (request_profile lay session request wb)) = (umap_find (wb_pending wb))(i \<mapsto> ?p)"
      using m by (auto simp: r fun_eq_iff)
    ultimately show ?thesis
      using fresh m(2) by auto
  qed
qed

lemma web_inv_frame: "wb_sql wb' = wb_sql wb \<Longrightarrow> wb_pending wb' = wb_pending wb \<Longrightarrow> web_inv wb \<Longrightarrow> web_inv wb'"
  by (simp add: web_inv_def)

lemma web_route_inv: "web_inv wb \<Longrightarrow> web_inv (fst (web_route lay session payload wb))"
  using request_profile_spec [of wb lay session]
  by (auto simp: web_route_def Let_def web_inv_frame [OF web_respond_frame] split: sum.split)

lemma forget_session_inv: "web_inv wb \<Longrightarrow> web_inv (wb\<lparr>wb_pending := forget_session session (wb_pending wb)\<rparr>)"
  using forget_session_find [of "wb_pending wb" session] umap_wf_filter [of "wb_pending wb"]
  by (auto simp: web_inv_def forget_session_def [of session "wb_pending wb", symmetric] split: option.splits if_splits)
    (simp add: forget_session_def)

lemma web_handle_inv: "web_inv wb \<Longrightarrow> web_inv (fst (web_handle lay e payload wb))"
  using web_inv_frame [OF web_sessions_frame, of wb e payload] forget_session_inv [of "web_sessions e payload wb"]
  by (simp add: web_handle_def web_route_inv Let_def)

lemma answer_profile_frame:
  "wb_sql (fst (answer_profile out s p wb)) = wb_sql wb" "wb_pending (fst (answer_profile out s p wb)) = wb_pending wb"
  by (simp_all add: answer_profile_def split: sum.split)

lemma poll_profiles_inv: "web_inv wb \<Longrightarrow> web_inv (fst (poll_profiles n wb))"
proof (induction n arbitrary: wb)
  case (Suc n)
  have ok: "service_ok (wb_sql wb)" "delivered (wb_sql wb) = {}"
    using Suc.prems by (simp_all add: web_inv_def)
  obtain s status out where p: "sql_poll (wb_sql wb) = (s, status, out)" by (metis prod_cases3)
  show ?case
  proof (cases out)
    case None
    then have "s = wb_sql wb" "status \<noteq> SE_OK"
      using poll_service [OF ok(1) p] by auto
    then show ?thesis
      using p None Suc.prems by (cases status) simp_all
  next
    case (Some x)
    then have okp: "sql_poll (wb_sql wb) = (s, SE_OK, Some x)"
      using poll_service [OF ok(1) p] p by auto
    define i where "i = ou_request_id x"
    note o = poll_outstanding [OF ok okp, folded i_def]
    have next1: "web_inv (wb\<lparr>wb_sql := fst (sql_release i s)\<rparr>)" if "umap_find (wb_pending wb) i = None"
      using o Suc.prems that by (auto simp: web_inv_def)
    have next2: "web_inv (wb\<lparr>wb_sql := fst (sql_release i s), wb_pending := umap_erase i (wb_pending wb)\<rparr>)"
      using o Suc.prems by (auto simp: web_inv_def umap.wf_erase split: if_splits)
    have next3: "web_inv (fst (answer_profile x s q (wb\<lparr>wb_sql := fst (sql_release i s), wb_pending := umap_erase i (wb_pending wb)\<rparr>)))" for q
      by (rule web_inv_frame [OF answer_profile_frame next2])
    show ?thesis
    proof (cases "umap_find (wb_pending wb) i")
      case None
      then show ?thesis
        using Suc.IH [OF next1 [OF None]] by (simp add: okp i_def [symmetric] Let_def)
    next
      case (Some q)
      obtain wb' r where a: "answer_profile x s q (wb\<lparr>wb_sql := fst (sql_release i s), wb_pending := umap_erase i (wb_pending wb)\<rparr>) = (wb', r)"
        by force
      then have "web_inv wb'" using next3 [of q] by simp
      then show ?thesis
        using Suc.IH [of wb'] Some a by (simp add: okp i_def [symmetric] Let_def split: option.split)
    qed
  qed
qed simp

lemma web_round_inv:
  assumes "web_inv wb"
  shows "web_inv (fst (web_round env lay ev wb))"
proof -
  obtain r ev' res where n: "network_poll env (wb_engine wb) ev (wb_hosts wb) = (r, ev', res)" by (metis prod_cases3)
  have inv0: "web_inv (wb\<lparr>wb_hosts := r\<rparr>)"
    using assms by (simp add: web_inv_def)
  define after where "after = (\<lambda>status. if status = SE_OK
     then web_handle lay (ne_metadata ev') (map char_of_byte (event_bytes ev')) (wb\<lparr>wb_hosts := r\<rparr>) else (wb\<lparr>wb_hosts := r\<rparr>, None))"
  have inv1: "web_inv (fst (after status))" for status
    using web_handle_inv [OF inv0] inv0 by (simp add: after_def)
  have "web_inv (fst (case after status of (wb1, Some x) \<Rightarrow> (wb1, ev', Inl x)
      | (wb1, None) \<Rightarrow> (case poll_profiles 16 wb1 of (wb2, Some x) \<Rightarrow> (wb2, ev', Inl x) | (wb2, None) \<Rightarrow> (wb2, ev', Inr True))))" for status
    using inv1 [of status] poll_profiles_inv [OF inv1 [of status], of 16]
    by (cases "after status"; cases "snd (after status)"; cases "poll_profiles 16 (fst (after status))") (auto split: option.split)
  then show ?thesis
    using inv0 by (simp add: web_round_def n after_def split: sum.split)
qed

section \<open>Every state\<close>

definition web_initial :: "web_server \<Rightarrow> bool" where
  "web_initial wb \<longleftrightarrow> (\<exists>env certificate key lay codes waits file profiles html javascript r.
     (\<forall>w \<in> set waits. \<exists>d n. w = worker_step d ^^ n) \<and> profiles_construct lay codes waits file = Inr profiles
     \<and> web_construct env certificate key profiles html javascript r = Inr wb)"

inductive web_step :: "web_server \<Rightarrow> web_server \<Rightarrow> bool" where
  round: "web_step wb (fst (web_round env lay ev wb))"
| work: "web_step wb (wb\<lparr>wb_sql := worker_step driver (wb_sql wb)\<rparr>)"
| engine: "host_call (wb_hosts wb) r \<Longrightarrow> web_step wb (wb\<lparr>wb_hosts := r\<rparr>)"

lemma await_migration_ok:
  "service_ok s \<Longrightarrow> delivered s = {} \<Longrightarrow> sql_outstanding s = {request} \<Longrightarrow> \<forall>w \<in> set waits. \<exists>d n. w = worker_step d ^^ n \<Longrightarrow>
     await_migration request waits s = Inr t \<Longrightarrow> service_ok t \<and> delivered t = {} \<and> sql_outstanding t = {}"
proof (induction waits arbitrary: s)
  case (Cons w ws)
  obtain d n where w: "w = worker_step d ^^ n" using Cons.prems(4) by auto
  have ws: "service_ok (w s)" "delivered (w s) = {}" "sql_outstanding (w s) = {request}"
    using workers_service [OF Cons.prems(1), of n d] workers_outstanding [OF Cons.prems(1), of n d] Cons.prems(2,3) by (simp_all add: w)
  obtain u status out where p: "sql_poll (w s) = (u, status, out)" by (metis prod_cases3)
  note c = poll_service [OF ws(1) p]
  show ?case
  proof (cases out)
    case None
    then have "u = w s" "status = SE_TIMEOUT"
      using c p Cons.prems(5) by (auto split: se_status.splits)
    then show ?thesis
      using Cons.IH [of u] Cons.prems(4,5) ws p None by simp
  next
    case (Some x)
    then have "status = SE_OK" using c by auto
    then have "ou_request_id x = request" "t = fst (sql_release request u)"
      using Cons.prems(5) p Some by (auto split: if_splits)
    then show ?thesis
      using poll_outstanding [OF ws(1,2), of u x] p Some \<open>status = SE_OK\<close> ws(3) by simp
  qed
qed simp

lemma profiles_construct_ok:
  assumes "profiles_construct lay codes waits file = Inr s" "\<forall>w \<in> set waits. \<exists>d n. w = worker_step d ^^ n"
  shows "service_ok s \<and> delivered s = {} \<and> sql_outstanding s = {}"
proof -
  obtain opts u request where opts: "decode_options (profile_options file) = Inr opts"
    and sub: "sql_call_submit lay (map plain_statement profile_migrations) (SqlService_new opts) = (u, Inr request)"
    and wait: "await_migration request waits u = Inr s"
    using assms(1)
    by (auto simp: profiles_construct_def sdk_call_def ok_body_def and_then_def split: sum.splits prod.splits if_splits)
  have new: "service_ok (SqlService_new opts)" "delivered (SqlService_new opts) = {}" "sql_outstanding (SqlService_new opts) = {}"
    using sql_inv_new [OF decode_options_ok [OF opts]]
    by (simp_all add: service_ok_def ids_ok_def delivered_def sql_outstanding_def SqlService_new_def)
  have "service_ok u" "delivered u = {}" "sql_outstanding u = {request}"
    using call_submit_cases [OF new(1) sub] new by simp_all
  then show ?thesis
    using await_migration_ok [OF _ _ _ assms(2) wait] by simp
qed

lemma web_construct_frame:
  "web_construct env certificate key profiles html javascript r = Inr wb \<Longrightarrow> wb_sql wb = profiles \<and> wb_pending wb = []"
  by (auto simp: web_construct_def throw_then_def split: prod.splits sum.splits)

lemma web_initial_inv: "web_initial wb \<Longrightarrow> web_inv wb"
  unfolding web_initial_def using profiles_construct_ok web_construct_frame by (fastforce simp: web_inv_def)

lemma web_step_inv: "web_step wb wb' \<Longrightarrow> web_inv wb \<Longrightarrow> web_inv wb'"
proof (induction rule: web_step.induct)
  case (work wb driver)
  then show ?case
    using worker_service [of "wb_sql wb" driver] worker_step_outstanding [of "wb_sql wb" driver]
    by (simp add: web_inv_def service_ok_def)
next
  case (engine wb r)
  then show ?case by (simp add: web_inv_def)
qed (simp add: web_round_inv)

interpretation web: transition_system web_initial web_step web_inv
  by unfold_locales (auto simp: web_initial_inv intro: web_step_inv)

text \<open>
  The web server answers a profile query to the request that asked. In every state: an entry of the table belongs to
  a query that the service still owes; a new query gets an entry of its own under a fresh number, with the session and the
  HTTP request that asked, and disturbs no other, or is refused and leaves the table as it was; and when a session closes,
  none of its entries is left for a later answer.
\<close>

theorem web_profiles_sound:
  assumes "web.reaches wb"
  shows "(\<forall>i. umap_find (wb_pending wb) i \<noteq> None \<longrightarrow> i \<in> sql_outstanding (wb_sql wb))
    \<and> (umap_find (wb_pending (request_profile lay session request wb)) = umap_find (wb_pending wb)
       \<or> (\<exists>query. umap_find (wb_pending wb) query = None
            \<and> umap_find (wb_pending (request_profile lay session request wb)) =
                (umap_find (wb_pending wb))(query \<mapsto> \<lparr>pp_session = session, pp_http_request = request\<rparr>)))
    \<and> (se_kind e = event_code EvClose \<longrightarrow>
        (\<forall>i p. umap_find (wb_pending (fst (web_handle lay e payload wb))) i = Some p \<longrightarrow> pp_session p \<noteq> se_session_id e))"
proof -
  have inv: "web_inv wb" by (rule web.reaches_inv [OF assms])
  then have wf: "umap_wf (wb_pending wb)" by (simp add: web_inv_def)
  show ?thesis
    using inv request_profile_spec [OF inv, of lay session request] forget_session_find [OF wf, of "se_session_id e"]
    by (auto simp: web_inv_def web_handle_def Let_def split: option.splits if_splits)
qed

end
