(* ===== verification/Cpp_Datagram.thy ===== *)
theory Cpp_Datagram
  imports Gns_Runtime
begin

text \<open>
  The C++ wrapper of the datagram transport (src/include/ServerEngine/Cpp/DatagramTransport.h):
  \<^verbatim>\<open>DatagramEndpoint\<close> objects in numbered places, each with the handle it owns, zero when it is closed or was
  moved from. The library is built with the transport. \<open>dg_poll\<close> is the poll with the default timeout of zero.
\<close>

section \<open>State\<close>

datatype dg_throw = Transport_error se_status string | Closed_error string | Size_error string

record dg_world =
  dw_runtime :: gns_runtime
  dw_objects :: "(nat, u64) umap"

record dg_received =
  dr_metadata :: dg_event
  dr_payload :: bytes

definition dg_initial :: dg_world where
  "dg_initial = \<lparr>dw_runtime = Runtime_new, dw_objects = []\<rparr>"

section \<open>Operations\<close>

text \<open>The status that the call leaves, with its message, as an exception unless it is \<^verbatim>\<open>SE_OK\<close>.\<close>

definition dg_require :: "'a abi_body \<Rightarrow> dg_throw + unit" where
  "dg_require body =
     (case protect (Some \<lparr>er_code = 0, er_message = []\<rparr>) body of
        (error, status) \<Rightarrow>
          (if status \<noteq> SE_OK
           then Inl (Transport_error status (case error of
                  Some e \<Rightarrow> if er_message e \<noteq> [] then er_message e else ''Datagram transport operation failed''
                | None \<Rightarrow> ''Datagram transport operation failed''))
           else Inr ()))"

definition dg_status :: "'a abi_body \<Rightarrow> se_status" where
  "dg_status body = snd (protect None body)"

definition dg_close :: "nat \<Rightarrow> dg_world \<Rightarrow> dg_world" where
  "dg_close k w =
     (case umap_find (dw_objects w) k of
        None \<Rightarrow> w
      | Some h \<Rightarrow>
          w\<lparr>dw_objects := umap_assign k 0 (dw_objects w),
            dw_runtime := (if h \<noteq> 0 then fst (se_datagram_destroy True h (dw_runtime w)) else dw_runtime w)\<rparr>)"

definition dg_construct ::
  "string option \<Rightarrow> native \<Rightarrow> datagram_options \<Rightarrow> nat \<Rightarrow> dg_world \<Rightarrow> dg_world \<times> (dg_throw + unit)" where
  "dg_construct init_error grp options k w =
     (case se_datagram_create True init_error grp (Some options) True (dw_runtime w) of
        (r, body) \<Rightarrow>
          (case (dg_require body, body) of
             (Inr _, Inr (_, h)) \<Rightarrow> (w\<lparr>dw_runtime := r, dw_objects := umap_assign k h (dw_objects w)\<rparr>, Inr ())
           | (thrown, _) \<Rightarrow> (w\<lparr>dw_runtime := r\<rparr>, thrown)))"

definition dg_destruct :: "nat \<Rightarrow> dg_world \<Rightarrow> dg_world" where
  "dg_destruct k w = (let w1 = dg_close k w in w1\<lparr>dw_objects := umap_erase k (dw_objects w1)\<rparr>)"

definition dg_move_construct :: "nat \<Rightarrow> nat \<Rightarrow> dg_world \<Rightarrow> dg_world" where
  "dg_move_construct i j w =
     (case umap_find (dw_objects w) i of
        None \<Rightarrow> w
      | Some h \<Rightarrow> w\<lparr>dw_objects := umap_assign j h (umap_assign i 0 (dw_objects w))\<rparr>)"

definition dg_move_assign :: "nat \<Rightarrow> nat \<Rightarrow> dg_world \<Rightarrow> dg_world" where
  "dg_move_assign i j w = (if i = j then w else dg_move_construct i j (dg_close j w))"

text \<open>\<^verbatim>\<open>ensure_open\<close> and the call on the handle.\<close>

definition dg_on_handle ::
  "nat \<Rightarrow> (u64 \<Rightarrow> gns_runtime \<Rightarrow> gns_runtime \<times> (dg_throw + 'a)) \<Rightarrow> dg_world \<Rightarrow> dg_world \<times> (dg_throw + 'a)" where
  "dg_on_handle k call w =
     (case umap_find (dw_objects w) k of
        None \<Rightarrow> (w, Inl (Closed_error ''Datagram endpoint is closed or moved from''))
      | Some h \<Rightarrow>
          if h = 0 then (w, Inl (Closed_error ''Datagram endpoint is closed or moved from''))
          else (case call h (dw_runtime w) of (r, result) \<Rightarrow> (w\<lparr>dw_runtime := r\<rparr>, result)))"

definition dg_listen :: "native_address \<Rightarrow> native_setup \<Rightarrow> nat \<Rightarrow> nat \<Rightarrow> string \<Rightarrow> dg_world \<Rightarrow> dg_world \<times> (dg_throw + unit)" where
  "dg_listen lib answers k port address =
     dg_on_handle k (\<lambda>h r. map_prod id dg_require (se_datagram_listen True lib answers h (Some address) port r))"

definition dg_connect :: "native_address \<Rightarrow> native_setup \<Rightarrow> nat \<Rightarrow> nat \<Rightarrow> string \<Rightarrow> dg_world \<Rightarrow> dg_world \<times> (dg_throw + u64)" where
  "dg_connect lib answers k port address =
     dg_on_handle k (\<lambda>h r. case se_datagram_connect True lib answers h (Some address) port True r of
        (r', body) \<Rightarrow> (r', case dg_require body of Inl x \<Rightarrow> Inl x | Inr _ \<Rightarrow> Inr (case body of Inr (_, peer) \<Rightarrow> peer | Inl _ \<Rightarrow> 0)))"

definition dg_send ::
  "(native \<Rightarrow> bytes \<Rightarrow> bool \<Rightarrow> send_result) \<Rightarrow> nat \<Rightarrow> u64 \<Rightarrow> nat \<Rightarrow> bytes \<Rightarrow> dg_world \<Rightarrow> dg_world \<times> (dg_throw + se_status)" where
  "dg_send native_send k peer delivery data =
     dg_on_handle k (\<lambda>h r.
        if length data > 4294967295 then (r, Inl (Size_error ''Datagram message exceeds ABI byte size''))
        else
          (case se_datagram_send True native_send h peer delivery (Some data) (length data) r of
             (r', body) \<Rightarrow>
               (r', if dg_status body \<noteq> SE_BACKPRESSURE
                    then (case dg_require body of Inl x \<Rightarrow> Inl x | Inr _ \<Rightarrow> Inr (dg_status body))
                    else Inr (dg_status body))))"

definition dg_poll_once ::
  "native_pump \<Rightarrow> u64 \<Rightarrow> nat \<Rightarrow> gns_runtime \<Rightarrow> gns_runtime \<times> (dg_event \<times> bytes) option abi_body" where
  "dg_poll_once p h capacity r =
     se_datagram_poll True p h (Some (datagram_event_size, SE_DATAGRAM_ABI_VERSION)) False capacity r"

definition dg_filled :: "(dg_event \<times> bytes) option abi_body \<Rightarrow> dg_received \<Rightarrow> dg_received" where
  "dg_filled body ev =
     (case body of
        Inr (_, Some (e, written)) \<Rightarrow>
          ev\<lparr>dr_metadata := e, dr_payload := written @ drop (length written) (dr_payload ev)\<rparr>
      | _ \<Rightarrow> ev)"

definition dg_outcome :: "'a abi_body \<Rightarrow> dg_throw + se_status" where
  "dg_outcome body =
     (if dg_status body \<noteq> SE_TIMEOUT \<and> dg_status body \<noteq> SE_STOPPED
      then (case dg_require body of Inl x \<Rightarrow> Inl x | Inr _ \<Rightarrow> Inr (dg_status body))
      else Inr (dg_status body))"

definition dg_poll ::
  "native_pump \<Rightarrow> native_pump \<Rightarrow> nat \<Rightarrow> dg_received \<Rightarrow> dg_world \<Rightarrow> dg_world \<times> (dg_throw + dg_received \<times> se_status)" where
  "dg_poll p p2 k ev =
     dg_on_handle k (\<lambda>h r.
        case dg_poll_once p h (length (dr_payload ev)) r of
          (r1, body) \<Rightarrow>
            (let ev1 = dg_filled body (ev\<lparr>dr_metadata := empty_event\<rparr>) in
             if dg_status body = SE_BUFFER_TOO_SMALL then
               (let needed = de_payload_size (dr_metadata ev1);
                    ev2 = ev1\<lparr>dr_payload := take needed (dr_payload ev1) @ replicate (needed - length (dr_payload ev1)) 0\<rparr> in
                case dg_poll_once p2 h needed r1 of
                  (r2, body2) \<Rightarrow> (r2, map_sum id (Pair (dg_filled body2 ev2)) (dg_outcome body2)))
             else (r1, map_sum id (Pair ev1) (dg_outcome body))))"

definition dg_disconnect :: "bool \<Rightarrow> nat \<Rightarrow> u64 \<Rightarrow> dg_world \<Rightarrow> dg_world \<times> (dg_throw + unit)" where
  "dg_disconnect alloc k peer =
     dg_on_handle k (\<lambda>h r. map_prod id dg_require (se_datagram_disconnect True alloc h peer r))"

text \<open>What an application does with its objects, and the pumps of polls that wait.\<close>

inductive dg_step :: "dg_world \<Rightarrow> dg_world \<Rightarrow> bool" where
  construct: "umap_find (dw_objects w) k = None \<Longrightarrow> dg_step w (fst (dg_construct init_error grp options k w))"
| close: "dg_step w (dg_close k w)"
| destruct: "dg_step w (dg_destruct k w)"
| move_new: "umap_find (dw_objects w) j = None \<Longrightarrow> dg_step w (dg_move_construct i j w)"
| move: "umap_find (dw_objects w) i \<noteq> None \<Longrightarrow> umap_find (dw_objects w) j \<noteq> None \<Longrightarrow> dg_step w (dg_move_assign i j w)"
| listen: "dg_step w (fst (dg_listen lib answers k port address w))"
| connect: "dg_step w (fst (dg_connect lib answers k port address w))"
| send: "dg_step w (fst (dg_send native_send k peer delivery data w))"
| poll: "dg_step w (fst (dg_poll p p2 k ev w))"
| disconnect: "dg_step w (fst (dg_disconnect alloc k peer w))"
| pump: "dg_step w (w\<lparr>dw_runtime := gns_pump p (dw_runtime w)\<rparr>)"

section \<open>Endpoints that exist\<close>

definition live :: "gns_runtime \<Rightarrow> u64 set" where
  "live r = {h. umap_find (rt_endpoints r) h \<noteq> None}"

lemma live_frame [simp]: "live (r\<lparr>rt_next_peer := n\<rparr>) = live r" "live (r\<lparr>rt_closed := c\<rparr>) = live r"
    "live (release_if_empty r) = live r"
  by (simp_all add: live_def release_if_empty_def)

lemma live_set: "umap_find (rt_endpoints r) h \<noteq> None \<Longrightarrow> live (set_endpoint h e r) = live r"
  by (auto simp: live_def set_endpoint_def)

lemma live_with_endpoint [simp]: "live (fst (with_endpoint h f z r)) = live r"
  using live_set [of "r\<lparr>rt_next_peer := n\<rparr>" h for n]
  by (auto simp: with_endpoint_def case_prod_beta Let_def split: option.split)

lemma live_status_changed: "rt_inv r \<Longrightarrow> live (status_changed alloc answers change r) = live r"
proof (cases "find (\<lambda>entry. ep_owns change (snd entry)) (rt_endpoints r)")
  case (Some he)
  assume inv: "rt_inv r"
  have "he \<in> set (rt_endpoints r)" using find_SomeD [OF Some] by simp
  then have "umap_find (rt_endpoints r) (fst he) = Some (snd he)"
    using inv umap_in_set_find [of "rt_endpoints r" "fst he" "snd he"] by (simp add: rt_inv_def)
  then show ?thesis
    using live_set [of "r\<lparr>rt_next_peer := n\<rparr>" "fst he" for n]
    by (simp add: status_changed_def Some case_prod_beta Let_def)
qed (simp add: status_changed_def)

lemma live_changes:
  "rt_inv r \<Longrightarrow> live (fold (\<lambda>(alloc, answers, change). status_changed alloc answers change) cs r) = live r"
  by (induction cs arbitrary: r) (auto simp: status_changed_inv live_status_changed)

lemma live_pump: "rt_inv r \<Longrightarrow> live (gns_pump p r) = live r"
  using live_changes [of r "np_changes p"] by (simp add: gns_pump_def Let_def live_def umap_find_map)

lemma live_take [simp]: "live (fst (gns_take h capacity r)) = live r"
  by (simp add: gns_take_def)

lemma live_poll:
  assumes "rt_inv r"
  shows "live (fst (dg_poll_once p h capacity r)) = live r" "rt_inv (fst (dg_poll_once p h capacity r))"
proof -
  show "rt_inv (fst (dg_poll_once p h capacity r))"
    using poll_rt_inv [OF assms] assms by (simp add: dg_poll_once_def se_datagram_poll_def)
  show "live (fst (dg_poll_once p h capacity r)) = live r"
    using live_pump [OF take_rt_inv [OF assms]]
    by (auto simp: dg_poll_once_def se_datagram_poll_def gns_poll_def Let_def split: sum.split se_status.split)
qed

lemma live_destroy: "live (fst (se_datagram_destroy True h r)) = live r - {h}"
proof (cases "umap_find (rt_endpoints r) h")
  case (Some e)
  have "live (r\<lparr>rt_endpoints := umap_erase h (rt_endpoints r), rt_retired := m\<rparr>) = live r - {h}" for m
    by (auto simp: live_def umap_find_erase)
  then show ?thesis
    by (simp add: se_datagram_destroy_def gns_destroy_def Some)
next
  case None
  then show ?thesis
    by (auto simp: se_datagram_destroy_def gns_destroy_def live_def)
qed

lemma live_calls:
  "live (fst (se_datagram_listen True lib answers h address port r)) = live r"
  "live (fst (se_datagram_connect True lib answers h address port True r)) = live r"
  "live (fst (se_datagram_send True native_send h peer delivery data n r)) = live r"
  "live (fst (se_datagram_disconnect True alloc h peer r)) = live r"
  by (simp_all add: se_datagram_listen_def gns_listen_def se_datagram_connect_def gns_connect_def se_datagram_send_def
      gns_send_def se_datagram_disconnect_def gns_disconnect_def)

lemmas runtime_calls_inv = gns_step_inv [OF gns_step.listen] gns_step_inv [OF gns_step.connect] gns_step_inv [OF gns_step.send]
  gns_step_inv [OF gns_step.disconnect]

lemma dg_require_ok:
  "dg_require (Inr (status, v)) = Inr u \<longleftrightarrow> status = SE_OK" "dg_require (Inl (status, m)) = Inr u \<longleftrightarrow> status = SE_OK"
  by (simp_all add: dg_require_def protect_def abi_fail_def)

lemma dg_boundary_ok: "dg_require (snd (dg_boundary (r, b))) = Inr u \<longleftrightarrow> dg_require b = Inr u"
  by (cases b) (auto simp: dg_boundary_def dg_require_ok split: if_splits)

text \<open>A constructor that returns has a new endpoint; one that throws leaves the table as it was.\<close>

lemma live_create:
  assumes inv: "rt_inv r" and run: "se_datagram_create True init_error grp (Some options) True r = (r', body)"
  shows "rt_inv r' \<and> (case (dg_require body, body) of
      (Inr _, Inr (_, h)) \<Rightarrow> h \<notin> live r \<and> h \<noteq> 0 \<and> live r' = insert h (live r)
    | (Inr _, Inl _) \<Rightarrow> False
    | (Inl _, _) \<Rightarrow> live r' = live r)"
proof (cases "valid_options (Some options)")
  case False
  then show ?thesis
    using inv run dg_require_ok(2) by (auto simp: se_datagram_create_def dg_boundary_def split: sum.split)
next
  case True
  then have limit: "dg_max_event_queue_bytes options < W64"
    by (auto simp: valid_options_def)
  obtain r1 b where c: "gns_create init_error grp options r = (r1, b)" by force
  then have run': "r' = r1" "(r', body) = dg_boundary (r1, b)"
    using run True by (auto simp: se_datagram_create_def dg_boundary_def)
  have inv': "rt_inv r'"
    using create_rt_spec(1) [OF inv limit, of init_error grp] c run'(1) by simp
  show ?thesis
  proof (cases "\<exists>h. b = Inr (SE_OK, h)")
    case True
    then obtain h where h: "b = Inr (SE_OK, h)" by blast
    note s = create_rt_spec(2) [OF inv limit c [unfolded h]]
    have "rt_endpoints r1 = umap_assign h (Endpoint_new h options grp) (rt_endpoints r)"
      using c h s by (auto simp: gns_create_def Let_def umap_emplace_def split: if_splits)
    then have "live r1 = insert h (live r)"
      by (auto simp: live_def)
    moreover have "h \<noteq> 0" using s by auto
    ultimately show ?thesis
      using inv' s run' h by (auto simp: dg_boundary_def dg_require_def protect_def live_def)
  next
    case False
    then have "rt_endpoints r1 = rt_endpoints r"
      using c by (auto simp: gns_create_def Let_def release_if_empty_def split: if_splits)
    then have "live r1 = live r" by (simp add: live_def)
    moreover have "dg_require b \<noteq> Inr ()"
      using c False by (auto simp: gns_create_def Let_def dg_require_ok split: if_splits)
    then have "dg_require body \<noteq> Inr ()"
      using dg_boundary_ok [of r1 b "()"] run'(2) by (metis snd_conv)
    ultimately show ?thesis
      using inv' run'(1) by (auto split: sum.split)
  qed
qed

section \<open>Ownership\<close>

text \<open>The places whose object owns \<open>h\<close>.\<close>

definition holders :: "(nat, u64) umap \<Rightarrow> u64 \<Rightarrow> nat set" where
  "holders m h = {k. umap_find m k = Some h}"

definition dg_inv :: "dg_world \<Rightarrow> bool" where
  "dg_inv w \<longleftrightarrow> rt_inv (dw_runtime w) \<and> umap_wf (dw_objects w) \<and> 0 \<notin> live (dw_runtime w)
     \<and> (\<forall>h. h \<noteq> 0 \<longrightarrow> (if h \<in> live (dw_runtime w) then \<exists>k. holders (dw_objects w) h = {k} else holders (dw_objects w) h = {}))"

lemma dg_inv_runtime:
  assumes "dg_inv w" "rt_inv r" "live r = live (dw_runtime w)"
  shows "dg_inv (w\<lparr>dw_runtime := r\<rparr>)"
  using assms by (simp add: dg_inv_def)

lemma dg_on_handle_inv:
  assumes "dg_inv w" "\<And>h r. rt_inv r \<Longrightarrow> rt_inv (fst (call h r)) \<and> live (fst (call h r)) = live r"
  shows "dg_inv (fst (dg_on_handle k call w))"
proof -
  have "rt_inv (dw_runtime w)" using assms(1) by (simp add: dg_inv_def)
  then show ?thesis
    using assms by (auto simp: dg_on_handle_def case_prod_beta intro!: dg_inv_runtime split: option.split)
qed

lemma holders_assign:
  "holders (umap_assign k v m) h = (if v = h then insert k (holders m h) else holders m h - {k})"
  by (auto simp: holders_def)

lemma holders_erase: "holders (umap_erase k m) h = holders m h - {k}"
  by (auto simp: holders_def umap_find_erase)

lemma holders_place: "umap_find m k = None \<Longrightarrow> k \<notin> holders m h" "umap_find m k = Some h' \<Longrightarrow> h \<noteq> h' \<Longrightarrow> k \<notin> holders m h"
  by (simp_all add: holders_def)

lemma dg_close_inv:
  assumes inv: "dg_inv w"
  shows "dg_inv (dg_close k w)"
proof (cases "umap_find (dw_objects w) k")
  case (Some h)
  have rt: "rt_inv (dw_runtime w)" "umap_wf (dw_objects w)" using inv by (simp_all add: dg_inv_def)
  have k: "k \<in> holders (dw_objects w) h" using Some by (simp add: holders_def)
  have only: "holders (dw_objects w) h = {k}" "h \<in> live (dw_runtime w)" if "h \<noteq> 0"
    using inv that k unfolding dg_inv_def by (metis empty_iff singletonD)+
  have "rt_inv (fst (se_datagram_destroy True h (dw_runtime w)))"
    using rt destroy_rt_inv by (simp add: se_datagram_destroy_def)
  then show ?thesis
    using inv rt only holders_place(2) [OF Some]
    by (auto simp: dg_inv_def dg_close_def Some holders_assign live_destroy umap.wf_assign)
qed (simp add: dg_close_def inv)

lemma dg_close_place: "umap_find (dw_objects w) k \<noteq> None \<Longrightarrow> umap_find (dw_objects (dg_close k w)) k = Some 0"
  by (auto simp: dg_close_def)

lemma dg_destruct_inv:
  assumes "dg_inv w"
  shows "dg_inv (dg_destruct k w)"
proof -
  define w1 where "w1 = dg_close k w"
  have inv: "dg_inv w1" using dg_close_inv [OF assms] by (simp add: w1_def)
  have "k \<notin> holders (dw_objects w1) h" if "h \<noteq> 0" for h
    using that dg_close_place [of w k] by (cases "umap_find (dw_objects w) k") (auto simp: w1_def dg_close_def holders_def)
  then show ?thesis
    using inv by (simp add: dg_destruct_def w1_def [symmetric] Let_def dg_inv_def holders_erase umap.wf_erase)
qed

lemma dg_move_inv:
  assumes inv: "dg_inv w" and free: "umap_find (dw_objects w) j = None \<or> umap_find (dw_objects w) j = Some 0"
  shows "dg_inv (dg_move_construct i j w)"
proof (cases "umap_find (dw_objects w) i")
  case (Some h)
  let ?m = "umap_assign j h (umap_assign i 0 (dw_objects w))"
  have wf: "umap_wf ?m" using inv by (simp add: dg_inv_def umap.wf_assign)
  have j: "j \<notin> holders (dw_objects w) g" if "g \<noteq> 0" for g
    using free that by (auto simp: holders_def)
  have i: "i \<in> holders (dw_objects w) h" "\<And>g. g \<noteq> h \<Longrightarrow> i \<notin> holders (dw_objects w) g"
    using Some by (auto simp: holders_def)
  have m: "if g \<in> live (dw_runtime w) then \<exists>k. holders (dw_objects w) g = {k} else holders (dw_objects w) g = {}" if "g \<noteq> 0" for g
    using inv that by (simp add: dg_inv_def)
  have "if g \<in> live (dw_runtime w) then \<exists>k. holders ?m g = {k} else holders ?m g = {}" if "g \<noteq> 0" for g
  proof (cases "g = h")
    case True
    then have "holders (dw_objects w) g = {i}" "g \<in> live (dw_runtime w)"
      using m [OF that] i(1) by (auto split: if_splits)
    then show ?thesis using True that by (auto simp: holders_assign)
  next
    case False
    then have "holders ?m g = holders (dw_objects w) g"
      using i(2) [OF False] j [OF that] that by (auto simp: holders_assign)
    then show ?thesis using m [OF that] by simp
  qed
  then show ?thesis
    using inv wf by (simp add: dg_move_construct_def Some dg_inv_def)
qed (simp add: dg_move_construct_def inv)

lemma dg_construct_inv:
  assumes inv: "dg_inv w" and free: "umap_find (dw_objects w) k = None"
  shows "dg_inv (fst (dg_construct init_error grp options k w))"
proof -
  obtain r body where c: "se_datagram_create True init_error grp (Some options) True (dw_runtime w) = (r, body)" by force
  have "rt_inv (dw_runtime w)" "umap_wf (dw_objects w)" using inv by (simp_all add: dg_inv_def)
  note s = live_create [OF this(1) c]
  show ?thesis
  proof (cases "dg_require body")
    case (Inl x)
    then show ?thesis
      using s inv by (auto simp: dg_construct_def c intro: dg_inv_runtime)
  next
    case (Inr u)
    then obtain status h where b: "body = Inr (status, h)"
      using s by (cases body) auto
    then have h: "rt_inv r" "h \<notin> live (dw_runtime w)" "h \<noteq> 0" "live r = insert h (live (dw_runtime w))"
      using s Inr by simp_all
    then show ?thesis
      using inv Inr b holders_place(1) [OF free]
      by (auto simp: dg_construct_def c dg_inv_def holders_assign umap.wf_assign)
  qed
qed

lemma dg_calls_inv:
  assumes "dg_inv w"
  shows "dg_inv (fst (dg_listen lib answers k port address w))" "dg_inv (fst (dg_connect lib answers k port address w))"
    "dg_inv (fst (dg_send native_send k peer delivery data w))" "dg_inv (fst (dg_disconnect alloc k peer w))"
    "dg_inv (fst (dg_poll p p2 k ev w))"
  unfolding dg_listen_def dg_connect_def dg_send_def dg_disconnect_def dg_poll_def
  by (rule dg_on_handle_inv [OF assms]; simp add: case_prod_beta Let_def live_poll live_calls runtime_calls_inv)+

lemma dg_step_inv: "dg_step w w' \<Longrightarrow> dg_inv w \<Longrightarrow> dg_inv w'"
proof (induction rule: dg_step.induct)
  case (move w i j)
  then show ?case
    using dg_move_inv [OF dg_close_inv] dg_close_place [of w j] by (simp add: dg_move_assign_def)
next
  case (pump w p)
  then have "rt_inv (dw_runtime w)" by (simp add: dg_inv_def)
  then show ?case
    using pump dg_inv_runtime pump_inv live_pump by blast
qed (simp_all add: dg_construct_inv dg_close_inv dg_destruct_inv dg_move_inv dg_calls_inv)

lemma dg_initial_inv: "dg_inv dg_initial"
  using rt_inv_new by (simp add: dg_inv_def dg_initial_def live_def holders_def umap_find_def) (simp add: Runtime_new_def)

interpretation dg: transition_system "\<lambda>w. w = dg_initial" dg_step dg_inv
  by unfold_locales (auto simp: dg_initial_inv intro: dg_step_inv)

text \<open>
  The C++ wrapper owns its datagram endpoints. However objects are made, moved, closed and destroyed, with any
  calls in between: an endpoint of the library exists exactly when an object holds its handle, and then one object
  alone, so none is leaked and none is destroyed twice; and the runtime of the library is initialised when one exists.
\<close>

theorem datagram_ownership:
  assumes "dg.reaches w"
  shows "(\<forall>h. umap_find (rt_endpoints (dw_runtime w)) h \<noteq> None \<longrightarrow> (\<exists>!k. umap_find (dw_objects w) k = Some h))
    \<and> (\<forall>k h. umap_find (dw_objects w) k = Some h \<and> h \<noteq> 0 \<longrightarrow> umap_find (rt_endpoints (dw_runtime w)) h \<noteq> None)
    \<and> (rt_endpoints (dw_runtime w) \<noteq> [] \<longrightarrow> rt_initialized (dw_runtime w))"
proof -
  have inv: "dg_inv w" by (rule dg.reaches_inv [OF assms])
  then have rt: "rt_inv (dw_runtime w)" "0 \<notin> live (dw_runtime w)" by (simp_all add: dg_inv_def)
  have match: "if h \<in> live (dw_runtime w) then \<exists>k. holders (dw_objects w) h = {k} else holders (dw_objects w) h = {}" if "h \<noteq> 0" for h
    using inv that by (simp add: dg_inv_def)
  have "\<exists>!k. umap_find (dw_objects w) k = Some h" if "umap_find (rt_endpoints (dw_runtime w)) h \<noteq> None" for h
  proof -
    have h: "h \<in> live (dw_runtime w)" using that by (simp add: live_def)
    then have "h \<noteq> 0" using rt(2) by auto
    then obtain k where "holders (dw_objects w) h = {k}" using match [of h] h by auto
    then have "\<exists>!k. k \<in> holders (dw_objects w) h" by simp
    then show ?thesis by (simp add: holders_def)
  qed
  moreover have "umap_find (rt_endpoints (dw_runtime w)) h \<noteq> None" if "umap_find (dw_objects w) k = Some h" "h \<noteq> 0" for k h
  proof -
    have "k \<in> holders (dw_objects w) h" using that(1) by (simp add: holders_def)
    then have "h \<in> live (dw_runtime w)" using match [OF that(2)] by (auto split: if_splits)
    then show ?thesis by (simp add: live_def)
  qed
  moreover have "rt_endpoints (dw_runtime w) \<noteq> [] \<longrightarrow> rt_initialized (dw_runtime w)"
    using rt(1) by (simp add: rt_inv_def)
  ultimately show ?thesis by blast
qed

section \<open>An endpoint that moved\<close>

definition moved_world :: dg_world where
  "moved_world = dg_move_construct 0 1 (fst (dg_construct None 3 se_datagram_options_init 0 dg_initial))"

lemma sample_create_body: "snd (se_datagram_create True None 3 (Some se_datagram_options_init) True Runtime_new) = Inr (SE_OK, 0x4700000000000001)"
  by (simp add: se_datagram_create_def valid_options_def se_datagram_options_init_def native_receive_bytes_def
      datagram_event_size_def gns_create_def Runtime_new_def umap_emplace_def dg_boundary_def Let_def)

lemma sample_constructed: "fst (dg_construct None 3 se_datagram_options_init 0 dg_initial) =
    \<lparr>dw_runtime = sample_runtime (Endpoint_new 0x4700000000000001 se_datagram_options_init 3) 1, dw_objects = [(0, 0x4700000000000001)]\<rparr>"
proof -
  have "se_datagram_create True None 3 (Some se_datagram_options_init) True Runtime_new =
      (sample_runtime (Endpoint_new 0x4700000000000001 se_datagram_options_init 3) 1, Inr (SE_OK, 0x4700000000000001))"
    using sample_created sample_create_body by (simp add: prod_eq_iff)
  moreover have "dg_require (Inr (SE_OK, 0x4700000000000001 :: u64)) = Inr ()"
    by (simp add: dg_require_ok)
  ultimately show ?thesis
    by (simp add: dg_construct_def dg_initial_def)
qed

lemma moved_value: "dw_objects moved_world = [(0, 0), (1, 0x4700000000000001)]"
    "umap_find (rt_endpoints (dw_runtime moved_world)) 0x4700000000000001 \<noteq> None"
  by (simp_all add: moved_world_def sample_constructed dg_move_construct_def umap_find_def sample_runtime_def)

lemma moved_reached: "dg.reaches moved_world"
proof -
  have "dg.reaches (fst (dg_construct None 3 se_datagram_options_init 0 dg_initial))"
    by (rule dg.reaches.step [OF dg.reaches.here dg_step.construct]) (simp_all add: dg_initial_def umap_find_def)
  then show ?thesis
    unfolding moved_world_def
    by (rule dg.reaches.step [OF _ dg_step.move_new])
      (simp add: sample_constructed umap_find_def)
qed

theorem datagram_ownership_witness:
  "(\<exists>!k. umap_find (dw_objects moved_world) k = Some 0x4700000000000001) \<and> umap_find (dw_objects moved_world) 0 = Some 0"
  using datagram_ownership [OF moved_reached] moved_value by (auto simp: umap_find_def)

end
