(* ===== verification/Echo_App.thy ===== *)
theory Echo_App
  imports Runtime_Server Config Logger
begin

text \<open>
  The echo server as an application (src/examples/EchoServer: AppConfig.cpp, StartupDiagnostics.cpp,
  Application.cpp): how a configuration file becomes options, what is logged on the way, and from the file to a
  serving runtime or an exit code. \<open>windows\<close> is the platform; what the process knows of itself and the check of the
  system's ECC provider are arguments.
\<close>

section \<open>Configuration\<close>

record storage_options =
  st_enabled :: bool
  st_provider :: string
  st_connection_string :: string
  st_pool_size :: nat

record distribution_options =
  ds_enabled :: bool
  ds_node_id :: string
  ds_advertised_endpoint :: string
  ds_seed_nodes :: "string list"

record app_config =
  ac_logging :: logger_options
  ac_server :: server_options
  ac_access :: access_options
  ac_storage :: storage_options
  ac_distribution :: distribution_options
  ac_check_ecc_provider :: bool
  ac_warnings :: "string list"

definition read_port :: "config \<Rightarrow> u16" where
  "read_port config =
     (let v = get_int_or config ''server.port'' 8080 in if v > 0 \<and> v \<le> 65535 then word_of_int v else 8080)"

text \<open>\<^verbatim>\<open>std::filesystem::path::has_parent_path\<close> of a path in the notation of the platform.\<close>

definition path_has_parent :: "bool \<Rightarrow> string \<Rightarrow> bool" where
  "path_has_parent windows path \<longleftrightarrow> CHR ''/'' \<in> set path
     \<or> windows \<and> (CHR 0x5C \<in> set path \<or> length path \<ge> 2 \<and> path ! 1 = CHR '':'')"

text \<open>The warning of a name that does not parse, none for one that does.\<close>

definition warn_invalid :: "string \<Rightarrow> string \<Rightarrow> 'a option \<Rightarrow> string \<Rightarrow> string list" where
  "warn_invalid key v parsed fallback =
     (case parsed of
        Some _ \<Rightarrow> []
      | None \<Rightarrow> [''Invalid '' @ key @ '' '' @ [CHR 39] @ v @ [CHR 39] @ '', using '' @ fallback])"

definition or_default :: "'a option \<Rightarrow> 'a \<Rightarrow> 'a" where
  "or_default v fallback = (case v of Some x \<Rightarrow> x | None \<Rightarrow> fallback)"

definition at_least_one :: "config \<Rightarrow> string \<Rightarrow> int \<Rightarrow> nat" where
  "at_least_one config key fallback = nat (max 1 (get_int_or config key fallback))"

definition parse_app_config :: "bool \<Rightarrow> config \<Rightarrow> app_config" where
  "parse_app_config windows config =
     (let level_name = get_string_or config ''log.level'' ''debug'';
          level = parse_log_level level_name;
          path = get_string_or config ''log.file'' ''logs/serverengine.log'';
          transport_name = get_string_or config ''server.transport'' ''tcp'';
          transport = parse_transport_kind transport_name;
          backend_name = get_string_or config ''server.tcp_backend'' (backend_to_string (default_tcp_backend windows));
          backend = parse_tcp_backend backend_name;
          mode_name = get_string_or config ''security.mode'' ''token'';
          mode = parse_security_mode mode_name;
          listener = \<lparr>lo_name = ''main'', lo_transport = or_default transport Tcp,
            lo_bind_endpoint = \<lparr>ep_address = get_string_or config ''server.host'' ''0.0.0.0'', ep_port = read_port config\<rparr>,
            lo_enabled = True\<rparr> in
      \<lparr>ac_logging = \<lparr>minimum_level = or_default level Info, console_enabled = get_bool_or config ''log.console'' True,
         file_path = path, has_parent_path = path_has_parent windows path,
         append_file = get_bool_or config ''log.append'' True\<rparr>,
       ac_server = \<lparr>so_worker_count = at_least_one config ''server.workers'' 4,
         so_max_sessions = at_least_one config ''server.max_sessions'' 10000,
         so_max_message_bytes = at_least_one config ''server.max_message_bytes'' 65536,
         so_idle_timeout_ms = at_least_one config ''server.idle_timeout_ms'' 300000,
         so_receive_timeout_ms = max 1 (get_int_or config ''server.receive_timeout_ms'' 1000),
         so_tcp_no_delay = get_bool_or config ''server.tcp_no_delay'' True,
         so_tcp_backend = or_default backend (default_tcp_backend windows),
         so_security_mode = or_default mode Token,
         so_listeners = [listener]\<rparr>,
       ac_access = \<lparr>require_auth = get_bool_or config ''access.require_auth'' True,
         access_token = get_string_or config ''access.token'' ''secret''\<rparr>,
       ac_storage = \<lparr>st_enabled = get_bool_or config ''storage.enabled'' False,
         st_provider = get_string_or config ''storage.provider'' [],
         st_connection_string = get_string_or config ''storage.connection_string'' [],
         st_pool_size = at_least_one config ''storage.pool_size'' 16\<rparr>,
       ac_distribution = \<lparr>ds_enabled = get_bool_or config ''distribution.enabled'' False,
         ds_node_id = get_string_or config ''distribution.node_id'' ''node-1'',
         ds_advertised_endpoint = get_string_or config ''distribution.advertised_endpoint'' [], ds_seed_nodes = []\<rparr>,
       ac_check_ecc_provider = get_bool_or config ''security.ecc_p256_provider_check'' True,
       ac_warnings = warn_invalid ''log.level'' level_name level (level_to_string (or_default level Info)) @
         warn_invalid ''server.transport'' transport_name transport (transport_to_string (or_default transport Tcp)) @
         warn_invalid ''server.tcp_backend'' backend_name backend (backend_to_string (or_default backend (default_tcp_backend windows))) @
         warn_invalid ''security.mode'' mode_name mode (security_to_string (or_default mode Token))\<rparr>)"

section \<open>Startup diagnostics\<close>

record process_facts =
  pf_system :: string
  pf_cpu :: string
  pf_compiler_name :: string
  pf_compiler_version :: string
  pf_debug_build :: bool
  pf_process_id :: nat
  pf_executable :: string
  pf_working_directory :: string
  pf_ecc_opened :: bool

record ecc_status =
  ec_available :: bool
  ec_provider_name :: string
  ec_detail :: string

definition check_ecc_p256_provider :: "bool \<Rightarrow> bool \<Rightarrow> ecc_status" where
  "check_ecc_p256_provider windows opened =
     (if windows then
        (if opened then \<lparr>ec_available = True, ec_provider_name = ''Windows CNG ECDH P-256'', ec_detail = ''available''\<rparr>
         else \<lparr>ec_available = False, ec_provider_name = ''Windows CNG ECDH P-256'', ec_detail = ''BCryptOpenAlgorithmProvider failed''\<rparr>)
      else \<lparr>ec_available = False, ec_provider_name = ''unavailable'', ec_detail = ''ECC provider is not implemented for this platform yet''\<rparr>)"

definition if_text :: "bool \<Rightarrow> string \<Rightarrow> string \<Rightarrow> string" where
  "if_text b yes no = (if b then yes else no)"

definition startup_diagnostics :: "bool \<Rightarrow> process_facts \<Rightarrow> app_config \<Rightarrow> (log_level \<times> string) list" where
  "startup_diagnostics windows facts config =
     (let server = ac_server config; ecc = check_ecc_p256_provider windows (pf_ecc_opened facts);
          storage = ac_storage config; distribution = ac_distribution config in
      [(Info, ''OS: '' @ pf_system facts), (Info, ''CPU: '' @ pf_cpu facts), (Info, ''Compiler: '' @ pf_compiler_name facts @ '' '' @ pf_compiler_version facts),
       (Info, ''Build: '' @ if_text (pf_debug_build facts) ''Debug'' ''Release''), (Info, ''PID: '' @ decimal (pf_process_id facts)),
       (Info, ''Executable: '' @ pf_executable facts), (Info, ''Working directory: '' @ pf_working_directory facts),
       (Debug, ''Logger file: '' @ file_path (ac_logging config))] @
      concat (map (\<lambda>l. [(Info, ''Server transport: '' @ transport_to_string (lo_transport l)),
                        (Info, ''Server endpoint: '' @ endpoint_to_string (lo_bind_endpoint l))]) (so_listeners server)) @
      [(Info, ''Worker count: '' @ decimal (so_worker_count server)), (Info, ''Max sessions: '' @ decimal (so_max_sessions server)),
       (Info, ''Max message bytes: '' @ decimal (so_max_message_bytes server)),
       (Info, ''Idle timeout ms: '' @ decimal (so_idle_timeout_ms server)),
       (Info, ''Receive timeout ms: '' @ show_int (so_receive_timeout_ms server)),
       (Info, ''TCP no delay: '' @ if_text (so_tcp_no_delay server) ''true'' ''false''),
       (Info, ''TCP backend: '' @ backend_to_string (so_tcp_backend server)),
       (Info, ''Security mode: '' @ security_to_string (so_security_mode server)),
       (Info, ''Access require auth: '' @ if_text (require_auth (ac_access config)) ''true'' ''false'')] @
      (if ac_check_ecc_provider config
       then [(Info, ''ECC P-256 provider: '' @ if_text (ec_available ecc) ''available'' ''unavailable'' @ '' provider='' @
               ec_provider_name ecc @ '' detail='' @ ec_detail ecc)]
       else []) @
      [(Info, ''Storage: '' @ if_text (st_enabled storage) ''enabled'' ''disabled'' @ '' provider='' @ st_provider storage @
         '' pool_size='' @ decimal (st_pool_size storage)),
       (Info, ''Distribution: '' @ if_text (ds_enabled distribution) ''enabled'' ''disabled'' @ '' node_id='' @
         ds_node_id distribution @ '' advertised_endpoint='' @ ds_advertised_endpoint distribution)] @
      (if st_enabled storage \<or> ds_enabled distribution
       then [(Warning, ''Storage/distribution settings are placeholders; no driver is implemented'')] else []))"

section \<open>From the file to a serving runtime\<close>

definition config_path :: string where
  "config_path = ''config/serverengine.ini''"

text \<open>What is logged before the runtime is built, and the options or the exit code.\<close>

definition app_prepare ::
  "bool \<Rightarrow> process_facts \<Rightarrow> log_environment \<Rightarrow> config \<Rightarrow> unit res \<Rightarrow> (log_level \<times> string) list \<times> (nat + app_config)" where
  "app_prepare windows facts env source loaded =
     (let config = parse_app_config windows source in
      if \<not> snd (initialize_locked env (Logger_new (ac_logging config) [])) then ([], Inl 1)
      else
        (let records = [(Info, ''ServerEngine starting''),
               (case loaded of
                  Inr _ \<Rightarrow> (Info, ''Config loaded: '' @ config_path)
                | Inl e \<Rightarrow> (Warning, ''Config load failed: '' @ e @ ''; using defaults''))] @
               map (Pair Warning) (ac_warnings config) in
         if so_security_mode (ac_server config) = EccP256
         then (records @ [(Critical, ''security.mode=ecc-p256 is configured, but encrypted ECC handshake is not implemented yet'')], Inl 1)
         else (records @ [(Info, ''Config entries: '' @ decimal (config_size source))] @ startup_diagnostics windows facts config, Inr config)))"

text \<open>The handler is wired to the hub before the server starts.\<close>

definition app_handler :: "app_config \<Rightarrow> handler" where
  "app_handler config = EchoHandler (ac_access config) True"

definition app_start ::
  "bool \<Rightarrow> process_facts \<Rightarrow> log_environment \<Rightarrow> transport_send \<Rightarrow> u64 \<Rightarrow> (listener_options \<Rightarrow> unit res) \<Rightarrow>
     (nat \<Rightarrow> (u64 \<times> endpoint) list) \<Rightarrow> string option \<Rightarrow> (log_level \<times> string) list \<times> (nat + app_config \<times> server)" where
  "app_start windows facts env send now transport_start final content =
     (case config_load_file config_path content [] of
        (source, loaded) \<Rightarrow>
          (case app_prepare windows facts env source loaded of
             (records, Inl code) \<Rightarrow> (records, Inl code)
           | (records, Inr config) \<Rightarrow>
               (case server_start (app_handler config) send now transport_start final (Server_new (ac_server config)) of
                  (sv, Inl e) \<Rightarrow> (records @ io_log (sv_io sv) @ [(Critical, ''Failed to start runtime: '' @ e)], Inl 1)
                | (sv, Inr _) \<Rightarrow>
                    (records, Inr (config, sv_log Info ''ServerEngine running. Press Ctrl+C to stop.'' sv)))))"

text \<open>After the stop flag was seen: the server and the exit code.\<close>

definition app_finish ::
  "transport_send \<Rightarrow> u64 \<Rightarrow> nat \<Rightarrow> (nat \<Rightarrow> (u64 \<times> endpoint) list) \<Rightarrow> app_config \<Rightarrow> server \<Rightarrow> server \<times> nat" where
  "app_finish send now elapsed final config sv =
     (let sv1 = server_stop (app_handler config) send now final (sv_log Info ''Stop requested'' sv);
          sv2 = sv_log Info (''Clock elapsed: '' @ decimal elapsed @ '' ms'') sv1
      in (sv_log Info ''ServerEngine stopped'' sv2, 0))"

section \<open>Properties\<close>

lemma get_bool_or_True: "get_bool_or config key True \<or> get_bool config key = Some False"
  by (auto simp: get_bool_or_def split: option.split)

lemma read_port_positive: "0 < unat (read_port config)"
proof (cases "get_int_or config ''server.port'' 8080 > 0 \<and> get_int_or config ''server.port'' 8080 \<le> 65535")
  case True
  define v where "v = get_int_or config ''server.port'' 8080"
  have "uint (word_of_int v :: u16) = v"
    using True by (simp add: v_def uint_word_of_int take_bit_eq_mod)
  then show ?thesis
    using True by (simp add: read_port_def v_def [symmetric] unat_gt_0 word_eq_iff_unsigned [symmetric] flip: uint_0_iff)
qed (auto simp: read_port_def Let_def)

text \<open>Every configuration gives options that the runtime can work with.\<close>

definition usable :: "app_config \<Rightarrow> bool" where
  "usable config \<longleftrightarrow>
     (case so_listeners (ac_server config) of
        [l] \<Rightarrow> lo_enabled l \<and> 0 < unat (ep_port (lo_bind_endpoint l))
      | _ \<Rightarrow> False)
     \<and> 1 \<le> so_worker_count (ac_server config) \<and> 1 \<le> so_max_sessions (ac_server config)
     \<and> 1 \<le> so_max_message_bytes (ac_server config) \<and> 1 \<le> so_idle_timeout_ms (ac_server config)
     \<and> 1 \<le> so_receive_timeout_ms (ac_server config) \<and> 1 \<le> st_pool_size (ac_storage config)"

lemma at_least_one_ge: "Suc 0 \<le> at_least_one config key n"
  unfolding at_least_one_def by linarith

lemma parse_usable: "usable (parse_app_config windows source)"
  by (simp add: usable_def parse_app_config_def at_least_one_ge read_port_positive Let_def)

lemma start_single:
  assumes "server_start h send now transport_start final (Server_new options) = (sv, Inr ())"
    and "so_listeners options = [l]" and "lo_enabled l"
  shows "lo_transport l = Tcp \<and> transport_start l = Inr () \<and> sv_running sv \<and> map tl_options (sv_listeners sv) = [l] \<and> sv_options sv = options"
  using assms by (auto simp: server_start_def Server_new_def sv_log_def Let_def split: if_splits sum.splits)

lemma prepare_config:
  assumes "app_prepare windows facts env source loaded = (records, Inr config)"
  shows "config = parse_app_config windows source \<and> so_security_mode (ac_server config) \<noteq> EccP256"
  using assms by (auto simp: app_prepare_def Let_def split: if_splits)

lemma finish_clean:
  assumes "server_inv sv" and "app_finish send now elapsed final config sv = (sv', code)"
  shows "code = 0 \<and> \<not> sv_running sv' \<and> io_hub (sv_io sv') = []"
proof -
  define sv0 where "sv0 = sv_log Info ''Stop requested'' sv"
  define sv1 where "sv1 = server_stop (app_handler config) send now final sv0"
  have "server_inv sv0"
    using server_inv_only_io [OF assms(1) only_io_log] by (simp add: sv0_def)
  then have "server_inv sv1"
    using echo.server_stop_inv by (simp add: sv1_def app_handler_def)
  moreover have "\<not> sv_running sv1"
    using echo.server_stop_spec(3) [of sv0 "ac_access config" True send now final] \<open>server_inv sv0\<close>
    by (cases "sv_running sv0") (simp_all add: sv1_def app_handler_def server_inv_def server_stop_def)
  ultimately have "io_hub (sv_io sv1) = []"
    using sessions_inv_no_owner [of sv1] by (simp add: server_inv_def find_session_def)
  then show ?thesis
    using assms(2) \<open>\<not> sv_running sv1\<close> by (auto simp: app_finish_def Let_def sv0_def [symmetric] sv1_def [symmetric])
qed

text \<open>
  C37. The echo server fails safe. When it starts at all, whatever the configuration file holds, it serves one TCP listener
  on a port other than zero whose transport came up, never in a security mode that is not implemented, and clients
  have to authenticate unless the file turns that off in so many words. While it runs, it keeps within the configured
  number of sessions, and after the stop flag it ends with exit code 0, stopped and without a session, whatever the
  transport called back before.
\<close>

theorem echo_app_fail_safe:
  assumes "app_start windows facts env send now transport_start final content = (records, Inr (config, sv))"
    and "(server_step (app_handler config))\<^sup>*\<^sup>* sv sv'"
    and "app_finish send' now' elapsed final' config sv' = (sv'', code)"
  shows "(\<exists>l. map tl_options (sv_listeners sv) = [l] \<and> lo_transport l = Tcp \<and> 0 < unat (ep_port (lo_bind_endpoint l))
        \<and> transport_start l = Inr ())
    \<and> so_security_mode (ac_server config) \<noteq> EccP256
    \<and> (require_auth (ac_access config)
        \<or> get_bool (fst (config_load_file config_path content [])) ''access.require_auth'' = Some False)
    \<and> hub_count (io_hub (sv_io sv')) \<le> so_max_sessions (sv_options sv') \<and> 1 \<le> so_max_sessions (sv_options sv)
    \<and> code = 0 \<and> \<not> sv_running sv'' \<and> hub_count (io_hub (sv_io sv'')) = 0"
proof -
  let ?h = "app_handler config"
  obtain source loaded where f: "config_load_file config_path content [] = (source, loaded)" by force
  obtain sv0 where p: "app_prepare windows facts env source loaded = (records, Inr config)"
    and s: "server_start ?h send now transport_start final (Server_new (ac_server config)) = (sv0, Inr ())"
    and sv: "sv = sv_log Info ''ServerEngine running. Press Ctrl+C to stop.'' sv0"
    using assms(1) f by (auto simp: app_start_def split: prod.splits sum.splits)
  note c = prepare_config [OF p]
  have u: "usable config" using c parse_usable by simp
  then obtain l where l: "so_listeners (ac_server config) = [l]" "lo_enabled l" "0 < unat (ep_port (lo_bind_endpoint l))"
    by (auto simp: usable_def split: list.splits)
  have one: "lo_transport l = Tcp \<and> transport_start l = Inr () \<and> map tl_options (sv_listeners sv) = [l] \<and> sv_options sv = ac_server config"
    using start_single [OF s l(1,2)] by (simp add: sv)
  have "server_inv sv0"
    using echo.server_start_inv [OF server_inv_new, of "ac_access config" True send now transport_start final "ac_server config"] s
    by (simp add: app_handler_def)
  then have "server_inv sv"
    using server_inv_only_io [OF _ only_io_log] by (simp add: sv)
  from assms(2) this have inv: "server_inv sv'"
    by (induction rule: rtranclp_induct) (auto simp: app_handler_def intro: echo.step_inv)
  have auth: "require_auth (ac_access config) \<or> get_bool source ''access.require_auth'' = Some False"
    using get_bool_or_True [of source "''access.require_auth''"] c by (simp add: parse_app_config_def Let_def)
  have room: "hub_count (io_hub (sv_io sv')) \<le> so_max_sessions (sv_options sv')" "1 \<le> so_max_sessions (sv_options sv)"
    using inv u one by (simp_all add: server_inv_def sessions_inv_def hub_count_def usable_def)
  have ended: "code = 0" "\<not> sv_running sv''" "hub_count (io_hub (sv_io sv'')) = 0"
    using finish_clean [OF inv assms(3)] by (simp_all add: hub_count_def umap_size_def)
  show ?thesis
    using one l(3) auth conjunct2 [OF c] room ended by (intro conjI exI [of _ l]) (simp_all add: f)
qed

text \<open>
  The secret stays out of the log. Two configurations that differ in the access token alone, however it is set,
  make the same records before the runtime starts.
\<close>

theorem startup_log_hides_token:
  assumes "\<And>key. key \<noteq> ''access.token'' \<Longrightarrow> umap_find source key = umap_find source' key"
    and "config_size source = config_size source'"
  shows "fst (app_prepare windows facts env source loaded) = fst (app_prepare windows facts env source' loaded)"
proof -
  have get: "get_string_or source key v = get_string_or source' key v" "get_bool_or source key b = get_bool_or source' key b"
      "get_int_or source key i = get_int_or source' key i" if "key \<noteq> ''access.token''" for key v b i
    using assms(1) [OF that]
    by (simp_all add: get_string_or_def get_bool_or_def get_int_or_def get_bool_def get_int_def get_string_def)
  define other where "other = parse_app_config windows source'"
  have "parse_app_config windows source = other\<lparr>ac_access := (ac_access other)\<lparr>access_token := get_string_or source ''access.token'' ''secret''\<rparr>\<rparr>"
    by (simp add: other_def parse_app_config_def read_port_def at_least_one_def get Let_def)
  then show ?thesis
    using assms(2) by (simp add: app_prepare_def startup_diagnostics_def other_def [symmetric] Let_def)
qed

section \<open>A server from an empty file\<close>

definition open_environment :: log_environment where
  "open_environment = \<lparr>directories_created = True, file_opened = True\<rparr>"

definition some_facts :: process_facts where
  "some_facts = \<lparr>pf_system = ''Linux'', pf_cpu = ''x64'', pf_compiler_name = ''gcc'', pf_compiler_version = ''14'', pf_debug_build = False,
     pf_process_id = 7, pf_executable = ''echo'', pf_working_directory = ''.'', pf_ecc_opened = False\<rparr>"

lemma empty_file_starts:
  "\<exists>records sv. app_start False some_facts open_environment (\<lambda>_ _ _. Inr ()) 1 (\<lambda>_. Inr ()) (\<lambda>_. []) (Some []) =
     (records, Inr (parse_app_config False [], sv))"
proof -
  let ?c = "parse_app_config False []"
  have get: "get_string_or [] key v = v" "get_bool_or [] key b = b" "get_int_or [] key i = i" for key v b i
    by (simp_all add: get_string_or_def get_bool_or_def get_int_or_def get_bool_def get_int_def get_string_def umap_find_def)
  have content: "config_load_file config_path (Some []) [] = ([], Inr ())"
    by (simp add: config_load_file_def getlines_def)
  have fields: "so_security_mode (ac_server ?c) = Token" "\<exists>l. so_listeners (ac_server ?c) = [l] \<and> lo_enabled l \<and> lo_transport l = Tcp"
    by (simp_all add: parse_app_config_def get or_default_def Let_def parse_security_mode_def parse_transport_kind_def
        lowercase_copy_def tolower_def)
  have "snd (initialize_locked open_environment (Logger_new (ac_logging ?c) []))"
    by (simp add: initialize_locked_def open_environment_def)
  then obtain records where prep: "app_prepare False some_facts open_environment [] (Inr ()) = (records, Inr ?c)"
    using fields(1) by (simp add: app_prepare_def Let_def)
  obtain sv where "server_start (app_handler ?c) (\<lambda>_ _ _. Inr ()) 1 (\<lambda>_. Inr ()) (\<lambda>_. []) (Server_new (ac_server ?c)) = (sv, Inr ())"
    using fields(2) by (auto simp: server_start_def Server_new_def sv_log_def Let_def)
  then show ?thesis
    by (auto simp: app_start_def content prep)
qed

theorem echo_app_fail_safe_witness:
  "\<exists>records config sv. app_start False some_facts open_environment (\<lambda>_ _ _. Inr ()) 1 (\<lambda>_. Inr ()) (\<lambda>_. []) (Some []) = (records, Inr (config, sv))
     \<and> require_auth (ac_access config) \<and> length (sv_listeners sv) = 1"
proof -
  obtain records sv where s: "app_start False some_facts open_environment (\<lambda>_ _ _. Inr ()) 1 (\<lambda>_. Inr ()) (\<lambda>_. []) (Some []) =
      (records, Inr (parse_app_config False [], sv))"
    using empty_file_starts by blast
  obtain sv'' code where fin: "app_finish (\<lambda>_ _ _. Inr ()) 9 8 (\<lambda>_. []) (parse_app_config False []) sv = (sv'', code)" by force
  have none: "get_bool (fst (config_load_file config_path (Some []) [])) ''access.require_auth'' = None"
    by (simp add: config_load_file_def getlines_def get_bool_def get_string_def umap_find_def)
  have "require_auth (ac_access (parse_app_config False []))" "length (sv_listeners sv) = 1"
    using echo_app_fail_safe [OF s rtranclp.rtrancl_refl fin] none by (auto dest: arg_cong [where f = length])
  then show ?thesis using s by blast
qed

end
