(* ===== verification/Spec2Isabelle.thy ===== *)
theory Spec2Isabelle
  imports Line_Framer Credential_Verifier Config Logger Runtime_Server Stream_Properties Server_Host
    Sql_Properties Sqlite_Transactions Redis_Service Abi_World Gns_Runtime Threaded_Properties Iocp_Properties
    Redis_Transport Tls_Context Game_Server Web_Server Cpp_Datagram Echo_App
begin

text \<open>
  \<^bold>\<open>A verification of the ServerEngine library.\<close>

  ServerEngine (src/) is a C++ library for network servers. Applications use it in two ways. C++
  programs link \<^verbatim>\<open>runtime::Server\<close> with a message handler (src/src/Runtime/Server.cpp; the echo
  server of src/examples is one). Other languages use the C interface (src/src/Abi): opaque handles for
  hosted servers, SQL services, Redis services and datagram endpoints, and events that the
  application polls. Below both, the transports (src/src/Net) own sockets and threads, and the data
  services (src/src/Data) own one worker thread each. The development models these parts from the
  sources, keeps integers at their width where an overflow could matter (\<open>u8\<close> to \<open>u64\<close> are words, and
  \<^verbatim>\<open>std::size_t\<close> arithmetic is \<open>nat\<close> with \<open>add64\<close> and \<open>sub64\<close>), and makes every error path a value.

  \<^bold>\<open>Conventions.\<close>
  \<^item> A class is a record, a method a function on it; what a call returns through out-parameters is part
    of its result. A thrown exception or a diagnostic is a left value of a sum.
  \<^item> What a library outside the repository answers (the socket completions of Asio and Beast, SQLite,
    hiredis, GameNetworkingSockets), whether an allocation succeeds, and the time are arguments. A
    property that relies on documented behaviour of such a library names it as a hypothesis.
  \<^item> What runs under one mutex or on one worker thread is one step. Threads that share a state
    interleave by steps, and the properties speak of every sequence of steps.
  \<^item> A hash table (\<^verbatim>\<open>std::unordered_map\<close>) is an association list in ascending key order, \<open>umap\<close>; the
    sources do not depend on the order of iteration, except for the order of closes on shutdown.
  \<^item> Some records carry fields of the model only (logs of the calls made to an application, of accepted
    and delivered identifiers, of closed connections). No operation reads them. A callback that is not
    set is not called and leaves nothing in the log.

  \<^bold>\<open>Shared theories.\<close>
  \<^item> \<open>Prelude\<close>: word and size types, \<open>sub64\<close> budgets, results. \<open>Text\<close>: trimming, splitting and number
    parsing of the C and C++ libraries. \<open>Containers\<close>: \<open>umap\<close> with the locale of its laws and their
    interpretation. \<open>Names\<close>: enumerations and their names. \<open>Byte_Buffer\<close>: src/src/Core/Buffer.cpp.
  \<^item> \<open>Interfaces\<close>: the contracts between components as locales. \<open>transition_system\<close> gives reachability
    and invariants of a step relation; \<open>completion_source\<close> and its extension \<open>fifo_source\<close> are services
    that accept requests and hand out every outcome once, the latter in order. \<open>Handle_Registry\<close> adds
    \<open>handle_issuer\<close>, the contract of a table of handles, with one interpretation per registry.

  \<^bold>\<open>Components.\<close>
  \<^item> \<open>Line_Framer\<close> (src/src/Net/Detail/LineFramer.h), \<open>Credential_Verifier\<close>
    (src/src/Security/CredentialVerifier.cpp), \<open>Config\<close> and \<open>Logger\<close> (src/src/Core): the framer refines
    splitting of the whole stream at line ends, whatever the fragmentation; the comparison that takes
    the same time for every text decides equality; a written configuration is read back.
  \<^item> \<open>Connection_Hub\<close>, \<open>Echo_Handler\<close>, \<open>Runtime_Server\<close> (src/src/Runtime, src/examples/EchoServer): the
    session table, the handler with its authentication gate, and the server with its listeners. The
    session tables of the listeners, the hub and the admission counter agree in every reachable state;
    start is all or nothing; a client that never authenticated gets nothing but refusals.
  \<^item> \<open>Echo_App\<close> (src/examples/EchoServer: AppConfig.cpp, StartupDiagnostics.cpp, Application.cpp): from the configuration
    file to options, a serving runtime and the exit code. The application fails safe: whatever the file holds, it
    serves TCP on a real port with authentication unless that is turned off explicitly, its startup log does
    not depend on the access token, and it ends without a session.
  \<^item> \<open>Net_Types\<close>, \<open>Worker_Context\<close>, \<open>Session_Protocol\<close>, \<open>Stream_Connections\<close>, \<open>Http_Codec\<close>,
    \<open>Http_Connection\<close>, \<open>Udp_Connections\<close>, \<open>Transport_Service\<close>, \<open>Stream_Properties\<close>
    (src/src/Net/Async): the transport worker with TCP, WebSocket, HTTP and UDP sessions. An
    application with open and close callbacks sees every session open once, then messages, then one close,
    except that a forced stop (the stop command could not be posted) drops the callbacks first and tells
    nobody; connections, queues and stop respect the limits; a TCP stream is cut at the announced lengths into the
    messages that were framed, and request envelopes are read back; an HTTP request is answered at most
    once and a response can neither inject header lines nor set the headers of the engine.
  \<^item> \<open>Event_Queue\<close>, \<open>Server_Host\<close> (src/src/Runtime/Host): the bounded queue between worker and
    application, and the lifecycle of a hosted server. Sequence numbers have no gaps, the byte count is
    exact, and an overflow is reported once and stops the host.
  \<^item> \<open>Sql_Request\<close>, \<open>Sql_Service\<close>, \<open>Sqlite_Driver\<close>, \<open>Sqlite_Transactions\<close>, \<open>Sql_Properties\<close>
    (src/src/Data/Sql): accepted requests with the worker's critical sections, and one request as one
    transaction. No outcome is lost or delivered twice, budgets hold, a request commits entirely or not
    at all unless it reports the outcome as unknown, and stop drains the service.
  \<^item> \<open>Redis_Connection\<close>, \<open>Redis_Transport\<close>, \<open>Redis_Service\<close> (src/src/Data/Redis): the check of an arriving reply,
    which does not depend on how the reply is cut into reads; one command on its connection, where the events
    are the order in which the handlers of Asio run and \<open>parse\<close> is the reader of hiredis, with exactly one
    outcome that no later handler replaces; and the service, which answers in the order of submission.
  \<^item> \<open>Tls_Context\<close> (src/src/Net/Async/TlsContext.cpp): the checks and settings of a listener's TLS context, over
    what OpenSSL answers. A context that is made allows TLS 1.3 alone and has an EC key of at least 256 bits
    that fits its certificate chain; a refusal says nothing about the content of the files.
  \<^item> \<open>Abi_Status\<close>, \<open>Handle_Registry\<close>, \<open>Abi_Server\<close>, \<open>Abi_Sql\<close>, \<open>Abi_Redis\<close>, \<open>Abi_World\<close> (src/src/Abi,
    src/src/Data/Sql/Registry.cpp): every export, and the product of the three registries. The
    invariants of all services hold in every state that calls and worker steps can bring about; handles
    of different families never clash, and a destroyed handle never becomes valid again and is refused by
    each export that takes one; the readers
    of a SQL result stay within its rows and columns.
  \<^item> \<open>Gns_Endpoint\<close>, \<open>Gns_Runtime\<close> (src/src/Net/Transports/Gns, src/src/Abi/DatagramTransport.cpp): the
    datagram endpoints, the callbacks of the library and the exports; what polls return is well formed
    for each peer, and queue and peer table stay within the options.
  \<^item> \<open>Threaded_Server\<close>, \<open>Threaded_Invariant\<close>, \<open>Threaded_Properties\<close> (src/src/Net/Threaded): the TCP server with
    blocking sockets as steps of the accept thread, the client threads and the owner over one shared state.
    Connects and disconnects are paired, messages are the lines of what was received, and stop ends.
  \<^item> \<open>Iocp_Server\<close>, \<open>Iocp_Invariant\<close>, \<open>Iocp_Sends\<close>, \<open>Iocp_Lifecycle\<close>, \<open>Iocp_Properties\<close> (src/src/Net/Iocp): the TCP
    server on completion ports, as steps of workers, accept loop, idle monitor and owner; the system
    completes operations in any order. Callbacks are paired although several workers run them, stop
    frees nothing that the system still writes to, and sends leave in the order of the calls. The theorems
    on the two TCP servers assume that the 64-bit counter of connections has not wrapped.
  \<^item> \<open>Cpp_Sdk\<close>, \<open>Cpp_Sql\<close>, \<open>Cpp_Datagram\<close> (src/include/ServerEngine/Cpp): the C++ layer on the exports. Its poll returns
    events whole; a service lives exactly as long as an object refers to it, and every delivered result
    belongs to exactly one object, through moves, resets and destructors; so does every datagram endpoint.
  \<^item> \<open>Player_Store\<close>, \<open>Game_Server\<close> (src/examples/GameServer): the application's table of database requests is exact,
    players are well formed, and the destructor collects every outcome.
  \<^item> \<open>Signal_Room\<close>, \<open>Web_Server\<close> (src/examples/WebServer): calls of the signalling room never mix, a profile is
    answered to the request that asked for it, and JSON strings are read back as they were.

  \<^bold>\<open>Bounds.\<close> Loops of the sources are recursion over the data they consume and end by construction.
  Some bounds appear in statements: a SQL worker needs at most \<open>3 * max_outstanding + 3\<close> of its steps to
  end after stop (three critical sections for each accepted request, and the last look at the queue), and
  a Redis worker two for each pending request. While stop of the threaded server joins, its threads
  have at most \<open>10 + 8 * n\<close> steps left for \<open>n\<close> clients. \<open>drain_rest\<close> of the game server takes the number of
  pending requests as fuel, which is enough because each poll after the stop takes one entry off the table;
  \<open>poll_database\<close> and \<open>poll_profiles\<close> take the 64 and 16 of the code. Waits for a deadline are lists of what
  the worker does in between, of any length. The receive loop of a datagram endpoint takes the 64
  messages per pump that the code allows.

  \<^bold>\<open>Not modelled.\<close>
  \<^item> src/src/Port and the branches of the socket calls for other systems: wrappers of system calls.
  \<^item> The programs of src/examples that only read their arguments, call the interface and print
    (GameClient, DatagramTransport, RedisCache and the main functions), the bindings for other languages,
    and the tests.
  \<^item> Real time: deadlines and timeouts fire at any moment that the code's order allows.
\<close>

end
